(* ===== verification/Prelude.thy ===== *)
theory Prelude
  imports Main "HOL-Library.Char_ord" "HOL-Library.List_Lexorder" "HOL-Library.Product_Lexorder"
begin

text \<open>
  Shared vocabulary of the development: Go's errors and results, instants of time and their
  stored form, the outcome stream of the SQL engine, and the generic lemmas on lists,
  options and transition systems that the component theories use.

  \<^item> An error value is a \<open>go_error\<close>: a literal message, a message format with its
    arguments, a sentinel the code compares with \<open>errors.Is\<close>, a failure reported by code
    outside the repository (the SQL engine, the operating system), an error wrapped by
    \<open>fmt.Errorf\<close> with \<open>%w\<close> and the text beside it, or two errors under \<open>errors.Join\<close>
    (a join with \<open>nil\<close> is the other error).
    Rendering an error to text is not modelled; a reply carries the error value itself.
  \<^item> An instant (\<open>time.Time\<close>) is its count of nanoseconds since the epoch. The
    store keeps whole seconds (\<open>unix\<close>, \<open>fromUnix\<close>), so an instant loses
    its fraction on its way through a table. The zero \<open>time.Time\<close> is \<open>None\<close>
    where the code tests \<open>IsZero\<close>.
  \<^item> Strings are byte strings, compared bytewise as Go and SQLite's BINARY collation do.
\<close>

named_theorems table_simps \<open>how the tables change under a store operation\<close>
named_theorems frame_simps \<open>fields an operation leaves alone\<close>

section \<open>Errors and results\<close>

datatype go_error =
    ErrText string
  | ErrNotFound
  | ErrDriver string
  | ErrConstraint string
  | ErrCanceled
  | ErrUnsupportedSchema
  | ErrUnauthenticatedBind
  | ErrNotExist
  | ErrNoChanges
  | ErrTurnNotFound
  | ErrWindowMoved
  | ErrAbsent
  | ErrDraining
  | ErrProtocolMismatch
  | ErrIncumbentNewer
  | ErrMalformedReply
  | ErrOversize
  | ErrFormat string "string list"
  | ErrWrap string go_error
  | ErrJoin go_error go_error

type_synonym 'a result = "go_error + 'a"

fun err_is :: "go_error \<Rightarrow> go_error \<Rightarrow> bool" where
  "err_is (ErrWrap p e) t \<longleftrightarrow> ErrWrap p e = t \<or> err_is e t"
| "err_is (ErrJoin d e) t \<longleftrightarrow> ErrJoin d e = t \<or> err_is d t \<or> err_is e t"
| "err_is e t \<longleftrightarrow> e = t"

lemma err_is_refl [simp]: "err_is e e"
  by (cases e) simp_all

lemma err_is_wrap [simp]: "err_is e t \<Longrightarrow> err_is (ErrWrap p e) t"
  by simp

section \<open>Time\<close>

type_synonym instant = int

definition second :: instant where
  "second = 1000000000"

definition unix :: "instant \<Rightarrow> int" where
  "unix t = t div second"

definition fromUnix :: "int \<Rightarrow> instant" where
  "fromUnix n = n * second"

lemma second_pos [simp]: "0 < second"
  by (simp add: second_def)

lemma unix_fromUnix [simp]: "unix (fromUnix n) = n"
  by (simp add: unix_def fromUnix_def second_def)

lemma unix_mono: "s \<le> t \<Longrightarrow> unix s \<le> unix t"
  by (simp add: unix_def second_def zdiv_mono1)

lemma fromUnix_unix_le: "fromUnix (unix t) \<le> t"
  by (simp add: unix_def fromUnix_def second_def)

lemma fromUnix_less_iff [simp]: "fromUnix m < fromUnix n \<longleftrightarrow> m < n"
  by (simp add: fromUnix_def second_def)

section \<open>Lists\<close>

definition find_first :: "('a \<Rightarrow> bool) \<Rightarrow> 'a list \<Rightarrow> 'a option" where
  "find_first P xs = (case filter P xs of [] \<Rightarrow> None | x # _ \<Rightarrow> Some x)"

definition max_of :: "int list \<Rightarrow> int" where
  "max_of ns = (if ns = [] then 0 else Max (set ns))"

lemma find_first_None: "find_first P xs = None \<longleftrightarrow> (\<forall>x \<in> set xs. \<not> P x)"
  by (auto simp: find_first_def filter_empty_conv split: list.splits)
     (metis filter_eq_Cons_iff in_set_conv_decomp)

lemma find_first_SomeD: "find_first P xs = Some x \<Longrightarrow> x \<in> set xs \<and> P x"
proof -
  assume "find_first P xs = Some x"
  then obtain ys where "filter P xs = x # ys"
    by (auto simp: find_first_def split: list.splits)
  then have "x \<in> set (filter P xs)" by simp
  then show ?thesis by simp
qed

lemma find_first_append:
  "find_first P (xs @ ys) = (case find_first P xs of None \<Rightarrow> find_first P ys | Some x \<Rightarrow> Some x)"
  by (auto simp: find_first_def split: list.splits)

lemma find_first_Cons [simp]:
  "find_first P (x # xs) = (if P x then Some x else find_first P xs)"
  by (simp add: find_first_def)

lemma find_first_Nil [simp]: "find_first P [] = None"
  by (simp add: find_first_def)

lemma max_of_ge: "n \<in> set ns \<Longrightarrow> n \<le> max_of ns"
  by (auto simp: max_of_def)

lemma max_of_in: "ns \<noteq> [] \<Longrightarrow> max_of ns \<in> set ns"
  by (simp add: max_of_def)

lemma max_of_Nil [simp]: "max_of [] = 0"
  by (simp add: max_of_def)

lemma max_of_upto [simp]: "max_of [1..int n] = int n"
proof (cases n)
  case (Suc m)
  then have "Max {1..int n} = int n" by (intro Max_eqI) auto
  with Suc show ?thesis by (simp add: max_of_def)
qed simp

lemma upto_snoc: "[1..int n] @ [1 + int n] = [1..int n + 1]"
  using upto_rec2 [of 1 "int n + 1"] by (simp add: add.commute)

lemma sorted_last_ge: "sorted (map f xs) \<Longrightarrow> x \<in> set xs \<Longrightarrow> f x \<le> f (last xs)"
  by (induction xs) auto

lemma sorted_map_pair:
  fixes f :: "'a \<Rightarrow> 'b::linorder" and g :: "'a \<Rightarrow> 'c::linorder"
  shows "sorted (map f xs) \<Longrightarrow> sorted (map g xs) \<Longrightarrow> sorted (map (\<lambda>x. (f x, g x)) xs)"
  by (induction xs) (auto simp: less_eq_prod_def le_less)

lemma dense_tail:
  assumes "map f (xs @ ys) = [1..int (length (xs @ ys))]" and "y \<in> set ys"
  shows "int (length xs) < f y"
proof -
  obtain i where i: "i < length ys" "y = ys ! i" using assms(2) by (auto simp: in_set_conv_nth)
  have "f y = map f (xs @ ys) ! (length xs + i)" using i by (simp add: nth_append)
  also have "\<dots> = 1 + int (length xs + i)" unfolding assms(1) using i by (simp add: nth_upto)
  finally show ?thesis by simp
qed

lemma filter_map_same:
  assumes "\<And>x. x \<in> set xs \<Longrightarrow> P x \<Longrightarrow> P (f x) \<and> f x = x"
    and "\<And>x. x \<in> set xs \<Longrightarrow> \<not> P x \<Longrightarrow> \<not> P (f x)"
  shows "filter P (map f xs) = filter P xs"
  using assms by (induction xs) auto

lemma distinct_set_single:
  assumes "distinct xs" and "set xs = {x}"
  shows "xs = [x]"
proof (cases xs)
  case (Cons y ys)
  with assms have "y = x" by auto
  moreover have "ys = []" using assms Cons by (cases ys) auto
  ultimately show ?thesis using Cons by simp
qed (use assms in simp)

lemma sep_unique:
  "xs @ c # us = ys @ c # vs \<Longrightarrow> c \<notin> set xs \<Longrightarrow> c \<notin> set ys \<Longrightarrow> xs = ys \<and> us = vs"
proof (induction xs arbitrary: ys)
  case Nil
  then show ?case by (cases ys) auto
next
  case (Cons x xs)
  then show ?case by (cases ys) auto
qed

lemma map_cong_key: "(\<And>x. k (f x) = k x) \<Longrightarrow> map k (map f xs) = map k xs"
  by simp

lemma sorted_distinct_map_filter:
  "sorted (map f xs) \<Longrightarrow> sorted (map f (filter P xs))"
  by (rule sorted_filter)

lemma sort_key_id: "sorted (map f xs) \<Longrightarrow> sort_key f xs = xs"
  by (rule sort_key_id_if_sorted)

section \<open>Decimal numerals\<close>

text \<open>Go's \<open>strconv.Itoa\<close> and the \<open>%d\<close> verb.\<close>

definition digit_char :: "nat \<Rightarrow> char" where
  "digit_char n = ''0123456789'' ! (n mod 10)"

fun digits :: "nat \<Rightarrow> string" where
  "digits n = (if n < 10 then [digit_char n] else digits (n div 10) @ [digit_char n])"

declare digits.simps [simp del]

definition itoa :: "int \<Rightarrow> string" where
  "itoa i = (if i < 0 then CHR ''-'' # digits (nat (- i)) else digits (nat i))"

definition digit_value :: "char \<Rightarrow> nat" where
  "digit_value c = of_char c - 48"

definition undigits :: "string \<Rightarrow> nat" where
  "undigits cs = foldl (\<lambda>n c. 10 * n + digit_value c) 0 cs"

lemma digit_char_cases:
  "digit_char n \<in> set ''0123456789''" "digit_value (digit_char n) = n mod 10"
proof -
  have "n mod 10 = 0 \<or> n mod 10 = 1 \<or> n mod 10 = 2 \<or> n mod 10 = 3 \<or> n mod 10 = 4 \<or> n mod 10 = 5 \<or>
      n mod 10 = 6 \<or> n mod 10 = 7 \<or> n mod 10 = 8 \<or> n mod 10 = 9" by presburger
  then show "digit_char n \<in> set ''0123456789''" "digit_value (digit_char n) = n mod 10"
    by (auto simp: digit_char_def digit_value_def)
qed

lemma undigits_digits: "undigits (digits n) = n"
proof (induction n rule: digits.induct)
  case (1 n)
  show ?case
  proof (cases "n < 10")
    case False
    have "undigits (digits n) = 10 * undigits (digits (n div 10)) + n mod 10"
      using False by (subst digits.simps) (simp add: undigits_def digit_char_cases)
    then show ?thesis using 1 False by simp
  qed (subst digits.simps, simp add: undigits_def digit_char_cases)
qed

lemma digits_inj: "digits m = digits n \<Longrightarrow> m = n"
  by (metis undigits_digits)

lemma digits_chars: "set (digits n) \<subseteq> set ''0123456789''"
proof (induction n rule: digits.induct)
  case (1 n)
  then show ?case using digit_char_cases(1) [of n] by (subst digits.simps) auto
qed

lemma digits_not_minus: "CHR ''-'' \<notin> set (digits n)"
  using digits_chars [of n] by auto

lemma digits_nonempty [simp]: "digits n \<noteq> []"
  by (subst digits.simps) simp

lemma itoa_inj: "itoa i = itoa j \<Longrightarrow> i = j"
  using digits_not_minus [of "nat i"] digits_not_minus [of "nat j"]
  by (auto simp: itoa_def split: if_splits dest!: digits_inj) (metis list.set_intros(1))+

text \<open>\<open>strconv.ParseInt\<close> in base 10 for a bit size; \<open>strconv.Atoi\<close> is the 64-bit case.\<close>

definition all_digits :: "string \<Rightarrow> bool" where
  "all_digits cs \<longleftrightarrow> cs \<noteq> [] \<and> list_all (\<lambda>c. c \<in> set ''0123456789'') cs"

definition parseInt :: "nat \<Rightarrow> string \<Rightarrow> int option" where
  "parseInt bits v =
     (let neg = (take 1 v = ''-''); ds = (if take 1 v = ''-'' \<or> take 1 v = ''+'' then drop 1 v else v)
      in if \<not> all_digits ds then None
         else let n = (if neg then - int (undigits ds) else int (undigits ds))
              in if - (2 ^ (bits - 1)) \<le> n \<and> n < 2 ^ (bits - 1) then Some n else None)"

lemma all_digits_digits: "all_digits (digits n)"
  unfolding all_digits_def list_all_iff
proof (intro conjI ballI)
  show "c \<in> set ''0123456789''" if "c \<in> set (digits n)" for c using subsetD [OF digits_chars that] .
qed simp

lemma digits_head: "take 1 (digits n) \<noteq> ''-''" "take 1 (digits n) \<noteq> ''+''"
proof -
  have no: "d \<notin> set (digits n)" if "d \<notin> set ''0123456789''" for d using that digits_chars [of n] by blast
  have head: "take 1 (digits n) \<noteq> [d]" if "d \<notin> set (digits n)" for d using that by (cases "digits n") auto
  show "take 1 (digits n) \<noteq> ''-''" "take 1 (digits n) \<noteq> ''+''" by (rule head, rule no, simp)+
qed

lemma parseInt_itoa:
  assumes "- (2 ^ (bits - 1)) \<le> n" and "n < 2 ^ (bits - 1)"
  shows "parseInt bits (itoa n) = Some n"
proof (cases "n < 0")
  case True
  then show ?thesis using assms
    by (simp add: parseInt_def itoa_def Let_def all_digits_digits undigits_digits)
next
  case False
  have "parseInt bits (digits (nat n)) = Some (int (nat n))"
    using digits_head [of "nat n"] assms False
    unfolding parseInt_def Let_def by (simp only: if_False all_digits_digits undigits_digits simp_thms) simp
  then show ?thesis using False by (simp add: itoa_def)
qed

lemma parseInt_range: "parseInt bits v = Some n \<Longrightarrow> - (2 ^ (bits - 1)) \<le> n \<and> n < 2 ^ (bits - 1)"
  by (auto simp: parseInt_def Let_def split: if_splits)

text \<open>Running a list of operations that each queue some items and hand some out.\<close>

fun run_ops :: "('o \<Rightarrow> 's \<Rightarrow> ('i list \<times> 'i list) \<times> 's) \<Rightarrow> 'o list \<Rightarrow> 's \<Rightarrow> ('i list \<times> 'i list) \<times> 's" where
  "run_ops exec [] s = (([], []), s)"
| "run_ops exec (x # xs) s =
     (let ((qs, os), s') = exec x s; ((qs', os'), s'') = run_ops exec xs s'
      in ((qs @ qs', os @ os'), s''))"

section \<open>Invariants of transition systems\<close>

text \<open>
  A component whose behaviour depends on the interleaving of several callers is a start
  predicate and a step relation. The locale gives the one induction every such component
  uses: a property that holds at the start and is kept by each step holds in every
  reachable state.
\<close>

inductive reach :: "('s \<Rightarrow> bool) \<Rightarrow> ('s \<Rightarrow> 's \<Rightarrow> bool) \<Rightarrow> 's \<Rightarrow> bool"
  for start :: "'s \<Rightarrow> bool" and step :: "'s \<Rightarrow> 's \<Rightarrow> bool" where
  reach_start: "start s \<Longrightarrow> reach start step s"
| reach_step: "reach start step s \<Longrightarrow> step s t \<Longrightarrow> reach start step t"

locale invariant_of =
  fixes start :: "'s \<Rightarrow> bool"
    and step :: "'s \<Rightarrow> 's \<Rightarrow> bool"
    and inv :: "'s \<Rightarrow> bool"
  assumes start_inv: "start s \<Longrightarrow> inv s"
    and step_inv: "inv s \<Longrightarrow> step s t \<Longrightarrow> inv t"
begin

lemma reachable_inv: "reach start step s \<Longrightarrow> inv s"
  by (induction rule: reach.induct) (auto intro: start_inv step_inv)

lemma steps_inv: "inv s \<Longrightarrow> step\<^sup>*\<^sup>* s t \<Longrightarrow> inv t"
  by (rotate_tac, induction rule: rtranclp_induct) (auto intro: step_inv)

end

end
