(* ===== verification/Model_Types.thy ===== *)
theory Model_Types
  imports Prelude
begin

text \<open>
  The data of the program: the structs of the packages \<open>agent\<close>, \<open>event\<close> and
  \<open>subject\<close> as records, the status, origin and event-type constants, and the store's
  tables as lists of rows in rowid order. Rows are never deleted by any statement of the
  repository, so the position of a row in its list is its rowid order.

  A row holds what the column holds: whole seconds for an instant, \<open>None\<close> for NULL.
  Every store call takes the outcome of the SQL engine as its first argument: \<open>None\<close>
  when the engine carries the call out, \<open>Some m\<close> when it refuses with message
  \<open>m\<close> (a busy or broken database, a cancelled context). A refused call leaves the
  tables as they were: each call is one statement or one transaction, rolled back on error.
\<close>

section \<open>Package agent\<close>

definition TopLevel :: string where "TopLevel = ''''"

definition StatusRunning :: string where "StatusRunning = ''running''"
definition StatusDone :: string where "StatusDone = ''done''"

definition EventStarted :: string where "EventStarted = ''agent.started''"
definition EventStopped :: string where "EventStopped = ''agent.stopped''"
definition EventDirected :: string where "EventDirected = ''agent.directed''"
definition EventRelay :: string where "EventRelay = ''agent.relay''"
definition EventDelivered :: string where "EventDelivered = ''agent.delivered''"
definition EventLaunched :: string where "EventLaunched = ''agent.launched''"
definition EventResult :: string where "EventResult = ''agent.result''"
definition EventForcedAllow :: string where "EventForcedAllow = ''agent.gate.forced_allow''"

lemmas agent_consts = TopLevel_def StatusRunning_def StatusDone_def EventStarted_def
  EventStopped_def EventDirected_def EventRelay_def EventDelivered_def EventLaunched_def
  EventResult_def EventForcedAllow_def

record Info =
  ai_SubjectID :: string
  ai_AgentID :: string
  ai_ParentAgentID :: string
  ai_AgentType :: string
  ai_SessionID :: string
  ai_TranscriptPath :: string
  ai_Status :: string
  ai_StartedAt :: instant
  ai_EndedAt :: "instant option"

record Directive =
  d_ID :: int
  d_SubjectID :: string
  d_AgentID :: string
  d_Origin :: string
  d_Text :: string
  d_CreatedAt :: instant
  d_DeliveredAt :: "instant option"

section \<open>Package event\<close>

definition OriginAgent :: string where "OriginAgent = ''agent''"
definition OriginHuman :: string where "OriginHuman = ''human''"
definition OriginSystem :: string where "OriginSystem = ''system''"
definition OriginEvent :: string where "OriginEvent = ''event''"
definition OriginSupersede :: string where "OriginSupersede = ''supersede''"
definition TypeWindowMoved :: string where "TypeWindowMoved = ''channel.window_moved''"

lemmas event_consts = OriginAgent_def OriginHuman_def OriginSystem_def OriginEvent_def
  OriginSupersede_def TypeWindowMoved_def

record Event =
  e_SubjectID :: string
  e_Seq :: int
  e_Origin :: string
  e_Type :: string
  e_Payload :: string
  e_CreatedAt :: instant
  e_DedupKey :: string

section \<open>Package subject\<close>

record Subject =
  s_ID :: string
  s_Slug :: string
  s_SessionID :: string
  s_Scope :: string
  s_ClaudePID :: int
  s_Status :: string
  s_CreatedAt :: instant
  s_UpdatedAt :: instant

record Window =
  w_Session :: string
  w_ClaudePID :: int

record Lifecycle =
  lc_Initial :: string
  lc_Closed :: string

section \<open>Tables\<close>

record subject_row =
  sb_id :: string
  sb_slug :: string
  sb_session :: "string option"
  sb_scope :: string
  sb_pid :: int
  sb_status :: string
  sb_created :: int
  sb_updated :: int

record event_row =
  ev_subject :: string
  ev_seq :: int
  ev_origin :: string
  ev_type :: string
  ev_payload :: string
  ev_created :: int
  ev_dedup :: "string option"

record agent_row =
  ag_subject :: string
  ag_agent :: string
  ag_parent :: string
  ag_type :: string
  ag_session :: string
  ag_transcript :: string
  ag_status :: string
  ag_started :: int
  ag_ended :: "int option"

record directive_row =
  dr_id :: int
  dr_subject :: string
  dr_agent :: string
  dr_origin :: string
  dr_text :: string
  dr_created :: int
  dr_delivered :: "int option"

record db =
  subjects :: "subject_row list"
  events :: "event_row list"
  agents :: "agent_row list"
  directives :: "directive_row list"

definition empty_db :: db where
  "empty_db = \<lparr>subjects = [], events = [], agents = [], directives = []\<rparr>"

section \<open>One store call\<close>

type_synonym outcome = "string option"

definition db_call :: "outcome \<Rightarrow> (db \<Rightarrow> 'a result \<times> db) \<Rightarrow> db \<Rightarrow> 'a result \<times> db" where
  "db_call flt body d = (case flt of None \<Rightarrow> body d | Some m \<Rightarrow> (Inl (ErrDriver m), d))"

lemma db_call_None [simp]: "db_call None body = body"
  by (simp add: db_call_def fun_eq_iff)

lemma db_call_Some [simp]: "db_call (Some m) body d = (Inl (ErrDriver m), d)"
  by (simp add: db_call_def)

lemma db_call_inv: "I d \<Longrightarrow> I (snd (body d)) \<Longrightarrow> I (snd (db_call flt body d))"
  by (cases flt) simp_all

text \<open>A Go string goes into a nullable column as NULL when empty, and NULL reads back as empty.\<close>

definition nullString :: "string \<Rightarrow> string option" where
  "nullString s = (if s = [] then None else Some s)"

definition ofNull :: "string option \<Rightarrow> string" where
  "ofNull x = (case x of None \<Rightarrow> [] | Some s \<Rightarrow> s)"

lemma ofNull_nullString [simp]: "ofNull (nullString s) = s"
  by (simp add: ofNull_def nullString_def)

lemma nullString_eq_Some [simp]: "nullString s = Some t \<longleftrightarrow> s = t \<and> s \<noteq> []"
  by (auto simp: nullString_def)

text \<open>The constraint that \<open>subject_id REFERENCES subjects(id)\<close> puts on every child row.\<close>

definition known_subject :: "db \<Rightarrow> string \<Rightarrow> bool" where
  "known_subject d sid \<longleftrightarrow> list_ex (\<lambda>r. sb_id r = sid) (subjects d)"

definition foreign_key_failed :: go_error where
  "foreign_key_failed = ErrConstraint ''FOREIGN KEY''"

definition unique_failed :: go_error where
  "unique_failed = ErrConstraint ''UNIQUE''"

end
