(* ===== verification/Store_Events.thy ===== *)
theory Store_Events
  imports Model_Types
begin

text \<open>
  The event log of the store (\<open>store/events.go\<close>): appending an event and reading the
  log past a cursor. The interface \<open>event_log\<close> states what a reader relies on (dense
  per-subject sequence numbers, a read that is a filter of the log, a log that only grows)
  and derives that polling with the last seen number misses nothing and repeats nothing.
\<close>

section \<open>Operations\<close>

definition scanEvent :: "event_row \<Rightarrow> Event" where
  "scanEvent r =
     \<lparr>e_SubjectID = ev_subject r, e_Seq = ev_seq r, e_Origin = ev_origin r,
      e_Type = ev_type r, e_Payload = ev_payload r, e_CreatedAt = fromUnix (ev_created r),
      e_DedupKey = ofNull (ev_dedup r)\<rparr>"

text \<open>
  The insertion with the constraints of the table: the foreign key on the subject, the
  primary key \<open>(subject_id, seq)\<close> and the unique index on \<open>(subject_id, dedup_key)\<close>.
\<close>

definition insert_event :: "event_row \<Rightarrow> db \<Rightarrow> unit result \<times> db" where
  "insert_event r d =
     (if \<not> known_subject d (ev_subject r) then (Inl foreign_key_failed, d)
      else if list_ex (\<lambda>q. ev_subject q = ev_subject r \<and>
                (ev_seq q = ev_seq r \<or> (ev_dedup r \<noteq> None \<and> ev_dedup q = ev_dedup r)))
              (events d)
      then (Inl unique_failed, d)
      else (Inr (), d\<lparr>events := events d @ [r]\<rparr>))"

definition AppendEvent :: "outcome \<Rightarrow> instant \<Rightarrow> Event \<Rightarrow> db \<Rightarrow> (int \<times> Event) result \<times> db" where
  "AppendEvent flt now e = db_call flt (\<lambda>d.
     let payload = (if e_Payload e = [] then ''{}'' else e_Payload e);
         seen = (if e_DedupKey e \<noteq> []
                 then find_first (\<lambda>r. ev_subject r = e_SubjectID e \<and>
                        ev_dedup r = Some (e_DedupKey e)) (events d)
                 else None)
     in case seen of
          Some r \<Rightarrow> (Inr (ev_seq r, e), d)
        | None \<Rightarrow>
            let seq = max_of (map ev_seq (filter (\<lambda>r. ev_subject r = e_SubjectID e) (events d))) + 1
            in case insert_event
                      \<lparr>ev_subject = e_SubjectID e, ev_seq = seq, ev_origin = e_Origin e,
                       ev_type = e_Type e, ev_payload = payload, ev_created = unix now,
                       ev_dedup = nullString (e_DedupKey e)\<rparr> d of
                 (Inl er, d') \<Rightarrow> (Inl (ErrWrap ''insert event'' er), d')
               | (Inr _, d') \<Rightarrow> (Inr (seq, e\<lparr>e_Seq := seq\<rparr>), d'))"

definition EventsSince :: "outcome \<Rightarrow> string \<Rightarrow> int \<Rightarrow> string \<Rightarrow> db \<Rightarrow> Event list result \<times> db" where
  "EventsSince flt subjectID cursor excludeOrigin = db_call flt (\<lambda>d.
     (Inr (map scanEvent (sort_key ev_seq
        (filter (\<lambda>r. ev_subject r = subjectID \<and> cursor < ev_seq r \<and>
                     (excludeOrigin \<noteq> [] \<longrightarrow> ev_origin r \<noteq> excludeOrigin)) (events d)))), d))"

text \<open>A run of appends, whatever each of them answers.\<close>

fun append_all :: "(outcome \<times> instant \<times> Event) list \<Rightarrow> db \<Rightarrow> db" where
  "append_all [] d = d"
| "append_all ((flt, now, e) # es) d = append_all es (snd (AppendEvent flt now e d))"

section \<open>The log of a subject\<close>

definition log_of :: "db \<Rightarrow> string \<Rightarrow> event_row list" where
  "log_of d sid = filter (\<lambda>r. ev_subject r = sid) (events d)"

definition dense :: "db \<Rightarrow> bool" where
  "dense d \<longleftrightarrow> (\<forall>sid. map ev_seq (log_of d sid) = [1..int (length (log_of d sid))])"

definition dedup_unique :: "db \<Rightarrow> bool" where
  "dedup_unique d \<longleftrightarrow>
     distinct (map (\<lambda>r. (ev_subject r, ev_dedup r)) (filter (\<lambda>r. ev_dedup r \<noteq> None) (events d)))"

definition events_owned :: "db \<Rightarrow> bool" where
  "events_owned d \<longleftrightarrow> (\<forall>r \<in> set (events d). known_subject d (ev_subject r))"

definition log_inv :: "db \<Rightarrow> bool" where
  "log_inv d \<longleftrightarrow> dense d \<and> dedup_unique d \<and> events_owned d"

lemma denseD: "dense d \<Longrightarrow> map ev_seq (log_of d sid) = [1..int (length (log_of d sid))]"
  by (simp add: dense_def)

lemma dense_next_seq:
  assumes "dense d"
  shows "max_of (map ev_seq (filter (\<lambda>r. ev_subject r = sid) (events d))) + 1
    = int (Suc (length (log_of d sid)))"
  using denseD [OF assms, of sid] by (simp add: log_of_def)

lemma log_seq_bound:
  assumes "dense d" and "r \<in> set (events d)"
  shows "1 \<le> ev_seq r \<and> ev_seq r \<le> int (length (log_of d (ev_subject r)))"
proof -
  have "r \<in> set (log_of d (ev_subject r))" using assms(2) by (simp add: log_of_def)
  then have "ev_seq r \<in> set (map ev_seq (log_of d (ev_subject r)))" by simp
  then show ?thesis unfolding denseD [OF assms(1)] by simp
qed

text \<open>Under the invariant the only constraint an append can meet is the foreign key.\<close>

lemma insert_event_ok:
  assumes "log_inv d" and "known_subject d sid" and "ev_subject r = sid"
    and "ev_seq r = int (Suc (length (log_of d sid)))"
    and "\<And>q. q \<in> set (events d) \<Longrightarrow> ev_subject q = sid \<Longrightarrow> ev_dedup r = None \<or> ev_dedup q \<noteq> ev_dedup r"
  shows "insert_event r d = (Inr (), d\<lparr>events := events d @ [r]\<rparr>)"
proof -
  have fresh: "ev_seq q \<noteq> ev_seq r" if "q \<in> set (events d)" and "ev_subject q = sid" for q
    using log_seq_bound [of d q] that assms(1,4) by (auto simp: log_inv_def)
  have "\<not> list_ex (\<lambda>q. ev_subject q = ev_subject r \<and>
      (ev_seq q = ev_seq r \<or> (ev_dedup r \<noteq> None \<and> ev_dedup q = ev_dedup r))) (events d)"
    using fresh assms(3,5) by (auto simp: list_ex_iff)
  then show ?thesis using assms(2,3) by (simp add: insert_event_def)
qed

lemma log_of_snoc: "log_of (d\<lparr>events := events d @ [r]\<rparr>) sid =
    log_of d sid @ (if ev_subject r = sid then [r] else [])"
  by (simp add: log_of_def)

lemma log_inv_snoc:
  assumes "log_inv d" and "known_subject d (ev_subject r)"
    and "ev_seq r = int (Suc (length (log_of d (ev_subject r))))"
    and "\<And>q. q \<in> set (events d) \<Longrightarrow> ev_subject q = ev_subject r \<Longrightarrow> ev_dedup r = None \<or> ev_dedup q \<noteq> ev_dedup r"
  shows "log_inv (d\<lparr>events := events d @ [r]\<rparr>)"
proof -
  have "dense (d\<lparr>events := events d @ [r]\<rparr>)"
    using assms(1,3) by (auto simp: dense_def log_of_snoc log_inv_def upto_snoc)
  moreover have "dedup_unique (d\<lparr>events := events d @ [r]\<rparr>)"
    using assms(1,4) by (fastforce simp: dedup_unique_def log_inv_def)
  moreover have "events_owned (d\<lparr>events := events d @ [r]\<rparr>)"
    using assms(1,2) by (auto simp: events_owned_def log_inv_def known_subject_def)
  ultimately show ?thesis by (simp add: log_inv_def)
qed

text \<open>The body of an append, by cases: a duplicate, an unknown subject, or one row more.\<close>

definition append_row :: "instant \<Rightarrow> Event \<Rightarrow> db \<Rightarrow> event_row" where
  "append_row now e d =
     \<lparr>ev_subject = e_SubjectID e, ev_seq = int (Suc (length (log_of d (e_SubjectID e)))),
      ev_origin = e_Origin e, ev_type = e_Type e,
      ev_payload = (if e_Payload e = [] then ''{}'' else e_Payload e),
      ev_created = unix now, ev_dedup = nullString (e_DedupKey e)\<rparr>"

definition seen_row :: "Event \<Rightarrow> db \<Rightarrow> event_row option" where
  "seen_row e d =
     (if e_DedupKey e \<noteq> []
      then find_first (\<lambda>r. ev_subject r = e_SubjectID e \<and> ev_dedup r = Some (e_DedupKey e)) (events d)
      else None)"

lemma append_row_sel [simp]:
  "ev_subject (append_row now e d) = e_SubjectID e"
  "ev_seq (append_row now e d) = int (Suc (length (log_of d (e_SubjectID e))))"
  "ev_dedup (append_row now e d) = nullString (e_DedupKey e)"
  "ev_type (append_row now e d) = e_Type e"
  "ev_origin (append_row now e d) = e_Origin e"
  by (simp_all add: append_row_def)

lemma seen_row_None:
  assumes "seen_row e d = None" and "q \<in> set (events d)" and "ev_subject q = e_SubjectID e"
  shows "nullString (e_DedupKey e) = None \<or> ev_dedup q \<noteq> nullString (e_DedupKey e)"
  using assms by (auto simp: find_first_None seen_row_def nullString_def split: if_splits)

lemma append_body:
  assumes "log_inv d"
  shows "AppendEvent None now e d =
    (case seen_row e d of
       Some r \<Rightarrow> (Inr (ev_seq r, e), d)
     | None \<Rightarrow>
         if known_subject d (e_SubjectID e)
         then (Inr (ev_seq (append_row now e d), e\<lparr>e_Seq := ev_seq (append_row now e d)\<rparr>),
               d\<lparr>events := events d @ [append_row now e d]\<rparr>)
         else (Inl (ErrWrap ''insert event'' foreign_key_failed), d))"
proof -
  have seq: "max_of (map ev_seq (filter (\<lambda>r. ev_subject r = e_SubjectID e) (events d))) + 1 =
      int (Suc (length (log_of d (e_SubjectID e))))"
    using dense_next_seq assms by (simp add: log_inv_def)
  have row: "\<lparr>ev_subject = e_SubjectID e, ev_seq = int (Suc (length (log_of d (e_SubjectID e)))),
      ev_origin = e_Origin e, ev_type = e_Type e,
      ev_payload = (if e_Payload e = [] then ''{}'' else e_Payload e),
      ev_created = unix now, ev_dedup = nullString (e_DedupKey e)\<rparr> = append_row now e d"
    by (simp add: append_row_def)
  have ins: "insert_event (append_row now e d) d =
      (if known_subject d (e_SubjectID e) then (Inr (), d\<lparr>events := events d @ [append_row now e d]\<rparr>)
       else (Inl foreign_key_failed, d))" if "seen_row e d = None"
    using insert_event_ok [OF assms, of "e_SubjectID e" "append_row now e d"]
      seen_row_None [OF that] by (auto simp: insert_event_def)
  show ?thesis
  proof (cases "seen_row e d")
    case None
    show ?thesis
      unfolding AppendEvent_def db_call_None Let_def seq row
      using None ins [OF None] by (simp add: seen_row_def)
  next
    case (Some r)
    then show ?thesis by (simp add: AppendEvent_def seen_row_def)
  qed
qed

lemma append_refused [simp]: "AppendEvent (Some m) now e d = (Inl (ErrDriver m), d)"
  by (simp add: AppendEvent_def)

text \<open>An append keeps the invariant and only ever adds rows at the end.\<close>

lemma append_log_inv: "log_inv d \<Longrightarrow> log_inv (snd (AppendEvent flt now e d))"
proof (cases flt)
  case None
  assume inv: "log_inv d"
  have "log_inv (d\<lparr>events := events d @ [append_row now e d]\<rparr>)"
    if "seen_row e d = None" and "known_subject d (e_SubjectID e)"
    using log_inv_snoc [OF inv, of "append_row now e d"] seen_row_None [OF that(1)] that(2) by simp
  then show ?thesis using inv None by (auto simp: append_body split: option.splits)
qed simp

lemma append_extends: "log_inv d \<Longrightarrow> \<exists>more. events (snd (AppendEvent flt now e d)) = events d @ more"
  by (cases flt) (auto simp: append_body split: option.splits)

lemma append_frame [frame_simps]:
  "subjects (snd (AppendEvent flt now e d)) = subjects d"
  "agents (snd (AppendEvent flt now e d)) = agents d"
  "directives (snd (AppendEvent flt now e d)) = directives d"
  by (cases flt; auto simp: AppendEvent_def insert_event_def Let_def split: option.splits prod.splits sum.splits if_splits)+

lemma append_all_log_inv: "log_inv d \<Longrightarrow> log_inv (append_all es d)"
  by (induction es d rule: append_all.induct) (auto intro: append_log_inv)

lemma append_all_extends: "log_inv d \<Longrightarrow> \<exists>more. events (append_all es d) = events d @ more"
proof (induction es d rule: append_all.induct)
  case (2 flt now e es d)
  obtain xs where "events (snd (AppendEvent flt now e d)) = events d @ xs"
    using append_extends [OF 2(2)] by blast
  with 2 append_log_inv [OF 2(2)] show ?case by fastforce
qed simp

section \<open>Reading the log\<close>

definition wanted :: "string \<Rightarrow> int \<Rightarrow> string \<Rightarrow> event_row \<Rightarrow> bool" where
  "wanted sid cursor ex r \<longleftrightarrow> ev_subject r = sid \<and> cursor < ev_seq r \<and> (ex \<noteq> [] \<longrightarrow> ev_origin r \<noteq> ex)"

lemma log_sorted: "dense d \<Longrightarrow> sorted (map ev_seq (log_of d sid))"
  by (simp add: denseD)

lemma EventsSince_body:
  assumes "dense d"
  shows "EventsSince None sid cursor ex d =
    (Inr (map scanEvent (filter (\<lambda>r. cursor < ev_seq r \<and> (ex \<noteq> [] \<longrightarrow> ev_origin r \<noteq> ex)) (log_of d sid))), d)"
proof -
  have "filter (\<lambda>r. ev_subject r = sid \<and> cursor < ev_seq r \<and> (ex \<noteq> [] \<longrightarrow> ev_origin r \<noteq> ex)) (events d)
      = filter (\<lambda>r. cursor < ev_seq r \<and> (ex \<noteq> [] \<longrightarrow> ev_origin r \<noteq> ex)) (log_of d sid)"
    by (simp add: log_of_def conj_commute conj_left_commute)
  then show ?thesis
    using sorted_filter [OF log_sorted [OF assms]] by (simp add: EventsSince_def sort_key_id)
qed

lemma EventsSince_state [simp]: "snd (EventsSince flt sid cursor ex d) = d"
  by (cases flt) (simp_all add: EventsSince_def)

section \<open>The interface of a log\<close>

text \<open>
  What a polling reader relies on: the numbers of a subject's log are \<open>1, 2, \<dots>\<close>, a read
  past a cursor is the log filtered, and the log only grows.
\<close>

definition high_water :: "int \<Rightarrow> Event list \<Rightarrow> int" where
  "high_water cursor evs = (if evs = [] then cursor else e_Seq (last evs))"

locale event_log =
  fixes content :: "'s \<Rightarrow> string \<Rightarrow> Event list"
    and since :: "string \<Rightarrow> int \<Rightarrow> string \<Rightarrow> 's \<Rightarrow> Event list"
    and grows :: "'s \<Rightarrow> 's \<Rightarrow> bool"
    and inv :: "'s \<Rightarrow> bool"
  assumes content_seqs: "inv s \<Longrightarrow> map e_Seq (content s sid) = [1..int (length (content s sid))]"
    and since_content: "inv s \<Longrightarrow> since sid c ex s =
          filter (\<lambda>e. c < e_Seq e \<and> (ex \<noteq> [] \<longrightarrow> e_Origin e \<noteq> ex)) (content s sid)"
    and grows_content: "inv s \<Longrightarrow> grows s t \<Longrightarrow> \<exists>more. content t sid = content s sid @ more"
    and grows_inv: "inv s \<Longrightarrow> grows s t \<Longrightarrow> inv t"
begin

lemma since_sorted: "inv s \<Longrightarrow> sorted (map e_Seq (since sid c ex s)) \<and> distinct (map e_Seq (since sid c ex s))"
proof -
  assume "inv s"
  then have "sorted (map e_Seq (content s sid)) \<and> distinct (map e_Seq (content s sid))"
    by (simp add: content_seqs)
  then show ?thesis using \<open>inv s\<close> by (simp add: since_content sorted_filter distinct_map_filter)
qed

lemma since_past_high_water:
  assumes "inv s" and "e \<in> set (content s sid)" and "high_water c (since sid c ex s) < e_Seq e"
  shows "\<not> (c < e_Seq e \<and> (ex \<noteq> [] \<longrightarrow> e_Origin e \<noteq> ex))"
proof
  assume "c < e_Seq e \<and> (ex \<noteq> [] \<longrightarrow> e_Origin e \<noteq> ex)"
  then have mem: "e \<in> set (since sid c ex s)" using assms(1,2) by (auto simp: since_content)
  then have ne: "since sid c ex s \<noteq> []" by auto
  have "e_Seq e \<le> e_Seq (last (since sid c ex s))"
    using since_sorted [OF assms(1), of sid c ex] mem by (blast intro: sorted_last_ge)
  with assms(3) ne show False by (simp add: high_water_def)
qed

lemma poll_resume:
  assumes "inv s" and "grows s t"
  shows "since sid c ex s @ since sid (high_water c (since sid c ex s)) ex t = since sid c ex t"
proof -
  let ?h = "high_water c (since sid c ex s)"
  obtain more where more: "content t sid = content s sid @ more"
    using grows_content [OF assms] by blast
  have t: "inv t" by (rule grows_inv [OF assms])
  have len: "int (length (content s sid)) < e_Seq e" if "e \<in> set more" for e
    using dense_tail [of e_Seq "content s sid" more e] content_seqs [OF t, of sid] more that by simp
  have bound: "?h \<le> int (length (content s sid)) \<or> since sid c ex s = []"
  proof (cases "since sid c ex s = []")
    case False
    then have "last (since sid c ex s) \<in> set (content s sid)"
      using last_in_set [OF False] assms(1) by (auto simp: since_content)
    then have "e_Seq (last (since sid c ex s)) \<in> set (map e_Seq (content s sid))" by simp
    then show ?thesis using False content_seqs [OF assms(1), of sid] by (simp add: high_water_def)
  qed simp
  have ch: "since sid c ex s = [] \<or> c < ?h"
    using last_in_set [of "since sid c ex s"] assms(1) by (auto simp: since_content high_water_def)
  have old: "filter (\<lambda>e. ?h < e_Seq e \<and> (ex \<noteq> [] \<longrightarrow> e_Origin e \<noteq> ex)) (content s sid) = []"
    using since_past_high_water [OF assms(1), of _ sid c ex] ch
    by (fastforce simp: filter_empty_conv high_water_def)
  have new: "filter (\<lambda>e. ?h < e_Seq e \<and> (ex \<noteq> [] \<longrightarrow> e_Origin e \<noteq> ex)) more
      = filter (\<lambda>e. c < e_Seq e \<and> (ex \<noteq> [] \<longrightarrow> e_Origin e \<noteq> ex)) more"
    using len bound ch by (intro filter_cong) (fastforce simp: high_water_def)+
  show ?thesis
    using since_content [OF t, of sid c ex] since_content [OF t, of sid ?h ex] since_content [OF assms(1), of sid c ex]
      more old new by simp
qed

end

section \<open>The store provides the interface\<close>

definition read_log :: "string \<Rightarrow> int \<Rightarrow> string \<Rightarrow> db \<Rightarrow> Event list" where
  "read_log sid c ex d = (case fst (EventsSince None sid c ex d) of Inl _ \<Rightarrow> [] | Inr evs \<Rightarrow> evs)"

definition appended_to :: "db \<Rightarrow> db \<Rightarrow> bool" where
  "appended_to d d' \<longleftrightarrow> (\<exists>es. d' = append_all es d)"

lemma scanEvent_sel [simp]:
  "e_Seq (scanEvent r) = ev_seq r" "e_Origin (scanEvent r) = ev_origin r" "e_Type (scanEvent r) = ev_type r"
  "e_SubjectID (scanEvent r) = ev_subject r" "e_Payload (scanEvent r) = ev_payload r"
  by (simp_all add: scanEvent_def)

lemma read_log_eq: "log_inv d \<Longrightarrow> read_log sid c ex d =
    filter (\<lambda>e. c < e_Seq e \<and> (ex \<noteq> [] \<longrightarrow> e_Origin e \<noteq> ex)) (map scanEvent (log_of d sid))"
  by (simp add: read_log_def EventsSince_body log_inv_def filter_map o_def)

lemma EventsSince_read_log: "EventsSince None sid c ex d = (Inr (read_log sid c ex d), d)"
  by (simp add: read_log_def EventsSince_def)

interpretation sql_log: event_log "\<lambda>d sid. map scanEvent (log_of d sid)" read_log appended_to log_inv
proof
  show "map e_Seq (map scanEvent (log_of s sid)) = [1..int (length (map scanEvent (log_of s sid)))]"
    if "log_inv s" for s sid
    using that by (simp add: o_def log_inv_def denseD)
  show "\<exists>more. map scanEvent (log_of t sid) = map scanEvent (log_of s sid) @ more"
    if inv: "log_inv s" and grown: "appended_to s t" for s t sid
  proof -
    obtain es where "t = append_all es s" using grown by (auto simp: appended_to_def)
    then obtain more where "events t = events s @ more" using append_all_extends [OF inv] by blast
    then show ?thesis by (simp add: log_of_def)
  qed
qed (auto simp: read_log_eq appended_to_def append_all_log_inv)

section \<open>Properties\<close>

lemma log_inv_fresh: "log_inv (d\<lparr>events := []\<rparr>)"
  by (simp add: log_inv_def dense_def log_of_def dedup_unique_def events_owned_def)

text \<open>
  C1: The per-subject sequence numbers are gap-free and monotonic. After any run of appends
  to a store whose log is empty, whatever subjects, duplicates, unknown subjects and engine
  failures the run contains, the rows of each subject carry exactly the numbers
  \<open>1, 2, \<dots>, n\<close> in insertion order.
\<close>

theorem append_all_dense:
  "map ev_seq (log_of (append_all es (d\<lparr>events := []\<rparr>)) sid)
     = [1..int (length (log_of (append_all es (d\<lparr>events := []\<rparr>)) sid))]"
  using append_all_log_inv [OF log_inv_fresh, of es d] by (simp add: log_inv_def denseD)

lemma append_dedup_first:
  assumes "AppendEvent None now e d = (Inr (n, e1), d1)" and "e_DedupKey e \<noteq> []"
  shows "\<exists>r. find_first (\<lambda>r. ev_subject r = e_SubjectID e \<and> ev_dedup r = Some (e_DedupKey e)) (events d1) = Some r
    \<and> ev_seq r = n"
  using assms
  by (auto simp: AppendEvent_def Let_def insert_event_def find_first_append
      split: option.splits if_splits prod.splits sum.splits)

lemma append_extends_any: "\<exists>more. events (snd (AppendEvent flt now e d)) = events d @ more"
  by (cases flt) (auto simp: AppendEvent_def insert_event_def Let_def split: option.splits)

lemma append_all_extends_any: "\<exists>more. events (append_all es d) = events d @ more"
proof (induction es d rule: append_all.induct)
  case (2 flt now e es d)
  then show ?case using append_extends_any [of flt now e d] by (metis append.assoc append_all.simps(2))
qed simp

text \<open>
  A dedup key is stable. Once an event with a non-empty key has been accepted under
  number \<open>n\<close>, then after any further run of appends, appending an event of the same
  subject with that key answers \<open>n\<close> again and writes nothing.
\<close>

theorem append_dedup_stable:
  assumes "AppendEvent None now e d = (Inr (n, e1), d1)" and "e_DedupKey e \<noteq> []"
    and "e_SubjectID e' = e_SubjectID e" and "e_DedupKey e' = e_DedupKey e"
  shows "AppendEvent None now' e' (append_all es d1) = (Inr (n, e'), append_all es d1)"
proof -
  obtain r where r: "find_first (\<lambda>r. ev_subject r = e_SubjectID e \<and> ev_dedup r = Some (e_DedupKey e)) (events d1) = Some r"
    "ev_seq r = n" using append_dedup_first [OF assms(1,2)] by blast
  obtain more where "events (append_all es d1) = events d1 @ more" using append_all_extends_any by blast
  then have "find_first (\<lambda>r. ev_subject r = e_SubjectID e' \<and> ev_dedup r = Some (e_DedupKey e'))
      (events (append_all es d1)) = Some r"
    using r assms(3,4) by (simp add: find_first_append)
  then show ?thesis using r assms(2,4) by (simp add: AppendEvent_def)
qed

definition sample_owner :: subject_row where
  "sample_owner = \<lparr>sb_id = ''s1'', sb_slug = ''slug'', sb_session = Some ''sess'', sb_scope = ''/repo'',
     sb_pid = 7, sb_status = ''open'', sb_created = 0, sb_updated = 0\<rparr>"

definition sample_event :: "string \<Rightarrow> string \<Rightarrow> string \<Rightarrow> Event" where
  "sample_event origin payload key = \<lparr>e_SubjectID = ''s1'', e_Seq = 0, e_Origin = origin,
     e_Type = ''note'', e_Payload = payload, e_CreatedAt = 0, e_DedupKey = key\<rparr>"

definition sample_db :: db where
  "sample_db = empty_db\<lparr>subjects := [sample_owner]\<rparr>"

lemmas sample_simps = sample_owner_def sample_event_def sample_db_def empty_db_def

lemma sample_db_inv: "log_inv sample_db"
  using log_inv_fresh [of sample_db] by (simp add: sample_simps)

lemma sample_append:
  "AppendEvent None 5 (sample_event ''human'' ''{}'' ''k'') sample_db =
     (Inr (1, (sample_event ''human'' ''{}'' ''k'')\<lparr>e_Seq := 1\<rparr>),
      sample_db\<lparr>events := [append_row 5 (sample_event ''human'' ''{}'' ''k'') sample_db]\<rparr>)"
  by (simp add: append_body [OF sample_db_inv])
     (simp add: sample_simps seen_row_def known_subject_def log_of_def)

theorem append_dedup_stable_witness:
  "\<exists>d1. AppendEvent None 5 (sample_event ''human'' ''{}'' ''k'') sample_db =
      (Inr (1, (sample_event ''human'' ''{}'' ''k'')\<lparr>e_Seq := 1\<rparr>), d1) \<and>
    AppendEvent None 9 (sample_event ''agent'' ''{1}'' ''k'') (append_all [(None, 6, sample_event ''human'' [] [])] d1) =
      (Inr (1, sample_event ''agent'' ''{1}'' ''k''), append_all [(None, 6, sample_event ''human'' [] [])] d1)"
proof -
  have "e_DedupKey (sample_event ''human'' ''{}'' ''k'') \<noteq> []"
    and "e_SubjectID (sample_event ''agent'' ''{1}'' ''k'') = e_SubjectID (sample_event ''human'' ''{}'' ''k'')"
    and "e_DedupKey (sample_event ''agent'' ''{1}'' ''k'') = e_DedupKey (sample_event ''human'' ''{}'' ''k'')"
    by (simp_all add: sample_event_def)
  from append_dedup_stable [OF sample_append this] sample_append show ?thesis by blast
qed

text \<open>
  C2: Polling with the number of the last event received neither skips nor repeats. Reading
  past \<open>cursor\<close>, and, after any further appends, reading past the last number of that
  first read, gives together exactly what one read past \<open>cursor\<close> would give at the
  end, with or without an excluded origin.
\<close>

theorem poll_resume_exact:
  assumes "log_inv d"
    and "EventsSince None sid cursor ex d = (Inr evs, d1)"
    and "EventsSince None sid (high_water cursor evs) ex (append_all es d) = (Inr evs', d2)"
  shows "EventsSince None sid cursor ex (append_all es d) = (Inr (evs @ evs'), append_all es d)"
proof -
  have "appended_to d (append_all es d)" by (auto simp: appended_to_def)
  from sql_log.poll_resume [OF assms(1) this, of sid cursor ex] assms(2,3) show ?thesis
    by (auto simp: EventsSince_read_log)
qed

theorem poll_resume_exact_witness:
  "let d = append_all [(None, 6, sample_event ''human'' ''{1}'' [])] sample_db;
       d' = append_all [(None, 7, sample_event ''agent'' ''{2}'' []), (None, 8, sample_event ''human'' ''{3}'' [])] d
   in map e_Seq (read_log ''s1'' 0 ''agent'' d) = [1] \<and>
      map e_Seq (read_log ''s1'' 1 ''agent'' d') = [3] \<and>
      EventsSince None ''s1'' 0 ''agent'' d' = (Inr (read_log ''s1'' 0 ''agent'' d @ read_log ''s1'' 1 ''agent'' d'), d')"
proof -
  define d where "d = append_all [(None, 6, sample_event ''human'' ''{1}'' [])] sample_db"
  define es where "es = [(None::outcome, 7::instant, sample_event ''agent'' ''{2}'' []), (None, 8, sample_event ''human'' ''{3}'' [])]"
  have inv: "log_inv d" unfolding d_def by (rule append_all_log_inv [OF sample_db_inv])
  have one: "map e_Seq (read_log ''s1'' 0 ''agent'' d) = [1]"
    unfolding d_def by code_simp
  then have h: "high_water 0 (read_log ''s1'' 0 ''agent'' d) = 1"
    by (auto simp: high_water_def last_map [symmetric])
  have three: "map e_Seq (read_log ''s1'' 1 ''agent'' (append_all es d)) = [3]"
    unfolding d_def es_def by code_simp
  have "EventsSince None ''s1'' 0 ''agent'' (append_all es d)
      = (Inr (read_log ''s1'' 0 ''agent'' d @ read_log ''s1'' 1 ''agent'' (append_all es d)), append_all es d)"
    using poll_resume_exact [OF inv EventsSince_read_log EventsSince_read_log, of "''s1''" 0 "''agent''" es] h by simp
  with one three show ?thesis by (simp add: Let_def d_def es_def)
qed

end
