(* ===== verification/Event_Bus.thy ===== *)
theory Event_Bus
  imports Prelude
begin

text \<open>
  The per-subject wakeup bus (\<open>event/bus.go\<close>). A subscription is a number; its channel of
  capacity one is a flag that says whether a wakeup is pending. \<open>Publish\<close> takes a
  snapshot of the subscribers under the lock and sends to each of them without it, so other
  callers run between the two: the step relation at the end interleaves publishers and one
  consumer at that grain, and shows that no wakeup is lost.
\<close>

section \<open>Operations\<close>

record Bus =
  bus_subs :: "string \<Rightarrow> nat list option"
  bus_chan :: "nat \<Rightarrow> bool"
  bus_next :: nat

definition NewBus :: Bus where
  "NewBus = \<lparr>bus_subs = (\<lambda>_. None), bus_chan = (\<lambda>_. False), bus_next = 0\<rparr>"

definition Subscribe :: "string \<Rightarrow> Bus \<Rightarrow> nat \<times> Bus" where
  "Subscribe subjectID b =
     (let sub = bus_next b;
          subs = (case bus_subs b subjectID of None \<Rightarrow> [] | Some ss \<Rightarrow> ss)
      in (sub, b\<lparr>bus_subs := (bus_subs b)(subjectID \<mapsto> subs @ [sub]),
                 bus_chan := (bus_chan b)(sub := False), bus_next := Suc sub\<rparr>))"

definition cancel :: "string \<Rightarrow> nat \<Rightarrow> Bus \<Rightarrow> Bus" where
  "cancel subjectID sub b =
     (case bus_subs b subjectID of
        None \<Rightarrow> b
      | Some ss \<Rightarrow>
          let ss' = filter (\<lambda>s. s \<noteq> sub) ss
          in b\<lparr>bus_subs := (bus_subs b)(subjectID := (if ss' = [] then None else Some ss'))\<rparr>)"

definition snapshot :: "string \<Rightarrow> Bus \<Rightarrow> nat list" where
  "snapshot subjectID b = (case bus_subs b subjectID of None \<Rightarrow> [] | Some ss \<Rightarrow> ss)"

definition try_send :: "nat \<Rightarrow> Bus \<Rightarrow> Bus" where
  "try_send sub b = b\<lparr>bus_chan := (bus_chan b)(sub := True)\<rparr>"

definition Publish :: "string \<Rightarrow> Bus \<Rightarrow> Bus" where
  "Publish subjectID b = fold try_send (snapshot subjectID b) b"

text \<open>A consumer that finds a wakeup takes it out of the channel.\<close>

definition receive :: "nat \<Rightarrow> Bus \<Rightarrow> Bus" where
  "receive sub b = b\<lparr>bus_chan := (bus_chan b)(sub := False)\<rparr>"

lemma try_send_simps [simp]:
  "bus_subs (try_send s b) = bus_subs b" "bus_next (try_send s b) = bus_next b"
  "bus_chan (try_send s b) c \<longleftrightarrow> c = s \<or> bus_chan b c"
  by (simp_all add: try_send_def)

lemma receive_simps [simp]:
  "bus_subs (receive s b) = bus_subs b" "bus_next (receive s b) = bus_next b"
  "bus_chan (receive s b) c \<longleftrightarrow> c \<noteq> s \<and> bus_chan b c"
  by (simp_all add: receive_def)

lemma fold_try_send [simp]:
  "bus_subs (fold try_send ss b) = bus_subs b" "bus_next (fold try_send ss b) = bus_next b"
  "bus_chan (fold try_send ss b) c \<longleftrightarrow> c \<in> set ss \<or> bus_chan b c"
  by (induction ss arbitrary: b) auto

section \<open>Well-formed buses\<close>

definition bus_inv :: "Bus \<Rightarrow> bool" where
  "bus_inv b \<longleftrightarrow> (\<forall>sid ss. bus_subs b sid = Some ss \<longrightarrow> ss \<noteq> [] \<and> distinct ss \<and> (\<forall>s \<in> set ss. s < bus_next b)) \<and>
     (\<forall>c. bus_chan b c \<longrightarrow> c < bus_next b)"

lemma bus_inv_ops:
  assumes "bus_inv b"
  shows "bus_inv (snd (Subscribe sid b))" "bus_inv (cancel sid s b)" "bus_inv (Publish sid b)" "bus_inv (receive s b)"
proof -
  show "bus_inv (snd (Subscribe sid b))"
    using assms by (fastforce simp: bus_inv_def Subscribe_def Let_def split: option.splits)
  show "bus_inv (cancel sid s b)"
    using assms by (auto simp: bus_inv_def cancel_def Let_def split: option.split)
  show "bus_inv (Publish sid b)"
    using assms by (fastforce simp: bus_inv_def Publish_def snapshot_def dest: sym split: option.splits)
  show "bus_inv (receive s b)"
    using assms by (auto simp: bus_inv_def)
qed

text \<open>
  A publish wakes exactly the current subscribers of its subject. After it their channels
  hold a wakeup, the channels of everyone else are as they were (a cancelled subscription is
  never woken, another subject's never disturbed), the subscriber sets are unchanged, and a
  second publish before the consumers run changes nothing more: wakeups coalesce.
\<close>

theorem publish_wakes_subscribers:
  "(\<forall>c. bus_chan (Publish sid b) c \<longleftrightarrow> c \<in> set (snapshot sid b) \<or> bus_chan b c) \<and>
   bus_subs (Publish sid b) = bus_subs b \<and> Publish sid (Publish sid b) = Publish sid b \<and>
   s \<notin> set (snapshot sid (cancel sid s b)) \<and>
   (let (c, b') = Subscribe sid b in c \<in> set (snapshot sid b') \<and> \<not> bus_chan b' c)"
proof -
  have c: "bus_chan (Publish sid b) c \<longleftrightarrow> c \<in> set (snapshot sid b) \<or> bus_chan b c" for c
    by (simp add: Publish_def)
  have s: "snapshot sid (Publish sid b) = snapshot sid b" by (simp add: Publish_def snapshot_def)
  have "Publish sid (Publish sid b) = Publish sid b"
  proof (rule Bus.equality)
    show "bus_chan (Publish sid (Publish sid b)) = bus_chan (Publish sid b)"
      by (simp add: fun_eq_iff Publish_def snapshot_def)
  qed (simp_all add: Publish_def)
  moreover have "s \<notin> set (snapshot sid (cancel sid s b))"
    by (auto simp: snapshot_def cancel_def Let_def split: option.splits)
  moreover have "let (c, b') = Subscribe sid b in c \<in> set (snapshot sid b') \<and> \<not> bus_chan b' c"
    by (simp add: Subscribe_def snapshot_def Let_def)
  ultimately show ?thesis using c by (simp add: Publish_def)
qed

section \<open>No lost wakeup\<close>

text \<open>
  One consumer of a subject beside any number of appenders, as \<open>sse\<close> and \<open>daemon.Append\<close>
  use the bus. An appender persists its row, takes the snapshot, and sends to each subscriber
  in turn; the consumer subscribes before its first read, reads the log to its end, parks,
  and reads again when it is woken. Other subscriptions come and go at any time.
\<close>

datatype publisher = Persisted | Sending "nat list"

datatype consumer = Starting | Reading nat | Parked nat

record wakeups =
  wk_log :: nat
  wk_bus :: Bus
  wk_pubs :: "publisher list"
  wk_cons :: consumer
  wk_cursor :: nat

inductive bus_step :: "string \<Rightarrow> wakeups \<Rightarrow> wakeups \<Rightarrow> bool" for sid :: string where
  persist: "bus_step sid s (s\<lparr>wk_log := Suc (wk_log s), wk_pubs := Persisted # wk_pubs s\<rparr>)"
| take_snapshot: "wk_pubs s = ps @ Persisted # qs \<Longrightarrow>
    bus_step sid s (s\<lparr>wk_pubs := ps @ Sending (snapshot sid (wk_bus s)) # qs\<rparr>)"
| send_one: "wk_pubs s = ps @ Sending (c # cs) # qs \<Longrightarrow>
    bus_step sid s (s\<lparr>wk_bus := try_send c (wk_bus s), wk_pubs := ps @ Sending cs # qs\<rparr>)"
| sent_all: "wk_pubs s = ps @ Sending [] # qs \<Longrightarrow> bus_step sid s (s\<lparr>wk_pubs := ps @ qs\<rparr>)"
| others_subscribe: "bus_step sid s (s\<lparr>wk_bus := snd (Subscribe sid' (wk_bus s))\<rparr>)"
| others_cancel: "wk_cons s \<noteq> Reading c \<Longrightarrow> wk_cons s \<noteq> Parked c \<Longrightarrow>
    bus_step sid s (s\<lparr>wk_bus := cancel sid' c (wk_bus s)\<rparr>)"
| consumer_subscribe: "wk_cons s = Starting \<Longrightarrow> Subscribe sid (wk_bus s) = (c, b) \<Longrightarrow>
    bus_step sid s (s\<lparr>wk_bus := b, wk_cons := Reading c\<rparr>)"
| consumer_read: "wk_cons s = Reading c \<Longrightarrow> bus_step sid s (s\<lparr>wk_cursor := wk_log s, wk_cons := Parked c\<rparr>)"
| consumer_wake: "wk_cons s = Parked c \<Longrightarrow> bus_chan (wk_bus s) c \<Longrightarrow>
    bus_step sid s (s\<lparr>wk_bus := receive c (wk_bus s), wk_cons := Reading c\<rparr>)"

definition bus_start :: "wakeups \<Rightarrow> bool" where
  "bus_start s \<longleftrightarrow> wk_pubs s = [] \<and> wk_cons s = Starting \<and> bus_inv (wk_bus s)"

definition wake_coming :: "nat \<Rightarrow> wakeups \<Rightarrow> bool" where
  "wake_coming c s \<longleftrightarrow> bus_chan (wk_bus s) c \<or>
     (\<exists>p \<in> set (wk_pubs s). p = Persisted \<or> (\<exists>cs. p = Sending cs \<and> c \<in> set cs))"

definition wake_inv :: "string \<Rightarrow> wakeups \<Rightarrow> bool" where
  "wake_inv sid s \<longleftrightarrow> bus_inv (wk_bus s) \<and>
     (\<forall>cs c. Sending cs \<in> set (wk_pubs s) \<longrightarrow> c \<in> set cs \<longrightarrow> c < bus_next (wk_bus s)) \<and>
     (case wk_cons s of
        Starting \<Rightarrow> True
      | Reading c \<Rightarrow> c \<in> set (snapshot sid (wk_bus s))
      | Parked c \<Rightarrow> c \<in> set (snapshot sid (wk_bus s)) \<and> (wk_cursor s < wk_log s \<longrightarrow> wake_coming c s))"

lemma snapshot_keep [simp]:
  "snapshot sid (try_send c b) = snapshot sid b" "snapshot sid (receive c b) = snapshot sid b"
  by (simp_all add: snapshot_def)

lemma snapshot_others:
  "c \<in> set (snapshot sid b) \<Longrightarrow> c \<in> set (snapshot sid (snd (Subscribe sid' b)))"
  "c \<in> set (snapshot sid b) \<Longrightarrow> c \<noteq> c' \<Longrightarrow> c \<in> set (snapshot sid (cancel sid' c' b))"
  by (auto simp: snapshot_def Subscribe_def cancel_def Let_def filter_empty_conv split: option.splits)

lemma chan_others:
  assumes "bus_inv b" and "c \<in> set (snapshot sid b)"
  shows "bus_chan (snd (Subscribe sid' b)) c = bus_chan b c" "bus_chan (cancel sid' c' b) c = bus_chan b c"
  using assms by (auto simp: snapshot_def Subscribe_def cancel_def Let_def bus_inv_def split: option.splits)

lemma subscribe_in: "Subscribe sid b = (c, b') \<Longrightarrow> c \<in> set (snapshot sid b')"
  by (auto simp: Subscribe_def snapshot_def Let_def)

lemma bus_inv_try_send: "bus_inv b \<Longrightarrow> c < bus_next b \<Longrightarrow> bus_inv (try_send c b)"
  by (auto simp: bus_inv_def)

lemma snapshot_bound: "bus_inv b \<Longrightarrow> c \<in> set (snapshot sid b) \<Longrightarrow> c < bus_next b"
  by (cases "bus_subs b sid") (auto simp: bus_inv_def snapshot_def)

lemma next_others: "bus_next b \<le> bus_next (snd (Subscribe sid b))" "bus_next (cancel sid c b) = bus_next b"
  by (auto simp: Subscribe_def cancel_def Let_def split: option.split)

lemmas bus_step_simps = wake_inv_def wake_coming_def

lemma wake_inv_step:
  assumes "wake_inv sid s" and "bus_step sid s t"
  shows "wake_inv sid t"
  using assms(2,1)
proof (cases rule: bus_step.cases)
  case (take_snapshot ps qs)
  have "Sending (snapshot sid (wk_bus s)) \<in> set (wk_pubs t)" using take_snapshot by simp
  then show ?thesis using assms(1) take_snapshot snapshot_bound [of "wk_bus s"]
    by (auto simp: bus_step_simps split: consumer.splits)
next
  case (send_one ps c cs qs)
  have "c < bus_next (wk_bus s)" using assms(1) send_one by (auto simp: wake_inv_def)
  then have "bus_inv (wk_bus t)" using assms(1) send_one bus_inv_try_send by (simp add: wake_inv_def)
  then show ?thesis using assms(1) send_one by (auto simp: bus_step_simps split: consumer.splits)
next
  case (others_subscribe sid')
  then show ?thesis using assms(1) bus_inv_ops(1) next_others(1) [of "wk_bus s" sid']
    by (fastforce simp: bus_step_simps snapshot_others chan_others split: consumer.splits)
next
  case (others_cancel c sid')
  then show ?thesis using assms(1) bus_inv_ops(2) next_others(2) [of sid' c "wk_bus s"]
    by (fastforce simp: bus_step_simps snapshot_others chan_others split: consumer.splits)
next
  case (consumer_subscribe c b)
  then show ?thesis using assms(1) bus_inv_ops(1) [of "wk_bus s" sid] next_others(1) [of "wk_bus s" sid] subscribe_in
    by (fastforce simp: bus_step_simps split: consumer.splits)
next
  case (consumer_wake c)
  then show ?thesis using assms(1) bus_inv_ops(4) [of "wk_bus s" c] by (auto simp: bus_step_simps split: consumer.splits)
qed (auto simp: bus_step_simps split: consumer.splits)

interpretation wakeup: invariant_of bus_start "bus_step sid" "wake_inv sid" for sid
  by unfold_locales (simp add: bus_start_def wake_inv_def, rule wake_inv_step)

text \<open>
  C6: No wakeup is lost. In every interleaving of appenders, other subscribers coming and
  going, and a consumer that subscribes before it first reads the log: when the consumer is
  parked on its channel behind the end of the log and no appender is between persisting its
  row and its last send, the channel holds a wakeup, and the wake and read that follow bring
  the consumer to the end of the log.
\<close>

theorem no_lost_wakeup:
  assumes "reach bus_start (bus_step sid) s" and "wk_cons s = Parked c"
    and "wk_cursor s < wk_log s" and "wk_pubs s = []"
  shows "bus_chan (wk_bus s) c \<and>
    (\<exists>t u. bus_step sid s t \<and> bus_step sid t u \<and> wk_cons u = Parked c \<and> wk_cursor u = wk_log u \<and> wk_log u = wk_log s)"
proof -
  have full: "bus_chan (wk_bus s) c"
    using wakeup.reachable_inv [OF assms(1)] assms(2-4) by (simp add: wake_inv_def wake_coming_def)
  let ?t = "s\<lparr>wk_bus := receive c (wk_bus s), wk_cons := Reading c\<rparr>"
  let ?u = "?t\<lparr>wk_cursor := wk_log ?t, wk_cons := Parked c\<rparr>"
  have "bus_step sid s ?t" using assms(2) full by (rule consumer_wake)
  moreover have "bus_step sid ?t ?u" by (rule consumer_read) simp
  moreover have "wk_cons ?u = Parked c" "wk_cursor ?u = wk_log ?u" "wk_log ?u = wk_log s" by simp_all
  ultimately show ?thesis using full by blast
qed

definition idle_wakeups :: wakeups where
  "idle_wakeups = \<lparr>wk_log = 0, wk_bus = NewBus, wk_pubs = [], wk_cons = Starting, wk_cursor = 0\<rparr>"

theorem no_lost_wakeup_witness:
  "\<exists>s. reach bus_start (bus_step ''s'') s \<and> wk_cons s = Parked 0 \<and> wk_cursor s < wk_log s \<and> wk_pubs s = [] \<and>
     bus_chan (wk_bus s) 0"
proof -
  let ?b = "snd (Subscribe ''s'' NewBus)"
  define s1 where "s1 = idle_wakeups\<lparr>wk_bus := ?b, wk_cons := Reading 0\<rparr>"
  define s2 where "s2 = s1\<lparr>wk_cursor := 0, wk_cons := Parked 0\<rparr>"
  define s3 where "s3 = s2\<lparr>wk_log := 1, wk_pubs := [Persisted]\<rparr>"
  define s4 where "s4 = s3\<lparr>wk_pubs := [Sending [0]]\<rparr>"
  define s5 where "s5 = s4\<lparr>wk_bus := try_send 0 ?b, wk_pubs := [Sending []]\<rparr>"
  define s6 where "s6 = s5\<lparr>wk_pubs := []\<rparr>"
  note defs = s1_def s2_def s3_def s4_def s5_def s6_def
  have r0: "reach bus_start (bus_step ''s'') idle_wakeups"
    by (rule reach_start) (simp add: bus_start_def idle_wakeups_def NewBus_def bus_inv_def)
  have t1: "bus_step ''s'' idle_wakeups s1"
    using consumer_subscribe [of idle_wakeups "''s''" 0 ?b] by (simp add: defs idle_wakeups_def Subscribe_def NewBus_def)
  note r1 = reach_step [OF r0 t1]
  have t2: "bus_step ''s'' s1 s2" using consumer_read [of s1 0 "''s''"] by (simp add: defs idle_wakeups_def)
  note r2 = reach_step [OF r1 t2]
  have t3: "bus_step ''s'' s2 s3" using persist [of "''s''" s2] by (simp add: defs idle_wakeups_def)
  note r3 = reach_step [OF r2 t3]
  have t4: "bus_step ''s'' s3 s4"
    using take_snapshot [of s3 "[]" "[]" "''s''"] by (simp add: defs idle_wakeups_def snapshot_def Subscribe_def NewBus_def)
  note r4 = reach_step [OF r3 t4]
  have t5: "bus_step ''s'' s4 s5" using send_one [of s4 "[]" 0 "[]" "[]" "''s''"] by (simp add: defs idle_wakeups_def)
  note r5 = reach_step [OF r4 t5]
  have t6: "bus_step ''s'' s5 s6" using sent_all [of s5 "[]" "[]" "''s''"] by (simp add: defs idle_wakeups_def)
  note r6 = reach_step [OF r5 t6]
  have "wk_cons s6 = Parked 0" "wk_cursor s6 < wk_log s6" "wk_pubs s6 = []" by (simp_all add: defs)
  then show ?thesis using no_lost_wakeup [OF r6] r6 by blast
qed

end
