(* ===== verification/Activity.thy ===== *)
theory Activity
  imports Prelude "HOL-Library.AList"
begin

text \<open>
  The presence registry of stream consumers (\<open>daemon/activity.go\<close>): attachment counts per
  subject, anonymous viewers, resolve polls, proven windows. A Go map is an association list
  where its size is observed and a function elsewhere. The clock reading is an argument.
\<close>

section \<open>Operations\<close>

type_synonym attachKey = "string \<times> int"

record Activity =
  ac_attached :: "string \<Rightarrow> (attachKey \<times> int) list"
  ac_viewers :: "string \<Rightarrow> int"
  ac_lastDrop :: "string \<Rightarrow> instant option"
  ac_polls :: "string \<Rightarrow> instant option"
  ac_proven :: "int \<Rightarrow> bool"

definition NewActivity :: Activity where
  "NewActivity = \<lparr>ac_attached = (\<lambda>_. []), ac_viewers = (\<lambda>_. 0), ac_lastDrop = (\<lambda>_. None),
     ac_polls = (\<lambda>_. None), ac_proven = (\<lambda>_. False)\<rparr>"

text \<open>A missing key of a Go map reads as zero.\<close>

definition lookup0 :: "('k \<times> int) list \<Rightarrow> 'k \<Rightarrow> int" where
  "lookup0 m k = (case map_of m k of None \<Rightarrow> 0 | Some n \<Rightarrow> n)"

definition Attach :: "string \<Rightarrow> string \<Rightarrow> int \<Rightarrow> Activity \<Rightarrow> Activity" where
  "Attach subjectID consumer pid a =
     (let m = ac_attached a subjectID; k = (consumer, pid)
      in a\<lparr>ac_attached := (ac_attached a)(subjectID := AList.update k (lookup0 m k + 1) m)\<rparr>)"

definition detach_attach :: "instant \<Rightarrow> string \<Rightarrow> string \<Rightarrow> int \<Rightarrow> Activity \<Rightarrow> Activity" where
  "detach_attach now subjectID consumer pid a =
     (let m = ac_attached a subjectID; k = (consumer, pid);
          n = lookup0 m k - 1;
          m1 = (if n \<le> 0 then AList.delete k m else AList.update k n m);
          a1 = a\<lparr>ac_attached := (ac_attached a)(subjectID := m1)\<rparr>
      in if m1 = [] then a1\<lparr>ac_lastDrop := (ac_lastDrop a1)(subjectID \<mapsto> now)\<rparr> else a1)"

definition AttachViewer :: "string \<Rightarrow> Activity \<Rightarrow> Activity" where
  "AttachViewer subjectID a = a\<lparr>ac_viewers := (ac_viewers a)(subjectID := ac_viewers a subjectID + 1)\<rparr>"

definition detach_viewer :: "string \<Rightarrow> Activity \<Rightarrow> Activity" where
  "detach_viewer subjectID a =
     (let n = ac_viewers a subjectID - 1
      in a\<lparr>ac_viewers := (ac_viewers a)(subjectID := (if n \<le> 0 then 0 else n))\<rparr>)"

definition Viewing :: "string \<Rightarrow> Activity \<Rightarrow> bool" where
  "Viewing subjectID a \<longleftrightarrow> ac_viewers a subjectID > 0"

definition Attached :: "string \<Rightarrow> string \<Rightarrow> int \<Rightarrow> Activity \<Rightarrow> bool" where
  "Attached subjectID consumer pid a \<longleftrightarrow> lookup0 (ac_attached a subjectID) (consumer, pid) > 0"

definition Counts :: "string \<Rightarrow> Activity \<Rightarrow> (string \<times> int) list" where
  "Counts subjectID a =
     fold (\<lambda>((consumer, pid), n) counts. AList.update consumer (lookup0 counts consumer + n) counts)
       (ac_attached a subjectID) []"

definition AttachedWithin :: "instant \<Rightarrow> string \<Rightarrow> int \<Rightarrow> Activity \<Rightarrow> bool" where
  "AttachedWithin now subjectID grace a \<longleftrightarrow> ac_attached a subjectID \<noteq> [] \<or>
     (case ac_lastDrop a subjectID of None \<Rightarrow> False | Some t \<Rightarrow> now - t \<le> grace)"

definition pollKey :: "string \<Rightarrow> string \<Rightarrow> int \<Rightarrow> string" where
  "pollKey scope consumer pid = scope @ [CHR 0x00] @ consumer @ [CHR 0x00] @ itoa pid"

definition NotePoll :: "instant \<Rightarrow> string \<Rightarrow> string \<Rightarrow> int \<Rightarrow> Activity \<Rightarrow> Activity" where
  "NotePoll now scope consumer pid a = a\<lparr>ac_polls := (ac_polls a)(pollKey scope consumer pid \<mapsto> now)\<rparr>"

definition ResolvePollCeiling :: int where
  "ResolvePollCeiling = 5 * second"

definition PolledSince :: "instant \<Rightarrow> string \<Rightarrow> string \<Rightarrow> int \<Rightarrow> int \<Rightarrow> Activity \<Rightarrow> bool" where
  "PolledSince now scope consumer pid window a \<longleftrightarrow>
     (case ac_polls a (pollKey scope consumer pid) of None \<Rightarrow> False | Some t \<Rightarrow> now - t \<le> window)"

definition MarkProven :: "int \<Rightarrow> Activity \<Rightarrow> Activity" where
  "MarkProven pid a = a\<lparr>ac_proven := (ac_proven a)(pid := True)\<rparr>"

definition Proven :: "int \<Rightarrow> Activity \<Rightarrow> bool" where
  "Proven pid a \<longleftrightarrow> ac_proven a pid"

section \<open>Poll keys\<close>

text \<open>
  Polls of different windows never share a slot: for scopes and consumer names without a
  NUL byte the poll key determines scope, consumer and pid, so noting one window's poll
  changes the answer for that window alone.
\<close>

theorem poll_key_separates:
  assumes "CHR 0x00 \<notin> set scope" and "CHR 0x00 \<notin> set consumer"
    and "CHR 0x00 \<notin> set scope'" and "CHR 0x00 \<notin> set consumer'"
    and "(scope, consumer, pid) \<noteq> (scope', consumer', pid')"
  shows "PolledSince t scope' consumer' pid' w (NotePoll now scope consumer pid a) = PolledSince t scope' consumer' pid' w a"
proof -
  have "pollKey scope' consumer' pid' \<noteq> pollKey scope consumer pid"
  proof
    assume "pollKey scope' consumer' pid' = pollKey scope consumer pid"
    then have k: "scope' @ CHR 0x00 # (consumer' @ CHR 0x00 # itoa pid') = scope @ CHR 0x00 # (consumer @ CHR 0x00 # itoa pid)"
      by (simp add: pollKey_def)
    from sep_unique [OF k assms(3,1)] have s: "scope' = scope" "consumer' @ CHR 0x00 # itoa pid' = consumer @ CHR 0x00 # itoa pid"
      by blast+
    from sep_unique [OF s(2) assms(4,2)] have "consumer' = consumer" "itoa pid' = itoa pid" by blast+
    then show False using s(1) assms(5) itoa_inj by blast
  qed
  then show ?thesis by (simp add: PolledSince_def NotePoll_def)
qed

theorem poll_key_separates_witness:
  "\<not> PolledSince 5 ''repo'' ''channel'' 12 10 (NotePoll 4 ''repo'' ''channel'' 1 NewActivity) \<and>
   PolledSince 5 ''repo'' ''channel'' 1 10 (NotePoll 4 ''repo'' ''channel'' 1 NewActivity)"
proof -
  have "\<not> PolledSince 5 ''repo'' ''channel'' 12 10 NewActivity" by (simp add: PolledSince_def NewActivity_def)
  then show ?thesis
    using poll_key_separates [of "''repo''" "''channel''" "''repo''" "''channel''" 1 12 5 10 4 NewActivity]
    by (simp add: PolledSince_def NotePoll_def)
qed


section \<open>Attachments\<close>

text \<open>
  The streams of the daemon: an open stream is a token with the subject and key it attached
  under, and its detach runs once.
\<close>

record streams =
  st_act :: Activity
  st_open :: "(nat \<times> string \<times> attachKey) list"
  st_next :: nat

datatype stream_op = Open string string int | Shut nat instant

fun stream_exec :: "stream_op \<Rightarrow> streams \<Rightarrow> streams" where
  "stream_exec (Open sid consumer pid) s =
     s\<lparr>st_act := Attach sid consumer pid (st_act s),
       st_open := (st_next s, sid, (consumer, pid)) # st_open s, st_next := Suc (st_next s)\<rparr>"
| "stream_exec (Shut tok now) s =
     (case map_of (st_open s) tok of
        None \<Rightarrow> s
      | Some (sid, (consumer, pid)) \<Rightarrow>
          s\<lparr>st_act := detach_attach now sid consumer pid (st_act s),
            st_open := AList.delete tok (st_open s)\<rparr>)"

definition open_on :: "string \<Rightarrow> attachKey \<Rightarrow> streams \<Rightarrow> nat" where
  "open_on sid k s = length (filter (\<lambda>(tok, sid', k'). sid' = sid \<and> k' = k) (st_open s))"

definition no_streams :: streams where
  "no_streams = \<lparr>st_act = NewActivity, st_open = [], st_next = 0\<rparr>"

definition streams_inv :: "streams \<Rightarrow> bool" where
  "streams_inv s \<longleftrightarrow> distinct (map fst (st_open s)) \<and> (\<forall>x \<in> set (st_open s). fst x < st_next s) \<and>
     (\<forall>sid k. map_of (ac_attached (st_act s) sid) k =
        (if open_on sid k s = 0 then None else Some (int (open_on sid k s))))"

lemma lookup0_inv: "streams_inv s \<Longrightarrow> lookup0 (ac_attached (st_act s) sid) k = int (open_on sid k s)"
  by (cases k) (simp add: streams_inv_def lookup0_def)

lemma map_of_delete_same: "map_of (AList.delete k m) = (map_of m)(k := None)"
  by (simp add: delete_conv')

lemma open_on_delete:
  assumes "distinct (map fst xs)" and "map_of xs tok = Some (sid, k)"
  shows "length (filter (\<lambda>(t, sid', k'). sid' = sid1 \<and> k' = k1) (AList.delete tok xs)) =
    length (filter (\<lambda>(t, sid', k'). sid' = sid1 \<and> k' = k1) xs) - (if sid1 = sid \<and> k1 = k then 1 else 0)"
  using assms
proof (induction xs)
  case (Cons x xs)
  show ?case
  proof (cases "fst x = tok")
    case True
    then have "AList.delete tok xs = xs"
      using Cons.prems(1) unfolding AList.delete_eq by (intro filter_True) (auto simp: image_iff)
    then show ?thesis using True Cons.prems(2) by (cases x) (auto simp: AList.delete_eq)
  next
    case False
    then have "map_of xs tok = Some (sid, k)" using Cons.prems(2) by (cases x) auto
    moreover have "sid1 = sid \<Longrightarrow> k1 = k \<Longrightarrow> 0 < length (filter (\<lambda>(t, sid', k'). sid' = sid1 \<and> k' = k1) xs)"
      using map_of_SomeD [OF calculation] by (force simp: filter_empty_conv)
    ultimately show ?thesis using Cons False by (cases x) (auto simp: AList.delete_eq)
  qed
qed simp

lemma detach_facts:
  assumes "streams_inv s" and "map_of (st_open s) tok = Some (sid, (c, p))"
  shows "ac_attached (detach_attach now sid c p (st_act s)) sid' =
    (if sid' = sid then (if open_on sid (c, p) s = 1 then AList.delete (c, p) (ac_attached (st_act s) sid)
       else AList.update (c, p) (int (open_on sid (c, p) s) - 1) (ac_attached (st_act s) sid))
     else ac_attached (st_act s) sid')" "0 < open_on sid (c, p) s"
proof -
  show pos: "0 < open_on sid (c, p) s"
    using map_of_SomeD [OF assms(2)] by (force simp: open_on_def filter_empty_conv)
  show "ac_attached (detach_attach now sid c p (st_act s)) sid' =
    (if sid' = sid then (if open_on sid (c, p) s = 1 then AList.delete (c, p) (ac_attached (st_act s) sid)
       else AList.update (c, p) (int (open_on sid (c, p) s) - 1) (ac_attached (st_act s) sid))
     else ac_attached (st_act s) sid')"
    using pos by (auto simp: detach_attach_def Let_def lookup0_inv [OF assms(1)])
qed

lemma stream_exec_inv: "streams_inv s \<Longrightarrow> streams_inv (stream_exec x s)"
proof (cases x)
  case (Open sid c p)
  assume inv: "streams_inv s"
  have o: "open_on sid' k (stream_exec x s) = open_on sid' k s + (if sid' = sid \<and> k = (c, p) then 1 else 0)" for sid' k
    by (auto simp: Open open_on_def)
  have "map_of (ac_attached (st_act (stream_exec x s)) sid') k =
      (if open_on sid' k (stream_exec x s) = 0 then None else Some (int (open_on sid' k (stream_exec x s))))" for sid' k
    using inv unfolding o by (cases k) (auto simp: Open Attach_def Let_def update_conv' lookup0_inv streams_inv_def)
  moreover have "distinct (map fst (st_open (stream_exec x s)))" "\<forall>y \<in> set (st_open (stream_exec x s)). fst y < st_next (stream_exec x s)"
    using inv by (auto simp: Open streams_inv_def less_Suc_eq)
  ultimately show ?thesis by (simp add: streams_inv_def)
next
  case (Shut tok now)
  assume inv: "streams_inv s"
  show ?thesis
  proof (cases "map_of (st_open s) tok")
    case (Some y)
    obtain sid c p where y: "y = (sid, (c, p))" by (cases y) auto
    note d = detach_facts [OF inv Some [unfolded y]]
    have e: "stream_exec x s = s\<lparr>st_act := detach_attach now sid c p (st_act s), st_open := AList.delete tok (st_open s)\<rparr>"
      by (simp add: Shut Some y)
    have dist: "distinct (map fst (st_open s))" using inv by (simp add: streams_inv_def)
    have o: "open_on sid' k (stream_exec x s) = open_on sid' k s - (if sid' = sid \<and> k = (c, p) then 1 else 0)" for sid' k
      unfolding e open_on_def using open_on_delete [OF dist Some [unfolded y]] by simp
    have "map_of (ac_attached (st_act (stream_exec x s)) sid') k =
        (if open_on sid' k (stream_exec x s) = 0 then None else Some (int (open_on sid' k (stream_exec x s))))" for sid' k
      unfolding o unfolding e using inv d(2)
      by (cases k) (auto simp: d(1) map_of_delete_same update_conv' streams_inv_def)
    moreover have "distinct (map fst (st_open (stream_exec x s)))" using dist by (simp add: e distinct_delete)
    moreover have "\<forall>y \<in> set (st_open (stream_exec x s)). fst y < st_next (stream_exec x s)"
      using inv by (auto simp: e streams_inv_def AList.delete_eq)
    ultimately show ?thesis by (simp add: streams_inv_def)
  qed (simp add: Shut inv)
qed

lemma stream_run_inv: "streams_inv (fold stream_exec xs no_streams)"
proof -
  have "streams_inv s \<Longrightarrow> streams_inv (fold stream_exec xs s)" for s
    by (induction xs arbitrary: s) (auto intro: stream_exec_inv)
  moreover have "streams_inv no_streams"
    by (simp add: streams_inv_def no_streams_def NewActivity_def open_on_def)
  ultimately show ?thesis by blast
qed

text \<open>
  C8: Presence is the set of open streams. After any sequence of attaches and detaches (a
  detach repeated or of an unknown stream included) a consumer's window counts as attached to
  a subject exactly when one of its streams there is open, so an overlapping reconnect never
  flickers; and closing the last stream of a subject at time \<open>t\<close> leaves the subject
  connected exactly for the grace period after \<open>t\<close>.
\<close>

theorem attachment_is_open_streams:
  fixes xs :: "stream_op list"
  defines "s \<equiv> fold stream_exec xs no_streams"
  shows "(Attached sid c p (st_act s) \<longleftrightarrow> (\<exists>tok. (tok, sid, (c, p)) \<in> set (st_open s))) \<and>
    (filter (\<lambda>(tok, sid', k). sid' = sid) (st_open s) = [(tok, sid, (c, p))] \<longrightarrow>
       (AttachedWithin now sid grace (st_act (stream_exec (Shut tok t) s)) \<longleftrightarrow> now - t \<le> grace))"
proof -
  have inv: "streams_inv s" unfolding s_def by (rule stream_run_inv)
  have a: "Attached sid c p (st_act s) \<longleftrightarrow> (\<exists>tok. (tok, sid, (c, p)) \<in> set (st_open s))"
    unfolding Attached_def lookup0_inv [OF inv] by (auto simp: open_on_def filter_empty_conv)
  have "AttachedWithin now sid grace (st_act (stream_exec (Shut tok t) s)) \<longleftrightarrow> now - t \<le> grace"
    if one: "filter (\<lambda>(tok, sid', k). sid' = sid) (st_open s) = [(tok, sid, (c, p))]"
  proof -
    have "(tok, sid, (c, p)) \<in> set (filter (\<lambda>(tok, sid', k). sid' = sid) (st_open s))" unfolding one by simp
    then have m: "map_of (st_open s) tok = Some (sid, (c, p))" using inv by (simp add: streams_inv_def)
    have "open_on sid k s = length (filter (\<lambda>(tok, sid', k'). k' = k) (filter (\<lambda>(tok, sid', k). sid' = sid) (st_open s)))" for k
      by (simp add: open_on_def case_prod_unfold conj_commute)
    then have o: "open_on sid k s = (if k = (c, p) then 1 else 0)" for k unfolding one by auto
    have "map_of (AList.delete (c, p) (ac_attached (st_act s) sid)) k = None" for k
      using inv o [of k] by (cases k) (auto simp: map_of_delete_same streams_inv_def)
    then have "AList.delete (c, p) (ac_attached (st_act s) sid) = []"
      by (metis map_of_eq_None_iff list.map_disc_iff set_empty equals0I image_is_empty)
    then show ?thesis using m o [of "(c, p)"]
      by (simp add: detach_attach_def Let_def lookup0_inv [OF inv] AttachedWithin_def)
  qed
  with a show ?thesis by blast
qed

theorem attachment_is_open_streams_witness:
  "AttachedWithin 14 ''s'' 10 (st_act (stream_exec (Shut 1 5) (fold stream_exec [Open ''s'' ''channel'' 7, Open ''s'' ''channel'' 7, Shut 0 4] no_streams)))"
proof -
  have "filter (\<lambda>(tok, sid', k). sid' = ''s'') (st_open (fold stream_exec [Open ''s'' ''channel'' 7, Open ''s'' ''channel'' 7, Shut 0 4] no_streams))
      = [(1, ''s'', (''channel'', 7))]" by code_simp
  then show ?thesis
    using attachment_is_open_streams [of "''s''" "''channel''" 7 "[Open ''s'' ''channel'' 7, Open ''s'' ''channel'' 7, Shut 0 4]" 1 14 10 5]
    by simp
qed

end
