(* ===== verification/Workers.thy ===== *)
theory Workers
  imports Prelude
begin

text \<open>
  The admission group the daemon drains on shutdown (\<open>daemon/workers.go\<close>). A release
  closure runs its body once (\<open>sync.Once\<close>): an admission is a token, and releasing a token
  that is not open does nothing. A panic of the code (a negative count, closing a closed
  channel) is the value \<open>None\<close>.
\<close>

record workerGroup =
  wg_active :: int
  wg_closed :: bool
  wg_drained :: bool
  wg_open :: "nat list"
  wg_next :: nat

definition newWorkerGroup :: workerGroup where
  "newWorkerGroup = \<lparr>wg_active = 0, wg_closed = False, wg_drained = False, wg_open = [], wg_next = 0\<rparr>"

definition close_drained :: "workerGroup \<Rightarrow> workerGroup option" where
  "close_drained g = (if wg_drained g then None else Some (g\<lparr>wg_drained := True\<rparr>))"

definition Admit :: "workerGroup \<Rightarrow> nat result \<times> workerGroup" where
  "Admit g = (if wg_closed g then (Inl ErrCanceled, g)
     else (Inr (wg_next g), g\<lparr>wg_active := wg_active g + 1, wg_open := wg_next g # wg_open g, wg_next := Suc (wg_next g)\<rparr>))"

definition worker_done :: "workerGroup \<Rightarrow> workerGroup option" where
  "worker_done g =
     (let g1 = g\<lparr>wg_active := wg_active g - 1\<rparr>
      in if wg_active g1 < 0 then None
         else if wg_closed g1 \<and> wg_active g1 = 0 then close_drained g1 else Some g1)"

definition release_worker :: "nat \<Rightarrow> workerGroup \<Rightarrow> workerGroup option" where
  "release_worker tok g =
     (if tok \<in> set (wg_open g) then worker_done (g\<lparr>wg_open := remove1 tok (wg_open g)\<rparr>) else Some g)"

definition CloseGroup :: "workerGroup \<Rightarrow> workerGroup option" where
  "CloseGroup g = (if wg_closed g then Some g
     else let g1 = g\<lparr>wg_closed := True\<rparr> in if wg_active g1 = 0 then close_drained g1 else Some g1)"

text \<open>
  \<open>Start\<close> admits and leaves the token with the goroutine; \<open>Wait\<close> blocks (\<open>None\<close>) until
  its context is done or the group has drained, the runtime choosing when both hold.
\<close>

definition StartWorker :: "workerGroup \<Rightarrow> bool \<times> workerGroup" where
  "StartWorker g = (case Admit g of (Inl e, g') \<Rightarrow> (False, g') | (Inr tok, g') \<Rightarrow> (True, g'))"

definition Wait :: "bool \<Rightarrow> bool \<Rightarrow> workerGroup \<Rightarrow> unit result option" where
  "Wait ctxDone pickDone g =
     (if ctxDone \<and> (pickDone \<or> \<not> wg_drained g) then Some (Inl ErrCanceled)
      else if wg_drained g then Some (Inr ()) else None)"

section \<open>Runs\<close>

datatype worker_op = OpAdmit | OpStart | OpRelease nat | OpClose

fun worker_exec :: "worker_op \<Rightarrow> workerGroup \<Rightarrow> workerGroup option" where
  "worker_exec OpAdmit g = Some (snd (Admit g))"
| "worker_exec OpStart g = Some (snd (StartWorker g))"
| "worker_exec (OpRelease tok) g = release_worker tok g"
| "worker_exec OpClose g = CloseGroup g"

fun worker_run :: "worker_op list \<Rightarrow> workerGroup \<Rightarrow> workerGroup option" where
  "worker_run [] g = Some g"
| "worker_run (x # xs) g = (case worker_exec x g of None \<Rightarrow> None | Some g' \<Rightarrow> worker_run xs g')"

definition group_inv :: "workerGroup \<Rightarrow> bool" where
  "group_inv g \<longleftrightarrow> wg_active g = int (length (wg_open g)) \<and> (wg_drained g \<longleftrightarrow> wg_closed g \<and> wg_open g = [])"

lemma worker_exec_inv:
  assumes "group_inv g"
  shows "\<exists>g'. worker_exec x g = Some g' \<and> group_inv g' \<and> (wg_closed g \<longrightarrow> wg_closed g') \<and>
    (wg_closed g \<longrightarrow> set (wg_open g') \<subseteq> set (wg_open g))"
proof (cases x)
  case (OpRelease tok)
  show ?thesis
  proof (cases "tok \<in> set (wg_open g)")
    case True
    let ?o = "remove1 tok (wg_open g)"
    have len: "length (wg_open g) = Suc (length ?o)"
      using True length_pos_if_in_set [OF True] by (simp add: length_remove1)
    then have "\<not> wg_drained g" "wg_active g - 1 = int (length ?o)" using assms by (auto simp: group_inv_def)
    then have "worker_exec x g = Some (g\<lparr>wg_open := ?o, wg_active := int (length ?o), wg_drained := wg_closed g \<and> ?o = []\<rparr>)"
      unfolding OpRelease using True
      by (cases ?o) (simp_all add: release_worker_def worker_done_def close_drained_def Let_def)
    then show ?thesis using set_remove1_subset [of tok "wg_open g"] by (simp add: group_inv_def)
  qed (use assms in \<open>simp add: OpRelease release_worker_def\<close>)
qed (use assms in \<open>auto simp: Admit_def StartWorker_def CloseGroup_def close_drained_def group_inv_def Let_def\<close>)

lemma worker_run_inv:
  "group_inv g \<Longrightarrow> \<exists>g'. worker_run xs g = Some g' \<and> group_inv g' \<and> (wg_closed g \<longrightarrow> wg_closed g') \<and>
    (wg_closed g \<longrightarrow> set (wg_open g') \<subseteq> set (wg_open g))"
proof (induction xs arbitrary: g)
  case (Cons x xs)
  obtain g1 where g1: "worker_exec x g = Some g1" "group_inv g1" "wg_closed g \<longrightarrow> wg_closed g1"
      "wg_closed g \<longrightarrow> set (wg_open g1) \<subseteq> set (wg_open g)"
    using worker_exec_inv [OF Cons.prems] by blast
  then show ?case using Cons.IH [OF g1(2)] by auto
qed simp

text \<open>
  The drain is exact. Whatever sequence of admissions, starts, releases (also repeated
  ones) and closes runs, the group never panics; \<open>Wait\<close> under a live context returns
  exactly when the group is closed and every admission has been released, and from then on,
  whatever still runs, nothing is admitted and the group stays drained.
\<close>

theorem worker_drain_exact:
  "\<exists>g. worker_run xs newWorkerGroup = Some g \<and>
     (Wait False pick g = Some (Inr ()) \<longleftrightarrow> wg_closed g \<and> wg_open g = []) \<and>
     (Wait False pick g = None \<longleftrightarrow> \<not> (wg_closed g \<and> wg_open g = [])) \<and>
     (Wait False pick g = Some (Inr ()) \<longrightarrow> (\<exists>g'. worker_run ys g = Some g' \<and>
        fst (Admit g') = Inl ErrCanceled \<and> Wait False pick g' = Some (Inr ())))"
proof -
  have "group_inv newWorkerGroup" by (simp add: group_inv_def newWorkerGroup_def)
  then obtain g where g: "worker_run xs newWorkerGroup = Some g" "group_inv g" using worker_run_inv by blast
  have "Wait False pick g = Some (Inr ()) \<longleftrightarrow> wg_closed g \<and> wg_open g = []"
      "Wait False pick g = None \<longleftrightarrow> \<not> (wg_closed g \<and> wg_open g = [])"
    using g(2) by (auto simp: Wait_def group_inv_def)
  moreover have "\<exists>g'. worker_run ys g = Some g' \<and> fst (Admit g') = Inl ErrCanceled \<and> Wait False pick g' = Some (Inr ())"
    if "wg_closed g \<and> wg_open g = []"
  proof -
    obtain g' where g': "worker_run ys g = Some g' \<and> group_inv g' \<and> (wg_closed g \<longrightarrow> wg_closed g') \<and>
        (wg_closed g \<longrightarrow> set (wg_open g') \<subseteq> set (wg_open g))"
      by (rule exE [OF worker_run_inv [OF g(2)]])
    then have "wg_open g' = []" "wg_closed g'" using that by simp_all
    then show ?thesis using g' by (simp add: Wait_def Admit_def group_inv_def)
  qed
  ultimately show ?thesis using g(1) by (intro exI [of _ g]) simp
qed

theorem worker_drain_exact_witness:
  "\<exists>g. worker_run [OpAdmit, OpClose, OpRelease 0, OpRelease 0, OpAdmit] newWorkerGroup = Some g \<and>
     Wait False False g = Some (Inr ())"
proof -
  have "map_option (\<lambda>g. (wg_closed g, wg_open g))
      (worker_run [OpAdmit, OpClose, OpRelease 0, OpRelease 0, OpAdmit] newWorkerGroup) = Some (True, [])" by code_simp
  then show ?thesis
    using worker_drain_exact [of "[OpAdmit, OpClose, OpRelease 0, OpRelease 0, OpAdmit]" False "[]"] by auto
qed

end
