(* ===== verification/Sse.thy ===== *)
theory Sse
  imports Store_Events Event_Bus Activity Workers
begin

text \<open>
  The realtime event plane (\<open>sse/sse.go\<close>) and the half of \<open>daemon/events.go\<close> that is its
  backend: one stream of \<open>GET /events\<close> as the code of \<open>handleEvents\<close> runs it (the guards
  before the stream, one branch of the \<open>select\<close> at a time, the deferred calls at the end),
  the frames it writes, the solicited frames of \<open>Inject\<close>, and the presence changes.

  Bytes written to a response are a string; a Go channel of capacity one is an option. The
  timer of a debounced disconnect is a number, and its firing is an operation of its own.
\<close>

section \<open>State\<close>

type_synonym injectKey = "string \<times> string \<times> int"

record sse_server =
  ss_injects :: "injectKey \<Rightarrow> (nat \<times> string option) list"
  ss_next :: nat
  ss_presenceClosed :: bool
  ss_disconnects :: "(nat \<times> string) list"
  ss_emitting :: int
  ss_emitted :: "(string \<times> bool) list"

definition new_sse :: sse_server where
  "new_sse = \<lparr>ss_injects = (\<lambda>_. []), ss_next = 0, ss_presenceClosed = False, ss_disconnects = [],
     ss_emitting = 0, ss_emitted = []\<rparr>"

record sse_config =
  sc_onPresence :: bool
  sc_presenceType :: string
  sc_admit :: bool
  sc_muteFrame :: "(string \<Rightarrow> string \<Rightarrow> Event \<Rightarrow> bool) option"

section \<open>The backend\<close>

definition ResolveSubject :: "outcome \<Rightarrow> string \<Rightarrow> db \<Rightarrow> string option result \<times> db" where
  "ResolveSubject flt ref d =
     (case db_call flt (\<lambda>d. (Inr (map_option sb_id (find_first (\<lambda>r. sb_id r = ref \<or> sb_slug r = ref) (subjects d))), d)) d of
        (Inl er, d') \<Rightarrow> (Inl (ErrWrap (''resolve subject '' @ ref) er), d')
      | (Inr x, d') \<Rightarrow> (Inr x, d'))"

definition attachGrace :: int where
  "attachGrace = 10 * second"

definition ConsumerConnected :: "instant \<Rightarrow> string \<Rightarrow> Activity \<Rightarrow> bool" where
  "ConsumerConnected now subjectID a = AttachedWithin now subjectID attachGrace a"

section \<open>Frames\<close>

definition nl :: string where
  "nl = [CHR 0x0A]"

definition event_frame :: "Event \<Rightarrow> string" where
  "event_frame e = ''id: '' @ itoa (e_Seq e) @ nl @ ''data: '' @ e_Payload e @ nl @ nl"

definition caught_up_frame :: "int \<Rightarrow> string" where
  "caught_up_frame cursor = ''event: caught-up'' @ nl @ ''data: {'' @ [CHR 0x22] @ ''seq'' @ [CHR 0x22] @ '':'' @ itoa cursor @ ''}'' @ nl @ nl"

definition inject_frame :: "string \<Rightarrow> string" where
  "inject_frame p = ''data: '' @ p @ nl @ nl"

text \<open>Whether \<open>flushSince\<close> writes the frame of an event for a consumer.\<close>

definition withheld :: "sse_config \<Rightarrow> string \<Rightarrow> string \<Rightarrow> Event \<Rightarrow> bool" where
  "withheld cfg subjectID consumer e \<longleftrightarrow> consumer \<noteq> [] \<and>
     (sc_presenceType cfg \<noteq> [] \<and> e_Type e = sc_presenceType cfg \<or>
      (case sc_muteFrame cfg of None \<Rightarrow> False | Some mute \<Rightarrow> mute subjectID consumer e))"

fun flush_each :: "sse_config \<Rightarrow> string \<Rightarrow> string \<Rightarrow> int \<Rightarrow> Event list \<Rightarrow> string \<times> int" where
  "flush_each cfg subjectID consumer cursor [] = ([], cursor)"
| "flush_each cfg subjectID consumer cursor (e # es) =
     (let cursor' = (if e_Seq e > cursor then e_Seq e else cursor);
          (rest, last_cursor) = flush_each cfg subjectID consumer cursor' es
      in ((if withheld cfg subjectID consumer e then [] else event_frame e) @ rest, last_cursor))"

definition flushSince :: "sse_config \<Rightarrow> outcome \<Rightarrow> string \<Rightarrow> int \<Rightarrow> string \<Rightarrow> string \<Rightarrow> db \<Rightarrow> string \<times> int" where
  "flushSince cfg flt subjectID cursor excludeOrigin consumer d =
     (case fst (EventsSince flt subjectID cursor excludeOrigin d) of
        Inl er \<Rightarrow> ([], cursor)
      | Inr evs \<Rightarrow> flush_each cfg subjectID consumer cursor evs)"

section \<open>Solicited frames\<close>

definition attachInject :: "injectKey \<Rightarrow> sse_server \<Rightarrow> nat \<times> sse_server" where
  "attachInject k s = (ss_next s,
     s\<lparr>ss_injects := (ss_injects s)(k := (ss_next s, None) # ss_injects s k), ss_next := Suc (ss_next s)\<rparr>)"

definition detachInject :: "injectKey \<Rightarrow> nat \<Rightarrow> sse_server \<Rightarrow> sse_server" where
  "detachInject k ch s = s\<lparr>ss_injects := (ss_injects s)(k := filter (\<lambda>(c, q). c \<noteq> ch) (ss_injects s k))\<rparr>"

definition Inject :: "string \<Rightarrow> string \<Rightarrow> int \<Rightarrow> string \<Rightarrow> sse_server \<Rightarrow> int \<times> sse_server" where
  "Inject subjectID consumer pid payload s =
     (let k = (subjectID, consumer, pid); chans = ss_injects s k
      in (int (length (filter (\<lambda>(ch, q). q = None) chans)),
          s\<lparr>ss_injects := (ss_injects s)(k := map (\<lambda>(ch, q). (ch, case q of None \<Rightarrow> Some payload | Some p \<Rightarrow> Some p)) chans)\<rparr>))"

text \<open>The receive of a stream from its own channel.\<close>

definition take_inject :: "injectKey \<Rightarrow> nat \<Rightarrow> sse_server \<Rightarrow> string option \<times> sse_server" where
  "take_inject k ch s =
     (case map_of (ss_injects s k) ch of
        Some (Some p) \<Rightarrow> (Some p, s\<lparr>ss_injects := (ss_injects s)(k :=
            map (\<lambda>(c, q). (c, if c = ch then None else q)) (ss_injects s k))\<rparr>)
      | _ \<Rightarrow> (None, s))"

section \<open>Presence\<close>

definition presenceChange :: "sse_config \<Rightarrow> string \<Rightarrow> bool \<Rightarrow> sse_server \<Rightarrow> sse_server" where
  "presenceChange cfg subjectID connected s =
     (if sc_onPresence cfg then s\<lparr>ss_emitted := ss_emitted s @ [(subjectID, connected)]\<rparr> else s)"

definition enterPresence :: "sse_server \<Rightarrow> bool \<times> sse_server" where
  "enterPresence s = (if ss_presenceClosed s then (False, s) else (True, s\<lparr>ss_emitting := ss_emitting s + 1\<rparr>))"

definition donePresence :: "sse_server \<Rightarrow> sse_server" where
  "donePresence s = s\<lparr>ss_emitting := ss_emitting s - 1\<rparr>"

definition announceConnect :: "sse_config \<Rightarrow> string \<Rightarrow> sse_server \<Rightarrow> sse_server" where
  "announceConnect cfg subjectID s =
     (case enterPresence s of
        (False, s1) \<Rightarrow> s1
      | (True, s1) \<Rightarrow> donePresence (presenceChange cfg subjectID True s1))"

definition debounceDisconnect :: "string \<Rightarrow> sse_server \<Rightarrow> sse_server" where
  "debounceDisconnect subjectID s =
     (if ss_presenceClosed s then s
      else s\<lparr>ss_disconnects := (ss_next s, subjectID) # ss_disconnects s, ss_next := Suc (ss_next s)\<rparr>)"

text \<open>The two halves of the timer's function: taking the entry under the lock, and the rest.\<close>

definition fire_begin :: "nat \<Rightarrow> sse_server \<Rightarrow> string option \<times> sse_server" where
  "fire_begin timer s =
     (case map_of (ss_disconnects s) timer of
        None \<Rightarrow> (None, s)
      | Some subjectID \<Rightarrow> (Some subjectID,
          s\<lparr>ss_disconnects := AList.delete timer (ss_disconnects s), ss_emitting := ss_emitting s + 1\<rparr>))"

definition fire_end :: "sse_config \<Rightarrow> bool \<Rightarrow> string \<Rightarrow> sse_server \<Rightarrow> sse_server" where
  "fire_end cfg connected subjectID s =
     donePresence (if connected then s else presenceChange cfg subjectID False s)"

text \<open>\<open>ClosePresence\<close> up to its wait, and the wait (\<open>None\<close> while it blocks).\<close>

definition ClosePresence :: "sse_server \<Rightarrow> sse_server" where
  "ClosePresence s = s\<lparr>ss_presenceClosed := True, ss_disconnects := []\<rparr>"

definition presence_wait :: "bool \<Rightarrow> bool \<Rightarrow> sse_server \<Rightarrow> unit result option" where
  "presence_wait ctxDone pickDone s =
     (if ctxDone \<and> (pickDone \<or> ss_emitting s \<noteq> 0) then Some (Inl ErrCanceled)
      else if ss_emitting s = 0 then Some (Inr ()) else None)"

section \<open>One stream\<close>

record stream_request =
  rq_session :: string
  rq_excludeOrigin :: string
  rq_consumer :: string
  rq_claudePID :: string
  rq_lastEventHeader :: string
  rq_lastEventQuery :: string

definition parseCursor :: "stream_request \<Rightarrow> int" where
  "parseCursor r =
     (case (if rq_lastEventHeader r \<noteq> [] then parseInt 64 (rq_lastEventHeader r) else None) of
        Some n \<Rightarrow> n
      | None \<Rightarrow>
          (case (if rq_lastEventQuery r \<noteq> [] then parseInt 64 (rq_lastEventQuery r) else None) of
             Some n \<Rightarrow> n | None \<Rightarrow> 0))"

record stream =
  str_subject :: string
  str_exclude :: string
  str_consumer :: string
  str_pid :: int
  str_cursor :: int
  str_inject :: nat
  str_signal :: nat
  str_token :: "nat option"
  str_out :: string

record world =
  wd_db :: db
  wd_bus :: Bus
  wd_activity :: Activity
  wd_workers :: workerGroup
  wd_sse :: sse_server

datatype opened = Refused int | Streaming stream

definition release_token :: "nat option \<Rightarrow> world \<Rightarrow> world option" where
  "release_token tok w = (case tok of None \<Rightarrow> Some w
     | Some t \<Rightarrow> map_option (\<lambda>g. w\<lparr>wd_workers := g\<rparr>) (release_worker t (wd_workers w)))"

text \<open>Presence: the attachment of a named consumer, or of an anonymous viewer.\<close>

definition stream_attach :: "sse_config \<Rightarrow> instant \<Rightarrow> string \<Rightarrow> string \<Rightarrow> int \<Rightarrow> world \<Rightarrow> nat \<times> world" where
  "stream_attach cfg now subjectID consumer pid w =
     (if consumer \<noteq> [] then
        let (ch, s1) = attachInject (subjectID, consumer, pid) (wd_sse w);
            wasConnected = ConsumerConnected now subjectID (wd_activity w);
            a1 = Attach subjectID consumer pid (wd_activity w);
            s2 = (if wasConnected then s1 else announceConnect cfg subjectID s1)
        in (ch, w\<lparr>wd_sse := s2, wd_activity := a1\<rparr>)
      else (0, w\<lparr>wd_activity := AttachViewer subjectID (wd_activity w)\<rparr>))"

text \<open>The subscription, the replay and the caught-up marker.\<close>

definition stream_start :: "sse_config \<Rightarrow> outcome \<Rightarrow> stream_request \<Rightarrow> string \<Rightarrow> int \<Rightarrow> nat \<Rightarrow> nat option \<Rightarrow> world \<Rightarrow> stream \<times> world" where
  "stream_start cfg flt r subjectID pid ch tok w =
     (let (sub, bus1) = Subscribe subjectID (wd_bus w);
          (out, cursor) = flushSince cfg flt subjectID (parseCursor r) (rq_excludeOrigin r) (rq_consumer r) (wd_db w)
      in (\<lparr>str_subject = subjectID, str_exclude = rq_excludeOrigin r, str_consumer = rq_consumer r, str_pid = pid,
           str_cursor = cursor, str_inject = ch, str_signal = sub, str_token = tok,
           str_out = out @ '': connected'' @ nl @ nl @ caught_up_frame cursor\<rparr>,
          w\<lparr>wd_bus := bus1\<rparr>))"

definition stream_admit :: "sse_config \<Rightarrow> world \<Rightarrow> (nat option \<times> world) option" where
  "stream_admit cfg w =
     (if sc_admit cfg
      then (case Admit (wd_workers w) of (Inl er, g) \<Rightarrow> None | (Inr t, g) \<Rightarrow> Some (Some t, w\<lparr>wd_workers := g\<rparr>))
      else Some (None, w))"

definition handleEvents :: "sse_config \<Rightarrow> outcome \<Rightarrow> outcome \<Rightarrow> bool \<Rightarrow> instant \<Rightarrow> stream_request \<Rightarrow> world \<Rightarrow> (opened \<times> world) option" where
  "handleEvents cfg flt flt' flusher now r w =
     (if rq_session r = [] then Some (Refused 400, w)
      else case fst (ResolveSubject flt (rq_session r) (wd_db w)) of
        Inl er \<Rightarrow> Some (Refused 500, w)
      | Inr None \<Rightarrow> Some (Refused 404, w)
      | Inr (Some subjectID) \<Rightarrow>
          if \<not> flusher then Some (Refused 500, w)
          else
            (case stream_admit cfg w of
               None \<Rightarrow> Some (Refused 503, w)
             | Some (tok, w1) \<Rightarrow>
                 (case (if rq_claudePID r \<noteq> [] then parseInt 64 (rq_claudePID r) else Some 0) of
                    None \<Rightarrow> map_option (\<lambda>w2. (Refused 400, w2)) (release_token tok w1)
                  | Some pid \<Rightarrow>
                      (case stream_attach cfg now subjectID (rq_consumer r) pid w1 of
                         (ch, w2) \<Rightarrow>
                           (case stream_start cfg flt' r subjectID pid ch tok w2 of
                              (st, w3) \<Rightarrow> Some (Streaming st, w3))))))"

text \<open>
  One turn of the loop, for the case that is ready (a case that is not ready changes nothing),
  and the deferred calls when the context ends, in the order Go runs them.
\<close>

datatype wake = Keepalive | Signal outcome | Injected

fun stream_wake :: "sse_config \<Rightarrow> wake \<Rightarrow> stream \<times> world \<Rightarrow> stream \<times> world" where
  "stream_wake cfg Keepalive (st, w) = (st\<lparr>str_out := str_out st @ '': keepalive'' @ nl @ nl\<rparr>, w)"
| "stream_wake cfg (Signal flt) (st, w) =
     (if bus_chan (wd_bus w) (str_signal st) then
        let (out, cursor) = flushSince cfg flt (str_subject st) (str_cursor st) (str_exclude st) (str_consumer st) (wd_db w)
        in (st\<lparr>str_out := str_out st @ out, str_cursor := cursor\<rparr>, w\<lparr>wd_bus := receive (str_signal st) (wd_bus w)\<rparr>)
      else (st, w))"
| "stream_wake cfg Injected (st, w) =
     (if str_consumer st = [] then (st, w)
      else case take_inject (str_subject st, str_consumer st, str_pid st) (str_inject st) (wd_sse w) of
             (None, s) \<Rightarrow> (st, w)
           | (Some p, s) \<Rightarrow> (st\<lparr>str_out := str_out st @ inject_frame p\<rparr>, w\<lparr>wd_sse := s\<rparr>))"

definition stream_end :: "instant \<Rightarrow> stream \<Rightarrow> world \<Rightarrow> world option" where
  "stream_end now st w =
     (let w1 = w\<lparr>wd_bus := cancel (str_subject st) (str_signal st) (wd_bus w)\<rparr>;
          w2 = (if str_consumer st \<noteq> [] then
                  w1\<lparr>wd_activity := detach_attach now (str_subject st) (str_consumer st) (str_pid st) (wd_activity w1),
                     wd_sse := detachInject (str_subject st, str_consumer st, str_pid st) (str_inject st)
                                 (debounceDisconnect (str_subject st) (wd_sse w1))\<rparr>
                else w1\<lparr>wd_activity := detach_viewer (str_subject st) (wd_activity w1)\<rparr>)
      in release_token (str_token st) w2)"

section \<open>What a flush writes\<close>

definition frames :: "sse_config \<Rightarrow> string \<Rightarrow> string \<Rightarrow> Event list \<Rightarrow> string" where
  "frames cfg sid consumer evs = concat (map event_frame (filter (\<lambda>e. \<not> withheld cfg sid consumer e) evs))"

lemma frames_append: "frames cfg sid consumer (xs @ ys) = frames cfg sid consumer xs @ frames cfg sid consumer ys"
  by (simp add: frames_def)

lemma flush_each_eq:
  "sorted (c # map e_Seq evs) \<Longrightarrow> flush_each cfg sid consumer c evs = (frames cfg sid consumer evs, high_water c evs)"
proof (induction evs arbitrary: c)
  case (Cons e evs)
  have "flush_each cfg sid consumer (e_Seq e) evs = (frames cfg sid consumer evs, high_water (e_Seq e) evs)"
    using Cons.prems by (intro Cons.IH) simp
  moreover have "(if e_Seq e > c then e_Seq e else c) = e_Seq e" using Cons.prems by auto
  ultimately show ?case by (simp add: Let_def frames_def high_water_def)
qed (simp add: frames_def high_water_def)

lemma read_log_above: "log_inv d \<Longrightarrow> e \<in> set (read_log sid c ex d) \<Longrightarrow> c < e_Seq e"
  by (auto simp: read_log_eq)

lemma flushSince_ok:
  assumes "log_inv d"
  shows "flushSince cfg None sid c ex consumer d =
    (frames cfg sid consumer (read_log sid c ex d), high_water c (read_log sid c ex d))"
proof -
  have "sorted (c # map e_Seq (read_log sid c ex d))"
    using sql_log.since_sorted [OF assms, of sid c ex] read_log_above [OF assms] by fastforce
  then show ?thesis by (simp add: flushSince_def EventsSince_read_log flush_each_eq)
qed

lemma flushSince_failed: "flushSince cfg (Some m) sid c ex consumer d = ([], c)"
  by (simp add: flushSince_def EventsSince_def)

text \<open>Appends by the rest of the daemon: the rows, then the wakeup.\<close>

definition others_append :: "string \<Rightarrow> (outcome \<times> instant \<times> Event) list \<Rightarrow> world \<Rightarrow> world" where
  "others_append sid es w = w\<lparr>wd_db := append_all es (wd_db w), wd_bus := Publish sid (wd_bus w)\<rparr>"

datatype stream_input = Others "(outcome \<times> instant \<times> Event) list" | Woken wake

fun stream_feed :: "sse_config \<Rightarrow> stream_input \<Rightarrow> stream \<times> world \<Rightarrow> stream \<times> world" where
  "stream_feed cfg (Others es) (st, w) = (st, others_append (str_subject st) es w)"
| "stream_feed cfg (Woken x) sw = stream_wake cfg x sw"

text \<open>
  The bytes a stream has written, as pieces: its frames are those of the log between its
  first cursor and the current one, with keepalives and solicited frames between them.
\<close>

datatype piece = Row Event | Comment bool | CaughtUp int | Solicited string

definition piece_bytes :: "piece \<Rightarrow> string" where
  "piece_bytes p = (case p of
     Row e \<Rightarrow> event_frame e
   | Comment alive \<Rightarrow> (if alive then '': keepalive'' else '': connected'') @ nl @ nl
   | CaughtUp c \<Rightarrow> caught_up_frame c
   | Solicited t \<Rightarrow> inject_frame t)"

definition rows_of :: "piece list \<Rightarrow> Event list" where
  "rows_of ps = concat (map (\<lambda>p. case p of Row e \<Rightarrow> [e] | _ \<Rightarrow> []) ps)"

text \<open>
  Which pieces a run may hold: any (\<open>None\<close>), or, for a run without solicited frames, rows,
  comments and the one caught-up marker at the given number.
\<close>

definition allowed :: "int option \<Rightarrow> piece \<Rightarrow> bool" where
  "allowed sol p \<longleftrightarrow> (case sol of None \<Rightarrow> True | Some n \<Rightarrow> (case p of Solicited _ \<Rightarrow> False | CaughtUp c \<Rightarrow> c = n | _ \<Rightarrow> True))"

text \<open>
  The invariant of a stream: what it has written past its start is, rows and notes apart,
  the log up to its cursor; reading on from its cursor completes the log.
\<close>

definition stream_ok :: "int option \<Rightarrow> sse_config \<Rightarrow> int \<Rightarrow> string \<Rightarrow> stream \<times> world \<Rightarrow> bool" where
  "stream_ok sol cfg c0 out0 sw \<longleftrightarrow> (case sw of (st, w) \<Rightarrow> log_inv (wd_db w) \<and>
     (\<exists>ps seen. str_out st = out0 @ concat (map piece_bytes ps) \<and> list_all (allowed sol) ps \<and>
        rows_of ps = filter (\<lambda>e. \<not> withheld cfg (str_subject st) (str_consumer st) e) seen \<and>
        str_cursor st = high_water c0 seen \<and>
        seen @ read_log (str_subject st) (str_cursor st) (str_exclude st) (wd_db w) = read_log (str_subject st) c0 (str_exclude st) (wd_db w)))"

lemma rows_of_simps [simp]:
  "rows_of [] = []" "rows_of (ps @ qs) = rows_of ps @ rows_of qs" "rows_of (map Row es) = es"
  by (simp_all add: rows_of_def o_def)

lemma bytes_rows: "concat (map piece_bytes (map Row es)) = concat (map event_frame es)"
  by (simp add: piece_bytes_def o_def)

lemma read_log_grows:
  assumes "log_inv d" and "seen @ read_log sid c ex d = read_log sid c0 ex d" and "c = high_water c0 seen"
  shows "seen @ read_log sid c ex (append_all es d) = read_log sid c0 ex (append_all es d)"
proof -
  let ?d = "append_all es d"
  have g: "appended_to d ?d" by (auto simp: appended_to_def)
  have "read_log sid c0 ex ?d = read_log sid c0 ex d @ read_log sid (high_water c0 (read_log sid c0 ex d)) ex ?d"
    using sql_log.poll_resume [OF assms(1) g, of sid c0 ex] by simp
  moreover have "read_log sid c ex ?d = read_log sid c ex d @ read_log sid (high_water c (read_log sid c ex d)) ex ?d"
    using sql_log.poll_resume [OF assms(1) g, of sid c ex] by simp
  moreover have "read_log sid (high_water c0 (read_log sid c0 ex d)) ex ?d = read_log sid (high_water c (read_log sid c ex d)) ex ?d"
  proof (cases "read_log sid c ex d = []")
    case False
    then show ?thesis using assms(2) by (metis append_is_Nil_conv high_water_def last_appendR)
  next
    case True
    then have "high_water c0 (read_log sid c0 ex d) = c" using assms(2,3) by simp
    then show ?thesis using True by (simp add: high_water_def)
  qed
  ultimately show ?thesis using assms(2) by (metis append.assoc)
qed

lemma stream_okI:
  "log_inv (wd_db w) \<Longrightarrow> str_out st = out0 @ concat (map piece_bytes ps) \<Longrightarrow> list_all (allowed sol) ps \<Longrightarrow>
   rows_of ps = filter (\<lambda>e. \<not> withheld cfg (str_subject st) (str_consumer st) e) seen \<Longrightarrow> str_cursor st = high_water c0 seen \<Longrightarrow>
   seen @ read_log (str_subject st) (str_cursor st) (str_exclude st) (wd_db w) = read_log (str_subject st) c0 (str_exclude st) (wd_db w)
   \<Longrightarrow> stream_ok sol cfg c0 out0 (st, w)"
  unfolding stream_ok_def by auto

lemma stream_okE:
  assumes "stream_ok sol cfg c0 out0 (st, w)"
  obtains ps seen where "log_inv (wd_db w)" "str_out st = out0 @ concat (map piece_bytes ps)" "list_all (allowed sol) ps"
    "rows_of ps = filter (\<lambda>e. \<not> withheld cfg (str_subject st) (str_consumer st) e) seen" "str_cursor st = high_water c0 seen"
    "seen @ read_log (str_subject st) (str_cursor st) (str_exclude st) (wd_db w) = read_log (str_subject st) c0 (str_exclude st) (wd_db w)"
  using assms unfolding stream_ok_def by auto

lemma read_log_end: "log_inv d \<Longrightarrow> read_log sid (high_water c (read_log sid c ex d)) ex d = []"
  using sql_log.poll_resume [of d d sid c ex] by (metis append_all.simps(1) append_self_conv appended_to_def)

lemma stream_ok_piece:
  assumes "stream_ok sol cfg c0 out0 (st, w)" and "wd_db w' = wd_db w" and "rows_of [q] = []" and "allowed sol q"
  shows "stream_ok sol cfg c0 out0 (st\<lparr>str_out := str_out st @ piece_bytes q\<rparr>, w')"
proof -
  from assms(1) obtain ps seen where i: "log_inv (wd_db w)" "str_out st = out0 @ concat (map piece_bytes ps)" "list_all (allowed sol) ps"
    "rows_of ps = filter (\<lambda>e. \<not> withheld cfg (str_subject st) (str_consumer st) e) seen" "str_cursor st = high_water c0 seen"
    "seen @ read_log (str_subject st) (str_cursor st) (str_exclude st) (wd_db w) = read_log (str_subject st) c0 (str_exclude st) (wd_db w)"
    by (rule stream_okE)
  show ?thesis by (rule stream_okI [of _ _ _ "ps @ [q]" _ _ seen]) (use i assms(2-4) in \<open>auto\<close>)
qed

lemma allowed_simps [simp]: "allowed sol (Row e)" "allowed sol (Comment b)" "allowed None p" "allowed (Some n) (CaughtUp c) = (c = n)"
  by (simp_all add: allowed_def split: option.split)

lemma allowed_rows: "list_all (allowed sol) (map Row es)"
  by (simp add: list_all_iff)

lemma stream_ok_flush:
  assumes "stream_ok sol cfg c0 out0 (st, w)" and "wd_db w' = wd_db w"
    and "flushSince cfg flt (str_subject st) (str_cursor st) (str_exclude st) (str_consumer st) (wd_db w) = (out, c)"
  shows "stream_ok sol cfg c0 out0 (st\<lparr>str_out := str_out st @ out, str_cursor := c\<rparr>, w')"
proof (cases flt)
  case (Some m)
  then have "out = []" "c = str_cursor st" using assms(3) by (simp_all add: flushSince_failed)
  then show ?thesis using assms(1,2) by (simp add: stream_ok_def)
next
  case None
  let ?sid = "str_subject st" and ?ex = "str_exclude st" and ?d = "wd_db w"
  let ?keep = "\<lambda>e. \<not> withheld cfg ?sid (str_consumer st) e"
  let ?new = "read_log ?sid (str_cursor st) ?ex ?d"
  from assms(1) obtain ps seen where i: "log_inv ?d" "str_out st = out0 @ concat (map piece_bytes ps)" "list_all (allowed sol) ps"
    "rows_of ps = filter ?keep seen" "str_cursor st = high_water c0 seen" "seen @ ?new = read_log ?sid c0 ?ex ?d"
    by (rule stream_okE)
  have f: "out = frames cfg ?sid (str_consumer st) ?new" "c = high_water (str_cursor st) ?new"
    using assms(3) None by (simp_all add: flushSince_ok [OF i(1)])
  have c: "c = high_water c0 (seen @ ?new)" using f(2) i(5) by (simp add: high_water_def)
  have "read_log ?sid c ?ex ?d = []" unfolding c i(6) by (rule read_log_end [OF i(1)])
  moreover have "str_out st @ out = out0 @ concat (map piece_bytes (ps @ map Row (filter ?keep ?new)))"
    using i(2) f(1) by (simp add: frames_def bytes_rows del: map_map)
  moreover have "rows_of (ps @ map Row (filter ?keep ?new)) = filter ?keep (seen @ ?new)" using i(4) by simp
  ultimately show ?thesis using i(1,3,6) c assms(2)
    by (intro stream_okI [of _ _ _ "ps @ map Row (filter ?keep ?new)" _ _ "seen @ ?new"]) (simp_all add: allowed_rows)
qed

lemma stream_feed_ok: "stream_ok sol cfg c0 out0 sw \<Longrightarrow> sol = None \<or> x \<noteq> Woken Injected \<Longrightarrow> stream_ok sol cfg c0 out0 (stream_feed cfg x sw)"
proof (induction cfg x sw rule: stream_feed.induct)
  case (1 cfg es st w)
  from 1(1) obtain ps seen where i: "log_inv (wd_db w)" "str_out st = out0 @ concat (map piece_bytes ps)" "list_all (allowed sol) ps"
    "rows_of ps = filter (\<lambda>e. \<not> withheld cfg (str_subject st) (str_consumer st) e) seen" "str_cursor st = high_water c0 seen"
    "seen @ read_log (str_subject st) (str_cursor st) (str_exclude st) (wd_db w) = read_log (str_subject st) c0 (str_exclude st) (wd_db w)"
    by (rule stream_okE)
  show ?case unfolding stream_feed.simps
    by (rule stream_okI [of _ _ _ ps _ _ seen])
       (use i read_log_grows [OF i(1,6,5), of es] append_all_log_inv [OF i(1), of es] in \<open>simp_all add: others_append_def\<close>)
next
  case (2 cfg x sw)
  obtain st w where sw: "sw = (st, w)" by fastforce
  show ?case
  proof (cases x)
    case Keepalive
    then show ?thesis using 2 stream_ok_piece [of sol cfg c0 out0 st w w "Comment True"]
      by (simp add: sw piece_bytes_def rows_of_def)
  next
    case (Signal flt)
    then show ?thesis using 2 stream_ok_flush [of sol cfg c0 out0 st w "w\<lparr>wd_bus := receive (str_signal st) (wd_bus w)\<rparr>" flt]
      by (auto simp: sw split: prod.split)
  next
    case Injected
    then show ?thesis using 2 stream_ok_piece [of sol cfg c0 out0 st w _ "Solicited p" for p]
      by (auto simp: sw piece_bytes_def rows_of_def split: prod.split option.split)
  qed
qed

lemma stream_feeds_ok: "stream_ok sol cfg c0 out0 sw \<Longrightarrow> sol = None \<or> Woken Injected \<notin> set xs \<Longrightarrow> stream_ok sol cfg c0 out0 (fold (stream_feed cfg) xs sw)"
proof (induction xs arbitrary: sw)
  case (Cons x xs)
  then have "stream_ok sol cfg c0 out0 (stream_feed cfg x sw)" "sol = None \<or> Woken Injected \<notin> set xs" by (auto intro: stream_feed_ok)
  from Cons.IH [OF this] show ?case by simp
qed simp

lemma stream_fixed:
  "str_subject (fst (fold (stream_feed cfg) xs sw)) = str_subject (fst sw)"
  "str_exclude (fst (fold (stream_feed cfg) xs sw)) = str_exclude (fst sw)"
  "str_consumer (fst (fold (stream_feed cfg) xs sw)) = str_consumer (fst sw)"
proof -
  have one: "str_subject (fst (stream_feed cfg x sw)) = str_subject (fst sw) \<and> str_exclude (fst (stream_feed cfg x sw)) = str_exclude (fst sw) \<and>
      str_consumer (fst (stream_feed cfg x sw)) = str_consumer (fst sw)" for x sw
    by (cases sw; cases x; (rename_tac st w y; case_tac y)?) (auto simp: Let_def split: prod.split option.split)
  have "str_subject (fst (fold (stream_feed cfg) xs sw)) = str_subject (fst sw) \<and> str_exclude (fst (fold (stream_feed cfg) xs sw)) = str_exclude (fst sw) \<and>
      str_consumer (fst (fold (stream_feed cfg) xs sw)) = str_consumer (fst sw)"
    by (induction xs arbitrary: sw) (auto simp: one)
  then show "str_subject (fst (fold (stream_feed cfg) xs sw)) = str_subject (fst sw)"
    "str_exclude (fst (fold (stream_feed cfg) xs sw)) = str_exclude (fst sw)"
    "str_consumer (fst (fold (stream_feed cfg) xs sw)) = str_consumer (fst sw)" by auto
qed

lemma attach_db: "stream_attach cfg now sid consumer pid w = (ch, w') \<Longrightarrow> wd_db w' = wd_db w"
  by (auto simp: stream_attach_def Let_def split: if_splits prod.splits)

text \<open>The state a granted request starts its stream from.\<close>

lemma handleEvents_starts:
  assumes "handleEvents cfg flt flt' flusher now r w = Some (Streaming st, w')"
  obtains sid pid ch tok w2 where "stream_start cfg flt' r sid pid ch tok w2 = (st, w')" "wd_db w2 = wd_db w"
    "fst (ResolveSubject flt (rq_session r) (wd_db w)) = Inr (Some sid)"
proof -
  obtain sid where sid: "fst (ResolveSubject flt (rq_session r) (wd_db w)) = Inr (Some sid)"
    using assms by (auto simp: handleEvents_def split: if_splits sum.splits option.splits)
  obtain tok w1 where adm: "stream_admit cfg w = Some (tok, w1)"
    using assms by (auto simp: handleEvents_def sid split: if_splits option.splits)
  obtain pid where pid: "(if rq_claudePID r \<noteq> [] then parseInt 64 (rq_claudePID r) else Some 0) = Some pid"
    using assms by (auto simp: handleEvents_def sid adm split: if_splits option.splits)
  obtain ch w2 where att: "stream_attach cfg now sid (rq_consumer r) pid w1 = (ch, w2)" by fastforce
  have "stream_start cfg flt' r sid pid ch tok w2 = (st, w')"
    using assms by (cases "stream_start cfg flt' r sid pid ch tok w2") (simp add: handleEvents_def sid adm pid att split: if_splits)
  moreover have "wd_db w1 = wd_db w" using adm by (auto simp: stream_admit_def split: if_splits prod.splits sum.splits)
  ultimately show thesis using that attach_db [OF att] sid by metis
qed

lemma stream_start_ok:
  assumes "stream_start cfg flt r sid pid ch tok w = (st, w')" and "log_inv (wd_db w)" and "sol = None \<or> sol = Some (str_cursor st)"
  shows "stream_ok sol cfg (parseCursor r) [] (st, w')" "str_subject st = sid" "str_exclude st = rq_excludeOrigin r"
    "str_consumer st = rq_consumer r" "wd_db w' = wd_db w"
proof -
  let ?st = "\<lparr>str_subject = sid, str_exclude = rq_excludeOrigin r, str_consumer = rq_consumer r, str_pid = pid,
      str_cursor = parseCursor r, str_inject = ch, str_signal = fst (Subscribe sid (wd_bus w)), str_token = tok, str_out = []\<rparr>"
  obtain out c where f: "flushSince cfg flt sid (parseCursor r) (rq_excludeOrigin r) (rq_consumer r) (wd_db w) = (out, c)" by fastforce
  have st: "st = ?st\<lparr>str_out := out @ '': connected'' @ nl @ nl @ caught_up_frame c, str_cursor := c\<rparr>" "wd_db w' = wd_db w"
    using assms(1) by (auto simp: stream_start_def f Let_def split: prod.splits)
  have "stream_ok sol cfg (parseCursor r) [] (?st, w)"
    by (rule stream_okI [of _ _ _ "[]" _ _ "[]"]) (simp_all add: assms(2) high_water_def)
  then have "stream_ok sol cfg (parseCursor r) [] (?st\<lparr>str_out := str_out ?st @ out, str_cursor := c\<rparr>, w)"
    by (rule stream_ok_flush [where flt = flt]) (simp_all add: f)
  from stream_ok_piece [OF stream_ok_piece [OF this refl, of "Comment False"] st(2), of "CaughtUp c"]
  show "stream_ok sol cfg (parseCursor r) [] (st, w')" using assms(3) by (auto simp: st(1) piece_bytes_def rows_of_def)
  show "str_subject st = sid" "str_exclude st = rq_excludeOrigin r" "str_consumer st = rq_consumer r" "wd_db w' = wd_db w"
    using st by simp_all
qed

text \<open>A granted stream after any inputs, with or without solicited frames among them.\<close>

lemma stream_run_pieces:
  assumes "log_inv (wd_db w)" and "handleEvents cfg flt flt' flusher now r w = Some (Streaming st0, w0)"
    and "fold (stream_feed cfg) xs (st0, w0) = (st, w1)" and "sol = None \<or> Woken Injected \<notin> set xs" and "sol = None \<or> sol = Some (str_cursor st0)"
  obtains ps seen where "log_inv (wd_db w1)" "str_out st = concat (map piece_bytes ps)" "list_all (allowed sol) ps"
    "rows_of ps = filter (\<lambda>e. \<not> withheld cfg (str_subject st0) (rq_consumer r) e) seen"
    "seen @ read_log (str_subject st0) (str_cursor st) (rq_excludeOrigin r) (wd_db w1)
      = read_log (str_subject st0) (parseCursor r) (rq_excludeOrigin r) (wd_db w1)"
    "str_subject st = str_subject st0" "str_exclude st = rq_excludeOrigin r" "str_consumer st = rq_consumer r"
proof -
  obtain sid pid ch tok w2 where s: "stream_start cfg flt' r sid pid ch tok w2 = (st0, w0)" "wd_db w2 = wd_db w"
    by (rule handleEvents_starts [OF assms(2)])
  note ok0 = stream_start_ok [OF s(1)]
  have inv: "log_inv (wd_db w2)" using assms(1) s(2) by simp
  have fixed: "str_subject st = str_subject st0" "str_exclude st = rq_excludeOrigin r" "str_consumer st = rq_consumer r"
    using stream_fixed [of cfg xs "(st0, w0)"] ok0(2-4) [OF inv assms(5)] by (simp_all add: assms(3))
  have "stream_ok sol cfg (parseCursor r) [] (st, w1)"
    using stream_feeds_ok [OF ok0(1) [OF inv assms(5)] assms(4)] by (simp add: assms(3))
  then show thesis by (rule stream_okE) (use that fixed in simp)
qed


definition sample_world :: world where
  "sample_world = \<lparr>wd_db = append_all [(None, 6, sample_event ''human'' ''{1}'' [])] sample_db, wd_bus = NewBus, wd_activity = NewActivity,
     wd_workers = newWorkerGroup, wd_sse = new_sse\<rparr>"

definition sample_request :: stream_request where
  "sample_request = \<lparr>rq_session = ''slug'', rq_excludeOrigin = ''agent'', rq_consumer = ''channel'', rq_claudePID = ''7'',
     rq_lastEventHeader = [], rq_lastEventQuery = []\<rparr>"

definition open_config :: sse_config where
  "open_config = \<lparr>sc_onPresence = True, sc_presenceType = ''presence'', sc_admit = True, sc_muteFrame = None\<rparr>"

definition sample_inputs :: "stream_input list" where
  "sample_inputs = [Others [(None, 7, sample_event ''human'' ''{2}'' [])], Woken (Signal None)]"

lemma sample_stream_run:
  "map_option (\<lambda>(o', w). case o' of Refused n \<Rightarrow> None | Streaming st0 \<Rightarrow>
     Some (map_prod str_cursor (\<lambda>w. bus_chan (wd_bus w) 0)
       (fold (stream_feed open_config) sample_inputs (st0, w))))
     (handleEvents open_config None None True 0 sample_request sample_world) = Some (Some (2, False))"
  by code_simp


section \<open>Closing presence\<close>

text \<open>
  Connects, timers and the close run in any order: an emission is in flight between its
  admission under the lock and its \<open>Done\<close>. Each step is one critical section of the code
  or one call of the consumer's callback.
\<close>

record presence =
  pr_sse :: sse_server
  pr_flight :: "(string \<times> bool) list"

inductive presence_step :: "sse_config \<Rightarrow> presence \<Rightarrow> presence \<Rightarrow> bool" for cfg where
  connect: "enterPresence (pr_sse p) = (True, s) \<Longrightarrow> presence_step cfg p (p\<lparr>pr_sse := s, pr_flight := (sid, True) # pr_flight p\<rparr>)"
| refused: "enterPresence (pr_sse p) = (False, s) \<Longrightarrow> presence_step cfg p (p\<lparr>pr_sse := s\<rparr>)"
| connected: "(sid, True) \<in> set (pr_flight p) \<Longrightarrow>
    presence_step cfg p (p\<lparr>pr_sse := donePresence (presenceChange cfg sid True (pr_sse p)), pr_flight := remove1 (sid, True) (pr_flight p)\<rparr>)"
| detached: "presence_step cfg p (p\<lparr>pr_sse := debounceDisconnect sid (pr_sse p)\<rparr>)"
| fired: "fire_begin timer (pr_sse p) = (Some sid, s) \<Longrightarrow> presence_step cfg p (p\<lparr>pr_sse := s, pr_flight := (sid, False) # pr_flight p\<rparr>)"
| fired_late: "fire_begin timer (pr_sse p) = (None, s) \<Longrightarrow> presence_step cfg p (p\<lparr>pr_sse := s\<rparr>)"
| disconnected: "(sid, False) \<in> set (pr_flight p) \<Longrightarrow>
    presence_step cfg p (p\<lparr>pr_sse := fire_end cfg back sid (pr_sse p), pr_flight := remove1 (sid, False) (pr_flight p)\<rparr>)"
| closing: "presence_step cfg p (p\<lparr>pr_sse := ClosePresence (pr_sse p)\<rparr>)"

inductive_cases presence_stepE: "presence_step cfg p q"

definition presence_start :: "presence \<Rightarrow> bool" where
  "presence_start p \<longleftrightarrow> p = \<lparr>pr_sse = new_sse, pr_flight = []\<rparr>"

definition presence_inv :: "presence \<Rightarrow> bool" where
  "presence_inv p \<longleftrightarrow> ss_emitting (pr_sse p) = int (length (pr_flight p)) \<and>
     (ss_presenceClosed (pr_sse p) \<longrightarrow> ss_disconnects (pr_sse p) = [])"

lemma donePresence_sel [simp]:
  "ss_emitting (donePresence s) = ss_emitting s - 1" "ss_presenceClosed (donePresence s) = ss_presenceClosed s"
  "ss_disconnects (donePresence s) = ss_disconnects s" "ss_emitted (donePresence s) = ss_emitted s"
  by (simp_all add: donePresence_def)

lemma presenceChange_sel [simp]:
  "ss_emitting (presenceChange cfg sid c s) = ss_emitting s" "ss_presenceClosed (presenceChange cfg sid c s) = ss_presenceClosed s"
  "ss_disconnects (presenceChange cfg sid c s) = ss_disconnects s"
  by (simp_all add: presenceChange_def)

lemma flight_remove: "x \<in> set fs \<Longrightarrow> int (length (remove1 x fs)) = int (length fs) - 1"
  using length_pos_if_in_set [of x fs] unfolding length_remove1 by (simp add: Suc_leI of_nat_diff del: length_greater_0_conv)

lemma presence_step_inv: "presence_inv p \<Longrightarrow> presence_step cfg p q \<Longrightarrow> presence_inv q"
  by (erule presence_stepE)
     (auto simp: presence_inv_def enterPresence_def debounceDisconnect_def fire_begin_def fire_end_def ClosePresence_def flight_remove
       split: if_splits option.splits)

interpretation presence: invariant_of presence_start "presence_step cfg" presence_inv for cfg
  by unfold_locales (simp add: presence_start_def presence_inv_def new_sse_def, rule presence_step_inv)

text \<open>Once presence is closed and nothing is in flight, nothing happens any more.\<close>

definition presence_quiet :: "(string \<times> bool) list \<Rightarrow> presence \<Rightarrow> bool" where
  "presence_quiet emitted p \<longleftrightarrow> ss_presenceClosed (pr_sse p) \<and> ss_disconnects (pr_sse p) = [] \<and> pr_flight p = [] \<and>
     ss_emitted (pr_sse p) = emitted"

lemma presence_quiet_step: "presence_quiet emitted p \<Longrightarrow> presence_step cfg p q \<Longrightarrow> presence_quiet emitted q"
  by (erule presence_stepE)
     (auto simp: presence_quiet_def enterPresence_def debounceDisconnect_def fire_begin_def ClosePresence_def split: option.splits)

interpretation closed_presence: invariant_of "presence_quiet emitted" "presence_step cfg" "presence_quiet emitted" for emitted cfg
  by unfold_locales (assumption, rule presence_quiet_step)

text \<open>
  C14: Closing presence is final. In every interleaving of connects, debounced disconnects,
  timers and closes, once \<open>ClosePresence\<close> has returned without error nothing is emitting,
  and whatever runs afterwards (late connects, late detaches, timers that were already
  expiring) never calls the consumer's presence callback again. The store can be closed.
\<close>

theorem close_presence_final:
  assumes "reach presence_start (presence_step cfg) p" and "ss_presenceClosed (pr_sse p)"
    and "presence_wait ctxDone pick (pr_sse p) = Some (Inr ())" and "(presence_step cfg)\<^sup>*\<^sup>* p q"
  shows "ss_emitted (pr_sse q) = ss_emitted (pr_sse p) \<and> pr_flight q = [] \<and> ss_disconnects (pr_sse q) = []"
proof -
  have "presence_inv p" by (rule presence.reachable_inv [OF assms(1)])
  moreover have "ss_emitting (pr_sse p) = 0" using assms(3) by (auto simp: presence_wait_def split: if_splits)
  ultimately have "presence_quiet (ss_emitted (pr_sse p)) p" using assms(2) by (simp add: presence_quiet_def presence_inv_def)
  from closed_presence.steps_inv [OF this assms(4)] show ?thesis by (simp add: presence_quiet_def)
qed

theorem close_presence_final_witness:
  "\<exists>p q. ss_presenceClosed (pr_sse p) \<and> (presence_step open_config)\<^sup>*\<^sup>* p q \<and>
     ss_emitted (pr_sse p) = [(''s1'', True)] \<and> ss_emitted (pr_sse q) = [(''s1'', True)]"
proof -
  define p0 where "p0 = \<lparr>pr_sse = new_sse, pr_flight = []\<rparr>"
  define p1 where "p1 = p0\<lparr>pr_sse := snd (enterPresence (pr_sse p0)), pr_flight := [(''s1'', True)]\<rparr>"
  define p2 where "p2 = p1\<lparr>pr_sse := donePresence (presenceChange open_config ''s1'' True (pr_sse p1)), pr_flight := []\<rparr>"
  define p3 where "p3 = p2\<lparr>pr_sse := ClosePresence (pr_sse p2)\<rparr>"
  have 1: "presence_step open_config p0 p1"
    using presence_step.connect [of p0 "snd (enterPresence (pr_sse p0))" open_config "''s1''"]
    by (simp add: p1_def) (simp add: p0_def enterPresence_def new_sse_def)
  have 2: "presence_step open_config p1 p2"
    using presence_step.connected [of "''s1''" p1 open_config] by (simp add: p2_def) (simp add: p1_def)
  have 3: "presence_step open_config p2 p3" unfolding p3_def by (rule presence_step.closing)
  have 4: "presence_step open_config p3 (p3\<lparr>pr_sse := debounceDisconnect ''s1'' (pr_sse p3)\<rparr>)" by (rule presence_step.detached)
  have r: "reach presence_start (presence_step open_config) p3"
  proof -
    have "reach presence_start (presence_step open_config) p0" by (rule reach_start) (simp add: presence_start_def p0_def)
    from reach_step [OF reach_step [OF reach_step [where step = "presence_step open_config", OF this 1] 2] 3] show ?thesis .
  qed
  have v: "ss_presenceClosed (pr_sse p3)" "presence_wait False False (pr_sse p3) = Some (Inr ())" "ss_emitted (pr_sse p3) = [(''s1'', True)]"
    by (simp_all add: p3_def p2_def p1_def p0_def ClosePresence_def presence_wait_def enterPresence_def new_sse_def
        donePresence_def presenceChange_def open_config_def)
  from close_presence_final [OF r v(1,2) r_into_rtranclp [of "presence_step open_config", OF 4]] v 4 show ?thesis
    by (metis r_into_rtranclp)
qed

end
