(* ===== verification/Go_Strings.thy ===== *)
theory Go_Strings
  imports Prelude
begin

text \<open>
  The functions of Go's \<open>strings\<close> package that several components use, on byte strings, and
  what trimming leaves alone.
\<close>

section \<open>Functions\<close>

text \<open>\<open>strings.TrimSpace\<close>: the UTF-8 encodings of the white space of Unicode, cut from both ends.\<close>

definition white_spaces :: "string list" where
  "white_spaces = map (\<lambda>c. [c]) [CHR 0x09, CHR 0x0A, CHR 0x0B, CHR 0x0C, CHR 0x0D, CHR 0x20] @
     [[CHR 0xC2, CHR 0x85], [CHR 0xC2, CHR 0xA0], [CHR 0xE1, CHR 0x9A, CHR 0x80]] @
     map (\<lambda>c. [CHR 0xE2, CHR 0x80, c]) [CHR 0x80, CHR 0x81, CHR 0x82, CHR 0x83, CHR 0x84, CHR 0x85, CHR 0x86, CHR 0x87,
       CHR 0x88, CHR 0x89, CHR 0x8A, CHR 0xA8, CHR 0xA9, CHR 0xAF] @
     [[CHR 0xE2, CHR 0x81, CHR 0x9F], [CHR 0xE3, CHR 0x80, CHR 0x80]]"

lemma white_spaces_nonempty: "sp \<in> set white_spaces \<Longrightarrow> sp \<noteq> []"
  by (auto simp: white_spaces_def)

function trim_heads :: "string list \<Rightarrow> string \<Rightarrow> string" where
  "trim_heads sps s =
     (case find_first (\<lambda>sp. sp \<noteq> [] \<and> take (length sp) s = sp) sps of
        None \<Rightarrow> s | Some sp \<Rightarrow> trim_heads sps (drop (length sp) s))"
  by pat_completeness auto
termination
proof (relation "measure (length \<circ> snd)")
  fix sps s sp assume "find_first (\<lambda>sp. sp \<noteq> [] \<and> take (length sp) s = sp) sps = Some sp"
  then have "sp \<noteq> []" "take (length sp) s = sp" using find_first_SomeD by fastforce+
  then have "s \<noteq> []" "0 < length sp" by auto
  then show "((sps, drop (length sp) s), (sps, s)) \<in> measure (length \<circ> snd)" by simp
qed simp

declare trim_heads.simps [simp del]

definition TrimSpace :: "string \<Rightarrow> string" where
  "TrimSpace s = rev (trim_heads (map rev white_spaces) (rev (trim_heads white_spaces s)))"

definition has_prefix :: "string \<Rightarrow> string \<Rightarrow> bool" where
  "has_prefix s p \<longleftrightarrow> take (length p) s = p"

definition has_suffix :: "string \<Rightarrow> string \<Rightarrow> bool" where
  "has_suffix s p \<longleftrightarrow> has_prefix (rev s) (rev p)"

definition trim_suffix :: "string \<Rightarrow> string \<Rightarrow> string" where
  "trim_suffix s p = (if has_suffix s p then take (length s - length p) s else s)"

fun contains :: "string \<Rightarrow> string \<Rightarrow> bool" where
  "contains pat [] \<longleftrightarrow> pat = []"
| "contains pat (c # cs) \<longleftrightarrow> take (length pat) (c # cs) = pat \<or> contains pat cs"

section \<open>Trimming\<close>

lemma trim_heads_stop:
  assumes "\<And>sp. sp \<in> set sps \<Longrightarrow> hd sp \<noteq> c"
  shows "trim_heads sps (c # s) = c # s"
proof -
  have "find_first (\<lambda>sp. sp \<noteq> [] \<and> take (length sp) (c # s) = sp) sps = None"
    unfolding find_first_None
  proof (intro ballI notI)
    fix sp assume sp: "sp \<in> set sps" and "sp \<noteq> [] \<and> take (length sp) (c # s) = sp"
    then have "hd sp = c" by (cases sp) (auto simp: take_Cons split: nat.splits)
    then show False using assms [OF sp] by blast
  qed
  then show ?thesis by (simp add: trim_heads.simps)
qed

lemma trim_heads_space: "trim_heads white_spaces (CHR 0x20 # s) = trim_heads white_spaces s"
proof -
  have "find_first (\<lambda>sp. sp \<noteq> [] \<and> take (length sp) (CHR 0x20 # s) = sp) white_spaces = Some [CHR 0x20]"
    by (simp add: white_spaces_def)
  then show ?thesis by (subst trim_heads.simps) simp
qed

text \<open>Characters no white space begins or ends with: the ends of numerals and of JSON objects.\<close>

definition solid :: "char \<Rightarrow> bool" where
  "solid c \<longleftrightarrow> c \<in> set ''0123456789-{}''"

lemma solid_white: "solid c \<Longrightarrow> sp \<in> set white_spaces \<Longrightarrow> hd sp \<noteq> c \<and> last sp \<noteq> c"
proof -
  have "list_all (\<lambda>sp. list_all (\<lambda>c. hd sp \<noteq> c \<and> last sp \<noteq> c) ''0123456789-{}'') white_spaces" by code_simp
  then show "solid c \<Longrightarrow> sp \<in> set white_spaces \<Longrightarrow> hd sp \<noteq> c \<and> last sp \<noteq> c"
    unfolding solid_def list_all_iff by blast
qed

lemma TrimSpace_solid:
  assumes "s \<noteq> []" and "solid (hd s)" and "solid (last s)"
  shows "TrimSpace s = s" "TrimSpace (CHR 0x20 # s) = s"
proof -
  have l: "trim_heads white_spaces s = s"
    using assms(1,2) solid_white by (cases s) (auto intro!: trim_heads_stop)
  obtain t where t: "rev s = last s # t" using assms(1) by (metis append_butlast_last_id rev.simps(2) rev_rev_ident)
  have "trim_heads (map rev white_spaces) (last s # t) = last s # t"
    using solid_white [OF assms(3)] white_spaces_nonempty by (intro trim_heads_stop) (auto simp: hd_rev)
  then show "TrimSpace s = s" "TrimSpace (CHR 0x20 # s) = s"
    by (simp_all add: TrimSpace_def trim_heads_space l flip: t)
qed

lemma itoa_solid: "itoa n \<noteq> []" "solid (hd (itoa n))" "solid (last (itoa n))"
proof -
  have d: "digits k \<noteq> []" "solid (hd (digits k))" "solid (last (digits k))" for k
  proof -
    have "c \<in> set (digits k) \<Longrightarrow> c \<in> set ''0123456789''" for c using digits_chars [of k] by (rule subsetD)
    moreover have "c \<in> set ''0123456789'' \<Longrightarrow> solid c" for c
    proof -
      have "list_all (\<lambda>c. c \<in> set ''0123456789-{}'') ''0123456789''" by simp
      then show "c \<in> set ''0123456789'' \<Longrightarrow> solid c" unfolding solid_def list_all_iff by blast
    qed
    ultimately show "solid (hd (digits k))" "solid (last (digits k))" by simp_all
  qed simp
  then show "itoa n \<noteq> []" "solid (hd (itoa n))" "solid (last (itoa n))"
    by (simp_all add: itoa_def) (simp add: solid_def)
qed

text \<open>\<open>strings.Fields\<close>: the maximal runs without white space; \<open>word\<close> is the run being read.\<close>

function fields_from :: "string \<Rightarrow> string \<Rightarrow> string list" where
  "fields_from word [] = (if word = [] then [] else [word])"
| "fields_from word (c # cs) =
     (case find_first (\<lambda>sp. sp \<noteq> [] \<and> take (length sp) (c # cs) = sp) white_spaces of
        None \<Rightarrow> fields_from (word @ [c]) cs
      | Some sp \<Rightarrow> (if word = [] then [] else [word]) @ fields_from [] (drop (length sp) (c # cs)))"
  by pat_completeness auto
termination
proof (relation "measure (length \<circ> snd)")
  fix word :: string and c cs sp
  assume "find_first (\<lambda>sp. sp \<noteq> [] \<and> take (length sp) (c # cs) = sp) white_spaces = Some sp"
  then have "sp \<noteq> []" using find_first_SomeD by fastforce
  then have "0 < length sp" by simp
  then show "(([], drop (length sp) (c # cs)), (word, c # cs)) \<in> measure (length \<circ> snd)" by simp
qed simp_all

definition Fields :: "string \<Rightarrow> string list" where
  "Fields s = fields_from [] s"

text \<open>\<open>strings.Cut\<close> at one byte and \<open>strings.CutPrefix\<close>.\<close>

definition cut_before :: "char \<Rightarrow> string \<Rightarrow> string" where
  "cut_before d s = takeWhile (\<lambda>c. c \<noteq> d) s"

definition cut_prefix :: "string \<Rightarrow> string \<Rightarrow> string option" where
  "cut_prefix s pre = (if has_prefix s pre then Some (drop (length pre) s) else None)"

end
