(* ===== verification/Consume.thy ===== *)
theory Consume
  imports Sse Go_Strings "HOL-Library.Sublist"
begin

text \<open>
  The agent-side stream client (\<open>consume/consume.go\<close>): the reader of one connection
  (\<open>readStream\<close>, over the bytes of the response body), the reconnect loop
  (\<open>ConsumeEvents\<close>) and the cursor files.

  The network, the handler of the caller, the process table and the liveness of the window
  are inputs: a connection is the bytes that arrived before it ended, a call of the handler
  takes its answer from a list, and every write of the cursor file takes its outcome from
  one. What comes out is the handler calls that were acknowledged, the cursor and the files.
\<close>

section \<open>Lines\<close>

text \<open>
  \<open>bufio.Scanner\<close> with \<open>ScanLines\<close> and the buffer of \<open>readStream\<close>: the lines without their
  ends, and whether it stopped at a line that does not fit.
\<close>

definition maxToken :: int where
  "maxToken = 4 * 1024 * 1024"

definition drop_cr :: "string \<Rightarrow> string" where
  "drop_cr l = (if l \<noteq> [] \<and> last l = CHR 0x0D then butlast l else l)"

function scan_lines :: "string \<Rightarrow> string list \<times> bool" where
  "scan_lines s =
     (if s = [] then ([], False)
      else let l = takeWhile (\<lambda>c. c \<noteq> CHR 0x0A) s
           in if maxToken \<le> int (length l) then ([], True)
              else case scan_lines (drop (length l + 1) s) of (ls, tooLong) \<Rightarrow> (drop_cr l # ls, tooLong))"
  by pat_completeness auto
termination by (relation "measure length") auto

declare scan_lines.simps [simp del]

section \<open>Cursor files\<close>

type_synonym files = "string \<Rightarrow> string option"

definition readCursor :: "outcome \<Rightarrow> string \<Rightarrow> files \<Rightarrow> int result" where
  "readCursor flt path fs =
     (case flt of
        Some m \<Rightarrow> Inl (ErrWrap (''read cursor '' @ path) (ErrDriver m))
      | None \<Rightarrow>
          (case fs path of
             None \<Rightarrow> Inr 0
           | Some b \<Rightarrow>
               (case parseInt 64 (TrimSpace b) of
                  None \<Rightarrow> Inl (ErrWrap (''corrupt cursor '' @ path) (ErrText b))
                | Some n \<Rightarrow> Inr n)))"

definition writeCursor :: "outcome \<Rightarrow> string \<Rightarrow> int \<Rightarrow> files \<Rightarrow> unit result \<times> files" where
  "writeCursor flt path cursor fs =
     (case flt of
        Some m \<Rightarrow> (Inl (ErrWrap (''persist cursor '' @ path) (ErrDriver m)), fs)
      | None \<Rightarrow> (Inr (), fs(path \<mapsto> itoa cursor)))"

section \<open>One connection\<close>

datatype handled = Acked | StopNow | Failed

record reader =
  rd_cursor :: int
  rd_id :: int
  rd_data :: string
  rd_event :: string
  rd_acked :: "(int \<times> string) list"
  rd_files :: files
  rd_warned :: nat
  rd_handler :: "nat \<Rightarrow> string \<Rightarrow> handled"
  rd_calls :: "((int \<times> string) \<times> handled) list"
  rd_writes :: "outcome list"

datatype exit = ExitStop | ExitFailed

definition next_handled :: "reader \<Rightarrow> handled" where
  "next_handled r = rd_handler r (length (rd_calls r)) (rd_data r)"

definition next_write :: "reader \<Rightarrow> outcome" where
  "next_write r = (case rd_writes r of [] \<Rightarrow> None | w # _ \<Rightarrow> w)"

text \<open>The delivery of a complete frame: the handler, then the cursor, then its file.\<close>

definition deliver :: "string \<Rightarrow> reader \<Rightarrow> reader \<times> exit option" where
  "deliver path r =
     (let r1 = r\<lparr>rd_calls := rd_calls r @ [((rd_id r, rd_data r), next_handled r)]\<rparr>
      in if next_handled r = Failed then (r1, Some ExitFailed)
         else
           let (res, fs) = writeCursor (next_write r) path (rd_id r) (rd_files r);
               r2 = r1\<lparr>rd_cursor := rd_id r, rd_acked := rd_acked r @ [(rd_id r, rd_data r)], rd_files := fs,
                      rd_writes := tl (rd_writes r), rd_warned := (case res of Inl _ \<Rightarrow> rd_warned r + 1 | Inr _ \<Rightarrow> rd_warned r)\<rparr>
           in if next_handled r = StopNow then (r2, Some ExitStop)
              else (r2\<lparr>rd_data := [], rd_event := []\<rparr>, None))"

definition read_line :: "string \<Rightarrow> string \<Rightarrow> reader \<Rightarrow> reader \<times> exit option" where
  "read_line path line r =
     (if line = [] then
        (if rd_data r = [] \<or> (rd_event r \<noteq> [] \<and> rd_event r \<noteq> ''message'')
         then (r\<lparr>rd_data := [], rd_event := []\<rparr>, None)
         else deliver path r)
      else if has_prefix line '':'' then (r, None)
      else if has_prefix line ''id:'' then
        (case parseInt 64 (TrimSpace (drop 3 line)) of Some n \<Rightarrow> (r\<lparr>rd_id := n\<rparr>, None) | None \<Rightarrow> (r, None))
      else if has_prefix line ''event:'' then (r\<lparr>rd_event := TrimSpace (drop 6 line)\<rparr>, None)
      else if has_prefix line ''data:'' then (r\<lparr>rd_data := TrimSpace (drop 5 line)\<rparr>, None)
      else (r, None))"

fun read_lines :: "string \<Rightarrow> string list \<Rightarrow> reader \<Rightarrow> reader \<times> exit option" where
  "read_lines path [] r = (r, None)"
| "read_lines path (l # ls) r =
     (case read_line path l r of (r', None) \<Rightarrow> read_lines path ls r' | (r', Some x) \<Rightarrow> (r', Some x))"

datatype connection = BadRequest go_error | Unreachable | Response int string

text \<open>The answer: whether to stop, the next cursor (in the reader), and a fatal error.\<close>

definition readStream :: "string \<Rightarrow> connection \<Rightarrow> reader \<Rightarrow> (bool \<times> go_error option) \<times> reader" where
  "readStream path conn r =
     (case conn of
        BadRequest e \<Rightarrow> ((False, Some e), r)
      | Unreachable \<Rightarrow> ((False, None), r)
      | Response status body \<Rightarrow>
          if status \<noteq> 200 then
            (if status \<ge> 400 \<and> status < 500 then ((False, Some (ErrText ''events endpoint returned 4xx; stopping'')), r)
             else ((False, None), r))
          else
            (case scan_lines body of (ls, tooLong) \<Rightarrow>
               (case read_lines path ls (r\<lparr>rd_id := rd_cursor r, rd_data := [], rd_event := []\<rparr>) of
                  (r', Some ExitStop) \<Rightarrow> ((True, None), r')
                | (r', Some ExitFailed) \<Rightarrow> ((False, None), r')
                | (r', None) \<Rightarrow>
                    (if tooLong then ((False, Some (ErrText ''event frame exceeded the buffer; stopping'')), r')
                     else ((False, None), r')))))"

definition lastEventHeader :: "int \<Rightarrow> string" where
  "lastEventHeader cursor = (if cursor > 0 then itoa cursor else [])"

section \<open>The reconnect loop\<close>

record attempt =
  at_ctxBefore :: bool
  at_aliveBefore :: bool
  at_conn :: "int \<Rightarrow> int \<Rightarrow> connection"
  at_ctxAfter :: bool
  at_aliveAfter :: bool
  at_refresh :: "int result option"
  at_ctxWaiting :: bool

text \<open>
  One pass of the loop: \<open>Inl\<close> is the return of \<open>ConsumeEvents\<close>, \<open>Inr\<close> the port for the
  next pass. The connection sees the port and the cursor it resumes from.
\<close>

definition consume_once :: "bool \<Rightarrow> string \<Rightarrow> attempt \<Rightarrow> int \<Rightarrow> reader \<Rightarrow> (unit result + int) \<times> reader" where
  "consume_once watched path a port r =
     (if at_ctxBefore a then (Inl (Inr ()), r)
      else if watched \<and> \<not> at_aliveBefore a then (Inl (Inr ()), r)
      else
        (case readStream path (at_conn a port (rd_cursor r)) r of ((stop, fatal), r1) \<Rightarrow>
           if stop \<or> at_ctxAfter a then (Inl (case fatal of None \<Rightarrow> Inr () | Some e \<Rightarrow> Inl e), r1)
           else if watched \<and> \<not> at_aliveAfter a then (Inl (Inr ()), r1)
           else
             let port1 = (case at_refresh a of Some (Inr p) \<Rightarrow> if p \<noteq> 0 then p else port | _ \<Rightarrow> port);
                 refreshed = (port1 \<noteq> port)
             in case fatal of
                  Some e \<Rightarrow> if \<not> refreshed then (Inl (Inl e), r1)
                            else if at_ctxWaiting a then (Inl (Inr ()), r1) else (Inr port1, r1)
                | None \<Rightarrow> if at_ctxWaiting a then (Inl (Inr ()), r1) else (Inr port1, r1)))"

text \<open>\<open>None\<close>: the passes given so far have not ended the loop.\<close>

fun consume_loop :: "bool \<Rightarrow> string \<Rightarrow> attempt list \<Rightarrow> int \<Rightarrow> reader \<Rightarrow> unit result option \<times> reader" where
  "consume_loop watched path [] port r = (None, r)"
| "consume_loop watched path (a # as) port r =
     (case consume_once watched path a port r of
        (Inl res, r') \<Rightarrow> (Some res, r')
      | (Inr port', r') \<Rightarrow> consume_loop watched path as port' r')"

definition ConsumeEvents :: "outcome \<Rightarrow> outcome \<Rightarrow> bool \<Rightarrow> string \<Rightarrow> attempt list \<Rightarrow> int \<Rightarrow> reader \<Rightarrow> unit result option \<times> reader" where
  "ConsumeEvents mkdir flt watched path as port r =
     (case mkdir of
        Some m \<Rightarrow> (Some (Inl (ErrWrap ''ensure cursor directory'' (ErrDriver m))), r)
      | None \<Rightarrow>
          (case readCursor flt path (rd_files r) of
             Inl e \<Rightarrow> (Some (Inl e), r)
           | Inr cursor \<Rightarrow> consume_loop watched path as port (r\<lparr>rd_cursor := cursor\<rparr>)))"

section \<open>Scanning\<close>

lemma scan_nil [simp]: "scan_lines [] = ([], False)"
  by (simp add: scan_lines.simps)

lemma scan_line:
  assumes "CHR 0x0A \<notin> set l" and "int (length l) < maxToken"
  shows "scan_lines (l @ CHR 0x0A # rest) = (drop_cr l # fst (scan_lines rest), snd (scan_lines rest))"
proof -
  have "takeWhile (\<lambda>c. c \<noteq> CHR 0x0A) (l @ CHR 0x0A # rest) = l" using assms(1) by (subst takeWhile_append2) auto
  then show ?thesis using assms(2) by (subst scan_lines.simps) (simp add: Let_def split: prod.split)
qed

lemma scan_last:
  assumes "CHR 0x0A \<notin> set l" and "int (length l) < maxToken" and "l \<noteq> []"
  shows "scan_lines l = ([drop_cr l], False)"
proof -
  have tw: "takeWhile (\<lambda>c. c \<noteq> CHR 0x0A) l = l" using assms(1) by (simp add: takeWhile_eq_all_conv) metis
  show ?thesis using assms(2,3) unfolding scan_lines.simps [of l] Let_def tw by simp
qed

section \<open>Frames, whole and cut\<close>

definition sse_frame :: "string list \<Rightarrow> string" where
  "sse_frame ls = concat (map (\<lambda>l. l @ nl) ls) @ nl"

definition line_ok :: "string \<Rightarrow> bool" where
  "line_ok l \<longleftrightarrow> l \<noteq> [] \<and> CHR 0x0A \<notin> set l \<and> hd l \<noteq> CHR 0x0D \<and> int (length l) < maxToken"

lemma scan_frame:
  "list_all line_ok ls \<Longrightarrow> scan_lines (sse_frame ls @ rest) = (map drop_cr ls @ [] # fst (scan_lines rest), snd (scan_lines rest))"
proof (induction ls)
  case Nil
  then show ?case using scan_line [of "[]" rest] by (simp add: sse_frame_def nl_def drop_cr_def maxToken_def)
next
  case (Cons l ls)
  then show ?case using scan_line [of l "sse_frame ls @ rest"] by (simp add: sse_frame_def nl_def line_ok_def)
qed

lemma cut_at:
  assumes "strict_prefix t (l @ c # s)" and "length l < length t"
  shows "\<exists>t'. t = l @ c # t' \<and> strict_prefix t' s"
proof -
  obtain u where u: "l @ c # s = t @ u" "u \<noteq> []" using assms(1) by (auto simp: strict_prefix_def prefix_def)
  then obtain v where v: "t = l @ v" "v @ u = c # s" using assms(2) by (auto simp: append_eq_append_conv2)
  then have "v \<noteq> []" using assms(2) by auto
  then obtain t' where "v = c # t'" "s = t' @ u" using v(2) by (cases v) auto
  then show ?thesis using v(1) u(2) by (auto simp: strict_prefix_def prefix_def)
qed

lemma drop_cr_nonempty: "l \<noteq> [] \<Longrightarrow> hd l \<noteq> CHR 0x0D \<Longrightarrow> drop_cr l \<noteq> []"
  by (cases l) (auto simp: drop_cr_def)

lemma scan_cut:
  assumes "list_all line_ok ls" and "strict_prefix t (sse_frame ls)"
  shows "\<exists>ls'. scan_lines t = (ls', False) \<and> [] \<notin> set ls'"
  using assms
proof (induction ls arbitrary: t)
  case Nil
  then show ?case by (cases t) (auto simp: sse_frame_def nl_def strict_prefix_def)
next
  case (Cons l ls)
  then have ok: "l \<noteq> []" "CHR 0x0A \<notin> set l" "hd l \<noteq> CHR 0x0D" "int (length l) < maxToken" by (simp_all add: line_ok_def)
  have whole: "sse_frame (l # ls) = l @ CHR 0x0A # sse_frame ls" by (simp add: sse_frame_def nl_def)
  show ?case
  proof (cases "length t \<le> length l")
    case True
    then have t: "prefix t l" using Cons.prems(2) unfolding whole strict_prefix_def by (metis prefix_append prefix_length_prefix prefixI)
    show ?thesis
    proof (cases "t = []")
      case False
      then have "hd t \<noteq> CHR 0x0D" "CHR 0x0A \<notin> set t" "int (length t) < maxToken"
        using t ok set_mono_prefix [OF t] by (auto simp: prefix_def)
      then show ?thesis using False scan_last [of t] drop_cr_nonempty [of t] by auto
    qed simp
  next
    case False
    then obtain t' where t': "t = l @ CHR 0x0A # t'" "strict_prefix t' (sse_frame ls)"
      using Cons.prems(2) cut_at [of t l] unfolding whole by fastforce
    obtain ls' where "scan_lines t' = (ls', False)" "[] \<notin> set ls'" using Cons.IH [OF _ t'(2)] Cons.prems(1) by auto
    then show ?thesis using scan_line [OF ok(2,4), of t'] t'(1) drop_cr_nonempty [OF ok(1,3)] by simp
  qed
qed

section \<open>Reading frames\<close>

lemma read_lines_append:
  "read_lines path (xs @ ys) r = (case read_lines path xs r of (r', None) \<Rightarrow> read_lines path ys r' | (r', Some x) \<Rightarrow> (r', Some x))"
  by (induction xs arbitrary: r) (simp_all split: prod.split option.split)

text \<open>Lines that are not blank only fill the frame being read.\<close>

lemma read_unfinished:
  "[] \<notin> set ls \<Longrightarrow> \<exists>r'. read_lines path ls r = (r', None) \<and> rd_cursor r' = rd_cursor r \<and> rd_acked r' = rd_acked r \<and>
     rd_calls r' = rd_calls r \<and> rd_files r' = rd_files r \<and> rd_warned r' = rd_warned r"
proof (induction ls arbitrary: r)
  case (Cons l ls)
  then have l: "l \<noteq> []" by auto
  have "\<exists>r1. read_line path l r = (r1, None) \<and> rd_cursor r1 = rd_cursor r \<and> rd_acked r1 = rd_acked r \<and>
     rd_calls r1 = rd_calls r \<and> rd_files r1 = rd_files r \<and> rd_warned r1 = rd_warned r"
    using l by (auto simp: read_line_def split: option.split)
  then obtain r1 where r1: "read_line path l r = (r1, None)" "rd_cursor r1 = rd_cursor r" "rd_acked r1 = rd_acked r"
     "rd_calls r1 = rd_calls r" "rd_files r1 = rd_files r" "rd_warned r1 = rd_warned r" by blast
  have "[] \<notin> set ls" using Cons.prems by simp
  from Cons.IH [OF this, of r1] r1 show ?case by simp
qed simp

text \<open>
  Payloads that survive the wire: a JSON object on one line that fits the reader's buffer.
\<close>

definition wire_ok :: "string \<Rightarrow> bool" where
  "wire_ok p \<longleftrightarrow> p \<noteq> [] \<and> hd p = CHR ''{'' \<and> last p = CHR ''}'' \<and> CHR 0x0A \<notin> set p \<and> int (length p) + 6 < maxToken"

definition seq_ok :: "int \<Rightarrow> bool" where
  "seq_ok n \<longleftrightarrow> - (2 ^ 63) \<le> n \<and> n < 2 ^ 63"

definition row_ok :: "Event \<Rightarrow> bool" where
  "row_ok e \<longleftrightarrow> wire_ok (e_Payload e) \<and> seq_ok (e_Seq e)"

definition row_lines :: "Event \<Rightarrow> string list" where
  "row_lines e = [''id: '' @ itoa (e_Seq e), ''data: '' @ e_Payload e]"

lemma event_frame_lines: "event_frame e = sse_frame (row_lines e)"
  by (simp add: event_frame_def sse_frame_def row_lines_def)

lemma digits_length: "n < 10 ^ Suc k \<Longrightarrow> length (digits n) \<le> Suc k"
proof (induction k arbitrary: n)
  case 0
  then show ?case by (subst digits.simps) simp
next
  case (Suc k)
  then have "n div 10 < 10 ^ Suc k" by simp
  from Suc.IH [OF this] show ?case by (subst digits.simps) simp
qed

lemma itoa_length: "seq_ok n \<Longrightarrow> length (itoa n) \<le> 20"
proof -
  assume "seq_ok n"
  then have "nat (- n) < 10 ^ Suc 18" "nat n < 10 ^ Suc 18" by (auto simp: seq_ok_def nat_less_iff)
  from digits_length [OF this(1)] digits_length [OF this(2)] show ?thesis by (simp add: itoa_def)
qed

lemma itoa_line: "CHR 0x0A \<notin> set (itoa n)"
proof -
  have "CHR 0x0A \<notin> set (digits k)" for k
  proof
    assume "CHR 0x0A \<in> set (digits k)"
    then have "CHR 0x0A \<in> set ''0123456789''" by (rule subsetD [OF digits_chars])
    then show False by simp
  qed
  then show ?thesis by (simp add: itoa_def)
qed

lemma row_lines_ok: "row_ok e \<Longrightarrow> list_all line_ok (row_lines e)"
  using itoa_length [of "e_Seq e"] itoa_line [of "e_Seq e"]
  by (simp add: row_lines_def line_ok_def row_ok_def wire_ok_def maxToken_def)

lemma drop_cr_solid: "l \<noteq> [] \<Longrightarrow> solid (last l) \<Longrightarrow> drop_cr (p @ l) = p @ l"
  by (auto simp: drop_cr_def solid_def)

lemma read_row:
  assumes "row_ok e" and "rd_data r = []" and "rd_event r = []"
  shows "read_lines path (map drop_cr (row_lines e) @ [[]]) r = deliver path (r\<lparr>rd_id := e_Seq e, rd_data := e_Payload e\<rparr>)"
proof -
  have p: "e_Payload e \<noteq> []" "solid (hd (e_Payload e))" "solid (last (e_Payload e))"
    using assms(1) by (simp_all add: row_ok_def wire_ok_def solid_def)
  have id_line: "read_line path (drop_cr (''id: '' @ itoa (e_Seq e))) r = (r\<lparr>rd_id := e_Seq e\<rparr>, None)"
    using assms(1) parseInt_itoa [of 64 "e_Seq e"] TrimSpace_solid(2) [OF itoa_solid]
    unfolding drop_cr_solid [OF itoa_solid(1,3)] by (simp add: read_line_def has_prefix_def row_ok_def seq_ok_def)
  have data_line: "read_line path (drop_cr (''data: '' @ e_Payload e)) q = (q\<lparr>rd_data := e_Payload e\<rparr>, None)" for q
    using TrimSpace_solid(2) [OF p] unfolding drop_cr_solid [OF p(1,3)] by (simp add: read_line_def has_prefix_def)
  have "read_lines path [l1, l2, []] r = deliver path (r\<lparr>rd_id := n, rd_data := e_Payload e\<rparr>)"
    if "read_line path l1 r = (r\<lparr>rd_id := n\<rparr>, None)" "\<And>q. read_line path l2 q = (q\<lparr>rd_data := e_Payload e\<rparr>, None)" for l1 l2 n
  proof -
    have "read_line path [] (r\<lparr>rd_id := n, rd_data := e_Payload e\<rparr>) = deliver path (r\<lparr>rd_id := n, rd_data := e_Payload e\<rparr>)"
      using assms(3) p(1) by (simp add: read_line_def)
    then show ?thesis by (simp add: that split: prod.split option.split)
  qed
  from this [OF id_line data_line] show ?thesis unfolding row_lines_def by (simp only: list.map append.simps)
qed

text \<open>The pieces between rows that a reader passes over.\<close>

definition note_lines :: "string list \<Rightarrow> bool" where
  "note_lines ls \<longleftrightarrow> list_all line_ok ls \<and> (\<forall>path r. rd_data r = [] \<longrightarrow> rd_event r = [] \<longrightarrow>
     read_lines path (map drop_cr ls @ [[]]) r = (r, None))"

lemma comment_lines: "note_lines ['': keepalive'']" "note_lines ['': connected'']"
  by (auto simp: note_lines_def line_ok_def maxToken_def drop_cr_def read_line_def has_prefix_def)

definition caught_up_lines :: "int \<Rightarrow> string list" where
  "caught_up_lines c = [''event: caught-up'', ''data: {'' @ [CHR 0x22] @ ''seq'' @ [CHR 0x22] @ '':'' @ itoa c @ ''}'']"

lemma caught_up_silent: "seq_ok c \<Longrightarrow> note_lines (caught_up_lines c)"
proof -
  assume c: "seq_ok c"
  have "TrimSpace '' caught-up'' = ''caught-up''" by code_simp
  then show ?thesis using itoa_length [OF c] itoa_line [of c]
    by (auto simp: note_lines_def line_ok_def maxToken_def drop_cr_def read_line_def has_prefix_def caught_up_lines_def)
qed

section \<open>Reading a body cut anywhere\<close>

definition piece_ok :: "piece \<Rightarrow> bool" where
  "piece_ok p = (case p of Row e \<Rightarrow> row_ok e | Comment _ \<Rightarrow> True | CaughtUp c \<Rightarrow> seq_ok c | Solicited _ \<Rightarrow> False)"

definition delivery :: "Event \<Rightarrow> int \<times> string" where
  "delivery e = (e_Seq e, e_Payload e)"

lemma rows_of_Cons: "rows_of (p # ps) = (case p of Row e \<Rightarrow> e # rows_of ps | _ \<Rightarrow> rows_of ps)"
  by (simp add: rows_of_def split: piece.split)

lemma piece_lines:
  assumes "piece_ok p"
  obtains ls where "piece_bytes p = sse_frame ls" "list_all line_ok ls"
    "case p of Row e \<Rightarrow> ls = row_lines e | _ \<Rightarrow> note_lines ls"
proof (cases p)
  case (Row e)
  then show thesis using that [of "row_lines e"] assms row_lines_ok by (simp add: piece_ok_def piece_bytes_def event_frame_lines)
next
  case (Comment alive)
  then show thesis using that [of "[if alive then '': keepalive'' else '': connected'']"] comment_lines
    by (cases alive) (simp_all add: piece_bytes_def sse_frame_def note_lines_def)
next
  case (CaughtUp c)
  then show thesis using that [of "caught_up_lines c"] caught_up_silent [of c] assms
    by (simp add: piece_ok_def piece_bytes_def note_lines_def caught_up_frame_def sse_frame_def caught_up_lines_def)
next
  case (Solicited p)
  then show thesis using assms by (simp add: piece_ok_def)
qed

text \<open>
  A history of attempts on a list: an item that failed is tried again before the next one, and
  nothing is tried after a stop. The number is how many items are done.
\<close>

inductive tried :: "'a list \<Rightarrow> ('a \<times> handled) list \<Rightarrow> nat \<Rightarrow> bool" for M where
  tried_none: "tried M [] 0"
| tried_next: "tried M ts k \<Longrightarrow> k < length M \<Longrightarrow> StopNow \<notin> snd ` set ts \<Longrightarrow>
    tried M (ts @ [(M ! k, h)]) (if h = Failed then k else Suc k)"

lemma tried_first: "M \<noteq> [] \<Longrightarrow> tried M [(hd M, h)] (if h = Failed then 0 else 1)"
  using tried_next [OF tried_none, of M h] by (auto simp: hd_conv_nth split: if_splits)

lemma tried_trans:
  assumes "tried (drop k M) us j" and "tried M ts k" and "us \<noteq> [] \<Longrightarrow> StopNow \<notin> snd ` set ts"
  shows "tried M (ts @ us) (k + j)"
  using assms
proof (induction rule: tried.induct)
  case (tried_next us j h)
  have "tried M (ts @ us) (k + j)" "StopNow \<notin> snd ` set (ts @ us)" using tried_next by (auto simp: image_Un)
  then show ?case using tried.tried_next [of M "ts @ us" "k + j" h] tried_next.hyps(2) by (auto split: if_splits)
qed simp

lemma tried_prefix: "tried M ts k \<Longrightarrow> prefix M M' \<Longrightarrow> tried M' ts k"
proof (induction rule: tried.induct)
  case (tried_next ts k h)
  then have "M' ! k = M ! k" "k < length M'" by (auto simp: prefix_def nth_append)
  then show ?case using tried.tried_next [of M' ts k h] tried_next by simp
qed (rule tried_none)

lemma tried_bound: "tried M ts k \<Longrightarrow> k \<le> length M"
  by (induction rule: tried.induct) auto

text \<open>The distinct attempts are the first items, with at most the last of them not done.\<close>

lemma tried_remdups:
  assumes "tried M ts k" and "distinct M"
  shows "remdups_adj (map fst ts) = take k M \<and> (ts = [] \<or> snd (last ts) \<noteq> Failed) \<or>
    k < length M \<and> ts \<noteq> [] \<and> snd (last ts) = Failed \<and> remdups_adj (map fst ts) = take (Suc k) M"
  using assms
proof (induction rule: tried.induct)
  case (tried_next ts k h)
  from tried_next.IH [OF tried_next.prems] show ?case
  proof (elim disjE)
    assume "remdups_adj (map fst ts) = take k M \<and> (ts = [] \<or> snd (last ts) \<noteq> Failed)"
    then have t: "remdups_adj (map fst ts) = take k M" by simp
    have "last (map fst ts) \<noteq> M ! k" if "ts \<noteq> []"
    proof -
      have "last (map fst ts) \<in> set (take k M)" using that t by (metis last_in_set map_is_Nil_conv remdups_adj_set)
      then show ?thesis using tried_next.prems tried_next.hyps(2) by (auto simp: in_set_conv_nth nth_eq_iff_index_eq)
    qed
    then have "remdups_adj (map fst ts @ [M ! k]) = take k M @ [M ! k]" using t by (cases "ts = []") (auto simp: remdups_adj_append')
    then show ?thesis using tried_next.hyps(2) by (auto simp: take_Suc_conv_app_nth)
  next
    assume "k < length M \<and> ts \<noteq> [] \<and> snd (last ts) = Failed \<and> remdups_adj (map fst ts) = take (Suc k) M"
    then have t: "ts \<noteq> []" "remdups_adj (map fst ts) = take (Suc k) M" by simp_all
    then have "last (map fst ts) = M ! k" using tried_next.hyps(2)
      by (metis last_remdups_adj last_snoc map_is_Nil_conv take_Suc_conv_app_nth)
    then have "remdups_adj (map fst ts @ [M ! k]) = take (Suc k) M" using t by (simp add: remdups_adj_append'')
    then show ?thesis using tried_next.hyps(2) by auto
  qed
qed simp

lemma deliver_cases:
  assumes "rd_id r = n" and "rd_data r = p"
  obtains r' where "deliver path r = (r', Some ExitFailed)" "rd_acked r' = rd_acked r" "rd_cursor r' = rd_cursor r"
    "rd_calls r' = rd_calls r @ [((n, p), Failed)]"
  | r' where "deliver path r = (r', Some ExitStop)" "rd_acked r' = rd_acked r @ [(n, p)]" "rd_cursor r' = n"
    "rd_calls r' = rd_calls r @ [((n, p), StopNow)]"
  | r' where "deliver path r = (r', None)" "rd_acked r' = rd_acked r @ [(n, p)]" "rd_cursor r' = n" "rd_data r' = []" "rd_event r' = []"
    "rd_calls r' = rd_calls r @ [((n, p), Acked)]"
proof (cases "next_handled r")
  case Failed
  then show thesis using that(1) assms by (simp add: deliver_def)
next
  case StopNow
  then show thesis using that(2) assms
    by (cases "writeCursor (next_write r) path n (rd_files r)") (simp add: deliver_def Let_def)
next
  case Acked
  then show thesis using that(3) assms
    by (cases "writeCursor (next_write r) path n (rd_files r)") (simp add: deliver_def Let_def)
qed

text \<open>
  What a run of the reader does with a list of events: it acknowledges the first \<open>k\<close> of them,
  and its calls are tries of them.
\<close>

definition did :: "Event list \<Rightarrow> reader \<Rightarrow> reader \<Rightarrow> nat \<Rightarrow> ((int \<times> string) \<times> handled) list \<Rightarrow> bool" where
  "did M r r' k ts \<longleftrightarrow> rd_acked r' = rd_acked r @ map delivery (take k M) \<and> rd_cursor r' = high_water (rd_cursor r) (take k M) \<and>
     rd_calls r' = rd_calls r @ ts \<and> tried (map delivery M) ts k"

lemma did_nothing: "rd_acked r' = rd_acked r \<Longrightarrow> rd_cursor r' = rd_cursor r \<Longrightarrow> rd_calls r' = rd_calls r \<Longrightarrow> did M r r' 0 []"
  by (simp add: did_def high_water_def tried_none)

lemma did_trans:
  assumes "did M r r1 k ts" and "did (drop k M) r1 r2 j us" and "us \<noteq> [] \<Longrightarrow> StopNow \<notin> snd ` set ts"
  shows "did M r r2 (k + j) (ts @ us)"
proof -
  have "take (k + j) M = take k M @ take j (drop k M)" by (rule take_add)
  moreover have "tried (map delivery M) (ts @ us) (k + j)"
    using assms by (intro tried_trans) (simp_all add: did_def drop_map)
  ultimately show ?thesis using assms(1,2) by (simp add: did_def high_water_def)
qed

lemma did_prefix:
  assumes "did M r r' k ts" and "prefix M M'"
  shows "did M' r r' k ts"
proof -
  have "k \<le> length M" using assms(1) tried_bound by (fastforce simp: did_def)
  then have "take k M' = take k M" using assms(2) by (auto simp: prefix_def)
  then show ?thesis using assms tried_prefix [of "map delivery M" ts k "map delivery M'"] by (simp add: did_def map_mono_prefix)
qed

lemma read_cut_pieces:
  assumes "list_all piece_ok ps" and "prefix t (concat (map piece_bytes ps))" and "rd_data r = []" and "rd_event r = []"
  shows "\<exists>ls k ts r' x. scan_lines t = (ls, False) \<and> read_lines path ls r = (r', x) \<and>
    did (rows_of ps) r r' k ts \<and> (x \<noteq> Some ExitStop \<longrightarrow> StopNow \<notin> snd ` set ts)"
  using assms
proof (induction ps arbitrary: t r)
  case Nil
  then show ?case using did_nothing [of r r] by (auto intro!: exI [of _ "0::nat"] exI [of _ "[]"])
next
  case (Cons p ps)
  then have ok: "piece_ok p" "list_all piece_ok ps" by simp_all
  obtain ls0 where ls0: "piece_bytes p = sse_frame ls0" "list_all line_ok ls0"
    "case p of Row e \<Rightarrow> ls0 = row_lines e | _ \<Rightarrow> note_lines ls0" by (rule piece_lines [OF ok(1)])
  from Cons.prems(2) consider "strict_prefix t (piece_bytes p)"
    | t' where "t = piece_bytes p @ t'" "prefix t' (concat (map piece_bytes ps))"
    by (cases "t = piece_bytes p") (auto simp: prefix_append strict_prefix_def)
  then show ?case
  proof cases
    case 1
    then obtain ls' where ls': "scan_lines t = (ls', False)" "[] \<notin> set ls'" using scan_cut [OF ls0(2)] ls0(1) by auto
    from read_unfinished [OF this(2), of path r] obtain r' where "read_lines path ls' r = (r', None)"
      "rd_cursor r' = rd_cursor r" "rd_acked r' = rd_acked r" "rd_calls r' = rd_calls r" by blast
    then show ?thesis using ls'(1) did_nothing [of r' r]
      by (intro exI [of _ ls'] exI [of _ "0::nat"] exI [of _ "[]"] exI [of _ r'] exI [of _ None]) simp
  next
    case 2
    have scan: "scan_lines t = (map drop_cr ls0 @ [] # fst (scan_lines t'), snd (scan_lines t'))"
      unfolding 2(1) ls0(1) by (rule scan_frame [OF ls0(2)])
    define first where "first = read_lines path (map drop_cr ls0 @ [[]]) r"
    have split: "read_lines path (map drop_cr ls0 @ [] # ls) r =
        (case first of (r', None) \<Rightarrow> read_lines path ls r' | (r', Some x) \<Rightarrow> (r', Some x))" for ls
      using read_lines_append [of path "map drop_cr ls0 @ [[]]" ls r] by (simp add: first_def)
    show ?thesis
    proof (cases "\<exists>e. p = Row e")
      case False
      then have silent: "note_lines ls0" "rows_of (p # ps) = rows_of ps" using ls0(3) by (auto simp: rows_of_Cons split: piece.splits)
      then have r0: "first = (r, None)" unfolding first_def using Cons.prems(3,4) by (simp add: note_lines_def)
      from Cons.IH [OF ok(2) 2(2) Cons.prems(3,4)] obtain ls k ts r' x where ih: "scan_lines t' = (ls, False)" "read_lines path ls r = (r', x)"
        "did (rows_of ps) r r' k ts" "x \<noteq> Some ExitStop \<longrightarrow> StopNow \<notin> snd ` set ts"
        by blast
      then show ?thesis unfolding scan ih(1) silent(2)
        by (intro exI [of _ "map drop_cr ls0 @ [] # ls"] exI [of _ k] exI [of _ ts] exI [of _ r'] exI [of _ x]) (simp add: split r0)
    next
      case True
      then obtain e where Row: "p = Row e" by blast
      have l0: "ls0 = row_lines e" "row_ok e" using Row ls0(3) ok(1) by (simp_all add: piece_ok_def)
      let ?r = "r\<lparr>rd_id := e_Seq e, rd_data := e_Payload e\<rparr>"
      have r0: "first = deliver path ?r"
        unfolding first_def l0(1) by (rule read_row [OF l0(2) Cons.prems(3,4)])
      obtain ls1 where tl: "scan_lines t' = (ls1, False)" using Cons.IH [OF ok(2) 2(2) Cons.prems(3,4)] by blast
      have ids: "rd_id ?r = e_Seq e" "rd_data ?r = e_Payload e" by simp_all
      have rows: "rows_of (p # ps) = e # rows_of ps" by (simp add: rows_of_Cons Row)
      have one: "did (e # rows_of ps) r r' (if h = Failed then 0 else 1) [(delivery e, h)]"
        if "rd_acked r' = rd_acked r @ (if h = Failed then [] else [delivery e])" "rd_calls r' = rd_calls r @ [(delivery e, h)]"
          "rd_cursor r' = (if h = Failed then rd_cursor r else e_Seq e)" for r' h
        using that tried_first [of "map delivery (e # rows_of ps)" h] by (auto simp: did_def high_water_def split: if_splits)
      from ids show ?thesis
      proof (cases rule: deliver_cases [where path = path])
        case (1 r')
        then show ?thesis unfolding scan tl rows using one [of r' Failed]
          by (intro exI [of _ "map drop_cr ls0 @ [] # ls1"] exI [of _ "0::nat"] exI [of _ "[(delivery e, Failed)]"] exI [of _ r']
                exI [of _ "Some ExitFailed"]) (simp add: split r0 delivery_def)
      next
        case (2 r')
        then show ?thesis unfolding scan tl rows using one [of r' StopNow]
          by (intro exI [of _ "map drop_cr ls0 @ [] # ls1"] exI [of _ "1::nat"] exI [of _ "[(delivery e, StopNow)]"] exI [of _ r']
                exI [of _ "Some ExitStop"]) (simp add: split r0 delivery_def)
      next
        case (3 r1)
        from Cons.IH [OF ok(2) \<open>prefix t' _\<close> 3(4,5)] tl obtain k ts r' x where ih: "read_lines path ls1 r1 = (r', x)"
          "did (rows_of ps) r1 r' k ts" "x \<noteq> Some ExitStop \<longrightarrow> StopNow \<notin> snd ` set ts"
          by auto
        have "did (e # rows_of ps) r r1 1 [(delivery e, Acked)]" using one [of r1 Acked] 3 by (simp add: delivery_def)
        then have "did (e # rows_of ps) r r' (1 + k) ([(delivery e, Acked)] @ ts)" by (rule did_trans) (use ih(2) in simp_all)
        then show ?thesis unfolding scan tl rows using 3(1) ih
          by (intro exI [of _ "map drop_cr ls0 @ [] # ls1"] exI [of _ "1 + k"] exI [of _ "[(delivery e, Acked)] @ ts"] exI [of _ r']
                exI [of _ x]) (simp add: split r0)
      qed
    qed
  qed
qed

section \<open>Resuming across connections\<close>

text \<open>
  What the server's side promises (\<open>stream_delivers_exactly\<close>): a granted connection that
  resumes at a cursor carries, up to the byte at which it breaks, pieces whose rows are the
  log past that cursor in order.
\<close>

definition past :: "int \<Rightarrow> Event list \<Rightarrow> Event list" where
  "past c L = filter (\<lambda>e. c < e_Seq e) L"

definition served :: "Event list \<Rightarrow> int \<Rightarrow> connection \<Rightarrow> bool" where
  "served L c conn \<longleftrightarrow> (case conn of
     Response status body \<Rightarrow> status = 200 \<longrightarrow> (\<exists>ps. list_all piece_ok ps \<and> prefix body (concat (map piece_bytes ps)) \<and> prefix (rows_of ps) (past c L))
   | _ \<Rightarrow> True)"

definition ascending :: "Event list \<Rightarrow> bool" where
  "ascending L \<longleftrightarrow> sorted_wrt (<) (map e_Seq L)"

lemma past_cut:
  assumes "ascending L"
  shows "past (high_water c (take k (past c L))) L = drop k (past c L)"
proof (cases "take k (past c L) = []")
  case False
  let ?M = "past c L" and ?h = "high_water c (take k (past c L))"
  have M: "sorted_wrt (<) (map e_Seq ?M)" using assms unfolding ascending_def past_def sorted_wrt_map by (rule sorted_wrt_filter)
  have h: "?h = e_Seq (last (take k ?M))" using False by (simp add: high_water_def)
  have "last (take k ?M) \<in> set ?M" using False by (meson in_set_takeD last_in_set)
  then have "c < ?h" unfolding h by (simp add: past_def)
  then have "past ?h L = filter (\<lambda>e. ?h < e_Seq e) ?M" unfolding past_def filter_filter by (intro filter_cong) auto
  also have "\<dots> = filter (\<lambda>e. ?h < e_Seq e) (take k ?M) @ filter (\<lambda>e. ?h < e_Seq e) (drop k ?M)"
    by (metis append_take_drop_id filter_append)
  also have "filter (\<lambda>e. ?h < e_Seq e) (take k ?M) = []"
  proof -
    have "sorted (map e_Seq (take k ?M))" using sorted_wrt_take [OF M, of k] strict_sorted_imp_sorted by (simp add: take_map)
    then show ?thesis using sorted_last_ge [of e_Seq "take k ?M"] h by (fastforce simp: filter_empty_conv)
  qed
  also have "filter (\<lambda>e. ?h < e_Seq e) (drop k ?M) = drop k ?M"
  proof -
    have "sorted_wrt (<) (map e_Seq (take k ?M @ drop k ?M))" using M by simp
    then have "x \<in> set (take k ?M) \<Longrightarrow> y \<in> set (drop k ?M) \<Longrightarrow> e_Seq x < e_Seq y" for x y
      unfolding sorted_wrt_map sorted_wrt_append by blast
    then show ?thesis using last_in_set [OF False] unfolding h by (intro filter_True) auto
  qed
  finally show ?thesis by simp
qed (auto simp: high_water_def)

lemma high_water_append: "high_water (high_water c xs) ys = high_water c (xs @ ys)"
  by (simp add: high_water_def)

text \<open>A reader's run from a cursor: what it acknowledged, and where its cursor is.\<close>

definition resumed :: "Event list \<Rightarrow> reader \<Rightarrow> reader \<Rightarrow> ((int \<times> string) \<times> handled) list \<Rightarrow> bool" where
  "resumed L r r' ts \<longleftrightarrow> (\<exists>k. did (past (rd_cursor r) L) r r' k ts)"

lemma resumed_nothing: "rd_acked r' = rd_acked r \<Longrightarrow> rd_cursor r' = rd_cursor r \<Longrightarrow> rd_calls r' = rd_calls r \<Longrightarrow> resumed L r r' []"
  unfolding resumed_def using did_nothing by blast

lemma resumed_trans:
  assumes "ascending L" and "resumed L r r1 ts" and "resumed L r1 r2 us" and "us \<noteq> [] \<Longrightarrow> StopNow \<notin> snd ` set ts"
  shows "resumed L r r2 (ts @ us)"
proof -
  let ?M = "past (rd_cursor r) L"
  obtain k where k: "did ?M r r1 k ts" using assms(2) by (auto simp: resumed_def)
  then have "past (rd_cursor r1) L = drop k ?M" using past_cut [OF assms(1)] by (simp add: did_def)
  then obtain j where "did (drop k ?M) r1 r2 j us" using assms(3) by (auto simp: resumed_def)
  then show ?thesis using did_trans [OF k _ assms(4)] by (auto simp: resumed_def)
qed

lemma readStream_resumed:
  assumes "served L (rd_cursor r) conn" and "readStream path conn r = (sf, r')"
  shows "\<exists>ts. resumed L r r' ts \<and> (\<not> fst sf \<longrightarrow> StopNow \<notin> snd ` set ts)"
proof (cases conn)
  case (Response status body)
  show ?thesis
  proof (cases "status = 200")
    case True
    obtain ps where ps: "list_all piece_ok ps" "prefix body (concat (map piece_bytes ps))" "prefix (rows_of ps) (past (rd_cursor r) L)"
      using assms(1) True by (auto simp: served_def Response)
    let ?r = "r\<lparr>rd_id := rd_cursor r, rd_data := [], rd_event := []\<rparr>"
    have "rd_data ?r = []" "rd_event ?r = []" by simp_all
    from read_cut_pieces [OF ps(1,2) this, of path] obtain ls k ts q x where
      q: "scan_lines body = (ls, False)" "read_lines path ls ?r = (q, x)" "did (rows_of ps) ?r q k ts"
        "x \<noteq> Some ExitStop \<longrightarrow> StopNow \<notin> snd ` set ts"
      by blast
    have "r' = q" "fst sf \<longleftrightarrow> x = Some ExitStop"
      using assms(2) True q(1,2) by (auto simp: readStream_def Response split: option.splits exit.splits)
    moreover have "did (past (rd_cursor r) L) r q k ts" using did_prefix [OF q(3) ps(3)] by (simp add: did_def)
    ultimately show ?thesis unfolding resumed_def using q(4) by blast
  qed (use assms(2) in \<open>auto simp: readStream_def Response split: if_splits intro!: exI [of _ "[]"] resumed_nothing\<close>)
qed (use assms(2) in \<open>auto simp: readStream_def intro!: exI [of _ "[]"] resumed_nothing\<close>)

lemma consume_once_reader:
  assumes "consume_once watched path a port r = (res, r')"
  shows "r' = r \<or> (\<exists>sf. readStream path (at_conn a port (rd_cursor r)) r = (sf, r') \<and> (isl res \<or> \<not> fst sf))"
  using assms by (auto simp: consume_once_def Let_def split: if_splits prod.splits option.splits)

lemma consume_loop_resumed:
  assumes "\<forall>a \<in> set as. \<forall>port c. served L c (at_conn a port c)" and "ascending L"
    and "consume_loop watched path as port r = (res, r')"
  shows "\<exists>ts. resumed L r r' ts"
  using assms
proof (induction "as" arbitrary: port r)
  case Nil
  then show ?case using resumed_nothing [of r r L] by auto
next
  case (Cons a "as")
  obtain x r1 where x: "consume_once watched path a port r = (x, r1)" by fastforce
  have "\<exists>ts. resumed L r r1 ts \<and> (isl x \<or> StopNow \<notin> snd ` set ts)"
    using consume_once_reader [OF x]
  proof
    assume "\<exists>sf. readStream path (at_conn a port (rd_cursor r)) r = (sf, r1) \<and> (isl x \<or> \<not> fst sf)"
    then show ?thesis using Cons.prems(1) readStream_resumed [of L r "at_conn a port (rd_cursor r)" path] by fastforce
  qed (auto intro!: exI [of _ "[]"] resumed_nothing)
  then obtain ts where one: "resumed L r r1 ts" "isl x \<or> StopNow \<notin> snd ` set ts" by blast
  show ?case
  proof (cases x)
    case (Inl y)
    then show ?thesis using Cons.prems(3) x one by auto
  next
    case (Inr port')
    then obtain us where "resumed L r1 r' us" using Cons.IH [of port' r1] Cons.prems x by auto
    then show ?thesis using resumed_trans [OF Cons.prems(2) one(1)] one(2) Inr by auto
  qed
qed

text \<open>
  C15: A consumer acknowledges every event once and in order, however often the stream breaks.
  Take any number of passes of the reconnect loop, each connection refused, failing with any
  status or broken off after any byte, the daemon moving to another port, the handler failing
  at any event and the cursor file failing to be written. If every connection serves the log
  past the cursor it is asked for, then the handler calls that were acknowledged are exactly
  the first \<open>k\<close> events of the log past the starting cursor, in order, and the cursor is the
  number of the last of them.
\<close>

theorem consume_exact:
  assumes "\<forall>a \<in> set as. \<forall>port c. served L c (at_conn a port c)" and "ascending L"
    and "consume_loop watched path as port r = (res, r')" and "rd_acked r = []"
  shows "\<exists>k. rd_acked r' = map delivery (take k (past (rd_cursor r) L)) \<and>
    rd_cursor r' = high_water (rd_cursor r) (take k (past (rd_cursor r) L))"
  using consume_loop_resumed [OF assms(1-3)] assms(4) by (auto simp: resumed_def did_def)

definition sample_log :: "Event list" where
  "sample_log = [(sample_event ''human'' ''{1}'' [])\<lparr>e_Seq := 1\<rparr>, (sample_event ''human'' ''{2}'' [])\<lparr>e_Seq := 2\<rparr>]"

definition sample_reader :: reader where
  "sample_reader = \<lparr>rd_cursor = 0, rd_id = 0, rd_data = [], rd_event = [], rd_acked = [], rd_files = (\<lambda>_. None), rd_warned = 0,
     rd_handler = (\<lambda>_ _. Acked), rd_calls = [], rd_writes = []\<rparr>"

text \<open>A server that sends the first event past the cursor and breaks in the middle of the next line.\<close>

definition sample_attempt :: attempt where
  "sample_attempt = \<lparr>at_ctxBefore = False, at_aliveBefore = True,
     at_conn = (\<lambda>port c. Response 200 (case past c sample_log of [] \<Rightarrow> [] | e # _ \<Rightarrow> event_frame e @ '': keepal'')),
     at_ctxAfter = False, at_aliveAfter = True, at_refresh = None, at_ctxWaiting = False\<rparr>"

lemma sample_served: "served sample_log c (at_conn sample_attempt port c)"
proof (cases "past c sample_log")
  case Nil
  then show ?thesis by (auto simp: served_def sample_attempt_def intro!: exI [of _ "[]"])
next
  case (Cons e es)
  have "prefix (event_frame e @ '': keepal'') (concat (map piece_bytes [Row e, Comment True]))"
    by (simp add: piece_bytes_def)
  moreover have "e \<in> set sample_log" using Cons by (metis filter_is_subset list.set_intros(1) past_def subsetD)
  then have "row_ok e" by (auto simp: sample_log_def row_ok_def wire_ok_def seq_ok_def sample_event_def maxToken_def)
  moreover have "prefix (rows_of [Row e, Comment True]) (past c sample_log)" using Cons by (simp add: rows_of_def)
  ultimately show ?thesis using Cons by (auto simp: served_def sample_attempt_def piece_ok_def intro!: exI [of _ "[Row e, Comment True]"])
qed

theorem consume_exact_witness:
  "\<exists>res r'. consume_loop False ''c'' [sample_attempt, sample_attempt] 1 sample_reader = (res, r') \<and> rd_cursor r' = 2 \<and>
     rd_acked r' = map delivery (take 2 (past 0 sample_log))"
proof -
  obtain res r' where run: "consume_loop False ''c'' [sample_attempt, sample_attempt] 1 sample_reader = (res, r')" by fastforce
  have two: "rd_cursor (snd (consume_loop False ''c'' [sample_attempt, sample_attempt] 1 sample_reader)) = 2" by code_simp
  have asc: "ascending sample_log" by (simp add: ascending_def sample_log_def)
  have "\<exists>k. rd_acked r' = map delivery (take k (past 0 sample_log)) \<and> rd_cursor r' = high_water 0 (take k (past 0 sample_log))"
    using consume_exact [OF _ asc run] sample_served by (simp add: sample_reader_def)
  then obtain k where k: "rd_acked r' = map delivery (take k (past 0 sample_log))" "high_water 0 (take k (past 0 sample_log)) = 2"
    using two run by auto
  have "past 0 sample_log = sample_log" by (simp add: past_def sample_log_def)
  then have "take k sample_log = take 2 sample_log" using k(2)
    by (cases k; cases "k - 1") (auto simp: sample_log_def high_water_def)
  then show ?thesis using run k(1) two \<open>past 0 sample_log = sample_log\<close> by auto
qed

section \<open>Invariants of the reader\<close>

text \<open>
  What a delivery keeps, and does not mention the frame being read, is kept by the whole loop,
  whatever the connections carry.
\<close>

lemma read_line_keeps:
  assumes "\<And>r. P r \<Longrightarrow> P (fst (deliver path r))"
    and "\<And>r i d e. P r \<Longrightarrow> i = rd_id r \<or> i = rd_cursor r \<or> seq_ok i \<Longrightarrow> P (r\<lparr>rd_id := i, rd_data := d, rd_event := e\<rparr>)"
    and "P r"
  shows "P (fst (read_line path l r))"
proof -
  have "seq_ok n" if "parseInt 64 v = Some n" for v n using parseInt_range [OF that] by (simp add: seq_ok_def)
  moreover have "P (r\<lparr>rd_data := d, rd_event := e\<rparr>)" for d e using assms(2) [OF assms(3), of "rd_id r" e d] by simp
  moreover have "P (r\<lparr>rd_id := i\<rparr>)" if "seq_ok i" for i using assms(2) [OF assms(3), of i "rd_event r" "rd_data r"] that by simp
  moreover have "P (r\<lparr>rd_data := d\<rparr>)" for d using assms(2) [OF assms(3), of "rd_id r" "rd_event r" d] by simp
  moreover have "P (r\<lparr>rd_event := e\<rparr>)" for e using assms(2) [OF assms(3), of "rd_id r" e "rd_data r"] by simp
  ultimately show ?thesis using assms(1) [OF assms(3)] assms(3) unfolding read_line_def by (auto split: option.split)
qed

lemma read_lines_keeps:
  assumes "\<And>r. P r \<Longrightarrow> P (fst (deliver path r))"
    and "\<And>r i d e. P r \<Longrightarrow> i = rd_id r \<or> i = rd_cursor r \<or> seq_ok i \<Longrightarrow> P (r\<lparr>rd_id := i, rd_data := d, rd_event := e\<rparr>)"
  shows "P r \<Longrightarrow> P (fst (read_lines path ls r))"
proof (induction ls arbitrary: r)
  case (Cons l ls)
  have "P (fst (read_line path l r))" by (rule read_line_keeps [OF assms Cons.prems])
  then show ?case using Cons.IH by (auto split: prod.split option.split)
qed simp

lemma readStream_keeps:
  assumes "\<And>r. P r \<Longrightarrow> P (fst (deliver path r))"
    and "\<And>r i d e. P r \<Longrightarrow> i = rd_id r \<or> i = rd_cursor r \<or> seq_ok i \<Longrightarrow> P (r\<lparr>rd_id := i, rd_data := d, rd_event := e\<rparr>)"
    and "P r" and "readStream path conn r = (sf, r')"
  shows "P r'"
proof -
  let ?r = "r\<lparr>rd_id := rd_cursor r, rd_data := [], rd_event := []\<rparr>"
  have "r' = r \<or> (\<exists>ls x. read_lines path ls ?r = (r', x))"
    using assms(4) by (auto simp: readStream_def split: connection.splits if_splits prod.splits option.splits exit.splits)
  moreover have "P (fst (read_lines path ls ?r))" for ls by (rule read_lines_keeps [OF assms(1,2)], assumption+) (simp add: assms)
  ultimately show ?thesis using assms(3) by (metis fst_conv)
qed

lemma consume_loop_keeps:
  assumes "\<And>r. P r \<Longrightarrow> P (fst (deliver path r))"
    and "\<And>r i d e. P r \<Longrightarrow> i = rd_id r \<or> i = rd_cursor r \<or> seq_ok i \<Longrightarrow> P (r\<lparr>rd_id := i, rd_data := d, rd_event := e\<rparr>)"
    and "P r" and "consume_loop watched path as port r = (res, r')"
  shows "P r'"
  using assms(3,4)
proof (induction "as" arbitrary: port r)
  case (Cons a "as")
  obtain x r1 where x: "consume_once watched path a port r = (x, r1)" by fastforce
  have "P r1" using consume_once_reader [OF x] readStream_keeps [OF assms(1,2) Cons.prems(1)] Cons.prems(1) by blast
  then show ?case using Cons x by (auto split: sum.splits)
qed simp

section \<open>The server side of the promise\<close>

lemma parseCursor_header:
  assumes "rq_lastEventHeader r = lastEventHeader c" and "rq_lastEventQuery r = []" and "0 \<le> c" and "seq_ok c"
  shows "parseCursor r = c"
  using assms parseInt_itoa [of 64 c] itoa_solid(1) [of c] by (cases "c = 0") (auto simp: parseCursor_def lastEventHeader_def seq_ok_def)

lemma read_log_past: "log_inv d \<Longrightarrow> 0 \<le> c \<Longrightarrow> read_log sid c ex d = past c (read_log sid 0 ex d)"
  by (auto simp: read_log_eq past_def intro!: filter_cong)

lemma read_log_ascending: "log_inv d \<Longrightarrow> ascending (filter P (read_log sid c ex d))"
  using sql_log.since_sorted [of d sid c ex]
  by (auto simp: ascending_def strict_sorted_iff sorted_filter distinct_map_filter)

lemma high_water_seq_ok: "seq_ok c \<Longrightarrow> (\<And>e. e \<in> set evs \<Longrightarrow> seq_ok (e_Seq e)) \<Longrightarrow> seq_ok (high_water c evs)"
  by (simp add: high_water_def)

lemma start_cursor:
  assumes "stream_start cfg flt r sid pid ch tok w = (st, w')" and "log_inv (wd_db w)"
  shows "str_cursor st = parseCursor r \<or> str_cursor st = high_water (parseCursor r) (read_log sid (parseCursor r) (rq_excludeOrigin r) (wd_db w))"
  using assms by (cases flt) (auto simp: stream_start_def Let_def flushSince_ok flushSince_failed split: prod.splits)



section \<open>The cursor survives a restart\<close>

lemma cursor_roundtrip: "seq_ok c \<Longrightarrow> readCursor None path (fs(path \<mapsto> itoa c)) = Inr c"
  using parseInt_itoa [of 64 c] TrimSpace_solid(1) [OF itoa_solid] by (simp add: readCursor_def seq_ok_def)

text \<open>
  What the reader keeps on disk: while no write has failed, the file is untouched or holds the
  cursor.
\<close>

definition on_disk :: "string \<Rightarrow> reader \<Rightarrow> reader \<Rightarrow> bool" where
  "on_disk path r r' \<longleftrightarrow> seq_ok (rd_cursor r') \<and> seq_ok (rd_id r') \<and> rd_warned r \<le> rd_warned r' \<and>
     (rd_warned r' = rd_warned r \<longrightarrow>
        (rd_cursor r' = rd_cursor r \<and> rd_files r' = rd_files r) \<or> rd_files r' path = Some (itoa (rd_cursor r')))"

lemma on_disk_trans: "on_disk path r r1 \<Longrightarrow> on_disk path r1 r2 \<Longrightarrow> on_disk path r r2"
  unfolding on_disk_def by (cases "rd_warned r2 = rd_warned r") auto

lemma on_disk_same:
  "seq_ok (rd_cursor r) \<Longrightarrow> seq_ok (rd_id r') \<Longrightarrow> rd_cursor r' = rd_cursor r \<Longrightarrow> rd_files r' = rd_files r \<Longrightarrow> rd_warned r' = rd_warned r
    \<Longrightarrow> on_disk path r r'"
  by (simp add: on_disk_def)

lemma deliver_on_disk:
  assumes "seq_ok (rd_cursor r)" and "seq_ok (rd_id r)"
  shows "on_disk path r (fst (deliver path r))"
  using assms by (cases "next_write r") (auto simp: deliver_def Let_def writeCursor_def on_disk_def)

lemma consume_loop_on_disk:
  assumes "seq_ok (rd_cursor r)" and "seq_ok (rd_id r)" and "consume_loop watched path as port r = (res, r')"
  shows "on_disk path r r'"
proof (rule consume_loop_keeps [where P = "on_disk path r", OF _ _ _ assms(3)])
  show "on_disk path r r" using assms(1,2) by (rule on_disk_same) simp_all
next
  fix q
  assume q: "on_disk path r q"
  then have "on_disk path q (fst (deliver path q))" by (intro deliver_on_disk) (simp_all add: on_disk_def)
  then show "on_disk path r (fst (deliver path q))" by (rule on_disk_trans [OF q])
next
  fix q i d e
  assume "on_disk path r q" and "i = rd_id q \<or> i = rd_cursor q \<or> seq_ok i"
  then show "on_disk path r (q\<lparr>rd_id := i, rd_data := d, rd_event := e\<rparr>)" by (auto simp: on_disk_def)
qed

text \<open>
  The cursor survives a restart. If a consumer was started from its cursor file, ran any
  number of passes over any connections, and no write of the file failed, then reading the
  file again gives exactly the cursor it stopped at; a corrupt file is an error, never zero.
\<close>

theorem cursor_survives_restart:
  assumes "readCursor None path (rd_files r) = Inr c" and "rd_cursor r = c" and "seq_ok (rd_id r)"
    and "consume_loop watched path as port r = (res, r')" and "rd_warned r' = rd_warned r"
  shows "readCursor None path (rd_files r') = Inr (rd_cursor r')"
proof -
  have "seq_ok c" using assms(1) parseInt_range
    by (fastforce simp: readCursor_def seq_ok_def split: option.splits)
  then have "on_disk path r r'" using consume_loop_on_disk [OF _ assms(3,4)] assms(2) by simp
  then have "rd_cursor r' = c \<and> rd_files r' = rd_files r \<or> rd_files r' path = Some (itoa (rd_cursor r'))" "seq_ok (rd_cursor r')"
    using assms(2,5) by (auto simp: on_disk_def)
  then show ?thesis using assms(1) cursor_roundtrip [of "rd_cursor r'" path "rd_files r'"] by (metis fun_upd_triv)
qed

theorem cursor_survives_restart_witness:
  "\<exists>res r'. consume_loop False ''c'' [sample_attempt, sample_attempt] 1 sample_reader = (res, r') \<and>
     readCursor None ''c'' (rd_files r') = Inr (rd_cursor r')"
proof -
  obtain res r' where run: "consume_loop False ''c'' [sample_attempt, sample_attempt] 1 sample_reader = (res, r')" by fastforce
  have "rd_warned (snd (consume_loop False ''c'' [sample_attempt, sample_attempt] 1 sample_reader)) = 0" by code_simp
  then have "rd_warned r' = rd_warned sample_reader" unfolding run by (simp add: sample_reader_def)
  then have "readCursor None ''c'' (rd_files r') = Inr (rd_cursor r')"
    by (intro cursor_survives_restart [OF _ _ _ run]) (simp_all add: sample_reader_def readCursor_def seq_ok_def)
  then show ?thesis using run by blast
qed

end
