(* ===== verification/Json.thy ===== *)
theory Json
  imports Prelude
begin

text \<open>
  What the repository uses of \<open>encoding/json\<close> on the writing side: \<open>json.Marshal\<close> of flat
  structs (strings, integers, lists of integers, raw messages), byte for byte. Strings are
  escaped as Go's encoder does it: quote, backslash and control bytes, the HTML characters,
  the two Unicode line separators, and invalid UTF-8 as the replacement character. A raw
  message is compacted: white space between tokens goes, the HTML characters are escaped. The
  main lemma is that an encoded value never contains a line break, which is what the
  \<open>data:\<close> lines of the event stream rely on.
\<close>

section \<open>Strings\<close>

definition byte :: "char \<Rightarrow> nat" where
  "byte c = of_char c"

definition hex_char :: "nat \<Rightarrow> char" where
  "hex_char n = ''0123456789abcdef'' ! (n mod 16)"

definition escape_ascii :: "char \<Rightarrow> string" where
  "escape_ascii c =
     (if byte c = 0x22 \<or> byte c = 0x5C then [CHR 0x5C, c]
      else if byte c = 0x08 then [CHR 0x5C, CHR ''b'']
      else if byte c = 0x0C then [CHR 0x5C, CHR ''f'']
      else if byte c = 0x0A then [CHR 0x5C, CHR ''n'']
      else if byte c = 0x0D then [CHR 0x5C, CHR ''r'']
      else if byte c = 0x09 then [CHR 0x5C, CHR ''t'']
      else if byte c < 0x20 \<or> c = CHR ''<'' \<or> c = CHR ''>'' \<or> c = CHR ''&''
      then [CHR 0x5C, CHR ''u'', CHR ''0'', CHR ''0'', hex_char (byte c div 16), hex_char (byte c)]
      else [c])"

definition continuation :: "nat \<Rightarrow> bool" where
  "continuation b \<longleftrightarrow> 0x80 \<le> b \<and> b \<le> 0xBF"

text \<open>\<open>utf8.DecodeRune\<close>: the length of the rune at the head, \<open>None\<close> for an invalid one.\<close>

definition rune_size :: "nat list \<Rightarrow> nat option" where
  "rune_size bs =
     (case bs of
        [] \<Rightarrow> None
      | a # bs1 \<Rightarrow>
          if a < 0x80 then Some 1
          else if 0xC2 \<le> a \<and> a \<le> 0xDF then
            (case bs1 of b # _ \<Rightarrow> if continuation b then Some 2 else None | [] \<Rightarrow> None)
          else if 0xE0 \<le> a \<and> a \<le> 0xEF then
            (case bs1 of
               b # c # _ \<Rightarrow> if (if a = 0xE0 then 0xA0 else 0x80) \<le> b \<and> b \<le> (if a = 0xED then 0x9F else 0xBF)
                 \<and> continuation c then Some 3 else None
             | _ \<Rightarrow> None)
          else if 0xF0 \<le> a \<and> a \<le> 0xF4 then
            (case bs1 of
               b # c # e # _ \<Rightarrow> if (if a = 0xF0 then 0x90 else 0x80) \<le> b \<and> b \<le> (if a = 0xF4 then 0x8F else 0xBF)
                 \<and> continuation c \<and> continuation e then Some 4 else None
             | _ \<Rightarrow> None)
          else None)"

definition line_separator :: "string \<Rightarrow> char option" where
  "line_separator s = (case map byte (take 3 s) of
     [a, b, c] \<Rightarrow> if a = 0xE2 \<and> b = 0x80 \<and> c = 0xA8 then Some (CHR ''8'')
                  else if a = 0xE2 \<and> b = 0x80 \<and> c = 0xA9 then Some (CHR ''9'') else None
   | _ \<Rightarrow> None)"

fun json_escape :: "string \<Rightarrow> string" where
  "json_escape [] = []"
| "json_escape (c # cs) =
     (if byte c < 0x80 then escape_ascii c @ json_escape cs
      else case rune_size (map byte (c # cs)) of
             None \<Rightarrow> CHR 0x5C # ''ufffd'' @ json_escape cs
           | Some n \<Rightarrow>
               (case line_separator (c # cs) of
                  Some d \<Rightarrow> CHR 0x5C # ''u202'' @ [d]
                | None \<Rightarrow> take n (c # cs)) @ json_escape (drop (n - 1) cs))"

definition json_string :: "string \<Rightarrow> string" where
  "json_string s = [CHR 0x22] @ json_escape s @ [CHR 0x22]"

section \<open>Values\<close>

datatype json =
    JString string
  | JInt int
  | JInts "int list"
  | JRaw string

text \<open>
  Compacting a raw message: outside a string white space is dropped; everywhere the HTML
  characters and the line separators are escaped. The two flags are inside a string and after
  a backslash in it.
\<close>

definition json_space :: "char \<Rightarrow> bool" where
  "json_space c \<longleftrightarrow> byte c = 0x20 \<or> byte c = 0x09 \<or> byte c = 0x0D \<or> byte c = 0x0A"

fun json_compact :: "bool \<Rightarrow> bool \<Rightarrow> string \<Rightarrow> string" where
  "json_compact instr esc [] = []"
| "json_compact instr esc (c # cs) =
     (if \<not> instr then
        (if json_space c then json_compact False False cs
         else (if c = CHR ''<'' \<or> c = CHR ''>'' \<or> c = CHR ''&'' then escape_ascii c else [c])
                @ json_compact (byte c = 0x22) False cs)
      else case line_separator (c # cs) of
             Some d \<Rightarrow> CHR 0x5C # ''u202'' @ [d] @ json_compact True False (drop 2 cs)
           | None \<Rightarrow>
               (if c = CHR ''<'' \<or> c = CHR ''>'' \<or> c = CHR ''&'' then escape_ascii c else [c]) @
               (if esc then json_compact True False cs
                else if byte c = 0x5C then json_compact True True cs
                else if byte c = 0x22 then json_compact False False cs
                else json_compact True False cs))"

fun intersperse_all :: "string \<Rightarrow> string list \<Rightarrow> string" where
  "intersperse_all sep [] = []"
| "intersperse_all sep [x] = x"
| "intersperse_all sep (x # y # ys) = x @ sep @ intersperse_all sep (y # ys)"

fun json_value :: "json \<Rightarrow> string" where
  "json_value (JString s) = json_string s"
| "json_value (JInt i) = itoa i"
| "json_value (JInts is) = ''['' @ intersperse_all '','' (map itoa is) @ '']''"
| "json_value (JRaw r) = json_compact False False r"

definition json_object :: "(string \<times> json) list \<Rightarrow> string" where
  "json_object fields = ''{'' @ intersperse_all '',''
     (map (\<lambda>(k, v). json_string k @ '':'' @ json_value v) fields) @ ''}''"

section \<open>No line break in an encoded value\<close>

definition one_line :: "string \<Rightarrow> bool" where
  "one_line s \<longleftrightarrow> CHR 0x0A \<notin> set s \<and> CHR 0x0D \<notin> set s"

lemma one_line_simps [simp]:
  "one_line []" "one_line (xs @ ys) \<longleftrightarrow> one_line xs \<and> one_line ys"
  "one_line (c # cs) \<longleftrightarrow> c \<noteq> CHR 0x0A \<and> c \<noteq> CHR 0x0D \<and> one_line cs"
  by (auto simp: one_line_def)

lemma byte_eq_iff: "byte c = byte d \<longleftrightarrow> c = d"
  by (simp add: byte_def)

lemma byte_line: "byte c = 0x0A \<longleftrightarrow> c = CHR 0x0A" "byte c = 0x0D \<longleftrightarrow> c = CHR 0x0D"
  using byte_eq_iff [of c "CHR 0x0A"] byte_eq_iff [of c "CHR 0x0D"] by (simp_all add: byte_def)

lemma byte_break: "byte (CHR 0x0A) = 10" "byte (CHR 0x0D) = 13"
  by (simp_all add: byte_def)

lemma hex_char_not_break: "hex_char n \<noteq> CHR 0x0A" "hex_char n \<noteq> CHR 0x0D"
proof -
  have "hex_char n \<in> set ''0123456789abcdef''" unfolding hex_char_def by (rule nth_mem) simp
  then show "hex_char n \<noteq> CHR 0x0A" "hex_char n \<noteq> CHR 0x0D" by auto
qed

lemma escape_ascii_one_line: "one_line (escape_ascii c)"
  using byte_line [of c] by (auto simp: escape_ascii_def hex_char_not_break byte_break)

text \<open>The bytes of a rune longer than one byte are all at least 0x80.\<close>

lemma rune_bytes_high:
  assumes "rune_size bs = Some n" and "0x80 \<le> hd bs" and "b \<in> set (take n bs)"
  shows "0x80 \<le> b"
proof -
  consider a c bs' where "bs = a # c # bs'" "n = 2" "continuation c"
    | a c e bs' where "bs = a # c # e # bs'" "n = 3" "0x80 \<le> c" "continuation e"
    | a c e f bs' where "bs = a # c # e # f # bs'" "n = 4" "0x80 \<le> c" "continuation e" "continuation f"
    using assms(1,2) by (auto simp: rune_size_def split: list.splits if_splits)
  then show ?thesis using assms(2,3) by cases (auto simp: continuation_def)
qed

lemma json_escape_one_line: "one_line (json_escape s)"
proof (induction s rule: json_escape.induct)
  case (2 c cs)
  show ?case
  proof (cases "byte c < 0x80")
    case True
    then show ?thesis using 2(1) by (simp add: escape_ascii_one_line)
  next
    case False
    show ?thesis
    proof (cases "rune_size (map byte (c # cs))")
      case None
      then show ?thesis using 2(2) False by simp
    next
      case (Some n)
      have "0x80 \<le> byte x" if "x \<in> set (take n (c # cs))" for x
      proof -
        have "byte x \<in> set (take n (map byte (c # cs)))" unfolding take_map set_map using that by (rule imageI)
        then show ?thesis using rune_bytes_high [OF Some, of "byte x"] False by simp
      qed
      then have "one_line (take n (c # cs))" by (force simp: one_line_def byte_break)
      then show ?thesis using 2(3) [OF False Some] False Some
        by (auto simp: line_separator_def split: option.split list.splits if_splits simp del: one_line_simps(3)) simp_all
    qed
  qed
qed simp

lemma digits_one_line: "one_line (digits n)"
  using digits_chars [of n] by (auto simp: one_line_def)

lemma itoa_one_line [simp]: "one_line (itoa i)"
  by (simp add: itoa_def digits_one_line)

lemma json_string_one_line [simp]: "one_line (json_string s)"
  by (simp add: json_string_def json_escape_one_line)

lemma intersperse_one_line:
  "one_line sep \<Longrightarrow> (\<And>x. x \<in> set xs \<Longrightarrow> one_line x) \<Longrightarrow> one_line (intersperse_all sep xs)"
  by (induction sep xs rule: intersperse_all.induct) auto

text \<open>
  A raw message is safe when it holds no line break inside a string, which JSON forbids: the
  breaks between its tokens are dropped.
\<close>

fun breaks_outside :: "bool \<Rightarrow> bool \<Rightarrow> string \<Rightarrow> bool" where
  "breaks_outside instr esc [] \<longleftrightarrow> True"
| "breaks_outside instr esc (c # cs) \<longleftrightarrow>
     (if \<not> instr then (if json_space c then breaks_outside False False cs else breaks_outside (byte c = 0x22) False cs)
      else c \<noteq> CHR 0x0A \<and> c \<noteq> CHR 0x0D \<and>
        (case line_separator (c # cs) of
           Some d \<Rightarrow> breaks_outside True False (drop 2 cs)
         | None \<Rightarrow>
             (if esc then breaks_outside True False cs
              else if byte c = 0x5C then breaks_outside True True cs
              else if byte c = 0x22 then breaks_outside False False cs
              else breaks_outside True False cs)))"

lemma json_compact_one_line: "breaks_outside instr esc s \<Longrightarrow> one_line (json_compact instr esc s)"
proof (induction instr esc s rule: json_compact.induct)
  case (2 instr esc c cs)
  have d: "d \<noteq> CHR 0x0A \<and> d \<noteq> CHR 0x0D" if "line_separator (c # cs) = Some d" for d
    using that by (auto simp: line_separator_def split: list.splits if_splits)
  show ?case
  proof (cases instr)
    case False
    then show ?thesis using 2 byte_line [of c]
      by (auto simp: escape_ascii_one_line json_space_def)
  next
    case True
    show ?thesis
    proof (cases "line_separator (c # cs)")
      case None
      then show ?thesis using True 2
        by (cases esc; cases "byte c = 0x5C"; cases "byte c = 0x22") (simp_all add: escape_ascii_one_line)
    next
      case (Some e)
      then show ?thesis using True 2 d by simp
    qed
  qed
qed simp

definition json_ok :: "json \<Rightarrow> bool" where
  "json_ok v = (case v of JRaw r \<Rightarrow> breaks_outside False False r | _ \<Rightarrow> True)"

lemma json_value_one_line: "json_ok v \<Longrightarrow> one_line (json_value v)"
  by (cases v) (auto simp: json_ok_def json_compact_one_line intro!: intersperse_one_line)

lemma json_object_one_line: "(\<And>k v. (k, v) \<in> set fs \<Longrightarrow> json_ok v) \<Longrightarrow> one_line (json_object fs)"
  by (auto simp: json_object_def json_value_one_line intro!: intersperse_one_line)

end
