(* ===== verification/Channel_Server.thy ===== *)
theory Channel_Server
  imports Consume Json "HOL-Library.Multiset" "HOL-Library.Sublist"
begin

text \<open>
  The MCP server on standard input and output (\<open>channel/server.go\<close>): the loop over the request
  lines, the synchronized writer, and the tool calls, each in a goroutine of its own. The loop,
  every call in flight and the consumer's notifications are the processes of a step relation;
  a handler may report progress and return whenever and with whatever it likes. Replies and
  notifications are encoded byte for byte (a Go map is written with its keys sorted); the
  decoding of a request line and of the parameters of a call are parameters. The writer may
  fail at any write, after any number of bytes.
\<close>

section \<open>Encoded values\<close>

definition json_map :: "(string \<times> string) list \<Rightarrow> string" where
  "json_map kvs = ''{'' @ intersperse_all '','' (map (\<lambda>(k, v). json_string k @ '':'' @ v) kvs) @ ''}''"

definition json_array :: "string list \<Rightarrow> string" where
  "json_array vs = ''['' @ intersperse_all '','' vs @ '']''"

text \<open>The input schema and the metadata of a tool are values of the consumer: their encoding, if they have one.\<close>

record Tool =
  tl_Name :: string
  tl_Description :: string
  tl_InputSchema :: "string result"
  tl_Meta :: "string result option"

record ServerInfo =
  si_Name :: string
  si_Version :: string
  si_Instructions :: string
  si_Resumed :: bool

record rpcMessage =
  rm_ID :: string
  rm_Method :: string
  rm_Params :: string

record tool_call =
  tk_Name :: string
  tk_Arguments :: string
  tk_ProgressToken :: string

text \<open>\<open>json.Unmarshal\<close> of a request line and of the parameters of a call; an error is its text.\<close>

record rpc_codec =
  rc_message :: "string \<Rightarrow> string + rpcMessage"
  rc_call :: "string \<Rightarrow> string + tool_call"

definition mcpProtocolVersion :: string where
  "mcpProtocolVersion = ''2025-06-18''"

definition initialize_result :: "ServerInfo \<Rightarrow> string" where
  "initialize_result info = json_map
     ([(''capabilities'', json_map [(''experimental'', json_map [(''claude/channel'', json_map [])]),
         (''tools'', json_map [(''listChanged'', ''true'')])])] @
      (if si_Instructions info \<noteq> [] then [(''instructions'', json_string (si_Instructions info))] else []) @
      [(''protocolVersion'', json_string mcpProtocolVersion),
       (''serverInfo'', json_map [(''name'', json_string (si_Name info)), (''version'', json_string (si_Version info))])])"

definition tool_schema :: "Tool \<Rightarrow> string result" where
  "tool_schema t =
     (case tl_InputSchema t of
        Inl e \<Rightarrow> Inl e
      | Inr schema \<Rightarrow>
          (let rest = [(''description'', json_string (tl_Description t)), (''inputSchema'', schema), (''name'', json_string (tl_Name t))]
           in case tl_Meta t of
                None \<Rightarrow> Inr (json_map rest)
              | Some (Inl e) \<Rightarrow> Inl e
              | Some (Inr meta) \<Rightarrow> Inr (json_map ((''_meta'', meta) # rest))))"

fun all_results :: "'a result list \<Rightarrow> 'a list result" where
  "all_results [] = Inr []"
| "all_results (Inl e # rs) = Inl e"
| "all_results (Inr x # rs) = (case all_results rs of Inl e \<Rightarrow> Inl e | Inr xs \<Rightarrow> Inr (x # xs))"

definition toolSchemas :: "Tool list \<Rightarrow> string result" where
  "toolSchemas tools = map_sum id (\<lambda>vs. json_map [(''tools'', json_array vs)]) (all_results (map tool_schema tools))"

definition toolOK :: "string \<Rightarrow> string" where
  "toolOK t = json_map [(''content'', json_array [json_map [(''text'', json_string t), (''type'', json_string ''text'')]])]"

definition toolError :: "string \<Rightarrow> string" where
  "toolError msg = json_map [(''content'', json_array [json_map [(''text'', json_string msg), (''type'', json_string ''text'')]]),
     (''isError'', ''true'')]"

section \<open>The writer\<close>

text \<open>What \<open>write\<close> is given, and its encoding.\<close>

datatype rpc_frame =
    Notification string "string result"
  | Answer string "string result"
  | Refusal string int string

definition marshal :: "rpc_frame \<Rightarrow> string result" where
  "marshal f =
     (case f of
        Notification meth ps \<Rightarrow>
          map_sum id (\<lambda>p. json_map [(''jsonrpc'', json_string ''2.0''), (''method'', json_string meth), (''params'', p)]) ps
      | Answer i res \<Rightarrow>
          map_sum id (\<lambda>r. json_map [(''id'', json_value (JRaw i)), (''jsonrpc'', json_string ''2.0''), (''result'', r)]) res
      | Refusal i code msg \<Rightarrow>
          Inr (json_map [(''error'', json_map [(''code'', itoa code), (''message'', json_string msg)]), (''id'', json_value (JRaw i)),
            (''jsonrpc'', json_string ''2.0'')]))"

text \<open>
  The output: whether \<open>Serve\<close> has bound it, the bytes written, the number of writes made, and, as
  history, the frames that were handed to \<open>write\<close> with the bytes of each that were written: none
  of a frame that cannot be encoded, a part of one whose write failed. \<open>out_faults n\<close> is the failure of the \<open>n\<close>th write, if it fails, with the
  number of bytes it wrote before.
\<close>

record rpc_out =
  out_bound :: bool
  out_bytes :: string
  out_writes :: nat
  out_log :: "(rpc_frame \<times> string) list"

type_synonym out_faults = "nat \<Rightarrow> (nat \<times> go_error) option"

definition out_Write :: "out_faults \<Rightarrow> string \<Rightarrow> rpc_out \<Rightarrow> unit result \<times> rpc_out" where
  "out_Write flt b o1 =
     (case flt (out_writes o1) of
        None \<Rightarrow> (Inr (), o1\<lparr>out_bytes := out_bytes o1 @ b, out_writes := out_writes o1 + 1\<rparr>)
      | Some (n, e) \<Rightarrow> (Inl e, o1\<lparr>out_bytes := out_bytes o1 @ take n b, out_writes := out_writes o1 + 1\<rparr>))"

definition rpc_send :: "out_faults \<Rightarrow> rpc_frame \<Rightarrow> rpc_out \<Rightarrow> unit result \<times> rpc_out" where
  "rpc_send flt f o1 =
     (case marshal f of
        Inl e \<Rightarrow> (Inl e, o1)
      | Inr b \<Rightarrow>
          if \<not> out_bound o1 then (Inl (ErrText ''channel server is not serving''), o1)
          else (case out_Write flt b o1 of
             (Inl e, o2) \<Rightarrow> (Inl e, o2)
           | (Inr _, o2) \<Rightarrow> out_Write flt [CHR 0x0A] o2))"

text \<open>\<open>write\<close>, with the bytes it added to the output noted in the history.\<close>

definition rpc_write :: "out_faults \<Rightarrow> rpc_frame \<Rightarrow> rpc_out \<Rightarrow> unit result \<times> rpc_out" where
  "rpc_write flt f o1 =
     (case rpc_send flt f o1 of
        (r, o2) \<Rightarrow> (r, o2\<lparr>out_log := out_log o1 @ [(f, drop (length (out_bytes o1)) (out_bytes o2))]\<rparr>))"

definition Notify :: "out_faults \<Rightarrow> string \<Rightarrow> string result \<Rightarrow> rpc_out \<Rightarrow> unit result \<times> rpc_out" where
  "Notify flt meth ps = rpc_write flt (Notification meth ps)"

definition reply :: "out_faults \<Rightarrow> string \<Rightarrow> string result \<Rightarrow> rpc_out \<Rightarrow> rpc_out" where
  "reply flt i res o1 = snd (rpc_write flt (Answer i res) o1)"

definition replyError :: "out_faults \<Rightarrow> string \<Rightarrow> int \<Rightarrow> string \<Rightarrow> rpc_out \<Rightarrow> rpc_out" where
  "replyError flt i code msg o1 = snd (rpc_write flt (Refusal i code msg) o1)"

section \<open>Tool calls\<close>

definition NewServer :: "Tool list \<Rightarrow> string \<Rightarrow> Tool option" where
  "NewServer tools = foldl (\<lambda>tab t. tab(tl_Name t \<mapsto> t)) Map.empty tools"

text \<open>\<open>handleToolCall\<close> up to the handler: an answer, or the handler's tool, arguments and progress token.\<close>

datatype call_start = Refused string | Handle Tool string string

definition handleToolCall :: "rpc_codec \<Rightarrow> Tool list \<Rightarrow> string \<Rightarrow> call_start" where
  "handleToolCall rc tools params =
     (case rc_call rc params of
        Inl msg \<Rightarrow> Refused (toolError (''bad tool arguments: '' @ msg))
      | Inr call \<Rightarrow>
          (let args = (if tk_Arguments call = [] then ''{}'' else tk_Arguments call)
           in case NewServer tools (tk_Name call) of
                None \<Rightarrow> Refused (toolError (''unknown tool: '' @ tk_Name call))
              | Some tool \<Rightarrow> Handle tool args (tk_ProgressToken call)))"

definition handler_result :: "string \<Rightarrow> bool \<Rightarrow> string" where
  "handler_result t isErr = (if isErr then toolError t else toolOK t)"

text \<open>\<open>progressFunc\<close>: nothing without a token, a numbered notification with one.\<close>

definition progressFunc :: "out_faults \<Rightarrow> string \<Rightarrow> nat \<Rightarrow> string \<Rightarrow> rpc_out \<Rightarrow> rpc_out" where
  "progressFunc flt token n msg o1 =
     (if token = [] \<or> token = ''null'' then o1
      else snd (Notify flt ''notifications/progress''
        (Inr (json_map [(''message'', json_string msg), (''progress'', itoa (int n + 1)), (''progressToken'', json_value (JRaw token))])) o1))"

section \<open>The server\<close>

datatype call_state = Spawned string | Running Tool string string nat

record rpc_call =
  cl_id :: string
  cl_state :: call_state

datatype serve_phase = Opening | Reading | Waiting "unit result" | Returned "unit result"

record serving =
  sv_phase :: serve_phase
  sv_lines :: "string list"
  sv_calls :: "rpc_call list"
  sv_out :: rpc_out

record serve_config =
  sc_info :: ServerInfo
  sc_tools :: "Tool list"
  sc_codec :: rpc_codec
  sc_faults :: out_faults
  sc_scan_error :: "go_error option"

text \<open>One iteration of the loop.\<close>

definition serve_request :: "serve_config \<Rightarrow> rpcMessage \<Rightarrow> serving \<Rightarrow> serving" where
  "serve_request c msg st =
     (let flt = sc_faults c; i = rm_ID msg; out = sv_out st
      in if rm_Method msg = ''initialize'' then st\<lparr>sv_out := reply flt i (Inr (initialize_result (sc_info c))) out\<rparr>
         else if rm_Method msg = ''tools/list'' then st\<lparr>sv_out := reply flt i (toolSchemas (sc_tools c)) out\<rparr>
         else if rm_Method msg = ''tools/call'' then st\<lparr>sv_calls := sv_calls st @ [\<lparr>cl_id = i, cl_state = Spawned (rm_Params msg)\<rparr>]\<rparr>
         else if rm_Method msg = ''ping'' then st\<lparr>sv_out := reply flt i (Inr (json_map [])) out\<rparr>
         else st\<lparr>sv_out := replyError flt i (- 32601) (''method not found: '' @ rm_Method msg) out\<rparr>)"

definition request_of :: "rpc_codec \<Rightarrow> string \<Rightarrow> rpcMessage option" where
  "request_of rc line =
     (if line = [] then None
      else case rc_message rc line of Inl _ \<Rightarrow> None | Inr msg \<Rightarrow> if rm_ID msg = [] then None else Some msg)"

definition serve_line :: "serve_config \<Rightarrow> string \<Rightarrow> serving \<Rightarrow> serving" where
  "serve_line c line st = (case request_of (sc_codec c) line of None \<Rightarrow> st | Some msg \<Rightarrow> serve_request c msg st)"

definition serve_open :: "serve_config \<Rightarrow> serving \<Rightarrow> serving" where
  "serve_open c st =
     (if si_Resumed (sc_info c) then
        (case Notify (sc_faults c) ''notifications/tools/list_changed'' (Inr (json_map [])) (sv_out st) of
           (Inl e, out) \<Rightarrow> st\<lparr>sv_out := out, sv_phase := Waiting (Inl e)\<rparr>
         | (Inr _, out) \<Rightarrow> st\<lparr>sv_out := out, sv_phase := Reading\<rparr>)
      else st\<lparr>sv_phase := Reading\<rparr>)"

definition remove_at :: "nat \<Rightarrow> 'a list \<Rightarrow> 'a list" where
  "remove_at n xs = take n xs @ drop (Suc n) xs"

definition call_begin :: "serve_config \<Rightarrow> nat \<Rightarrow> string \<Rightarrow> serving \<Rightarrow> serving" where
  "call_begin c n params st =
     (let i = cl_id (sv_calls st ! n)
      in case handleToolCall (sc_codec c) (sc_tools c) params of
           Refused res \<Rightarrow> st\<lparr>sv_out := reply (sc_faults c) i (Inr res) (sv_out st), sv_calls := remove_at n (sv_calls st)\<rparr>
         | Handle tool args token \<Rightarrow> st\<lparr>sv_calls := (sv_calls st)[n := \<lparr>cl_id = i, cl_state = Running tool args token 0\<rparr>]\<rparr>)"

definition call_end :: "serve_config \<Rightarrow> nat \<Rightarrow> string \<Rightarrow> bool \<Rightarrow> serving \<Rightarrow> serving" where
  "call_end c n t isErr st =
     st\<lparr>sv_out := reply (sc_faults c) (cl_id (sv_calls st ! n)) (Inr (handler_result t isErr)) (sv_out st),
        sv_calls := remove_at n (sv_calls st)\<rparr>"

definition call_progress :: "serve_config \<Rightarrow> nat \<Rightarrow> Tool \<Rightarrow> string \<Rightarrow> string \<Rightarrow> nat \<Rightarrow> string \<Rightarrow> serving \<Rightarrow> serving" where
  "call_progress c n tool args token k msg st =
     st\<lparr>sv_out := progressFunc (sc_faults c) token k msg (sv_out st),
        sv_calls := (sv_calls st)[n := (sv_calls st ! n)\<lparr>cl_state := Running tool args token (k + 1)\<rparr>]\<rparr>"

text \<open>The parameters of a pushed notification are an output of \<open>json.Marshal\<close>, which is one line.\<close>

inductive serve_step :: "serve_config \<Rightarrow> serving \<Rightarrow> serving \<Rightarrow> bool" for c where
  opens: "sv_phase st = Opening \<Longrightarrow> serve_step c st (serve_open c st)"
| reads: "sv_phase st = Reading \<Longrightarrow> sv_lines st = l # ls \<Longrightarrow> serve_step c st (serve_line c l (st\<lparr>sv_lines := ls\<rparr>))"
| scanned: "sv_phase st = Reading \<Longrightarrow> sv_lines st = [] \<Longrightarrow>
    serve_step c st (st\<lparr>sv_phase := Waiting (case sc_scan_error c of None \<Rightarrow> Inr () | Some e \<Rightarrow> Inl e)\<rparr>)"
| begins: "n < length (sv_calls st) \<Longrightarrow> cl_state (sv_calls st ! n) = Spawned params \<Longrightarrow> serve_step c st (call_begin c n params st)"
| progresses: "n < length (sv_calls st) \<Longrightarrow> cl_state (sv_calls st ! n) = Running tool args token k \<Longrightarrow>
    serve_step c st (call_progress c n tool args token k msg st)"
| ends: "n < length (sv_calls st) \<Longrightarrow> cl_state (sv_calls st ! n) = Running tool args token k \<Longrightarrow>
    serve_step c st (call_end c n t isErr st)"
| pushes: "(\<And>p. ps = Inr p \<Longrightarrow> one_line p) \<Longrightarrow> serve_step c st (st\<lparr>sv_out := snd (Notify (sc_faults c) meth ps (sv_out st))\<rparr>)"
| returns: "sv_phase st = Waiting r \<Longrightarrow> sv_calls st = [] \<Longrightarrow> serve_step c st (st\<lparr>sv_phase := Returned r\<rparr>)"

text \<open>\<open>Serve\<close> over the bytes of its input, which end or fail with an error of the reader.\<close>

definition Serve_config :: "ServerInfo \<Rightarrow> Tool list \<Rightarrow> rpc_codec \<Rightarrow> out_faults \<Rightarrow> string \<Rightarrow> go_error option \<Rightarrow> serve_config" where
  "Serve_config info tools rc flt input readErr = \<lparr>sc_info = info, sc_tools = tools, sc_codec = rc, sc_faults = flt,
     sc_scan_error = (if snd (scan_lines input) then Some (ErrText ''bufio.Scanner: token too long'') else readErr)\<rparr>"

definition Serve :: "string \<Rightarrow> serving" where
  "Serve input = \<lparr>sv_phase = Opening, sv_lines = fst (scan_lines input), sv_calls = [],
     sv_out = \<lparr>out_bound = True, out_bytes = [], out_writes = 0, out_log = []\<rparr>\<rparr>"

section \<open>Every request is answered once\<close>

definition reply_ids :: "rpc_frame list \<Rightarrow> string list" where
  "reply_ids fs = List.map_filter (\<lambda>f. case f of Notification _ _ \<Rightarrow> None | Answer i _ \<Rightarrow> Some i | Refusal i _ _ \<Rightarrow> Some i) fs"

definition request_ids :: "rpc_codec \<Rightarrow> string list \<Rightarrow> string list" where
  "request_ids rc ls = map rm_ID (List.map_filter (request_of rc) ls)"

lemma reply_ids_simps [simp]:
  "reply_ids [] = []" "reply_ids (xs @ ys) = reply_ids xs @ reply_ids ys" "reply_ids [Notification meth ps] = []"
  "reply_ids [Answer i r] = [i]" "reply_ids [Refusal i k m] = [i]"
  by (simp_all add: reply_ids_def List.map_filter_def)

lemma request_ids_simps [simp]:
  "request_ids rc [] = []"
  "request_ids rc (l # ls) = (case request_of rc l of None \<Rightarrow> request_ids rc ls | Some msg \<Rightarrow> rm_ID msg # request_ids rc ls)"
  by (simp_all add: request_ids_def List.map_filter_def split: option.split)

definition out_frames :: "rpc_out \<Rightarrow> rpc_frame list" where
  "out_frames out = map fst (out_log out)"

lemma rpc_write_frames [simp]: "out_frames (snd (rpc_write flt f out)) = out_frames out @ [f]"
  by (simp add: out_frames_def rpc_write_def split: prod.split)

lemma reply_frames [simp]:
  "out_frames (reply flt i r out) = out_frames out @ [Answer i r]"
  "out_frames (replyError flt i k m out) = out_frames out @ [Refusal i k m]"
  "out_frames (snd (Notify flt meth ps out)) = out_frames out @ [Notification meth ps]"
  by (simp_all add: reply_def replyError_def Notify_def)

lemma progress_ids [simp]: "reply_ids (out_frames (progressFunc flt token n msg out)) = reply_ids (out_frames out)"
  by (simp add: progressFunc_def)

lemma mset_remove_at: "n < length xs \<Longrightarrow> mset xs = add_mset (xs ! n) (mset (remove_at n xs))"
  unfolding remove_at_def by (subst id_take_nth_drop [of n xs]) auto

lemma map_remove_at: "map f (remove_at n xs) = remove_at n (map f xs)"
  by (simp add: remove_at_def take_map drop_map)

lemma map_update_same: "n < length xs \<Longrightarrow> f y = f (xs ! n) \<Longrightarrow> map f (xs[n := y]) = map f xs"
  by (simp add: map_update list_update_same_conv)

text \<open>The ledger of the requests: given to the writer, in flight, not yet read.\<close>

definition ledger :: "rpc_codec \<Rightarrow> serving \<Rightarrow> string multiset" where
  "ledger rc st = mset (reply_ids (out_frames (sv_out st))) + mset (map cl_id (sv_calls st)) + mset (request_ids rc (sv_lines st))"

lemma ledger_line: "ledger (sc_codec c) (serve_line c l (st\<lparr>sv_lines := ls\<rparr>)) =
    ledger (sc_codec c) (st\<lparr>sv_lines := l # ls\<rparr>)"
  by (auto simp: serve_line_def serve_request_def ledger_def Let_def split: option.split)

lemma ledger_removed:
  assumes "n < length (sv_calls st)" and "reply_ids (out_frames out) = reply_ids (out_frames (sv_out st)) @ [cl_id (sv_calls st ! n)]"
  shows "ledger rc (st\<lparr>sv_out := out, sv_calls := remove_at n (sv_calls st)\<rparr>) = ledger rc st"
  using assms mset_remove_at [of n "map cl_id (sv_calls st)"] by (simp add: ledger_def map_remove_at)

lemma ledger_updated:
  assumes "n < length (sv_calls st)" and "reply_ids (out_frames out) = reply_ids (out_frames (sv_out st))"
    and "cl_id y = cl_id (sv_calls st ! n)"
  shows "ledger rc (st\<lparr>sv_out := out, sv_calls := (sv_calls st)[n := y]\<rparr>) = ledger rc st"
  using assms by (simp add: ledger_def map_update_same)

lemma ledger_step: "serve_step c st st' \<Longrightarrow> ledger (sc_codec c) st' = ledger (sc_codec c) st"
proof (induction rule: serve_step.induct)
  case (opens st)
  have "out_frames out = out_frames (sv_out st) @ [Notification ''notifications/tools/list_changed'' (Inr (json_map []))]"
    if "Notify (sc_faults c) ''notifications/tools/list_changed'' (Inr (json_map [])) (sv_out st) = (r, out)" for r out
    using reply_frames(3) [of "sc_faults c" "''notifications/tools/list_changed''" "Inr (json_map [])" "sv_out st"] that by simp
  then show ?case by (auto simp: serve_open_def ledger_def split: prod.split sum.split)
next
  case (reads st l ls)
  then have "st\<lparr>sv_lines := l # ls\<rparr> = st" by simp
  then show ?case by (simp only: ledger_line)
next
  case (begins n st params)
  then show ?case
    using ledger_removed [OF begins(1)] ledger_updated [OF begins(1), of "sv_out st"]
    by (auto simp: call_begin_def Let_def split: call_start.split)
next
  case (progresses n st tool args token k msg)
  then show ?case using ledger_updated [OF progresses(1)] by (simp add: call_progress_def)
next
  case (ends n st tool args token k t isErr)
  then show ?case using ledger_removed [OF ends(1)] by (simp add: call_end_def)
qed (simp_all add: ledger_def)

section \<open>One frame per line\<close>

definition frame_line :: "rpc_frame \<Rightarrow> string" where
  "frame_line f = (case marshal f of Inl _ \<Rightarrow> [] | Inr b \<Rightarrow> b @ [CHR 0x0A])"

definition frame_ok :: "rpc_frame \<Rightarrow> bool" where
  "frame_ok f = (case marshal f of Inl _ \<Rightarrow> True | Inr b \<Rightarrow> one_line b)"

lemma json_map_one_line: "(\<And>k v. (k, v) \<in> set kvs \<Longrightarrow> one_line v) \<Longrightarrow> one_line (json_map kvs)"
  by (auto simp: json_map_def intro!: intersperse_one_line)

lemma json_array_one_line: "(\<And>v. v \<in> set vs \<Longrightarrow> one_line v) \<Longrightarrow> one_line (json_array vs)"
  by (auto simp: json_array_def intro!: intersperse_one_line)

lemmas encoded_one_line = json_map_one_line json_array_one_line

text \<open>
  What the encoding relies on: a raw message taken out of valid JSON has its line breaks outside
  of strings, and the values the consumer supplies are encoded on one line.
\<close>

definition rpc_laws :: "rpc_codec \<Rightarrow> bool" where
  "rpc_laws rc \<longleftrightarrow> (\<forall>l msg. rc_message rc l = Inr msg \<longrightarrow> json_ok (JRaw (rm_ID msg))) \<and>
     (\<forall>p call. rc_call rc p = Inr call \<longrightarrow> json_ok (JRaw (tk_ProgressToken call)))"

definition tools_ok :: "Tool list \<Rightarrow> bool" where
  "tools_ok tools \<longleftrightarrow> (\<forall>t \<in> set tools. \<forall>b. (tl_InputSchema t = Inr b \<longrightarrow> one_line b) \<and> (tl_Meta t = Some (Inr b) \<longrightarrow> one_line b))"

definition call_ok :: "rpc_call \<Rightarrow> bool" where
  "call_ok k \<longleftrightarrow> json_ok (JRaw (cl_id k)) \<and>
     (\<forall>tool args token n. cl_state k = Running tool args token n \<longrightarrow> json_ok (JRaw token))"

text \<open>The output is what was written of its frames: of each a prefix of its line, and all of it unless a write fails.\<close>

definition out_ok :: "out_faults \<Rightarrow> rpc_out \<Rightarrow> bool" where
  "out_ok flt out \<longleftrightarrow> out_bound out \<and> list_all frame_ok (out_frames out) \<and> out_bytes out = concat (map snd (out_log out)) \<and>
     (\<forall>(f, b) \<in> set (out_log out). prefix b (frame_line f) \<and> ((\<forall>n. flt n = None) \<longrightarrow> b = frame_line f))"

text \<open>The frames that reached the output in full, with their line feed.\<close>

definition written :: "rpc_out \<Rightarrow> rpc_frame list" where
  "written out = map fst (filter (\<lambda>(f, b). b \<noteq> [] \<and> b = frame_line f) (out_log out))"

text \<open>The answers that can be encoded: all of them, if the schemas and the metadata of the tools can.\<close>

definition encodable :: "Tool list \<Rightarrow> bool" where
  "encodable tools \<longleftrightarrow> list_all (\<lambda>t. \<not> isl (tl_InputSchema t) \<and> (case tl_Meta t of None \<Rightarrow> True | Some m \<Rightarrow> \<not> isl m)) tools"

definition answer_ok :: "rpc_frame \<Rightarrow> bool" where
  "answer_ok f = (case f of Answer i r \<Rightarrow> \<not> isl r | _ \<Rightarrow> True)"

lemma rpc_send_bytes:
  "\<exists>b. out_bytes (snd (rpc_send flt f o1)) = out_bytes o1 @ b \<and> out_bound (snd (rpc_send flt f o1)) = out_bound o1 \<and>
     prefix b (frame_line f) \<and> (out_bound o1 \<and> (\<forall>n. flt n = None) \<longrightarrow> b = frame_line f)"
proof (cases "marshal f")
  case (Inl e)
  then show ?thesis by (simp add: rpc_send_def frame_line_def)
next
  case (Inr m)
  have "prefix (take n m) (m @ [CHR 0x0A])" for n using take_is_prefix by (rule prefix_prefix)
  moreover have "prefix (m @ take n [CHR 0x0A]) (m @ [CHR 0x0A])" for n by (cases n) simp_all
  ultimately show ?thesis using Inr
    by (auto simp: rpc_send_def frame_line_def out_Write_def split: option.split)
qed

lemma rpc_write_log:
  "\<exists>b. out_log (snd (rpc_write flt f o1)) = out_log o1 @ [(f, b)] \<and> out_bytes (snd (rpc_write flt f o1)) = out_bytes o1 @ b \<and>
     out_bound (snd (rpc_write flt f o1)) = out_bound o1 \<and>
     prefix b (frame_line f) \<and> (out_bound o1 \<and> (\<forall>n. flt n = None) \<longrightarrow> b = frame_line f)"
proof -
  obtain r o2 where o2: "rpc_send flt f o1 = (r, o2)" by fastforce
  show ?thesis using rpc_send_bytes [of flt f o1] o2 by (auto simp: rpc_write_def)
qed

definition wire_ok :: "serve_config \<Rightarrow> serving \<Rightarrow> bool" where
  "wire_ok c st \<longleftrightarrow> out_ok (sc_faults c) (sv_out st) \<and> list_all call_ok (sv_calls st)"

lemma all_results_in: "all_results rs = Inr xs \<Longrightarrow> x \<in> set xs \<Longrightarrow> Inr x \<in> set rs"
  by (induction rs arbitrary: xs rule: all_results.induct) (auto split: sum.splits)

lemma tool_schema_one_line: "tools_ok tools \<Longrightarrow> t \<in> set tools \<Longrightarrow> tool_schema t = Inr b \<Longrightarrow> one_line b"
  by (auto simp: tool_schema_def tools_ok_def Let_def intro!: encoded_one_line split: sum.splits option.splits)

lemma frame_ok_Notification: "(\<And>p. ps = Inr p \<Longrightarrow> one_line p) \<Longrightarrow> frame_ok (Notification meth ps)"
  by (cases ps) (auto simp: frame_ok_def marshal_def intro!: encoded_one_line)

lemma frame_ok_Refusal: "json_ok (JRaw i) \<Longrightarrow> frame_ok (Refusal i k m)"
  by (auto simp: frame_ok_def marshal_def json_value_one_line simp del: json_value.simps intro!: encoded_one_line)

lemma frame_ok_Answer: "json_ok (JRaw i) \<Longrightarrow> (\<And>b. r = Inr b \<Longrightarrow> one_line b) \<Longrightarrow> frame_ok (Answer i r)"
  by (cases r) (auto simp: frame_ok_def marshal_def json_value_one_line simp del: json_value.simps intro!: encoded_one_line)

lemma results_one_line:
  "one_line (toolOK t)" "one_line (toolError t)" "one_line (handler_result t isErr)" "one_line (initialize_result info)"
  "one_line (json_map [])"
  by (auto simp: toolOK_def toolError_def handler_result_def initialize_result_def intro!: encoded_one_line)

lemma toolSchemas_one_line: "tools_ok tools \<Longrightarrow> toolSchemas tools = Inr b \<Longrightarrow> one_line b"
proof -
  assume ok: "tools_ok tools" and "toolSchemas tools = Inr b"
  then obtain vs where vs: "all_results (map tool_schema tools) = Inr vs" and b: "b = json_map [(''tools'', json_array vs)]"
    by (cases "all_results (map tool_schema tools)") (auto simp: toolSchemas_def)
  have "one_line v" if "v \<in> set vs" for v
    using all_results_in [OF vs that] tool_schema_one_line [OF ok] by (metis imageE list.set_map)
  then show "one_line b" unfolding b by (auto intro!: encoded_one_line)
qed

lemma refused_one_line: "handleToolCall rc tools params = Refused res \<Longrightarrow> one_line res"
  by (auto simp: handleToolCall_def Let_def results_one_line split: sum.splits option.splits)

lemma handle_token_ok: "rpc_laws rc \<Longrightarrow> handleToolCall rc tools params = Handle tool args token \<Longrightarrow> json_ok (JRaw token)"
  by (auto simp: handleToolCall_def rpc_laws_def Let_def split: sum.splits option.splits)

lemma out_ok_write: "out_ok flt out \<Longrightarrow> frame_ok f \<Longrightarrow> out_ok flt (snd (rpc_write flt f out))"
  using rpc_write_log [of flt f out] by (auto simp: out_ok_def out_frames_def)

lemma out_ok_progress: "out_ok flt out \<Longrightarrow> json_ok (JRaw token) \<Longrightarrow> out_ok flt (progressFunc flt token n msg out)"
  by (auto simp: progressFunc_def Notify_def json_value_one_line simp del: json_value.simps
    intro!: out_ok_write frame_ok_Notification encoded_one_line)

lemmas out_ok_replies = out_ok_write [OF _ frame_ok_Answer, folded reply_def] out_ok_write [OF _ frame_ok_Refusal, folded replyError_def]
  out_ok_write [OF _ frame_ok_Notification, folded Notify_def]

lemma call_ok_remove: "list_all call_ok ks \<Longrightarrow> list_all call_ok (remove_at n ks)"
  unfolding remove_at_def list_all_iff by (auto dest: in_set_takeD in_set_dropD)

lemma call_ok_update: "list_all call_ok ks \<Longrightarrow> call_ok k \<Longrightarrow> list_all call_ok (ks[n := k])"
  unfolding list_all_iff using set_update_subset_insert [of ks n k] by blast

lemma wire_request:
  assumes "wire_ok c st" and "tools_ok (sc_tools c)" and "json_ok (JRaw (rm_ID msg))"
  shows "wire_ok c (serve_request c msg st)"
  using assms toolSchemas_one_line [OF assms(2)]
  by (auto simp: serve_request_def wire_ok_def Let_def call_ok_def results_one_line intro!: out_ok_replies)

lemma wire_step:
  assumes "rpc_laws (sc_codec c)" and "tools_ok (sc_tools c)"
  shows "serve_step c st st' \<Longrightarrow> wire_ok c st \<Longrightarrow> wire_ok c st'"
proof (induction rule: serve_step.induct)
  case (opens st)
  have "out_ok (sc_faults c) (snd (Notify (sc_faults c) ''notifications/tools/list_changed'' (Inr (json_map [])) (sv_out st)))"
    using opens by (auto simp: wire_ok_def results_one_line intro!: out_ok_replies)
  then show ?case using opens by (auto simp: serve_open_def wire_ok_def split: prod.split sum.split)
next
  case (reads st l ls)
  have "json_ok (JRaw (rm_ID msg))" if "request_of (sc_codec c) l = Some msg" for msg
    using that assms(1) by (auto simp: request_of_def rpc_laws_def split: if_splits sum.splits)
  then show ?case using wire_request [of c "st\<lparr>sv_lines := ls\<rparr>"] reads assms(2)
    by (auto simp: serve_line_def wire_ok_def split: option.split)
next
  case (begins n st params)
  then have "json_ok (JRaw (cl_id (sv_calls st ! n)))" by (auto simp: wire_ok_def list_all_length call_ok_def)
  then show ?case using begins refused_one_line handle_token_ok [OF assms(1)]
    by (auto simp: call_begin_def wire_ok_def Let_def call_ok_def intro!: out_ok_replies call_ok_remove call_ok_update split: call_start.split)
next
  case (progresses n st tool args token k msg)
  then have "call_ok (sv_calls st ! n)" by (auto simp: wire_ok_def list_all_length)
  then show ?case using progresses
    by (auto simp: call_progress_def wire_ok_def call_ok_def intro!: out_ok_progress call_ok_update)
next
  case (ends n st tool args token k t isErr)
  then have "call_ok (sv_calls st ! n)" by (auto simp: wire_ok_def list_all_length)
  then show ?case using ends
    by (auto simp: call_end_def wire_ok_def call_ok_def results_one_line intro!: out_ok_replies call_ok_remove)
next
  case (pushes ps st meth)
  then show ?case by (auto simp: wire_ok_def intro!: out_ok_replies)
qed (simp_all add: wire_ok_def)

section \<open>Every answer can be encoded\<close>

definition answers_ok :: "serving \<Rightarrow> bool" where
  "answers_ok st \<longleftrightarrow> list_all answer_ok (out_frames (sv_out st))"

lemma schemas_encode: "encodable tools \<Longrightarrow> \<not> isl (toolSchemas tools)"
proof -
  assume "encodable tools"
  then have "\<exists>b. tool_schema t = Inr b" if "t \<in> set tools" for t
    using that by (cases "tl_InputSchema t"; cases "tl_Meta t"; cases "the (tl_Meta t)")
      (fastforce simp: encodable_def list_all_iff tool_schema_def)+
  then have "\<exists>vs. all_results (map tool_schema tools) = Inr vs" by (induction tools) fastforce+
  then show ?thesis by (auto simp: toolSchemas_def)
qed

lemma answers_step: "serve_step c st st' \<Longrightarrow> encodable (sc_tools c) \<Longrightarrow> answers_ok st \<Longrightarrow> answers_ok st'"
proof (induction rule: serve_step.induct)
  case (opens st)
  have "out_frames out = out_frames (sv_out st) @ [Notification ''notifications/tools/list_changed'' (Inr (json_map []))]"
    if "Notify (sc_faults c) ''notifications/tools/list_changed'' (Inr (json_map [])) (sv_out st) = (r, out)" for r out
    using reply_frames(3) [of "sc_faults c" "''notifications/tools/list_changed''" "Inr (json_map [])" "sv_out st"] that by simp
  then show ?case using opens by (auto simp: serve_open_def answers_ok_def answer_ok_def split: prod.split sum.split)
next
  case (reads st l ls)
  then show ?case using schemas_encode
    by (auto simp: serve_line_def serve_request_def answers_ok_def answer_ok_def Let_def split: option.split)
qed (auto simp: call_begin_def call_progress_def call_end_def progressFunc_def answers_ok_def answer_ok_def Let_def split: call_start.split)

section \<open>What was written\<close>

fun frame_id :: "rpc_frame \<Rightarrow> string list" where
  "frame_id (Notification _ _) = []"
| "frame_id (Answer i _) = [i]"
| "frame_id (Refusal i _ _) = [i]"

lemma reply_ids_concat: "reply_ids fs = concat (map frame_id fs)"
  by (induction fs) (auto simp: reply_ids_def List.map_filter_def split: rpc_frame.split)

lemma reply_ids_sub: "mset (reply_ids (map fst (filter P log))) \<subseteq># mset (reply_ids (map fst log))"
  unfolding reply_ids_concat
  by (induction log) (auto simp: subset_mset.add_increasing intro: subset_mset.add_left_mono)

text \<open>Nothing is written twice, and everything is when no write fails and every answer encodes.\<close>

lemma written_once: "mset (reply_ids (written out)) \<subseteq># mset (reply_ids (out_frames out))"
  unfolding written_def out_frames_def by (rule reply_ids_sub)

lemma written_all:
  assumes "out_ok flt out" and "\<forall>n. flt n = None" and "list_all answer_ok (out_frames out)"
  shows "reply_ids (written out) = reply_ids (out_frames out)"
proof -
  have "frame_line f \<noteq> [] \<or> frame_id f = []" if "answer_ok f" for f
  proof (cases f)
    case (Answer i r)
    then show ?thesis using that by (cases r) (simp_all add: answer_ok_def frame_line_def marshal_def)
  qed (simp_all add: frame_line_def marshal_def)
  moreover have "\<forall>(f, b) \<in> set (out_log out). b = frame_line f \<and> answer_ok f"
    using assms by (auto simp: out_ok_def list_all_iff out_frames_def)
  ultimately have all: "\<forall>x \<in> set (out_log out). (case x of (f, b) \<Rightarrow> b \<noteq> [] \<and> b = frame_line f) \<or> frame_id (fst x) = []" by fastforce
  have drop: "concat (map frame_id (map fst (filter P log))) = concat (map frame_id (map fst log))"
    if "\<forall>x \<in> set log. P x \<or> frame_id (fst x) = []" for P and log :: "(rpc_frame \<times> string) list"
    using that by (induction log) auto
  show ?thesis unfolding written_def out_frames_def reply_ids_concat by (rule drop [OF all])
qed

section \<open>Every schedule can be completed\<close>

fun phase_left :: "serve_phase \<Rightarrow> nat" where
  "phase_left Opening = 3"
| "phase_left Reading = 2"
| "phase_left (Waiting r) = 1"
| "phase_left (Returned r) = 0"

definition call_left :: "rpc_call \<Rightarrow> nat" where
  "call_left k = (case cl_state k of Spawned _ \<Rightarrow> 2 | Running _ _ _ _ \<Rightarrow> 1)"

definition work_left :: "serving \<Rightarrow> nat" where
  "work_left st = phase_left (sv_phase st) + 3 * length (sv_lines st) + sum_list (map call_left (sv_calls st))"

lemma sum_list_remove_at: "n < length ks \<Longrightarrow> sum_list (map f ks) = f (ks ! n) + sum_list (map f (remove_at n ks :: 'a list))"
  for f :: "'a \<Rightarrow> nat"
  unfolding remove_at_def by (subst id_take_nth_drop [of n ks]) auto

lemma serve_line_left: "work_left (serve_line c l (st\<lparr>sv_lines := ls\<rparr>)) \<le> work_left (st\<lparr>sv_lines := ls\<rparr>) + 2"
  by (auto simp: serve_line_def serve_request_def work_left_def call_left_def Let_def split: option.split)

lemma serve_progress: "\<forall>r. sv_phase st \<noteq> Returned r \<Longrightarrow> \<exists>st'. serve_step c st st' \<and> work_left st' < work_left st"
proof (cases "sv_calls st")
  case (Cons k ks)
  then have n: "0 < length (sv_calls st)" by simp
  show ?thesis
  proof (cases "cl_state k")
    case (Spawned params)
    have "work_left (call_begin c 0 params st) < work_left st"
      using Cons Spawned by (auto simp: call_begin_def work_left_def call_left_def remove_at_def Let_def split: call_start.split)
    then show ?thesis using serve_step.begins [OF n, of params c] Cons Spawned by auto
  next
    case (Running tool args token m)
    have "work_left (call_end c 0 [] False st) < work_left st"
      using Cons Running by (auto simp: call_end_def work_left_def call_left_def remove_at_def)
    then show ?thesis using serve_step.ends [OF n, of tool args token m c "[]" False] Cons Running by auto
  qed
next
  case Nil
  assume left: "\<forall>r. sv_phase st \<noteq> Returned r"
  show ?thesis
  proof (cases "sv_phase st")
    case Opening
    then have "work_left (serve_open c st) < work_left st"
      by (auto simp: serve_open_def work_left_def split: prod.split sum.split)
    then show ?thesis using serve_step.opens [OF Opening] by blast
  next
    case Reading
    show ?thesis
    proof (cases "sv_lines st")
      case Nil
      show ?thesis by (intro exI conjI, rule serve_step.scanned [OF Reading Nil]) (simp add: work_left_def Reading)
    next
      case (Cons l ls)
      have "work_left (st\<lparr>sv_lines := ls\<rparr>) + 3 = work_left st" by (simp add: work_left_def Cons)
      then have "work_left (serve_line c l (st\<lparr>sv_lines := ls\<rparr>)) < work_left st"
        using serve_line_left [of c l ls st] by linarith
      then show ?thesis using serve_step.reads [OF Reading Cons] by blast
    qed
  next
    case (Waiting r)
    show ?thesis by (intro exI conjI, rule serve_step.returns [OF Waiting Nil]) (simp add: work_left_def Waiting)
  qed (use left in simp)
qed

lemma serve_completes: "\<exists>st' r. (serve_step c)\<^sup>*\<^sup>* st st' \<and> sv_phase st' = Returned r"
proof (induction "work_left st" arbitrary: st rule: less_induct)
  case less
  show ?case
  proof (cases "\<exists>r. sv_phase st = Returned r")
    case False
    then obtain st' where st': "serve_step c st st'" "work_left st' < work_left st" using serve_progress by blast
    from less [OF st'(2)] st'(1) show ?thesis by (meson converse_rtranclp_into_rtranclp)
  qed blast
qed

section \<open>The contract of Serve\<close>

definition announced :: "serve_config \<Rightarrow> bool" where
  "announced c \<longleftrightarrow> \<not> si_Resumed (sc_info c) \<or> (\<forall>n. sc_faults c n = None)"

definition phase_ok :: "serve_config \<Rightarrow> serving \<Rightarrow> bool" where
  "phase_ok c st \<longleftrightarrow>
     (case sv_phase st of
        Waiting r \<Rightarrow> sv_lines st = [] \<and> r = (case sc_scan_error c of None \<Rightarrow> Inr () | Some e \<Rightarrow> Inl e)
      | Returned r \<Rightarrow> sv_lines st = [] \<and> sv_calls st = [] \<and> r = (case sc_scan_error c of None \<Rightarrow> Inr () | Some e \<Rightarrow> Inl e)
      | _ \<Rightarrow> True)"

lemma open_announced: "announced c \<Longrightarrow> out_bound (sv_out st) \<Longrightarrow> sv_phase (serve_open c st) = Reading"
  by (auto simp: serve_open_def announced_def Notify_def rpc_write_def rpc_send_def out_Write_def marshal_def Let_def split: prod.split sum.split)

lemma serve_line_sel [simp]: "sv_phase (serve_line c l st) = sv_phase st" "sv_lines (serve_line c l st) = sv_lines st"
  by (simp_all add: serve_line_def serve_request_def Let_def split: option.split)

lemma phase_step: "serve_step c st st' \<Longrightarrow> announced c \<Longrightarrow> wire_ok c st \<Longrightarrow> phase_ok c st \<Longrightarrow> phase_ok c st'"
proof (induction rule: serve_step.induct)
  case (opens st)
  then show ?case using open_announced [of c st] by (simp add: phase_ok_def wire_ok_def out_ok_def)
qed (auto simp: phase_ok_def call_begin_def call_progress_def call_end_def remove_at_def Let_def split: serve_phase.splits call_start.split)

definition serve_inv :: "serve_config \<Rightarrow> string multiset \<Rightarrow> serving \<Rightarrow> bool" where
  "serve_inv c reqs st \<longleftrightarrow>
     (rpc_laws (sc_codec c) \<and> tools_ok (sc_tools c) \<and> announced c \<longrightarrow> wire_ok c st \<and> phase_ok c st) \<and>
     (encodable (sc_tools c) \<longrightarrow> answers_ok st) \<and> ledger (sc_codec c) st = reqs"

interpretation mcp: invariant_of "\<lambda>st. st = Serve input" "serve_step c" "serve_inv c (mset (request_ids (sc_codec c) (fst (scan_lines input))))"
  for input c
proof unfold_locales
  fix st assume "st = Serve input"
  then show "serve_inv c (mset (request_ids (sc_codec c) (fst (scan_lines input)))) st"
    by (simp add: serve_inv_def Serve_def wire_ok_def out_ok_def phase_ok_def ledger_def answers_ok_def out_frames_def)
next
  fix st st' assume "serve_inv c (mset (request_ids (sc_codec c) (fst (scan_lines input)))) st" "serve_step c st st'"
  then show "serve_inv c (mset (request_ids (sc_codec c) (fst (scan_lines input)))) st'"
    unfolding serve_inv_def using ledger_step wire_step phase_step answers_step by simp
qed

text \<open>
  C29: Every request gets exactly one answer. Over any interleaving of the loop, the tool calls and
  pushed notifications, and whichever writes fail, each identifier a client sent has been handed
  to the writer, is in a call in flight or in a line not yet read, as often as it was sent; the
  output is made of what was written of each frame, a prefix of its one line. So no request is
  answered more often than it was sent: the answers counted are those whose whole line is in the
  output, not those handed to a writer that drops them. When \<open>Serve\<close> has returned nothing is in flight
  or unread and nothing writes to the output any more but the consumer; and if no write failed
  and the schemas and metadata of the tools can be encoded, the output holds an answer to every
  request, exactly as often as it was sent. From every state some completion of the handlers
  makes \<open>Serve\<close> return.
\<close>

theorem serve_answers_once:
  assumes "rpc_laws rc" and "tools_ok tools" and "\<not> si_Resumed info \<or> (\<forall>n. flt n = None)"
    and "c = Serve_config info tools rc flt input err"
    and "reach (\<lambda>st. st = Serve input) (serve_step c) st"
  shows "mset (reply_ids (out_frames (sv_out st))) + mset (map cl_id (sv_calls st)) + mset (request_ids rc (sv_lines st)) =
      mset (request_ids rc (fst (scan_lines input))) \<and>
    out_bytes (sv_out st) = concat (map snd (out_log (sv_out st))) \<and>
    (\<forall>(f, b) \<in> set (out_log (sv_out st)). prefix b (frame_line f) \<and> CHR 0x0A \<notin> set (butlast (frame_line f))) \<and>
    mset (reply_ids (written (sv_out st))) \<subseteq># mset (request_ids rc (fst (scan_lines input))) \<and>
    (\<forall>r. sv_phase st = Returned r \<longrightarrow> sv_calls st = [] \<and> sv_lines st = [] \<and> (r = Inr () \<longleftrightarrow> err = None \<and> \<not> snd (scan_lines input)) \<and>
      ((\<forall>n. flt n = None) \<and> encodable tools \<longrightarrow>
         mset (reply_ids (written (sv_out st))) = mset (request_ids rc (fst (scan_lines input))))) \<and>
    (\<exists>st' r. (serve_step c)\<^sup>*\<^sup>* st st' \<and> sv_phase st' = Returned r)"
proof -
  let ?out = "sv_out st" and ?reqs = "mset (request_ids rc (fst (scan_lines input)))"
  have "serve_inv c (mset (request_ids (sc_codec c) (fst (scan_lines input)))) st" using assms(5) by (rule mcp.reachable_inv)
  then have w: "wire_ok c st" and p: "phase_ok c st" and l: "ledger rc st = ?reqs" and a: "encodable tools \<Longrightarrow> answers_ok st"
    using assms(1-4) by (simp_all add: serve_inv_def Serve_config_def announced_def)
  have flt: "sc_faults c = flt" "sc_scan_error c = None \<longleftrightarrow> err = None \<and> \<not> snd (scan_lines input)"
    by (simp_all add: assms(4) Serve_config_def)
  have "CHR 0x0A \<notin> set (butlast (frame_line f))" if "frame_ok f" for f
    using that by (auto simp: frame_ok_def frame_line_def one_line_def split: sum.splits)
  then have lines: "\<forall>(f, b) \<in> set (out_log ?out). prefix b (frame_line f) \<and> CHR 0x0A \<notin> set (butlast (frame_line f))"
    using w by (fastforce simp: wire_ok_def out_ok_def list_all_iff out_frames_def)
  have "mset (reply_ids (out_frames ?out)) \<subseteq># ?reqs" unfolding l [symmetric] ledger_def add.assoc by simp
  then have once: "mset (reply_ids (written ?out)) \<subseteq># ?reqs" using written_once by (rule subset_mset.order_trans [rotated])
  have "mset (reply_ids (written ?out)) = ?reqs"
    if "sv_phase st = Returned r" "\<forall>n. flt n = None" "encodable tools" for r
  proof -
    have "list_all answer_ok (out_frames ?out)" using a that(3) by (simp add: answers_ok_def)
    then show ?thesis using written_all [of flt ?out] w flt(1) that(1,2) p l
      by (simp add: wire_ok_def phase_ok_def ledger_def)
  qed
  then show ?thesis using w p l serve_completes [of c st] flt lines once
    by (auto simp: wire_ok_def out_ok_def phase_ok_def ledger_def split: option.splits)
qed

definition sample_rpc :: rpc_codec where
  "sample_rpc = \<lparr>rc_message = (\<lambda>l. if l = ''p'' then Inr \<lparr>rm_ID = ''1'', rm_Method = ''tools/list'', rm_Params = []\<rparr> else Inl ''bad''),
     rc_call = (\<lambda>_. Inl ''bad'')\<rparr>"

definition sample_tool :: Tool where
  "sample_tool = \<lparr>tl_Name = ''t'', tl_Description = ''d'', tl_InputSchema = Inr ''{}'', tl_Meta = None\<rparr>"

definition sample_serve :: serve_config where
  "sample_serve = Serve_config \<lparr>si_Name = ''n'', si_Version = ''1'', si_Instructions = [], si_Resumed = False\<rparr> [sample_tool] sample_rpc
     (\<lambda>_. None) (''p'' @ [CHR 0x0A]) None"

definition sample_listed :: serving where
  "sample_listed = (serve_line sample_serve ''p'' ((Serve (''p'' @ [CHR 0x0A]))\<lparr>sv_phase := Reading, sv_lines := []\<rparr>))\<lparr>sv_phase := Returned (Inr ())\<rparr>"

lemma sample_list_run: "reach (\<lambda>st. st = Serve (''p'' @ [CHR 0x0A])) (serve_step sample_serve) sample_listed"
proof -
  have input: "scan_lines (''p'' @ [CHR 0x0A]) = ([''p''], False)" by code_simp
  have 0: "reach (\<lambda>st. st = Serve (''p'' @ [CHR 0x0A])) (serve_step sample_serve) (Serve (''p'' @ [CHR 0x0A]))"
    by (rule reach_start) simp
  have 1: "reach (\<lambda>st. st = Serve (''p'' @ [CHR 0x0A])) (serve_step sample_serve) ((Serve (''p'' @ [CHR 0x0A]))\<lparr>sv_phase := Reading\<rparr>)"
    using reach_step [OF 0 serve_step.opens]
    by (simp add: serve_open_def sample_serve_def Serve_config_def Serve_def)
  have 2: "reach (\<lambda>st. st = Serve (''p'' @ [CHR 0x0A])) (serve_step sample_serve)
      (serve_line sample_serve ''p'' ((Serve (''p'' @ [CHR 0x0A]))\<lparr>sv_phase := Reading, sv_lines := []\<rparr>))" (is "reach _ _ ?st")
    using reach_step [OF 1 serve_step.reads [of _ "''p''" "[]" sample_serve]] input by (simp add: Serve_def)
  have 3: "reach (\<lambda>st. st = Serve (''p'' @ [CHR 0x0A])) (serve_step sample_serve) (?st\<lparr>sv_phase := Waiting (Inr ())\<rparr>)"
    using reach_step [OF 2 serve_step.scanned] input by (simp add: sample_serve_def Serve_config_def)
  show ?thesis using reach_step [OF 3 serve_step.returns [of _ "Inr ()"]]
    by (simp add: sample_listed_def serve_line_def request_of_def serve_request_def sample_serve_def Serve_config_def sample_rpc_def Serve_def)
qed

theorem serve_answers_once_witness:
  "reach (\<lambda>st. st = Serve (''p'' @ [CHR 0x0A])) (serve_step sample_serve) sample_listed \<and>
   sv_phase sample_listed = Returned (Inr ()) \<and> mset (reply_ids (written (sv_out sample_listed))) = {#''1''#}"
proof -
  have laws: "rpc_laws sample_rpc" "tools_ok [sample_tool]" "encodable [sample_tool]"
    by (auto simp: rpc_laws_def tools_ok_def encodable_def sample_tool_def one_line_def sample_rpc_def json_ok_def json_space_def split: if_splits)
  have ids: "request_ids sample_rpc (fst (scan_lines (''p'' @ [CHR 0x0A]))) = [''1'']"
    by code_simp
  have returned: "sv_phase sample_listed = Returned (Inr ())" by (simp add: sample_listed_def)
  show ?thesis using serve_answers_once [OF laws(1,2) _ sample_serve_def sample_list_run] sample_list_run returned ids laws(3) by simp
qed

end
