(* ===== verification/Store_Agents.thy ===== *)
theory Store_Agents
  imports Model_Types "HOL-Library.Multiset"
begin

text \<open>
  The agent registry and the directive mailboxes of the store (\<open>store/agents.go\<close>,
  \<open>store/directives.go\<close>). An agent row is keyed by subject and agent; a directive is
  pending while its \<open>delivered_at\<close> is NULL. The interface \<open>conserving_queue\<close> states
  what the daemon relies on when it hands directives out: nothing is lost, nothing is handed
  out twice.
\<close>

section \<open>Agents\<close>

definition scanAgent :: "agent_row \<Rightarrow> Info" where
  "scanAgent r =
     \<lparr>ai_SubjectID = ag_subject r, ai_AgentID = ag_agent r, ai_ParentAgentID = ag_parent r,
      ai_AgentType = ag_type r, ai_SessionID = ag_session r, ai_TranscriptPath = ag_transcript r,
      ai_Status = ag_status r, ai_StartedAt = fromUnix (ag_started r),
      ai_EndedAt = map_option fromUnix (ag_ended r)\<rparr>"

definition agent_is :: "string \<Rightarrow> string \<Rightarrow> agent_row \<Rightarrow> bool" where
  "agent_is sid aid r \<longleftrightarrow> ag_subject r = sid \<and> ag_agent r = aid"

definition new_agent_row :: "Info \<Rightarrow> agent_row" where
  "new_agent_row info =
     \<lparr>ag_subject = ai_SubjectID info, ag_agent = ai_AgentID info,
      ag_parent = ai_ParentAgentID info, ag_type = ai_AgentType info,
      ag_session = ai_SessionID info, ag_transcript = ai_TranscriptPath info,
      ag_status = ai_Status info, ag_started = unix (ai_StartedAt info),
      ag_ended = map_option unix (ai_EndedAt info)\<rparr>"

definition refreshed_row :: "Info \<Rightarrow> agent_row \<Rightarrow> agent_row" where
  "refreshed_row info r =
     r\<lparr>ag_parent := ai_ParentAgentID info, ag_type := ai_AgentType info,
       ag_session := ai_SessionID info, ag_transcript := ai_TranscriptPath info,
       ag_status := ai_Status info, ag_ended := map_option unix (ai_EndedAt info)\<rparr>"

definition RegisterAgent :: "outcome \<Rightarrow> Info \<Rightarrow> db \<Rightarrow> bool result \<times> db" where
  "RegisterAgent flt info = db_call flt (\<lambda>d.
     let here = agent_is (ai_SubjectID info) (ai_AgentID info)
     in if list_ex here (agents d)
        then (Inr False, d\<lparr>agents := map (\<lambda>r. if here r then refreshed_row info r else r) (agents d)\<rparr>)
        else if \<not> known_subject d (ai_SubjectID info)
        then (Inl (ErrWrap ''register agent insert'' foreign_key_failed), d)
        else (Inr True, d\<lparr>agents := agents d @ [new_agent_row info]\<rparr>))"

lemma refreshed_row_sel [simp]:
  "ag_subject (refreshed_row info r) = ag_subject r" "ag_agent (refreshed_row info r) = ag_agent r"
  "ag_started (refreshed_row info r) = ag_started r" "ag_status (refreshed_row info r) = ai_Status info"
  "ag_type (refreshed_row info r) = ai_AgentType info"
  by (simp_all add: refreshed_row_def)

lemma new_agent_row_sel [simp]:
  "ag_subject (new_agent_row info) = ai_SubjectID info" "ag_agent (new_agent_row info) = ai_AgentID info"
  "ag_started (new_agent_row info) = unix (ai_StartedAt info)" "ag_status (new_agent_row info) = ai_Status info"
  "ag_type (new_agent_row info) = ai_AgentType info"
  by (simp_all add: new_agent_row_def)

definition CloseAgent :: "outcome \<Rightarrow> string \<Rightarrow> string \<Rightarrow> instant \<Rightarrow> db \<Rightarrow> bool result \<times> db" where
  "CloseAgent flt subjectID agentID endedAt = db_call flt (\<lambda>d.
     let hit = (\<lambda>r. agent_is subjectID agentID r \<and> ag_status r \<noteq> StatusDone);
         n = length (filter hit (agents d));
         d' = d\<lparr>agents := map (\<lambda>r. if hit r
                then r\<lparr>ag_status := StatusDone, ag_ended := Some (unix endedAt)\<rparr> else r) (agents d)\<rparr>
     in if n = 1 then (Inr True, d')
        else if list_ex (agent_is subjectID agentID) (agents d) then (Inr False, d')
        else (Inl ErrNotFound, d))"

definition GetAgent :: "outcome \<Rightarrow> string \<Rightarrow> string \<Rightarrow> db \<Rightarrow> Info result \<times> db" where
  "GetAgent flt subjectID agentID = db_call flt (\<lambda>d.
     (case find_first (agent_is subjectID agentID) (agents d) of
        None \<Rightarrow> (Inl ErrNotFound, d)
      | Some r \<Rightarrow> (Inr (scanAgent r), d)))"

definition pending_for :: "string \<Rightarrow> string \<Rightarrow> directive_row \<Rightarrow> bool" where
  "pending_for sid aid r \<longleftrightarrow> dr_subject r = sid \<and> dr_agent r = aid \<and> dr_delivered r = None"

definition ListPendingDirectiveAgents :: "outcome \<Rightarrow> string \<Rightarrow> db \<Rightarrow> Info list result \<times> db" where
  "ListPendingDirectiveAgents flt excludeOrigin = db_call flt (\<lambda>d.
     (Inr (map scanAgent (sort_key (\<lambda>a. (ag_subject a, ag_agent a))
        (filter (\<lambda>a. ag_status a = StatusDone \<and>
            list_ex (\<lambda>r. pending_for (ag_subject a) (ag_agent a) r \<and>
                         (excludeOrigin \<noteq> [] \<longrightarrow> dr_origin r \<noteq> excludeOrigin)) (directives d))
          (agents d)))), d))"

definition ListRunningAgents :: "outcome \<Rightarrow> db \<Rightarrow> Info list result \<times> db" where
  "ListRunningAgents flt = db_call flt (\<lambda>d.
     (Inr (map scanAgent (filter (\<lambda>a. ag_status a = StatusRunning) (agents d))), d))"

definition ListRunningAgentsByType :: "outcome \<Rightarrow> string \<Rightarrow> string \<Rightarrow> db \<Rightarrow> Info list result \<times> db" where
  "ListRunningAgentsByType flt subjectID agentType = db_call flt (\<lambda>d.
     (Inr (map scanAgent (filter (\<lambda>a. ag_subject a = subjectID \<and> ag_type a = agentType \<and>
        ag_status a = StatusRunning) (agents d))), d))"

definition ListAgents :: "outcome \<Rightarrow> string \<Rightarrow> db \<Rightarrow> Info list result \<times> db" where
  "ListAgents flt subjectID = db_call flt (\<lambda>d.
     (Inr (map scanAgent (sort_key (\<lambda>a. (ag_started a, ag_agent a))
        (filter (\<lambda>a. ag_subject a = subjectID) (agents d)))), d))"

section \<open>Directives\<close>

definition scanDirective :: "directive_row \<Rightarrow> Directive" where
  "scanDirective r =
     \<lparr>d_ID = dr_id r, d_SubjectID = dr_subject r, d_AgentID = dr_agent r, d_Origin = dr_origin r,
      d_Text = dr_text r, d_CreatedAt = fromUnix (dr_created r),
      d_DeliveredAt = map_option fromUnix (dr_delivered r)\<rparr>"

definition EnqueueDirective ::
  "outcome \<Rightarrow> string \<Rightarrow> string \<Rightarrow> string \<Rightarrow> string \<Rightarrow> instant \<Rightarrow> db \<Rightarrow> (Directive \<times> string) result \<times> db" where
  "EnqueueDirective flt subjectID agentID origin txt now = db_call flt (\<lambda>d.
     let status = (if agentID \<noteq> TopLevel
           then map_option ag_status (find_first (agent_is subjectID agentID) (agents d))
           else Some StatusRunning);
         nid = max_of (map dr_id (directives d)) + 1
     in case status of
          None \<Rightarrow> (Inl (ErrWrap ''enqueue directive agent'' ErrNotFound), d)
        | Some st \<Rightarrow>
            if \<not> known_subject d subjectID
            then (Inl (ErrWrap ''insert directive'' foreign_key_failed), d)
            else (Inr (\<lparr>d_ID = nid, d_SubjectID = subjectID, d_AgentID = agentID, d_Origin = origin,
                        d_Text = txt, d_CreatedAt = now, d_DeliveredAt = None\<rparr>, st),
                  d\<lparr>directives := directives d @
                     [\<lparr>dr_id = nid, dr_subject = subjectID, dr_agent = agentID, dr_origin = origin,
                       dr_text = txt, dr_created = unix now, dr_delivered = None\<rparr>]\<rparr>))"

definition HasPendingDirectives :: "outcome \<Rightarrow> string \<Rightarrow> string \<Rightarrow> string \<Rightarrow> db \<Rightarrow> bool result \<times> db" where
  "HasPendingDirectives flt subjectID agentID excludeOrigin = db_call flt (\<lambda>d.
     (Inr (list_ex (\<lambda>r. pending_for subjectID agentID r \<and>
        (excludeOrigin \<noteq> [] \<longrightarrow> dr_origin r \<noteq> excludeOrigin)) (directives d)), d))"

definition DrainDirectives :: "outcome \<Rightarrow> string \<Rightarrow> string \<Rightarrow> instant \<Rightarrow> db \<Rightarrow> Directive list result \<times> db" where
  "DrainDirectives flt subjectID agentID now = db_call flt (\<lambda>d.
     let pending = sort_key (\<lambda>r. (dr_created r, dr_id r))
           (filter (pending_for subjectID agentID) (directives d))
     in (Inr (map (\<lambda>r. (scanDirective r)\<lparr>d_DeliveredAt := Some now\<rparr>) pending),
         d\<lparr>directives := map (\<lambda>r. if pending_for subjectID agentID r
              then r\<lparr>dr_delivered := Some (unix now)\<rparr> else r) (directives d)\<rparr>))"

section \<open>The invariant of the tables\<close>

definition agents_keyed :: "db \<Rightarrow> bool" where
  "agents_keyed d \<longleftrightarrow> distinct (map (\<lambda>r. (ag_subject r, ag_agent r)) (agents d))"

definition agents_owned :: "db \<Rightarrow> bool" where
  "agents_owned d \<longleftrightarrow> (\<forall>r \<in> set (agents d). known_subject d (ag_subject r))"

definition directives_numbered :: "db \<Rightarrow> bool" where
  "directives_numbered d \<longleftrightarrow> map dr_id (directives d) = [1..int (length (directives d))]"

definition agents_inv :: "db \<Rightarrow> bool" where
  "agents_inv d \<longleftrightarrow> agents_keyed d \<and> agents_owned d \<and> directives_numbered d"

lemma next_directive_id:
  "directives_numbered d \<Longrightarrow> max_of (map dr_id (directives d)) + 1 = int (length (directives d)) + 1"
  by (simp add: directives_numbered_def)

lemma agents_keyed_map:
  "(\<And>r. (ag_subject (f r), ag_agent (f r)) = (ag_subject r, ag_agent r)) \<Longrightarrow>
     agents_keyed (d\<lparr>agents := map f (agents d)\<rparr>) = agents_keyed d"
  by (simp add: agents_keyed_def o_def)

lemma agents_owned_map:
  "(\<And>r. ag_subject (f r) = ag_subject r) \<Longrightarrow>
     agents_owned (d\<lparr>agents := map f (agents d)\<rparr>) = agents_owned d"
  by (simp add: agents_owned_def known_subject_def)

lemma agents_inv_map:
  assumes "\<And>r. ag_subject (f r) = ag_subject r" and "\<And>r. ag_agent (f r) = ag_agent r"
  shows "agents_inv (d\<lparr>agents := map f (agents d)\<rparr>) = agents_inv d"
  using assms
  by (simp add: agents_inv_def agents_keyed_map agents_owned_map directives_numbered_def)

lemma RegisterAgent_inv: "agents_inv d \<Longrightarrow> agents_inv (snd (RegisterAgent flt info d))"
proof (cases flt)
  case None
  assume "agents_inv d"
  with None show ?thesis
    by (auto simp: RegisterAgent_def Let_def agents_inv_map)
       (auto simp: agents_inv_def agents_keyed_def agents_owned_def directives_numbered_def
          known_subject_def list_ex_iff agent_is_def)
qed (simp add: RegisterAgent_def)

lemma CloseAgent_inv: "agents_inv d \<Longrightarrow> agents_inv (snd (CloseAgent flt sid aid t d))"
  by (cases flt) (auto simp: CloseAgent_def Let_def agents_inv_map)

lemma EnqueueDirective_inv: "agents_inv d \<Longrightarrow> agents_inv (snd (EnqueueDirective flt sid aid org txt t d))"
  by (cases flt)
     (auto simp: EnqueueDirective_def Let_def agents_inv_def agents_keyed_def agents_owned_def
        known_subject_def directives_numbered_def upto_snoc add.commute split: option.splits)

lemma DrainDirectives_inv: "agents_inv d \<Longrightarrow> agents_inv (snd (DrainDirectives flt sid aid t d))"
  by (cases flt)
     (auto simp: DrainDirectives_def Let_def agents_inv_def agents_keyed_def agents_owned_def
        known_subject_def directives_numbered_def o_def if_distrib cong: if_cong)

lemma agent_reads_pure [simp]:
  "snd (GetAgent flt sid aid d) = d" "snd (ListPendingDirectiveAgents flt ex d) = d"
  "snd (ListRunningAgents flt d) = d" "snd (ListRunningAgentsByType flt sid ty d) = d"
  "snd (ListAgents flt sid d) = d" "snd (HasPendingDirectives flt sid aid ex d) = d"
  by (cases flt; simp add: GetAgent_def ListPendingDirectiveAgents_def ListRunningAgents_def
    ListRunningAgentsByType_def ListAgents_def HasPendingDirectives_def split: option.split)+

lemma store_agents_frame [frame_simps]:
  "subjects (snd (RegisterAgent flt info d)) = subjects d" "events (snd (RegisterAgent flt info d)) = events d"
  "directives (snd (RegisterAgent flt info d)) = directives d"
  "subjects (snd (CloseAgent flt sid aid t d)) = subjects d" "events (snd (CloseAgent flt sid aid t d)) = events d"
  "directives (snd (CloseAgent flt sid aid t d)) = directives d"
  "subjects (snd (EnqueueDirective flt sid aid org txt t d)) = subjects d"
  "events (snd (EnqueueDirective flt sid aid org txt t d)) = events d"
  "agents (snd (EnqueueDirective flt sid aid org txt t d)) = agents d"
  "subjects (snd (DrainDirectives flt sid aid t d)) = subjects d"
  "events (snd (DrainDirectives flt sid aid t d)) = events d"
  "agents (snd (DrainDirectives flt sid aid t d)) = agents d"
  by (cases flt; simp add: RegisterAgent_def CloseAgent_def EnqueueDirective_def DrainDirectives_def Let_def
    split: option.split)+

section \<open>Mailboxes as conserving queues\<close>

text \<open>
  An operation on a set of mailboxes queues some new items and hands some items out. The
  laws: what is waiting afterwards together with what was handed out is what was waiting
  before together with what was queued, and a queued item is new.
\<close>

locale conserving_queue =
  fixes exec :: "'o \<Rightarrow> 's \<Rightarrow> ('i list \<times> 'i list) \<times> 's"
    and waiting :: "'s \<Rightarrow> 'i list"
    and used :: "'s \<Rightarrow> 'i set"
    and inv :: "'s \<Rightarrow> bool"
  assumes exec_inv: "inv s \<Longrightarrow> inv (snd (exec x s))"
    and exec_conserves: "inv s \<Longrightarrow> exec x s = ((qs, os), s') \<Longrightarrow>
          mset os + mset (waiting s') = mset (waiting s) + mset qs"
    and exec_fresh: "inv s \<Longrightarrow> exec x s = ((qs, os), s') \<Longrightarrow>
          distinct qs \<and> set qs \<inter> used s = {} \<and> used s' = used s \<union> set qs"
    and waiting_used: "inv s \<Longrightarrow> distinct (waiting s) \<and> set (waiting s) \<subseteq> used s"
begin

lemma run_conserves:
  "inv s \<Longrightarrow> run_ops exec xs s = ((qs, os), s') \<Longrightarrow> mset os + mset (waiting s') = mset (waiting s) + mset qs"
proof (induction xs arbitrary: s qs os)
  case (Cons x xs)
  obtain qs1 os1 s1 where e: "exec x s = ((qs1, os1), s1)" by (metis surj_pair)
  obtain qs2 os2 where r: "run_ops exec xs s1 = ((qs2, os2), s')" "qs = qs1 @ qs2" "os = os1 @ os2"
    using Cons.prems(2) e by (auto simp: Let_def split: prod.splits)
  have "inv s1" using exec_inv [OF Cons.prems(1), of x] e by simp
  from Cons.IH [OF this r(1)] exec_conserves [OF Cons.prems(1) e] show ?case
    unfolding r(2,3) by (simp add: ac_simps)
qed simp

lemma run_fresh:
  "inv s \<Longrightarrow> run_ops exec xs s = ((qs, os), s') \<Longrightarrow> inv s' \<and> distinct qs \<and> set qs \<inter> used s = {} \<and> used s' = used s \<union> set qs"
proof (induction xs arbitrary: s qs os)
  case (Cons x xs)
  obtain qs1 os1 s1 where e: "exec x s = ((qs1, os1), s1)" by (metis surj_pair)
  obtain qs2 os2 where r: "run_ops exec xs s1 = ((qs2, os2), s')" "qs = qs1 @ qs2"
    using Cons.prems(2) e by (auto simp: Let_def split: prod.splits)
  have "inv s1" using exec_inv [OF Cons.prems(1), of x] e by simp
  from Cons.IH [OF this r(1)] exec_fresh [OF Cons.prems(1) e] show ?case
    unfolding r(2) by auto
qed simp

lemma run_at_most_once:
  assumes "inv s" and "run_ops exec xs s = ((qs, os), s')"
  shows "distinct (os @ waiting s')"
proof -
  have "distinct (waiting s @ qs)"
    using run_fresh [OF assms] waiting_used [OF assms(1)] by auto
  moreover have "mset (os @ waiting s') = mset (waiting s @ qs)"
    using run_conserves [OF assms] by simp
  ultimately show ?thesis by (metis mset_eq_imp_distinct_iff)
qed

end

datatype mail_op =
    Enq outcome string string string string instant
  | Drain outcome string string instant

fun mail_exec :: "mail_op \<Rightarrow> db \<Rightarrow> (int list \<times> int list) \<times> db" where
  "mail_exec (Enq flt sid aid org txt now) d =
     (case EnqueueDirective flt sid aid org txt now d of
        (Inl _, d') \<Rightarrow> (([], []), d')
      | (Inr (dir, _), d') \<Rightarrow> (([d_ID dir], []), d'))"
| "mail_exec (Drain flt sid aid now) d =
     (case DrainDirectives flt sid aid now d of
        (Inl _, d') \<Rightarrow> (([], []), d')
      | (Inr ds, d') \<Rightarrow> (([], map d_ID ds), d'))"

definition pending_ids :: "db \<Rightarrow> int list" where
  "pending_ids d = map dr_id (filter (\<lambda>r. dr_delivered r = None) (directives d))"

definition directive_ids :: "db \<Rightarrow> int set" where
  "directive_ids d = set (map dr_id (directives d))"

lemma scanDirective_sel [simp]: "d_ID (scanDirective r) = dr_id r"
  by (simp add: scanDirective_def)

lemma drain_ids: "map dr_id (map (\<lambda>r. if P r then r\<lparr>dr_delivered := t\<rparr> else r) rs) = map dr_id rs"
  by (induction rs) auto

lemma Drain_conserves:
  "mset (map dr_id (filter (pending_for sid aid) rs)) +
   mset (map dr_id (filter (\<lambda>r. dr_delivered r = None)
     (map (\<lambda>r. if pending_for sid aid r then r\<lparr>dr_delivered := Some t\<rparr> else r) rs)))
   = mset (map dr_id (filter (\<lambda>r. dr_delivered r = None) rs))"
  by (induction rs) (auto simp: pending_for_def)

lemma mail_exec_state [simp]:
  "snd (mail_exec (Enq flt sid aid org txt now) d) = snd (EnqueueDirective flt sid aid org txt now d)"
  "snd (mail_exec (Drain flt sid aid now) d) = snd (DrainDirectives flt sid aid now d)"
  by (auto split: prod.splits sum.splits)

lemma mail_exec_inv: "agents_inv d \<Longrightarrow> agents_inv (snd (mail_exec x d))"
  by (cases x) (simp_all del: mail_exec.simps add: EnqueueDirective_inv DrainDirectives_inv)

lemma mail_exec_conserves:
  "agents_inv d \<Longrightarrow> mail_exec x d = ((qs, os), d') \<Longrightarrow>
     mset os + mset (pending_ids d') = mset (pending_ids d) + mset qs"
proof (cases x)
  case (Enq flt sid aid org body now)
  assume "mail_exec x d = ((qs, os), d')"
  with Enq show ?thesis
    by (cases flt) (auto simp: EnqueueDirective_def Let_def pending_ids_def split: option.splits if_splits)
next
  case (Drain flt sid aid now)
  assume "mail_exec x d = ((qs, os), d')"
  with Drain Drain_conserves [of sid aid "directives d" "unix now"] show ?thesis
    by (cases flt) (auto simp: DrainDirectives_def Let_def pending_ids_def o_def)
qed

lemma directive_ids_bound: "agents_inv d \<Longrightarrow> directive_ids d = {1..int (length (directives d))}"
  by (simp add: directive_ids_def agents_inv_def directives_numbered_def del: set_map)

lemma mail_exec_fresh:
  "agents_inv d \<Longrightarrow> mail_exec x d = ((qs, os), d') \<Longrightarrow>
     distinct qs \<and> set qs \<inter> directive_ids d = {} \<and> directive_ids d' = directive_ids d \<union> set qs"
proof (cases x)
  case (Enq flt sid aid org body now)
  assume inv: "agents_inv d" and ex: "mail_exec x d = ((qs, os), d')"
  then have "max_of (map dr_id (directives d)) + 1 \<notin> directive_ids d"
    by (auto simp: directive_ids_bound next_directive_id agents_inv_def)
  with Enq ex show ?thesis
    by (cases flt) (auto simp: EnqueueDirective_def Let_def directive_ids_def image_iff split: option.splits if_splits)
next
  case (Drain flt sid aid now)
  assume "mail_exec x d = ((qs, os), d')"
  with Drain show ?thesis
    by (cases flt) (auto simp: DrainDirectives_def Let_def directive_ids_def drain_ids simp del: set_map map_map)
qed

interpretation mail: conserving_queue mail_exec pending_ids directive_ids agents_inv
proof
  show "distinct (pending_ids s) \<and> set (pending_ids s) \<subseteq> directive_ids s" if "agents_inv s" for s
  proof -
    have "distinct (map dr_id (directives s))"
      using that by (simp add: agents_inv_def directives_numbered_def)
    then show ?thesis
      by (auto simp: pending_ids_def directive_ids_def distinct_map_filter)
  qed
qed (use mail_exec_inv mail_exec_conserves mail_exec_fresh in blast)+

section \<open>Properties\<close>

definition sample_agent :: agent_row where
  "sample_agent = \<lparr>ag_subject = ''s1'', ag_agent = ''a1'', ag_parent = [], ag_type = ''t'', ag_session = [],
     ag_transcript = [], ag_status = StatusRunning, ag_started = 3, ag_ended = None\<rparr>"

definition sample_box :: db where
  "sample_box = empty_db\<lparr>subjects := [\<lparr>sb_id = ''s1'', sb_slug = ''slug'', sb_session = Some ''sess'',
     sb_scope = ''/repo'', sb_pid = 7, sb_status = ''open'', sb_created = 0, sb_updated = 0\<rparr>],
     agents := [sample_agent]\<rparr>"

lemma sample_box_inv: "agents_inv sample_box"
  by (simp add: sample_box_def sample_agent_def empty_db_def agents_inv_def agents_keyed_def agents_owned_def
    directives_numbered_def known_subject_def)

text \<open>
  C3: Directives are conserved and delivered at most once. Over any run of enqueues and
  drains on any mailboxes, engine failures included, the directives handed out together with
  those still pending are exactly those pending at the start together with those accepted
  during the run, and no directive is handed out twice or handed out and left pending.
\<close>

theorem directives_at_most_once:
  assumes "agents_inv d" and "run_ops mail_exec ops d = ((queued, delivered), d')"
  shows "mset delivered + mset (pending_ids d') = mset (pending_ids d) + mset queued
    \<and> distinct (delivered @ pending_ids d')"
  using mail.run_conserves [OF assms] mail.run_at_most_once [OF assms] by blast

theorem directives_at_most_once_witness:
  "\<exists>d'. run_ops mail_exec [Enq None ''s1'' ''a1'' ''human'' ''x'' 5, Enq (Some ''busy'') ''s1'' ''a1'' ''human'' ''y'' 6,
       Enq None ''s1'' [] ''human'' ''z'' 7, Drain None ''s1'' ''a1'' 8] sample_box = (([1, 2], [1]), d')
    \<and> mset [1] + mset (pending_ids d') = mset (pending_ids sample_box) + mset [1, 2] \<and> distinct ([1] @ pending_ids d')"
proof -
  let ?ops = "[Enq None ''s1'' ''a1'' ''human'' ''x'' 5, Enq (Some ''busy'') ''s1'' ''a1'' ''human'' ''y'' 6,
       Enq None ''s1'' [] ''human'' ''z'' 7, Drain None ''s1'' ''a1'' 8]"
  have "fst (run_ops mail_exec ?ops sample_box) = ([1, 2], [1])" by code_simp
  then obtain d' where r: "run_ops mail_exec ?ops sample_box = (([1, 2], [1]), d')" by (metis prod.collapse)
  from directives_at_most_once [OF sample_box_inv r] r show ?thesis by blast
qed

lemma agents_keyed_unique:
  assumes "agents_keyed d" and "r \<in> set (agents d)" and "r' \<in> set (agents d)"
    and "agent_is sid aid r" and "agent_is sid aid r'"
  shows "r = r'"
  using assms by (auto simp: agents_keyed_def agent_is_def distinct_map dest: inj_onD)

lemma find_agent:
  assumes "agents_keyed d" and "r \<in> set (agents d)" and "agent_is sid aid r"
  shows "find_first (agent_is sid aid) (agents d) = Some r"
proof (cases "find_first (agent_is sid aid) (agents d)")
  case None
  then show ?thesis using assms(2,3) by (auto simp: find_first_None)
next
  case (Some q)
  then have "q \<in> set (agents d)" "agent_is sid aid q" by (auto dest: find_first_SomeD)
  then show ?thesis using agents_keyed_unique [OF assms(1,2) _ assms(3)] Some by blast
qed

lemma find_agent_map:
  assumes "\<And>r. ag_subject (f r) = ag_subject r" and "\<And>r. ag_agent (f r) = ag_agent r"
  shows "find_first (agent_is sid aid) (map f rs) = map_option f (find_first (agent_is sid aid) rs)"
  using assms by (induction rs) (auto simp: agent_is_def)

text \<open>
  A drain hands out the whole mailbox in order and empties it. It returns every pending
  directive of the addressed agent, sorted by creation second and then by number; when the
  clock did not run backwards between the enqueues this is the order of enqueueing. Every
  other mailbox is untouched.
\<close>

theorem drain_fifo:
  assumes "agents_inv d"
    and "sorted (map dr_created (filter (pending_for sid aid) (directives d)))"
    and "DrainDirectives None sid aid now d = (Inr ds, d')"
  shows "map d_ID ds = map dr_id (filter (pending_for sid aid) (directives d))
    \<and> filter (pending_for sid aid) (directives d') = []
    \<and> (\<forall>sid' aid'. (sid', aid') \<noteq> (sid, aid) \<longrightarrow>
        filter (pending_for sid' aid') (directives d') = filter (pending_for sid' aid') (directives d))"
proof -
  let ?box = "filter (pending_for sid aid) (directives d)"
  have ids: "sorted (map dr_id ?box)"
    using assms(1) by (intro sorted_filter) (simp add: agents_inv_def directives_numbered_def)
  have "sorted (map (\<lambda>r. (dr_created r, dr_id r)) ?box)"
    by (rule sorted_map_pair [OF assms(2) ids])
  then have "map d_ID ds = map dr_id ?box"
    using assms(3) by (auto simp: DrainDirectives_def Let_def sort_key_id o_def)
  moreover have "filter (pending_for sid aid) (directives d') = []"
  proof -
    have "directives d' = map (\<lambda>r. if pending_for sid aid r then r\<lparr>dr_delivered := Some (unix now)\<rparr> else r) (directives d)"
      using assms(3) by (auto simp: DrainDirectives_def Let_def)
    moreover have "\<not> pending_for sid aid (r\<lparr>dr_delivered := Some (unix now)\<rparr>)" for r
      by (simp add: pending_for_def)
    ultimately show ?thesis by (auto simp add: filter_empty_conv)
  qed
  moreover have "filter (pending_for sid' aid') (directives d') = filter (pending_for sid' aid') (directives d)"
    if "(sid', aid') \<noteq> (sid, aid)" for sid' aid'
  proof -
    have "directives d' = map (\<lambda>r. if pending_for sid aid r then r\<lparr>dr_delivered := Some (unix now)\<rparr> else r) (directives d)"
      using assms(3) by (auto simp: DrainDirectives_def Let_def)
    moreover have "filter (pending_for sid' aid') (map (\<lambda>r. if pending_for sid aid r
        then r\<lparr>dr_delivered := Some (unix now)\<rparr> else r) (directives d)) = filter (pending_for sid' aid') (directives d)"
      using that by (intro filter_map_same) (auto simp: pending_for_def)
    ultimately show ?thesis by simp
  qed
  ultimately show ?thesis by blast
qed

definition sample_mail :: db where
  "sample_mail = snd (run_ops mail_exec [Enq None ''s1'' ''a1'' ''human'' ''x'' 5, Enq None ''s1'' ''a1'' ''event'' ''y'' 6] sample_box)"

lemma sample_mail_inv: "agents_inv sample_mail"
  unfolding sample_mail_def using mail.run_fresh [OF sample_box_inv, of "[Enq None ''s1'' ''a1'' ''human'' ''x'' 5, Enq None ''s1'' ''a1'' ''event'' ''y'' 6]"]
  by (metis prod.collapse)

theorem drain_fifo_witness:
  "\<exists>ds d'. DrainDirectives None ''s1'' ''a1'' 9 sample_mail = (Inr ds, d') \<and> map d_ID ds = [1, 2] \<and>
     filter (pending_for ''s1'' ''a1'') (directives d') = []"
proof -
  have "sorted (map dr_created (filter (pending_for ''s1'' ''a1'') (directives sample_mail)))" by code_simp
  note fifo = drain_fifo [OF sample_mail_inv this, of 9]
  have ids: "map dr_id (filter (pending_for ''s1'' ''a1'') (directives sample_mail)) = [1, 2]" by code_simp
  obtain ds d' where "DrainDirectives None ''s1'' ''a1'' 9 sample_mail = (Inr ds, d')"
    by (simp add: DrainDirectives_def Let_def)
  with fifo [OF this] ids show ?thesis by auto
qed

lemma CloseAgent_True:
  assumes "CloseAgent None sid aid t d = (Inr True, d1)"
  shows "\<exists>r. r \<in> set (agents d) \<and> agent_is sid aid r \<and> ag_status r \<noteq> StatusDone"
proof -
  have "length (filter (\<lambda>r. agent_is sid aid r \<and> ag_status r \<noteq> StatusDone) (agents d)) = 1"
    using assms by (auto simp: CloseAgent_def Let_def split: if_splits)
  then show ?thesis by (metis (mono_tags, lifting) length_0_conv filter_empty_conv One_nat_def zero_neq_one)
qed

text \<open>
  Of all the closes of one agent exactly one wins. After a close that reports the
  transition, the agent reads as done with that close's time (to the second), and every
  later close reports that it did not make the transition and writes nothing.
\<close>

theorem close_agent_once:
  assumes "agents_inv d" and "CloseAgent None sid aid t d = (Inr True, d1)"
  shows "CloseAgent None sid aid t' d1 = (Inr False, d1) \<and>
    (\<exists>info. GetAgent None sid aid d1 = (Inr info, d1) \<and> ai_Status info = StatusDone \<and>
       ai_EndedAt info = Some (fromUnix (unix t)))"
proof -
  let ?f = "\<lambda>r. if agent_is sid aid r \<and> ag_status r \<noteq> StatusDone
      then r\<lparr>ag_status := StatusDone, ag_ended := Some (unix t)\<rparr> else r"
  have d1: "d1 = d\<lparr>agents := map ?f (agents d)\<rparr>"
    using assms(2) by (auto simp: CloseAgent_def Let_def split: if_splits)
  obtain r where r: "r \<in> set (agents d)" "agent_is sid aid r" "ag_status r \<noteq> StatusDone"
    using CloseAgent_True [OF assms(2)] by blast
  have "find_first (agent_is sid aid) (agents d) = Some r"
    using find_agent [OF _ r(1,2)] assms(1) by (simp add: agents_inv_def)
  then have "find_first (agent_is sid aid) (agents d1) = Some (?f r)"
    unfolding d1 by (simp add: find_agent_map)
  then have get: "GetAgent None sid aid d1 = (Inr (scanAgent (?f r)), d1)"
    by (simp add: GetAgent_def)
  have none: "\<not> (agent_is sid aid q \<and> ag_status q \<noteq> StatusDone)" if "q \<in> set (agents d1)" for q
  proof -
    have "q \<in> ?f ` set (agents d)" using that by (simp add: d1 del: if_image_distrib)
    then obtain p where "p \<in> set (agents d)" "q = ?f p" by (rule imageE) blast
    then show ?thesis by (cases "agent_is sid aid p \<and> ag_status p \<noteq> StatusDone") simp_all
  qed
  have "filter (\<lambda>r. agent_is sid aid r \<and> ag_status r \<noteq> StatusDone) (agents d1) = []"
    using none by (simp add: filter_empty_conv)
  moreover have "map (\<lambda>r. if agent_is sid aid r \<and> ag_status r \<noteq> StatusDone
      then r\<lparr>ag_status := StatusDone, ag_ended := Some (unix t')\<rparr> else r) (agents d1) = agents d1"
    using none by (intro map_idI) auto
  moreover have "list_ex (agent_is sid aid) (agents d1)"
  proof -
    have "?f r \<in> set (agents d1)" using r(1) by (simp add: d1 del: if_image_distrib)
    moreover have "agent_is sid aid (?f r)" using r(2) by (simp add: agent_is_def)
    ultimately show ?thesis unfolding list_ex_iff by blast
  qed
  ultimately have "CloseAgent None sid aid t' d1 = (Inr False, d1)"
    by (simp add: CloseAgent_def Let_def)
  then show ?thesis using get r by (simp add: scanAgent_def)
qed

theorem close_agent_once_witness:
  "\<exists>d1. CloseAgent None ''s1'' ''a1'' 5000000001 sample_box = (Inr True, d1) \<and>
     CloseAgent None ''s1'' ''a1'' 9000000000 d1 = (Inr False, d1) \<and>
     (\<exists>info. GetAgent None ''s1'' ''a1'' d1 = (Inr info, d1) \<and> ai_Status info = StatusDone \<and>
       ai_EndedAt info = Some 5000000000)"
proof -
  have "fst (CloseAgent None ''s1'' ''a1'' 5000000001 sample_box) = Inr True" by code_simp
  then obtain d1 where c: "CloseAgent None ''s1'' ''a1'' 5000000001 sample_box = (Inr True, d1)"
    by (metis prod.collapse)
  moreover have "fromUnix (unix 5000000001) = 5000000000" by code_simp
  ultimately show ?thesis using close_agent_once [OF sample_box_inv c, of 9000000000] by auto
qed

text \<open>
  Registration is an upsert that keeps the first start time. It reports a creation
  exactly when the agent had no row; afterwards the agent reads back with the given fields,
  its start second being the registered one on a creation and the old one on a refresh, and
  every other agent reads as before.
\<close>

theorem register_agent_upsert:
  assumes "agents_inv d" and "RegisterAgent None info d = (Inr created, d1)"
  shows "(created \<longleftrightarrow> \<not> list_ex (agent_is (ai_SubjectID info) (ai_AgentID info)) (agents d)) \<and>
    (\<exists>started. GetAgent None (ai_SubjectID info) (ai_AgentID info) d1 =
        (Inr (info\<lparr>ai_StartedAt := fromUnix started,
                   ai_EndedAt := map_option (\<lambda>t. fromUnix (unix t)) (ai_EndedAt info)\<rparr>), d1) \<and>
      (created \<longrightarrow> started = unix (ai_StartedAt info)) \<and>
      (\<not> created \<longrightarrow> (\<exists>old. GetAgent None (ai_SubjectID info) (ai_AgentID info) d = (Inr old, d) \<and>
         ai_StartedAt old = fromUnix started))) \<and>
    (\<forall>sid aid. (sid, aid) \<noteq> (ai_SubjectID info, ai_AgentID info) \<longrightarrow>
       fst (GetAgent None sid aid d1) = fst (GetAgent None sid aid d))"
proof (cases "list_ex (agent_is (ai_SubjectID info) (ai_AgentID info)) (agents d)")
  case True
  let ?f = "\<lambda>r. if agent_is (ai_SubjectID info) (ai_AgentID info) r then refreshed_row info r else r"
  obtain r where r: "r \<in> set (agents d)" "agent_is (ai_SubjectID info) (ai_AgentID info) r"
    using True by (auto simp: list_ex_iff)
  have d1: "d1 = d\<lparr>agents := map ?f (agents d)\<rparr>" "\<not> created"
    using assms(2) True by (auto simp: RegisterAgent_def Let_def)
  have fr: "find_first (agent_is (ai_SubjectID info) (ai_AgentID info)) (agents d) = Some r"
    using find_agent [OF _ r] assms(1) by (simp add: agents_inv_def)
  have get: "GetAgent None sid aid d1 = (case find_first (agent_is sid aid) (agents d) of
      None \<Rightarrow> (Inl ErrNotFound, d1) | Some q \<Rightarrow> (Inr (scanAgent (?f q)), d1))" for sid aid
    unfolding d1 by (cases "find_first (agent_is sid aid) (agents d)")
      (simp_all add: GetAgent_def find_agent_map)
  have keep: "?f q = q" if "find_first (agent_is sid aid) (agents d) = Some q"
      "(sid, aid) \<noteq> (ai_SubjectID info, ai_AgentID info)" for sid aid q
    using find_first_SomeD [OF that(1)] that(2) by (auto simp: agent_is_def)
  have "fst (GetAgent None sid aid d1) = fst (GetAgent None sid aid d)"
    if "(sid, aid) \<noteq> (ai_SubjectID info, ai_AgentID info)" for sid aid
    using keep [OF _ that] unfolding get by (simp add: GetAgent_def split: option.split)
  moreover have "scanAgent (?f r) = info\<lparr>ai_StartedAt := fromUnix (ag_started r),
      ai_EndedAt := map_option (\<lambda>t. fromUnix (unix t)) (ai_EndedAt info)\<rparr>"
    using r(2) by (cases info) (simp add: scanAgent_def refreshed_row_def agent_is_def option.map_comp o_def)
  moreover have "ai_StartedAt (scanAgent r) = fromUnix (ag_started r)" by (simp add: scanAgent_def)
  ultimately show ?thesis
    using True d1(2) fr get [of "ai_SubjectID info" "ai_AgentID info"] by (auto simp: GetAgent_def)
next
  case False
  then have ok: "created" "d1 = d\<lparr>agents := agents d @ [new_agent_row info]\<rparr>"
    using assms(2) by (auto simp: RegisterAgent_def Let_def split: if_splits)
  have "scanAgent (new_agent_row info) = info\<lparr>ai_StartedAt := fromUnix (unix (ai_StartedAt info)),
      ai_EndedAt := map_option (\<lambda>t. fromUnix (unix t)) (ai_EndedAt info)\<rparr>"
    by (cases info) (simp add: scanAgent_def new_agent_row_def option.map_comp o_def)
  moreover have "find_first (agent_is (ai_SubjectID info) (ai_AgentID info)) (agents d) = None"
    using False by (simp add: list_ex_iff find_first_None)
  moreover have "fst (GetAgent None sid aid d1) = fst (GetAgent None sid aid d)"
    if "(sid, aid) \<noteq> (ai_SubjectID info, ai_AgentID info)" for sid aid
  proof -
    have "find_first (agent_is sid aid) [new_agent_row info] = None"
      using that by (auto simp: agent_is_def new_agent_row_def)
    then show ?thesis by (cases "find_first (agent_is sid aid) (agents d)")
      (simp_all add: ok GetAgent_def find_first_append)
  qed
  moreover have "agent_is (ai_SubjectID info) (ai_AgentID info) (new_agent_row info)"
    by (simp add: agent_is_def new_agent_row_def)
  ultimately show ?thesis
    using False ok by (simp add: GetAgent_def find_first_append)
qed

definition sample_info :: Info where
  "sample_info = \<lparr>ai_SubjectID = ''s1'', ai_AgentID = ''a1'', ai_ParentAgentID = ''p'', ai_AgentType = ''t'',
     ai_SessionID = ''x'', ai_TranscriptPath = [], ai_Status = StatusRunning, ai_StartedAt = 9000000000,
     ai_EndedAt = None\<rparr>"

theorem register_agent_upsert_witness:
  "\<exists>d1. RegisterAgent None sample_info sample_box = (Inr False, d1) \<and>
     GetAgent None ''s1'' ''a1'' d1 = (Inr (sample_info\<lparr>ai_StartedAt := 3000000000\<rparr>), d1)"
proof -
  have "fst (RegisterAgent None sample_info sample_box) = Inr False" by code_simp
  then obtain d1 where r: "RegisterAgent None sample_info sample_box = (Inr False, d1)" by (metis prod.collapse)
  obtain started old where
    g: "GetAgent None ''s1'' ''a1'' d1 = (Inr (sample_info\<lparr>ai_StartedAt := fromUnix started\<rparr>), d1)"
    and o: "GetAgent None ''s1'' ''a1'' sample_box = (Inr old, sample_box)" "ai_StartedAt old = fromUnix started"
    using register_agent_upsert [OF sample_box_inv r] by (auto simp: sample_info_def)
  have "map_sum id ai_StartedAt (fst (GetAgent None ''s1'' ''a1'' sample_box)) = Inr 3000000000" by code_simp
  with o have "fromUnix started = 3000000000" by simp
  with g r show ?thesis by simp
qed

end
