(* ===== verification/Actions.thy ===== *)
theory Actions
  imports Prelude
begin

text \<open>
  Fallible actions over an explicit state. An \<open>op\<close> is a function from the state to a result and
  the new state; \<open>bind_op\<close> is Go's \<open>if err != nil \{ return err \}\<close>, \<open>wrap_op\<close> the same
  with a wrapped error, and \<open>finally_op\<close> a deferred call.
\<close>

type_synonym ('st, 'a) op = "'st \<Rightarrow> 'a result \<times> 'st"

definition return_op :: "'a \<Rightarrow> ('st, 'a) op" where
  "return_op x st = (Inr x, st)"

definition fail_op :: "go_error \<Rightarrow> ('st, 'a) op" where
  "fail_op e st = (Inl e, st)"

definition bind_op :: "('st, 'a) op \<Rightarrow> ('a \<Rightarrow> ('st, 'b) op) \<Rightarrow> ('st, 'b) op" where
  "bind_op m k st = (case m st of (Inl e, st') \<Rightarrow> (Inl e, st') | (Inr x, st') \<Rightarrow> k x st')"

text \<open>Running an action and looking at its error instead of returning it.\<close>

definition try_op :: "('st, 'a) op \<Rightarrow> ('a result \<Rightarrow> ('st, 'b) op) \<Rightarrow> ('st, 'b) op" where
  "try_op m k st = (case m st of (r, st') \<Rightarrow> k r st')"

lemmas op_defs = return_op_def fail_op_def bind_op_def try_op_def

lemma bind_op_Inl: "bind_op m k st = (Inl e, st') \<Longrightarrow>
    m st = (Inl e, st') \<or> (\<exists>x st1. m st = (Inr x, st1) \<and> k x st1 = (Inl e, st'))"
  by (auto simp: bind_op_def split: prod.splits sum.splits)

lemma bind_op_Inr: "bind_op m k st = (Inr y, st') \<Longrightarrow>
    \<exists>x st1. m st = (Inr x, st1) \<and> k x st1 = (Inr y, st')"
  by (auto simp: bind_op_def split: prod.splits sum.splits)

text \<open>A property of the state that an action keeps, and that a sequence keeps step by step.\<close>

definition keeps :: "('st \<Rightarrow> bool) \<Rightarrow> ('st, 'a) op \<Rightarrow> bool" where
  "keeps P m \<longleftrightarrow> (\<forall>st. P st \<longrightarrow> P (snd (m st)))"

lemma keepsI: "(\<And>st. P st \<Longrightarrow> P (snd (m st))) \<Longrightarrow> keeps P m"
  by (simp add: keeps_def)

lemma keepsD: "keeps P m \<Longrightarrow> P st \<Longrightarrow> P (snd (m st))"
  by (simp add: keeps_def)

lemma keeps_return [intro]: "keeps P (return_op x)"
  by (simp add: keeps_def return_op_def)

lemma keeps_fail [intro]: "keeps P (fail_op e)"
  by (simp add: keeps_def fail_op_def)

lemma keeps_bind [intro]: "keeps P m \<Longrightarrow> (\<And>x. keeps P (k x)) \<Longrightarrow> keeps P (bind_op m k)"
  unfolding keeps_def bind_op_def by (fastforce split: prod.split sum.split)

lemma keeps_try [intro]: "keeps P m \<Longrightarrow> (\<And>r. keeps P (k r)) \<Longrightarrow> keeps P (try_op m k)"
  unfolding keeps_def try_op_def by (fastforce split: prod.split)

section \<open>Triples\<close>

text \<open>
  \<open>triple P m Q E\<close>: from a state with \<open>P\<close>, a success of \<open>m\<close> with value \<open>x\<close> ends in
  \<open>Q x\<close> and an error in \<open>E\<close>. The rules follow the structure of the code.
\<close>

definition triple :: "('st \<Rightarrow> bool) \<Rightarrow> ('st, 'a) op \<Rightarrow> ('a \<Rightarrow> 'st \<Rightarrow> bool) \<Rightarrow> ('st \<Rightarrow> bool) \<Rightarrow> bool" where
  "triple P m Q E \<longleftrightarrow> (\<forall>st. P st \<longrightarrow> (case m st of (Inl e, st') \<Rightarrow> E st' | (Inr x, st') \<Rightarrow> Q x st'))"

lemma tripleI:
  assumes "\<And>st e st'. P st \<Longrightarrow> m st = (Inl e, st') \<Longrightarrow> E st'"
    and "\<And>st x st'. P st \<Longrightarrow> m st = (Inr x, st') \<Longrightarrow> Q x st'"
  shows "triple P m Q E"
  using assms by (auto simp: triple_def split: prod.split sum.split)

lemma triple_success: "triple P m Q E \<Longrightarrow> P st \<Longrightarrow> m st = (Inr x, st') \<Longrightarrow> Q x st'"
  by (force simp: triple_def)

lemma triple_error: "triple P m Q E \<Longrightarrow> P st \<Longrightarrow> m st = (Inl e, st') \<Longrightarrow> E st'"
  by (force simp: triple_def)

lemma triple_state: "triple P m (\<lambda>_. Q) Q \<Longrightarrow> P st \<Longrightarrow> Q (snd (m st))"
  by (cases "m st"; cases "fst (m st)") (force simp: triple_def)+

lemma triple_bind:
  assumes "triple P m R E" and "\<And>x. triple (R x) (k x) Q E"
  shows "triple P (bind_op m k) Q E"
proof (rule tripleI)
  fix st e st' assume "P st" "bind_op m k st = (Inl e, st')"
  then show "E st'" using triple_error [OF assms(1)] triple_success [OF assms(1)] triple_error [OF assms(2)]
    by (blast dest: bind_op_Inl)
next
  fix st x st' assume "P st" "bind_op m k st = (Inr x, st')"
  then show "Q x st'" using triple_success [OF assms(1)] triple_success [OF assms(2)]
    by (blast dest: bind_op_Inr)
qed

lemma triple_return: "(\<And>st. P st \<Longrightarrow> Q x st) \<Longrightarrow> triple P (return_op x) Q E"
  by (simp add: triple_def return_op_def)

lemma triple_pure: "(A \<Longrightarrow> triple P m Q E) \<Longrightarrow> triple (\<lambda>st. P st \<and> A) m Q E"
  by (simp add: triple_def)

lemma triple_ex: "(\<And>t. triple (P t) m Q E) \<Longrightarrow> triple (\<lambda>st. \<exists>t. P t st) m Q E"
  by (rule tripleI) (auto dest: triple_error triple_success)

lemma triple_weaken:
  "triple P' m Q' E' \<Longrightarrow> (\<And>st. P st \<Longrightarrow> P' st) \<Longrightarrow> (\<And>x st. Q' x st \<Longrightarrow> Q x st) \<Longrightarrow> (\<And>st. E' st \<Longrightarrow> E st)
    \<Longrightarrow> triple P m Q E"
  unfolding triple_def by (fastforce split: prod.splits sum.splits)

section \<open>Wrapping errors and deferred calls\<close>

definition wrap_op :: "string \<Rightarrow> ('st, 'a) op \<Rightarrow> ('st, 'a) op" where
  "wrap_op p m st = (case m st of (Inl e, st') \<Rightarrow> (Inl (ErrWrap p e), st') | (Inr x, st') \<Rightarrow> (Inr x, st'))"

definition finally_op :: "('st, 'a) op \<Rightarrow> ('st \<Rightarrow> 'st) \<Rightarrow> ('st, 'a) op" where
  "finally_op m cleanup st = (case m st of (r, st') \<Rightarrow> (r, cleanup st'))"

text \<open>A cleanup on the error returns only, and an effect that cannot fail.\<close>

definition onfail_op :: "('st, 'a) op \<Rightarrow> ('st \<Rightarrow> 'st) \<Rightarrow> ('st, 'a) op" where
  "onfail_op m cleanup st = (case m st of (Inl e, st') \<Rightarrow> (Inl e, cleanup st') | (Inr x, st') \<Rightarrow> (Inr x, st'))"

definition effect_op :: "('st \<Rightarrow> 'st) \<Rightarrow> ('st, unit) op" where
  "effect_op f st = (Inr (), f st)"

lemma wrap_op_Inr [simp]: "wrap_op p m st = (Inr x, st') \<longleftrightarrow> m st = (Inr x, st')"
  by (auto simp: wrap_op_def split: prod.split sum.split)

lemma keeps_wrap [intro]: "keeps P m \<Longrightarrow> keeps P (wrap_op p m)"
  unfolding keeps_def wrap_op_def by (fastforce split: prod.split sum.split)

lemma keeps_finally [intro]: "keeps P m \<Longrightarrow> (\<And>st. P st \<Longrightarrow> P (c st)) \<Longrightarrow> keeps P (finally_op m c)"
  unfolding keeps_def finally_op_def by (fastforce split: prod.split)

lemma wrap_op_Inl: "wrap_op p m st = (Inl e, st') \<Longrightarrow> \<exists>e'. m st = (Inl e', st')"
  by (auto simp: wrap_op_def split: prod.splits sum.splits)

lemma finally_opD: "finally_op m c st = (r, st') \<Longrightarrow> \<exists>st1. m st = (r, st1) \<and> st' = c st1"
  by (auto simp: finally_op_def split: prod.splits)

lemma triple_wrap: "triple P m Q E \<Longrightarrow> triple P (wrap_op p m) Q E"
  by (rule tripleI) (auto dest: wrap_op_Inl triple_error triple_success)

lemma triple_finally: "triple P m Q E \<Longrightarrow> (\<And>x st. Q x st \<Longrightarrow> Q' x (c st)) \<Longrightarrow> (\<And>st. E st \<Longrightarrow> E' (c st)) \<Longrightarrow>
    triple P (finally_op m c) Q' E'"
  by (rule tripleI) (auto dest!: finally_opD dest: triple_error triple_success)

lemma triple_onfail: "triple P m Q E \<Longrightarrow> (\<And>st. E st \<Longrightarrow> E' (c st)) \<Longrightarrow> triple P (onfail_op m c) Q E'"
  by (rule tripleI)
     (auto simp: onfail_op_def split: prod.splits sum.splits dest: triple_error triple_success)

lemma triple_effect: "(\<And>st. P st \<Longrightarrow> Q (f st)) \<Longrightarrow> triple P (effect_op f) (\<lambda>_. Q) E"
  by (simp add: triple_def effect_op_def)

lemma triple_fail: "(\<And>st. P st \<Longrightarrow> E st) \<Longrightarrow> triple P (fail_op e) Q E"
  by (simp add: triple_def fail_op_def)

lemma triple_if: "(b \<Longrightarrow> triple P m Q E) \<Longrightarrow> (\<not> b \<Longrightarrow> triple P n Q E) \<Longrightarrow> triple P (if b then m else n) Q E"
  by simp

text \<open>The rules that follow the syntax of an action.\<close>

lemma keeps_if: "(b \<Longrightarrow> keeps P m) \<Longrightarrow> (\<not> b \<Longrightarrow> keeps P n) \<Longrightarrow> keeps P (if b then m else n)"
  by simp

lemma keeps_case_prod: "(\<And>a b. keeps P (f a b)) \<Longrightarrow> keeps P (case p of (a, b) \<Rightarrow> f a b)"
  by (cases p) simp

lemma keeps_case_option: "(x = None \<Longrightarrow> keeps P m) \<Longrightarrow> (\<And>a. x = Some a \<Longrightarrow> keeps P (f a)) \<Longrightarrow>
    keeps P (case x of None \<Rightarrow> m | Some a \<Rightarrow> f a)"
  by (cases x) simp_all

lemma keeps_case_list: "(xs = [] \<Longrightarrow> keeps P m) \<Longrightarrow> (\<And>y ys. xs = y # ys \<Longrightarrow> keeps P (f y ys)) \<Longrightarrow>
    keeps P (case xs of [] \<Rightarrow> m | y # ys \<Rightarrow> f y ys)"
  by (cases xs) simp_all

lemma keeps_case_sum: "(\<And>a. x = Inl a \<Longrightarrow> keeps P (f a)) \<Longrightarrow> (\<And>b. x = Inr b \<Longrightarrow> keeps P (g b)) \<Longrightarrow>
    keeps P (case x of Inl a \<Rightarrow> f a | Inr b \<Rightarrow> g b)"
  by (cases x) simp_all

lemmas keeps_rules = keeps_return keeps_fail keeps_bind keeps_try keeps_wrap keeps_if keeps_case_prod
  keeps_case_option keeps_case_list keeps_case_sum

lemma keeps_triple: "keeps P m \<Longrightarrow> triple P m (\<lambda>_. P) P"
  by (rule tripleI) (metis keepsD snd_conv)+

lemma triple_keeps: "triple P m (\<lambda>_. P) P \<Longrightarrow> keeps P m"
  by (rule keepsI) (rule triple_state)

lemma triple_case_prod: "(\<And>a b. p = (a, b) \<Longrightarrow> triple P (f a b) Q E) \<Longrightarrow> triple P (case p of (a, b) \<Rightarrow> f a b) Q E"
  by (cases p) simp

section \<open>Loops over a list\<close>

text \<open>\<open>for _, x := range xs\<close> with an early return on error, collecting the results.\<close>

primrec each_op :: "('a \<Rightarrow> ('st, 'b) op) \<Rightarrow> 'a list \<Rightarrow> ('st, 'b list) op" where
  "each_op f [] = return_op []"
| "each_op f (x # xs) = bind_op (f x) (\<lambda>y. bind_op (each_op f xs) (\<lambda>ys. return_op (y # ys)))"

lemma keeps_each: "(\<And>x. x \<in> set xs \<Longrightarrow> keeps P (f x)) \<Longrightarrow> keeps P (each_op f xs)"
  by (induction xs) (auto intro!: keeps_rules)

end
