(* ===== verification/Store_Engine.thy ===== *)
theory Store_Engine
  imports Model_Types Actions
begin

text \<open>
  The running store: the tables, the outcomes the SQL engine will report to the calls to come,
  and the clock. Code that makes several store calls (\<open>subject/resolver.go\<close>, the
  daemon's handlers) runs over this state, one outcome per call and one clock reading per
  \<open>time.Now()\<close>, so that a failure at any point of a handler is one of the model's runs.
\<close>

record engine =
  en_db :: db
  en_faults :: "outcome list"
  en_now :: instant
  en_ticks :: "int list"

section \<open>Outcomes and the clock\<close>

definition next_outcome :: "engine \<Rightarrow> outcome" where
  "next_outcome en = (case en_faults en of [] \<Rightarrow> None | f # _ \<Rightarrow> f)"

definition on_db :: "(outcome \<Rightarrow> db \<Rightarrow> 'a result \<times> db) \<Rightarrow> (engine, 'a) op" where
  "on_db f en = (case f (next_outcome en) (en_db en) of
     (r, d) \<Rightarrow> (r, en\<lparr>en_db := d, en_faults := tl (en_faults en)\<rparr>))"

definition read_clock :: "engine \<Rightarrow> instant \<times> engine" where
  "read_clock en = (case en_ticks en of
     [] \<Rightarrow> (en_now en, en)
   | t # ts \<Rightarrow> (en_now en + t, en\<lparr>en_now := en_now en + t, en_ticks := ts\<rparr>))"

text \<open>A store call that reads the clock first.\<close>

definition on_db_now :: "(outcome \<Rightarrow> instant \<Rightarrow> db \<Rightarrow> 'a result \<times> db) \<Rightarrow> (engine, 'a) op" where
  "on_db_now f en = (case read_clock en of (now, en') \<Rightarrow> on_db (\<lambda>flt. f flt now) en')"

lemma read_clock_db [simp]: "en_db (snd (read_clock en)) = en_db en"
  by (simp add: read_clock_def split: list.split)

lemma read_clock_faults [simp]: "en_faults (snd (read_clock en)) = en_faults en"
  by (simp add: read_clock_def split: list.split)

lemma on_db_result: "fst (on_db f en) = fst (f (next_outcome en) (en_db en))"
  by (simp add: on_db_def split: prod.split)

lemma on_db_db [simp]: "en_db (snd (on_db f en)) = snd (f (next_outcome en) (en_db en))"
  by (simp add: on_db_def split: prod.split)

lemma next_outcome_clock [simp]: "next_outcome (snd (read_clock en)) = next_outcome en"
  by (simp add: next_outcome_def)

lemma on_db_now_result:
  "fst (on_db_now f en) = fst (f (next_outcome en) (fst (read_clock en)) (en_db en))"
  using read_clock_db [of en] next_outcome_clock [of en]
  by (cases "read_clock en") (simp add: on_db_now_def on_db_result)

lemma on_db_now_db [simp]:
  "en_db (snd (on_db_now f en)) = snd (f (next_outcome en) (fst (read_clock en)) (en_db en))"
  using read_clock_db [of en] next_outcome_clock [of en]
  by (cases "read_clock en") (simp add: on_db_now_def)

lemma on_db_keeps:
  assumes "\<And>flt d. P d \<Longrightarrow> P (snd (f flt d))"
  shows "keeps (\<lambda>en. P (en_db en)) (on_db f)"
  using assms by (simp add: keeps_def)

lemma on_db_now_keeps:
  assumes "\<And>flt now d. P d \<Longrightarrow> P (snd (f flt now d))"
  shows "keeps (\<lambda>en. P (en_db en)) (on_db_now f)"
  using assms by (simp add: keeps_def)

text \<open>A store call seen through the tables: its answer and its effect for some outcome.\<close>

lemma on_db_call:
  assumes "on_db f en = (r, en')"
  shows "f (next_outcome en) (en_db en) = (r, en_db en')"
  using assms by (auto simp: on_db_def split: prod.splits)

lemma on_db_now_call:
  assumes "on_db_now f en = (r, en')"
  shows "f (next_outcome en) (fst (read_clock en)) (en_db en) = (r, en_db en')"
  using assms on_db_now_result [of f en] on_db_now_db [of f en] by (metis fst_conv snd_conv prod.collapse)

end
