(* ===== verification/Subject_Store.thy ===== *)
theory Subject_Store
  imports Store_Engine
begin

text \<open>
  The SQL implementation of \<open>subject.Store\<close> (\<open>store/subjectstore.go\<close>): one
  definition per statement, with the three unique indexes of the \<open>subjects\<close> table
  (primary key, non-empty slug, non-NULL session within a scope) as the cases in which an
  insertion or an update is refused. The invariant is that those indexes hold.
\<close>

section \<open>Statements\<close>

definition scanSubject :: "subject_row \<Rightarrow> Subject" where
  "scanSubject r =
     \<lparr>s_ID = sb_id r, s_Slug = sb_slug r, s_SessionID = ofNull (sb_session r),
      s_Scope = sb_scope r, s_ClaudePID = sb_pid r, s_Status = sb_status r,
      s_CreatedAt = fromUnix (sb_created r), s_UpdatedAt = fromUnix (sb_updated r)\<rparr>"

definition FindBySessionScope :: "outcome \<Rightarrow> string \<Rightarrow> string \<Rightarrow> db \<Rightarrow> Subject option result \<times> db" where
  "FindBySessionScope flt session scope d =
     (if session = [] then (Inr None, d)
      else db_call flt (\<lambda>d. (Inr (map_option scanSubject
             (find_first (\<lambda>r. sb_session r = Some session \<and> sb_scope r = scope) (subjects d))), d)) d)"

definition latest_row :: "subject_row list \<Rightarrow> subject_row option" where
  "latest_row rs = (if rs = [] then None else Some (last (sort_key sb_created rs)))"

definition FindLatestByWindowScope :: "outcome \<Rightarrow> int \<Rightarrow> string \<Rightarrow> db \<Rightarrow> Subject option result \<times> db" where
  "FindLatestByWindowScope flt claudePID scope d =
     (if claudePID = 0 then (Inr None, d)
      else db_call flt (\<lambda>d. (Inr (map_option scanSubject
             (latest_row (filter (\<lambda>r. sb_pid r = claudePID \<and> sb_scope r = scope) (subjects d)))), d)) d)"

definition subject_conflict :: "subject_row \<Rightarrow> subject_row \<Rightarrow> bool" where
  "subject_conflict q r \<longleftrightarrow> sb_id q = sb_id r
     \<or> (sb_slug r \<noteq> [] \<and> sb_slug q = sb_slug r)
     \<or> (sb_session r \<noteq> None \<and> sb_session q = sb_session r \<and> sb_scope q = sb_scope r)"

definition Create :: "outcome \<Rightarrow> instant \<Rightarrow> string \<Rightarrow> string \<Rightarrow> string \<Rightarrow> string \<Rightarrow> int \<Rightarrow> string
    \<Rightarrow> db \<Rightarrow> Subject result \<times> db" where
  "Create flt now sid slug session scope claudePID status d =
     (let s = \<lparr>s_ID = sid, s_Slug = slug, s_SessionID = session, s_Scope = scope,
               s_ClaudePID = claudePID, s_Status = status, s_CreatedAt = now, s_UpdatedAt = now\<rparr>;
          row = \<lparr>sb_id = sid, sb_slug = slug, sb_session = nullString session, sb_scope = scope,
                 sb_pid = claudePID, sb_status = status, sb_created = unix now, sb_updated = unix now\<rparr>
      in case db_call flt (\<lambda>d. if list_ex (\<lambda>q. subject_conflict q row) (subjects d)
                then (Inl unique_failed, d)
                else (Inr (), d\<lparr>subjects := subjects d @ [row]\<rparr>)) d of
           (Inl er, d') \<Rightarrow> (Inl (ErrWrap ''create subject'' er), d')
         | (Inr _, d') \<Rightarrow> (Inr s, d'))"

definition update_subjects :: "(subject_row \<Rightarrow> bool) \<Rightarrow> (subject_row \<Rightarrow> subject_row) \<Rightarrow> db \<Rightarrow> db" where
  "update_subjects P f d = d\<lparr>subjects := map (\<lambda>r. if P r then f r else r) (subjects d)\<rparr>"

definition st_Rebind :: "outcome \<Rightarrow> instant \<Rightarrow> string \<Rightarrow> int \<Rightarrow> string \<Rightarrow> int \<Rightarrow> db \<Rightarrow> bool result \<times> db" where
  "st_Rebind flt now sid fromPID session claudePID d =
     (let hit = (\<lambda>r. sb_id r = sid \<and> sb_pid r = fromPID);
          set_row = (\<lambda>r. r\<lparr>sb_session := nullString session, sb_pid := claudePID, sb_updated := unix now\<rparr>)
      in case db_call flt (\<lambda>d. if list_ex (\<lambda>r. hit r \<and>
                  list_ex (\<lambda>q. sb_id q \<noteq> sid \<and> subject_conflict q (set_row r)) (subjects d)) (subjects d)
                then (Inl unique_failed, d)
                else (Inr (length (filter hit (subjects d)) = 1), update_subjects hit set_row d)) d of
           (Inl er, d') \<Rightarrow> (Inl (ErrWrap ''rebind subject'' er), d')
         | (Inr swapped, d') \<Rightarrow> (Inr swapped, d'))"

definition SetStatus :: "outcome \<Rightarrow> instant \<Rightarrow> string \<Rightarrow> string \<Rightarrow> db \<Rightarrow> unit result \<times> db" where
  "SetStatus flt now sid status d =
     (case db_call flt (\<lambda>d. (Inr (), update_subjects (\<lambda>r. sb_id r = sid)
             (\<lambda>r. r\<lparr>sb_status := status, sb_updated := unix now\<rparr>) d)) d of
        (Inl er, d') \<Rightarrow> (Inl (ErrWrap ''set subject status'' er), d')
      | (Inr _, d') \<Rightarrow> (Inr (), d'))"

definition Detach :: "outcome \<Rightarrow> instant \<Rightarrow> string \<Rightarrow> db \<Rightarrow> unit result \<times> db" where
  "Detach flt now sid d =
     (case db_call flt (\<lambda>d. (Inr (), update_subjects (\<lambda>r. sb_id r = sid)
             (\<lambda>r. r\<lparr>sb_session := None, sb_pid := 0, sb_updated := unix now\<rparr>) d)) d of
        (Inl er, d') \<Rightarrow> (Inl (ErrWrap ''detach subject'' er), d')
      | (Inr _, d') \<Rightarrow> (Inr (), d'))"

definition st_Get :: "outcome \<Rightarrow> string \<Rightarrow> db \<Rightarrow> Subject result \<times> db" where
  "st_Get flt sid = db_call flt (\<lambda>d.
     (case find_first (\<lambda>r. sb_id r = sid) (subjects d) of
        None \<Rightarrow> (Inl ErrNotFound, d)
      | Some r \<Rightarrow> (Inr (scanSubject r), d)))"

lemmas subject_statements = FindBySessionScope_def FindLatestByWindowScope_def Create_def
  st_Rebind_def SetStatus_def Detach_def st_Get_def

section \<open>The indexes hold\<close>

definition subjects_inv :: "db \<Rightarrow> bool" where
  "subjects_inv d \<longleftrightarrow> distinct (map sb_id (subjects d)) \<and>
     (\<forall>q \<in> set (subjects d). \<forall>r \<in> set (subjects d). sb_id q \<noteq> sb_id r \<longrightarrow> \<not> subject_conflict q r) \<and>
     (\<forall>r \<in> set (subjects d). sb_session r \<noteq> Some [])"

lemma subjects_inv_empty [simp]: "subjects_inv empty_db"
  by (simp add: subjects_inv_def empty_db_def)

lemma row_unique:
  "subjects_inv d \<Longrightarrow> q \<in> set (subjects d) \<Longrightarrow> r \<in> set (subjects d) \<Longrightarrow> sb_id q = sb_id r \<Longrightarrow> q = r"
  unfolding subjects_inv_def by (metis distinct_map inj_onD)

lemma session_unique:
  assumes "subjects_inv d" "q \<in> set (subjects d)" "r \<in> set (subjects d)"
    "sb_session q = Some s" "sb_session r = Some s" "sb_scope q = sb_scope r"
  shows "q = r"
proof (rule row_unique [OF assms(1-3)], rule ccontr)
  assume "sb_id q \<noteq> sb_id r"
  then have "\<not> subject_conflict q r" using assms(1-3) by (simp add: subjects_inv_def)
  then show False using assms(4-6) by (simp add: subject_conflict_def)
qed

lemma subjects_update_subjects [simp]:
  "subjects (update_subjects P f d) = map (\<lambda>r. if P r then f r else r) (subjects d)"
  by (simp add: update_subjects_def)

lemma update_subjects_rest [simp]:
  "events (update_subjects P f d) = events d" "agents (update_subjects P f d) = agents d"
  "directives (update_subjects P f d) = directives d"
  by (simp_all add: update_subjects_def)

lemma update_subjects_inv:
  assumes "subjects_inv d"
    and "\<And>r. sb_id (f r) = sb_id r \<and> sb_slug (f r) = sb_slug r \<and> sb_scope (f r) = sb_scope r"
    and "\<And>r. r \<in> set (subjects d) \<Longrightarrow> P r \<Longrightarrow> sb_session (f r) \<noteq> Some []"
    and "\<And>q r. q \<in> set (subjects d) \<Longrightarrow> r \<in> set (subjects d) \<Longrightarrow> P r \<Longrightarrow> sb_id q \<noteq> sb_id r \<Longrightarrow>
      sb_session (f r) = None \<or> sb_session q \<noteq> sb_session (f r) \<or> sb_scope q \<noteq> sb_scope r"
    and "\<And>q r. P q \<Longrightarrow> P r \<Longrightarrow> q \<in> set (subjects d) \<Longrightarrow> r \<in> set (subjects d) \<Longrightarrow> q = r"
  shows "subjects_inv (update_subjects P f d)"
proof -
  let ?g = "\<lambda>r. if P r then f r else r"
  have ids: "sb_id (?g r) = sb_id r" for r using assms(2) by simp
  have "\<not> subject_conflict (?g q) (?g r)"
    if "q \<in> set (subjects d)" "r \<in> set (subjects d)" "sb_id q \<noteq> sb_id r" for q r
  proof -
    have "\<not> subject_conflict q r" "\<not> subject_conflict r q"
      using assms(1) that by (auto simp: subjects_inv_def)
    then show ?thesis
      using assms(2) assms(4) [OF that(1,2)] assms(4) [OF that(2,1)] assms(5) [of q r] that
      unfolding subject_conflict_def by (cases "P q"; cases "P r"; simp; metis)
  qed
  moreover have "distinct (map sb_id (map ?g (subjects d)))"
    using assms(1) ids by (simp add: subjects_inv_def o_def)
  moreover have "sb_session (?g r) \<noteq> Some []" if "r \<in> set (subjects d)" for r
    using assms(1,3) that by (simp add: subjects_inv_def)
  ultimately show ?thesis
    unfolding subjects_inv_def subjects_update_subjects set_map ball_simps(9) ids by blast
qed

lemma st_Rebind_inv:
  assumes "subjects_inv d"
  shows "subjects_inv (snd (st_Rebind flt now sid p session pid d))"
proof (cases flt)
  case None
  let ?hit = "\<lambda>r. sb_id r = sid \<and> sb_pid r = p"
  let ?f = "\<lambda>r. r\<lparr>sb_session := nullString session, sb_pid := pid, sb_updated := unix now\<rparr>"
  have "subjects_inv (update_subjects ?hit ?f d)"
    if "\<not> list_ex (\<lambda>r. ?hit r \<and> list_ex (\<lambda>q. sb_id q \<noteq> sid \<and> subject_conflict q (?f r)) (subjects d)) (subjects d)"
  proof (rule update_subjects_inv [OF assms])
    show "sb_session (?f r) = None \<or> sb_session q \<noteq> sb_session (?f r) \<or> sb_scope q \<noteq> sb_scope r"
      if "q \<in> set (subjects d)" "r \<in> set (subjects d)" "?hit r" "sb_id q \<noteq> sb_id r" for q r
    proof -
      have "\<not> subject_conflict q (?f r)" using that \<open>\<not> list_ex _ _\<close> unfolding list_ex_iff by blast
      then show ?thesis by (auto simp: subject_conflict_def)
    qed
    show "q = r" if "?hit q" "?hit r" "q \<in> set (subjects d)" "r \<in> set (subjects d)" for q r
      using row_unique [OF assms that(3,4)] that by simp
  qed simp_all
  then show ?thesis using None assms by (auto simp: st_Rebind_def Let_def)
qed (simp add: st_Rebind_def Let_def assms)

lemma update_by_id_inv:
  assumes "subjects_inv d"
    and "\<And>r. sb_id (f r) = sb_id r \<and> sb_slug (f r) = sb_slug r \<and> sb_scope (f r) = sb_scope r"
    and "\<And>r. sb_session (f r) = sb_session r \<or> sb_session (f r) = None"
  shows "subjects_inv (update_subjects (\<lambda>r. sb_id r = sid) f d)"
proof (rule update_subjects_inv [OF assms(1,2)])
  show "sb_session (f r) \<noteq> Some []" if "r \<in> set (subjects d)" for r
    using assms(1) assms(3) [of r] that by (auto simp: subjects_inv_def)
  show "sb_session (f r) = None \<or> sb_session q \<noteq> sb_session (f r) \<or> sb_scope q \<noteq> sb_scope r"
    if "q \<in> set (subjects d)" "r \<in> set (subjects d)" "sb_id q \<noteq> sb_id r" for q r
  proof -
    have "\<not> subject_conflict q r" using assms(1) that by (simp add: subjects_inv_def)
    then show ?thesis using assms(3) [of r] by (auto simp: subject_conflict_def)
  qed
qed (use row_unique [OF assms(1)] in auto)

lemma SetStatus_inv: "subjects_inv d \<Longrightarrow> subjects_inv (snd (SetStatus flt now sid status d))"
  by (cases flt) (simp_all add: SetStatus_def update_by_id_inv)

lemma Detach_inv: "subjects_inv d \<Longrightarrow> subjects_inv (snd (Detach flt now sid d))"
  by (cases flt) (simp_all add: Detach_def update_by_id_inv)

lemma Create_inv: "subjects_inv d \<Longrightarrow> subjects_inv (snd (Create flt now sid slug session scope pid status d))"
proof (cases flt)
  case None
  assume "subjects_inv d"
  then show ?thesis
    unfolding None by (auto simp: Create_def Let_def list_ex_iff subjects_inv_def subject_conflict_def)
qed (simp add: Create_def)

lemma subject_reads_pure [simp]:
  "snd (FindBySessionScope flt session scope d) = d"
  "snd (FindLatestByWindowScope flt pid scope d) = d"
  "snd (st_Get flt sid d) = d"
  by (cases flt; simp add: FindBySessionScope_def FindLatestByWindowScope_def st_Get_def split: option.split)+

lemma latest_row_None [simp]: "latest_row rs = None \<longleftrightarrow> rs = []"
  by (simp add: latest_row_def)

lemma latest_row_SomeD:
  assumes "latest_row rs = Some r"
  shows "r \<in> set rs \<and> (\<forall>q \<in> set rs. sb_created q \<le> sb_created r)"
proof -
  have r: "rs \<noteq> []" "r = last (sort_key sb_created rs)"
    using assms by (auto simp: latest_row_def split: if_splits)
  then have ne: "sort_key sb_created rs \<noteq> []" by (metis set_empty set_sort)
  have "sorted (map sb_created (sort_key sb_created rs))" by simp
  from sorted_last_ge [OF this] have "sb_created q \<le> sb_created r" if "q \<in> set rs" for q
    using that r(2) by simp
  moreover have "r \<in> set rs" using last_in_set [OF ne] r(2) by simp
  ultimately show ?thesis by blast
qed

end
