(* ===== verification/Subject_Resolver.thy ===== *)
theory Subject_Resolver
  imports Subject_Store
begin

text \<open>
  The ownership resolver (\<open>subject/resolver.go\<close>) over the interface \<open>subject.Store\<close>
  (\<open>subject/store.go\<close>). The interface is a record of operations, as it is in Go; the locale
  \<open>subject_contract\<close> states what each of them promises about the table of subjects, the
  lemmas on \<open>Start\<close>, \<open>Rebind\<close> and \<open>Settle\<close> are proved from those promises, and
  the SQL store is shown to keep them.
\<close>

section \<open>The interface\<close>

record 'st subject_ops =
  op_FindBySessionScope :: "string \<Rightarrow> string \<Rightarrow> ('st, Subject option) op"
  op_FindLatestByWindowScope :: "int \<Rightarrow> string \<Rightarrow> ('st, Subject option) op"
  op_Create :: "string \<Rightarrow> string \<Rightarrow> string \<Rightarrow> string \<Rightarrow> int \<Rightarrow> string \<Rightarrow> ('st, Subject) op"
  op_Rebind :: "string \<Rightarrow> int \<Rightarrow> string \<Rightarrow> int \<Rightarrow> ('st, bool) op"
  op_SetStatus :: "string \<Rightarrow> string \<Rightarrow> ('st, unit) op"
  op_Detach :: "string \<Rightarrow> ('st, unit) op"
  op_Get :: "string \<Rightarrow> ('st, Subject) op"

record 'st Resolver =
  rs_Store :: "'st subject_ops"
  rs_Active :: "Subject \<Rightarrow> bool"
  rs_LiveWindow :: "(int \<Rightarrow> bool) option"

section \<open>The resolver\<close>

definition hexDigit :: "nat \<Rightarrow> char" where
  "hexDigit n = ''0123456789abcdef'' ! (n mod 16)"

definition newID :: "nat list \<Rightarrow> string" where
  "newID draw = concat (map (\<lambda>b. [hexDigit (b div 16), hexDigit b]) draw)"

definition liveWindow :: "'st Resolver \<Rightarrow> int \<Rightarrow> bool" where
  "liveWindow rs pid \<longleftrightarrow> pid \<noteq> 0 \<and> (case rs_LiveWindow rs of None \<Rightarrow> False | Some live \<Rightarrow> live pid)"

definition Find :: "'st Resolver \<Rightarrow> Window \<Rightarrow> string \<Rightarrow> ('st, Subject option) op" where
  "Find rs w scope =
     bind_op (op_FindBySessionScope (rs_Store rs) (w_Session w) scope) (\<lambda>found.
       case found of
         Some s \<Rightarrow> return_op (Some s)
       | None \<Rightarrow> op_FindLatestByWindowScope (rs_Store rs) (w_ClaudePID w) scope)"

definition create :: "'st Resolver \<Rightarrow> nat list \<Rightarrow> Window \<Rightarrow> string \<Rightarrow> string \<Rightarrow> string
    \<Rightarrow> ('st, Subject \<times> bool) op" where
  "create rs draw w scope slug status =
     bind_op (op_Create (rs_Store rs) (newID draw) slug (w_Session w) scope (w_ClaudePID w) status)
       (\<lambda>s. return_op (s, False))"

definition Start :: "'st Resolver \<Rightarrow> nat list \<Rightarrow> Window \<Rightarrow> string \<Rightarrow> string \<Rightarrow> Lifecycle \<Rightarrow> bool
    \<Rightarrow> ('st, Subject \<times> bool) op" where
  "Start rs draw w scope slug lc fresh =
     (if fresh then
        bind_op (op_FindBySessionScope (rs_Store rs) (w_Session w) scope) (\<lambda>found.
          case found of
            Some s \<Rightarrow>
              bind_op (op_SetStatus (rs_Store rs) (s_ID s) (lc_Closed lc)) (\<lambda>_.
              bind_op (op_Detach (rs_Store rs) (s_ID s)) (\<lambda>_.
              create rs draw w scope slug (lc_Initial lc)))
          | None \<Rightarrow> create rs draw w scope slug (lc_Initial lc))
      else
        bind_op (op_FindBySessionScope (rs_Store rs) (w_Session w) scope) (\<lambda>found.
          case found of
            Some s \<Rightarrow>
              (if w_ClaudePID w \<noteq> 0 \<and> s_ClaudePID s \<noteq> w_ClaudePID w \<and> \<not> liveWindow rs (s_ClaudePID s) then
                 bind_op (op_Rebind (rs_Store rs) (s_ID s) (s_ClaudePID s) (w_Session w) (w_ClaudePID w)) (\<lambda>swapped.
                   if swapped then return_op (s\<lparr>s_ClaudePID := w_ClaudePID w\<rparr>, True)
                   else bind_op (op_Get (rs_Store rs) (s_ID s)) (\<lambda>s'. return_op (s', True)))
               else return_op (s, True))
          | None \<Rightarrow>
              bind_op (op_FindLatestByWindowScope (rs_Store rs) (w_ClaudePID w) scope) (\<lambda>latest.
                case latest of
                  Some s \<Rightarrow>
                    bind_op (op_Rebind (rs_Store rs) (s_ID s) (s_ClaudePID s) (w_Session w) (w_ClaudePID w)) (\<lambda>swapped.
                      if swapped then return_op (s\<lparr>s_SessionID := w_Session w\<rparr>, True)
                      else create rs draw w scope slug (lc_Initial lc))
                | None \<Rightarrow> create rs draw w scope slug (lc_Initial lc))))"

definition Rebind :: "'st Resolver \<Rightarrow> Window \<Rightarrow> string \<Rightarrow> ('st, unit) op" where
  "Rebind rs w scope =
     (if w_Session w = [] then return_op ()
      else
        bind_op (op_FindBySessionScope (rs_Store rs) (w_Session w) scope) (\<lambda>found.
          case found of
            Some _ \<Rightarrow> return_op ()
          | None \<Rightarrow>
              bind_op (op_FindLatestByWindowScope (rs_Store rs) (w_ClaudePID w) scope) (\<lambda>latest.
                case latest of
                  Some s \<Rightarrow>
                    (if rs_Active rs s then
                       bind_op (op_Rebind (rs_Store rs) (s_ID s) (s_ClaudePID s) (w_Session w) (w_ClaudePID w))
                         (\<lambda>_. return_op ())
                     else return_op ())
                | None \<Rightarrow> return_op ())))"

definition Settle :: "'st Resolver \<Rightarrow> Window \<Rightarrow> string \<Rightarrow> ('st, string) op" where
  "Settle rs w scope =
     bind_op (op_FindBySessionScope (rs_Store rs) (w_Session w) scope) (\<lambda>found.
       case found of
         None \<Rightarrow> bind_op (Rebind rs w scope) (\<lambda>_. return_op [])
       | Some held \<Rightarrow>
           bind_op (op_FindLatestByWindowScope (rs_Store rs) (w_ClaudePID w) scope) (\<lambda>found_latest.
           bind_op (case found_latest of
               Some latest \<Rightarrow>
                 (if s_ID latest \<noteq> s_ID held \<and> s_CreatedAt held < s_CreatedAt latest
                  then bind_op (op_Detach (rs_Store rs) (s_ID latest)) (\<lambda>_. return_op (s_ID latest))
                  else return_op [])
             | None \<Rightarrow> return_op []) (\<lambda>boot.
           if w_ClaudePID w \<noteq> 0 \<and> s_ClaudePID held \<noteq> w_ClaudePID w
           then bind_op (op_Rebind (rs_Store rs) (s_ID held) (s_ClaudePID held) (w_Session w) (w_ClaudePID w))
                  (\<lambda>_. return_op boot)
           else return_op boot)))"

section \<open>What a start may do\<close>

text \<open>
  The specification of \<open>Start\<close> over the table as a map: the row bound to the window's
  session, the rows bound to its pid, and the one change each way of starting makes.
\<close>

definition session_bound :: "Window \<Rightarrow> string \<Rightarrow> (string \<Rightarrow> Subject option) \<Rightarrow> Subject \<Rightarrow> bool" where
  "session_bound w sc T q \<longleftrightarrow> T (s_ID q) = Some q \<and> w_Session w \<noteq> [] \<and> s_SessionID q = w_Session w \<and> s_Scope q = sc"

definition window_bound :: "Window \<Rightarrow> string \<Rightarrow> (string \<Rightarrow> Subject option) \<Rightarrow> Subject \<Rightarrow> bool" where
  "window_bound w sc T q \<longleftrightarrow> T (s_ID q) = Some q \<and> w_ClaudePID w \<noteq> 0 \<and> s_ClaudePID q = w_ClaudePID w \<and> s_Scope q = sc"

definition start_spec :: "'st Resolver \<Rightarrow> Window \<Rightarrow> string \<Rightarrow> Lifecycle \<Rightarrow> bool \<Rightarrow> (string \<Rightarrow> Subject option)
    \<Rightarrow> Subject \<Rightarrow> bool \<Rightarrow> (string \<Rightarrow> Subject option) \<Rightarrow> bool" where
  "start_spec rs w sc lc fresh T s resumed T' \<longleftrightarrow>
     (if resumed then \<not> fresh \<and>
        ((session_bound w sc T s \<and> T' = T \<and>
            (w_ClaudePID w = 0 \<or> s_ClaudePID s = w_ClaudePID w \<or> liveWindow rs (s_ClaudePID s))) \<or>
         (\<exists>q t. s_ID s = s_ID q \<and> s_SessionID s = w_Session w \<and> s_Scope q = sc \<and>
            (session_bound w sc T q \<and> \<not> liveWindow rs (s_ClaudePID q) \<or>
             window_bound w sc T q \<and> (\<forall>p. \<not> session_bound w sc T p)) \<and>
            T' = T(s_ID q \<mapsto> q\<lparr>s_SessionID := w_Session w, s_ClaudePID := w_ClaudePID w, s_UpdatedAt := t\<rparr>)))
      else T (s_ID s) = None \<and> s_SessionID s = w_Session w \<and> s_Scope s = sc \<and>
        s_ClaudePID s = w_ClaudePID w \<and> s_Status s = lc_Initial lc \<and>
        (\<exists>t u. T' = T(s_ID s \<mapsto> s\<lparr>s_CreatedAt := t, s_UpdatedAt := u\<rparr>) \<and> (\<forall>p. \<not> session_bound w sc T p) \<or>
          fresh \<and> (\<exists>q v. session_bound w sc T q \<and>
            T' = T(s_ID q \<mapsto> q\<lparr>s_Status := lc_Closed lc, s_SessionID := [], s_ClaudePID := 0, s_UpdatedAt := v\<rparr>,
                   s_ID s \<mapsto> s\<lparr>s_CreatedAt := t, s_UpdatedAt := u\<rparr>))))"

text \<open>A failed start changes at most the row bound to the session.\<close>

definition start_failed :: "Window \<Rightarrow> string \<Rightarrow> bool \<Rightarrow> (string \<Rightarrow> Subject option) \<Rightarrow> (string \<Rightarrow> Subject option) \<Rightarrow> bool" where
  "start_failed w sc fresh T T' \<longleftrightarrow> T' = T \<or> (fresh \<and> (\<exists>q q'. session_bound w sc T q \<and> T' = T(s_ID q \<mapsto> q')))"

text \<open>
  \<open>Rebind\<close> moves at most one row, an active one of the window itself. \<open>Settle\<close>, for a
  window whose session already holds a subject, moves that subject onto the window and
  detaches at most one younger subject of the window.
\<close>

definition rebind_spec :: "'st Resolver \<Rightarrow> Window \<Rightarrow> string \<Rightarrow> (string \<Rightarrow> Subject option)
    \<Rightarrow> (string \<Rightarrow> Subject option) \<Rightarrow> bool" where
  "rebind_spec rs w sc T T' \<longleftrightarrow> T' = T \<or>
     (\<exists>q t. window_bound w sc T q \<and> rs_Active rs q \<and> w_Session w \<noteq> [] \<and> (\<forall>p. \<not> session_bound w sc T p) \<and>
        T' = T(s_ID q \<mapsto> q\<lparr>s_SessionID := w_Session w, s_ClaudePID := w_ClaudePID w, s_UpdatedAt := t\<rparr>))"

definition settle_boot :: "Window \<Rightarrow> string \<Rightarrow> Subject \<Rightarrow> (string \<Rightarrow> Subject option) \<Rightarrow> string
    \<Rightarrow> (string \<Rightarrow> Subject option) \<Rightarrow> bool" where
  "settle_boot w sc held T boot T' \<longleftrightarrow>
     (boot = [] \<and> T' = T \<and> (\<forall>q. window_bound w sc T q \<longrightarrow> s_CreatedAt q \<le> s_CreatedAt held)) \<or>
     (\<exists>l t. window_bound w sc T l \<and> boot = s_ID l \<and> s_ID l \<noteq> s_ID held \<and> s_CreatedAt held < s_CreatedAt l \<and>
        (\<forall>q. window_bound w sc T q \<longrightarrow> s_CreatedAt q \<le> s_CreatedAt l) \<and>
        T' = T(s_ID l \<mapsto> l\<lparr>s_SessionID := [], s_ClaudePID := 0, s_UpdatedAt := t\<rparr>))"

definition settle_spec :: "Window \<Rightarrow> string \<Rightarrow> Subject \<Rightarrow> (string \<Rightarrow> Subject option) \<Rightarrow> string
    \<Rightarrow> (string \<Rightarrow> Subject option) \<Rightarrow> bool" where
  "settle_spec w sc held T boot T' \<longleftrightarrow>
     (\<exists>T1. settle_boot w sc held T boot T1 \<and>
        (if w_ClaudePID w \<noteq> 0 \<and> s_ClaudePID held \<noteq> w_ClaudePID w
         then \<exists>t. T' = T1(s_ID held \<mapsto> held\<lparr>s_SessionID := w_Session w, s_ClaudePID := w_ClaudePID w, s_UpdatedAt := t\<rparr>)
         else T' = T1))"

lemma update_other: "T (s_ID p) = Some p \<Longrightarrow> T i = Some q \<Longrightarrow> p \<noteq> q \<Longrightarrow> (T(s_ID p \<mapsto> x)) i = Some q"
  by auto

lemma update_new: "T j = None \<Longrightarrow> T i = Some q \<Longrightarrow> (T(j \<mapsto> x)) i = Some q"
  by auto

lemma bound_in:
  "session_bound w sc T q \<Longrightarrow> T (s_ID q) = Some q" "window_bound w sc T q \<Longrightarrow> T (s_ID q) = Some q"
  by (simp_all add: session_bound_def window_bound_def)

lemma start_spec_cases:
  assumes "start_spec rs w sc lc fresh T s resumed T'"
  obtains (same) "resumed" "\<not> fresh" "session_bound w sc T s" "T' = T"
  | (moved) q t where "resumed" "\<not> fresh" "s_ID s = s_ID q" "s_SessionID s = w_Session w" "s_Scope q = sc"
      "session_bound w sc T q \<and> \<not> liveWindow rs (s_ClaudePID q) \<or> window_bound w sc T q"
      "T' = T(s_ID q \<mapsto> q\<lparr>s_SessionID := w_Session w, s_ClaudePID := w_ClaudePID w, s_UpdatedAt := t\<rparr>)"
  | (new) t u where "\<not> resumed" "T (s_ID s) = None" "s_SessionID s = w_Session w" "s_Scope s = sc"
      "T' = T(s_ID s \<mapsto> s\<lparr>s_CreatedAt := t, s_UpdatedAt := u\<rparr>)"
  | (renewed) q t u v where "\<not> resumed" "fresh" "T (s_ID s) = None" "s_SessionID s = w_Session w" "s_Scope s = sc"
      "session_bound w sc T q" "T' = T(s_ID q \<mapsto> q\<lparr>s_Status := lc_Closed lc, s_SessionID := [], s_ClaudePID := 0, s_UpdatedAt := v\<rparr>,
                   s_ID s \<mapsto> s\<lparr>s_CreatedAt := t, s_UpdatedAt := u\<rparr>)"
  using assms unfolding start_spec_def by (cases resumed) (simp_all only: if_True if_False, blast+)

lemma start_spec_frame:
  assumes spec: "start_spec rs w sc lc fresh T s resumed T'" and q: "T i = Some q"
    and "\<not> session_bound w sc T q" and "fresh \<or> \<not> window_bound w sc T q"
  shows "T' i = Some q"
  using spec
proof (cases rule: start_spec_cases)
  case (moved p t)
  then have "T (s_ID p) = Some p" "p \<noteq> q" using assms(3,4) bound_in by blast+
  then show ?thesis unfolding moved(7) using q by (metis update_other)
next
  case (renewed p t u v)
  then have "T (s_ID p) = Some p" "p \<noteq> q" using assms(3) bound_in by blast+
  then show ?thesis unfolding renewed(7)
    using q renewed(3) update_other [of T p i q] by (cases "s_ID s = i") simp_all
qed (use q in \<open>auto simp: update_new\<close>)

lemma start_spec_binds:
  assumes spec: "start_spec rs w sc lc fresh T s resumed T'"
  shows "s_SessionID s = w_Session w \<and> (resumed \<longleftrightarrow> T (s_ID s) \<noteq> None) \<and>
    (\<exists>q. T' (s_ID s) = Some q \<and> s_SessionID q = w_Session w \<and> s_Scope q = sc)"
  using spec
proof (cases rule: start_spec_cases)
  case (moved p t)
  then show ?thesis using bound_in [of w sc T p] by auto
qed (simp_all add: session_bound_def)

lemma start_spec_live:
  assumes spec: "start_spec rs w sc lc False T s resumed T'" and q: "T i = Some q"
    and "liveWindow rs (s_ClaudePID q)" and "s_ClaudePID q \<noteq> w_ClaudePID w"
  shows "T' i = Some q"
  using spec
proof (cases rule: start_spec_cases)
  case (moved p t)
  then have "T (s_ID p) = Some p" using bound_in by blast
  moreover have "p \<noteq> q" using moved(6) assms(3,4) unfolding window_bound_def by blast
  ultimately show ?thesis unfolding moved(7) using q by (metis update_other)
qed (use q in \<open>auto simp: update_new\<close>)

lemma start_failed_frame:
  assumes "start_failed w sc fresh T T'" and "T i = Some q" and "\<not> session_bound w sc T q"
  shows "T' i = Some q"
proof (cases "T' = T")
  case False
  then obtain p p' where "session_bound w sc T p" "T' = T(s_ID p \<mapsto> p')"
    using assms(1) unfolding start_failed_def by blast
  then show ?thesis using assms(2,3) bound_in(1) update_other by metis
qed (simp add: assms)

section \<open>The contract\<close>

text \<open>
  \<open>tbl\<close> is the table as a map from ids to subjects and \<open>ok\<close> the store's own invariant.
  Each law is the sentence of \<open>subject/store.go\<close> on the operation: what it answers and
  what it changes, an error changing nothing.
\<close>

locale subject_contract =
  fixes ops :: "'st subject_ops"
    and tbl :: "'st \<Rightarrow> string \<Rightarrow> Subject option"
    and ok :: "'st \<Rightarrow> bool"
  assumes tbl_id: "ok st \<Longrightarrow> tbl st i = Some s \<Longrightarrow> s_ID s = i"
    and session_owner: "ok st \<Longrightarrow> tbl st i = Some s \<Longrightarrow> tbl st j = Some q \<Longrightarrow>
      s_SessionID s \<noteq> [] \<Longrightarrow> s_SessionID q = s_SessionID s \<Longrightarrow> s_Scope q = s_Scope s \<Longrightarrow> i = j"
    and ok_ops: "keeps ok (op_FindBySessionScope ops se sc)" "keeps ok (op_FindLatestByWindowScope ops pid sc)"
      "keeps ok (op_Create ops i slug se sc pid status)" "keeps ok (op_Rebind ops i p se pid)"
      "keeps ok (op_SetStatus ops i status)" "keeps ok (op_Detach ops i)" "keeps ok (op_Get ops i)"
    and reads: "tbl (snd (op_FindBySessionScope ops se sc st)) = tbl st"
      "tbl (snd (op_FindLatestByWindowScope ops pid sc st)) = tbl st" "tbl (snd (op_Get ops i st)) = tbl st"
    and session_found: "ok st \<Longrightarrow> op_FindBySessionScope ops se sc st = (Inr (Some s), st') \<Longrightarrow>
      tbl st (s_ID s) = Some s \<and> s_SessionID s = se \<and> s_Scope s = sc \<and> se \<noteq> []"
    and session_none: "ok st \<Longrightarrow> op_FindBySessionScope ops se sc st = (Inr None, st') \<Longrightarrow>
      se = [] \<or> (\<forall>i s. tbl st i = Some s \<longrightarrow> s_SessionID s = se \<longrightarrow> s_Scope s \<noteq> sc)"
    and latest_found: "ok st \<Longrightarrow> op_FindLatestByWindowScope ops pid sc st = (Inr (Some s), st') \<Longrightarrow>
      tbl st (s_ID s) = Some s \<and> s_ClaudePID s = pid \<and> s_Scope s = sc \<and> pid \<noteq> 0 \<and>
      (\<forall>i q. tbl st i = Some q \<longrightarrow> s_ClaudePID q = pid \<longrightarrow> s_Scope q = sc \<longrightarrow> s_CreatedAt q \<le> s_CreatedAt s)"
    and latest_none: "ok st \<Longrightarrow> op_FindLatestByWindowScope ops pid sc st = (Inr None, st') \<Longrightarrow>
      pid = 0 \<or> (\<forall>i s. tbl st i = Some s \<longrightarrow> s_ClaudePID s = pid \<longrightarrow> s_Scope s \<noteq> sc)"
    and rebound: "ok st \<Longrightarrow> op_Rebind ops i p se pid st = (Inr sw, st') \<Longrightarrow> tbl st i = Some s \<Longrightarrow> s_ClaudePID s = p \<Longrightarrow>
      sw \<and> (\<exists>t. tbl st' = (tbl st)(i \<mapsto> s\<lparr>s_SessionID := se, s_ClaudePID := pid, s_UpdatedAt := t\<rparr>))"
    and rebind_failed: "ok st \<Longrightarrow> op_Rebind ops i p se pid st = (Inl e, st') \<Longrightarrow> tbl st' = tbl st"
    and status_set: "ok st \<Longrightarrow> op_SetStatus ops i status st = (Inr u, st') \<Longrightarrow> tbl st i = Some s \<Longrightarrow>
      \<exists>t. tbl st' = (tbl st)(i \<mapsto> s\<lparr>s_Status := status, s_UpdatedAt := t\<rparr>)"
    and status_failed: "ok st \<Longrightarrow> op_SetStatus ops i status st = (Inl e, st') \<Longrightarrow> tbl st' = tbl st"
    and detached: "ok st \<Longrightarrow> op_Detach ops i st = (Inr u, st') \<Longrightarrow> tbl st i = Some s \<Longrightarrow>
      \<exists>t. tbl st' = (tbl st)(i \<mapsto> s\<lparr>s_SessionID := [], s_ClaudePID := 0, s_UpdatedAt := t\<rparr>)"
    and detach_failed: "ok st \<Longrightarrow> op_Detach ops i st = (Inl e, st') \<Longrightarrow> tbl st' = tbl st"
    and created: "ok st \<Longrightarrow> op_Create ops i slug se sc pid status st = (Inr s, st') \<Longrightarrow>
      tbl st i = None \<and> s_ID s = i \<and> s_SessionID s = se \<and> s_Scope s = sc \<and> s_ClaudePID s = pid \<and>
      s_Status s = status \<and> (\<exists>t u. tbl st' = (tbl st)(i \<mapsto> s\<lparr>s_CreatedAt := t, s_UpdatedAt := u\<rparr>))"
    and create_failed: "ok st \<Longrightarrow> op_Create ops i slug se sc pid status st = (Inl e, st') \<Longrightarrow> tbl st' = tbl st"
begin

lemma ok_after:
  "ok st \<Longrightarrow> op_FindBySessionScope ops se sc st = (r1, st') \<Longrightarrow> ok st'"
  "ok st \<Longrightarrow> op_FindLatestByWindowScope ops pid sc st = (r2, st') \<Longrightarrow> ok st'"
  "ok st \<Longrightarrow> op_Create ops i slug se sc pid status st = (r3, st') \<Longrightarrow> ok st'"
  "ok st \<Longrightarrow> op_Rebind ops i p se pid st = (r4, st') \<Longrightarrow> ok st'"
  "ok st \<Longrightarrow> op_SetStatus ops i status st = (r5, st') \<Longrightarrow> ok st'"
  "ok st \<Longrightarrow> op_Detach ops i st = (r6, st') \<Longrightarrow> ok st'"
  "ok st \<Longrightarrow> op_Get ops i st = (r7, st') \<Longrightarrow> ok st'"
  using ok_ops unfolding keeps_def by (metis snd_conv)+

lemma read_after:
  "op_FindBySessionScope ops se sc st = (r1, st') \<Longrightarrow> tbl st' = tbl st"
  "op_FindLatestByWindowScope ops pid sc st = (r2, st') \<Longrightarrow> tbl st' = tbl st"
  "op_Get ops i st = (r7, st') \<Longrightarrow> tbl st' = tbl st"
  using reads by (metis snd_conv)+

lemma find_writes_nothing:
  assumes "rs_Store rs = ops"
  shows "tbl (snd (Find rs w sc st)) = tbl st"
  unfolding Find_def assms op_defs
  by (auto simp: reads dest: read_after split: prod.split sum.split option.split)

text \<open>The triples of the operations, with the table before the call as a ghost \<open>T\<close>.\<close>

lemma t_session: "triple (\<lambda>st. ok st \<and> tbl st = T) (op_FindBySessionScope ops se sc)
    (\<lambda>f st. (ok st \<and> tbl st = T) \<and> (case f of
       Some s \<Rightarrow> T (s_ID s) = Some s \<and> s_SessionID s = se \<and> s_Scope s = sc \<and> se \<noteq> []
     | None \<Rightarrow> se = [] \<or> (\<forall>i s. T i = Some s \<longrightarrow> s_SessionID s = se \<longrightarrow> s_Scope s \<noteq> sc)))
    (\<lambda>st. ok st \<and> tbl st = T)"
  by (rule tripleI) (auto dest: session_found session_none read_after ok_after split: option.split)

lemma t_latest: "triple (\<lambda>st. ok st \<and> tbl st = T) (op_FindLatestByWindowScope ops pid sc)
    (\<lambda>f st. (ok st \<and> tbl st = T) \<and> (case f of
       Some s \<Rightarrow> T (s_ID s) = Some s \<and> s_ClaudePID s = pid \<and> s_Scope s = sc \<and> pid \<noteq> 0 \<and>
         (\<forall>i q. T i = Some q \<longrightarrow> s_ClaudePID q = pid \<longrightarrow> s_Scope q = sc \<longrightarrow> s_CreatedAt q \<le> s_CreatedAt s)
     | None \<Rightarrow> pid = 0 \<or> (\<forall>i s. T i = Some s \<longrightarrow> s_ClaudePID s = pid \<longrightarrow> s_Scope s \<noteq> sc)))
    (\<lambda>st. ok st \<and> tbl st = T)"
  by (rule tripleI) (auto dest: latest_found latest_none read_after ok_after split: option.split)

lemma t_rebind:
  assumes "T i = Some s" and "s_ClaudePID s = p"
  shows "triple (\<lambda>st. ok st \<and> tbl st = T) (op_Rebind ops i p se pid)
    (\<lambda>sw st. (ok st \<and> (\<exists>t. tbl st = T(i \<mapsto> s\<lparr>s_SessionID := se, s_ClaudePID := pid, s_UpdatedAt := t\<rparr>))) \<and> sw)
    (\<lambda>st. ok st \<and> tbl st = T)"
  using assms by (intro tripleI) (auto dest: rebound rebind_failed ok_after)

lemma t_status:
  assumes "T i = Some s"
  shows "triple (\<lambda>st. ok st \<and> tbl st = T) (op_SetStatus ops i status)
    (\<lambda>_ st. ok st \<and> (\<exists>t. tbl st = T(i \<mapsto> s\<lparr>s_Status := status, s_UpdatedAt := t\<rparr>)))
    (\<lambda>st. ok st \<and> tbl st = T)"
  using assms by (intro tripleI) (auto dest: status_set status_failed ok_after)

lemma t_detach:
  assumes "T i = Some s"
  shows "triple (\<lambda>st. ok st \<and> tbl st = T) (op_Detach ops i)
    (\<lambda>_ st. ok st \<and> (\<exists>t. tbl st = T(i \<mapsto> s\<lparr>s_SessionID := [], s_ClaudePID := 0, s_UpdatedAt := t\<rparr>)))
    (\<lambda>st. ok st \<and> tbl st = T)"
  using assms by (intro tripleI) (auto dest: detached detach_failed ok_after)

lemma t_create:
  assumes "rs_Store rs = ops"
  shows "triple (\<lambda>st. ok st \<and> tbl st = T) (create rs draw w sc slug status)
    (\<lambda>x st. ok st \<and> \<not> snd x \<and> T (s_ID (fst x)) = None \<and> s_ID (fst x) = newID draw \<and>
       s_SessionID (fst x) = w_Session w \<and> s_Scope (fst x) = sc \<and> s_ClaudePID (fst x) = w_ClaudePID w \<and>
       s_Status (fst x) = status \<and>
       (\<exists>t u. tbl st = T(s_ID (fst x) \<mapsto> (fst x)\<lparr>s_CreatedAt := t, s_UpdatedAt := u\<rparr>)))
    (\<lambda>st. ok st \<and> tbl st = T)"
  unfolding create_def assms
proof (rule triple_bind)
  show "triple (\<lambda>st. ok st \<and> tbl st = T) (op_Create ops (newID draw) slug (w_Session w) sc (w_ClaudePID w) status)
    (\<lambda>s st. ok st \<and> T (s_ID s) = None \<and> s_ID s = newID draw \<and> s_SessionID s = w_Session w \<and> s_Scope s = sc \<and>
       s_ClaudePID s = w_ClaudePID w \<and> s_Status s = status \<and>
       (\<exists>t u. tbl st = T(s_ID s \<mapsto> s\<lparr>s_CreatedAt := t, s_UpdatedAt := u\<rparr>)))
    (\<lambda>st. ok st \<and> tbl st = T)"
  proof (rule tripleI)
    fix st e st' assume "ok st \<and> tbl st = T"
      "op_Create ops (newID draw) slug (w_Session w) sc (w_ClaudePID w) status st = (Inl e, st')"
    then show "ok st' \<and> tbl st' = T" using create_failed ok_after(3) by metis
  next
    fix st s st' assume "ok st \<and> tbl st = T"
      and c: "op_Create ops (newID draw) slug (w_Session w) sc (w_ClaudePID w) status st = (Inr s, st')"
    then show "ok st' \<and> T (s_ID s) = None \<and> s_ID s = newID draw \<and> s_SessionID s = w_Session w \<and> s_Scope s = sc \<and>
       s_ClaudePID s = w_ClaudePID w \<and> s_Status s = status \<and>
       (\<exists>t u. tbl st' = T(s_ID s \<mapsto> s\<lparr>s_CreatedAt := t, s_UpdatedAt := u\<rparr>))"
      using created [OF _ c] ok_after(3) [OF _ c] by simp
  qed
qed (rule triple_return, unfold fst_conv snd_conv, blast)

text \<open>A start meets its specification.\<close>

lemma t_replace:
  assumes "rs_Store rs = ops" and "session_bound w sc T q"
  shows "triple (\<lambda>st. ok st \<and> tbl st = T(s_ID q \<mapsto> q\<lparr>s_Status := lc_Closed lc, s_UpdatedAt := t\<rparr>))
    (bind_op (op_Detach ops (s_ID q)) (\<lambda>_. create rs draw w sc slug (lc_Initial lc)))
    (\<lambda>x st. ok st \<and> start_spec rs w sc lc True T (fst x) (snd x) (tbl st))
    (\<lambda>st. ok st \<and> start_failed w sc True T (tbl st))"
proof (rule triple_bind)
  let ?q = "q\<lparr>s_Status := lc_Closed lc, s_UpdatedAt := t\<rparr>"
  let ?q' = "\<lambda>v. q\<lparr>s_Status := lc_Closed lc, s_SessionID := [], s_ClaudePID := 0, s_UpdatedAt := v\<rparr>"
  have d: "triple (\<lambda>st. ok st \<and> tbl st = T(s_ID q \<mapsto> ?q)) (op_Detach ops (s_ID q))
      (\<lambda>_ st. ok st \<and> (\<exists>v. tbl st = (T(s_ID q \<mapsto> ?q))(s_ID q \<mapsto> ?q\<lparr>s_SessionID := [], s_ClaudePID := 0, s_UpdatedAt := v\<rparr>)))
      (\<lambda>st. ok st \<and> tbl st = T(s_ID q \<mapsto> ?q))"
    by (rule t_detach) simp
  show "triple (\<lambda>st. ok st \<and> tbl st = T(s_ID q \<mapsto> ?q)) (op_Detach ops (s_ID q))
      (\<lambda>_ st. \<exists>v. ok st \<and> tbl st = T(s_ID q \<mapsto> ?q' v))
      (\<lambda>st. ok st \<and> start_failed w sc True T (tbl st))"
    by (rule triple_weaken [OF d]) (use assms(2) in \<open>auto simp: start_failed_def\<close>)
  show "triple (\<lambda>st. \<exists>v. ok st \<and> tbl st = T(s_ID q \<mapsto> ?q' v)) (create rs draw w sc slug (lc_Initial lc))
      (\<lambda>x st. ok st \<and> start_spec rs w sc lc True T (fst x) (snd x) (tbl st))
      (\<lambda>st. ok st \<and> start_failed w sc True T (tbl st))"
  proof (rule triple_ex, rule triple_weaken [OF t_create [OF assms(1), of "T(s_ID q \<mapsto> ?q' v)" for v]])
    fix v :: instant and x :: "Subject \<times> bool" and st
    assume p: "ok st \<and> \<not> snd x \<and> (T(s_ID q \<mapsto> ?q' v)) (s_ID (fst x)) = None \<and> s_ID (fst x) = newID draw \<and>
       s_SessionID (fst x) = w_Session w \<and> s_Scope (fst x) = sc \<and> s_ClaudePID (fst x) = w_ClaudePID w \<and>
       s_Status (fst x) = lc_Initial lc \<and>
       (\<exists>t u. tbl st = (T(s_ID q \<mapsto> ?q' v))(s_ID (fst x) \<mapsto> (fst x)\<lparr>s_CreatedAt := t, s_UpdatedAt := u\<rparr>))"
    then have new: "T (s_ID (fst x)) = None" by (auto split: if_splits)
    have b: "snd x = False" using p by blast
    show "ok st \<and> start_spec rs w sc lc True T (fst x) (snd x) (tbl st)"
      unfolding start_spec_def b if_False using new p assms(2) by blast
  qed (use assms(2) in \<open>simp, unfold start_failed_def, blast\<close>)
qed

lemma t_start_fresh:
  assumes "rs_Store rs = ops"
  shows "triple (\<lambda>st. ok st \<and> tbl st = T) (Start rs draw w sc slug lc True)
    (\<lambda>x st. ok st \<and> start_spec rs w sc lc True T (fst x) (snd x) (tbl st))
    (\<lambda>st. ok st \<and> start_failed w sc True T (tbl st))"
  unfolding Start_def if_True assms
proof (rule triple_bind)
  show "triple (\<lambda>st. ok st \<and> tbl st = T) (op_FindBySessionScope ops (w_Session w) sc)
    (\<lambda>f st. (ok st \<and> tbl st = T) \<and> (case f of Some s \<Rightarrow> session_bound w sc T s | None \<Rightarrow> \<forall>p. \<not> session_bound w sc T p))
    (\<lambda>st. ok st \<and> start_failed w sc True T (tbl st))"
    by (rule triple_weaken [OF t_session]) (auto simp: session_bound_def start_failed_def split: option.splits)
  show "triple (\<lambda>st. (ok st \<and> tbl st = T) \<and> (case f of Some s \<Rightarrow> session_bound w sc T s | None \<Rightarrow> \<forall>p. \<not> session_bound w sc T p))
    (case f of
       Some s \<Rightarrow> bind_op (op_SetStatus ops (s_ID s) (lc_Closed lc)) (\<lambda>_. bind_op (op_Detach ops (s_ID s)) (\<lambda>_.
         create rs draw w sc slug (lc_Initial lc)))
     | None \<Rightarrow> create rs draw w sc slug (lc_Initial lc))
    (\<lambda>x st. ok st \<and> start_spec rs w sc lc True T (fst x) (snd x) (tbl st))
    (\<lambda>st. ok st \<and> start_failed w sc True T (tbl st))" for f
  proof (cases f)
    case None
    show ?thesis unfolding None option.case
      by (rule triple_pure, rule triple_weaken [OF t_create [OF assms]])
         (auto simp: start_spec_def start_failed_def, blast)
  next
    case (Some q)
    show ?thesis unfolding Some option.case
    proof (rule triple_pure)
      assume q: "session_bound w sc T q"
      then have T: "T (s_ID q) = Some q" by (simp add: session_bound_def)
      show "triple (\<lambda>st. ok st \<and> tbl st = T) (bind_op (op_SetStatus ops (s_ID q) (lc_Closed lc)) (\<lambda>_.
          bind_op (op_Detach ops (s_ID q)) (\<lambda>_. create rs draw w sc slug (lc_Initial lc))))
        (\<lambda>x st. ok st \<and> start_spec rs w sc lc True T (fst x) (snd x) (tbl st))
        (\<lambda>st. ok st \<and> start_failed w sc True T (tbl st))"
      proof (rule triple_bind)
        show "triple (\<lambda>st. ok st \<and> tbl st = T) (op_SetStatus ops (s_ID q) (lc_Closed lc))
            (\<lambda>_ st. \<exists>t. ok st \<and> tbl st = T(s_ID q \<mapsto> q\<lparr>s_Status := lc_Closed lc, s_UpdatedAt := t\<rparr>))
            (\<lambda>st. ok st \<and> start_failed w sc True T (tbl st))"
          by (rule triple_weaken [OF t_status [of T "s_ID q" q, OF T]]) (auto simp: start_failed_def)
      qed (rule triple_ex, rule t_replace [OF assms q])
    qed
  qed
qed

lemma t_start_session:
  assumes "rs_Store rs = ops" and "session_bound w sc T s"
  shows "triple (\<lambda>st. ok st \<and> tbl st = T)
    (if w_ClaudePID w \<noteq> 0 \<and> s_ClaudePID s \<noteq> w_ClaudePID w \<and> \<not> liveWindow rs (s_ClaudePID s) then
       bind_op (op_Rebind ops (s_ID s) (s_ClaudePID s) (w_Session w) (w_ClaudePID w)) (\<lambda>swapped.
         if swapped then return_op (s\<lparr>s_ClaudePID := w_ClaudePID w\<rparr>, True)
         else bind_op (op_Get ops (s_ID s)) (\<lambda>s'. return_op (s', True)))
     else return_op (s, True))
    (\<lambda>x st. ok st \<and> start_spec rs w sc lc False T (fst x) (snd x) (tbl st))
    (\<lambda>st. ok st \<and> start_failed w sc False T (tbl st))"
proof -
  have T: "T (s_ID s) = Some s" "s_Scope s = sc" "s_SessionID s = w_Session w"
    using assms(2) by (auto simp: session_bound_def)
  show ?thesis
  proof (cases "w_ClaudePID w \<noteq> 0 \<and> s_ClaudePID s \<noteq> w_ClaudePID w \<and> \<not> liveWindow rs (s_ClaudePID s)")
    case True
    show ?thesis unfolding if_P [OF True]
    proof (rule triple_bind)
      show "triple (\<lambda>st. ok st \<and> tbl st = T) (op_Rebind ops (s_ID s) (s_ClaudePID s) (w_Session w) (w_ClaudePID w))
        (\<lambda>sw st. (ok st \<and> (\<exists>t. tbl st = T(s_ID s \<mapsto> s\<lparr>s_SessionID := w_Session w, s_ClaudePID := w_ClaudePID w, s_UpdatedAt := t\<rparr>))) \<and> sw)
        (\<lambda>st. ok st \<and> start_failed w sc False T (tbl st))"
        by (rule triple_weaken [OF t_rebind [of T "s_ID s" s, OF T(1) refl]]) (auto simp: start_failed_def)
      show "triple (\<lambda>st. (ok st \<and> (\<exists>t. tbl st = T(s_ID s \<mapsto> s\<lparr>s_SessionID := w_Session w, s_ClaudePID := w_ClaudePID w, s_UpdatedAt := t\<rparr>))) \<and> sw)
        (if sw then return_op (s\<lparr>s_ClaudePID := w_ClaudePID w\<rparr>, True)
         else bind_op (op_Get ops (s_ID s)) (\<lambda>s'. return_op (s', True)))
        (\<lambda>x st. ok st \<and> start_spec rs w sc lc False T (fst x) (snd x) (tbl st))
        (\<lambda>st. ok st \<and> start_failed w sc False T (tbl st))" for sw
        using True T assms(2) by (intro triple_pure, simp, intro triple_return) (auto simp: start_spec_def)
    qed
  next
    case False
    show ?thesis unfolding if_not_P [OF False]
      using False assms(2) by (intro triple_return) (auto simp: start_spec_def)
  qed
qed

lemma t_start_window:
  assumes "rs_Store rs = ops" and "window_bound w sc T s" and "\<And>p. \<not> session_bound w sc T p"
  shows "triple (\<lambda>st. ok st \<and> tbl st = T)
    (bind_op (op_Rebind ops (s_ID s) (s_ClaudePID s) (w_Session w) (w_ClaudePID w)) (\<lambda>swapped.
       if swapped then return_op (s\<lparr>s_SessionID := w_Session w\<rparr>, True)
       else create rs draw w sc slug (lc_Initial lc)))
    (\<lambda>x st. ok st \<and> start_spec rs w sc lc False T (fst x) (snd x) (tbl st))
    (\<lambda>st. ok st \<and> start_failed w sc False T (tbl st))"
proof (rule triple_bind)
  have T: "T (s_ID s) = Some s" "s_Scope s = sc" "s_ClaudePID s = w_ClaudePID w"
    using assms(2) by (auto simp: window_bound_def)
  show "triple (\<lambda>st. ok st \<and> tbl st = T) (op_Rebind ops (s_ID s) (s_ClaudePID s) (w_Session w) (w_ClaudePID w))
    (\<lambda>sw st. (ok st \<and> (\<exists>t. tbl st = T(s_ID s \<mapsto> s\<lparr>s_SessionID := w_Session w, s_ClaudePID := w_ClaudePID w, s_UpdatedAt := t\<rparr>))) \<and> sw)
    (\<lambda>st. ok st \<and> start_failed w sc False T (tbl st))"
    by (rule triple_weaken [OF t_rebind [of T "s_ID s" s, OF T(1) refl]]) (auto simp: start_failed_def)
  show "triple (\<lambda>st. (ok st \<and> (\<exists>t. tbl st = T(s_ID s \<mapsto> s\<lparr>s_SessionID := w_Session w, s_ClaudePID := w_ClaudePID w, s_UpdatedAt := t\<rparr>))) \<and> sw)
    (if sw then return_op (s\<lparr>s_SessionID := w_Session w\<rparr>, True) else create rs draw w sc slug (lc_Initial lc))
    (\<lambda>x st. ok st \<and> start_spec rs w sc lc False T (fst x) (snd x) (tbl st))
    (\<lambda>st. ok st \<and> start_failed w sc False T (tbl st))" for sw
    using T assms(2,3) by (intro triple_pure, simp, intro triple_return) (auto simp: start_spec_def)
qed

lemma t_start_resume:
  assumes "rs_Store rs = ops"
  shows "triple (\<lambda>st. ok st \<and> tbl st = T) (Start rs draw w sc slug lc False)
    (\<lambda>x st. ok st \<and> start_spec rs w sc lc False T (fst x) (snd x) (tbl st))
    (\<lambda>st. ok st \<and> start_failed w sc False T (tbl st))"
  unfolding Start_def if_False assms
proof (rule triple_bind)
  let ?Q = "\<lambda>(x :: Subject \<times> bool) st. ok st \<and> start_spec rs w sc lc False T (fst x) (snd x) (tbl st)"
  let ?E = "\<lambda>st. ok st \<and> start_failed w sc False T (tbl st)"
  let ?P = "\<lambda>st. ok st \<and> tbl st = T"
  show "triple ?P (op_FindBySessionScope ops (w_Session w) sc)
    (\<lambda>f st. ?P st \<and> (case f of Some s \<Rightarrow> session_bound w sc T s | None \<Rightarrow> \<forall>p. \<not> session_bound w sc T p)) ?E"
    by (rule triple_weaken [OF t_session]) (auto simp: session_bound_def start_failed_def split: option.splits)
  have create: "triple ?P (create rs draw w sc slug (lc_Initial lc)) ?Q ?E" if "\<forall>p. \<not> session_bound w sc T p"
    by (rule triple_weaken [OF t_create [OF assms]]) (use that in \<open>auto simp: start_spec_def start_failed_def, blast\<close>)
  have latest: "triple ?P (op_FindLatestByWindowScope ops (w_ClaudePID w) sc)
    (\<lambda>f st. ?P st \<and> (case f of Some s \<Rightarrow> window_bound w sc T s | None \<Rightarrow> True)) ?E"
    by (rule triple_weaken [OF t_latest]) (auto simp: window_bound_def start_failed_def split: option.splits)
  show "triple (\<lambda>st. ?P st \<and> (case f of Some s \<Rightarrow> session_bound w sc T s | None \<Rightarrow> \<forall>p. \<not> session_bound w sc T p))
    (case f of
       Some s \<Rightarrow> if w_ClaudePID w \<noteq> 0 \<and> s_ClaudePID s \<noteq> w_ClaudePID w \<and> \<not> liveWindow rs (s_ClaudePID s)
         then bind_op (op_Rebind ops (s_ID s) (s_ClaudePID s) (w_Session w) (w_ClaudePID w)) (\<lambda>swapped.
           if swapped then return_op (s\<lparr>s_ClaudePID := w_ClaudePID w\<rparr>, True)
           else bind_op (op_Get ops (s_ID s)) (\<lambda>s'. return_op (s', True)))
         else return_op (s, True)
     | None \<Rightarrow> bind_op (op_FindLatestByWindowScope ops (w_ClaudePID w) sc) (\<lambda>latest. case latest of
           Some s \<Rightarrow> bind_op (op_Rebind ops (s_ID s) (s_ClaudePID s) (w_Session w) (w_ClaudePID w)) (\<lambda>swapped.
             if swapped then return_op (s\<lparr>s_SessionID := w_Session w\<rparr>, True)
             else create rs draw w sc slug (lc_Initial lc))
         | None \<Rightarrow> create rs draw w sc slug (lc_Initial lc))) ?Q ?E" for f
  proof (cases f)
    case (Some s)
    show ?thesis unfolding Some option.case by (rule triple_pure) (rule t_start_session [OF assms])
  next
    case None
    show ?thesis unfolding None option.case
    proof (rule triple_pure, rule triple_bind [OF latest])
      fix l assume no: "\<forall>p. \<not> session_bound w sc T p"
      show "triple (\<lambda>st. ?P st \<and> (case l of Some s \<Rightarrow> window_bound w sc T s | None \<Rightarrow> True))
        (case l of
           Some s \<Rightarrow> bind_op (op_Rebind ops (s_ID s) (s_ClaudePID s) (w_Session w) (w_ClaudePID w)) (\<lambda>swapped.
             if swapped then return_op (s\<lparr>s_SessionID := w_Session w\<rparr>, True)
             else create rs draw w sc slug (lc_Initial lc))
         | None \<Rightarrow> create rs draw w sc slug (lc_Initial lc)) ?Q ?E"
        by (rule triple_pure, cases l)
           (simp_all add: create [OF no] t_start_window [OF assms _ no [THEN spec]])
    qed
  qed
qed

lemma t_start:
  "rs_Store rs = ops \<Longrightarrow> triple (\<lambda>st. ok st \<and> tbl st = T) (Start rs draw w sc slug lc fresh)
    (\<lambda>x st. ok st \<and> start_spec rs w sc lc fresh T (fst x) (snd x) (tbl st))
    (\<lambda>st. ok st \<and> start_failed w sc fresh T (tbl st))"
  by (cases fresh) (simp_all only: t_start_fresh t_start_resume)

lemma t_find_held:
  "triple (\<lambda>st. ok st \<and> tbl st = T) (op_FindBySessionScope ops (w_Session w) sc)
    (\<lambda>f st. (ok st \<and> tbl st = T) \<and> (case f of Some s \<Rightarrow> session_bound w sc T s | None \<Rightarrow> \<forall>p. \<not> session_bound w sc T p))
    (\<lambda>st. ok st \<and> tbl st = T)"
  by (rule triple_weaken [OF t_session]) (auto simp: session_bound_def split: option.splits)

lemma t_find_latest:
  "triple (\<lambda>st. ok st \<and> tbl st = T) (op_FindLatestByWindowScope ops (w_ClaudePID w) sc)
    (\<lambda>f st. (ok st \<and> tbl st = T) \<and> (case f of
        Some s \<Rightarrow> window_bound w sc T s \<and> (\<forall>q. window_bound w sc T q \<longrightarrow> s_CreatedAt q \<le> s_CreatedAt s)
      | None \<Rightarrow> \<forall>q. \<not> window_bound w sc T q))
    (\<lambda>st. ok st \<and> tbl st = T)"
  by (rule triple_weaken [OF t_latest]) (auto simp: window_bound_def split: option.splits)

lemma t_rebind_window:
  assumes "rs_Store rs = ops"
  shows "triple (\<lambda>st. ok st \<and> tbl st = T) (Rebind rs w sc)
    (\<lambda>_ st. ok st \<and> rebind_spec rs w sc T (tbl st)) (\<lambda>st. ok st \<and> tbl st = T)"
proof (cases "w_Session w = []")
  case True
  then show ?thesis by (simp add: Rebind_def rebind_spec_def triple_return)
next
  case False
  have inner: "triple (\<lambda>st. ok st \<and> tbl st = T)
      (if rs_Active rs s then bind_op (op_Rebind ops (s_ID s) (s_ClaudePID s) (w_Session w) (w_ClaudePID w)) (\<lambda>_. return_op ())
       else return_op ()) (\<lambda>_ st. ok st \<and> rebind_spec rs w sc T (tbl st)) (\<lambda>st. ok st \<and> tbl st = T)"
    if "window_bound w sc T s" "\<forall>p. \<not> session_bound w sc T p" for s
  proof (cases "rs_Active rs s")
    case True
    have T: "T (s_ID s) = Some s" using that by (simp add: window_bound_def)
    show ?thesis unfolding if_P [OF True]
      by (rule triple_bind [OF t_rebind [of T "s_ID s" s, OF T refl]], rule triple_return)
         (use that True False in \<open>auto simp: rebind_spec_def\<close>)
  next
    case False
    then show ?thesis by (simp, intro triple_return) (simp add: rebind_spec_def)
  qed
  show ?thesis unfolding Rebind_def assms if_not_P [OF False]
  proof (rule triple_bind [OF t_find_held], rule triple_pure)
    fix f assume f: "case f of Some s \<Rightarrow> session_bound w sc T s | None \<Rightarrow> \<forall>p. \<not> session_bound w sc T p"
    have latest: "triple (\<lambda>st. (ok st \<and> tbl st = T) \<and> (case l of
           Some s \<Rightarrow> window_bound w sc T s \<and> (\<forall>q. window_bound w sc T q \<longrightarrow> s_CreatedAt q \<le> s_CreatedAt s)
         | None \<Rightarrow> \<forall>q. \<not> window_bound w sc T q))
        (case l of
           Some s \<Rightarrow> if rs_Active rs s
             then bind_op (op_Rebind ops (s_ID s) (s_ClaudePID s) (w_Session w) (w_ClaudePID w)) (\<lambda>_. return_op ())
             else return_op ()
         | None \<Rightarrow> return_op ())
        (\<lambda>_ st. ok st \<and> rebind_spec rs w sc T (tbl st)) (\<lambda>st. ok st \<and> tbl st = T)"
      if "f = None" for l
    proof (cases l)
      case (Some s)
      show ?thesis unfolding Some option.case using f that by (intro triple_pure inner) simp_all
    next
      case None
      show ?thesis unfolding None option.case by (rule triple_return) (simp add: rebind_spec_def)
    qed
    show "triple (\<lambda>st. ok st \<and> tbl st = T)
      (case f of Some _ \<Rightarrow> return_op ()
       | None \<Rightarrow> bind_op (op_FindLatestByWindowScope ops (w_ClaudePID w) sc) (\<lambda>latest. case latest of
           Some s \<Rightarrow> if rs_Active rs s
             then bind_op (op_Rebind ops (s_ID s) (s_ClaudePID s) (w_Session w) (w_ClaudePID w)) (\<lambda>_. return_op ())
             else return_op ()
         | None \<Rightarrow> return_op ()))
      (\<lambda>_ st. ok st \<and> rebind_spec rs w sc T (tbl st)) (\<lambda>st. ok st \<and> tbl st = T)"
    proof (cases f)
      case None
      show ?thesis using triple_bind [OF t_find_latest latest [OF None]] unfolding None option.case .
    next
      case (Some s)
      show ?thesis unfolding Some option.case by (rule triple_return) (simp add: rebind_spec_def)
    qed
  qed
qed

lemma t_settle_boot:
  assumes "session_bound w sc T held"
  shows "triple (\<lambda>st. (ok st \<and> tbl st = T) \<and> (case l of
        Some s \<Rightarrow> window_bound w sc T s \<and> (\<forall>q. window_bound w sc T q \<longrightarrow> s_CreatedAt q \<le> s_CreatedAt s)
      | None \<Rightarrow> \<forall>q. \<not> window_bound w sc T q))
    (case l of
       Some latest \<Rightarrow> if s_ID latest \<noteq> s_ID held \<and> s_CreatedAt held < s_CreatedAt latest
         then bind_op (op_Detach ops (s_ID latest)) (\<lambda>_. return_op (s_ID latest)) else return_op []
     | None \<Rightarrow> return_op [])
    (\<lambda>boot st. ok st \<and> settle_boot w sc held T boot (tbl st)) (\<lambda>st. ok st \<and> tbl st = T)"
  (is "triple (\<lambda>st. ?P st \<and> ?C) ?m ?Q ?E")
proof (rule triple_pure)
  assume c: ?C
  show "triple ?P ?m ?Q ?E"
proof (cases l)
  case None
  from c have "settle_boot w sc held T [] T" by (simp add: None settle_boot_def)
  then show ?thesis unfolding None option.case by (intro triple_return) simp
next
  case (Some s)
  from c have s: "window_bound w sc T s" "\<forall>q. window_bound w sc T q \<longrightarrow> s_CreatedAt q \<le> s_CreatedAt s"
    by (simp_all add: Some)
  show ?thesis
  proof (cases "s_ID s \<noteq> s_ID held \<and> s_CreatedAt held < s_CreatedAt s")
    case True
    show ?thesis unfolding Some option.case if_P [OF True]
      by (rule triple_bind [OF t_detach [of T "s_ID s" s, OF bound_in(2) [OF s(1)]]], rule triple_return)
         (unfold settle_boot_def, use s True in blast)
  next
    case False
    have "s_CreatedAt s \<le> s_CreatedAt held"
      using False bound_in(1) [OF assms] bound_in(2) [OF s(1)] by (cases "s_ID s = s_ID held") auto
    then have "settle_boot w sc held T [] T" using s(2) unfolding settle_boot_def by fastforce
    then show ?thesis unfolding Some option.case if_not_P [OF False] by (intro triple_return) simp
  qed
qed
qed

lemma settle_boot_held:
  "session_bound w sc T held \<Longrightarrow> settle_boot w sc held T boot T' \<Longrightarrow> T' (s_ID held) = Some held"
  unfolding settle_boot_def using bound_in(1) by fastforce

lemma t_settle_held:
  assumes "session_bound w sc T held"
  shows "triple (\<lambda>st. ok st \<and> settle_boot w sc held T boot (tbl st))
    (if w_ClaudePID w \<noteq> 0 \<and> s_ClaudePID held \<noteq> w_ClaudePID w
     then bind_op (op_Rebind ops (s_ID held) (s_ClaudePID held) (w_Session w) (w_ClaudePID w)) (\<lambda>_. return_op boot)
     else return_op boot)
    (\<lambda>boot st. ok st \<and> settle_spec w sc held T boot (tbl st)) (\<lambda>st. True)"
proof (cases "w_ClaudePID w \<noteq> 0 \<and> s_ClaudePID held \<noteq> w_ClaudePID w")
  case False
  show ?thesis unfolding if_not_P [OF False]
    by (rule triple_return) (unfold settle_spec_def if_not_P [OF False], blast)
next
  case True
  have *: "triple (\<lambda>st. ok st \<and> tbl st = T1)
      (bind_op (op_Rebind ops (s_ID held) (s_ClaudePID held) (w_Session w) (w_ClaudePID w)) (\<lambda>_. return_op boot))
      (\<lambda>boot st. ok st \<and> settle_spec w sc held T boot (tbl st)) (\<lambda>st. ok st \<and> tbl st = T1)"
    if b: "settle_boot w sc held T boot T1" for T1
    by (rule triple_bind [OF t_rebind [of T1 "s_ID held" held, OF settle_boot_held [OF assms b] refl]], rule triple_return)
       (unfold settle_spec_def if_P [OF True], use b in blast)
  show ?thesis unfolding if_P [OF True]
    by (rule tripleI) (use triple_success [OF *] in blast)+
qed

lemma t_settle:
  assumes "rs_Store rs = ops" and "session_bound w sc T held" and "\<And>q. session_bound w sc T q \<Longrightarrow> q = held"
  shows "triple (\<lambda>st. ok st \<and> tbl st = T) (Settle rs w sc)
    (\<lambda>boot st. ok st \<and> settle_spec w sc held T boot (tbl st)) (\<lambda>st. True)"
  unfolding Settle_def assms(1)
proof (rule triple_bind)
  show "triple (\<lambda>st. ok st \<and> tbl st = T) (op_FindBySessionScope ops (w_Session w) sc)
    (\<lambda>f st. (ok st \<and> tbl st = T) \<and> f = Some held) (\<lambda>st. True)"
  proof (rule triple_weaken [OF t_find_held])
    fix f st assume p: "(ok st \<and> tbl st = T) \<and> (case f of Some s \<Rightarrow> session_bound w sc T s | None \<Rightarrow> \<forall>p. \<not> session_bound w sc T p)"
    then have "case f of Some s \<Rightarrow> session_bound w sc T s | None \<Rightarrow> \<forall>p. \<not> session_bound w sc T p" by (rule conjunct2)
    then have "f = Some held"
      using assms(2,3) by (metis option.exhaust option.simps(4,5))
    with p show "(ok st \<and> tbl st = T) \<and> f = Some held" by blast
  qed simp_all
  show "triple (\<lambda>st. (ok st \<and> tbl st = T) \<and> f = Some held)
    (case f of None \<Rightarrow> bind_op (Rebind rs w sc) (\<lambda>_. return_op [])
     | Some held \<Rightarrow> bind_op (op_FindLatestByWindowScope ops (w_ClaudePID w) sc) (\<lambda>found_latest.
         bind_op (case found_latest of
             Some latest \<Rightarrow> if s_ID latest \<noteq> s_ID held \<and> s_CreatedAt held < s_CreatedAt latest
               then bind_op (op_Detach ops (s_ID latest)) (\<lambda>_. return_op (s_ID latest)) else return_op []
           | None \<Rightarrow> return_op []) (\<lambda>boot.
         if w_ClaudePID w \<noteq> 0 \<and> s_ClaudePID held \<noteq> w_ClaudePID w
         then bind_op (op_Rebind ops (s_ID held) (s_ClaudePID held) (w_Session w) (w_ClaudePID w)) (\<lambda>_. return_op boot)
         else return_op boot)))
    (\<lambda>boot st. ok st \<and> settle_spec w sc held T boot (tbl st)) (\<lambda>st. True)" for f
    by (rule triple_pure, simp only: option.case)
       (rule triple_bind [OF triple_weaken [OF t_find_latest]], assumption, assumption, simp,
        rule triple_bind [OF triple_weaken [OF t_settle_boot [OF assms(2)]] t_settle_held [OF assms(2)]], simp_all)
qed

end

section \<open>The SQL store keeps the contract\<close>

text \<open>
  \<open>store.NewSubjectStore\<close>: the statements run one after another over the engine. A lookup
  that issues no statement (a blank session, pid 0) ignores the outcome it is given.
\<close>

definition NewSubjectStore :: "engine subject_ops" where
  "NewSubjectStore =
     \<lparr>op_FindBySessionScope = (\<lambda>se sc. on_db (\<lambda>flt. FindBySessionScope flt se sc)),
      op_FindLatestByWindowScope = (\<lambda>pid sc. on_db (\<lambda>flt. FindLatestByWindowScope flt pid sc)),
      op_Create = (\<lambda>i slug se sc pid status. on_db_now (\<lambda>flt now. Create flt now i slug se sc pid status)),
      op_Rebind = (\<lambda>i p se pid. on_db_now (\<lambda>flt now. st_Rebind flt now i p se pid)),
      op_SetStatus = (\<lambda>i status. on_db_now (\<lambda>flt now. SetStatus flt now i status)),
      op_Detach = (\<lambda>i. on_db_now (\<lambda>flt now. Detach flt now i)),
      op_Get = (\<lambda>i. on_db (\<lambda>flt. st_Get flt i))\<rparr>"

definition row_at :: "db \<Rightarrow> string \<Rightarrow> subject_row option" where
  "row_at d i = find_first (\<lambda>r. sb_id r = i) (subjects d)"

definition subject_at :: "db \<Rightarrow> string \<Rightarrow> Subject option" where
  "subject_at d i = map_option scanSubject (row_at d i)"

lemma scanSubject_sel [simp]:
  "s_ID (scanSubject r) = sb_id r" "s_SessionID (scanSubject r) = ofNull (sb_session r)"
  "s_Scope (scanSubject r) = sb_scope r" "s_ClaudePID (scanSubject r) = sb_pid r"
  "s_CreatedAt (scanSubject r) = fromUnix (sb_created r)"
  by (simp_all add: scanSubject_def)

lemma row_at_iff:
  assumes "subjects_inv d"
  shows "row_at d i = Some r \<longleftrightarrow> r \<in> set (subjects d) \<and> sb_id r = i"
proof
  assume "row_at d i = Some r"
  then show "r \<in> set (subjects d) \<and> sb_id r = i" unfolding row_at_def by (rule find_first_SomeD)
next
  assume r: "r \<in> set (subjects d) \<and> sb_id r = i"
  then have "row_at d i \<noteq> None" by (auto simp: row_at_def find_first_None)
  then obtain q where "row_at d i = Some q" by blast
  moreover from this have "q \<in> set (subjects d) \<and> sb_id q = i" unfolding row_at_def by (rule find_first_SomeD)
  ultimately show "row_at d i = Some r" using row_unique [OF assms] r by metis
qed

lemma subject_at_iff:
  "subjects_inv d \<Longrightarrow> subject_at d i = Some s \<longleftrightarrow> (\<exists>r \<in> set (subjects d). sb_id r = i \<and> s = scanSubject r)"
  by (auto simp: subject_at_def row_at_iff)

lemma subject_at_row: "subjects_inv d \<Longrightarrow> r \<in> set (subjects d) \<Longrightarrow> subject_at d (sb_id r) = Some (scanSubject r)"
  by (auto simp: subject_at_iff)

lemma session_column:
  "subjects_inv d \<Longrightarrow> r \<in> set (subjects d) \<Longrightarrow> se \<noteq> [] \<Longrightarrow> ofNull (sb_session r) = se \<longleftrightarrow> sb_session r = Some se"
  by (cases "sb_session r") (auto simp: subjects_inv_def ofNull_def)

lemma subject_at_update:
  assumes "\<And>r. sb_id (f r) = sb_id r"
  shows "subject_at (update_subjects P f d) i =
    (case row_at d i of None \<Rightarrow> None | Some r \<Rightarrow> Some (scanSubject (if P r then f r else r)))"
proof -
  have "find_first (\<lambda>r. sb_id r = i) (map (\<lambda>r. if P r then f r else r) rs) =
      map_option (\<lambda>r. if P r then f r else r) (find_first (\<lambda>r. sb_id r = i) rs)" for rs
    using assms by (induction rs) auto
  then show ?thesis by (simp add: subject_at_def row_at_def split: option.split)
qed

lemma subject_at_update_one:
  assumes "subjects_inv d" and "subject_at d i = Some s" and "\<And>r. sb_id (f r) = sb_id r"
    and "\<And>r. P r \<Longrightarrow> sb_id r = i" and "\<And>r. row_at d i = Some r \<Longrightarrow> P r \<and> scanSubject (f r) = s'"
  shows "subject_at (update_subjects P f d) = (subject_at d)(i \<mapsto> s')"
proof
  fix j
  have "row_at d j = Some r \<Longrightarrow> sb_id r = j" for r unfolding row_at_def by (drule find_first_SomeD) simp
  moreover obtain z where "row_at d i = Some z" using assms(2) by (auto simp: subject_at_def)
  ultimately show "subject_at (update_subjects P f d) j = ((subject_at d)(i \<mapsto> s')) j"
    unfolding subject_at_update [OF assms(3)] using assms(4) assms(5) [of z]
    by (cases "j = i"; cases "row_at d j") (auto simp: subject_at_def)
qed

lemma sql_session_found:
  assumes "subjects_inv d" and "FindBySessionScope flt se sc d = (Inr (Some s), d')"
  shows "subject_at d (s_ID s) = Some s \<and> s_SessionID s = se \<and> s_Scope s = sc \<and> se \<noteq> []"
proof (cases flt)
  case None
  then obtain r where r: "se \<noteq> []" "s = scanSubject r"
      "find_first (\<lambda>r. sb_session r = Some se \<and> sb_scope r = sc) (subjects d) = Some r"
    using assms(2) by (auto simp: FindBySessionScope_def split: if_splits)
  show ?thesis using find_first_SomeD [OF r(3)] r(1,2) subject_at_row [OF assms(1), of r]
    by (auto simp: ofNull_def)
qed (use assms(2) in \<open>auto simp: FindBySessionScope_def split: if_splits\<close>)

lemma sql_session_none:
  assumes "subjects_inv d" and "FindBySessionScope flt se sc d = (Inr None, d')"
  shows "se = [] \<or> (\<forall>i s. subject_at d i = Some s \<longrightarrow> s_SessionID s = se \<longrightarrow> s_Scope s \<noteq> sc)"
proof (cases "flt = None \<and> se \<noteq> []")
  case True
  then have "\<forall>r \<in> set (subjects d). \<not> (sb_session r = Some se \<and> sb_scope r = sc)"
    using assms(2) by (auto simp: FindBySessionScope_def find_first_None)
  moreover have "ofNull (sb_session r) = se \<longleftrightarrow> sb_session r = Some se" if "r \<in> set (subjects d)" for r
    using session_column [OF assms(1) that] True by blast
  ultimately show ?thesis unfolding subject_at_iff [OF assms(1)] by (metis scanSubject_sel(2,3))
qed (use assms(2) in \<open>auto simp: FindBySessionScope_def split: if_splits\<close>)

lemma sql_latest_found:
  assumes "subjects_inv d" and "FindLatestByWindowScope flt pid sc d = (Inr (Some s), d')"
  shows "subject_at d (s_ID s) = Some s \<and> s_ClaudePID s = pid \<and> s_Scope s = sc \<and> pid \<noteq> 0 \<and>
      (\<forall>i q. subject_at d i = Some q \<longrightarrow> s_ClaudePID q = pid \<longrightarrow> s_Scope q = sc \<longrightarrow> s_CreatedAt q \<le> s_CreatedAt s)"
proof (cases flt)
  case None
  then obtain r where r: "pid \<noteq> 0" "s = scanSubject r"
      "latest_row (filter (\<lambda>r. sb_pid r = pid \<and> sb_scope r = sc) (subjects d)) = Some r"
    using assms(2) by (auto simp: FindLatestByWindowScope_def split: if_splits)
  have l: "r \<in> set (subjects d)" "sb_pid r = pid" "sb_scope r = sc"
      "\<And>q. q \<in> set (subjects d) \<Longrightarrow> sb_pid q = pid \<Longrightarrow> sb_scope q = sc \<Longrightarrow> sb_created q \<le> sb_created r"
    using latest_row_SomeD [OF r(3)] by auto
  have "fromUnix (sb_created q) \<le> fromUnix (sb_created r)"
    if "q \<in> set (subjects d)" "sb_pid q = pid" "sb_scope q = sc" for q
    using l(4) [OF that] by (simp add: fromUnix_def second_def)
  then show ?thesis using l r(1,2) subject_at_row [OF assms(1) l(1)] assms(1) by (auto simp: subject_at_iff)
qed (use assms(2) in \<open>auto simp: FindLatestByWindowScope_def split: if_splits\<close>)

lemma sql_latest_none:
  assumes "subjects_inv d" and "FindLatestByWindowScope flt pid sc d = (Inr None, d')"
  shows "pid = 0 \<or> (\<forall>i s. subject_at d i = Some s \<longrightarrow> s_ClaudePID s = pid \<longrightarrow> s_Scope s \<noteq> sc)"
  using assms by (cases flt)
    (auto simp: FindLatestByWindowScope_def subject_at_iff filter_empty_conv split: if_splits)

lemma sql_rebound:
  assumes "subjects_inv d" and "st_Rebind flt now i p se pid d = (Inr sw, d')"
    and "subject_at d i = Some s" and "s_ClaudePID s = p"
  shows "sw \<and> (\<exists>t. subject_at d' = (subject_at d)(i \<mapsto> s\<lparr>s_SessionID := se, s_ClaudePID := pid, s_UpdatedAt := t\<rparr>))"
proof -
  let ?hit = "\<lambda>r. sb_id r = i \<and> sb_pid r = p"
  let ?f = "\<lambda>r. r\<lparr>sb_session := nullString se, sb_pid := pid, sb_updated := unix now\<rparr>"
  have d': "sw = (length (filter ?hit (subjects d)) = 1)" "d' = update_subjects ?hit ?f d"
    using assms(2) by (cases flt; auto simp: st_Rebind_def Let_def split: if_splits)+
  obtain r where r: "r \<in> set (subjects d)" "sb_id r = i" "s = scanSubject r"
    using assms(1,3) by (auto simp: subject_at_iff)
  have one: "filter ?hit (subjects d) = [r]"
  proof -
    have "distinct (filter ?hit (subjects d))" using assms(1) by (auto simp: subjects_inv_def distinct_map intro: distinct_filter)
    moreover have "set (filter ?hit (subjects d)) = {r}" using r assms(4) row_unique [OF assms(1)] by auto
    ultimately show ?thesis by (rule distinct_set_single)
  qed
  have "subject_at d' = (subject_at d)(i \<mapsto> s\<lparr>s_SessionID := se, s_ClaudePID := pid, s_UpdatedAt := fromUnix (unix now)\<rparr>)"
    unfolding d'(2) using r assms(4)
    by (intro subject_at_update_one [OF assms(1,3)])
       (auto simp: row_at_iff [OF assms(1)] scanSubject_def dest: row_unique [OF assms(1)])
  then show ?thesis using d'(1) one by auto
qed


lemma sql_status_set:
  assumes "subjects_inv d" and "SetStatus flt now i status d = (Inr u, d')" and "subject_at d i = Some s"
  shows "\<exists>t. subject_at d' = (subject_at d)(i \<mapsto> s\<lparr>s_Status := status, s_UpdatedAt := t\<rparr>)"
proof -
  have "d' = update_subjects (\<lambda>r. sb_id r = i) (\<lambda>r. r\<lparr>sb_status := status, sb_updated := unix now\<rparr>) d"
    using assms(2) by (cases flt) (auto simp: SetStatus_def)
  moreover have "subject_at (update_subjects (\<lambda>r. sb_id r = i) (\<lambda>r. r\<lparr>sb_status := status, sb_updated := unix now\<rparr>) d)
      = (subject_at d)(i \<mapsto> s\<lparr>s_Status := status, s_UpdatedAt := fromUnix (unix now)\<rparr>)"
    using assms(3) by (intro subject_at_update_one [OF assms(1,3)])
      (auto simp: row_at_iff [OF assms(1)] subject_at_def scanSubject_def)
  ultimately show ?thesis by blast
qed

lemma sql_detached:
  assumes "subjects_inv d" and "Detach flt now i d = (Inr u, d')" and "subject_at d i = Some s"
  shows "\<exists>t. subject_at d' = (subject_at d)(i \<mapsto> s\<lparr>s_SessionID := [], s_ClaudePID := 0, s_UpdatedAt := t\<rparr>)"
proof -
  have "d' = update_subjects (\<lambda>r. sb_id r = i) (\<lambda>r. r\<lparr>sb_session := None, sb_pid := 0, sb_updated := unix now\<rparr>) d"
    using assms(2) by (cases flt) (auto simp: Detach_def)
  moreover have "subject_at (update_subjects (\<lambda>r. sb_id r = i) (\<lambda>r. r\<lparr>sb_session := None, sb_pid := 0, sb_updated := unix now\<rparr>) d)
      = (subject_at d)(i \<mapsto> s\<lparr>s_SessionID := [], s_ClaudePID := 0, s_UpdatedAt := fromUnix (unix now)\<rparr>)"
    using assms(3) by (intro subject_at_update_one [OF assms(1,3)])
      (auto simp: row_at_iff [OF assms(1)] subject_at_def scanSubject_def ofNull_def)
  ultimately show ?thesis by blast
qed

lemma sql_created:
  assumes "subjects_inv d" and "Create flt now i slug se sc pid status d = (Inr s, d')"
  shows "subject_at d i = None \<and> s_ID s = i \<and> s_SessionID s = se \<and> s_Scope s = sc \<and> s_ClaudePID s = pid \<and>
      s_Status s = status \<and> (\<exists>t u. subject_at d' = (subject_at d)(i \<mapsto> s\<lparr>s_CreatedAt := t, s_UpdatedAt := u\<rparr>))"
proof -
  let ?row = "\<lparr>sb_id = i, sb_slug = slug, sb_session = nullString se, sb_scope = sc,
                 sb_pid = pid, sb_status = status, sb_created = unix now, sb_updated = unix now\<rparr>"
  have c: "\<not> list_ex (\<lambda>q. subject_conflict q ?row) (subjects d)" "d' = d\<lparr>subjects := subjects d @ [?row]\<rparr>"
      "s = \<lparr>s_ID = i, s_Slug = slug, s_SessionID = se, s_Scope = sc,
               s_ClaudePID = pid, s_Status = status, s_CreatedAt = now, s_UpdatedAt = now\<rparr>"
    using assms(2) by (cases flt; auto simp: Create_def Let_def split: if_splits)+
  then have new: "subject_at d i = None"
    by (auto simp: subject_at_def row_at_def find_first_None list_ex_iff subject_conflict_def)
  have "subject_at d' j = ((subject_at d)(i \<mapsto> s\<lparr>s_CreatedAt := fromUnix (unix now), s_UpdatedAt := fromUnix (unix now)\<rparr>)) j" for j
    using new unfolding c(2,3)
    by (cases "row_at d j") (auto simp: subject_at_def row_at_def find_first_append scanSubject_def)
  then have "subject_at d' = (subject_at d)(i \<mapsto> s\<lparr>s_CreatedAt := fromUnix (unix now), s_UpdatedAt := fromUnix (unix now)\<rparr>)"
    by blast
  then show ?thesis using new c(3) by auto
qed

lemma sql_failed:
  "st_Rebind flt now i p se pid d = (Inl e, d') \<Longrightarrow> d' = d"
  "SetStatus flt now i status d = (Inl e, d') \<Longrightarrow> d' = d"
  "Detach flt now i d = (Inl e, d') \<Longrightarrow> d' = d"
  "Create flt now i slug se sc pid status d = (Inl e, d') \<Longrightarrow> d' = d"
  by (cases flt; auto simp: st_Rebind_def SetStatus_def Detach_def Create_def Let_def split: if_splits)+

lemmas engine_calls = on_db_call on_db_now_call

interpretation sql: subject_contract NewSubjectStore "\<lambda>en. subject_at (en_db en)" "\<lambda>en. subjects_inv (en_db en)"
proof (unfold_locales, goal_cases)
  case (1 st i s)
  then show ?case by (auto simp: subject_at_iff)
next
  case (2 st i s j q)
  then obtain r p where "r \<in> set (subjects (en_db st))" "p \<in> set (subjects (en_db st))" "sb_id r = i" "sb_id p = j"
      "s = scanSubject r" "q = scanSubject p" by (auto simp: subject_at_iff)
  with 2 show ?case using session_unique [of "en_db st" r p] session_column [of "en_db st"] by (metis scanSubject_sel(2,3))
qed (unfold NewSubjectStore_def subject_ops.simps,
     auto intro!: on_db_keeps on_db_now_keeps st_Rebind_inv SetStatus_inv Detach_inv Create_inv
       dest!: engine_calls dest: sql_session_found sql_session_none sql_latest_found sql_latest_none
         sql_rebound sql_status_set sql_detached sql_created sql_failed)

section \<open>The resolver over the SQL store\<close>

definition sql_resolver :: "(Subject \<Rightarrow> bool) \<Rightarrow> (int \<Rightarrow> bool) option \<Rightarrow> engine Resolver" where
  "sql_resolver active live = \<lparr>rs_Store = NewSubjectStore, rs_Active = active, rs_LiveWindow = live\<rparr>"

lemma sql_resolver_store [simp]: "rs_Store (sql_resolver active live) = NewSubjectStore"
  by (simp add: sql_resolver_def)

lemma sql_resolver_active [simp]: "rs_Active (sql_resolver active live) = active"
  by (simp add: sql_resolver_def)

lemma start_meets_spec:
  assumes "subjects_inv (en_db en)" and "Start (sql_resolver active live) draw w sc slug lc fresh en = (r, en')"
  shows "subjects_inv (en_db en') \<and> (case r of
      Inl e \<Rightarrow> start_failed w sc fresh (subject_at (en_db en)) (subject_at (en_db en'))
    | Inr (s, resumed) \<Rightarrow> start_spec (sql_resolver active live) w sc lc fresh (subject_at (en_db en)) s resumed (subject_at (en_db en')))"
proof -
  let ?rs = "sql_resolver active live" and ?T = "subject_at (en_db en)"
  note t = sql.t_start [OF sql_resolver_store [of active live], of ?T draw w sc slug lc fresh]
  have pre: "subjects_inv (en_db en) \<and> subject_at (en_db en) = ?T" using assms(1) by simp
  show ?thesis
  proof (cases r)
    case (Inl e)
    show ?thesis using triple_error [OF t pre assms(2) [unfolded Inl]] unfolding Inl sum.case .
  next
    case (Inr x)
    show ?thesis using triple_success [OF t pre assms(2) [unfolded Inr]] unfolding Inr sum.case case_prod_beta .
  qed
qed

text \<open>
  C4: A start never takes over another window's subject. Whatever the SQL engine answers
  and wherever a call fails, a subject that is bound neither to the caller's session in this
  scope nor (on a start that is not fresh) to the caller's pid is read after the start
  exactly as before it; a fresh start leaves even the subjects that share the caller's pid
  alone unless they are bound to its session; and a start that is not fresh leaves every
  subject of another live window alone, even one the caller named by its session.
\<close>

theorem start_ownership:
  assumes "subjects_inv (en_db en)"
    and "Start (sql_resolver active live) draw w sc slug lc fresh en = (r, en')"
    and "subject_at (en_db en) i = Some q"
    and "(\<not> session_bound w sc (subject_at (en_db en)) q \<and>
            (fresh \<or> \<not> window_bound w sc (subject_at (en_db en)) q))
      \<or> (\<not> fresh \<and> liveWindow (sql_resolver active live) (s_ClaudePID q) \<and> s_ClaudePID q \<noteq> w_ClaudePID w)"
  shows "subject_at (en_db en') i = Some q"
proof (cases r)
  case (Inl e)
  then have f: "start_failed w sc fresh (subject_at (en_db en)) (subject_at (en_db en'))"
    using start_meets_spec [OF assms(1,2)] by simp
  show ?thesis
  proof (cases fresh)
    case True
    then show ?thesis using start_failed_frame [OF f assms(3)] assms(4) by simp
  next
    case False
    then show ?thesis using f assms(3) by (simp add: start_failed_def)
  qed
next
  case (Inr x)
  then have s: "start_spec (sql_resolver active live) w sc lc fresh (subject_at (en_db en)) (fst x) (snd x) (subject_at (en_db en'))"
    using start_meets_spec [OF assms(1,2)] by (simp add: case_prod_beta)
  show ?thesis using assms(4)
  proof
    assume "\<not> session_bound w sc (subject_at (en_db en)) q \<and> (fresh \<or> \<not> window_bound w sc (subject_at (en_db en)) q)"
    then show ?thesis using start_spec_frame [OF s assms(3)] by blast
  next
    assume l: "\<not> fresh \<and> liveWindow (sql_resolver active live) (s_ClaudePID q) \<and> s_ClaudePID q \<noteq> w_ClaudePID w"
    then show ?thesis using start_spec_live [of _ w sc lc _ _ _ _ i q] s assms(3) by auto
  qed
qed

definition sample_subject :: "string \<Rightarrow> string \<Rightarrow> int \<Rightarrow> int \<Rightarrow> subject_row" where
  "sample_subject i se pid t = \<lparr>sb_id = i, sb_slug = i, sb_session = nullString se, sb_scope = ''repo'',
     sb_pid = pid, sb_status = ''open'', sb_created = t, sb_updated = t\<rparr>"

definition sample_engine :: engine where
  "sample_engine = \<lparr>en_db = empty_db\<lparr>subjects := [sample_subject ''old'' ''sess'' 7 5, sample_subject ''boot'' ''fresh'' 9 8]\<rparr>,
     en_faults = [], en_now = 12000000000, en_ticks = []\<rparr>"

lemma sample_engine_inv: "subjects_inv (en_db sample_engine)"
  by (simp add: sample_engine_def sample_subject_def subjects_inv_def subject_conflict_def empty_db_def nullString_def)

theorem start_ownership_witness:
  "\<exists>r en'. Start (sql_resolver (\<lambda>_. True) (Some (\<lambda>p. p = 7))) [1] \<lparr>w_Session = ''other'', w_ClaudePID = 9\<rparr> ''repo'' ''slug''
      \<lparr>lc_Initial = ''open'', lc_Closed = ''closed''\<rparr> False sample_engine = (r, en') \<and>
    subject_at (en_db en') ''old'' = Some (scanSubject (sample_subject ''old'' ''sess'' 7 5))"
proof -
  let ?w = "\<lparr>w_Session = ''other'', w_ClaudePID = 9\<rparr>"
  obtain r en' where s: "Start (sql_resolver (\<lambda>_. True) (Some (\<lambda>p. p = 7))) [1] ?w ''repo'' ''slug''
      \<lparr>lc_Initial = ''open'', lc_Closed = ''closed''\<rparr> False sample_engine = (r, en')" by fastforce
  have q: "subject_at (en_db sample_engine) ''old'' = Some (scanSubject (sample_subject ''old'' ''sess'' 7 5))"
    by (simp add: sample_engine_def subject_at_def row_at_def sample_subject_def empty_db_def)
  have "\<not> session_bound ?w ''repo'' (subject_at (en_db sample_engine)) (scanSubject (sample_subject ''old'' ''sess'' 7 5))"
    "\<not> window_bound ?w ''repo'' (subject_at (en_db sample_engine)) (scanSubject (sample_subject ''old'' ''sess'' 7 5))"
    by (simp_all add: session_bound_def window_bound_def sample_subject_def nullString_def ofNull_def)
  then show ?thesis using s start_ownership [OF sample_engine_inv s q] by blast
qed

text \<open>
  A start that succeeds leaves the caller's session bound to the subject it returns: the
  returned subject carries the session, its row is in the table under the session and the
  scope, the flag says whether the subject existed before, and a lookup by session and scope
  that the engine carries out returns exactly that row. The unique indexes of the table are
  kept in every case.
\<close>

theorem start_binds_session:
  assumes "subjects_inv (en_db en)" and "w_Session w \<noteq> []"
    and "Start (sql_resolver active live) draw w sc slug lc fresh en = (Inr (s, resumed), en')"
  shows "subjects_inv (en_db en') \<and> s_SessionID s = w_Session w \<and>
    (resumed \<longleftrightarrow> subject_at (en_db en) (s_ID s) \<noteq> None) \<and>
    (\<exists>q. FindBySessionScope None (w_Session w) sc (en_db en') = (Inr (Some q), en_db en') \<and> s_ID q = s_ID s)"
proof -
  have m: "subjects_inv (en_db en')"
    "start_spec (sql_resolver active live) w sc lc fresh (subject_at (en_db en)) s resumed (subject_at (en_db en'))"
    using start_meets_spec [OF assms(1,3)] by auto
  obtain q where q: "subject_at (en_db en') (s_ID s) = Some q" "s_SessionID q = w_Session w" "s_Scope q = sc"
    using start_spec_binds [OF m(2)] by blast
  obtain f d' where f: "FindBySessionScope None (w_Session w) sc (en_db en') = (Inr f, d')"
    using assms(2) by (simp add: FindBySessionScope_def)
  have "d' = en_db en'" using subject_reads_pure(1) [of None "w_Session w" sc "en_db en'"] f by simp
  moreover obtain p where "f = Some p"
    using sql_session_none [OF m(1), of None "w_Session w" sc d'] f q assms(2) by (cases f) auto
  moreover from this f have "s_ID p = s_ID s"
    using sql_session_found [OF m(1), of None "w_Session w" sc p d'] q assms(2) m(1)
      sql.session_owner [of en' "s_ID s" q "s_ID p" p] by simp
  ultimately show ?thesis using m(1) start_spec_binds [OF m(2)] f by auto
qed

theorem start_binds_session_witness:
  "\<exists>s en'. Start (sql_resolver (\<lambda>_. True) None) [1] \<lparr>w_Session = ''sess'', w_ClaudePID = 9\<rparr> ''repo'' ''slug''
      \<lparr>lc_Initial = ''open'', lc_Closed = ''closed''\<rparr> False sample_engine = (Inr (s, True), en') \<and> s_ID s = ''old'' \<and>
    (\<exists>q. FindBySessionScope None ''sess'' ''repo'' (en_db en') = (Inr (Some q), en_db en') \<and> s_ID q = ''old'')"
proof -
  let ?w = "\<lparr>w_Session = ''sess'', w_ClaudePID = 9\<rparr>"
  let ?run = "Start (sql_resolver (\<lambda>_. True) None) [1] ?w ''repo'' ''slug''
      \<lparr>lc_Initial = ''open'', lc_Closed = ''closed''\<rparr> False sample_engine"
  have "map_sum (\<lambda>_. ()) (\<lambda>(s, b). (s_ID s, b)) (fst ?run) = Inr (''old'', True)" by code_simp
  then obtain s where "fst ?run = Inr (s, True)" "s_ID s = ''old''" by (cases "fst ?run") auto
  then show ?thesis
    using start_binds_session [of sample_engine ?w "\<lambda>_. True" None "[1]" "''repo''" "''slug''"
        "\<lparr>lc_Initial = ''open'', lc_Closed = ''closed''\<rparr>" False s True "snd ?run"] sample_engine_inv
    by (metis list.discI prod.collapse Window.select_convs(1))
qed


lemma find_pure: "en_db (snd (Find (sql_resolver active live) w sc en)) = en_db en"
  by (auto simp: Find_def NewSubjectStore_def op_defs on_db_def split: prod.splits sum.split option.split)
     (metis subject_reads_pure snd_conv)+

text \<open>
  Resolving never writes: a \<open>Find\<close> leaves every table as it was, whatever it
  answers.
\<close>

theorem find_read_only: "en_db (snd (Find (sql_resolver active live) w sc en)) = en_db en"
  by (rule find_pure)

definition held_on :: "Window \<Rightarrow> string \<Rightarrow> Subject \<Rightarrow> (string \<Rightarrow> Subject option) \<Rightarrow> bool" where
  "held_on w sc held T' \<longleftrightarrow> (\<exists>h. T' (s_ID held) = Some h \<and> s_SessionID h = w_Session w \<and> s_Scope h = sc \<and>
     s_ClaudePID h = w_ClaudePID w \<and> s_CreatedAt h = s_CreatedAt held)"

lemma settle_specE:
  assumes "settle_spec w sc held T boot T'"
  obtains T1 where "settle_boot w sc held T boot T1" "\<And>i. i \<noteq> s_ID held \<Longrightarrow> T' i = T1 i"
    "T' (s_ID held) = T1 (s_ID held) \<and> (w_ClaudePID w = 0 \<or> s_ClaudePID held = w_ClaudePID w) \<or>
     (\<exists>t. T' (s_ID held) = Some (held\<lparr>s_SessionID := w_Session w, s_ClaudePID := w_ClaudePID w, s_UpdatedAt := t\<rparr>))"
  using assms unfolding settle_spec_def by (fastforce split: if_splits)

lemma settle_held_on:
  assumes "settle_spec w sc held T boot T'" and "session_bound w sc T held" and "w_ClaudePID w \<noteq> 0"
  shows "held_on w sc held T'"
proof -
  obtain T1 where T1: "settle_boot w sc held T boot T1"
    "T' (s_ID held) = T1 (s_ID held) \<and> (w_ClaudePID w = 0 \<or> s_ClaudePID held = w_ClaudePID w) \<or>
     (\<exists>t. T' (s_ID held) = Some (held\<lparr>s_SessionID := w_Session w, s_ClaudePID := w_ClaudePID w, s_UpdatedAt := t\<rparr>))"
    using settle_specE [OF assms(1)] by metis
  have "T1 (s_ID held) = Some held" by (rule sql.settle_boot_held [OF assms(2) T1(1)])
  with T1(2) assms(2,3) show ?thesis by (auto simp: held_on_def session_bound_def)
qed

lemma settle_rest_older:
  assumes "settle_spec w sc held T boot T'" and "session_bound w sc T held" and "w_ClaudePID w \<noteq> 0"
    and young: "\<And>q. window_bound w sc T q \<Longrightarrow> s_ID q \<noteq> s_ID held \<Longrightarrow>
      s_CreatedAt q < s_CreatedAt held \<or> (s_ID q = b \<and> s_CreatedAt held < s_CreatedAt q)"
    and q: "window_bound w sc T' q" "s_ID q \<noteq> s_ID held"
  shows "s_CreatedAt q < s_CreatedAt held"
proof -
  obtain T1 where T1: "settle_boot w sc held T boot T1" "T' (s_ID q) = T1 (s_ID q)"
    using settle_specE [OF assms(1)] q(2) by metis
  then have q1: "T1 (s_ID q) = Some q" using q(1) by (simp add: window_bound_def)
  from T1(1) consider "T1 = T" "\<forall>q. window_bound w sc T q \<longrightarrow> s_CreatedAt q \<le> s_CreatedAt held"
    | l t where "window_bound w sc T l" "s_ID l \<noteq> s_ID held" "s_CreatedAt held < s_CreatedAt l"
        "T1 = T(s_ID l \<mapsto> l\<lparr>s_SessionID := [], s_ClaudePID := 0, s_UpdatedAt := t\<rparr>)"
    unfolding settle_boot_def by blast
  then show ?thesis
  proof cases
    case 1
    have "window_bound w sc T q" using q(1) q1 1(1) by (simp add: window_bound_def)
    then show ?thesis using 1(2) young [OF _ q(2)] by fastforce
  next
    case (2 l t)
    have ne: "s_ID q \<noteq> s_ID l"
      using q1 q(1) assms(3) unfolding 2(4) by (auto simp: window_bound_def)
    then have "window_bound w sc T q" using q(1) q1 unfolding 2(4) by (simp add: window_bound_def)
    then show ?thesis using young [OF _ q(2)] young [OF 2(1,2)] 2(3) ne by fastforce
  qed
qed

lemma settle_boot_detached:
  assumes "settle_spec w sc held T boot T'"
  shows "boot \<noteq> [] \<longrightarrow> (\<exists>l. T' boot = Some l \<and> s_SessionID l = [] \<and> s_ClaudePID l = 0)"
proof
  assume "boot \<noteq> []"
  obtain T1 where T1: "settle_boot w sc held T boot T1" "\<And>i. i \<noteq> s_ID held \<Longrightarrow> T' i = T1 i"
    using settle_specE [OF assms] by metis
  with \<open>boot \<noteq> []\<close> show "\<exists>l. T' boot = Some l \<and> s_SessionID l = [] \<and> s_ClaudePID l = 0"
    unfolding settle_boot_def by fastforce
qed

lemma rebind_meets_spec:
  assumes "subjects_inv (en_db en)" and "Rebind (sql_resolver active live) w sc en = (r, en')"
  shows "subjects_inv (en_db en') \<and> rebind_spec (sql_resolver active live) w sc (subject_at (en_db en)) (subject_at (en_db en'))"
proof -
  let ?T = "subject_at (en_db en)"
  note t = sql.t_rebind_window [OF sql_resolver_store [of active live], of ?T w sc]
  have pre: "subjects_inv (en_db en) \<and> subject_at (en_db en) = ?T" using assms(1) by simp
  show ?thesis
  proof (cases r)
    case (Inl e)
    show ?thesis using triple_error [OF t pre assms(2) [unfolded Inl]] by (simp add: rebind_spec_def)
  next
    case (Inr x)
    show ?thesis using triple_success [OF t pre assms(2) [unfolded Inr]] .
  qed
qed

text \<open>
  Following a session rotation never crosses windows: whatever \<open>Rebind\<close> answers, a
  subject that belongs to another pid, to another scope, or that the policy does not call
  active reads afterwards exactly as before; so does every subject when the session is blank
  or already holds a subject in the scope.
\<close>

theorem rebind_own_active:
  assumes "subjects_inv (en_db en)" and "Rebind (sql_resolver active live) w sc en = (r, en')"
    and "subject_at (en_db en) i = Some q"
    and "\<not> window_bound w sc (subject_at (en_db en)) q \<or> \<not> active q \<or> w_Session w = [] \<or>
      (\<exists>p. session_bound w sc (subject_at (en_db en)) p)"
  shows "subject_at (en_db en') i = Some q"
proof (cases "subject_at (en_db en') = subject_at (en_db en)")
  case False
  then obtain p t where p: "window_bound w sc (subject_at (en_db en)) p" "active p" "w_Session w \<noteq> []"
      "\<forall>p. \<not> session_bound w sc (subject_at (en_db en)) p"
      "subject_at (en_db en') = (subject_at (en_db en))(s_ID p \<mapsto>
         p\<lparr>s_SessionID := w_Session w, s_ClaudePID := w_ClaudePID w, s_UpdatedAt := t\<rparr>)"
    using rebind_meets_spec [OF assms(1,2)] unfolding rebind_spec_def sql_resolver_active by blast
  have "p \<noteq> q" using p assms(4) by blast
  then show ?thesis unfolding p(5) by (rule update_other [OF bound_in(2) [OF p(1)] assms(3)])
qed (use assms(3) in simp)

theorem rebind_own_active_witness:
  "\<exists>r en'. Rebind (sql_resolver (\<lambda>_. True) None) \<lparr>w_Session = ''other'', w_ClaudePID = 9\<rparr> ''repo'' sample_engine = (r, en') \<and>
    subject_at (en_db en') ''old'' = Some (scanSubject (sample_subject ''old'' ''sess'' 7 5))"
proof -
  let ?w = "\<lparr>w_Session = ''other'', w_ClaudePID = 9\<rparr>"
  obtain r en' where s: "Rebind (sql_resolver (\<lambda>_. True) None) ?w ''repo'' sample_engine = (r, en')" by fastforce
  have q: "subject_at (en_db sample_engine) ''old'' = Some (scanSubject (sample_subject ''old'' ''sess'' 7 5))"
    by (simp add: sample_engine_def subject_at_def row_at_def sample_subject_def empty_db_def)
  have "\<not> window_bound ?w ''repo'' (subject_at (en_db sample_engine)) (scanSubject (sample_subject ''old'' ''sess'' 7 5))"
    by (simp add: window_bound_def sample_subject_def)
  then show ?thesis using s rebind_own_active [OF sample_engine_inv s q] by blast
qed

text \<open>
  C5: After a resumed window has settled, a lookup under its session and a lookup under its
  pid find the same subject. The session's subject \<open>held\<close> ends on the window's pid; the
  reported boot subject, if any, ends with neither session nor pid. The statement supposes
  that of the window's other subjects in the scope at most one, \<open>b\<close>, was created in a later
  second than \<open>held\<close> and the rest in earlier seconds: the comparison in the code is on
  whole seconds and looks at the latest subject only.
\<close>

theorem settle_one_subject:
  assumes "subjects_inv (en_db en)" and "w_ClaudePID w \<noteq> 0"
    and "session_bound w sc (subject_at (en_db en)) held"
    and "\<And>q. window_bound w sc (subject_at (en_db en)) q \<Longrightarrow> s_ID q \<noteq> s_ID held \<Longrightarrow>
      s_CreatedAt q < s_CreatedAt held \<or> (s_ID q = b \<and> s_CreatedAt held < s_CreatedAt q)"
    and "Settle (sql_resolver active live) w sc en = (Inr boot, en')"
  shows "(\<exists>p q. FindBySessionScope None (w_Session w) sc (en_db en') = (Inr (Some p), en_db en') \<and>
       FindLatestByWindowScope None (w_ClaudePID w) sc (en_db en') = (Inr (Some q), en_db en') \<and>
       s_ID p = s_ID held \<and> s_ID q = s_ID held) \<and>
    (boot \<noteq> [] \<longrightarrow> (\<exists>l. subject_at (en_db en') boot = Some l \<and> s_SessionID l = [] \<and> s_ClaudePID l = 0))"
proof -
  let ?T = "subject_at (en_db en)" and ?T' = "subject_at (en_db en')"
  have one: "q = held" if "session_bound w sc ?T q" for q
  proof -
    have "s_ID held = s_ID q"
      by (rule sql.session_owner [OF assms(1) bound_in(1) [OF assms(3)] bound_in(1) [OF that]])
         (use assms(3) that in \<open>unfold session_bound_def, metis+\<close>)
    then show ?thesis using bound_in(1) [OF that] bound_in(1) [OF assms(3)] by simp
  qed
  have m: "subjects_inv (en_db en')" "settle_spec w sc held ?T boot ?T'"
    using triple_success [OF sql.t_settle [OF sql_resolver_store assms(3) one] _ assms(5)] assms(1) by auto
  have h: "held_on w sc held ?T'" by (rule settle_held_on [OF m(2) assms(3,2)])
  then obtain h where h': "?T' (s_ID held) = Some h" "s_SessionID h = w_Session w" "s_Scope h = sc"
      "s_ClaudePID h = w_ClaudePID w" "s_CreatedAt h = s_CreatedAt held" by (auto simp: held_on_def)
  have se: "w_Session w \<noteq> []" using assms(3) by (simp add: session_bound_def)
  obtain p where p: "FindBySessionScope None (w_Session w) sc (en_db en') = (Inr (Some p), en_db en')"
  proof (cases "fst (FindBySessionScope None (w_Session w) sc (en_db en'))")
    case (Inr f)
    then have f: "FindBySessionScope None (w_Session w) sc (en_db en') = (Inr f, en_db en')"
      using subject_reads_pure(1) [of None "w_Session w" sc "en_db en'"] by (metis prod.collapse)
    show ?thesis using sql_session_none [OF m(1), of None "w_Session w" sc] f h' se that by (cases f) auto
  qed (use se in \<open>simp add: FindBySessionScope_def\<close>)
  obtain q where q: "FindLatestByWindowScope None (w_ClaudePID w) sc (en_db en') = (Inr (Some q), en_db en')"
  proof (cases "fst (FindLatestByWindowScope None (w_ClaudePID w) sc (en_db en'))")
    case (Inr f)
    then have f: "FindLatestByWindowScope None (w_ClaudePID w) sc (en_db en') = (Inr f, en_db en')"
      using subject_reads_pure(2) [of None "w_ClaudePID w" sc "en_db en'"] by (metis prod.collapse)
    show ?thesis using sql_latest_none [OF m(1), of None "w_ClaudePID w" sc] f h' assms(2) that by (cases f) auto
  qed (use assms(2) in \<open>simp add: FindLatestByWindowScope_def\<close>)
  have "s_ID p = s_ID held"
    using sql_session_found [OF m(1) p] h' sql.session_owner [of en' "s_ID held" h "s_ID p" p] m(1) by simp
  moreover have "s_ID q = s_ID held"
  proof (rule ccontr)
    note l = sql_latest_found [OF m(1) q]
    assume "s_ID q \<noteq> s_ID held"
    moreover have "window_bound w sc ?T' q" using l by (simp add: window_bound_def)
    ultimately have "s_CreatedAt q < s_CreatedAt held" using settle_rest_older [OF m(2) assms(3,2,4)] by blast
    moreover have "s_CreatedAt h \<le> s_CreatedAt q" using l h' by blast
    ultimately show False using h'(5) by simp
  qed
  ultimately show ?thesis using p q settle_boot_detached [OF m(2)] by blast
qed

theorem settle_one_subject_witness:
  "\<exists>en'. Settle (sql_resolver (\<lambda>_. True) None) \<lparr>w_Session = ''sess'', w_ClaudePID = 9\<rparr> ''repo'' sample_engine = (Inr ''boot'', en') \<and>
    (\<exists>p q. FindBySessionScope None ''sess'' ''repo'' (en_db en') = (Inr (Some p), en_db en') \<and>
       FindLatestByWindowScope None 9 ''repo'' (en_db en') = (Inr (Some q), en_db en') \<and>
       s_ID p = ''old'' \<and> s_ID q = ''old'')"
proof -
  let ?w = "\<lparr>w_Session = ''sess'', w_ClaudePID = 9\<rparr>"
  let ?run = "Settle (sql_resolver (\<lambda>_. True) None) ?w ''repo'' sample_engine"
  let ?held = "scanSubject (sample_subject ''old'' ''sess'' 7 5)"
  have "fst ?run = Inr ''boot''" by code_simp
  then obtain en' where run: "?run = (Inr ''boot'', en')" by (metis prod.collapse)
  have held: "session_bound ?w ''repo'' (subject_at (en_db sample_engine)) ?held"
    by (simp add: session_bound_def sample_engine_def subject_at_def row_at_def sample_subject_def empty_db_def nullString_def ofNull_def)
  have rest: "s_CreatedAt q < s_CreatedAt ?held \<or> (s_ID q = ''boot'' \<and> s_CreatedAt ?held < s_CreatedAt q)"
    if "window_bound ?w ''repo'' (subject_at (en_db sample_engine)) q" "s_ID q \<noteq> s_ID ?held" for q
  proof -
    have "q = scanSubject (sample_subject ''boot'' ''fresh'' 9 8)"
      using that by (auto simp: window_bound_def sample_engine_def subject_at_def row_at_def sample_subject_def
        empty_db_def split: if_splits)
    then show ?thesis by (simp add: sample_subject_def)
  qed
  have "s_ID ?held = ''old''" by (simp add: sample_subject_def)
  then show ?thesis
    using run settle_one_subject [OF sample_engine_inv _ held rest run] by simp
qed

end
