(* ===== verification/Park_Registry.thy ===== *)
theory Park_Registry
  imports Prelude
begin

text \<open>
  The await presence of agents (\<open>daemon/parks.go\<close>): for each subject and agent the release
  channel of the one parked long-poll, and when the agent last drained. A channel of capacity
  one is a flag, as in the bus. The step relation at the end interleaves the long-polls of
  one agent (\<open>handleAgentAwait\<close>) with directives being enqueued (\<open>Direct\<close>) and shows
  that no parked long-poll sleeps on a directive.
\<close>

section \<open>Operations\<close>

type_synonym parkKey = "string \<times> string"

record parkRegistry =
  pk_waiters :: "parkKey \<Rightarrow> nat option"
  pk_chan :: "nat \<Rightarrow> bool"
  pk_next :: nat
  pk_drains :: "parkKey \<Rightarrow> instant option"

definition newParkRegistry :: parkRegistry where
  "newParkRegistry = \<lparr>pk_waiters = (\<lambda>_. None), pk_chan = (\<lambda>_. False), pk_next = 0, pk_drains = (\<lambda>_. None)\<rparr>"

definition park_wait :: "string \<Rightarrow> string \<Rightarrow> parkRegistry \<Rightarrow> nat \<times> parkRegistry" where
  "park_wait subjectID agentID p =
     (let k = (subjectID, agentID);
          p1 = (case pk_waiters p k of
                  Some old \<Rightarrow> p\<lparr>pk_chan := (pk_chan p)(old := True)\<rparr>
                | None \<Rightarrow> p);
          ch = pk_next p1
      in (ch, p1\<lparr>pk_waiters := (pk_waiters p1)(k \<mapsto> ch), pk_chan := (pk_chan p1)(ch := False), pk_next := Suc ch\<rparr>))"

definition park_release :: "string \<Rightarrow> string \<Rightarrow> parkRegistry \<Rightarrow> parkRegistry" where
  "park_release subjectID agentID p =
     (case pk_waiters p (subjectID, agentID) of
        None \<Rightarrow> p
      | Some ch \<Rightarrow> p\<lparr>pk_chan := (pk_chan p)(ch := True)\<rparr>)"

definition park_done :: "string \<Rightarrow> string \<Rightarrow> nat \<Rightarrow> parkRegistry \<Rightarrow> parkRegistry" where
  "park_done subjectID agentID ch p =
     (if pk_waiters p (subjectID, agentID) = Some ch
      then p\<lparr>pk_waiters := (pk_waiters p)((subjectID, agentID) := None)\<rparr> else p)"

definition park_waiting :: "string \<Rightarrow> string \<Rightarrow> parkRegistry \<Rightarrow> bool" where
  "park_waiting subjectID agentID p \<longleftrightarrow> pk_waiters p (subjectID, agentID) \<noteq> None"

definition noteDrain :: "instant \<Rightarrow> string \<Rightarrow> string \<Rightarrow> parkRegistry \<Rightarrow> parkRegistry" where
  "noteDrain now subjectID agentID p = p\<lparr>pk_drains := (pk_drains p)((subjectID, agentID) \<mapsto> now)\<rparr>"

definition present :: "instant \<Rightarrow> string \<Rightarrow> string \<Rightarrow> int \<Rightarrow> parkRegistry \<Rightarrow> bool" where
  "present now subjectID agentID window p \<longleftrightarrow>
     pk_waiters p (subjectID, agentID) \<noteq> None \<or>
     (case pk_drains p (subjectID, agentID) of None \<Rightarrow> False | Some drained \<Rightarrow> now - drained \<le> window)"

lemmas park_defs = park_wait_def park_release_def park_done_def Let_def

text \<open>
  Presence lapses by itself. Once an agent has no parked await, it counts as present only
  within the window after its last drain, whatever else is registered; the agent that has
  just drained is present for the whole window, and a parked one always.
\<close>

theorem presence_lapses:
  assumes "pk_waiters p (sid, aid) = None" and "t + w < now"
  shows "\<not> present now sid aid w (noteDrain t sid aid p) \<and>
    (t \<le> u \<longrightarrow> u \<le> t + w \<longrightarrow> present u sid aid w (noteDrain t sid aid p)) \<and>
    (case park_wait sid aid p of (ch, p') \<Rightarrow> present now sid aid w p' \<and>
       \<not> present now sid aid w (noteDrain t sid aid (park_done sid aid ch p')))"
  using assms by (auto simp: present_def noteDrain_def park_defs)

theorem presence_lapses_witness:
  "\<not> present 200 ''s'' ''a'' 90 (noteDrain 100 ''s'' ''a'' newParkRegistry)"
  using presence_lapses [of newParkRegistry "''s''" "''a''" 100 90 200 150] by (simp add: newParkRegistry_def)

section \<open>Long-polls and directives\<close>

text \<open>
  The awaits of one agent beside the Directs addressed to it. A Direct first enqueues and
  later releases (or fails between the two, when its event cannot be appended: then its
  caller gets the error and the row stays pending). An await registers, drains once, and
  if that drain was empty blocks until its channel holds a release or its timeout passes; it
  then drains a last time. Hooks drain the same mailbox at any time.
\<close>

datatype await_phase = Entered | Blocked | Woken

record awaits =
  aw_parks :: parkRegistry
  aw_pending :: nat
  aw_directs :: nat
  aw_failed :: nat
  aw_polls :: "(nat \<times> await_phase) list"

inductive await_step :: "string \<Rightarrow> string \<Rightarrow> awaits \<Rightarrow> awaits \<Rightarrow> bool" for sid aid :: string where
  enqueue: "await_step sid aid s (s\<lparr>aw_pending := Suc (aw_pending s), aw_directs := Suc (aw_directs s)\<rparr>)"
| release: "aw_directs s = Suc n \<Longrightarrow>
    await_step sid aid s (s\<lparr>aw_parks := park_release sid aid (aw_parks s), aw_directs := n\<rparr>)"
| direct_fails: "aw_directs s = Suc n \<Longrightarrow>
    await_step sid aid s (s\<lparr>aw_directs := n, aw_failed := Suc (aw_failed s)\<rparr>)"
| hook_drains: "await_step sid aid s (s\<lparr>aw_pending := 0\<rparr>)"
| enter: "park_wait sid aid (aw_parks s) = (c, p) \<Longrightarrow>
    await_step sid aid s (s\<lparr>aw_parks := p, aw_polls := (c, Entered) # aw_polls s\<rparr>)"
| first_drain_some: "aw_polls s = xs @ (c, Entered) # ys \<Longrightarrow> aw_pending s \<noteq> 0 \<Longrightarrow>
    await_step sid aid s (s\<lparr>aw_parks := park_done sid aid c (aw_parks s), aw_pending := 0, aw_polls := xs @ ys\<rparr>)"
| first_drain_none: "aw_polls s = xs @ (c, Entered) # ys \<Longrightarrow> aw_pending s = 0 \<Longrightarrow>
    await_step sid aid s (s\<lparr>aw_polls := xs @ (c, Blocked) # ys\<rparr>)"
| woken_by_release: "aw_polls s = xs @ (c, Blocked) # ys \<Longrightarrow> pk_chan (aw_parks s) c \<Longrightarrow>
    await_step sid aid s (s\<lparr>aw_parks := (aw_parks s)\<lparr>pk_chan := (pk_chan (aw_parks s))(c := False)\<rparr>,
      aw_polls := xs @ (c, Woken) # ys\<rparr>)"
| woken_by_timeout: "aw_polls s = xs @ (c, Blocked) # ys \<Longrightarrow>
    await_step sid aid s (s\<lparr>aw_polls := xs @ (c, Woken) # ys\<rparr>)"
| last_drain: "aw_polls s = xs @ (c, Woken) # ys \<Longrightarrow>
    await_step sid aid s (s\<lparr>aw_parks := park_done sid aid c (aw_parks s), aw_pending := 0, aw_polls := xs @ ys\<rparr>)"
| cancelled: "aw_polls s = xs @ (c, ph) # ys \<Longrightarrow>
    await_step sid aid s (s\<lparr>aw_parks := park_done sid aid c (aw_parks s), aw_polls := xs @ ys\<rparr>)"

definition await_start :: "awaits \<Rightarrow> bool" where
  "await_start s \<longleftrightarrow> aw_parks s = newParkRegistry \<and> aw_polls s = [] \<and> aw_directs s = 0 \<and> aw_failed s = 0"

definition await_inv :: "string \<Rightarrow> string \<Rightarrow> awaits \<Rightarrow> bool" where
  "await_inv sid aid s \<longleftrightarrow>
     distinct (map fst (aw_polls s)) \<and>
     (\<forall>c ph. (c, ph) \<in> set (aw_polls s) \<longrightarrow> c < pk_next (aw_parks s)) \<and>
     (\<forall>c. pk_waiters (aw_parks s) (sid, aid) = Some c \<longrightarrow> c < pk_next (aw_parks s)) \<and>
     (\<forall>c ph. (c, ph) \<in> set (aw_polls s) \<longrightarrow> ph \<noteq> Woken \<longrightarrow>
        pk_waiters (aw_parks s) (sid, aid) = Some c \<or> pk_chan (aw_parks s) c) \<and>
     (\<forall>c ph. (c, ph) \<in> set (aw_polls s) \<longrightarrow> ph = Blocked \<longrightarrow> aw_failed s = 0 \<longrightarrow> aw_pending s \<noteq> 0 \<longrightarrow>
        pk_chan (aw_parks s) c \<or> aw_directs s \<noteq> 0)"

lemma park_wait_facts:
  assumes "park_wait sid aid p = (c, p')"
  shows "c = pk_next p" "pk_next p' = Suc c" "pk_waiters p' (sid, aid) = Some c"
    "\<And>x. pk_chan p' x \<longleftrightarrow> x \<noteq> c \<and> (pk_waiters p (sid, aid) = Some x \<or> pk_chan p x)"
  using assms by (auto simp: park_defs split: option.splits if_splits)

lemma await_invI:
  assumes "distinct (map fst (aw_polls s))" and "\<And>c ph. (c, ph) \<in> set (aw_polls s) \<Longrightarrow> c < pk_next (aw_parks s)"
    and "\<And>c. pk_waiters (aw_parks s) (sid, aid) = Some c \<Longrightarrow> c < pk_next (aw_parks s)"
    and "\<And>c ph. (c, ph) \<in> set (aw_polls s) \<Longrightarrow> ph \<noteq> Woken \<Longrightarrow>
        pk_waiters (aw_parks s) (sid, aid) = Some c \<or> pk_chan (aw_parks s) c"
    and "\<And>c. (c, Blocked) \<in> set (aw_polls s) \<Longrightarrow> aw_failed s = 0 \<Longrightarrow> aw_pending s \<noteq> 0 \<Longrightarrow>
        pk_chan (aw_parks s) c \<or> aw_directs s \<noteq> 0"
  shows "await_inv sid aid s"
  using assms unfolding await_inv_def by blast

lemma await_invD:
  assumes "await_inv sid aid s"
  shows "distinct (map fst (aw_polls s))" "(c, ph) \<in> set (aw_polls s) \<Longrightarrow> c < pk_next (aw_parks s)"
    "pk_waiters (aw_parks s) (sid, aid) = Some c \<Longrightarrow> c < pk_next (aw_parks s)"
    "(c, ph) \<in> set (aw_polls s) \<Longrightarrow> ph \<noteq> Woken \<Longrightarrow> pk_waiters (aw_parks s) (sid, aid) = Some c \<or> pk_chan (aw_parks s) c"
    "(c, Blocked) \<in> set (aw_polls s) \<Longrightarrow> aw_failed s = 0 \<Longrightarrow> aw_pending s \<noteq> 0 \<Longrightarrow>
        pk_chan (aw_parks s) c \<or> aw_directs s \<noteq> 0"
  using assms unfolding await_inv_def by blast+

lemma distinct_fst_mid:
  "distinct (map fst (xs @ (c, ph) # ys)) \<Longrightarrow> (x, q) \<in> set (xs @ ys) \<Longrightarrow> x \<noteq> c"
  by (auto simp: image_iff Ball_def)

lemma await_inv_leave:
  assumes "await_inv sid aid s" and "aw_polls s = xs @ (c, ph) # ys" and "n = 0 \<or> n = aw_pending s"
  shows "await_inv sid aid (s\<lparr>aw_parks := park_done sid aid c (aw_parks s), aw_pending := n, aw_polls := xs @ ys\<rparr>)"
proof -
  have sub: "(x, q) \<in> set (aw_polls s) \<and> x \<noteq> c" if "(x, q) \<in> set (xs @ ys)" for x q
    using that distinct_fst_mid [OF await_invD(1) [OF assms(1), unfolded assms(2)] that] by (auto simp: assms(2))
  note inv = await_invD [OF assms(1)]
  have dn: "pk_next (park_done sid aid c p) = pk_next p" "pk_chan (park_done sid aid c p) = pk_chan p"
      "pk_waiters (park_done sid aid c p) (sid, aid) = (if pk_waiters p (sid, aid) = Some c then None else pk_waiters p (sid, aid))" for p
    by (simp_all add: park_done_def)
  show ?thesis
  proof (rule await_invI, goal_cases)
    case 1
    show ?case using inv(1) assms(2) by simp
  next
    case (2 x q)
    then show ?case using sub [of x q] inv(2) [of x q] by (simp add: dn)
  next
    case (3 x)
    then show ?case using inv(3) by (simp add: dn split: if_splits)
  next
    case (4 x q)
    then show ?case using sub [of x q] inv(4) [of x q] by (auto simp: dn)
  next
    case (5 x)
    then show ?case using sub [of x Blocked] inv(5) [of x] assms(3) by (auto simp: dn)
  qed
qed

lemma await_inv_step:
  assumes "await_inv sid aid s" and "await_step sid aid s t"
  shows "await_inv sid aid t"
  using assms(2,1)
proof (cases rule: await_step.cases)
  case (release n)
  show ?thesis using assms(1) unfolding release
    by (cases "pk_waiters (aw_parks s) (sid, aid)") (fastforce simp: await_inv_def park_release_def)+
next
  case (enter c p)
  note w = park_wait_facts [OF enter(2)]
  have inv: "distinct (map fst (aw_polls s))" "\<And>x ph. (x, ph) \<in> set (aw_polls s) \<Longrightarrow> x < c"
      "\<And>x ph. (x, ph) \<in> set (aw_polls s) \<Longrightarrow> ph \<noteq> Woken \<Longrightarrow>
        pk_waiters (aw_parks s) (sid, aid) = Some x \<or> pk_chan (aw_parks s) x"
    using assms(1) w(1) unfolding await_inv_def by blast+
  have "c \<notin> fst ` set (aw_polls s)" using inv(2) by fastforce
  moreover have "pk_chan p x" if "(x, ph) \<in> set (aw_polls s)" "ph \<noteq> Woken" for x ph
    using inv(2,3) [OF that(1)] that(2) w(4) by auto
  moreover have "x < Suc c" if "(x, ph) \<in> set (aw_polls s)" for x ph using inv(2) [OF that] by simp
  ultimately show ?thesis using inv(1) w(2,3) unfolding enter(1) await_inv_def by auto
next
  case (first_drain_some xs c ys)
  show ?thesis unfolding first_drain_some(1) by (rule await_inv_leave [OF assms(1) first_drain_some(2)]) simp
next
  case (last_drain xs c ys)
  show ?thesis unfolding last_drain(1) by (rule await_inv_leave [OF assms(1) last_drain(2)]) simp
next
  case (cancelled xs c ph ys)
  show ?thesis unfolding cancelled(1) using await_inv_leave [OF assms(1) cancelled(2), of "aw_pending s"] by simp
next
  case (woken_by_release xs c ys)
  have "(x, q) \<in> set (aw_polls s) \<and> x \<noteq> c" if "(x, q) \<in> set xs \<or> (x, q) \<in> set ys" for x q
    using that distinct_fst_mid [OF await_invD(1) [OF assms(1), unfolded woken_by_release(2)], of x q]
    by (auto simp: woken_by_release(2))
  note others = this and inv = await_invD [OF assms(1)]
  show ?thesis unfolding woken_by_release(1)
    by (rule await_invI) (use inv others woken_by_release(2) in \<open>auto, (blast+)?\<close>)
next
  case (first_drain_none xs c ys)
  note inv = await_invD [OF assms(1)]
  show ?thesis unfolding first_drain_none(1)
    by (rule await_invI) (use inv first_drain_none(2,3) in \<open>auto, (blast+)?\<close>)
next
  case (woken_by_timeout xs c ys)
  note inv = await_invD [OF assms(1)]
  show ?thesis unfolding woken_by_timeout(1)
    by (rule await_invI) (use inv woken_by_timeout(2) in \<open>auto, (blast+)?\<close>)
qed (use assms(1) in \<open>auto simp: await_inv_def\<close>)

interpretation awaiting: invariant_of await_start "await_step sid aid" "await_inv sid aid" for sid aid
  by unfold_locales (simp add: await_start_def await_inv_def newParkRegistry_def, rule await_inv_step)

text \<open>
  C7: No directive is slept on. In every interleaving of awaits, directives and hooks: a
  long-poll that is blocked while the mailbox is not empty has a release waiting in its
  channel, unless a Direct is still between its enqueue and its release or failed there; and
  a long-poll that was displaced by a newer one has a release waiting in any case, so it
  wakes instead of stalling to its timeout.
\<close>

theorem await_never_sleeps_on_directive:
  assumes "reach await_start (await_step sid aid) s" and "(c, Blocked) \<in> set (aw_polls s)"
  shows "(aw_pending s \<noteq> 0 \<and> aw_directs s = 0 \<and> aw_failed s = 0 \<longrightarrow> pk_chan (aw_parks s) c) \<and>
    (pk_waiters (aw_parks s) (sid, aid) \<noteq> Some c \<longrightarrow> pk_chan (aw_parks s) c)"
  using awaiting.reachable_inv [OF assms(1)] assms(2) by (auto simp: await_inv_def)

theorem await_never_sleeps_on_directive_witness:
  "\<exists>s. reach await_start (await_step ''s'' ''a'') s \<and> (0, Blocked) \<in> set (aw_polls s) \<and> aw_pending s = 1 \<and>
     pk_chan (aw_parks s) 0"
proof -
  define s0 where "s0 = \<lparr>aw_parks = newParkRegistry, aw_pending = 0, aw_directs = 0, aw_failed = 0, aw_polls = []\<rparr>"
  define s1 where "s1 = s0\<lparr>aw_parks := snd (park_wait ''s'' ''a'' newParkRegistry), aw_polls := [(0, Entered)]\<rparr>"
  define s2 where "s2 = s1\<lparr>aw_polls := [(0, Blocked)]\<rparr>"
  define s3 where "s3 = s2\<lparr>aw_pending := 1, aw_directs := 1\<rparr>"
  define s4 where "s4 = s3\<lparr>aw_parks := park_release ''s'' ''a'' (aw_parks s3), aw_directs := 0\<rparr>"
  note defs = s0_def s1_def s2_def s3_def s4_def
  have r0: "reach await_start (await_step ''s'' ''a'') s0" by (rule reach_start) (simp add: await_start_def s0_def)
  have t1: "await_step ''s'' ''a'' s0 s1"
    using enter [of "''s''" "''a''" s0 0] by (simp add: defs park_wait_def newParkRegistry_def)
  note r1 = reach_step [OF r0 t1]
  have t2: "await_step ''s'' ''a'' s1 s2" using first_drain_none [of s1 "[]" 0 "[]" "''s''" "''a''"] by (simp add: defs)
  note r2 = reach_step [OF r1 t2]
  have t3: "await_step ''s'' ''a'' s2 s3" using enqueue [of "''s''" "''a''" s2] by (simp add: defs)
  note r3 = reach_step [OF r2 t3]
  have t4: "await_step ''s'' ''a'' s3 s4" using release [of s3 0 "''s''" "''a''"] by (simp add: defs)
  note r4 = reach_step [OF r3 t4]
  have "(0, Blocked) \<in> set (aw_polls s4)" "aw_pending s4 = 1" "aw_directs s4 = 0" "aw_failed s4 = 0"
    by (simp_all add: defs)
  then show ?thesis using r4 await_never_sleeps_on_directive [OF r4, of 0] by auto
qed

end
