(* ===== verification/Daemon_Core.thy ===== *)
theory Daemon_Core
  imports Store_Agents Subject_Resolver Sse Park_Registry Json
begin

text \<open>
  The core of the daemon: its state and configuration, the subscription registry
  (\<open>daemon/subscriptions.go\<close>), the gate-block counter, the event constructors, and the two
  chokepoints \<open>Append\<close> (\<open>daemon/events.go\<close>) and \<open>Direct\<close> (\<open>daemon/agents.go\<close>).

  \<open>Append\<close> tees an event into the mailboxes of its subscribers through \<open>Direct\<close>, which
  appends an event in turn: the recursion is bounded by fuel, and running out of it is
  \<open>None\<close>, a call that never returns. The theorems say when two levels are enough.
\<close>

section \<open>Actions that may not return\<close>

type_synonym ('st, 'a) fop = "'st \<Rightarrow> ('a result \<times> 'st) option"

definition ret_f :: "'a \<Rightarrow> ('st, 'a) fop" where
  "ret_f x st = Some (Inr x, st)"

definition fail_f :: "go_error \<Rightarrow> ('st, 'a) fop" where
  "fail_f e st = Some (Inl e, st)"

definition stuck_f :: "('st, 'a) fop" where
  "stuck_f st = None"

definition bind_f :: "('st, 'a) fop \<Rightarrow> ('a \<Rightarrow> ('st, 'b) fop) \<Rightarrow> ('st, 'b) fop" where
  "bind_f m k st = (case m st of
     None \<Rightarrow> None | Some (Inl e, st') \<Rightarrow> Some (Inl e, st') | Some (Inr x, st') \<Rightarrow> k x st')"

definition try_f :: "('st, 'a) fop \<Rightarrow> ('a result \<Rightarrow> ('st, 'b) fop) \<Rightarrow> ('st, 'b) fop" where
  "try_f m k st = (case m st of None \<Rightarrow> None | Some (r, st') \<Rightarrow> k r st')"

definition wrap_f :: "string \<Rightarrow> ('st, 'a) fop \<Rightarrow> ('st, 'a) fop" where
  "wrap_f p m = try_f m (\<lambda>r. case r of Inl e \<Rightarrow> fail_f (ErrWrap p e) | Inr x \<Rightarrow> ret_f x)"

definition lift_f :: "('st, 'a) op \<Rightarrow> ('st, 'a) fop" where
  "lift_f m st = Some (m st)"

definition modify_f :: "('st \<Rightarrow> 'st) \<Rightarrow> ('st, unit) fop" where
  "modify_f f st = Some (Inr (), f st)"

definition gets_f :: "('st \<Rightarrow> 'a) \<Rightarrow> ('st, 'a) fop" where
  "gets_f f st = Some (Inr (f st), st)"

lemmas fop_defs = ret_f_def fail_f_def stuck_f_def bind_f_def try_f_def wrap_f_def lift_f_def modify_f_def gets_f_def

text \<open>A property of the state every returning run keeps.\<close>

definition keeps_f :: "('st \<Rightarrow> bool) \<Rightarrow> ('st, 'a) fop \<Rightarrow> bool" where
  "keeps_f P m \<longleftrightarrow> (\<forall>st r st'. P st \<longrightarrow> m st = Some (r, st') \<longrightarrow> P st')"

lemma keeps_fD: "keeps_f P m \<Longrightarrow> P st \<Longrightarrow> m st = Some (r, st') \<Longrightarrow> P st'"
  by (auto simp: keeps_f_def)

lemma keeps_f_basic [intro!]: "keeps_f P (ret_f x)" "keeps_f P (fail_f e)" "keeps_f P stuck_f" "keeps_f P (gets_f g)"
  by (auto simp: keeps_f_def fop_defs)

lemma keeps_f_bind [intro!]:
  assumes "keeps_f P m" and "\<And>x. keeps_f P (k x)"
  shows "keeps_f P (bind_f m k)"
  unfolding keeps_f_def
proof (intro allI impI)
  fix st r st' assume "P st" and b: "bind_f m k st = Some (r, st')"
  obtain q st1 where m: "m st = Some (q, st1)" using b by (auto simp: bind_f_def split: option.splits)
  have "P st1" by (rule keeps_fD [OF assms(1) \<open>P st\<close> m])
  then show "P st'" using b m keeps_fD [OF assms(2)] by (cases q) (auto simp: bind_f_def)
qed

lemma keeps_f_try [intro!]:
  assumes "keeps_f P m" and "\<And>r. keeps_f P (k r)"
  shows "keeps_f P (try_f m k)"
  unfolding keeps_f_def
proof (intro allI impI)
  fix st r st' assume "P st" and b: "try_f m k st = Some (r, st')"
  obtain q st1 where m: "m st = Some (q, st1)" using b by (auto simp: try_f_def split: option.splits)
  have "P st1" by (rule keeps_fD [OF assms(1) \<open>P st\<close> m])
  then show "P st'" using b m keeps_fD [OF assms(2)] by (auto simp: try_f_def)
qed

lemma keeps_f_wrap [intro!]: "keeps_f P m \<Longrightarrow> keeps_f P (wrap_f p m)"
  unfolding wrap_f_def by (rule keeps_f_try) (auto split: sum.split)

lemma keeps_f_lift [intro!]: "keeps P m \<Longrightarrow> keeps_f P (lift_f m)"
  by (auto simp: keeps_f_def lift_f_def dest: keepsD)

lemma keeps_f_modify [intro!]: "(\<And>st. P st \<Longrightarrow> P (f st)) \<Longrightarrow> keeps_f P (modify_f f)"
  by (simp add: keeps_f_def modify_f_def)

lemma keeps_f_if [intro!]: "(c \<Longrightarrow> keeps_f P m) \<Longrightarrow> (\<not> c \<Longrightarrow> keeps_f P n) \<Longrightarrow> keeps_f P (if c then m else n)"
  by simp

text \<open>An action that always returns.\<close>

definition returns_f :: "('st \<Rightarrow> bool) \<Rightarrow> ('st, 'a) fop \<Rightarrow> bool" where
  "returns_f P m \<longleftrightarrow> (\<forall>st. P st \<longrightarrow> (\<exists>r st'. m st = Some (r, st') \<and> P st'))"

lemma returns_fD: "returns_f P m \<Longrightarrow> P st \<Longrightarrow> \<exists>r st'. m st = Some (r, st') \<and> P st'"
  by (simp add: returns_f_def)

lemma returns_f_basic [intro!]: "returns_f P (ret_f x)" "returns_f P (fail_f e)" "returns_f P (gets_f g)"
  by (auto simp: returns_f_def fop_defs)

lemma returns_f_bind [intro!]:
  assumes "returns_f P m" and "\<And>x. returns_f P (k x)"
  shows "returns_f P (bind_f m k)"
  unfolding returns_f_def
proof (intro allI impI)
  fix st assume "P st"
  then obtain q st1 where m: "m st = Some (q, st1)" "P st1" using returns_fD [OF assms(1)] by blast
  then show "\<exists>r st'. bind_f m k st = Some (r, st') \<and> P st'"
    using returns_fD [OF assms(2)] by (cases q) (auto simp: bind_f_def)
qed

lemma returns_f_try [intro!]:
  assumes "returns_f P m" and "\<And>r. returns_f P (k r)"
  shows "returns_f P (try_f m k)"
  unfolding returns_f_def
proof (intro allI impI)
  fix st assume "P st"
  then obtain q st1 where m: "m st = Some (q, st1)" "P st1" using returns_fD [OF assms(1)] by blast
  then show "\<exists>r st'. try_f m k st = Some (r, st') \<and> P st'"
    using returns_fD [OF assms(2)] by (auto simp: try_f_def)
qed

lemma returns_f_wrap [intro!]: "returns_f P m \<Longrightarrow> returns_f P (wrap_f p m)"
  unfolding wrap_f_def by (rule returns_f_try) (auto split: sum.split)

lemma returns_f_lift [intro!]: "keeps P m \<Longrightarrow> returns_f P (lift_f m)"
  by (auto simp: returns_f_def lift_f_def) (metis keepsD prod.collapse)

lemma returns_f_modify [intro!]: "(\<And>st. P st \<Longrightarrow> P (f st)) \<Longrightarrow> returns_f P (modify_f f)"
  by (simp add: returns_f_def modify_f_def)

lemma returns_f_if [intro!]: "(c \<Longrightarrow> returns_f P m) \<Longrightarrow> (\<not> c \<Longrightarrow> returns_f P n) \<Longrightarrow> returns_f P (if c then m else n)"
  by simp

section \<open>Configuration and state\<close>

text \<open>
  \<open>Config\<close> holds the functions the consumer injects (as pure functions of their arguments),
  the process liveness test, the existence test on directories, the order in which Go ranges
  over a map (a function of the keys), and the decoders of the request bodies
  (\<open>json.Unmarshal\<close> into the handler's struct; \<open>None\<close> is its error, except for the two
  decoders of the edit guard, whose errors the code ignores: they give what is left in the struct).
\<close>

record agentStartBody =
  as_AgentID :: string
  as_AgentType :: string
  as_ParentAgentID :: string
  as_SessionID :: string
  as_TranscriptPath :: string

record agentStopBody =
  ap_AgentID :: string
  ap_LastAssistantMessage :: string
  ap_AgentTranscriptPath :: string

record agentReportBody =
  ar_ToolUseID :: string
  ar_ToolResponse :: string

record agentDirectBody =
  ad_AgentID :: string
  ad_Origin :: string
  ad_Text :: string

record ToolCall =
  tc_Name :: string
  tc_Input :: string

record Config =
  cf_runtimeBuild :: string
  cf_scopeResolve :: "string \<Rightarrow> string"
  cf_gate :: "(Subject \<Rightarrow> ToolCall \<Rightarrow> bool \<times> string) option"
  cf_gateErrorReason :: string
  cf_activeStatuses :: "string list"
  cf_agentGate :: "(Subject \<Rightarrow> Info \<Rightarrow> bool \<times> string) option"
  cf_agentGreeting :: "(Info \<Rightarrow> string) option"
  cf_subscribe :: "(Subject \<Rightarrow> Info \<Rightarrow> string list) option"
  cf_muteConsumer :: string
  cf_singletonSubscriber :: bool
  cf_liveClaude :: "int \<Rightarrow> bool"
  cf_isDir :: "string \<Rightarrow> bool"
  cf_range :: "string list \<Rightarrow> string list"
  cf_startBody :: "string \<Rightarrow> agentStartBody option"
  cf_stopBody :: "string \<Rightarrow> agentStopBody option"
  cf_injectBody :: "string \<Rightarrow> string option"
  cf_reportBody :: "string \<Rightarrow> agentReportBody option"
  cf_directBody :: "string \<Rightarrow> agentDirectBody option"
  cf_gateObserve :: bool
  cf_guardBody :: "string \<Rightarrow> ToolCall"
  cf_toolPaths :: "string \<Rightarrow> string \<times> string"

type_synonym subscriptionRegistry = "string \<Rightarrow> (string \<times> string list) list"

record Server =
  sv_eng :: engine
  sv_bus :: Bus
  sv_activity :: Activity
  sv_subscriptions :: subscriptionRegistry
  sv_parks :: parkRegistry
  sv_gateBlocks :: "string \<times> string \<Rightarrow> int"
  sv_httpPort :: int
  sv_sse :: sse_server
  sv_observed :: "(string \<times> ToolCall \<times> bool \<times> string) list"

definition on_store :: "(engine, 'a) op \<Rightarrow> (Server, 'a) fop" where
  "on_store m s = (case m (sv_eng s) of (r, en) \<Rightarrow> Some (r, s\<lparr>sv_eng := en\<rparr>))"

definition time_now :: "(Server, instant) fop" where
  "time_now s = (case read_clock (sv_eng s) of (t, en) \<Rightarrow> Some (Inr t, s\<lparr>sv_eng := en\<rparr>))"

text \<open>The resolver that \<open>activateState\<close> builds.\<close>

definition subjects_of :: "Config \<Rightarrow> engine Resolver" where
  "subjects_of cf = sql_resolver (\<lambda>sub. s_Status sub \<in> set (cf_activeStatuses cf)) (Some (cf_liveClaude cf))"

section \<open>The subscription registry\<close>

definition registry_remove :: "string \<Rightarrow> string \<Rightarrow> subscriptionRegistry \<Rightarrow> subscriptionRegistry" where
  "registry_remove subjectID agentID r = r(subjectID := AList.delete agentID (r subjectID))"

definition registry_set :: "string \<Rightarrow> string \<Rightarrow> string list \<Rightarrow> subscriptionRegistry \<Rightarrow> subscriptionRegistry" where
  "registry_set subjectID agentID types r =
     (if types = [] then registry_remove subjectID agentID r
      else r(subjectID := AList.update agentID types (r subjectID)))"

definition subscribers :: "Config \<Rightarrow> string \<Rightarrow> string \<Rightarrow> subscriptionRegistry \<Rightarrow> string list" where
  "subscribers cf subjectID eventType r =
     filter (\<lambda>agentID. case map_of (r subjectID) agentID of None \<Rightarrow> False | Some types \<Rightarrow> eventType \<in> set types)
       (cf_range cf (map fst (r subjectID)))"

section \<open>Gate blocks\<close>

definition gate_incr :: "string \<Rightarrow> string \<Rightarrow> (string \<times> string \<Rightarrow> int) \<Rightarrow> (string \<times> string \<Rightarrow> int)" where
  "gate_incr subjectID agentID g = g((subjectID, agentID) := g (subjectID, agentID) + 1)"

definition gate_reset :: "string \<Rightarrow> string \<Rightarrow> (string \<times> string \<Rightarrow> int) \<Rightarrow> (string \<times> string \<Rightarrow> int)" where
  "gate_reset subjectID agentID g = g((subjectID, agentID) := 0)"

section \<open>Events\<close>

definition new_event :: "string \<Rightarrow> string \<Rightarrow> string \<Rightarrow> string \<Rightarrow> string \<Rightarrow> Event" where
  "new_event subjectID origin typ payload dedup =
     \<lparr>e_SubjectID = subjectID, e_Seq = 0, e_Origin = origin, e_Type = typ, e_Payload = payload,
      e_CreatedAt = 0, e_DedupKey = dedup\<rparr>"

definition startedEvent :: "Info \<Rightarrow> Event" where
  "startedEvent info = new_event (ai_SubjectID info) OriginSystem EventStarted
     (json_object [(''type'', JString EventStarted), (''agent_id'', JString (ai_AgentID info)),
        (''agent_type'', JString (ai_AgentType info)), (''parent_agent_id'', JString (ai_ParentAgentID info))])
     (EventStarted @ '':'' @ ai_AgentID info)"

definition stoppedEvent :: "string \<Rightarrow> agentStopBody \<Rightarrow> Event" where
  "stoppedEvent subjectID b = new_event subjectID OriginSystem EventStopped
     (json_object ([(''type'', JString EventStopped), (''agent_id'', JString (ap_AgentID b))] @
        (if ap_LastAssistantMessage b = [] then [] else [(''last_assistant_message'', JString (ap_LastAssistantMessage b))]) @
        (if ap_AgentTranscriptPath b = [] then [] else [(''agent_transcript_path'', JString (ap_AgentTranscriptPath b))]))) []"

definition directedEvent :: "Directive \<Rightarrow> Event" where
  "directedEvent d = new_event (d_SubjectID d) (d_Origin d) EventDirected
     (json_object [(''type'', JString EventDirected), (''agent_id'', JString (d_AgentID d)),
        (''origin'', JString (d_Origin d)), (''directive_id'', JInt (d_ID d)), (''text'', JString (d_Text d))]) []"

definition deliveredEvent :: "string \<Rightarrow> string \<Rightarrow> string \<Rightarrow> Directive list \<Rightarrow> Event" where
  "deliveredEvent subjectID agentID via ds = new_event subjectID OriginSystem EventDelivered
     (json_object [(''type'', JString EventDelivered), (''agent_id'', JString agentID),
        (''via'', JString via), (''directive_ids'', JInts (map d_ID ds))]) []"

definition relayEvent :: "string \<Rightarrow> string \<Rightarrow> Event" where
  "relayEvent subjectID agentID = new_event subjectID OriginSystem EventRelay
     (json_object [(''type'', JString EventRelay), (''agent_id'', JString agentID)]) []"

definition forcedAllowEvent :: "string \<Rightarrow> string \<Rightarrow> Event" where
  "forcedAllowEvent subjectID agentID = new_event subjectID OriginSystem EventForcedAllow
     (json_object [(''type'', JString EventForcedAllow), (''agent_id'', JString agentID)]) []"

lemmas event_builders = startedEvent_def stoppedEvent_def directedEvent_def deliveredEvent_def
  relayEvent_def forcedAllowEvent_def new_event_def

section \<open>Append and Direct\<close>

definition direct_with :: "(Event \<Rightarrow> (Server, int) fop) \<Rightarrow> string \<Rightarrow> string \<Rightarrow> string \<Rightarrow> string
    \<Rightarrow> (Server, Directive) fop" where
  "direct_with app subjectID agentID origin txt =
     bind_f (wrap_f ''enqueue directive''
       (on_store (on_db_now (\<lambda>flt now. EnqueueDirective flt subjectID agentID origin txt now)))) (\<lambda>(directive, status).
     bind_f (wrap_f ''append agent.directed'' (app (directedEvent directive))) (\<lambda>_.
     bind_f (modify_f (\<lambda>s. s\<lparr>sv_parks := park_release subjectID agentID (sv_parks s)\<rparr>)) (\<lambda>_.
     if status = StatusDone
     then bind_f (wrap_f ''append agent.relay'' (app (relayEvent subjectID agentID))) (\<lambda>_. ret_f directive)
     else ret_f directive)))"

primrec tee_each :: "(Event \<Rightarrow> (Server, int) fop) \<Rightarrow> Event \<Rightarrow> string list \<Rightarrow> (Server, unit) fop" where
  "tee_each app e [] = ret_f ()"
| "tee_each app e (agentID # rest) =
     try_f (direct_with app (e_SubjectID e) agentID OriginEvent (e_Payload e)) (\<lambda>_. tee_each app e rest)"

definition teeToSubscribers :: "Config \<Rightarrow> (Event \<Rightarrow> (Server, int) fop) \<Rightarrow> Event \<Rightarrow> (Server, unit) fop" where
  "teeToSubscribers cf app e =
     (if cf_subscribe cf = None \<or> e_Origin e = OriginAgent then ret_f ()
      else bind_f (gets_f (\<lambda>s. subscribers cf (e_SubjectID e) (e_Type e) (sv_subscriptions s)))
             (\<lambda>agents. tee_each app e agents))"

primrec Append :: "Config \<Rightarrow> nat \<Rightarrow> Event \<Rightarrow> (Server, int) fop" where
  "Append cf 0 = (\<lambda>e. stuck_f)"
| "Append cf (Suc n) = (\<lambda>e.
     bind_f (wrap_f (''append '' @ e_Type e @ '' event'') (on_store (on_db_now (\<lambda>flt now. AppendEvent flt now e)))) (\<lambda>(seq, e').
     bind_f (modify_f (\<lambda>s. s\<lparr>sv_bus := Publish (e_SubjectID e') (sv_bus s)\<rparr>)) (\<lambda>_.
     bind_f (teeToSubscribers cf (Append cf n) e') (\<lambda>_. ret_f seq))))"

definition Direct :: "Config \<Rightarrow> nat \<Rightarrow> string \<Rightarrow> string \<Rightarrow> string \<Rightarrow> string \<Rightarrow> (Server, Directive) fop" where
  "Direct cf n = direct_with (Append cf n)"

section \<open>The store's invariant through the daemon\<close>

definition store_inv :: "db \<Rightarrow> bool" where
  "store_inv d \<longleftrightarrow> subjects_inv d \<and> log_inv d \<and> agents_inv d"

definition server_inv :: "Server \<Rightarrow> bool" where
  "server_inv s \<longleftrightarrow> store_inv (en_db (sv_eng s))"

lemma known_subject_cong: "map sb_id (subjects d') = map sb_id (subjects d) \<Longrightarrow> known_subject d' = known_subject d"
  by (auto simp: known_subject_def list_ex_iff fun_eq_iff) (metis image_iff list.set_map)+

lemma log_inv_cong:
  assumes "map sb_id (subjects d') = map sb_id (subjects d)" and "events d' = events d"
  shows "log_inv d' = log_inv d"
  using assms known_subject_cong [OF assms(1)]
  by (simp add: log_inv_def dense_def log_of_def dedup_unique_def events_owned_def)

lemma agents_inv_cong:
  assumes "map sb_id (subjects d') = map sb_id (subjects d)" and "agents d' = agents d" and "directives d' = directives d"
  shows "agents_inv d' = agents_inv d"
  using assms known_subject_cong [OF assms(1)]
  by (simp add: agents_inv_def agents_keyed_def agents_owned_def directives_numbered_def)

lemma subjects_inv_cong: "subjects d' = subjects d \<Longrightarrow> subjects_inv d' = subjects_inv d"
  by (simp add: subjects_inv_def)

lemma store_inv_append: "store_inv d \<Longrightarrow> store_inv (snd (AppendEvent flt now e d))"
  using append_log_inv [of d flt now e] subjects_inv_cong [of "snd (AppendEvent flt now e d)" d]
    agents_inv_cong [of "snd (AppendEvent flt now e d)" d]
  by (simp add: store_inv_def frame_simps)

lemma store_inv_agents:
  assumes "store_inv d"
  shows "store_inv (snd (RegisterAgent flt info d))" "store_inv (snd (CloseAgent flt sid aid t d))"
    "store_inv (snd (EnqueueDirective flt sid aid org tx t d))" "store_inv (snd (DrainDirectives flt sid aid t d))"
  using assms RegisterAgent_inv [of d flt info] CloseAgent_inv [of d flt sid aid t]
    EnqueueDirective_inv [of d flt sid aid org tx t] DrainDirectives_inv [of d flt sid aid t]
    log_inv_cong [of "snd (RegisterAgent flt info d)" d] log_inv_cong [of "snd (CloseAgent flt sid aid t d)" d]
    log_inv_cong [of "snd (EnqueueDirective flt sid aid org tx t d)" d] log_inv_cong [of "snd (DrainDirectives flt sid aid t d)" d]
    subjects_inv_cong [of "snd (RegisterAgent flt info d)" d] subjects_inv_cong [of "snd (CloseAgent flt sid aid t d)" d]
    subjects_inv_cong [of "snd (EnqueueDirective flt sid aid org tx t d)" d] subjects_inv_cong [of "snd (DrainDirectives flt sid aid t d)" d]
  by (simp_all add: store_inv_def frame_simps)

lemma server_update_inv [simp]:
  "server_inv (s\<lparr>sv_bus := b\<rparr>) = server_inv s" "server_inv (s\<lparr>sv_parks := p\<rparr>) = server_inv s"
  "server_inv (s\<lparr>sv_subscriptions := r\<rparr>) = server_inv s" "server_inv (s\<lparr>sv_gateBlocks := g\<rparr>) = server_inv s"
  "server_inv (s\<lparr>sv_activity := a\<rparr>) = server_inv s" "server_inv (s\<lparr>sv_sse := i\<rparr>) = server_inv s"
  "server_inv (s\<lparr>sv_observed := ob\<rparr>) = server_inv s"
  by (simp_all add: server_inv_def)

lemma on_store_result: "on_store m s = Some (r, s') \<longleftrightarrow> m (sv_eng s) = (r, sv_eng s') \<and> s' = s\<lparr>sv_eng := sv_eng s'\<rparr>"
  by (cases "m (sv_eng s)") (auto simp: on_store_def)

text \<open>A store action seen from the server: it touches the engine only.\<close>

lemma keeps_on_store: "keeps (\<lambda>en. P (en_db en)) m \<Longrightarrow> keeps_f (\<lambda>s. P (en_db (sv_eng s))) (on_store m)"
  by (auto simp: keeps_f_def on_store_def split: prod.splits) (metis keepsD snd_conv)

lemma keeps_time_now: "keeps_f (\<lambda>s. P (en_db (sv_eng s))) time_now"
  by (auto simp: keeps_f_def time_now_def split: prod.splits) (metis read_clock_db snd_conv)

lemma server_inv_store:
  assumes "\<And>flt now d. store_inv d \<Longrightarrow> store_inv (snd (f flt now d))"
  shows "keeps_f server_inv (on_store (on_db_now f))"
  using keeps_on_store [OF on_db_now_keeps [of store_inv, OF assms]] by (simp add: server_inv_def [abs_def])

lemma server_inv_store':
  assumes "\<And>flt d. store_inv d \<Longrightarrow> store_inv (snd (f flt d))"
  shows "keeps_f server_inv (on_store (on_db f))"
  using keeps_on_store [OF on_db_keeps [of store_inv, OF assms]] by (simp add: server_inv_def [abs_def])

lemma server_inv_time: "keeps_f server_inv time_now"
  using keeps_time_now [of store_inv] by (simp add: server_inv_def [abs_def])

named_theorems server_keeps \<open>actions of the daemon that keep the store's invariant\<close>

lemma keeps_direct_with: "(\<And>e. keeps_f server_inv (app e)) \<Longrightarrow> keeps_f server_inv (direct_with app sid aid org tx)"
  unfolding direct_with_def
  by (intro keeps_f_bind keeps_f_wrap server_inv_store store_inv_agents keeps_f_modify)
     (auto split: prod.split)

lemma keeps_tee_each: "(\<And>e. keeps_f server_inv (app e)) \<Longrightarrow> keeps_f server_inv (tee_each app e as)"
  by (induction "as") (auto intro: keeps_direct_with)

lemma keeps_Append [server_keeps]: "keeps_f server_inv (Append cf n e)"
proof (induction n arbitrary: e)
  case (Suc n)
  have tee: "keeps_f server_inv (teeToSubscribers cf (Append cf n) e)" for e
    unfolding teeToSubscribers_def by (intro keeps_f_if keeps_f_bind keeps_tee_each Suc) auto
  show ?case unfolding Append.simps
    by (intro keeps_f_bind keeps_f_wrap server_inv_store store_inv_append)
       (auto split: prod.split intro!: tee keeps_f_bind)
qed auto

lemma keeps_Direct [server_keeps]: "keeps_f server_inv (Direct cf n sid aid org tx)"
  unfolding Direct_def by (intro keeps_direct_with keeps_Append)

section \<open>Enough fuel\<close>

text \<open>
  A registry is quiet when no agent subscribes to the two event types that a Direct itself
  appends; the configuration's documentation demands it of \<open>Subscribe\<close>.
\<close>

definition quiet :: "Server \<Rightarrow> bool" where
  "quiet s \<longleftrightarrow> (\<forall>sid a types. map_of (sv_subscriptions s sid) a = Some types \<longrightarrow>
     EventDirected \<notin> set types \<and> EventRelay \<notin> set types)"

lemma quiet_simps [simp]:
  "quiet (s\<lparr>sv_eng := en\<rparr>) = quiet s" "quiet (s\<lparr>sv_bus := b\<rparr>) = quiet s" "quiet (s\<lparr>sv_parks := p\<rparr>) = quiet s"
  "quiet (s\<lparr>sv_gateBlocks := g\<rparr>) = quiet s" "quiet (s\<lparr>sv_activity := a\<rparr>) = quiet s" "quiet (s\<lparr>sv_sse := i\<rparr>) = quiet s"
  "quiet (s\<lparr>sv_observed := ob\<rparr>) = quiet s"
  by (simp_all add: quiet_def)

lemma quiet_subscribers:
  "quiet s \<Longrightarrow> ty = EventDirected \<or> ty = EventRelay \<Longrightarrow> subscribers cf sid ty (sv_subscriptions s) = []"
  unfolding subscribers_def quiet_def filter_empty_conv by (auto split: option.splits)

lemma returns_on_store: "(\<And>en s. P s \<Longrightarrow> P (s\<lparr>sv_eng := en\<rparr>)) \<Longrightarrow> returns_f P (on_store m)"
  by (auto simp: returns_f_def on_store_def split: prod.split)

lemma returns_time_now: "(\<And>en s. P s \<Longrightarrow> P (s\<lparr>sv_eng := en\<rparr>)) \<Longrightarrow> returns_f P time_now"
  by (auto simp: returns_f_def time_now_def split: prod.split)

lemma AppendEvent_type: "AppendEvent flt now e d = (Inr (seq, e'), d') \<Longrightarrow> e_Type e' = e_Type e \<and> e_Origin e' = e_Origin e
    \<and> e_SubjectID e' = e_SubjectID e \<and> e_Payload e' = e_Payload e"
  by (cases flt) (auto simp: AppendEvent_def Let_def split: option.splits prod.splits sum.splits)

lemma tee_quiet:
  "quiet s \<Longrightarrow> e_Type e = EventDirected \<or> e_Type e = EventRelay \<Longrightarrow> teeToSubscribers cf app e s = Some (Inr (), s)"
  using quiet_subscribers [of s "e_Type e" cf "e_SubjectID e"] by (auto simp: teeToSubscribers_def fop_defs)

lemma returns_quiet_type:
  assumes "e_Type e = EventDirected \<or> e_Type e = EventRelay"
  shows "returns_f quiet (Append cf (Suc n) e)"
  unfolding returns_f_def
proof (intro allI impI)
  fix s assume q: "quiet s"
  obtain r en where c: "on_db_now (\<lambda>flt now. AppendEvent flt now e) (sv_eng s) = (r, en)" by fastforce
  show "\<exists>r s'. Append cf (Suc n) e s = Some (r, s') \<and> quiet s'"
  proof (cases r)
    case (Inl er)
    then show ?thesis using q c by (simp add: fop_defs on_store_def)
  next
    case (Inr x)
    obtain seq e' where x: "x = (seq, e')" by fastforce
    let ?s = "s\<lparr>sv_eng := en, sv_bus := Publish (e_SubjectID e') (sv_bus s)\<rparr>"
    have "e_Type e' = e_Type e" using AppendEvent_type on_db_now_call [OF c] Inr x by blast
    then have "teeToSubscribers cf (Append cf n) e' ?s = Some (Inr (), ?s)"
      using assms q by (intro tee_quiet) simp_all
    then show ?thesis using q c Inr x by (simp add: bind_f_def wrap_f_def try_f_def on_store_def modify_f_def ret_f_def)
  qed
qed

lemma returns_direct:
  assumes "\<And>e. e_Type e = EventDirected \<or> e_Type e = EventRelay \<Longrightarrow> returns_f quiet (app e)"
  shows "returns_f quiet (direct_with app sid aid org tx)"
proof -
  have "returns_f quiet (app (directedEvent d))" "returns_f quiet (app (relayEvent a b))" for d a b
    by (auto intro!: assms simp: event_builders)
  then show ?thesis unfolding direct_with_def
    by (auto intro!: returns_f_bind returns_f_wrap returns_on_store returns_f_modify returns_f_if split: prod.split)
qed

lemma returns_tee_each:
  assumes "\<And>e. e_Type e = EventDirected \<or> e_Type e = EventRelay \<Longrightarrow> returns_f quiet (app e)"
  shows "returns_f quiet (tee_each app e as)"
  by (induction "as") (auto intro: returns_direct [OF assms])

lemma returns_Append: "returns_f quiet (Append cf (Suc (Suc n)) e)"
proof -
  have "returns_f quiet (teeToSubscribers cf (Append cf (Suc n)) e)" for e
    unfolding teeToSubscribers_def by (intro returns_f_if returns_f_bind returns_tee_each returns_quiet_type) auto
  then show ?thesis unfolding Append.simps(2) [of cf "Suc n"]
    by (auto intro!: returns_f_bind returns_f_wrap returns_on_store returns_f_modify split: prod.split simp del: Append.simps)
qed

text \<open>More fuel never changes an answer.\<close>

definition le_f :: "('st, 'a) fop \<Rightarrow> ('st, 'a) fop \<Rightarrow> bool" where
  "le_f m m' \<longleftrightarrow> (\<forall>st r. m st = Some r \<longrightarrow> m' st = Some r)"

lemma le_f_refl [intro!]: "le_f m m"
  by (simp add: le_f_def)

lemma le_f_bind [intro!]: "le_f m m' \<Longrightarrow> (\<And>x. le_f (k x) (k' x)) \<Longrightarrow> le_f (bind_f m k) (bind_f m' k')"
  by (fastforce simp: le_f_def bind_f_def split: option.splits prod.splits sum.splits)

lemma le_f_try [intro!]: "le_f m m' \<Longrightarrow> (\<And>x. le_f (k x) (k' x)) \<Longrightarrow> le_f (try_f m k) (try_f m' k')"
  by (fastforce simp: le_f_def try_f_def split: option.splits prod.splits)

lemma le_f_wrap [intro!]: "le_f m m' \<Longrightarrow> le_f (wrap_f p m) (wrap_f p m')"
  unfolding wrap_f_def by (intro le_f_try le_f_refl)

lemma le_direct: "(\<And>e. le_f (app e) (app' e)) \<Longrightarrow> le_f (direct_with app sid aid org tx) (direct_with app' sid aid org tx)"
  unfolding direct_with_def by (auto split: prod.split)

lemma le_tee_each: "(\<And>e. le_f (app e) (app' e)) \<Longrightarrow> le_f (tee_each app e as) (tee_each app' e as)"
  by (induction "as") (auto intro: le_direct)

lemma le_Append_Suc: "le_f (Append cf n e) (Append cf (Suc n) e)"
proof (induction n arbitrary: e)
  case 0
  show ?case by (simp add: le_f_def stuck_f_def)
next
  case (Suc n)
  have "le_f (teeToSubscribers cf (Append cf n) e) (teeToSubscribers cf (Append cf (Suc n)) e)" for e
    unfolding teeToSubscribers_def using le_tee_each [OF Suc] by auto
  then show ?case unfolding Append.simps(2) [of cf n] Append.simps(2) [of cf "Suc n"]
    by (auto split: prod.split simp del: Append.simps)
qed

lemma Append_more: "Append cf n e s = Some r \<Longrightarrow> n \<le> m \<Longrightarrow> Append cf m e s = Some r"
proof (induction "m - n" arbitrary: m)
  case (Suc k)
  then have "Append cf (m - 1) e s = Some r" by simp
  then show ?case using le_Append_Suc [of cf "m - 1" e] Suc(2) by (cases r) (auto simp: le_f_def)
qed simp

text \<open>
  C9: Appending an event returns. Whatever the engine answers, while no agent subscribes to
  the event types that a Direct appends, an append ends within two levels of tee: with fuel
  two it has a result and every larger fuel gives the same one.
\<close>

theorem append_terminates:
  assumes "quiet s"
  shows "\<exists>r s'. quiet s' \<and> (\<forall>n. 2 \<le> n \<longrightarrow> Append cf n e s = Some (r, s'))"
proof -
  obtain r s' where "Append cf 2 e s = Some (r, s')" "quiet s'"
    using returns_fD [OF returns_Append [of cf 0 e] assms] by (auto simp: numeral_2_eq_2)
  then show ?thesis using Append_more by blast
qed

definition sample_config :: Config where
  "sample_config = \<lparr>cf_runtimeBuild = ''1.0.0'', cf_scopeResolve = (\<lambda>s. s), cf_gate = None, cf_gateErrorReason = ''closed'',
     cf_activeStatuses = [''open''], cf_agentGate = None, cf_agentGreeting = None, cf_subscribe = Some (\<lambda>_ _. [''note'']),
     cf_muteConsumer = [], cf_singletonSubscriber = False, cf_liveClaude = (\<lambda>_. True), cf_isDir = (\<lambda>_. True),
     cf_range = (\<lambda>xs. xs), cf_startBody = (\<lambda>b. Some \<lparr>as_AgentID = b, as_AgentType = ''t'', as_ParentAgentID = [], as_SessionID = [], as_TranscriptPath = []\<rparr>),
     cf_stopBody = (\<lambda>b. Some \<lparr>ap_AgentID = b, ap_LastAssistantMessage = [], ap_AgentTranscriptPath = []\<rparr>),
     cf_injectBody = Some, cf_reportBody = (\<lambda>_. None), cf_directBody = (\<lambda>_. None), cf_gateObserve = False, cf_guardBody = (\<lambda>_. \<lparr>tc_Name = [], tc_Input = []\<rparr>),
     cf_toolPaths = (\<lambda>_. ([], []))\<rparr>"

text \<open>A daemon with one subject, its window, and one running agent.\<close>

definition sample_server :: Server where
  "sample_server = \<lparr>sv_eng = \<lparr>en_db = \<lparr>subjects = [sample_subject ''s1'' ''sess'' 7 5], events = [],
        agents = [\<lparr>ag_subject = ''s1'', ag_agent = ''a1'', ag_parent = [], ag_type = ''t'', ag_session = [],
          ag_transcript = [], ag_status = StatusRunning, ag_started = 5, ag_ended = None\<rparr>], directives = []\<rparr>,
      en_faults = [], en_now = 12000000000, en_ticks = []\<rparr>,
     sv_bus = NewBus, sv_activity = NewActivity, sv_subscriptions = (\<lambda>_. []), sv_parks = newParkRegistry,
     sv_gateBlocks = (\<lambda>_. 0), sv_httpPort = 8080, sv_sse = new_sse, sv_observed = []\<rparr>"

theorem append_terminates_witness:
  "\<exists>r s'. \<forall>n. 2 \<le> n \<longrightarrow> Append sample_config n (relayEvent ''s1'' ''a1'') sample_server = Some (r, s')"
proof -
  have "quiet sample_server" by (simp add: quiet_def sample_server_def)
  from append_terminates [OF this, of sample_config "relayEvent ''s1'' ''a1''"] show ?thesis by blast
qed

section \<open>When the tee does not end\<close>

definition echoing :: "Config \<Rightarrow> string \<Rightarrow> string \<Rightarrow> Server \<Rightarrow> bool" where
  "echoing cf sid a s \<longleftrightarrow> cf_subscribe cf \<noteq> None \<and> en_faults (sv_eng s) = [] \<and>
     store_inv (en_db (sv_eng s)) \<and> known_subject (en_db (sv_eng s)) sid \<and>
     find_first (agent_is sid a) (agents (en_db (sv_eng s))) \<noteq> None \<and>
     (\<exists>rest. subscribers cf sid EventDirected (sv_subscriptions s) = a # rest)"

lemma append_ok:
  assumes "log_inv d" and "known_subject d (e_SubjectID e)" and "e_DedupKey e = []"
  shows "\<exists>seq d'. AppendEvent None now e d = (Inr (seq, e\<lparr>e_Seq := seq\<rparr>), d')"
proof -
  have "\<not> list_ex (\<lambda>q. ev_subject q = e_SubjectID e \<and> ev_seq q = int (Suc (length (log_of d (e_SubjectID e))))) (events d)"
    using log_seq_bound [of d] assms(1) by (fastforce simp: list_ex_iff log_inv_def)
  then show ?thesis using assms dense_next_seq [of d "e_SubjectID e"]
    by (simp add: AppendEvent_def insert_event_def Let_def log_inv_def nullString_def add.commute)
qed

lemma enqueue_ok:
  assumes "known_subject d sid" and "find_first (agent_is sid a) (agents d) \<noteq> None"
  shows "\<exists>dir st d'. EnqueueDirective None sid a org tx now d = (Inr (dir, st), d') \<and>
    d_SubjectID dir = sid \<and> d_Origin dir = org"
  using assms by (auto simp: EnqueueDirective_def Let_def)

lemma on_store_ok:
  assumes "en_faults (sv_eng s) = []" and "\<And>now. \<exists>x d'. f None now (en_db (sv_eng s)) = (Inr x, d') \<and> P x"
  shows "\<exists>x en'. on_store (on_db_now f) s = Some (Inr x, s\<lparr>sv_eng := en'\<rparr>) \<and> P x \<and> en_faults en' = [] \<and>
    en_db en' = snd (f None (fst (read_clock (sv_eng s))) (en_db (sv_eng s)))"
proof -
  obtain t en1 where c: "read_clock (sv_eng s) = (t, en1)" by fastforce
  then have e: "en_db en1 = en_db (sv_eng s)" "en_faults en1 = []"
    using read_clock_db [of "sv_eng s"] read_clock_faults [of "sv_eng s"] assms(1) by simp_all
  obtain x d' where "f None t (en_db (sv_eng s)) = (Inr x, d')" "P x" using assms(2) by blast
  then show ?thesis using c e
    by (intro exI [of _ x] exI [of _ "en1\<lparr>en_db := d', en_faults := []\<rparr>"])
       (simp add: on_store_def on_db_now_def on_db_def next_outcome_def)
qed

text \<open>
  C10: An agent subscribed to \<open>agent.directed\<close> makes an append run forever. If the first
  agent that the tee reaches for that type is registered and the engine works, then
  appending an \<open>agent.directed\<close> event of any origin but the agents' own never returns: every
  tee enqueues a directive whose own \<open>agent.directed\<close> event is teed again. This is why the
  configuration must exclude the type.
\<close>

theorem directed_subscription_diverges:
  assumes "echoing cf sid a s" and "e_Type e = EventDirected" and "e_SubjectID e = sid"
    and "e_Origin e \<noteq> OriginAgent" and "e_DedupKey e = []"
  shows "Append cf n e s = None"
  using assms
proof (induction n arbitrary: s e)
  case (Suc n)
  note echo = Suc.prems(1) [unfolded echoing_def]
  have ap: "\<exists>x d'. AppendEvent None now e (en_db (sv_eng s)) = (Inr x, d') \<and> e_Type (snd x) = EventDirected \<and>
      e_SubjectID (snd x) = sid \<and> e_Origin (snd x) \<noteq> OriginAgent \<and> e_DedupKey (snd x) = []" for now
    using append_ok [of "en_db (sv_eng s)" e now] echo Suc.prems by (auto simp: store_inv_def)
  obtain x en1 where x: "on_store (on_db_now (\<lambda>flt now. AppendEvent flt now e)) s = Some (Inr x, s\<lparr>sv_eng := en1\<rparr>)"
      "e_Type (snd x) = EventDirected" "e_SubjectID (snd x) = sid" "e_Origin (snd x) \<noteq> OriginAgent" "en_faults en1 = []"
      "en_db en1 = snd (AppendEvent None (fst (read_clock (sv_eng s))) e (en_db (sv_eng s)))"
    using on_store_ok [of s "\<lambda>flt now. AppendEvent flt now e", OF _ ap] echo by blast
  let ?s1 = "s\<lparr>sv_eng := en1, sv_bus := Publish sid (sv_bus s)\<rparr>"
  have e1: "echoing cf sid a ?s1"
    using echo store_inv_append [of "en_db (sv_eng s)"] x(5,6) by (auto simp: echoing_def known_subject_def frame_simps)
  then obtain rest where subs: "subscribers cf sid EventDirected (sv_subscriptions ?s1) = a # rest" by (auto simp: echoing_def)
  have "\<exists>x d'. EnqueueDirective None sid a OriginEvent tx now (en_db en1) = (Inr x, d') \<and>
      d_SubjectID (fst x) = sid \<and> d_Origin (fst x) = OriginEvent" for now tx
    using enqueue_ok [of "en_db en1" sid a OriginEvent tx now] e1 by (auto simp: echoing_def)
  then obtain y en2 where y: "on_store (on_db_now (\<lambda>flt now. EnqueueDirective flt sid a OriginEvent (e_Payload (snd x)) now)) ?s1
        = Some (Inr y, ?s1\<lparr>sv_eng := en2\<rparr>)" "d_SubjectID (fst y) = sid" "d_Origin (fst y) = OriginEvent" "en_faults en2 = []"
      "en_db en2 = snd (EnqueueDirective None sid a OriginEvent (e_Payload (snd x)) (fst (read_clock (sv_eng ?s1))) (en_db (sv_eng ?s1)))"
    using on_store_ok [of ?s1 "\<lambda>flt now. EnqueueDirective flt sid a OriginEvent (e_Payload (snd x)) now"
        "\<lambda>y. d_SubjectID (fst y) = sid \<and> d_Origin (fst y) = OriginEvent"] x(5) by auto
  have e2: "echoing cf sid a (?s1\<lparr>sv_eng := en2\<rparr>)"
    using e1 store_inv_agents(3) [of "en_db en1"] y(4,5) by (auto simp: echoing_def known_subject_def frame_simps)
  have "Append cf n (directedEvent (fst y)) (?s1\<lparr>sv_eng := en2\<rparr>) = None"
    using Suc.IH [OF e2, of "directedEvent (fst y)"] y by (simp add: event_builders event_consts)
  then have "direct_with (Append cf n) sid a OriginEvent (e_Payload (snd x)) ?s1 = None"
    using y(1) by (cases y) (simp add: direct_with_def bind_f_def wrap_f_def try_f_def ret_f_def)
  then have "teeToSubscribers cf (Append cf n) (snd x) ?s1 = None"
    using subs x(2-4) echo by (auto simp: teeToSubscribers_def bind_f_def gets_f_def try_f_def)
  then show ?case using x(1,3) by (cases x) (simp add: bind_f_def wrap_f_def try_f_def ret_f_def modify_f_def)
qed (simp add: stuck_f_def)

theorem directed_subscription_diverges_witness:
  "\<forall>n. Append sample_config n (new_event ''s1'' OriginHuman EventDirected [] [])
     (sample_server\<lparr>sv_subscriptions := (\<lambda>_. [(''a1'', [EventDirected])])\<rparr>) = None"
proof
  fix n
  let ?s = "sample_server\<lparr>sv_subscriptions := (\<lambda>_. [(''a1'', [EventDirected])])\<rparr>"
  have "store_inv (en_db (sv_eng sample_server))"
    by (simp add: store_inv_def sample_server_def subjects_inv_def log_inv_def dense_def log_of_def dedup_unique_def
        events_owned_def agents_inv_def agents_keyed_def agents_owned_def directives_numbered_def known_subject_def
        sample_subject_def subject_conflict_def nullString_def)
  then have "echoing sample_config ''s1'' ''a1'' ?s"
    by (simp add: echoing_def sample_config_def sample_server_def known_subject_def sample_subject_def agent_is_def subscribers_def)
  from directed_subscription_diverges [OF this, of "new_event ''s1'' OriginHuman EventDirected [] []" n]
  show "Append sample_config n (new_event ''s1'' OriginHuman EventDirected [] []) ?s = None"
    by (simp add: new_event_def event_consts)
qed

end
