(* ===== verification/Daemon_Agents.thy ===== *)
theory Daemon_Agents
  imports Daemon_Core Go_Strings "HOL-Library.Word"
begin

text \<open>
  The agent participant plane of the daemon (\<open>daemon/agents.go\<close>, the supersede and rebuild
  halves of \<open>daemon/subscriptions.go\<close>): registration, the stop gate, injection, reports,
  directs, reconciliation, and the two HTTP reads. A handler is an action whose error is the
  error reply; a reply carries the error value and its body as a value, not their text.
\<close>

section \<open>Requests and replies\<close>

record Envelope =
  env_Op :: string
  env_Session :: string
  env_ClaudePID :: int
  env_Scope :: string
  env_Consumer :: string
  env_Body :: string

record HandlerCtx =
  hc_Env :: Envelope
  hc_Window :: Window
  hc_Scope :: string

record StatusBody =
  sb_ConsumerConnected :: bool
  sb_Consumers :: "(string \<times> int) list"
  sb_Proven :: bool

datatype reply_body = NoBody | DirectivesReply "Directive list" | DirectReply int | StatusReply StatusBody
  | RawReply string

record Reply =
  rp_OK :: bool
  rp_Error :: "go_error option"
  rp_DaemonVersion :: string
  rp_SubjectID :: string
  rp_Status :: string
  rp_HTTPPort :: int
  rp_Allow :: bool
  rp_Reason :: string
  rp_Body :: reply_body

definition okReply :: Reply where
  "okReply = \<lparr>rp_OK = True, rp_Error = None, rp_DaemonVersion = [], rp_SubjectID = [], rp_Status = [],
     rp_HTTPPort = 0, rp_Allow = False, rp_Reason = [], rp_Body = NoBody\<rparr>"

definition errReply :: "go_error \<Rightarrow> Reply" where
  "errReply e = okReply\<lparr>rp_OK := False, rp_Error := Some e\<rparr>"

definition handler_of :: "(Server, Reply) fop \<Rightarrow> Server \<Rightarrow> (Reply \<times> Server) option" where
  "handler_of m s = (case m s of
     None \<Rightarrow> None | Some (Inl e, s') \<Rightarrow> Some (errReply e, s') | Some (Inr r, s') \<Rightarrow> Some (r, s'))"

definition find_subject :: "Config \<Rightarrow> HandlerCtx \<Rightarrow> (Server, Subject option) fop" where
  "find_subject cf hc = on_store (Find (subjects_of cf) (hc_Window hc) (hc_Scope hc))"

section \<open>Constants\<close>

definition agentGateBlockBudget :: int where "agentGateBlockBudget = 3"
definition agentStopGateInstruction :: string where
  "agentStopGateInstruction = ''Act on each directive above exactly once, then finish your turn.''"
definition defaultAwaitTimeout :: int where "defaultAwaitTimeout = 30 * second"
definition maxAwaitTimeout :: int where "maxAwaitTimeout = 5 * 60 * second"
definition deliveredViaStopGate :: string where "deliveredViaStopGate = ''stop-gate''"
definition deliveredViaHook :: string where "deliveredViaHook = ''hook''"
definition deliveredViaAwait :: string where "deliveredViaAwait = ''await''"
definition supersededDirective :: string where
  "supersededDirective = ''A newer handler superseded this one on the subject; stop and exit.''"

section \<open>Helpers\<close>

definition stopGateReason :: "Directive list \<Rightarrow> string" where
  "stopGateReason pending =
     intersperse_all [CHR 0x0A, CHR 0x0A]
       (map (\<lambda>d. ''['' @ d_Origin d @ '' #'' @ itoa (d_ID d) @ ''] '' @ d_Text d) pending)
     @ [CHR 0x0A, CHR 0x0A] @ agentStopGateInstruction"

text \<open>
  The duration is a 64-bit count of nanoseconds and \<open>time.Duration(n)*time.Second\<close> wraps.
  \<open>parse\<close> is \<open>time.ParseDuration\<close> (\<open>None\<close> for its error).
\<close>

definition seconds64 :: "int \<Rightarrow> int" where
  "seconds64 n = sint (word_of_int (n * second) :: 64 word)"

definition parseAwaitTimeout :: "(string \<Rightarrow> int option) \<Rightarrow> string \<Rightarrow> int" where
  "parseAwaitTimeout parse v =
     (if v = [] then defaultAwaitTimeout
      else case parse v of
             Some d \<Rightarrow>
               if d > 0 then min d maxAwaitTimeout
               else (case parseInt 64 v of
                       Some n \<Rightarrow> if n > 0 then min (seconds64 n) maxAwaitTimeout else defaultAwaitTimeout
                     | None \<Rightarrow> defaultAwaitTimeout)
           | None \<Rightarrow>
               (case parseInt 64 v of
                  Some n \<Rightarrow> if n > 0 then min (seconds64 n) maxAwaitTimeout else defaultAwaitTimeout
                | None \<Rightarrow> defaultAwaitTimeout))"

definition drainMailbox :: "string \<Rightarrow> string \<Rightarrow> instant \<Rightarrow> (Server, Directive list) fop" where
  "drainMailbox subjectID agentID now =
     bind_f (on_store (on_db (\<lambda>flt. DrainDirectives flt subjectID agentID now))) (\<lambda>drained.
     bind_f time_now (\<lambda>t.
     bind_f (modify_f (\<lambda>s. s\<lparr>sv_parks := noteDrain t subjectID agentID (sv_parks s)\<rparr>)) (\<lambda>_.
     ret_f drained)))"

definition recordAgentStopped :: "Config \<Rightarrow> nat \<Rightarrow> string \<Rightarrow> string \<Rightarrow> Event \<Rightarrow> (Server, unit) fop" where
  "recordAgentStopped cf n subjectID agentID stopped =
     bind_f (Append cf n stopped) (\<lambda>_.
     bind_f (on_store (on_db (\<lambda>flt. HasPendingDirectives flt subjectID agentID OriginSupersede))) (\<lambda>stranded.
     if stranded then bind_f (Append cf n (relayEvent subjectID agentID)) (\<lambda>_. ret_f ()) else ret_f ()))"

primrec relay_each :: "Config \<Rightarrow> nat \<Rightarrow> Info list \<Rightarrow> (Server, unit) fop" where
  "relay_each cf n [] = ret_f ()"
| "relay_each cf n (info # rest) =
     bind_f (wrap_f (''reconcile relay '' @ ai_SubjectID info @ ''/'' @ ai_AgentID info)
       (Append cf n (relayEvent (ai_SubjectID info) (ai_AgentID info)))) (\<lambda>_. relay_each cf n rest)"

definition reconcileDirectives :: "Config \<Rightarrow> nat \<Rightarrow> (Server, unit) fop" where
  "reconcileDirectives cf n =
     bind_f (wrap_f ''reconcile directives'' (on_store (on_db (\<lambda>flt. ListPendingDirectiveAgents flt OriginSupersede))))
       (\<lambda>agents. relay_each cf n agents)"

section \<open>Superseding\<close>

primrec supersede_each :: "Config \<Rightarrow> nat \<Rightarrow> string \<Rightarrow> Info \<Rightarrow> Info list \<Rightarrow> (Server, unit) fop" where
  "supersede_each cf n subjectID keep [] = ret_f ()"
| "supersede_each cf n subjectID keep (other # rest) =
     (if ai_AgentID other = ai_AgentID keep then supersede_each cf n subjectID keep rest
      else
        bind_f (modify_f (\<lambda>s. s\<lparr>sv_subscriptions := registry_remove subjectID (ai_AgentID other) (sv_subscriptions s)\<rparr>)) (\<lambda>_.
        bind_f (wrap_f (''supersede '' @ subjectID @ ''/'' @ ai_AgentID other)
          (Direct cf n subjectID (ai_AgentID other) OriginSupersede supersededDirective)) (\<lambda>_.
        bind_f (wrap_f (''supersede '' @ subjectID @ ''/'' @ ai_AgentID other)
          (on_store (on_db_now (\<lambda>flt now. CloseAgent flt subjectID (ai_AgentID other) now)))) (\<lambda>closed.
        bind_f (if closed
                then wrap_f (''supersede '' @ subjectID @ ''/'' @ ai_AgentID other)
                       (recordAgentStopped cf n subjectID (ai_AgentID other)
                          (stoppedEvent subjectID \<lparr>ap_AgentID = ai_AgentID other, ap_LastAssistantMessage = [], ap_AgentTranscriptPath = []\<rparr>))
                else ret_f ()) (\<lambda>_.
        supersede_each cf n subjectID keep rest)))))"

definition supersedeSubscribers :: "Config \<Rightarrow> nat \<Rightarrow> string \<Rightarrow> Info \<Rightarrow> (Server, unit) fop" where
  "supersedeSubscribers cf n subjectID keep =
     bind_f (wrap_f (''supersede '' @ subjectID)
       (on_store (on_db (\<lambda>flt. ListRunningAgentsByType flt subjectID (ai_AgentType keep))))) (\<lambda>others.
     supersede_each cf n subjectID keep others)"

definition registerAndSupersede :: "Config \<Rightarrow> nat \<Rightarrow> Subject \<Rightarrow> Info \<Rightarrow> (Server, bool) fop" where
  "registerAndSupersede cf n sub info =
     bind_f (on_store (on_db (\<lambda>flt. RegisterAgent flt info))) (\<lambda>created.
     bind_f (Append cf n (startedEvent info)) (\<lambda>_.
     case cf_subscribe cf of
       None \<Rightarrow> ret_f created
     | Some subscribe \<Rightarrow>
         let types = subscribe sub info
         in bind_f (modify_f (\<lambda>s. s\<lparr>sv_subscriptions := registry_set (ai_SubjectID info) (ai_AgentID info) types (sv_subscriptions s)\<rparr>)) (\<lambda>_.
            if cf_singletonSubscriber cf \<and> types \<noteq> []
            then bind_f (supersedeSubscribers cf n (ai_SubjectID info) info) (\<lambda>_. ret_f created)
            else ret_f created)))"

text \<open>
  The rebuild at boot: \<open>winners\<close> maps a subject and agent type to the last agent seen so far.
\<close>

primrec reconcile_each :: "Config \<Rightarrow> (Subject \<Rightarrow> Info \<Rightarrow> string list) \<Rightarrow> (string \<times> string \<Rightarrow> Info option) \<Rightarrow> Info list
    \<Rightarrow> (Server, unit) fop" where
  "reconcile_each cf subscribe winners [] = ret_f ()"
| "reconcile_each cf subscribe winners (info # rest) =
     bind_f (wrap_f (''reconcile subscriptions '' @ ai_SubjectID info) (on_store (on_db (\<lambda>flt. st_Get flt (ai_SubjectID info))))) (\<lambda>sub.
     let types = subscribe sub info
     in bind_f (modify_f (\<lambda>s. s\<lparr>sv_subscriptions := registry_set (ai_SubjectID info) (ai_AgentID info) types (sv_subscriptions s)\<rparr>)) (\<lambda>_.
        if \<not> cf_singletonSubscriber cf \<or> types = [] then reconcile_each cf subscribe winners rest
        else
          bind_f (case winners (ai_SubjectID info, ai_AgentType info) of
                    None \<Rightarrow> ret_f ()
                  | Some held \<Rightarrow> modify_f (\<lambda>s. s\<lparr>sv_subscriptions :=
                      registry_remove (ai_SubjectID held) (ai_AgentID held) (sv_subscriptions s)\<rparr>)) (\<lambda>_.
          reconcile_each cf subscribe (winners((ai_SubjectID info, ai_AgentType info) \<mapsto> info)) rest)))"

definition reconcileSubscriptions :: "Config \<Rightarrow> (Server, unit) fop" where
  "reconcileSubscriptions cf =
     (case cf_subscribe cf of
        None \<Rightarrow> ret_f ()
      | Some subscribe \<Rightarrow>
          bind_f (wrap_f ''reconcile subscriptions'' (on_store (on_db ListRunningAgents))) (\<lambda>agents.
          reconcile_each cf subscribe (\<lambda>_. None) agents))"

definition subscriberPresenceWindow :: int where
  "subscriberPresenceWindow = 90 * second"

text \<open>Each presence test reads the clock; the model takes one reading for the frame.\<close>

definition muteFrame :: "Config \<Rightarrow> instant \<Rightarrow> string \<Rightarrow> string \<Rightarrow> Event \<Rightarrow> Server \<Rightarrow> bool" where
  "muteFrame cf now subjectID consumer e s \<longleftrightarrow> consumer = cf_muteConsumer cf \<and>
     list_ex (\<lambda>agentID. present now subjectID agentID subscriberPresenceWindow (sv_parks s))
       (subscribers cf subjectID (e_Type e) (sv_subscriptions s))"

section \<open>Handlers\<close>

definition handleAgentStart :: "Config \<Rightarrow> nat \<Rightarrow> HandlerCtx \<Rightarrow> (Server, Reply) fop" where
  "handleAgentStart cf n hc =
     bind_f (find_subject cf hc) (\<lambda>found. case found of
       None \<Rightarrow> ret_f okReply
     | Some sub \<Rightarrow>
         (case cf_startBody cf (env_Body (hc_Env hc)) of
            None \<Rightarrow> fail_f (ErrText ''agent-start body'')
          | Some b \<Rightarrow>
              if as_AgentID b = [] then fail_f (ErrText ''agent-start requires an agent_id'')
              else bind_f time_now (\<lambda>now.
                let info = \<lparr>ai_SubjectID = s_ID sub, ai_AgentID = as_AgentID b, ai_ParentAgentID = as_ParentAgentID b,
                      ai_AgentType = as_AgentType b, ai_SessionID = as_SessionID b, ai_TranscriptPath = as_TranscriptPath b,
                      ai_Status = StatusRunning, ai_StartedAt = now, ai_EndedAt = None\<rparr>
                in bind_f (registerAndSupersede cf n sub info) (\<lambda>created.
                   case cf_agentGreeting cf of
                     None \<Rightarrow> ret_f okReply
                   | Some greet \<Rightarrow>
                       if created \<and> greet info \<noteq> []
                       then bind_f (Direct cf n (s_ID sub) (as_AgentID b) OriginSystem (greet info)) (\<lambda>_. ret_f okReply)
                       else ret_f okReply))))"

text \<open>The stop gate after the request has been resolved and decoded: closing an allowed agent, the verdict on an empty mailbox, and the whole.\<close>

definition stop_allowed :: "Config \<Rightarrow> nat \<Rightarrow> Subject \<Rightarrow> agentStopBody \<Rightarrow> instant \<Rightarrow> (Server, Reply) fop" where
  "stop_allowed cf n sub b now =
     bind_f (modify_f (\<lambda>s. s\<lparr>sv_gateBlocks := gate_reset (s_ID sub) (ap_AgentID b) (sv_gateBlocks s)\<rparr>)) (\<lambda>_.
     bind_f (on_store (on_db (\<lambda>flt. CloseAgent flt (s_ID sub) (ap_AgentID b) now))) (\<lambda>closed.
     bind_f (if closed then
               bind_f (modify_f (\<lambda>s. s\<lparr>sv_subscriptions := registry_remove (s_ID sub) (ap_AgentID b) (sv_subscriptions s)\<rparr>)) (\<lambda>_.
               recordAgentStopped cf n (s_ID sub) (ap_AgentID b) (stoppedEvent (s_ID sub) b))
             else ret_f ()) (\<lambda>_.
     ret_f (okReply\<lparr>rp_Allow := True\<rparr>))))"

definition stop_verdict :: "Config \<Rightarrow> nat \<Rightarrow> Subject \<Rightarrow> agentStopBody \<Rightarrow> instant \<Rightarrow> Info \<Rightarrow> (Server, Reply) fop" where
  "stop_verdict cf n sub b now info =
     (let verdict = (case cf_agentGate cf of None \<Rightarrow> (True, []) | Some gate \<Rightarrow> gate sub info)
      in bind_f
           (if fst verdict then ret_f None
            else
              bind_f (modify_f (\<lambda>s. s\<lparr>sv_gateBlocks := gate_incr (s_ID sub) (ap_AgentID b) (sv_gateBlocks s)\<rparr>)) (\<lambda>_.
              bind_f (gets_f (\<lambda>s. sv_gateBlocks s (s_ID sub, ap_AgentID b))) (\<lambda>count.
              if count < agentGateBlockBudget
              then ret_f (Some (okReply\<lparr>rp_Allow := False, rp_Reason := snd verdict\<rparr>))
              else bind_f (Append cf n (forcedAllowEvent (s_ID sub) (ap_AgentID b))) (\<lambda>_. ret_f None)))) (\<lambda>blocked.
         case blocked of
           Some reply \<Rightarrow> ret_f reply
         | None \<Rightarrow>
             stop_allowed cf n sub b now))"

definition stop_agent :: "Config \<Rightarrow> nat \<Rightarrow> Subject \<Rightarrow> agentStopBody \<Rightarrow> (Server, Reply) fop" where
  "stop_agent cf n sub b =
     bind_f time_now (\<lambda>now.
     bind_f (on_store (on_db (\<lambda>flt. DrainDirectives flt (s_ID sub) (ap_AgentID b) now))) (\<lambda>pending.
     if pending \<noteq> [] then
       bind_f (modify_f (\<lambda>s. s\<lparr>sv_gateBlocks := gate_reset (s_ID sub) (ap_AgentID b) (sv_gateBlocks s)\<rparr>)) (\<lambda>_.
       bind_f (Append cf n (deliveredEvent (s_ID sub) (ap_AgentID b) deliveredViaStopGate pending)) (\<lambda>_.
       ret_f (okReply\<lparr>rp_Allow := False, rp_Reason := stopGateReason pending\<rparr>)))
     else
       bind_f (on_store (on_db (\<lambda>flt. GetAgent flt (s_ID sub) (ap_AgentID b)))) (\<lambda>info.
       stop_verdict cf n sub b now info)))"

definition handleAgentStop :: "Config \<Rightarrow> nat \<Rightarrow> HandlerCtx \<Rightarrow> (Server, Reply) fop" where
  "handleAgentStop cf n hc =
     bind_f (find_subject cf hc) (\<lambda>found. case found of
       None \<Rightarrow> ret_f (okReply\<lparr>rp_Allow := True\<rparr>)
     | Some sub \<Rightarrow>
         (case cf_stopBody cf (env_Body (hc_Env hc)) of
            None \<Rightarrow> fail_f (ErrText ''agent-stop body'')
          | Some b \<Rightarrow>
              if ap_AgentID b = [] then fail_f (ErrText ''agent-stop requires an agent_id'')
              else stop_agent cf n sub b))"

definition handleAgentInject :: "Config \<Rightarrow> nat \<Rightarrow> HandlerCtx \<Rightarrow> (Server, Reply) fop" where
  "handleAgentInject cf n hc =
     bind_f (find_subject cf hc) (\<lambda>found. case found of
       None \<Rightarrow> ret_f (okReply\<lparr>rp_Body := DirectivesReply []\<rparr>)
     | Some sub \<Rightarrow>
         (case cf_injectBody cf (env_Body (hc_Env hc)) of
            None \<Rightarrow> fail_f (ErrText ''agent-inject body'')
          | Some agentID \<Rightarrow>
              bind_f time_now (\<lambda>now.
              bind_f (drainMailbox (s_ID sub) agentID now) (\<lambda>drained.
              if drained \<noteq> []
              then bind_f (Append cf n (deliveredEvent (s_ID sub) agentID deliveredViaHook drained)) (\<lambda>_.
                   ret_f (okReply\<lparr>rp_Body := DirectivesReply drained\<rparr>))
              else ret_f (okReply\<lparr>rp_Body := DirectivesReply drained\<rparr>)))))"

definition report_type :: "string \<Rightarrow> string" where
  "report_type response =
     (if (contains ([CHR 0x22] @ ''agentId'' @ [CHR 0x22]) response \<or> contains ([CHR 0x22] @ ''outputFile'' @ [CHR 0x22]) response)
         \<and> \<not> contains ([CHR 0x22] @ ''text'' @ [CHR 0x22]) response
      then EventLaunched else EventResult)"

definition handleAgentReport :: "Config \<Rightarrow> nat \<Rightarrow> HandlerCtx \<Rightarrow> (Server, Reply) fop" where
  "handleAgentReport cf n hc =
     bind_f (find_subject cf hc) (\<lambda>found. case found of
       None \<Rightarrow> ret_f okReply
     | Some sub \<Rightarrow>
         (case cf_reportBody cf (env_Body (hc_Env hc)) of
            None \<Rightarrow> fail_f (ErrText ''agent-report body'')
          | Some b \<Rightarrow>
              let typ = report_type (ar_ToolResponse b)
              in bind_f (Append cf n (new_event (s_ID sub) OriginSystem typ
                     (json_object [(''type'', JString typ), (''report'', JRaw (env_Body (hc_Env hc)))]) (ar_ToolUseID b))) (\<lambda>_.
                 ret_f okReply)))"

definition handleAgentDirect :: "Config \<Rightarrow> nat \<Rightarrow> HandlerCtx \<Rightarrow> (Server, Reply) fop" where
  "handleAgentDirect cf n hc =
     bind_f (find_subject cf hc) (\<lambda>found. case found of
       None \<Rightarrow> ret_f okReply
     | Some sub \<Rightarrow>
         (case cf_directBody cf (env_Body (hc_Env hc)) of
            None \<Rightarrow> fail_f (ErrText ''agent-direct body'')
          | Some b \<Rightarrow>
              bind_f (Direct cf n (s_ID sub) (ad_AgentID b) (ad_Origin b) (ad_Text b)) (\<lambda>directive.
              ret_f (okReply\<lparr>rp_Body := DirectReply (d_ID directive)\<rparr>))))"

definition handleAgentReconcile :: "Config \<Rightarrow> nat \<Rightarrow> HandlerCtx \<Rightarrow> (Server, Reply) fop" where
  "handleAgentReconcile cf n hc = bind_f (reconcileDirectives cf n) (\<lambda>_. ret_f okReply)"

section \<open>HTTP reads\<close>

datatype http_response = HttpError int | NoContent | Aborted | OKDirectives "Directive list" | OKRoster "Info list"

datatype await_wake = CtxDone | TimedOut | Released

definition writeAwaitDirectives :: "Config \<Rightarrow> nat \<Rightarrow> string \<Rightarrow> string \<Rightarrow> Directive list \<Rightarrow> (Server, http_response) fop" where
  "writeAwaitDirectives cf n subjectID agentID drained =
     (if drained \<noteq> []
      then try_f (Append cf n (deliveredEvent subjectID agentID deliveredViaAwait drained)) (\<lambda>_. ret_f (OKDirectives drained))
      else ret_f (OKDirectives drained))"

definition drain_now :: "string \<Rightarrow> string \<Rightarrow> (Server, Directive list) fop" where
  "drain_now subjectID agentID = bind_f time_now (\<lambda>now. drainMailbox subjectID agentID now)"

text \<open>
  The long-poll with its environment as arguments: \<open>wake\<close> is the case of the \<open>select\<close> that
  wins and \<open>meanwhile\<close> what the rest of the daemon does while the request is parked.
\<close>

definition await_parked :: "Config \<Rightarrow> nat \<Rightarrow> string \<Rightarrow> string \<Rightarrow> nat \<Rightarrow> await_wake \<Rightarrow> (Server \<Rightarrow> Server)
    \<Rightarrow> (Server, http_response) fop" where
  "await_parked cf n subjectID agentID ch wake meanwhile =
     try_f (drain_now subjectID agentID) (\<lambda>r. case r of
       Inl er \<Rightarrow> ret_f (HttpError 500)
     | Inr drained \<Rightarrow>
         if drained \<noteq> [] then writeAwaitDirectives cf n subjectID agentID drained
         else bind_f (modify_f meanwhile) (\<lambda>_.
           case wake of
             CtxDone \<Rightarrow> ret_f Aborted
           | TimedOut \<Rightarrow> try_f (drain_now subjectID agentID) (\<lambda>r. case r of
                 Inl er \<Rightarrow> ret_f (HttpError 500)
               | Inr late \<Rightarrow> if late \<noteq> [] then writeAwaitDirectives cf n subjectID agentID late else ret_f NoContent)
           | Released \<Rightarrow>
               bind_f (modify_f (\<lambda>s. s\<lparr>sv_parks := (sv_parks s)\<lparr>pk_chan := (pk_chan (sv_parks s))(ch := False)\<rparr>\<rparr>)) (\<lambda>_.
               try_f (drain_now subjectID agentID) (\<lambda>r. case r of
                 Inl er \<Rightarrow> ret_f (HttpError 500)
               | Inr redrained \<Rightarrow> writeAwaitDirectives cf n subjectID agentID redrained))))"

definition handleAgentAwait :: "Config \<Rightarrow> nat \<Rightarrow> string \<Rightarrow> string \<Rightarrow> await_wake \<Rightarrow> (Server \<Rightarrow> Server)
    \<Rightarrow> (Server, http_response) fop" where
  "handleAgentAwait cf n ref agentID wake meanwhile =
     (if ref = [] then ret_f (HttpError 400)
      else try_f (on_store (on_db (\<lambda>flt. ResolveSubject flt ref))) (\<lambda>r. case r of
             Inl er \<Rightarrow> ret_f (HttpError 500)
           | Inr None \<Rightarrow> ret_f (HttpError 404)
           | Inr (Some subjectID) \<Rightarrow>
               bind_f (gets_f (\<lambda>s. fst (park_wait subjectID agentID (sv_parks s)))) (\<lambda>ch.
               bind_f (modify_f (\<lambda>s. s\<lparr>sv_parks := snd (park_wait subjectID agentID (sv_parks s))\<rparr>)) (\<lambda>_.
               bind_f (await_parked cf n subjectID agentID ch wake meanwhile) (\<lambda>resp.
               bind_f (modify_f (\<lambda>s. s\<lparr>sv_parks := park_done subjectID agentID ch (sv_parks s)\<rparr>)) (\<lambda>_.
               ret_f resp))))))"

definition handleAgentRoster :: "string \<Rightarrow> (Server, http_response) fop" where
  "handleAgentRoster ref =
     (if ref = [] then ret_f (HttpError 400)
      else try_f (on_store (on_db (\<lambda>flt. ResolveSubject flt ref))) (\<lambda>r. case r of
             Inl er \<Rightarrow> ret_f (HttpError 500)
           | Inr None \<Rightarrow> ret_f (HttpError 404)
           | Inr (Some subjectID) \<Rightarrow>
               try_f (on_store (on_db (\<lambda>flt. ListAgents flt subjectID))) (\<lambda>r. case r of
                 Inl er \<Rightarrow> ret_f (HttpError 500)
               | Inr roster \<Rightarrow> ret_f (OKRoster roster))))"

section \<open>Every handler keeps the store's invariant\<close>

lemma keeps_f_option [intro!]:
  "(x = None \<Longrightarrow> keeps_f P m) \<Longrightarrow> (\<And>y. x = Some y \<Longrightarrow> keeps_f P (k y)) \<Longrightarrow> keeps_f P (case x of None \<Rightarrow> m | Some y \<Rightarrow> k y)"
  by (cases x) auto

lemma keeps_f_sum [intro!]:
  "(\<And>e. r = Inl e \<Longrightarrow> keeps_f P (m e)) \<Longrightarrow> (\<And>y. r = Inr y \<Longrightarrow> keeps_f P (k y)) \<Longrightarrow> keeps_f P (case r of Inl e \<Rightarrow> m e | Inr y \<Rightarrow> k y)"
  by (cases r) auto

lemma keeps_f_Let [intro!]: "keeps_f P (f x) \<Longrightarrow> keeps_f P (let y = x in f y)"
  by simp

lemma Find_keeps_server: "keeps_f server_inv (find_subject cf hc)"
proof -
  have "keeps (\<lambda>en. store_inv (en_db en)) (Find (subjects_of cf) (hc_Window hc) (hc_Scope hc))"
    unfolding keeps_def subjects_of_def by (simp add: find_pure)
  from keeps_on_store [OF this] show ?thesis by (simp add: server_inv_def [abs_def] find_subject_def)
qed

lemmas store_keeps = server_inv_store server_inv_store' server_inv_time store_inv_agents store_inv_append

lemma keeps_reads [server_keeps]:
  "keeps_f server_inv (on_store (on_db (\<lambda>flt. GetAgent flt sid aid)))"
  "keeps_f server_inv (on_store (on_db (\<lambda>flt. HasPendingDirectives flt sid aid org)))"
  "keeps_f server_inv (on_store (on_db (\<lambda>flt. ListPendingDirectiveAgents flt org)))"
  "keeps_f server_inv (on_store (on_db (\<lambda>flt. ListRunningAgentsByType flt sid ty)))"
  "keeps_f server_inv (on_store (on_db ListRunningAgents))"
  "keeps_f server_inv (on_store (on_db (\<lambda>flt. st_Get flt sid)))"
  by (rule server_inv_store', simp)+

lemma keeps_writes [server_keeps]:
  "keeps_f server_inv (on_store (on_db (\<lambda>flt. RegisterAgent flt info)))"
  "keeps_f server_inv (on_store (on_db (\<lambda>flt. CloseAgent flt sid aid t)))"
  "keeps_f server_inv (on_store (on_db_now (\<lambda>flt now. CloseAgent flt sid aid now)))"
  "keeps_f server_inv (on_store (on_db (\<lambda>flt. DrainDirectives flt sid aid t)))"
  by (rule server_inv_store' server_inv_store, erule store_inv_agents)+

lemma keeps_recordAgentStopped [server_keeps]: "keeps_f server_inv (recordAgentStopped cf n sid aid e)"
  unfolding recordAgentStopped_def by (auto intro!: server_keeps)

lemma keeps_supersede [server_keeps]: "keeps_f server_inv (supersede_each cf n sid keep os)"
  by (induction os) (auto intro!: server_keeps)

lemma keeps_relay_each [server_keeps]: "keeps_f server_inv (relay_each cf n infos)"
  by (induction infos) (auto intro!: server_keeps)

lemma keeps_register [server_keeps]: "keeps_f server_inv (registerAndSupersede cf n sub info)"
  unfolding registerAndSupersede_def supersedeSubscribers_def by (auto intro!: server_keeps simp: Let_def)

lemma keeps_stop_agent [server_keeps]: "keeps_f server_inv (stop_agent cf n sub b)"
  unfolding stop_agent_def stop_verdict_def stop_allowed_def Let_def by (auto intro!: server_keeps server_inv_time)

lemma keeps_drainMailbox [server_keeps]: "keeps_f server_inv (drainMailbox sid aid t)"
  unfolding drainMailbox_def by (auto intro!: server_keeps server_inv_time)

lemma keeps_agent_handlers [server_keeps]:
  "keeps_f server_inv (handleAgentStart cf n hc)" "keeps_f server_inv (handleAgentStop cf n hc)"
  "keeps_f server_inv (handleAgentInject cf n hc)" "keeps_f server_inv (handleAgentReport cf n hc)"
  "keeps_f server_inv (handleAgentDirect cf n hc)" "keeps_f server_inv (handleAgentReconcile cf n hc)"
  unfolding handleAgentStart_def handleAgentStop_def handleAgentInject_def handleAgentReport_def
    handleAgentDirect_def handleAgentReconcile_def reconcileDirectives_def Let_def
  by (auto intro!: server_keeps server_inv_time Find_keeps_server)

section \<open>What an append leaves alone\<close>

definition agent_frame :: "(string \<times> string \<Rightarrow> int) \<Rightarrow> agent_row list \<Rightarrow> subject_row list \<Rightarrow> subscriptionRegistry \<Rightarrow> Server \<Rightarrow> bool" where
  "agent_frame g A S R s \<longleftrightarrow> sv_gateBlocks s = g \<and> agents (en_db (sv_eng s)) = A \<and> subjects (en_db (sv_eng s)) = S \<and>
     sv_subscriptions s = R"

named_theorems framed \<open>actions that keep the agents, the gate counter and the registry\<close>

lemma frame_on_store:
  assumes "\<And>flt now d. agents (snd (f flt now d)) = agents d \<and> subjects (snd (f flt now d)) = subjects d"
  shows "keeps_f (agent_frame g A S R) (on_store (on_db_now f))"
  unfolding keeps_f_def
proof (intro allI impI)
  fix s r s' assume a: "agent_frame g A S R s" "on_store (on_db_now f) s = Some (r, s')"
  obtain en' where c: "on_db_now f (sv_eng s) = (r, en')" "s' = s\<lparr>sv_eng := en'\<rparr>"
    using a(2) by (auto simp: on_store_def split: prod.splits)
  have "en_db en' = snd (f (next_outcome (sv_eng s)) (fst (read_clock (sv_eng s))) (en_db (sv_eng s)))"
    using on_db_now_call [OF c(1)] by simp
  then show "agent_frame g A S R s'" using a(1) assms by (simp add: agent_frame_def c(2))
qed

lemma frame_on_store':
  assumes "\<And>flt d. agents (snd (f flt d)) = agents d \<and> subjects (snd (f flt d)) = subjects d"
  shows "keeps_f (agent_frame g A S R) (on_store (on_db f))"
  unfolding keeps_f_def
proof (intro allI impI)
  fix s r s' assume a: "agent_frame g A S R s" "on_store (on_db f) s = Some (r, s')"
  obtain en' where c: "on_db f (sv_eng s) = (r, en')" "s' = s\<lparr>sv_eng := en'\<rparr>"
    using a(2) by (auto simp: on_store_def split: prod.splits)
  have "en_db en' = snd (f (next_outcome (sv_eng s)) (en_db (sv_eng s)))"
    using on_db_call [OF c(1)] by simp
  then show "agent_frame g A S R s'" using a(1) assms by (simp add: agent_frame_def c(2))
qed

lemma frame_time [framed]: "keeps_f (agent_frame g A S R) time_now"
  by (auto simp: keeps_f_def time_now_def agent_frame_def split: prod.splits) (metis read_clock_db snd_conv)+

lemma frame_updates [simp]:
  "agent_frame g A S R (s\<lparr>sv_bus := b\<rparr>) = agent_frame g A S R s"
  "agent_frame g A S R (s\<lparr>sv_parks := p\<rparr>) = agent_frame g A S R s"
  by (simp_all add: agent_frame_def)

lemma frame_reads [framed]:
  "keeps_f (agent_frame g A S R) (on_store (on_db (\<lambda>flt. GetAgent flt sid aid)))"
  "keeps_f (agent_frame g A S R) (on_store (on_db (\<lambda>flt. HasPendingDirectives flt sid aid org)))"
  "keeps_f (agent_frame g A S R) (on_store (on_db (\<lambda>flt. ListRunningAgentsByType flt sid ty)))"
  "keeps_f (agent_frame g A S R) (on_store (on_db (\<lambda>flt. DrainDirectives flt sid aid t)))"
  by (rule frame_on_store', simp add: frame_simps)+

lemma frame_direct_with: "(\<And>e. keeps_f (agent_frame g A S R) (app e)) \<Longrightarrow> keeps_f (agent_frame g A S R) (direct_with app sid aid org tx)"
  unfolding direct_with_def by (auto intro!: frame_on_store simp: frame_simps split: prod.split)

lemma frame_tee_each: "(\<And>e. keeps_f (agent_frame g A S R) (app e)) \<Longrightarrow> keeps_f (agent_frame g A S R) (tee_each app e as)"
  by (induction "as") (auto intro: frame_direct_with)

lemma frame_Append [framed]: "keeps_f (agent_frame g A S R) (Append cf n e)"
proof (induction n arbitrary: e)
  case (Suc n)
  have tee: "keeps_f (agent_frame g A S R) (teeToSubscribers cf (Append cf n) e)" for e
    unfolding teeToSubscribers_def by (intro keeps_f_if keeps_f_bind frame_tee_each Suc) auto
  show ?case unfolding Append.simps
    by (auto intro!: frame_on_store tee simp: frame_simps split: prod.split)
qed auto

lemma frame_Direct [framed]: "keeps_f (agent_frame g A S R) (Direct cf n sid aid org tx)"
  unfolding Direct_def by (intro frame_direct_with frame_Append)

lemma frame_recordAgentStopped [framed]: "keeps_f (agent_frame g A S R) (recordAgentStopped cf n sid aid e)"
  unfolding recordAgentStopped_def by (auto intro!: framed)

lemma framedD:
  assumes "\<And>g A S R. keeps_f (agent_frame g A S R) m" and "m s = Some (r, s')"
  shows "sv_gateBlocks s' = sv_gateBlocks s" "agents (en_db (sv_eng s')) = agents (en_db (sv_eng s))"
    "sv_subscriptions s' = sv_subscriptions s" "subjects (en_db (sv_eng s')) = subjects (en_db (sv_eng s))"
proof -
  have "agent_frame (sv_gateBlocks s) (agents (en_db (sv_eng s))) (subjects (en_db (sv_eng s))) (sv_subscriptions s) s'"
    by (rule keeps_fD [OF assms(1) _ assms(2)]) (simp add: agent_frame_def)
  then show "sv_gateBlocks s' = sv_gateBlocks s" "agents (en_db (sv_eng s')) = agents (en_db (sv_eng s))"
    "sv_subscriptions s' = sv_subscriptions s" "subjects (en_db (sv_eng s')) = subjects (en_db (sv_eng s))"
    by (simp_all add: agent_frame_def)
qed

section \<open>The stop gate\<close>

text \<open>Success of a composed action, step by step.\<close>

lemma bind_f_SomeE:
  assumes "bind_f m k s = Some (Inr y, s')"
  obtains x s1 where "m s = Some (Inr x, s1)" "k x s1 = Some (Inr y, s')"
  using assms by (auto simp: bind_f_def split: option.splits prod.splits sum.splits)

lemma on_store_SomeE:
  assumes "on_store (on_db f) s = Some (r, s')"
  obtains flt where "f flt (en_db (sv_eng s)) = (r, en_db (sv_eng s'))" "s' = s\<lparr>sv_eng := sv_eng s'\<rparr>"
proof -
  obtain en' where "on_db f (sv_eng s) = (r, en')" "s' = s\<lparr>sv_eng := en'\<rparr>"
    using assms by (auto simp: on_store_def split: prod.splits)
  then show thesis using that on_db_call by fastforce
qed

lemma CloseAgent_done:
  assumes "CloseAgent flt sid aid t d = (Inr c, d')" and "r \<in> set (agents d')" and "agent_is sid aid r"
  shows "ag_status r = StatusDone"
proof -
  let ?hit = "\<lambda>r. agent_is sid aid r \<and> ag_status r \<noteq> StatusDone"
  let ?f = "\<lambda>r. if ?hit r then r\<lparr>ag_status := StatusDone, ag_ended := Some (unix t)\<rparr> else r"
  have "agents d' = map ?f (agents d)"
    using assms(1) by (cases flt) (auto simp: CloseAgent_def Let_def split: if_splits)
  then have "r \<in> ?f ` set (agents d)" using assms(2) by (simp del: if_image_distrib)
  then obtain q where "r = ?f q" by (rule imageE) blast
  then show ?thesis using assms(3) by (cases "?hit q") simp_all
qed

lemma DrainDirectives_pending:
  assumes "DrainDirectives flt sid aid t d = (Inr ds, d')"
  shows "set (map d_ID ds) = dr_id ` {r \<in> set (directives d). pending_for sid aid r}" "directives d' = map (\<lambda>r. if pending_for sid aid r
      then r\<lparr>dr_delivered := Some (unix t)\<rparr> else r) (directives d)"
proof -
  have "ds = map (\<lambda>r. (scanDirective r)\<lparr>d_DeliveredAt := Some t\<rparr>) (sort_key (\<lambda>r. (dr_created r, dr_id r))
      (filter (pending_for sid aid) (directives d)))"
    using assms by (cases flt) (simp_all add: DrainDirectives_def Let_def)
  then show "set (map d_ID ds) = dr_id ` {r \<in> set (directives d). pending_for sid aid r}"
    by (simp add: image_image)
  show "directives d' = map (\<lambda>r. if pending_for sid aid r
      then r\<lparr>dr_delivered := Some (unix t)\<rparr> else r) (directives d)"
    using assms by (cases flt) (auto simp: DrainDirectives_def Let_def)
qed

lemma time_now_db: "time_now s = Some (r, s') \<Longrightarrow> en_db (sv_eng s') = en_db (sv_eng s)"
  by (auto simp: time_now_def split: prod.splits) (metis read_clock_db snd_conv)

lemma bind_f_pure:
  "bind_f (modify_f f) k s = k () (f s)" "bind_f (gets_f g) k' s = k' (g s) s" "bind_f (ret_f x) k'' s = k'' x s"
  "bind_f (bind_f m h) k3 s = bind_f m (\<lambda>x. bind_f (h x) k3) s"
  by (auto simp: modify_f_def gets_f_def ret_f_def bind_f_def split: option.splits prod.splits sum.splits)

lemma stop_after_drain:
  assumes "bind_f (modify_f (\<lambda>s. s\<lparr>sv_gateBlocks := gate_reset sid aid (sv_gateBlocks s)\<rparr>)) (\<lambda>_.
      bind_f (Append cf n e) (\<lambda>_. ret_f rep)) s = Some (Inr rep', s')"
  shows "rep' = rep \<and> sv_gateBlocks s' (sid, aid) = 0"
proof -
  obtain x where "Append cf n e (s\<lparr>sv_gateBlocks := gate_reset sid aid (sv_gateBlocks s)\<rparr>) = Some (Inr x, s')" "rep' = rep"
    using assms unfolding bind_f_pure by (auto simp: ret_f_def elim: bind_f_SomeE)
  then show ?thesis using framedD(1) [OF frame_Append] by (fastforce simp: gate_reset_def)
qed

lemma stop_close:
  assumes "stop_allowed cf n sub b now s = Some (Inr rep', s')"
  shows "rep' = okReply\<lparr>rp_Allow := True\<rparr> \<and> sv_gateBlocks s' (s_ID sub, ap_AgentID b) = 0 \<and>
    (\<forall>r \<in> set (agents (en_db (sv_eng s'))). agent_is (s_ID sub) (ap_AgentID b) r \<longrightarrow> ag_status r = StatusDone)"
proof -
  let ?s = "s\<lparr>sv_gateBlocks := gate_reset (s_ID sub) (ap_AgentID b) (sv_gateBlocks s)\<rparr>"
  obtain closed s1 where c: "on_store (on_db (\<lambda>flt. CloseAgent flt (s_ID sub) (ap_AgentID b) now)) ?s = Some (Inr closed, s1)"
    and r: "bind_f (if closed then
                bind_f (modify_f (\<lambda>s. s\<lparr>sv_subscriptions := registry_remove (s_ID sub) (ap_AgentID b) (sv_subscriptions s)\<rparr>)) (\<lambda>_.
                recordAgentStopped cf n (s_ID sub) (ap_AgentID b) (stoppedEvent (s_ID sub) b))
              else ret_f ()) (\<lambda>_. ret_f (okReply\<lparr>rp_Allow := True\<rparr>)) s1 = Some (Inr rep', s')"
    using assms unfolding stop_allowed_def bind_f_pure(1) by (rule bind_f_SomeE)
  obtain flt where close: "CloseAgent flt (s_ID sub) (ap_AgentID b) now (en_db (sv_eng ?s)) = (Inr closed, en_db (sv_eng s1))"
      "s1 = ?s\<lparr>sv_eng := sv_eng s1\<rparr>" using on_store_SomeE [OF c] by blast
  have g1: "sv_gateBlocks s1 (s_ID sub, ap_AgentID b) = 0" by (subst close(2)) (simp add: gate_reset_def)
  have "rep' = okReply\<lparr>rp_Allow := True\<rparr> \<and> sv_gateBlocks s' = sv_gateBlocks s1 \<and> agents (en_db (sv_eng s')) = agents (en_db (sv_eng s1))"
  proof (cases closed)
    case True
    let ?s1 = "s1\<lparr>sv_subscriptions := registry_remove (s_ID sub) (ap_AgentID b) (sv_subscriptions s1)\<rparr>"
    obtain x where x: "recordAgentStopped cf n (s_ID sub) (ap_AgentID b) (stoppedEvent (s_ID sub) b) ?s1 = Some (Inr x, s')" "rep' = okReply\<lparr>rp_Allow := True\<rparr>"
      using r True by (simp add: bind_f_pure) (auto simp: ret_f_def elim: bind_f_SomeE)
    then show ?thesis using framedD(1,2) [OF frame_recordAgentStopped x(1)] by simp
  next
    case False
    then show ?thesis using r by (simp add: bind_f_pure) (simp add: ret_f_def)
  qed
  then show ?thesis using g1 CloseAgent_done [OF close(1)] by simp
qed

lemma stop_verdict_outcome:
  assumes "stop_verdict cf n sub b now info s = Some (Inr rep, s')"
  shows "if rp_Allow rep
    then sv_gateBlocks s' (s_ID sub, ap_AgentID b) = 0 \<and>
      (\<forall>r \<in> set (agents (en_db (sv_eng s'))). agent_is (s_ID sub) (ap_AgentID b) r \<longrightarrow> ag_status r = StatusDone)
    else sv_gateBlocks s' (s_ID sub, ap_AgentID b) = sv_gateBlocks s (s_ID sub, ap_AgentID b) + 1 \<and>
          sv_gateBlocks s' (s_ID sub, ap_AgentID b) < agentGateBlockBudget \<and>
          (\<exists>gate info. cf_agentGate cf = Some gate \<and> gate sub info = (False, rp_Reason rep))"
proof -
  define verdict where "verdict = (case cf_agentGate cf of None \<Rightarrow> (True, []) | Some gate \<Rightarrow> gate sub info)"
  let ?s = "s\<lparr>sv_gateBlocks := gate_incr (s_ID sub) (ap_AgentID b) (sv_gateBlocks s)\<rparr>"
  let ?count = "sv_gateBlocks s (s_ID sub, ap_AgentID b) + 1"
  show ?thesis
  proof (cases "\<not> fst verdict \<and> ?count < agentGateBlockBudget")
    case True
    then obtain gate where "cf_agentGate cf = Some gate" "gate sub info = verdict"
      by (auto simp: verdict_def split: option.splits)
    then have "gate sub info = (False, snd verdict)" using True by (cases verdict) simp
    moreover have "rep = okReply\<lparr>rp_Allow := False, rp_Reason := snd verdict\<rparr> \<and> s' = ?s"
      using assms True unfolding stop_verdict_def Let_def verdict_def [symmetric]
      by (auto simp: modify_f_def gets_f_def ret_f_def bind_f_def gate_incr_def)
    ultimately show ?thesis using True \<open>cf_agentGate cf = Some gate\<close> by (auto simp: gate_incr_def)
  next
    case False
    from assms obtain s1 where "stop_allowed cf n sub b now s1 = Some (Inr rep, s')"
      using False unfolding stop_verdict_def Let_def verdict_def [symmetric]
      by (cases "fst verdict") (auto simp: bind_f_pure gate_incr_def elim: bind_f_SomeE)
    from stop_close [OF this] show ?thesis by simp
  qed
qed

text \<open>
  One stop. If it is allowed, the agent's refusal counter is reset and the agent's row is done; if
  it is refused, then either directives were pending (they are all marked delivered, the reply
  carries them and the counter is reset), or the configured gate refused, and the counter went
  up by one to a value below the budget.
\<close>

lemma stop_gate_step:
  assumes "stop_agent cf n sub b s = Some (Inr rep, s')"
  shows "if rp_Allow rep
    then sv_gateBlocks s' (s_ID sub, ap_AgentID b) = 0 \<and>
      (\<forall>r \<in> set (agents (en_db (sv_eng s'))). agent_is (s_ID sub) (ap_AgentID b) r \<longrightarrow> ag_status r = StatusDone)
    else (\<exists>ds. ds \<noteq> [] \<and> rp_Reason rep = stopGateReason ds \<and>
          set (map d_ID ds) = dr_id ` {r \<in> set (directives (en_db (sv_eng s))). pending_for (s_ID sub) (ap_AgentID b) r} \<and>
          sv_gateBlocks s' (s_ID sub, ap_AgentID b) = 0)
      \<or> (sv_gateBlocks s' (s_ID sub, ap_AgentID b) = sv_gateBlocks s (s_ID sub, ap_AgentID b) + 1 \<and>
          sv_gateBlocks s' (s_ID sub, ap_AgentID b) < agentGateBlockBudget \<and>
          (\<exists>gate info. cf_agentGate cf = Some gate \<and> gate sub info = (False, rp_Reason rep)) \<and>
          (\<forall>r \<in> set (directives (en_db (sv_eng s))). \<not> pending_for (s_ID sub) (ap_AgentID b) r))"
proof -
  let ?k = "(s_ID sub, ap_AgentID b)"
  obtain now s0 pending s1 where t: "time_now s = Some (Inr now, s0)"
    and d: "on_store (on_db (\<lambda>flt. DrainDirectives flt (s_ID sub) (ap_AgentID b) now)) s0 = Some (Inr pending, s1)"
    and rest: "(if pending \<noteq> [] then
       bind_f (modify_f (\<lambda>s. s\<lparr>sv_gateBlocks := gate_reset (s_ID sub) (ap_AgentID b) (sv_gateBlocks s)\<rparr>)) (\<lambda>_.
       bind_f (Append cf n (deliveredEvent (s_ID sub) (ap_AgentID b) deliveredViaStopGate pending)) (\<lambda>_.
       ret_f (okReply\<lparr>rp_Allow := False, rp_Reason := stopGateReason pending\<rparr>)))
     else
       bind_f (on_store (on_db (\<lambda>flt. GetAgent flt (s_ID sub) (ap_AgentID b)))) (\<lambda>info. stop_verdict cf n sub b now info)) s1
      = Some (Inr rep, s')"
    using assms unfolding stop_agent_def by (elim bind_f_SomeE) blast
  obtain flt where drain: "DrainDirectives flt (s_ID sub) (ap_AgentID b) now (en_db (sv_eng s0)) = (Inr pending, en_db (sv_eng s1))"
    using on_store_SomeE [OF d] by blast
  note ids = DrainDirectives_pending(1) [OF drain, unfolded time_now_db [OF t]]
  have g1: "sv_gateBlocks s1 = sv_gateBlocks s" using framedD(1) [OF frame_time t] framedD(1) [OF frame_reads(4) d] by simp
  show ?thesis
  proof (cases "pending = []")
    case False
    then have "rep = okReply\<lparr>rp_Allow := False, rp_Reason := stopGateReason pending\<rparr> \<and> sv_gateBlocks s' ?k = 0"
      using stop_after_drain [of "s_ID sub" "ap_AgentID b" cf n] rest by simp
    then show ?thesis using ids False by auto
  next
    case True
    obtain info s2 where i: "on_store (on_db (\<lambda>flt. GetAgent flt (s_ID sub) (ap_AgentID b))) s1 = Some (Inr info, s2)"
      and v: "stop_verdict cf n sub b now info s2 = Some (Inr rep, s')"
      using rest True by (auto elim: bind_f_SomeE)
    have none: "\<forall>r \<in> set (directives (en_db (sv_eng s))). \<not> pending_for (s_ID sub) (ap_AgentID b) r" using ids True by auto
    have g2: "sv_gateBlocks s2 = sv_gateBlocks s" using g1 framedD(1) [OF frame_reads(1) i] by simp
    show ?thesis using stop_verdict_outcome [OF v] none unfolding g2 by auto
  qed
qed

text \<open>A stop with any result: the refusal counter stays, is reset, or goes up by one.\<close>

lemma bind_f_Some_cases:
  assumes "bind_f m k s = Some (r, s')"
  obtains e where "m s = Some (Inl e, s')" "r = Inl e" | x s1 where "m s = Some (Inr x, s1)" "k x s1 = Some (r, s')"
  using assms by (auto simp: bind_f_def split: option.splits prod.splits sum.splits)

lemma bind_f_ret: "bind_f (ret_f x) k = k x"
  by (rule ext) (rule bind_f_pure(3))

lemma gate_simps:
  "gate_reset sid aid g (sid, aid) = 0" "gate_incr sid aid g (sid, aid) = g (sid, aid) + 1"
  "k \<noteq> (sid, aid) \<Longrightarrow> gate_reset sid aid g k = g k" "k \<noteq> (sid, aid) \<Longrightarrow> gate_incr sid aid g k = g k"
  by (auto simp: gate_reset_def gate_incr_def)

lemma gate_of_stopped:
  assumes "bind_f (if closed then
      (\<lambda>s. recordAgentStopped cf n sid aid e (s\<lparr>sv_subscriptions := registry_remove sid aid (sv_subscriptions s)\<rparr>))
      else ret_f ()) (\<lambda>_. ret_f rep) s = Some (r, s')"
  shows "sv_gateBlocks s' = sv_gateBlocks s"
proof (cases closed)
  case True
  let ?s = "s\<lparr>sv_subscriptions := registry_remove sid aid (sv_subscriptions s)\<rparr>"
  obtain x where "recordAgentStopped cf n sid aid e ?s = Some (x, s')"
    using assms True by (auto simp: ret_f_def elim: bind_f_Some_cases)
  then show ?thesis using framedD(1) [OF frame_recordAgentStopped] by fastforce
next
  case False
  then show ?thesis using assms by (auto simp: bind_f_pure ret_f_def)
qed

lemma gate_of_allowed:
  assumes "stop_allowed cf n sub b now s = Some (r, s')"
  shows "sv_gateBlocks s' = gate_reset (s_ID sub) (ap_AgentID b) (sv_gateBlocks s)"
proof -
  let ?s = "s\<lparr>sv_gateBlocks := gate_reset (s_ID sub) (ap_AgentID b) (sv_gateBlocks s)\<rparr>"
  have kept: "sv_gateBlocks s1 = sv_gateBlocks ?s"
    if "on_store (on_db (\<lambda>flt. CloseAgent flt (s_ID sub) (ap_AgentID b) now)) ?s = Some (x, s1)" for x s1
    using that by (auto simp: on_store_def split: prod.splits)
  from assms [unfolded stop_allowed_def bind_f_pure(1)] show ?thesis
  proof (cases rule: bind_f_Some_cases)
    case (1 e)
    then show ?thesis using kept by simp
  next
    case (2 x s1)
    show ?thesis using kept [OF 2(1)] gate_of_stopped [OF 2(2)] by simp
  qed
qed

definition gate_of :: "Config \<Rightarrow> Subject \<Rightarrow> Info \<Rightarrow> bool \<times> string" where
  "gate_of cf sub info = (case cf_agentGate cf of None \<Rightarrow> (True, []) | Some gate \<Rightarrow> gate sub info)"

lemma gate_of_verdict:
  assumes "stop_verdict cf n sub b now info s = Some (r, s')"
  defines "k \<equiv> (s_ID sub, ap_AgentID b)"
  shows "(sv_gateBlocks s' k = 0 \<and> (fst (gate_of cf sub info) \<or> agentGateBlockBudget \<le> sv_gateBlocks s k + 1)) \<or>
      (sv_gateBlocks s' k = sv_gateBlocks s k + 1 \<and>
        (if sv_gateBlocks s k + 1 < agentGateBlockBudget then \<exists>rep. r = Inr rep \<and> \<not> rp_Allow rep else \<exists>e. r = Inl e))"
    and "k' \<noteq> k \<Longrightarrow> sv_gateBlocks s' k' = sv_gateBlocks s k'"
proof -
  let ?s = "s\<lparr>sv_gateBlocks := gate_incr (s_ID sub) (ap_AgentID b) (sv_gateBlocks s)\<rparr>"
  let ?v = "gate_of cf sub info"
  note run = assms(1) [unfolded stop_verdict_def Let_def gate_of_def [symmetric]]
  have "((sv_gateBlocks s' k = 0 \<and> (fst ?v \<or> agentGateBlockBudget \<le> sv_gateBlocks s k + 1)) \<or>
      (sv_gateBlocks s' k = sv_gateBlocks s k + 1 \<and>
        (if sv_gateBlocks s k + 1 < agentGateBlockBudget then \<exists>rep. r = Inr rep \<and> \<not> rp_Allow rep else \<exists>e. r = Inl e))) \<and>
      (\<forall>k'. k' \<noteq> k \<longrightarrow> sv_gateBlocks s' k' = sv_gateBlocks s k')"
  proof (cases "fst ?v")
    case True
    then have "stop_allowed cf n sub b now s = Some (r, s')" using run by (simp add: bind_f_pure)
    from gate_of_allowed [OF this] show ?thesis using True by (simp add: k_def gate_simps)
  next
    case False
    show ?thesis
    proof (cases "sv_gateBlocks s k + 1 < agentGateBlockBudget")
      case True
      then have "r = Inr (okReply\<lparr>rp_Allow := False, rp_Reason := snd ?v\<rparr>) \<and> s' = ?s"
        using run False by (auto simp: bind_f_pure gate_simps k_def ret_f_def)
      then show ?thesis using True by (auto simp: k_def gate_simps)
    next
      case over: False
      then have "bind_f (Append cf n (forcedAllowEvent (s_ID sub) (ap_AgentID b))) (\<lambda>_. stop_allowed cf n sub b now) ?s = Some (r, s')"
        using run False by (simp add: bind_f_pure bind_f_ret gate_simps k_def)
      then show ?thesis
      proof (cases rule: bind_f_Some_cases)
        case (1 e)
        then show ?thesis using framedD(1) [OF frame_Append 1(1)] over by (auto simp: k_def gate_simps)
      next
        case (2 x s1)
        then show ?thesis using framedD(1) [OF frame_Append 2(1)] gate_of_allowed [OF 2(2)] over by (auto simp: k_def gate_simps)
      qed
    qed
  qed
  then show "(sv_gateBlocks s' k = 0 \<and> (fst (gate_of cf sub info) \<or> agentGateBlockBudget \<le> sv_gateBlocks s k + 1)) \<or>
      (sv_gateBlocks s' k = sv_gateBlocks s k + 1 \<and>
        (if sv_gateBlocks s k + 1 < agentGateBlockBudget then \<exists>rep. r = Inr rep \<and> \<not> rp_Allow rep else \<exists>e. r = Inl e))"
    and "k' \<noteq> k \<Longrightarrow> sv_gateBlocks s' k' = sv_gateBlocks s k'" by blast+
qed

text \<open>
  A stop that drains directives resets the counter; another agent's stop leaves it alone.
  \<open>gate_move\<close> is what a stop of the agent can do to it.
\<close>

definition pending_at :: "string \<Rightarrow> string \<Rightarrow> Server \<Rightarrow> bool" where
  "pending_at sid aid s \<longleftrightarrow> list_ex (pending_for sid aid) (directives (en_db (sv_eng s)))"

definition gate_refused :: "string \<Rightarrow> string \<Rightarrow> Server \<times> Reply result \<times> Server \<Rightarrow> bool" where
  "gate_refused sid aid e = (case e of (s, r, s') \<Rightarrow> \<not> pending_at sid aid s \<and> (case r of Inl _ \<Rightarrow> False | Inr rep \<Rightarrow> \<not> rp_Allow rep))"

definition stop_allows :: "Server \<times> Reply result \<times> Server \<Rightarrow> bool" where
  "stop_allows e = (case e of (s, r, s') \<Rightarrow> (case r of Inl _ \<Rightarrow> False | Inr rep \<Rightarrow> rp_Allow rep))"

lemma gate_move:
  assumes "stop_agent cf n sub b s = Some (r, s')"
  defines "k \<equiv> (s_ID sub, ap_AgentID b)"
  shows "sv_gateBlocks s' k = 0 \<or> sv_gateBlocks s' k = sv_gateBlocks s k \<or> (sv_gateBlocks s' k = sv_gateBlocks s k + 1 \<and>
      (sv_gateBlocks s k + 1 < agentGateBlockBudget \<longrightarrow> gate_refused (s_ID sub) (ap_AgentID b) (s, r, s')))"
    and "stop_allows (s, r, s') \<Longrightarrow> \<forall>info. \<not> fst (gate_of cf sub info) \<Longrightarrow> agentGateBlockBudget \<le> sv_gateBlocks s k + 1"
    and "k' \<noteq> k \<Longrightarrow> sv_gateBlocks s' k' = sv_gateBlocks s k'"
proof -
  let ?sid = "s_ID sub" and ?aid = "ap_AgentID b"
  let ?P = "(sv_gateBlocks s' k = 0 \<or> sv_gateBlocks s' k = sv_gateBlocks s k \<or> (sv_gateBlocks s' k = sv_gateBlocks s k + 1 \<and>
      (sv_gateBlocks s k + 1 < agentGateBlockBudget \<longrightarrow> gate_refused ?sid ?aid (s, r, s')))) \<and>
    (stop_allows (s, r, s') \<longrightarrow> (\<forall>info. \<not> fst (gate_of cf sub info)) \<longrightarrow> agentGateBlockBudget \<le> sv_gateBlocks s k + 1) \<and>
    (\<forall>k'. k' \<noteq> k \<longrightarrow> sv_gateBlocks s' k' = sv_gateBlocks s k')"
  have failed: ?P if "sv_gateBlocks s' = sv_gateBlocks s" "\<exists>e. r = Inl e" using that by (auto simp: stop_allows_def)
  have ?P using assms(1) unfolding stop_agent_def
  proof (cases rule: bind_f_Some_cases)
    case (1 e)
    then show ?thesis using failed framedD(1) [OF frame_time 1(1)] by blast
  next
    case (2 now s0)
    note t = framedD(1) [OF frame_time 2(1)] time_now_db [OF 2(1)]
    from 2(2) show ?thesis
    proof (cases rule: bind_f_Some_cases)
      case (1 e)
      then show ?thesis using failed framedD(1) [OF frame_reads(4) 1(1)] t(1) by simp
    next
      case (2 ds s1)
      have g1: "sv_gateBlocks s1 = sv_gateBlocks s" using framedD(1) [OF frame_reads(4) 2(1)] t(1) by simp
      obtain flt where "DrainDirectives flt ?sid ?aid now (en_db (sv_eng s0)) = (Inr ds, en_db (sv_eng s1))"
        using on_store_SomeE [OF 2(1)] by blast
      from DrainDirectives_pending(1) [OF this] have none: "ds = [] \<Longrightarrow> \<not> pending_at ?sid ?aid s"
        by (auto simp: pending_at_def t(2) list_ex_iff)
      show ?thesis
      proof (cases "ds = []")
        case False
        let ?s1 = "s1\<lparr>sv_gateBlocks := gate_reset ?sid ?aid (sv_gateBlocks s1)\<rparr>"
        obtain x where "Append cf n (deliveredEvent ?sid ?aid deliveredViaStopGate ds) ?s1 = Some (x, s')"
            "r = Inr (okReply\<lparr>rp_Allow := False, rp_Reason := stopGateReason ds\<rparr>) \<or> (\<exists>e. r = Inl e)"
          using 2(2) False by (auto simp: bind_f_pure ret_f_def elim: bind_f_Some_cases)
        then show ?thesis using framedD(1) [OF frame_Append] g1 by (fastforce simp: k_def gate_simps stop_allows_def)
      next
        case True
        have "bind_f (on_store (on_db (\<lambda>flt. GetAgent flt ?sid ?aid))) (\<lambda>info. stop_verdict cf n sub b now info) s1 = Some (r, s')"
          using 2(2) True by simp
        then show ?thesis
        proof (cases rule: bind_f_Some_cases)
          case (1 e)
          then show ?thesis using failed framedD(1) [OF frame_reads(1) 1(1)] g1 by simp
        next
          case (2 info s2)
          have g2: "sv_gateBlocks s2 = sv_gateBlocks s" using framedD(1) [OF frame_reads(1) 2(1)] g1 by simp
          note v = gate_of_verdict [OF 2(2), unfolded g2, folded k_def]
          show ?thesis using v none [OF True] by (auto simp: gate_refused_def stop_allows_def split: if_splits)
        qed
      qed
    qed
  qed
  then show "sv_gateBlocks s' k = 0 \<or> sv_gateBlocks s' k = sv_gateBlocks s k \<or> (sv_gateBlocks s' k = sv_gateBlocks s k + 1 \<and>
      (sv_gateBlocks s k + 1 < agentGateBlockBudget \<longrightarrow> gate_refused ?sid ?aid (s, r, s')))"
    and "stop_allows (s, r, s') \<Longrightarrow> \<forall>info. \<not> fst (gate_of cf sub info) \<Longrightarrow> agentGateBlockBudget \<le> sv_gateBlocks s k + 1"
    and "k' \<noteq> k \<Longrightarrow> sv_gateBlocks s' k' = sv_gateBlocks s k'" by blast+
qed

text \<open>
  The stops of one agent of a subject during a life of the daemon, each with the state before,
  the result and the state after. Between them anything may happen that leaves the agent's refusal
  counter alone, which is everything but its own stops: no other code touches the counters, and a
  stop of another agent changes only its own (\<open>gate_move\<close>).
\<close>

inductive stop_run :: "Config \<Rightarrow> nat \<Rightarrow> string \<Rightarrow> string \<Rightarrow> Server \<Rightarrow> (Server \<times> Reply result \<times> Server) list \<Rightarrow> Server \<Rightarrow> bool"
  for cf n sid aid s0 where
  begins: "stop_run cf n sid aid s0 [] s0"
| between: "stop_run cf n sid aid s0 h s \<Longrightarrow> sv_gateBlocks s' (sid, aid) = sv_gateBlocks s (sid, aid) \<Longrightarrow> stop_run cf n sid aid s0 h s'"
| stops: "stop_run cf n sid aid s0 h s \<Longrightarrow> s_ID sub = sid \<Longrightarrow> ap_AgentID b = aid \<Longrightarrow> stop_agent cf n sub b s = Some (r, s') \<Longrightarrow>
    stop_run cf n sid aid s0 (h @ [(s, r, s')]) s'"

fun streak :: "('a \<Rightarrow> bool) \<Rightarrow> 'a list \<Rightarrow> nat" where
  "streak P [] = 0"
| "streak P (x # xs) = (if P x then Suc (streak P xs) else 0)"

lemma streak_two: "P (xs ! Suc i) \<Longrightarrow> P (xs ! i) \<Longrightarrow> Suc (Suc i) = length xs \<Longrightarrow> 2 \<le> streak P (rev xs)"
proof -
  assume P: "P (xs ! Suc i)" "P (xs ! i)" and len: "Suc (Suc i) = length xs"
  then obtain ys x y where "xs = ys @ [x, y]" "length ys = i"
    by (metis append_butlast_last_id append_Cons append_Nil append_assoc butlast_snoc length_0_conv length_butlast diff_Suc_1 nat.distinct(1))
  then show ?thesis using P by (auto simp: nth_append)
qed

definition no_three :: "('a \<Rightarrow> bool) \<Rightarrow> 'a list \<Rightarrow> bool" where
  "no_three P xs \<longleftrightarrow> (\<forall>i. i + 2 < length xs \<longrightarrow> \<not> (P (xs ! i) \<and> P (xs ! (i + 1)) \<and> P (xs ! (i + 2))))"

lemma no_three_snoc:
  assumes "no_three P xs" and "P x \<Longrightarrow> streak P (rev xs) < 2"
  shows "no_three P (xs @ [x])"
  unfolding no_three_def
proof (intro allI impI notI)
  fix i assume i: "i + 2 < length (xs @ [x])" and P: "P ((xs @ [x]) ! i) \<and> P ((xs @ [x]) ! (i + 1)) \<and> P ((xs @ [x]) ! (i + 2))"
  show False
  proof (cases "i + 2 = length xs")
    case True
    then have "P x" "P (xs ! Suc i)" "P (xs ! i)" using P by (simp_all add: nth_append)
    then show False using assms(2) streak_two [of P xs i] True by simp
  next
    case False
    then have "i + 2 < length xs" using i by simp
    then have "P (xs ! i) \<and> P (xs ! (i + 1)) \<and> P (xs ! (i + 2))" using P by (simp add: nth_append)
    then show False using assms(1) \<open>i + 2 < length xs\<close> unfolding no_three_def by blast
  qed
qed

lemma nothing_pending:
  assumes "\<not> pending_at sid aid s"
    and "set (map d_ID ds) = dr_id ` {row \<in> set (directives (en_db (sv_eng s))). pending_for sid aid row}"
  shows "ds = []"
proof -
  have "{row \<in> set (directives (en_db (sv_eng s))). pending_for sid aid row} = {}" using assms(1) by (auto simp: pending_at_def list_ex_iff)
  then have "set (map d_ID ds) = {}" using assms(2) by (simp only: image_empty)
  then show "ds = []" by simp
qed

lemma stop_run_gate:
  assumes "stop_run cf n sid aid s0 h s" and "0 \<le> sv_gateBlocks s0 (sid, aid)"
  shows "int (streak (gate_refused sid aid) (rev h)) \<le> sv_gateBlocks s (sid, aid) \<and> 0 \<le> sv_gateBlocks s (sid, aid) \<and>
    streak (gate_refused sid aid) (rev h) \<le> 2 \<and> no_three (gate_refused sid aid) h"
  using assms
proof (induction rule: stop_run.induct)
  case begins
  then show ?case by (simp add: no_three_def)
next
  case (between h s s')
  then show ?case by simp
next
  case (stops h s sub b r s')
  let ?P = "gate_refused sid aid" and ?k = "(sid, aid)"
  have m: "sv_gateBlocks s' ?k = 0 \<or> sv_gateBlocks s' ?k = sv_gateBlocks s ?k \<or> sv_gateBlocks s' ?k = sv_gateBlocks s ?k + 1"
    using gate_move(1) [OF stops(4)] stops(2,3) by blast
  have less: "sv_gateBlocks s' ?k = sv_gateBlocks s ?k + 1 \<and> sv_gateBlocks s' ?k < agentGateBlockBudget" if ref: "?P (s, r, s')"
  proof -
    obtain rep where rep: "r = Inr rep" "\<not> rp_Allow rep" using ref by (cases r) (simp_all add: gate_refused_def)
    have "\<not> pending_at sid aid s" using ref by (simp add: gate_refused_def)
    then show ?thesis using stop_gate_step [OF stops(4) [unfolded rep(1)], unfolded stops(2,3)] rep(2) nothing_pending [of sid aid s]
      by auto
  qed
  have ih: "int (streak ?P (rev h)) \<le> sv_gateBlocks s ?k" "0 \<le> sv_gateBlocks s ?k" "no_three ?P h" using stops by auto
  have "?P (s, r, s') \<Longrightarrow> streak ?P (rev h) < 2" using less ih(1) by (simp add: agentGateBlockBudget_def)
  then have "no_three ?P (h @ [(s, r, s')])" by (rule no_three_snoc [OF ih(3)])
  then show ?case using less m ih by (auto simp: agentGateBlockBudget_def)
qed

text \<open>The refusals a gate has had: at least the counter, up to the two it is allowed.\<close>

lemma stop_run_refusals:
  assumes "stop_run cf n sid aid s0 h s" and "sv_gateBlocks s0 (sid, aid) = 0"
  shows "min 2 (sv_gateBlocks s (sid, aid)) \<le> int (length (filter (gate_refused sid aid) h))"
  using assms
proof (induction rule: stop_run.induct)
  case (stops h s sub b r s')
  then show ?case using gate_move(1) [OF stops(4)] by (auto simp: agentGateBlockBudget_def split: if_splits)
qed simp_all

text \<open>What a single stop of the run does.\<close>

definition stop_effect :: "Config \<Rightarrow> string \<Rightarrow> string \<Rightarrow> Server \<times> Reply result \<times> Server \<Rightarrow> bool" where
  "stop_effect cf sid aid e \<longleftrightarrow> (case e of (s, r, s') \<Rightarrow> \<forall>rep. r = Inr rep \<longrightarrow>
     (if rp_Allow rep then \<forall>row \<in> set (agents (en_db (sv_eng s'))). agent_is sid aid row \<longrightarrow> ag_status row = StatusDone
      else if pending_at sid aid s then
        \<exists>ds. rp_Reason rep = stopGateReason ds \<and> set (map d_ID ds) = dr_id ` {row \<in> set (directives (en_db (sv_eng s))). pending_for sid aid row}
      else \<exists>gate sub info. cf_agentGate cf = Some gate \<and> gate sub info = (False, rp_Reason rep)))"

lemma stop_run_effects: "stop_run cf n sid aid s0 h s \<Longrightarrow> \<forall>e \<in> set h. stop_effect cf sid aid e"
proof (induction rule: stop_run.induct)
  case (stops h s sub b r s')
  have "stop_effect cf sid aid (s, r, s')" unfolding stop_effect_def prod.case
  proof (intro allI impI)
    fix rep assume "r = Inr rep"
    note step = stop_gate_step [OF stops(4) [unfolded this], unfolded stops(2,3)]
    note none = nothing_pending [of sid aid s]
    have some: "pending_at sid aid s \<longleftrightarrow> \<not> (\<forall>row \<in> set (directives (en_db (sv_eng s))). \<not> pending_for sid aid row)"
      by (auto simp: pending_at_def list_ex_iff)
    show "if rp_Allow rep
      then \<forall>row \<in> set (agents (en_db (sv_eng s'))). agent_is sid aid row \<longrightarrow> ag_status row = StatusDone
      else if pending_at sid aid s then
        \<exists>ds. rp_Reason rep = stopGateReason ds \<and> set (map d_ID ds) = dr_id ` {row \<in> set (directives (en_db (sv_eng s))). pending_for sid aid row}
      else \<exists>gate sub info. cf_agentGate cf = Some gate \<and> gate sub info = (False, rp_Reason rep)"
      using step none unfolding some by (auto split: if_splits)
  qed
  then show ?case using stops by simp
qed simp_all

text \<open>
  C11: The stop gate never refuses forever, and refuses only for cause. Over any run of an agent's
  stops in a life of the daemon, with anything in between and whichever statements of the store
  fail: a stop is refused either because directives were pending, and then the reply carries
  exactly those, or because the configured gate refused, with its reason; an allowed stop leaves the
  agent's row done. There are never three refusals of the gate in a row, so a gate that always
  refuses is overruled at the third consecutive stop; and it is not overruled before: an
  agent whose gate always refuses is allowed to stop only after two refusals.
\<close>

theorem stop_gate_budget:
  assumes "stop_run cf n sid aid s0 h s" and "sv_gateBlocks s0 (sid, aid) = 0"
  shows "(\<forall>e \<in> set h. stop_effect cf sid aid e) \<and>
    (\<forall>i. i + 2 < length h \<longrightarrow> \<not> (gate_refused sid aid (h ! i) \<and> gate_refused sid aid (h ! (i + 1)) \<and> gate_refused sid aid (h ! (i + 2)))) \<and>
    ((\<forall>sub info. \<not> fst (gate_of cf sub info)) \<longrightarrow>
       (\<forall>i < length h. stop_allows (h ! i) \<longrightarrow> 2 \<le> length (filter (gate_refused sid aid) (take i h))))"
proof -
  have "\<forall>i < length h. stop_allows (h ! i) \<longrightarrow> 2 \<le> length (filter (gate_refused sid aid) (take i h))"
    if refuses: "\<forall>sub info. \<not> fst (gate_of cf sub info)"
    using assms
  proof (induction rule: stop_run.induct)
    case (stops h s sub b r s')
    have "2 \<le> length (filter (gate_refused sid aid) h)" if "stop_allows (s, r, s')"
    proof -
      have "agentGateBlockBudget \<le> sv_gateBlocks s (sid, aid) + 1"
        using gate_move(2) [OF stops(4) that] refuses stops(2,3) by simp
      then have "2 \<le> int (length (filter (gate_refused sid aid) h))"
        using stop_run_refusals [OF stops(1,6)] by (simp add: agentGateBlockBudget_def)
      then show ?thesis by simp
    qed
    then show ?case using stops by (auto simp: nth_append less_Suc_eq)
  qed simp_all
  moreover have "no_three (gate_refused sid aid) h" using stop_run_gate [OF assms(1)] assms(2) by simp
  ultimately show ?thesis using stop_run_effects [OF assms(1)] unfolding no_three_def by blast
qed

definition stubborn :: Config where
  "stubborn = sample_config\<lparr>cf_agentGate := Some (\<lambda>_ _. (False, ''busy''))\<rparr>"

definition sample_stop :: agentStopBody where
  "sample_stop = \<lparr>ap_AgentID = ''a1'', ap_LastAssistantMessage = [], ap_AgentTranscriptPath = []\<rparr>"

text \<open>Two stops under a gate that always refuses: a third is not refused.\<close>

lemma sample_refusal:
  assumes "g (''s1'', ''a1'') + 1 < 3" and "sub = scanSubject (sample_subject ''s1'' ''sess'' 7 5)"
  shows "stop_agent stubborn 2 sub sample_stop (sample_server\<lparr>sv_gateBlocks := g\<rparr>) =
    Some (Inr (okReply\<lparr>rp_Allow := False, rp_Reason := ''busy''\<rparr>), sample_server\<lparr>sv_gateBlocks := gate_incr ''s1'' ''a1'' g\<rparr>)"
  using assms
  by (simp add: stop_agent_def stop_verdict_def sample_server_def stubborn_def sample_stop_def time_now_def read_clock_def bind_f_def
      on_store_def on_db_def next_outcome_def DrainDirectives_def GetAgent_def agent_is_def modify_f_def gets_f_def gate_incr_def
      ret_f_def agentGateBlockBudget_def Let_def scanSubject_def sample_subject_def)

theorem stop_gate_budget_witness:
  "\<exists>h s sub. stop_run stubborn 2 ''s1'' ''a1'' sample_server h s \<and> length h = 2 \<and> list_all (gate_refused ''s1'' ''a1'') h \<and>
     s_ID sub = ''s1'' \<and> (\<forall>r s'. stop_agent stubborn 2 sub sample_stop s = Some (r, s') \<longrightarrow> \<not> gate_refused ''s1'' ''a1'' (s, r, s'))"
proof -
  define sub where "sub = scanSubject (sample_subject ''s1'' ''sess'' 7 5)"
  let ?rep = "okReply\<lparr>rp_Allow := False, rp_Reason := ''busy''\<rparr>" and ?at = "\<lambda>g. sample_server\<lparr>sv_gateBlocks := g\<rparr>"
  define g :: "string \<times> string \<Rightarrow> int" where "g = (\<lambda>k. 0)"
  let ?g1 = "gate_incr ''s1'' ''a1'' g"
  let ?g2 = "gate_incr ''s1'' ''a1'' ?g1"
  let ?h = "[] @ [(?at g, Inr ?rep, ?at ?g1)]"
  let ?h2 = "?h @ [(?at ?g1, Inr ?rep, ?at ?g2)]"
  have start: "sample_server = ?at g" by (simp add: sample_server_def g_def)
  have ids: "s_ID sub = ''s1''" "ap_AgentID sample_stop = ''a1''" by (simp_all add: sub_def scanSubject_def sample_subject_def sample_stop_def)
  have s1: "stop_agent stubborn 2 sub sample_stop (?at g) = Some (Inr ?rep, ?at ?g1)"
    by (rule sample_refusal [OF _ sub_def]) (simp add: g_def)
  have s2: "stop_agent stubborn 2 sub sample_stop (?at ?g1) = Some (Inr ?rep, ?at ?g2)"
    by (rule sample_refusal [OF _ sub_def]) (simp add: g_def gate_incr_def)
  have run: "stop_run stubborn 2 ''s1'' ''a1'' (?at g) ?h2 (?at ?g2)"
    by (rule stop_run.stops [OF stop_run.stops [OF stop_run.begins ids s1] ids s2])
  have zero: "sv_gateBlocks (?at g) (''s1'', ''a1'') = 0" by (simp add: g_def)
  have refused: "list_all (gate_refused ''s1'' ''a1'') ?h2"
    by (simp add: gate_refused_def pending_at_def sample_server_def okReply_def)
  have "\<not> gate_refused ''s1'' ''a1'' (?at ?g2, r, s')" if "stop_agent stubborn 2 sub sample_stop (?at ?g2) = Some (r, s')" for r s'
    using conjunct1 [OF conjunct2 [OF stop_gate_budget [OF stop_run.stops [OF run ids that] zero]], rule_format, of 0] refused by simp
  then show ?thesis using run refused ids(1) start
    by (intro exI [of _ ?h2] exI [of _ "?at ?g2"] exI [of _ sub] conjI) simp_all
qed

section \<open>One subscriber per type\<close>

lemma CloseAgent_map:
  assumes "CloseAgent flt sid aid t d = (Inr c, d')"
  obtains f where "agents d' = map f (agents d)"
    "\<And>r. ag_subject (f r) = ag_subject r \<and> ag_agent (f r) = ag_agent r \<and> ag_type (f r) = ag_type r"
    "\<And>r. ag_status (f r) = ag_status r \<or> ag_status (f r) = StatusDone" "\<And>r. \<not> agent_is sid aid r \<Longrightarrow> f r = r"
    "\<And>r. agent_is sid aid r \<Longrightarrow> ag_status (f r) = StatusDone"
proof -
  let ?f = "\<lambda>r. if agent_is sid aid r \<and> ag_status r \<noteq> StatusDone then r\<lparr>ag_status := StatusDone, ag_ended := Some (unix t)\<rparr> else r"
  have "agents d' = map ?f (agents d)"
    using assms by (cases flt) (auto simp: CloseAgent_def Let_def split: if_splits)
  then show thesis by (rule that [of ?f]) auto
qed

text \<open>What one supersede changes: every named rival is closed, the kept agent is untouched.\<close>

definition superseded :: "string \<Rightarrow> string \<Rightarrow> string set \<Rightarrow> Server \<Rightarrow> Server \<Rightarrow> bool" where
  "superseded sid keep rivals s s' \<longleftrightarrow>
     (\<exists>f. agents (en_db (sv_eng s')) = map f (agents (en_db (sv_eng s))) \<and>
       (\<forall>r. ag_subject (f r) = ag_subject r \<and> ag_agent (f r) = ag_agent r \<and> ag_type (f r) = ag_type r) \<and>
       (\<forall>r. ag_status (f r) = ag_status r \<or> ag_status (f r) = StatusDone) \<and>
       (\<forall>r. ag_agent r = keep \<longrightarrow> f r = r) \<and>
       (\<forall>r. ag_subject r = sid \<and> ag_agent r \<in> rivals \<longrightarrow> ag_status (f r) = StatusDone)) \<and>
     map_of (sv_subscriptions s' sid) keep = map_of (sv_subscriptions s sid) keep"

lemma superseded_trans:
  assumes "superseded sid keep A s s1" and "superseded sid keep B s1 s2"
  shows "superseded sid keep (A \<union> B) s s2"
proof -
  from assms(1) obtain f where f: "agents (en_db (sv_eng s1)) = map f (agents (en_db (sv_eng s)))"
    "\<And>r. ag_subject (f r) = ag_subject r \<and> ag_agent (f r) = ag_agent r \<and> ag_type (f r) = ag_type r"
    "\<And>r. ag_status (f r) = ag_status r \<or> ag_status (f r) = StatusDone" "\<And>r. ag_agent r = keep \<Longrightarrow> f r = r"
    "\<And>r. ag_subject r = sid \<and> ag_agent r \<in> A \<Longrightarrow> ag_status (f r) = StatusDone" by (auto simp: superseded_def)
  from assms(2) obtain g where g: "agents (en_db (sv_eng s2)) = map g (agents (en_db (sv_eng s1)))"
    "\<And>r. ag_subject (g r) = ag_subject r \<and> ag_agent (g r) = ag_agent r \<and> ag_type (g r) = ag_type r"
    "\<And>r. ag_status (g r) = ag_status r \<or> ag_status (g r) = StatusDone" "\<And>r. ag_agent r = keep \<Longrightarrow> g r = r"
    "\<And>r. ag_subject r = sid \<and> ag_agent r \<in> B \<Longrightarrow> ag_status (g r) = StatusDone" by (auto simp: superseded_def)
  have "map_of (sv_subscriptions s2 sid) keep = map_of (sv_subscriptions s sid) keep"
    using assms by (simp add: superseded_def)
  moreover have "ag_status (g (f r)) = ag_status r \<or> ag_status (g (f r)) = StatusDone" for r
    using f(3) [of r] g(3) [of "f r"] by auto
  moreover have "ag_subject r = sid \<and> ag_agent r \<in> A \<union> B \<Longrightarrow> ag_status (g (f r)) = StatusDone" for r
    using f(2,5) [of r] g(3,5) [of "f r"] by auto
  ultimately show ?thesis unfolding superseded_def using f(1,2,4) g(1,2,4)
    by (intro conjI exI [of _ "g \<circ> f"]) simp_all
qed

lemma superseded_refl:
  assumes "agents (en_db (sv_eng s')) = agents (en_db (sv_eng s))"
    and "map_of (sv_subscriptions s' sid) keep = map_of (sv_subscriptions s sid) keep"
  shows "superseded sid keep {} s s'"
  using assms unfolding superseded_def by (intro conjI exI [of _ id]) auto

lemma supersede_one:
  assumes ne: "ai_AgentID other \<noteq> keep"
    and d: "Direct cf n sid (ai_AgentID other) org tx (s\<lparr>sv_subscriptions := registry_remove sid (ai_AgentID other) (sv_subscriptions s)\<rparr>) = Some (Inr u, s1)"
    and c: "on_store (on_db_now (\<lambda>flt now. CloseAgent flt sid (ai_AgentID other) now)) s1 = Some (Inr c, s2)"
    and e: "agents (en_db (sv_eng s3)) = agents (en_db (sv_eng s2))" "sv_subscriptions s3 = sv_subscriptions s2"
  shows "superseded sid keep {ai_AgentID other} s s3"
proof -
  have d1: "agents (en_db (sv_eng s1)) = agents (en_db (sv_eng s))"
      "sv_subscriptions s1 = registry_remove sid (ai_AgentID other) (sv_subscriptions s)"
    using framedD(2,3) [OF frame_Direct d] by simp_all
  obtain flt t where "CloseAgent flt sid (ai_AgentID other) t (en_db (sv_eng s1)) = (Inr c, en_db (sv_eng s2))"
      and sub: "sv_subscriptions s2 = sv_subscriptions s1"
    using c on_db_now_call by (fastforce simp: on_store_def split: prod.splits)
  then obtain f where f: "agents (en_db (sv_eng s2)) = map f (agents (en_db (sv_eng s1)))"
    "\<And>r. ag_subject (f r) = ag_subject r \<and> ag_agent (f r) = ag_agent r \<and> ag_type (f r) = ag_type r"
    "\<And>r. ag_status (f r) = ag_status r \<or> ag_status (f r) = StatusDone" "\<And>r. \<not> agent_is sid (ai_AgentID other) r \<Longrightarrow> f r = r"
    "\<And>r. agent_is sid (ai_AgentID other) r \<Longrightarrow> ag_status (f r) = StatusDone" using CloseAgent_map by metis
  have "ag_agent r = keep \<Longrightarrow> f r = r" for r using f(4) [of r] ne by (auto simp: agent_is_def)
  moreover have "map_of (sv_subscriptions s3 sid) keep = map_of (sv_subscriptions s sid) keep"
    using ne by (simp add: e sub d1 registry_remove_def delete_conv')
  ultimately show ?thesis unfolding superseded_def using f(1,2,3,5)
    by (intro conjI exI [of _ f]) (simp_all add: e d1 agent_is_def)
qed

lemma wrap_f_Inr: "wrap_f p m s = Some (Inr x, s') \<longleftrightarrow> m s = Some (Inr x, s')"
  by (auto simp: wrap_f_def try_f_def fail_f_def ret_f_def split: option.splits prod.splits sum.splits)

lemma supersede_each_effect:
  "supersede_each cf n sid keep os s = Some (Inr u, s') \<Longrightarrow>
     superseded sid (ai_AgentID keep) (ai_AgentID ` set os - {ai_AgentID keep}) s s'"
proof (induction os arbitrary: s)
  case Nil
  then show ?case by (simp add: ret_f_def superseded_refl)
next
  case (Cons other os)
  show ?case
  proof (cases "ai_AgentID other = ai_AgentID keep")
    case True
    then show ?thesis using Cons by (simp add: insert_Diff_if)
  next
    case False
    let ?s = "s\<lparr>sv_subscriptions := registry_remove sid (ai_AgentID other) (sv_subscriptions s)\<rparr>"
    let ?stop = "stoppedEvent sid \<lparr>ap_AgentID = ai_AgentID other, ap_LastAssistantMessage = [], ap_AgentTranscriptPath = []\<rparr>"
    from Cons.prems False obtain d s1 c s2 s3 where
      1: "Direct cf n sid (ai_AgentID other) OriginSupersede supersededDirective ?s = Some (Inr d, s1)"
        "on_store (on_db_now (\<lambda>flt now. CloseAgent flt sid (ai_AgentID other) now)) s1 = Some (Inr c, s2)"
      and 3: "(if c then wrap_f (''supersede '' @ sid @ ''/'' @ ai_AgentID other) (recordAgentStopped cf n sid (ai_AgentID other) ?stop)
             else ret_f ()) s2 = Some (Inr (), s3)"
      and 4: "supersede_each cf n sid keep os s3 = Some (Inr u, s')"
      by (simp add: bind_f_pure) (elim bind_f_SomeE, simp add: wrap_f_Inr)
    have "agents (en_db (sv_eng s3)) = agents (en_db (sv_eng s2))" "sv_subscriptions s3 = sv_subscriptions s2"
      using 3 framedD(2,3) [OF frame_recordAgentStopped, of cf n sid "ai_AgentID other" ?stop s2]
      by (cases c; simp add: wrap_f_Inr; simp add: ret_f_def)+
    from superseded_trans [OF supersede_one [OF False 1 this] Cons.IH [OF 4]] False show ?thesis
      by (simp add: insert_Diff_if)
  qed
qed

lemma RegisterAgent_row:
  assumes "RegisterAgent flt info d = (Inr c, d')"
  shows "\<exists>r \<in> set (agents d'). agent_is (ai_SubjectID info) (ai_AgentID info) r"
    "\<And>r. r \<in> set (agents d') \<Longrightarrow> agent_is (ai_SubjectID info) (ai_AgentID info) r \<Longrightarrow>
       ag_status r = ai_Status info \<and> ag_type r = ai_AgentType info"
proof -
  let ?here = "agent_is (ai_SubjectID info) (ai_AgentID info)"
  let ?f = "\<lambda>r. if ?here r then refreshed_row info r else r"
  have cases: "(list_ex ?here (agents d) \<and> agents d' = map ?f (agents d)) \<or> (\<not> list_ex ?here (agents d) \<and> agents d' = agents d @ [new_agent_row info])"
    using assms by (cases flt) (auto simp: RegisterAgent_def Let_def split: if_splits)
  have f: "?here (?f q) = ?here q" "?here q \<Longrightarrow> ag_status (?f q) = ai_Status info \<and> ag_type (?f q) = ai_AgentType info" for q
    by (auto simp: agent_is_def)
  from cases show "\<exists>r \<in> set (agents d'). ?here r"
  proof
    assume a: "list_ex ?here (agents d) \<and> agents d' = map ?f (agents d)"
    then obtain q where "q \<in> set (agents d)" "?here q" by (auto simp: list_ex_iff)
    then have "?here (?f q)" using f(1) [of q] by blast
    moreover have "?f q \<in> ?f ` set (agents d)" using \<open>q \<in> set (agents d)\<close> by (rule imageI)
    moreover have "set (agents d') = ?f ` set (agents d)" using a by (simp del: if_image_distrib)
    ultimately show ?thesis by blast
  qed (simp add: agent_is_def)
  show "ag_status r = ai_Status info \<and> ag_type r = ai_AgentType info" if r: "r \<in> set (agents d')" "?here r" for r
    using cases
  proof
    assume "list_ex ?here (agents d) \<and> agents d' = map ?f (agents d)"
    then have "r \<in> ?f ` set (agents d)" using r(1) by (simp del: if_image_distrib)
    then obtain q where q: "r = ?f q" by (rule imageE) blast
    then show ?thesis using f [of q] r(2) by simp
  qed (use r in \<open>auto simp: list_ex_iff\<close>)
qed

text \<open>
  A singleton configuration leaves one handler. After a successful registration of a
  running agent with a non-empty subscription, on a daemon configured for singleton
  subscribers: the registered agent is in the table and running with its type, no other
  agent of that type on that subject is running, and the registry holds its subscription.
\<close>

theorem singleton_subscriber:
  assumes "registerAndSupersede cf n sub info s = Some (Inr created, s')" and "ai_Status info = StatusRunning"
    and "cf_singletonSubscriber cf" and "cf_subscribe cf = Some subscribe" and "subscribe sub info \<noteq> []"
  shows "(\<exists>r \<in> set (agents (en_db (sv_eng s'))). agent_is (ai_SubjectID info) (ai_AgentID info) r \<and> ag_status r = StatusRunning
        \<and> ag_type r = ai_AgentType info)
    \<and> (\<forall>r \<in> set (agents (en_db (sv_eng s'))). ag_subject r = ai_SubjectID info \<and> ag_type r = ai_AgentType info \<and>
        ag_status r = StatusRunning \<longrightarrow> ag_agent r = ai_AgentID info)
    \<and> map_of (sv_subscriptions s' (ai_SubjectID info)) (ai_AgentID info) = Some (subscribe sub info)"
proof -
  let ?sid = "ai_SubjectID info" and ?aid = "ai_AgentID info" and ?types = "subscribe sub info"
  obtain c1 s1 x s2 others s3 where
    reg: "on_store (on_db (\<lambda>flt. RegisterAgent flt info)) s = Some (Inr c1, s1)"
    and app: "Append cf n (startedEvent info) s1 = Some (Inr x, s2)"
    and list: "on_store (on_db (\<lambda>flt. ListRunningAgentsByType flt ?sid (ai_AgentType info)))
        (s2\<lparr>sv_subscriptions := registry_set ?sid ?aid ?types (sv_subscriptions s2)\<rparr>) = Some (Inr others, s3)"
    and each: "supersede_each cf n ?sid info others s3 = Some (Inr (), s')"
    using assms(1,3-5) unfolding registerAndSupersede_def supersedeSubscribers_def
    by (elim bind_f_SomeE) (auto simp: Let_def bind_f_pure wrap_f_Inr ret_f_def elim!: bind_f_SomeE)
  obtain flt where row: "RegisterAgent flt info (en_db (sv_eng s)) = (Inr c1, en_db (sv_eng s1))" using on_store_SomeE [OF reg] by blast
  have a3: "agents (en_db (sv_eng s3)) = agents (en_db (sv_eng s1))"
    using framedD(2) [OF frame_reads(3) list] framedD(2) [OF frame_Append app] by simp
  have r3: "map_of (sv_subscriptions s3 ?sid) ?aid = Some ?types"
    using framedD(3) [OF frame_reads(3) list] assms(5) by (simp add: registry_set_def update_conv')
  obtain flt' where "ListRunningAgentsByType flt' ?sid (ai_AgentType info) (en_db (sv_eng s2)) = (Inr others, en_db (sv_eng s3))"
    using on_store_SomeE [OF list] by auto
  then have others: "ai_AgentID ` set others = ag_agent ` {r \<in> set (agents (en_db (sv_eng s3))). ag_subject r = ?sid \<and>
      ag_type r = ai_AgentType info \<and> ag_status r = StatusRunning}"
    by (cases flt') (auto simp: ListRunningAgentsByType_def scanAgent_def image_image)
  from supersede_each_effect [OF each] obtain f where f: "agents (en_db (sv_eng s')) = map f (agents (en_db (sv_eng s3)))"
    "\<And>r. ag_subject (f r) = ag_subject r \<and> ag_agent (f r) = ag_agent r \<and> ag_type (f r) = ag_type r"
    "\<And>r. ag_status (f r) = ag_status r \<or> ag_status (f r) = StatusDone" "\<And>r. ag_agent r = ?aid \<Longrightarrow> f r = r"
    "\<And>r. ag_subject r = ?sid \<and> ag_agent r \<in> ai_AgentID ` set others - {?aid} \<Longrightarrow> ag_status (f r) = StatusDone"
    "map_of (sv_subscriptions s' ?sid) ?aid = map_of (sv_subscriptions s3 ?sid) ?aid" by (auto simp: superseded_def)
  have run: "StatusRunning \<noteq> StatusDone" by (simp add: StatusRunning_def StatusDone_def)
  obtain r0 where r0: "r0 \<in> set (agents (en_db (sv_eng s1)))" "agent_is ?sid ?aid r0" using RegisterAgent_row(1) [OF row] by blast
  then have "f r0 = r0" "r0 \<in> set (agents (en_db (sv_eng s3)))" using f(4) a3 by (auto simp: agent_is_def)
  then have "r0 \<in> set (agents (en_db (sv_eng s')))" using f(1) by force
  then have "\<exists>r \<in> set (agents (en_db (sv_eng s'))). agent_is ?sid ?aid r \<and> ag_status r = StatusRunning \<and> ag_type r = ai_AgentType info"
    using r0(2) RegisterAgent_row(2) [OF row r0] assms(2) by auto
  moreover have "ag_agent r = ?aid" if "r \<in> set (agents (en_db (sv_eng s')))" "ag_subject r = ?sid" "ag_type r = ai_AgentType info"
      "ag_status r = StatusRunning" for r
  proof -
    note mem = that(1)
    obtain q where q: "q \<in> set (agents (en_db (sv_eng s3)))" "r = f q" using mem f(1) by auto
    then have "ag_agent q \<in> ai_AgentID ` set others" using that(2-4) f(2,3) [of q] run unfolding others by auto
    then show ?thesis using f(2,5) [of q] q(2) that(2,4) run by auto
  qed
  ultimately show ?thesis using r3 f(6) by simp
qed

definition sample_info :: "string \<Rightarrow> Info" where
  "sample_info aid = \<lparr>ai_SubjectID = ''s1'', ai_AgentID = aid, ai_ParentAgentID = [], ai_AgentType = ''t'', ai_SessionID = [],
     ai_TranscriptPath = [], ai_Status = StatusRunning, ai_StartedAt = 0, ai_EndedAt = None\<rparr>"

definition sample_idle :: Server where
  "sample_idle = sample_server\<lparr>sv_eng := (sv_eng sample_server)\<lparr>en_db := (en_db (sv_eng sample_server))\<lparr>agents := []\<rparr>\<rparr>\<rparr>"

lemma sample_singleton_run:
  "map_option fst (registerAndSupersede (sample_config\<lparr>cf_singletonSubscriber := True\<rparr>) 1
     (scanSubject (sample_subject ''s1'' ''sess'' 7 5)) (sample_info ''a2'') sample_idle) = Some (Inr True)"
  by code_simp

theorem singleton_subscriber_witness:
  "\<exists>s'. registerAndSupersede (sample_config\<lparr>cf_singletonSubscriber := True\<rparr>) 1 (scanSubject (sample_subject ''s1'' ''sess'' 7 5))
      (sample_info ''a2'') sample_idle = Some (Inr True, s') \<and>
    map_of (sv_subscriptions s' ''s1'') ''a2'' = Some [''note'']"
proof -
  define sub where "sub = scanSubject (sample_subject ''s1'' ''sess'' 7 5)"
  obtain s' where r: "registerAndSupersede (sample_config\<lparr>cf_singletonSubscriber := True\<rparr>) 1 sub (sample_info ''a2'') sample_idle
      = Some (Inr True, s')" using sample_singleton_run unfolding sub_def by auto
  from singleton_subscriber [OF this, of "\<lambda>_ _. [''note'']"] have "map_of (sv_subscriptions s' ''s1'') ''a2'' = Some [''note'']"
    by (simp add: sample_info_def sample_config_def)
  with r show ?thesis unfolding sub_def by blast
qed

section \<open>The timeout of an await\<close>

lemma seconds64_exact: "0 < n \<Longrightarrow> n * second < 2 ^ 63 \<Longrightarrow> seconds64 n = n * second"
  unfolding seconds64_def sint_sbintrunc' by (rule signed_take_bit_int_eq_self) (simp_all add: second_def)

text \<open>
  The await timeout is the caller's, clamped, for every sensible value. It never exceeds
  five minutes; an empty or unreadable value means thirty seconds; a positive duration is
  clamped to five minutes; and a plain count of seconds below \<open>2^63\<close> nanoseconds is
  read as that many seconds, clamped, so that in all these cases the timeout is positive.
\<close>

theorem await_timeout_clamped:
  "parseAwaitTimeout parse v \<le> maxAwaitTimeout
    \<and> (v = [] \<or> parse v = None \<and> parseInt 64 v = None \<longrightarrow> parseAwaitTimeout parse v = defaultAwaitTimeout)
    \<and> (\<forall>d. v \<noteq> [] \<and> parse v = Some d \<and> 0 < d \<longrightarrow> parseAwaitTimeout parse v = min d maxAwaitTimeout)
    \<and> (\<forall>n. v \<noteq> [] \<and> parse v = None \<and> parseInt 64 v = Some n \<and> 0 < n \<and> n * second < 2 ^ 63 \<longrightarrow>
        parseAwaitTimeout parse v = min (n * second) maxAwaitTimeout \<and> 0 < parseAwaitTimeout parse v)"
proof -
  have "defaultAwaitTimeout \<le> maxAwaitTimeout" by (simp add: defaultAwaitTimeout_def maxAwaitTimeout_def second_def)
  then have "parseAwaitTimeout parse v \<le> maxAwaitTimeout" by (auto simp: parseAwaitTimeout_def split: option.split)
  moreover have "0 < min (n * second) maxAwaitTimeout" if "0 < n" for n :: int using that by (simp add: maxAwaitTimeout_def second_def)
  ultimately show ?thesis using seconds64_exact by (auto simp: parseAwaitTimeout_def split: option.split)
qed

theorem await_timeout_clamped_witness:
  "parseAwaitTimeout (\<lambda>_. None) ''45'' = 45 * second \<and> parseAwaitTimeout (\<lambda>_. None) ''abc'' = defaultAwaitTimeout"
proof -
  have a: "parseInt 64 ''45'' = Some 45" "parseInt 64 ''abc'' = None" by code_simp+
  have "parseAwaitTimeout (\<lambda>_. None) ''45'' = min (45 * second) maxAwaitTimeout"
    using await_timeout_clamped [of "\<lambda>_. None" "''45''"] a(1) by (simp add: second_def)
  moreover have "parseAwaitTimeout (\<lambda>_. None) ''abc'' = defaultAwaitTimeout"
    using await_timeout_clamped [of "\<lambda>_. None" "''abc''"] a(2) by simp
  ultimately show ?thesis by (simp add: maxAwaitTimeout_def second_def)
qed

text \<open>
  A huge count of seconds is not clamped. When \<open>time.ParseDuration\<close> rejects the unit-less
  \<open>9223372037\<close>, multiplying it by a second wraps around and the timeout is negative: the
  long-poll ends at once instead of waiting five minutes.
\<close>

theorem await_timeout_wraps:
  assumes "parse ''9223372037'' = None"
  shows "parseAwaitTimeout parse ''9223372037'' < 0"
proof -
  have "parseInt 64 ''9223372037'' = Some 9223372037"
    by (simp add: parseInt_def all_digits_def undigits_def digit_value_def of_char_def)
  moreover have "seconds64 9223372037 < 0" by (simp add: seconds64_def second_def)
  ultimately show ?thesis using assms by (simp add: parseAwaitTimeout_def)
qed

theorem await_timeout_wraps_witness: "parseAwaitTimeout (\<lambda>_. None) ''9223372037'' < 0"
  by (rule await_timeout_wraps) simp

end
