(* ===== verification/Await_Tool.thy ===== *)
theory Await_Tool
  imports Channel_Server Daemon_Agents
begin

text \<open>
  The await tool of the channel (\<open>channel/await.go\<close>): a child long-polls the daemon in chunks for
  the directives of its mailbox. The clock and the answers of the daemon are inputs, one record
  per pass of the loop; times are nanoseconds. The theorem bounds the number of polls and their
  timeouts and says what the tool returns.
\<close>

section \<open>One poll\<close>

definition awaitChunk :: int where
  "awaitChunk = 25 * second"

definition maxAwaitSeconds :: int where
  "maxAwaitSeconds = 86400"

text \<open>The em dash of the messages, in UTF-8.\<close>

definition em_dash :: string where
  "em_dash = [CHR 0xE2, CHR 0x80, CHR 0x94]"

definition awaitHeader :: string where
  "awaitHeader = ''Steering channel '' @ em_dash @ '' directives addressed to you:''"

definition awaitNoDirective :: string where
  "awaitNoDirective = ''no directive '' @ em_dash @ '' re-park with await or continue''"

definition awaitProgress :: string where
  "awaitProgress = ''await: no directive yet '' @ em_dash @ '' still watching the steering channel''"

datatype await_answer =
    BuildFailed go_error
  | SendFailed go_error
  | Status int string "Directive list result"

text \<open>
  The answer of the daemon is its status, its body, and what decoding the body as directives
  gives.
\<close>

definition awaitPoll :: "await_answer \<Rightarrow> Directive list result" where
  "awaitPoll a =
     (case a of
        BuildFailed e \<Rightarrow> Inl (ErrWrap ''build await request'' e)
      | SendFailed e \<Rightarrow> Inl (ErrWrap ''await request'' e)
      | Status status body decoded \<Rightarrow>
          if status = 200 then (case decoded of Inl e \<Rightarrow> Inl (ErrWrap ''decode await directives'' e) | Inr ds \<Rightarrow> Inr ds)
          else if status = 204 then Inr []
          else Inl (ErrText (''await status '' @ itoa status @ '': '' @ TrimSpace body)))"

definition formatDirectives :: "Directive list \<Rightarrow> string" where
  "formatDirectives ds = awaitHeader @
     concat (map (\<lambda>d. [CHR 0x0A, CHR 0x0A] @ ''['' @ d_Origin d @ '' #'' @ itoa (d_ID d) @ ''] '' @ d_Text d) ds)"

section \<open>The tool\<close>

record await_round =
  ar_ctx :: "go_error option"
  ar_now :: int
  ar_answer :: "int \<Rightarrow> await_answer"
  ar_after :: int

record AwaitSpec =
  aw_Resolve :: "(string \<times> int) result"
  aw_Timeout :: int

record await_args =
  aa_AgentID :: string
  aa_TimeoutSeconds :: int

text \<open>
  The result, if the passes given end the loop, with the timeouts polled and the progress
  notices given.
\<close>

type_synonym await_outcome = "(string \<times> bool) option \<times> int list \<times> string list"

fun await_loop :: "(go_error \<Rightarrow> string) \<Rightarrow> int \<Rightarrow> await_round list \<Rightarrow> await_outcome" where
  "await_loop says deadline [] = (None, [], [])"
| "await_loop says deadline (r # rs) =
     (case ar_ctx r of
        Some e \<Rightarrow> (Some (''await: '' @ says e, True), [], [])
      | None \<Rightarrow>
          let remaining = deadline - ar_now r
          in if remaining \<le> 0 then (Some (awaitNoDirective, False), [], [])
             else
               let timeout = min remaining awaitChunk
               in case awaitPoll (ar_answer r timeout) of
                    Inl e \<Rightarrow> (Some (''await: '' @ says e, True), [timeout], [])
                  | Inr ds \<Rightarrow>
                      if ds \<noteq> [] then (Some (formatDirectives ds, False), [timeout], [])
                      else case await_loop says deadline rs of
                             (res, ts, ps) \<Rightarrow> (res, timeout # ts, if deadline - ar_after r > 0 then awaitProgress # ps else ps))"

definition await_total :: "int \<Rightarrow> int \<Rightarrow> int" where
  "await_total dflt secs =
     (let s = (if secs > maxAwaitSeconds then maxAwaitSeconds else secs)
      in if s > 0 then s * second else dflt)"

definition await_schema :: string where
  "await_schema = json_map [(''properties'', json_map
     [(''agent_id'', json_map [(''description'', json_string ''Your agent id, as named in the greeting directive.''),
         (''type'', json_string ''string'')]),
      (''timeout_seconds'', json_map [(''description'', json_string (''Total seconds to wait before returning a no-directive notice. '' @
         ''Defaults to the channel'' @ [CHR 0x27] @ ''s long-poll window.'')), (''type'', json_string ''integer'')])]),
     (''required'', json_array [json_string ''agent_id'']), (''type'', json_string ''object'')]"

definition NewAwaitTool :: Tool where
  "NewAwaitTool = \<lparr>tl_Name = ''await'',
     tl_Description = ''Long-poll the steering channel for directives addressed to you. Blocks until a directive '' @
       ''arrives or the poll window elapses, then returns any pending directives as text or a notice to re-park. '' @
       ''Pass your own agent_id, as named in the greeting directive.'',
     tl_InputSchema = Inr await_schema, tl_Meta = None\<rparr>"

definition await_handler :: "(string \<Rightarrow> await_args result) \<Rightarrow> (go_error \<Rightarrow> string) \<Rightarrow> AwaitSpec \<Rightarrow> string \<Rightarrow> int \<Rightarrow> await_round list
    \<Rightarrow> await_outcome" where
  "await_handler decode says spec args start rs =
     (case decode args of
        Inl e \<Rightarrow> (Some (''await: bad arguments: '' @ says e, True), [], [])
      | Inr inp \<Rightarrow>
          if aa_AgentID inp = [] then (Some (''await: agent_id is required'', True), [], [])
          else case aw_Resolve spec of
                 Inl e \<Rightarrow> (Some (''await: resolve subject: '' @ says e, True), [], [])
               | Inr _ \<Rightarrow> await_loop says (start + await_total (aw_Timeout spec) (aa_TimeoutSeconds inp)) rs)"

section \<open>The bound\<close>

text \<open>
  The clock does not go back: a pass reads it at its beginning and after its poll. A poll may be
  answered without directives before its time is up: the daemon answers an await that a newer
  await of the agent displaced at once, with an empty list. Such a pass is \<open>early\<close>.
\<close>

fun clocked :: "int \<Rightarrow> await_round list \<Rightarrow> bool" where
  "clocked t [] = True"
| "clocked t (r # rs) \<longleftrightarrow> t \<le> ar_now r \<and> ar_now r \<le> ar_after r \<and> clocked (ar_after r) rs"

definition early :: "int \<Rightarrow> await_round \<Rightarrow> bool" where
  "early deadline r \<longleftrightarrow> ar_after r < ar_now r + min (deadline - ar_now r) awaitChunk"

lemma awaitChunk_pos: "0 < awaitChunk" "awaitChunk \<le> maxAwaitTimeout"
  by (simp_all add: awaitChunk_def maxAwaitTimeout_def second_def)

lemma await_loop_polls:
  assumes "await_loop says deadline rs = (res, ts, ps)"
  shows "length ts \<le> length rs \<and> (res = None \<longrightarrow> length ts = length rs) \<and> set ps \<subseteq> {awaitProgress} \<and>
    (\<forall>i < length ts. ar_now (rs ! i) < deadline \<and> ts ! i = min (deadline - ar_now (rs ! i)) awaitChunk) \<and>
    (\<forall>t. res = Some (t, False) \<longrightarrow>
       (t = awaitNoDirective \<and> length ts < length rs \<and> deadline \<le> ar_now (rs ! length ts)) \<or>
       (\<exists>ds. ts \<noteq> [] \<and> awaitPoll (ar_answer (rs ! (length ts - 1)) (last ts)) = Inr ds \<and> ds \<noteq> [] \<and> t = formatDirectives ds))"
  using assms
proof (induction rs arbitrary: res ts ps)
  case (Cons r rs)
  show ?case
  proof (cases "ar_ctx r = None \<and> ar_now r < deadline \<and> awaitPoll (ar_answer r (min (deadline - ar_now r) awaitChunk)) = Inr []")
    case False
    then show ?thesis using Cons.prems by (auto simp: Let_def split: option.splits if_splits sum.splits prod.splits)
  next
    case True
    obtain res' ts' ps' where rest: "await_loop says deadline rs = (res', ts', ps')" by (metis prod_cases3)
    have run: "res = res'" "ts = min (deadline - ar_now r) awaitChunk # ts'" "set ps \<subseteq> insert awaitProgress (set ps')"
      using Cons.prems True rest by (auto simp: Let_def split: if_splits)
    note ih = Cons.IH [OF rest]
    have "ar_now ((r # rs) ! i) < deadline \<and> ts ! i = min (deadline - ar_now ((r # rs) ! i)) awaitChunk" if "i < length ts" for i
      using that ih True by (cases i) (auto simp: run)
    moreover have "(r # rs) ! (length ts - 1) = rs ! (length ts' - 1) \<and> last ts = last ts'" if "ts' \<noteq> []"
      using that by (cases ts') (auto simp: run)
    ultimately show ?thesis using ih run(3) unfolding run(1) by (auto simp: run(2))
  qed
qed simp

lemma await_loop_count:
  assumes "await_loop says deadline rs = (res, ts, ps)" and "clocked t rs" and "deadline - t \<le> int n * awaitChunk"
  shows "length ts \<le> n + length (filter (early deadline) (take (length ts) rs))"
  using assms
proof (induction rs arbitrary: res ts ps t n)
  case (Cons r rs)
  show ?case
  proof (cases "ar_ctx r = None \<and> ar_now r < deadline")
    case False
    then show ?thesis using Cons.prems(1) by (auto split: option.splits)
  next
    case True
    have left: "deadline - ar_now r \<le> int n * awaitChunk" using Cons.prems(2,3) by simp
    then have "0 < int n * awaitChunk" using True by linarith
    then obtain m where n: "n = Suc m" using awaitChunk_pos(1) by (cases n) auto
    obtain res' ts' ps' where rest: "await_loop says deadline rs = (res', ts', ps')" by (metis prod_cases3)
    have "(\<exists>x. ts = [x]) \<or> (\<exists>x. ts = x # ts')"
      using Cons.prems(1) True rest by (auto simp: Let_def split: sum.splits if_splits)
    moreover have "length ts' \<le> n + length (filter (early deadline) (take (length ts') rs))"
      using Cons.IH [OF rest, of "ar_after r" n] Cons.prems(2) left by simp
    moreover have "length ts' \<le> m + length (filter (early deadline) (take (length ts') rs))" if "\<not> early deadline r"
    proof (rule Cons.IH [OF rest, of "ar_after r" m])
      have "(0 :: int) \<le> int m * awaitChunk" using awaitChunk_pos(1) by simp
      then show "deadline - ar_after r \<le> int m * awaitChunk" using that left by (simp add: early_def n distrib_right)
    qed (use Cons.prems(2) in simp)
    ultimately show ?thesis by (auto simp: n)
  qed
qed simp

lemma await_total_bound: "await_total dflt secs \<le> max dflt (maxAwaitSeconds * second)"
  by (auto simp: await_total_def maxAwaitSeconds_def second_def Let_def)


definition sample_round :: "int \<Rightarrow> await_round" where
  "sample_round t = \<lparr>ar_ctx = None, ar_now = t, ar_answer = (\<lambda>_. Status 204 [] (Inr [])), ar_after = t + awaitChunk\<rparr>"

text \<open>A poll that is displaced after a second, then two that last.\<close>

definition sample_displaced :: await_round where
  "sample_displaced = \<lparr>ar_ctx = None, ar_now = 0, ar_answer = (\<lambda>_. Status 200 [] (Inr [])), ar_after = second\<rparr>"


text \<open>
  Without a bound on the early answers there is none on the polls: an agent with two awaits under
  way has each of them displace the other, and either is answered at once and asks again.
\<close>

lemma displaced_polls_unbounded:
  assumes "decode args = Inr inp" and "aa_AgentID inp \<noteq> []" and "aw_Resolve spec = Inr r" and "0 < aa_TimeoutSeconds inp"
  shows "\<exists>rs res ts ps. clocked 0 rs \<and> await_handler decode says spec args 0 rs = (res, ts, ps) \<and> length ts = n"
proof -
  let ?r = "\<lparr>ar_ctx = None, ar_now = 0, ar_answer = (\<lambda>_. Status 200 [] (Inr [])), ar_after = 0\<rparr>"
  have "length (fst (snd (await_loop says deadline (replicate n ?r)))) = n" if "0 < deadline" for deadline
    using that by (induction n) (auto simp: Let_def awaitPoll_def split: prod.split)
  moreover have "clocked 0 (replicate n ?r)" by (induction n) simp_all
  moreover have "0 < await_total (aw_Timeout spec) (aa_TimeoutSeconds inp)"
    using assms(4) by (simp add: await_total_def Let_def maxAwaitSeconds_def second_def)
  ultimately show ?thesis using assms(1-3)
    by (intro exI [of _ "replicate n ?r"]) (simp add: await_handler_def, metis fst_conv prod.collapse snd_conv)
qed

end
