(* ===== verification/Channel_Prompts.thy ===== *)
theory Channel_Prompts
  imports Await_Tool
begin

text \<open>
  The texts a channel hands to the model (\<open>channel/instructions.go\<close>, \<open>channel/receiveprotocol.go\<close>):
  the channel's description of itself, the numbered steps of receiving, and the relay step.
\<close>

definition dquote :: string where
  "dquote = [CHR 0x22]"

definition blank_line :: string where
  "blank_line = [CHR 0x0A, CHR 0x0A]"

text \<open>The opening of the tag that the harness renders for a notification of the channel.\<close>

definition channel_tag :: "string \<Rightarrow> string" where
  "channel_tag source = ''<channel source='' @ dquote @ source @ dquote"

record InstructionsSpec =
  in_Desc :: string
  in_Traffic :: string
  in_Source :: string
  in_Guide :: string
  in_SilentOutside :: string

definition Instructions :: "InstructionsSpec \<Rightarrow> string" where
  "Instructions s = ''This MCP server is '' @ in_Desc s @ ''. '' @ in_Traffic s @ '' as '' @ channel_tag (in_Source s) @
     '' type='' @ dquote @ ''...'' @ dquote @ ''> tags whose inner JSON has a '' @ dquote @ ''type'' @ dquote @
     '' field identifying the event.'' @ blank_line @ in_Guide s @ blank_line @
     ''The channel never speaks unsolicited: outside '' @ in_SilentOutside s @ '' it is silent, and silence needs nothing from you.''"

record ReceiveProtocolSpec =
  rc_Watch :: string
  rc_Source :: string
  rc_Ack :: string
  rc_DedupeHint :: string

definition ReceiveProtocol :: "ReceiveProtocolSpec \<Rightarrow> string" where
  "ReceiveProtocol s =
     ''1. Immediately, before doing anything else, arm a persistent Monitor running exactly this command:'' @ blank_line @
     ''    '' @ rc_Watch s @ blank_line @
     ''2. Messages may also arrive as '' @ channel_tag (rc_Source s) @ ''> tags. On the FIRST such tag, run this command exactly once:'' @
     blank_line @ ''    '' @ rc_Ack s @ blank_line @
     ''Then stop the watch Monitor with TaskStop and rely on channel tags from then on.'' @ blank_line @
     ''3. Delivery is at-least-once, and the watch and channel have independent cursors. '' @ rc_DedupeHint s"

definition RelayStep :: "string \<Rightarrow> string" where
  "RelayStep source =
     ''4. When a '' @ channel_tag source @ ''> tag carries an agent.relay event naming an agent_id, SendMessage that agent a wake ONLY: '' @
     ''tell it that it has pending directives '' @ em_dash @ '' they arrive with its next tool call or when it calls the await tool '' @
     em_dash @ '' and identify yourself as the sender. Do NOT include any directive content: the mailbox is the single delivery channel, '' @
     ''and a repeated agent.relay tag for the same agent is safe to re-nudge.''"

end
