(* ===== verification/Paths.thy ===== *)
theory Paths
  imports Prelude
begin

text \<open>
  Lexical paths: \<open>filepath.Clean\<close>, \<open>filepath.Dir\<close> and \<open>filepath.Join\<close> on the components between
  slashes, with the fact that climbing to parents ends, and cc-interact's state layout
  (\<open>internal/statepath/path.go\<close>).
\<close>

section \<open>Clean and Dir\<close>

fun split_slash :: "string \<Rightarrow> string list" where
  "split_slash [] = [[]]"
| "split_slash (c # cs) =
     (if c = CHR ''/'' then [] # split_slash cs
      else case split_slash cs of [] \<Rightarrow> [[c]] | x # xs \<Rightarrow> (c # x) # xs)"

fun join_slash :: "string list \<Rightarrow> string" where
  "join_slash [] = []"
| "join_slash [x] = x"
| "join_slash (x # y # xs) = x @ ''/'' @ join_slash (y # xs)"

text \<open>The components kept so far, the last one first.\<close>

definition clean_step :: "bool \<Rightarrow> string \<Rightarrow> string list \<Rightarrow> string list" where
  "clean_step rooted c st =
     (if c = [] \<or> c = ''.'' then st
      else if c = ''..'' then
        (if st \<noteq> [] \<and> hd st \<noteq> ''..'' then tl st else if rooted then st else c # st)
      else c # st)"

definition Clean :: "string \<Rightarrow> string" where
  "Clean path =
     (let rooted = (take 1 path = ''/''); st = fold (clean_step rooted) (split_slash path) []
      in if rooted then CHR ''/'' # join_slash (rev st)
         else if st = [] then ''.'' else join_slash (rev st))"

definition dir_part :: "string \<Rightarrow> string" where
  "dir_part path = rev (dropWhile (\<lambda>c. c \<noteq> CHR ''/'') (rev path))"

definition Dir :: "string \<Rightarrow> string" where
  "Dir path = Clean (dir_part path)"

text \<open>The length of a list of components, each with one slash.\<close>

definition weight :: "string list \<Rightarrow> nat" where
  "weight cs = sum_list (map (\<lambda>c. length c + 1) cs)"

lemma weight_simps [simp]: "weight [] = 0" "weight (c # cs) = length c + 1 + weight cs"
  "weight (cs @ ds) = weight cs + weight ds" "weight (rev cs) = weight cs"
  by (simp_all add: weight_def rev_map [symmetric] sum_list_rev)

lemma split_slash_nonempty [simp]: "split_slash s \<noteq> []"
  by (induction s) (auto split: list.split)

lemma weight_split: "weight (split_slash s) = length s + 1"
proof (induction s)
  case (Cons c s)
  then show ?case by (cases "split_slash s") auto
qed simp

lemma length_join: "cs \<noteq> [] \<Longrightarrow> length (join_slash cs) + 1 = weight cs"
  by (induction cs rule: join_slash.induct) auto

lemma weight_clean_step: "weight (clean_step rooted c st) \<le> weight st + (if c = [] then 0 else length c + 1)"
  by (cases st) (auto simp: clean_step_def)

lemma weight_clean: "weight (fold (clean_step rooted) cs st) + length (filter (\<lambda>c. c = []) cs) \<le> weight st + weight cs"
proof (induction cs arbitrary: st)
  case (Cons c cs)
  from Cons.IH [of "clean_step rooted c st"] weight_clean_step [of rooted c st] show ?case
    by (auto split: if_splits)
qed simp

lemma split_slash_snoc: "split_slash (s @ ''/'') = split_slash s @ [[]]"
  by (induction s) (auto split: list.split)

lemma Clean_shorter:
  "Clean (s @ ''/'') = ''/'' \<or> Clean (s @ ''/'') = ''.'' \<or> length (Clean (s @ ''/'')) < length (s @ ''/'')"
proof -
  let ?p = "s @ ''/''"
  let ?cs = "split_slash ?p"
  define st where "st = fold (clean_step (take 1 ?p = ''/'')) ?cs []"
  have w: "weight st + length (filter (\<lambda>c. c = []) ?cs) \<le> length s + 2"
    using weight_clean [of "take 1 ?p = ''/''" ?cs "[]"] by (simp add: st_def weight_split)
  have j: "st \<noteq> [] \<Longrightarrow> length (join_slash (rev st)) + 1 = weight st" using length_join [of "rev st"] by simp
  show ?thesis
  proof (cases "st = []")
    case False
    show ?thesis
    proof (cases s)
      case Nil
      then show ?thesis by (simp add: Clean_def clean_step_def)
    next
      case (Cons c t)
      show ?thesis
      proof (cases "c = CHR ''/''")
        case True
        then have "2 \<le> length (filter (\<lambda>c. c = []) ?cs)" unfolding split_slash_snoc by (simp add: Cons)
        then show ?thesis using w j False True unfolding Clean_def Let_def st_def [symmetric] by (simp add: Cons)
      next
        case no: False
        then have "1 \<le> length (filter (\<lambda>c. c = []) ?cs)" unfolding split_slash_snoc by simp
        then show ?thesis using w j False no unfolding Clean_def Let_def st_def [symmetric] by (simp add: Cons)
      qed
    qed
  qed (unfold Clean_def Let_def st_def [symmetric], simp)
qed

lemma dir_part_cases: "dir_part p = [] \<or> (\<exists>s rest. dir_part p = s @ ''/'' \<and> p = s @ ''/'' @ rest)"
proof (cases "dropWhile (\<lambda>c. c \<noteq> CHR ''/'') (rev p)")
  case (Cons c t)
  then have c: "c = CHR ''/''" using hd_dropWhile [of "\<lambda>c. c \<noteq> CHR ''/''" "rev p"] by simp
  define w where "w = takeWhile (\<lambda>c. c \<noteq> CHR ''/'') (rev p)"
  have "rev p = w @ c # t"
    using takeWhile_dropWhile_id [of "\<lambda>c. c \<noteq> CHR ''/''" "rev p"] Cons by (simp add: w_def)
  then have "rev (rev p) = rev (w @ c # t)" by (rule arg_cong)
  then have "p = rev t @ ''/'' @ rev w" by (simp add: c)
  moreover have "dir_part p = rev t @ ''/''" by (simp add: dir_part_def Cons c)
  ultimately show ?thesis by blast
qed (simp add: dir_part_def)

lemma Dir_shorter: "Dir p = ''/'' \<or> Dir p = ''.'' \<or> length (Dir p) < length p"
proof (cases "dir_part p = []")
  case False
  then obtain s rest where d: "dir_part p = s @ ''/''" "p = s @ ''/'' @ rest" using dir_part_cases by blast
  then show ?thesis using Clean_shorter [of s] by (auto simp: Dir_def)
qed (simp add: Dir_def Clean_def clean_step_def)

lemma Dir_fixed: "Dir d = d \<Longrightarrow> d = ''/'' \<or> d = ''.''"
  using Dir_shorter [of d] by auto

lemma Dir_root: "Dir p = ''/'' \<Longrightarrow> p = ''/'' \<or> 1 < length p"
proof -
  assume r: "Dir p = ''/''"
  then have "dir_part p \<noteq> []" by (auto simp: Dir_def Clean_def clean_step_def)
  then obtain s rest where "p = s @ ''/'' @ rest" using dir_part_cases by blast
  then show ?thesis by (cases s; cases rest) auto
qed

definition path_measure :: "string \<Rightarrow> nat" where
  "path_measure d = (if d = ''.'' then 0 else length d + 1)"

lemma Dir_decreases: "Dir d \<noteq> d \<Longrightarrow> path_measure (Dir d) < path_measure d"
proof -
  assume ne: "Dir d \<noteq> d"
  have dot: "Dir ''.'' = ''.''" by (simp add: Dir_def dir_part_def Clean_def clean_step_def)
  then have nd: "d \<noteq> ''.''" using ne by auto
  consider "Dir d = ''/''" | "Dir d = ''.''" | "length (Dir d) < length d" using Dir_shorter by blast
  then show ?thesis
    using nd ne Dir_root [of d] by cases (auto simp: path_measure_def)
qed

section \<open>Join and the state layout\<close>

text \<open>\<open>filepath.Join\<close> drops empty elements.\<close>

definition Join :: "string list \<Rightarrow> string" where
  "Join elems = (let es = filter (\<lambda>e. e \<noteq> []) elems in if es = [] then [] else Clean (join_slash es))"

definition state_namespace :: string where
  "state_namespace = ''cc-interact-v1''"

definition state_Dir :: "string \<Rightarrow> string" where
  "state_Dir stateDir = Join [stateDir, state_namespace]"

definition state_DB :: "string \<Rightarrow> string" where
  "state_DB stateDir = Join [state_Dir stateDir, ''state.db'']"

definition SubjectDir :: "string \<Rightarrow> string \<Rightarrow> string" where
  "SubjectDir stateDir subjectID = Join [state_Dir stateDir, ''subjects'', subjectID]"

definition Cursor :: "string \<Rightarrow> string \<Rightarrow> string \<Rightarrow> string" where
  "Cursor stateDir subjectID consumer = Join [SubjectDir stateDir subjectID, consumer @ ''.cursor'']"

end
