(* ===== verification/Channel_Setup.thy ===== *)
theory Channel_Setup
  imports Actions Go_Strings Paths Json "HOL-Library.Finite_Map" "HOL-Library.Word"
begin

text \<open>
  Approving a plugin as a channel (\<open>channelsetup/channelsetup.go\<close>, \<open>cmd/setupchannels.go\<close>): merging
  the machine-wide settings, offering the approval once, the script with which macOS writes the
  merged file as an administrator, and the command that records the outcome. The quoting of the
  script is modelled byte for byte; the loop over runes in \<open>shellQuote\<close> is a loop over bytes
  here, since all safe characters are ASCII and every byte of another rune is unsafe too.
  \<open>json.Unmarshal\<close> and \<open>json.MarshalIndent\<close> are parameters. The state of an action is the
  list of the calls made to the machine, whose answers are a function of that history.
\<close>

section \<open>Settings\<close>

text \<open>
  A value decoded into \<open>any\<close>. A number is the bit pattern of its \<open>float64\<close>, an object a Go map.
\<close>

datatype json_any =
    JsonNull
  | JsonBool bool
  | JsonNumber "64 word"
  | JsonString string
  | JsonArray "json_any list"
  | JsonObject "(string, json_any) fmap"

type_synonym settings = "(string, json_any) fmap"

text \<open>
  \<open>jc_decode\<close> is \<open>json.Unmarshal\<close> into a map: \<open>Inr None\<close> for the literal \<open>null\<close>, an error for
  every other value that is not an object. \<open>jc_render\<close> is \<open>json.MarshalIndent\<close>.
\<close>

record json_codec =
  jc_decode :: "string \<Rightarrow> settings option result"
  jc_render :: "settings \<Rightarrow> string result"

record Plugin =
  pl_Marketplace :: string
  pl_Name :: string

definition ChannelID :: "Plugin \<Rightarrow> string" where
  "ChannelID p = ''plugin:'' @ pl_Name p @ ''@'' @ pl_Marketplace p"

definition Source :: "Plugin \<Rightarrow> string \<Rightarrow> string" where
  "Source p server = ''plugin:'' @ pl_Name p @ '':'' @ server"

definition ManagedSettingsPath :: "string \<Rightarrow> string result" where
  "ManagedSettingsPath goos =
     (if goos = ''darwin'' then Inr ''/Library/Application Support/ClaudeCode/managed-settings.json''
      else if goos = ''linux'' then Inr ''/etc/claude-code/managed-settings.json''
      else Inl (ErrFormat ''managed settings are unsupported on %s'' [goos]))"

definition decodeObject :: "json_codec \<Rightarrow> string \<Rightarrow> settings result" where
  "decodeObject jc b =
     (if b = [] then Inr fmempty
      else case jc_decode jc b of
             Inl e \<Rightarrow> Inl (ErrWrap ''parse managed settings'' e)
           | Inr None \<Rightarrow> Inl (ErrText ''managed settings: not a JSON object'')
           | Inr (Some m) \<Rightarrow> Inr m)"

definition allowlist :: "settings \<Rightarrow> json_any list result" where
  "allowlist m =
     (case fmlookup m ''allowedChannelPlugins'' of
        None \<Rightarrow> Inr []
      | Some (JsonArray xs) \<Rightarrow> Inr xs
      | Some _ \<Rightarrow> Inl (ErrText ''managed settings: allowedChannelPlugins is not an array''))"

definition plugin_entry :: "Plugin \<Rightarrow> json_any \<Rightarrow> bool" where
  "plugin_entry p entry =
     (case entry of
        JsonObject obj \<Rightarrow> fmlookup obj ''marketplace'' = Some (JsonString (pl_Marketplace p)) \<and>
          fmlookup obj ''plugin'' = Some (JsonString (pl_Name p))
      | _ \<Rightarrow> False)"

definition allowlistHasEntry :: "Plugin \<Rightarrow> json_any list \<Rightarrow> bool" where
  "allowlistHasEntry p xs = list_ex (plugin_entry p) xs"

definition ManagedHasEntry :: "json_codec \<Rightarrow> Plugin \<Rightarrow> string \<Rightarrow> bool result" where
  "ManagedHasEntry jc p existing =
     (case decodeObject jc existing of
        Inl e \<Rightarrow> Inl e
      | Inr m \<Rightarrow>
          (case allowlist m of
             Inl e \<Rightarrow> Inl e
           | Inr xs \<Rightarrow> Inr (fmlookup m ''channelsEnabled'' = Some (JsonBool True) \<and> allowlistHasEntry p xs)))"

definition plugin_object :: "Plugin \<Rightarrow> json_any" where
  "plugin_object p = JsonObject (fmap_of_list
     [(''marketplace'', JsonString (pl_Marketplace p)), (''plugin'', JsonString (pl_Name p))])"

definition merged_settings :: "Plugin \<Rightarrow> json_any list \<Rightarrow> settings \<Rightarrow> settings" where
  "merged_settings p xs m =
     fmupd ''allowedChannelPlugins'' (JsonArray (if allowlistHasEntry p xs then xs else xs @ [plugin_object p]))
       (fmupd ''channelsEnabled'' (JsonBool True) m)"

definition MergeManaged :: "json_codec \<Rightarrow> Plugin \<Rightarrow> string \<Rightarrow> string result" where
  "MergeManaged jc p existing =
     (case decodeObject jc existing of
        Inl e \<Rightarrow> Inl e
      | Inr m \<Rightarrow>
          (case allowlist m of
             Inl e \<Rightarrow> Inl e
           | Inr xs \<Rightarrow>
               (case jc_render jc (merged_settings p xs m) of
                  Inl e \<Rightarrow> Inl (ErrWrap ''encode managed settings'' e)
                | Inr out \<Rightarrow> Inr (out @ [CHR 0x0A]))))"

section \<open>Calls to the machine\<close>

datatype setup_call =
    StatMarker string
  | ReadManaged string
  | MakeTemp string
  | WriteTemp string string
  | CloseTemp string
  | RemoveTemp string
  | Osascript string
  | MakeStateDir
  | WriteMarker string string
  | Print string

text \<open>
  The machine answers each call with a text or an error; \<open>su_output\<close> is the combined output of
  \<open>osascript\<close>, which the caller reads even when the program failed.
\<close>

record setup_host =
  su_answer :: "setup_call list \<Rightarrow> string result"
  su_output :: "setup_call list \<Rightarrow> string"

type_synonym 'a setup_op = "(setup_call list, 'a) op"

definition su_ask :: "setup_host \<Rightarrow> setup_call \<Rightarrow> string setup_op" where
  "su_ask h c w = (su_answer h (w @ [c]), w @ [c])"

definition of_result :: "'a result \<Rightarrow> 'a setup_op" where
  "of_result r w = (r, w)"

definition readFileOrEmpty :: "setup_host \<Rightarrow> string \<Rightarrow> string setup_op" where
  "readFileOrEmpty h path =
     try_op (su_ask h (ReadManaged path)) (\<lambda>r.
       case r of
         Inl e \<Rightarrow> if err_is e ErrNotExist then return_op [] else fail_op (ErrWrap (''read '' @ path) e)
       | Inr b \<Rightarrow> return_op b)"

definition Offer :: "setup_host \<Rightarrow> json_codec \<Rightarrow> Plugin \<Rightarrow> string \<Rightarrow> string \<Rightarrow> (bool \<times> string) setup_op" where
  "Offer h jc p markerPath managedPath =
     try_op (su_ask h (StatMarker markerPath)) (\<lambda>r.
       case r of
         Inr _ \<Rightarrow> return_op (False, ''already offered'')
       | Inl e \<Rightarrow>
           if \<not> err_is e ErrNotExist then fail_op (ErrWrap ''stat channel marker'' e)
           else bind_op (readFileOrEmpty h managedPath) (\<lambda>managed.
             bind_op (of_result (ManagedHasEntry jc p managed)) (\<lambda>approved.
               if approved then return_op (False, ''already approved'')
               else return_op (True, ''channel not yet approved''))))"

section \<open>The administrator's script\<close>

definition shellSafe :: string where
  "shellSafe = ''ABCDEFGHIJKLMNOPQRSTUVWXYZabcdefghijklmnopqrstuvwxyz0123456789@%+=:,./-_''"

definition quote_char :: char where
  "quote_char = CHR 0x27"

definition escape_quote :: "char \<Rightarrow> string" where
  "escape_quote c = (if c = quote_char then [quote_char, CHR 0x5C, quote_char, quote_char] else [c])"

definition shellQuote :: "string \<Rightarrow> string" where
  "shellQuote s =
     (if s = [] then [quote_char, quote_char]
      else if list_all (\<lambda>c. c \<in> set shellSafe) s then s
      else [quote_char] @ concat (map escape_quote s) @ [quote_char])"

definition appleScriptQuote :: "string \<Rightarrow> string" where
  "appleScriptQuote s = concat (map (\<lambda>c. if c = CHR 0x5C \<or> c = CHR 0x22 then [CHR 0x5C, c] else [c]) s)"

definition admin_command :: "string \<Rightarrow> string \<Rightarrow> string" where
  "admin_command dest tmpPath = ''mkdir -p '' @ shellQuote (Dir dest) @ '' && cp '' @ shellQuote tmpPath @ '' '' @ shellQuote dest @
     '' && chmod 644 '' @ shellQuote dest"

definition adminScript :: "string \<Rightarrow> string \<Rightarrow> string" where
  "adminScript dest tmpPath = ''do shell script '' @ [CHR 0x22] @ appleScriptQuote (admin_command dest tmpPath) @ [CHR 0x22] @
     '' with administrator privileges''"

section \<open>Writing the settings\<close>

definition closeTempSettings :: "setup_host \<Rightarrow> string \<Rightarrow> string setup_op" where
  "closeTempSettings h tmpPath = wrap_op ''close temp settings'' (su_ask h (CloseTemp tmpPath))"

text \<open>
  The body of \<open>ApplyManagedViaAdmin\<close> once the file exists: whether the deferred call still has to
  remove the file, and the error.
\<close>

definition admin_write :: "setup_host \<Rightarrow> string \<Rightarrow> string \<Rightarrow> string \<Rightarrow> string \<Rightarrow> setup_call list \<Rightarrow>
    (bool \<times> unit result) \<times> setup_call list" where
  "admin_write h goos dest tmpPath merged w =
     (case su_ask h (WriteTemp tmpPath merged) w of
        (Inl e, w1) \<Rightarrow>
          (case closeTempSettings h tmpPath w1 of
             (Inl e', w2) \<Rightarrow> ((True, Inl (ErrJoin (ErrWrap ''write temp settings'' e) e')), w2)
           | (Inr _, w2) \<Rightarrow> ((True, Inl (ErrWrap ''write temp settings'' e)), w2))
      | (Inr _, w1) \<Rightarrow>
          (case closeTempSettings h tmpPath w1 of
             (Inl e, w2) \<Rightarrow> ((True, Inl e), w2)
           | (Inr _, w2) \<Rightarrow>
               if goos \<noteq> ''darwin'' then
                 ((False, Inl (ErrFormat ''automatic managed-settings write is macOS-only; run: sudo install -d -m 755 %s && sudo install -m 644 %s %s''
                     [shellQuote (Dir dest), shellQuote tmpPath, shellQuote dest])), w2)
               else
                 (case su_ask h (Osascript (adminScript dest tmpPath)) w2 of
                    (Inl e, w3) \<Rightarrow> ((True, Inl (ErrWrap (''admin write of '' @ dest @ '' ('' @ TrimSpace (su_output h w3) @ '')'') e)), w3)
                  | (Inr _, w3) \<Rightarrow> ((True, Inr ()), w3))))"

definition remove_temp :: "setup_host \<Rightarrow> string \<Rightarrow> unit result \<Rightarrow> unit setup_op" where
  "remove_temp h tmpPath r w =
     (case su_ask h (RemoveTemp tmpPath) w of
        (Inr _, w') \<Rightarrow> (r, w')
      | (Inl e, w') \<Rightarrow>
          (case r of
             Inr _ \<Rightarrow> (Inl (ErrWrap ''remove temp settings'' e), w')
           | Inl e0 \<Rightarrow> (Inl (ErrJoin e0 (ErrWrap ''remove temp settings'' e)), w')))"

definition ApplyManagedViaAdmin :: "setup_host \<Rightarrow> string \<Rightarrow> Plugin \<Rightarrow> string \<Rightarrow> unit setup_op" where
  "ApplyManagedViaAdmin h goos p merged =
     bind_op (wrap_op ''resolve managed settings path'' (of_result (ManagedSettingsPath goos))) (\<lambda>dest.
     bind_op (wrap_op ''create temp settings'' (su_ask h (MakeTemp (pl_Name p @ ''-managed-*.json'')))) (\<lambda>tmpPath w.
       case admin_write h goos dest tmpPath merged w of
         ((removeTemp, r), w') \<Rightarrow> if removeTemp then remove_temp h tmpPath r w' else (r, w')))"

section \<open>The command\<close>

text \<open>
  \<open>setup-channels\<close>: the flags are mutually exclusive and \<open>--check\<close> is the default. The paths of
  the state directory come from outside the repository.
\<close>

record setup_deps =
  sd_goos :: string
  sd_marker :: string
  sd_Version :: string

definition channelSetupState :: "string \<Rightarrow> string \<Rightarrow> string" where
  "channelSetupState status version = json_object [(''status'', JString status), (''version'', JString version)]"

definition writeChannelMarker :: "setup_host \<Rightarrow> setup_deps \<Rightarrow> string \<Rightarrow> unit setup_op" where
  "writeChannelMarker h d status =
     bind_op (wrap_op ''create app state dir'' (su_ask h MakeStateDir)) (\<lambda>_.
     bind_op (wrap_op ''write channel marker''
         (su_ask h (WriteMarker (sd_marker d) (channelSetupState status (sd_Version d))))) (\<lambda>_.
     return_op ()))"

definition offer_reply :: "bool \<Rightarrow> string \<Rightarrow> string" where
  "offer_reply offer reason = ''{'' @ json_string ''offer'' @ '':'' @ (if offer then ''true'' else ''false'') @ '','' @
     json_string ''reason'' @ '':'' @ json_string reason @ ''}'' @ [CHR 0x0A]"

definition runChannelsCheck :: "setup_host \<Rightarrow> json_codec \<Rightarrow> setup_deps \<Rightarrow> Plugin \<Rightarrow> unit setup_op" where
  "runChannelsCheck h jc d p =
     bind_op (of_result (ManagedSettingsPath (sd_goos d))) (\<lambda>managedPath.
     bind_op (Offer h jc p (sd_marker d) managedPath) (\<lambda>(offer, reason).
     bind_op (wrap_op ''write channel offer'' (su_ask h (Print (offer_reply offer reason)))) (\<lambda>_. return_op ())))"

definition runChannelsApply :: "setup_host \<Rightarrow> json_codec \<Rightarrow> setup_deps \<Rightarrow> Plugin \<Rightarrow> string \<Rightarrow> unit setup_op" where
  "runChannelsApply h jc d p applyHint =
     bind_op (of_result (ManagedSettingsPath (sd_goos d))) (\<lambda>managedPath.
     bind_op (readFileOrEmpty h managedPath) (\<lambda>managed.
     bind_op (of_result (MergeManaged jc p managed)) (\<lambda>merged.
     bind_op (ApplyManagedViaAdmin h (sd_goos d) p merged) (\<lambda>_.
     bind_op (writeChannelMarker h d ''done'') (\<lambda>_.
     bind_op (wrap_op ''write channel setup hint'' (su_ask h (Print (applyHint @ [CHR 0x0A])))) (\<lambda>_.
     return_op ()))))))"

datatype setup_mode = CheckMode | ApplyMode | DeclineMode

definition SetupChannelsCmd :: "setup_host \<Rightarrow> json_codec \<Rightarrow> setup_deps \<Rightarrow> Plugin \<Rightarrow> string \<Rightarrow> setup_mode \<Rightarrow> unit setup_op" where
  "SetupChannelsCmd h jc d p applyHint mode =
     (case mode of
        ApplyMode \<Rightarrow> runChannelsApply h jc d p applyHint
      | DeclineMode \<Rightarrow> writeChannelMarker h d ''declined''
      | CheckMode \<Rightarrow> runChannelsCheck h jc d p)"

section \<open>The script says what it should\<close>

text \<open>
  Reference readers: the words and operators of a shell command line, and a string literal of
  AppleScript. The shell reader refuses every unquoted character that a shell could give a
  meaning of its own.
\<close>

datatype sh_token = Word string | AndIf

datatype sh_mode = Between | InWord string | InQuote string | Escaped string | Ampersand

fun sh_tokens :: "sh_mode \<Rightarrow> string \<Rightarrow> sh_token list option" where
  "sh_tokens Between [] = Some []"
| "sh_tokens (InWord w) [] = Some [Word w]"
| "sh_tokens _ [] = None"
| "sh_tokens (InQuote w) (c # cs) = (if c = quote_char then sh_tokens (InWord w) cs else sh_tokens (InQuote (w @ [c])) cs)"
| "sh_tokens (Escaped w) (c # cs) = sh_tokens (InWord (w @ [c])) cs"
| "sh_tokens Ampersand (c # cs) = (if c = CHR ''&'' then map_option (Cons AndIf) (sh_tokens Between cs) else None)"
| "sh_tokens Between (c # cs) =
     (if c = CHR '' '' then sh_tokens Between cs
      else if c = quote_char then sh_tokens (InQuote []) cs
      else if c = CHR 0x5C then sh_tokens (Escaped []) cs
      else if c = CHR ''&'' then sh_tokens Ampersand cs
      else if c \<in> set shellSafe then sh_tokens (InWord [c]) cs
      else None)"
| "sh_tokens (InWord w) (c # cs) =
     (if c = CHR '' '' then map_option (Cons (Word w)) (sh_tokens Between cs)
      else if c = quote_char then sh_tokens (InQuote w) cs
      else if c = CHR 0x5C then sh_tokens (Escaped w) cs
      else if c = CHR ''&'' then map_option (Cons (Word w)) (sh_tokens Ampersand cs)
      else if c \<in> set shellSafe then sh_tokens (InWord (w @ [c])) cs
      else None)"

fun as_literal :: "string \<Rightarrow> (string \<times> string) option" where
  "as_literal [] = None"
| "as_literal (c # cs) =
     (if c = CHR 0x22 then Some ([], cs)
      else if c = CHR 0x5C then
        (case cs of
           [] \<Rightarrow> None
         | d # ds \<Rightarrow> if d = CHR 0x5C \<or> d = CHR 0x22 then map_option (\<lambda>(s, rest). (d # s, rest)) (as_literal ds) else None)
      else map_option (\<lambda>(s, rest). (c # s, rest)) (as_literal cs))"

lemma as_literal_quoted: "as_literal (appleScriptQuote s @ CHR 0x22 # rest) = Some (s, rest)"
  by (induction s) (auto simp: appleScriptQuote_def)

lemma safe_ordinary: "c \<in> set shellSafe \<Longrightarrow> c \<noteq> CHR '' '' \<and> c \<noteq> quote_char \<and> c \<noteq> CHR 0x5C \<and> c \<noteq> CHR ''&''"
proof -
  have "list_all (\<lambda>c. c \<noteq> CHR '' '' \<and> c \<noteq> quote_char \<and> c \<noteq> CHR 0x5C \<and> c \<noteq> CHR ''&'') shellSafe" by code_simp
  then show "c \<in> set shellSafe \<Longrightarrow> c \<noteq> CHR '' '' \<and> c \<noteq> quote_char \<and> c \<noteq> CHR 0x5C \<and> c \<noteq> CHR ''&''"
    unfolding list_all_iff by blast
qed

lemma sh_safe_word: "list_all (\<lambda>c. c \<in> set shellSafe) s \<Longrightarrow> sh_tokens (InWord w) (s @ rest) = sh_tokens (InWord (w @ s)) rest"
  by (induction s arbitrary: w) (use safe_ordinary in auto)

lemma sh_escaped: "sh_tokens (InQuote w) (concat (map escape_quote s) @ quote_char # rest) = sh_tokens (InWord (w @ s)) rest"
  by (induction s arbitrary: w) (auto simp: escape_quote_def quote_char_def)

lemma sh_quoted: "sh_tokens Between (shellQuote s @ rest) = sh_tokens (InWord s) rest"
proof -
  have q: "quote_char \<noteq> CHR '' ''" by (simp add: quote_char_def)
  consider "s = []" | "s \<noteq> []" "list_all (\<lambda>c. c \<in> set shellSafe) s" | "s \<noteq> []" "\<not> list_all (\<lambda>c. c \<in> set shellSafe) s" by blast
  then show ?thesis
  proof cases
    case 2
    then obtain c t where "s = c # t" by (cases s) auto
    with 2 show ?thesis using sh_safe_word [of t "[c]" rest] safe_ordinary [of c] by (simp add: shellQuote_def)
  next
    case 3
    then show ?thesis using sh_escaped [of "[]" s rest] q by (simp add: shellQuote_def)
  qed (simp add: shellQuote_def q)
qed

text \<open>
  C28: The administrator's script cannot be subverted by a path. Whatever bytes the two paths
  contain (quotes, spaces, semicolons, dollar signs, line breaks), AppleScript reads the literal
  as exactly the intended command line, and the shell reads that line as exactly the three
  intended commands with the paths as single arguments.
\<close>

theorem admin_script_exact:
  "as_literal (drop (length (''do shell script '' @ [CHR 0x22])) (adminScript dest tmpPath)) =
     Some (admin_command dest tmpPath, '' with administrator privileges'') \<and>
   sh_tokens Between (admin_command dest tmpPath) =
     Some [Word ''mkdir'', Word ''-p'', Word (Dir dest), AndIf, Word ''cp'', Word tmpPath, Word dest,
       AndIf, Word ''chmod'', Word ''644'', Word dest]"
proof
  show "as_literal (drop (length (''do shell script '' @ [CHR 0x22])) (adminScript dest tmpPath)) =
     Some (admin_command dest tmpPath, '' with administrator privileges'')"
    unfolding adminScript_def using as_literal_quoted [of "admin_command dest tmpPath"] by simp
  have word: "sh_tokens Between (shellQuote s @ CHR '' '' # rest) = map_option (Cons (Word s)) (sh_tokens Between rest)"
    for s rest unfolding sh_quoted by simp
  have safe: "list_all (\<lambda>c. c \<in> set shellSafe) s \<Longrightarrow> s \<noteq> [] \<Longrightarrow> sh_tokens Between (s @ CHR '' '' # rest) =
      map_option (Cons (Word s)) (sh_tokens Between rest)" for s rest
    using word [of s rest] by (simp add: shellQuote_def)
  have final: "sh_tokens Between (shellQuote s) = Some [Word s]" for s using sh_quoted [of s "[]"] by simp
  have plain: "list_all (\<lambda>c. c \<in> set shellSafe) ''mkdir''" "list_all (\<lambda>c. c \<in> set shellSafe) ''-p''"
    "list_all (\<lambda>c. c \<in> set shellSafe) ''cp''" "list_all (\<lambda>c. c \<in> set shellSafe) ''chmod''" "list_all (\<lambda>c. c \<in> set shellSafe) ''644''"
    by code_simp+
  have amp: "sh_tokens Between (CHR ''&'' # CHR ''&'' # CHR '' '' # rest) = map_option (Cons AndIf) (sh_tokens Between rest)" for rest
    by (simp add: quote_char_def)
  have split: "admin_command dest tmpPath = ''mkdir'' @ CHR '' '' # ''-p'' @ CHR '' '' # shellQuote (Dir dest) @ CHR '' '' #
      CHR ''&'' # CHR ''&'' # CHR '' '' # ''cp'' @ CHR '' '' # shellQuote tmpPath @ CHR '' '' # shellQuote dest @ CHR '' '' #
      CHR ''&'' # CHR ''&'' # CHR '' '' # ''chmod'' @ CHR '' '' # ''644'' @ CHR '' '' # shellQuote dest"
    by (simp add: admin_command_def)
  show "sh_tokens Between (admin_command dest tmpPath) =
     Some [Word ''mkdir'', Word ''-p'', Word (Dir dest), AndIf, Word ''cp'', Word tmpPath, Word dest,
       AndIf, Word ''chmod'', Word ''644'', Word dest]"
    unfolding split
    by (simp only: plain [THEN safe, OF list.distinct(2)] word amp final option.map)
qed

section \<open>Merging approves and loses nothing\<close>

fun valid_utf8 :: "string \<Rightarrow> bool" where
  "valid_utf8 [] = True"
| "valid_utf8 (c # cs) = (case rune_size (map byte (c # cs)) of None \<Rightarrow> False | Some n \<Rightarrow> valid_utf8 (drop (n - 1) cs))"

primrec json_text :: "json_any \<Rightarrow> bool" where
  "json_text JsonNull = True"
| "json_text (JsonBool b) = True"
| "json_text (JsonNumber n) = True"
| "json_text (JsonString s) = valid_utf8 s"
| "json_text (JsonArray xs) = list_all (\<lambda>b. b) (map json_text xs)"
| "json_text (JsonObject m) = fmpred (\<lambda>k b. valid_utf8 k \<and> b) (fmmap json_text m)"

text \<open>
  What the settings functions rely on of \<open>encoding/json\<close>: a decoded object has valid text only
  (the decoder replaces invalid bytes), and an object of valid text that renders is read back.
\<close>

definition codec_laws :: "json_codec \<Rightarrow> bool" where
  "codec_laws jc \<longleftrightarrow>
     (\<forall>m out. json_text (JsonObject m) \<and> jc_render jc m = Inr out \<longrightarrow> jc_decode jc (out @ [CHR 0x0A]) = Inr (Some m)) \<and>
     (\<forall>b m. jc_decode jc b = Inr (Some m) \<longrightarrow> json_text (JsonObject m))"

lemma settings_keys_text: "valid_utf8 ''channelsEnabled''" "valid_utf8 ''allowedChannelPlugins''"
  "valid_utf8 ''marketplace''" "valid_utf8 ''plugin''"
  by code_simp+

declare valid_utf8.simps(2) [simp del]

lemma json_text_object: "json_text (JsonObject m) \<longleftrightarrow> (\<forall>k v. fmlookup m k = Some v \<longrightarrow> valid_utf8 k \<and> json_text v)"
  by (auto simp: fmpred_iff)

declare json_text.simps(6) [simp del]

lemma json_text_empty [simp]: "json_text (JsonObject fmempty)"
  by (simp add: json_text_object)

lemma json_text_upd: "json_text (JsonObject m) \<Longrightarrow> valid_utf8 k \<Longrightarrow> json_text v \<Longrightarrow> json_text (JsonObject (fmupd k v m))"
  by (simp add: json_text_object)

lemma allowlist_text: "json_text (JsonObject m) \<Longrightarrow> allowlist m = Inr xs \<Longrightarrow> list_all json_text xs"
proof -
  assume text_m: "json_text (JsonObject m)" and "allowlist m = Inr xs"
  then have "xs = [] \<or> fmlookup m ''allowedChannelPlugins'' = Some (JsonArray xs)"
    by (auto simp: allowlist_def split: option.splits json_any.splits)
  then show ?thesis using text_m by (fastforce simp: json_text_object list_all_iff)
qed

lemma plugin_object_text: "valid_utf8 (pl_Marketplace p) \<Longrightarrow> valid_utf8 (pl_Name p) \<Longrightarrow> json_text (plugin_object p)"
  unfolding plugin_object_def fmap_of_list_simps
  by (intro json_text_upd settings_keys_text) (simp_all add: json_text_object)

lemma merged_text:
  assumes "valid_utf8 (pl_Marketplace p)" and "valid_utf8 (pl_Name p)" and "json_text (JsonObject m)" and "allowlist m = Inr xs"
  shows "json_text (JsonObject (merged_settings p xs m))"
  unfolding merged_settings_def using allowlist_text [OF assms(3,4)] plugin_object_text [OF assms(1,2)] assms(3) settings_keys_text
  by (intro json_text_upd) (simp_all add: list_all_iff)

lemma merged_lookup:
  "fmlookup (merged_settings p xs m) ''channelsEnabled'' = Some (JsonBool True)"
  "k \<noteq> ''channelsEnabled'' \<Longrightarrow> k \<noteq> ''allowedChannelPlugins'' \<Longrightarrow> fmlookup (merged_settings p xs m) k = fmlookup m k"
  by (simp_all add: merged_settings_def)

lemma merged_allowlist:
  "\<exists>ys. allowlist (merged_settings p xs m) = Inr (xs @ ys) \<and> allowlistHasEntry p (xs @ ys) \<and>
     merged_settings p (xs @ ys) (merged_settings p xs m) = merged_settings p xs m"
proof -
  have entry: "plugin_entry p (plugin_object p)"
    by (simp add: plugin_entry_def plugin_object_def fmlookup_of_list)
  have again: "fmupd a v (fmupd c u (fmupd a v (fmupd c u m))) = fmupd a v (fmupd c u m)" for a c v u
    by (rule fmap_ext) simp
  show ?thesis
  proof (cases "allowlistHasEntry p xs")
    case True
    then show ?thesis by (intro exI [of _ "[]"]) (simp add: merged_settings_def allowlist_def again)
  next
    case False
    with entry show ?thesis
      by (intro exI [of _ "[plugin_object p]"]) (simp add: merged_settings_def allowlist_def allowlistHasEntry_def again)
  qed
qed

text \<open>
  Approving a plugin is exact. The merged settings have channels enabled and the plugin on the
  allowlist; every plugin approved before is still approved, every other key keeps its value,
  and merging the result again gives the same bytes.
\<close>

theorem merge_approves:
  assumes "codec_laws jc" and "valid_utf8 (pl_Marketplace p)" and "valid_utf8 (pl_Name p)"
    and "MergeManaged jc p existing = Inr merged"
  shows "ManagedHasEntry jc p merged = Inr True \<and>
    (\<forall>q. ManagedHasEntry jc q existing = Inr True \<longrightarrow> ManagedHasEntry jc q merged = Inr True) \<and>
    (\<exists>m m'. decodeObject jc existing = Inr m \<and> decodeObject jc merged = Inr m' \<and>
       (\<forall>k. k \<noteq> ''channelsEnabled'' \<longrightarrow> k \<noteq> ''allowedChannelPlugins'' \<longrightarrow> fmlookup m' k = fmlookup m k)) \<and>
    MergeManaged jc p merged = Inr merged"
proof -
  from assms(4) obtain m xs out where m: "decodeObject jc existing = Inr m" and xs: "allowlist m = Inr xs"
    and out: "jc_render jc (merged_settings p xs m) = Inr out" and merged: "merged = out @ [CHR 0x0A]"
    by (auto simp: MergeManaged_def split: sum.splits)
  let ?m = "merged_settings p xs m"
  have "json_text (JsonObject m)"
    using assms(1) m by (auto simp: codec_laws_def decodeObject_def split: if_splits sum.splits option.splits)
  then have "json_text (JsonObject ?m)" using merged_text assms(2,3) xs by blast
  then have dec: "decodeObject jc merged = Inr ?m"
    using assms(1) out by (simp add: codec_laws_def decodeObject_def merged)
  obtain ys where ys: "allowlist ?m = Inr (xs @ ys)" "allowlistHasEntry p (xs @ ys)"
    "merged_settings p (xs @ ys) ?m = ?m" using merged_allowlist by blast
  have "MergeManaged jc p merged = Inr (out @ [CHR 0x0A])"
    by (simp add: MergeManaged_def dec ys(1,3) out)
  moreover have "ManagedHasEntry jc q existing = Inr True \<longrightarrow> ManagedHasEntry jc q merged = Inr True" for q
    using m xs by (simp add: ManagedHasEntry_def dec allowlistHasEntry_def ys(1) merged_lookup(1))
  moreover have "ManagedHasEntry jc p merged = Inr True"
    using ys(2) by (simp add: ManagedHasEntry_def dec ys(1) merged_lookup(1))
  ultimately show ?thesis using m dec merged_lookup(2) merged by blast
qed

text \<open>A codec that knows one document.\<close>

definition sample_plugin :: Plugin where
  "sample_plugin = \<lparr>pl_Marketplace = ''mk'', pl_Name = ''rv''\<rparr>"

definition sample_codec :: json_codec where
  "sample_codec = \<lparr>jc_decode = (\<lambda>b. if b = ''x'' @ [CHR 0x0A] then Inr (Some (merged_settings sample_plugin [] fmempty)) else Inl (ErrText ''bad'')),
     jc_render = (\<lambda>m. if m = merged_settings sample_plugin [] fmempty then Inr ''x'' else Inl (ErrText ''bad''))\<rparr>"

lemma sample_text: "valid_utf8 (pl_Marketplace sample_plugin)" "valid_utf8 (pl_Name sample_plugin)"
  by code_simp+

lemma sample_laws: "codec_laws sample_codec"
proof -
  have "json_text (JsonObject (merged_settings sample_plugin [] fmempty))"
    by (rule merged_text [OF sample_text]) (simp_all add: allowlist_def)
  then show ?thesis by (auto simp: codec_laws_def sample_codec_def split: if_splits)
qed

theorem merge_approves_witness:
  "MergeManaged sample_codec sample_plugin [] = Inr (''x'' @ [CHR 0x0A]) \<and>
   ManagedHasEntry sample_codec sample_plugin (''x'' @ [CHR 0x0A]) = Inr True"
proof -
  have merged: "MergeManaged sample_codec sample_plugin [] = Inr (''x'' @ [CHR 0x0A])"
    by (simp add: MergeManaged_def decodeObject_def allowlist_def sample_codec_def)
  show ?thesis using merge_approves [OF sample_laws sample_text merged] merged by simp
qed

section \<open>The approval is recorded only when it was written\<close>

definition darwin_settings :: string where
  "darwin_settings = ''/Library/Application Support/ClaudeCode/managed-settings.json''"

lemma darwin_path: "ManagedSettingsPath ''darwin'' = Inr darwin_settings"
  by (simp add: ManagedSettingsPath_def darwin_settings_def)

lemmas setup_ops = op_defs wrap_op_def su_ask_def of_result_def

lemma admin_write_darwin:
  assumes "admin_write h ''darwin'' dest tmp merged w = ((removeTemp, r), w')"
  shows "removeTemp \<and> (\<exists>mid. w' = w @ mid \<and>
      set mid \<subseteq> {WriteTemp tmp merged, CloseTemp tmp, Osascript (adminScript dest tmp)} \<and>
      (r = Inr () \<longrightarrow> mid = [WriteTemp tmp merged, CloseTemp tmp, Osascript (adminScript dest tmp)] \<and>
        (\<exists>out. su_answer h w' = Inr out)))"
  using assms unfolding admin_write_def closeTempSettings_def setup_ops
  by (auto split: sum.splits prod.splits)

lemma apply_admin_darwin:
  assumes "ApplyManagedViaAdmin h ''darwin'' p merged w = (r, w')"
  shows "(let mk = w @ [MakeTemp (pl_Name p @ ''-managed-*.json'')] in
     case su_answer h mk of
       Inl e \<Rightarrow> (\<exists>e'. r = Inl e') \<and> w' = mk
     | Inr tmp \<Rightarrow> \<exists>mid. w' = mk @ mid @ [RemoveTemp tmp] \<and>
         set mid \<subseteq> {WriteTemp tmp merged, CloseTemp tmp, Osascript (adminScript darwin_settings tmp)} \<and>
         (r = Inr () \<longrightarrow> mid = [WriteTemp tmp merged, CloseTemp tmp, Osascript (adminScript darwin_settings tmp)] \<and>
           (\<exists>out. su_answer h (mk @ mid) = Inr out)))"
proof (cases "su_answer h (w @ [MakeTemp (pl_Name p @ ''-managed-*.json'')])")
  case (Inl e)
  then show ?thesis using assms unfolding ApplyManagedViaAdmin_def darwin_path setup_ops by auto
next
  case (Inr tmp)
  obtain b r0 w0 where run: "admin_write h ''darwin'' darwin_settings tmp merged (w @ [MakeTemp (pl_Name p @ ''-managed-*.json'')]) = ((b, r0), w0)"
    by (metis prod.exhaust)
  note mid = admin_write_darwin [OF run]
  have "b" using mid by blast
  then have "remove_temp h tmp r0 w0 = (r, w')"
    using assms Inr run unfolding ApplyManagedViaAdmin_def darwin_path setup_ops by simp
  then have "w' = w0 @ [RemoveTemp tmp] \<and> (r = Inr () \<longrightarrow> r0 = Inr ())"
    unfolding remove_temp_def su_ask_def by (auto split: sum.splits)
  with mid Inr show ?thesis unfolding Let_def by auto
qed

lemma write_marker_calls:
  assumes "writeChannelMarker h d status w = (r, w')"
  shows "w' = w @ [MakeStateDir] \<and> r \<noteq> Inr () \<or>
    w' = w @ [MakeStateDir, WriteMarker (sd_marker d) (channelSetupState status (sd_Version d))]"
  using assms unfolding writeChannelMarker_def setup_ops by (auto split: sum.splits)

text \<open>
  The approval is recorded only when it was written. On macOS a run of \<open>setup-channels --apply\<close>
  writes the marker only after the administrator's script, given the merge of the settings
  that were read, reported success; a run that succeeds has written the marker; and whatever
  fails, the temporary file with the settings is removed.
\<close>

theorem apply_records_success:
  assumes "sd_goos d = ''darwin''" and "runChannelsApply h jc d p hint [] = (r, w)"
  shows "(\<forall>path b. WriteMarker path b \<in> set w \<longrightarrow>
      (\<exists>managed merged tmp out rest. fst (readFileOrEmpty h darwin_settings []) = Inr managed \<and> MergeManaged jc p managed = Inr merged \<and>
        path = sd_marker d \<and> b = channelSetupState ''done'' (sd_Version d) \<and>
        w = [ReadManaged darwin_settings, MakeTemp (pl_Name p @ ''-managed-*.json''), WriteTemp tmp merged, CloseTemp tmp,
          Osascript (adminScript darwin_settings tmp), RemoveTemp tmp, MakeStateDir, WriteMarker path b] @ rest \<and>
        su_answer h (take 5 w) = Inr out)) \<and>
    (r = Inr () \<longrightarrow> WriteMarker (sd_marker d) (channelSetupState ''done'' (sd_Version d)) \<in> set w) \<and>
    (\<forall>tmp. 2 \<le> length w \<and> su_answer h (take 2 w) = Inr tmp \<longrightarrow> RemoveTemp tmp \<in> set w)"
proof -
  let ?read = "[ReadManaged darwin_settings]"
  have read: "readFileOrEmpty h darwin_settings [] = (fst (readFileOrEmpty h darwin_settings []), ?read)"
    unfolding readFileOrEmpty_def setup_ops by (auto split: sum.splits)
  show ?thesis
  proof (cases "fst (readFileOrEmpty h darwin_settings [])")
    case (Inl e)
    then have "w = ?read \<and> r = Inl e"
      using assms read unfolding runChannelsApply_def bind_op_def of_result_def by (auto simp: darwin_path)
    then show ?thesis by simp
  next
    case managed: (Inr managed)
    show ?thesis
    proof (cases "MergeManaged jc p managed")
      case (Inl e)
      then have "w = ?read \<and> r = Inl e"
        using assms read managed unfolding runChannelsApply_def bind_op_def of_result_def by (auto simp: darwin_path)
      then show ?thesis by simp
    next
      case merged: (Inr merged)
      obtain r1 w1 where run: "ApplyManagedViaAdmin h ''darwin'' p merged ?read = (r1, w1)" by fastforce
      have rest: "(case r1 of Inl e \<Rightarrow> (Inl e, w1) | Inr _ \<Rightarrow> bind_op (writeChannelMarker h d ''done'') (\<lambda>_.
          bind_op (wrap_op ''write channel setup hint'' (su_ask h (Print (hint @ [CHR 0x0A])))) (\<lambda>_. return_op ())) w1) = (r, w)"
        using assms read managed merged run
        unfolding runChannelsApply_def bind_op_def [of "of_result _"] bind_op_def [of "readFileOrEmpty _ _"]
          bind_op_def [of "ApplyManagedViaAdmin _ _ _ _"] of_result_def
        by (simp add: darwin_path split: sum.splits)
      show ?thesis
      proof (cases r1)
        case (Inl e)
        with rest have "r = Inl e" "w = w1" by simp_all
        then show ?thesis using apply_admin_darwin [OF run] by (auto simp: Let_def split: sum.splits)
      next
        case (Inr u)
        then obtain tmp out where tmp: "su_answer h (?read @ [MakeTemp (pl_Name p @ ''-managed-*.json'')]) = Inr tmp"
          and w1: "w1 = [ReadManaged darwin_settings, MakeTemp (pl_Name p @ ''-managed-*.json''), WriteTemp tmp merged, CloseTemp tmp,
            Osascript (adminScript darwin_settings tmp), RemoveTemp tmp]"
          and out: "su_answer h (take 5 w1) = Inr out"
          using apply_admin_darwin [OF run] by (auto simp: Let_def split: sum.splits)
        obtain r2 w2 where mark: "writeChannelMarker h d ''done'' w1 = (r2, w2)" by fastforce
        have "w = w2 @ (case r2 of Inl _ \<Rightarrow> [] | Inr _ \<Rightarrow> [Print (hint @ [CHR 0x0A])]) \<and> (r = Inr () \<longrightarrow> r2 = Inr ())"
          using rest mark Inr unfolding setup_ops by (auto split: sum.splits)
        with write_marker_calls [OF mark] tmp w1 out managed merged show ?thesis by (auto split: sum.splits)
      qed
    qed
  qed
qed

definition sample_setup :: setup_host where
  "sample_setup = \<lparr>su_answer = (\<lambda>w. case last w of ReadManaged _ \<Rightarrow> Inl ErrNotExist | MakeTemp _ \<Rightarrow> Inr ''/tmp/t'' | _ \<Rightarrow> Inr []),
     su_output = (\<lambda>_. [])\<rparr>"

definition sample_deps :: setup_deps where
  "sample_deps = \<lparr>sd_goos = ''darwin'', sd_marker = ''/s/m'', sd_Version = ''1''\<rparr>"

theorem apply_records_success_witness:
  "sd_goos sample_deps = ''darwin'' \<and>
   WriteMarker ''/s/m'' (channelSetupState ''done'' ''1'')
     \<in> set (snd (runChannelsApply sample_setup sample_codec sample_deps sample_plugin ''hint'' [])) \<and>
   RemoveTemp ''/tmp/t'' \<in> set (snd (runChannelsApply sample_setup sample_codec sample_deps sample_plugin ''hint'' []))"
proof -
  have goos: "sd_goos sample_deps = ''darwin''" by (simp add: sample_deps_def)
  have merged: "MergeManaged sample_codec sample_plugin [] = Inr (''x'' @ [CHR 0x0A])"
    by (simp add: MergeManaged_def decodeObject_def allowlist_def sample_codec_def)
  obtain r w where run: "runChannelsApply sample_setup sample_codec sample_deps sample_plugin ''hint'' [] = (r, w)" by fastforce
  have "r = Inr () \<and> 2 \<le> length w \<and> su_answer sample_setup (take 2 w) = Inr ''/tmp/t''"
    using run unfolding runChannelsApply_def readFileOrEmpty_def ApplyManagedViaAdmin_def admin_write_def closeTempSettings_def
      remove_temp_def writeChannelMarker_def setup_ops goos darwin_path
    by (auto simp: merged sample_setup_def)
  then show ?thesis using apply_records_success [OF goos run] goos run by (auto simp: sample_deps_def)
qed

end
