(* ===== verification/Edit_Scope.thy ===== *)
theory Edit_Scope
  imports Daemon_Core Paths
begin

text \<open>
  The directory an edit is scoped to (\<open>daemon/editscope.go\<close>): the file a tool's input names,
  and the climb to the nearest directory that exists. The loop of \<open>EditDir\<close> is a
  total function, because a proper parent is a shorter path or the dot.
\<close>

section \<open>The climb\<close>

definition ToolFilePath :: "Config \<Rightarrow> string \<Rightarrow> string" where
  "ToolFilePath cf input =
     (case cf_toolPaths cf input of (filePath, notebookPath) \<Rightarrow> if filePath \<noteq> [] then filePath else notebookPath)"

function climb :: "(string \<Rightarrow> bool) \<Rightarrow> string \<Rightarrow> string" where
  "climb isDir dir = (if isDir dir then dir else if Dir dir = dir then dir else climb isDir (Dir dir))"
  by pat_completeness auto
termination by (relation "measure (path_measure \<circ> snd)") (auto intro: Dir_decreases)

declare climb.simps [simp del]

definition EditDir :: "Config \<Rightarrow> string \<Rightarrow> string" where
  "EditDir cf input =
     (let path = ToolFilePath cf input in if path = [] then [] else climb (cf_isDir cf) (Dir path))"

lemma climb_nearest:
  "\<exists>k. climb isDir d = (Dir ^^ k) d \<and> (\<forall>j < k. \<not> isDir ((Dir ^^ j) d)) \<and>
     (isDir (climb isDir d) \<or> climb isDir d = ''/'' \<or> climb isDir d = ''.'')"
proof (induction isDir d rule: climb.induct)
  case (1 isDir d)
  show ?case
  proof (cases "isDir d \<or> Dir d = d")
    case True
    then have "climb isDir d = d" by (subst climb.simps) auto
    then show ?thesis using True Dir_fixed [of d] by (intro exI [of _ 0]) auto
  next
    case False
    then obtain k where k: "climb isDir (Dir d) = (Dir ^^ k) (Dir d)" "\<forall>j < k. \<not> isDir ((Dir ^^ j) (Dir d))"
        "isDir (climb isDir (Dir d)) \<or> climb isDir (Dir d) = ''/'' \<or> climb isDir (Dir d) = ''.''"
      using 1 by blast
    have up: "climb isDir d = climb isDir (Dir d)" using False by (subst climb.simps) simp
    have "(Dir ^^ Suc k) d = (Dir ^^ k) (Dir d)" by (simp add: funpow_swap1)
    then have "climb isDir d = (Dir ^^ Suc k) d" using k(1) up by simp
    moreover have "\<not> isDir ((Dir ^^ j) d)" if "j < Suc k" for j
    proof (cases j)
      case (Suc i)
      then show ?thesis using that k(2) by (simp add: funpow_swap1)
    qed (use False in simp)
    moreover have "isDir (climb isDir d) \<or> climb isDir d = ''/'' \<or> climb isDir d = ''.''" unfolding up by (rule k(3))
    ultimately show ?thesis by blast
  qed
qed

text \<open>
  The edit scope is the nearest existing directory. For every input that names a file the
  climb ends, whatever the path looks like, at an iterated parent of the file such that no
  parent passed on the way exists; it exists itself unless the climb reached the top of the
  path, the root or the dot.
\<close>

theorem edit_dir_nearest:
  assumes "ToolFilePath cf input = path" and "path \<noteq> []"
  shows "\<exists>k. EditDir cf input = (Dir ^^ Suc k) path \<and> (\<forall>j < k. \<not> cf_isDir cf ((Dir ^^ Suc j) path)) \<and>
     (cf_isDir cf (EditDir cf input) \<or> EditDir cf input = ''/'' \<or> EditDir cf input = ''.'')"
  using climb_nearest [of "cf_isDir cf" "Dir path"] assms by (simp add: EditDir_def Let_def funpow_swap1)

theorem edit_dir_nearest_witness:
  "\<exists>cf. EditDir cf ''in'' = ''/repo'' \<and> cf_isDir cf (EditDir cf ''in'')"
proof -
  define cf where "cf = sample_config\<lparr>cf_isDir := (\<lambda>d. d = ''/repo''), cf_toolPaths := (\<lambda>_. (''/repo//a/../new/x.go'', []))\<rparr>"
  have t: "ToolFilePath cf ''in'' = ''/repo//a/../new/x.go''" by (simp add: cf_def ToolFilePath_def)
  have e: "EditDir cf ''in'' = ''/repo''"
    unfolding EditDir_def t
    by (simp add: cf_def climb.simps [of _ "''/repo/new''"] climb.simps [of _ "''/repo''"]
        Dir_def dir_part_def Clean_def clean_step_def)
  have "cf_isDir cf (EditDir cf ''in'')"
    using edit_dir_nearest [OF t] unfolding e by (simp add: cf_def)
  with e show ?thesis by blast
qed

end
