(* ===== verification/Daemon_Handlers.thy ===== *)
theory Daemon_Handlers
  imports Daemon_Agents Edit_Scope
begin

text \<open>
  The op table of the daemon and the core handlers beside the agent plane
  (\<open>daemon/handlers.go\<close>, \<open>daemon/channelstate.go\<close>, the dispatch half of
  \<open>daemon/server.go\<close>): registration, which may panic (\<open>None\<close>), the handlers of
  resolve, session-record, guard-edit, status and channel-ack, the classification of a
  window's channel, and the dispatch of an envelope through the table.
\<close>

section \<open>The op table\<close>

type_synonym handler = "HandlerCtx \<Rightarrow> Server \<Rightarrow> (Reply \<times> Server) option"

record handlerTable =
  ht_handlers :: "string \<Rightarrow> handler option"
  ht_closed :: bool

definition Register :: "string \<Rightarrow> handler \<Rightarrow> handlerTable \<Rightarrow> handlerTable option" where
  "Register oper h t =
     (if ht_closed t then None
      else if ht_handlers t oper \<noteq> None then None
      else Some (t\<lparr>ht_handlers := (ht_handlers t)(oper \<mapsto> h)\<rparr>))"

definition freezeHandlers :: "handlerTable \<Rightarrow> handlerTable" where
  "freezeHandlers t = t\<lparr>ht_closed := True\<rparr>"

fun register_all :: "(string \<times> handler) list \<Rightarrow> handlerTable \<Rightarrow> handlerTable option" where
  "register_all [] t = Some t"
| "register_all ((oper, h) # rest) t = (case Register oper h t of None \<Rightarrow> None | Some t' \<Rightarrow> register_all rest t')"

section \<open>Core handlers\<close>

definition ChannelConsumer :: string where
  "ChannelConsumer = ''channel''"

definition ProbeEventType :: string where
  "ProbeEventType = ''channel.probe''"

definition quoted :: "string \<Rightarrow> string" where
  "quoted s = [CHR 0x22] @ s @ [CHR 0x22]"

definition probePayload :: string where
  "probePayload = ''{'' @ quoted ''type'' @ '':'' @ quoted ProbeEventType @ '','' @ quoted ''note'' @ '':'' @
     quoted ''delivery probe; run channel-ack; no reply needed'' @ ''}''"

definition windowMovedPayload :: string where
  "windowMovedPayload = ''{'' @ quoted ''type'' @ '':'' @ quoted TypeWindowMoved @ ''}''"

definition channelPollWindow :: int where
  "channelPollWindow = 2 * ResolvePollCeiling"

definition InjectEvent :: "string \<Rightarrow> string \<Rightarrow> int \<Rightarrow> string \<Rightarrow> (Server, int) fop" where
  "InjectEvent subjectID consumer pid payload s =
     (case Inject subjectID consumer pid payload (sv_sse s) of (k, e) \<Rightarrow> Some (Inr k, s\<lparr>sv_sse := e\<rparr>))"

definition handleResolve :: "Config \<Rightarrow> HandlerCtx \<Rightarrow> (Server, Reply) fop" where
  "handleResolve cf hc =
     bind_f (if env_Consumer (hc_Env hc) \<noteq> [] then
               bind_f time_now (\<lambda>now. modify_f (\<lambda>s. s\<lparr>sv_activity :=
                 NotePoll now (hc_Scope hc) (env_Consumer (hc_Env hc)) (env_ClaudePID (hc_Env hc)) (sv_activity s)\<rparr>))
             else ret_f ()) (\<lambda>_.
     bind_f (find_subject cf hc) (\<lambda>found.
     bind_f (gets_f sv_httpPort) (\<lambda>port.
     case found of
       None \<Rightarrow> ret_f (okReply\<lparr>rp_HTTPPort := port\<rparr>)
     | Some sub \<Rightarrow> ret_f (okReply\<lparr>rp_HTTPPort := port, rp_SubjectID := s_ID sub, rp_Status := s_Status sub\<rparr>))))"

definition handleSessionRecord :: "Config \<Rightarrow> HandlerCtx \<Rightarrow> (Server, Reply) fop" where
  "handleSessionRecord cf hc =
     (if env_Session (hc_Env hc) = [] then ret_f okReply
      else
        bind_f (on_store (Settle (subjects_of cf) (hc_Window hc) (hc_Scope hc))) (\<lambda>boot.
        bind_f (if boot \<noteq> [] then InjectEvent boot ChannelConsumer (env_ClaudePID (hc_Env hc)) windowMovedPayload
                else ret_f 0) (\<lambda>_.
        ret_f okReply)))"

definition handleChannelAck :: "HandlerCtx \<Rightarrow> (Server, Reply) fop" where
  "handleChannelAck hc =
     (if env_ClaudePID (hc_Env hc) = 0 then fail_f (ErrText ''channel-ack requires a window (no claude pid)'')
      else bind_f (modify_f (\<lambda>s. s\<lparr>sv_activity := MarkProven (env_ClaudePID (hc_Env hc)) (sv_activity s)\<rparr>)) (\<lambda>_.
           ret_f okReply))"

definition handleStatus :: "Config \<Rightarrow> HandlerCtx \<Rightarrow> (Server, Reply) fop" where
  "handleStatus cf hc =
     bind_f (gets_f (\<lambda>s. okReply\<lparr>rp_DaemonVersion := cf_runtimeBuild cf, rp_HTTPPort := sv_httpPort s\<rparr>)) (\<lambda>reply.
     try_f (find_subject cf hc) (\<lambda>r. case r of
       Inl er \<Rightarrow> ret_f reply
     | Inr None \<Rightarrow> ret_f reply
     | Inr (Some sub) \<Rightarrow>
         bind_f time_now (\<lambda>now.
         bind_f (gets_f (\<lambda>s. \<lparr>sb_ConsumerConnected = AttachedWithin now (s_ID sub) attachGrace (sv_activity s),
             sb_Consumers = Counts (s_ID sub) (sv_activity s), sb_Proven = Proven (env_ClaudePID (hc_Env hc)) (sv_activity s)\<rparr>)) (\<lambda>body.
         ret_f (reply\<lparr>rp_SubjectID := s_ID sub, rp_Status := s_Status sub, rp_Body := StatusReply body\<rparr>)))))"

definition guard_scope :: "Config \<Rightarrow> HandlerCtx \<Rightarrow> string" where
  "guard_scope cf hc =
     (let dir = EditDir cf (tc_Input (cf_guardBody cf (env_Body (hc_Env hc))))
      in if dir \<noteq> [] then cf_scopeResolve cf dir else hc_Scope hc)"

definition handleGuardEdit :: "Config \<Rightarrow> HandlerCtx \<Rightarrow> (Server, Reply) fop" where
  "handleGuardEdit cf hc =
     try_f (on_store (Find (subjects_of cf) (hc_Window hc) (guard_scope cf hc))) (\<lambda>r. case r of
       Inl er \<Rightarrow> ret_f (okReply\<lparr>rp_Allow := False, rp_Reason := cf_gateErrorReason cf\<rparr>)
     | Inr None \<Rightarrow> ret_f (okReply\<lparr>rp_Allow := True\<rparr>)
     | Inr (Some sub) \<Rightarrow>
         let tool = cf_guardBody cf (env_Body (hc_Env hc));
             (allow, reason) = (case cf_gate cf of None \<Rightarrow> (True, []) | Some gate \<Rightarrow> gate sub tool)
         in bind_f (if cf_gateObserve cf
                    then modify_f (\<lambda>s. s\<lparr>sv_observed := sv_observed s @ [(s_ID sub, tool, allow, reason)]\<rparr>)
                    else ret_f ()) (\<lambda>_.
            ret_f (okReply\<lparr>rp_Allow := allow, rp_Reason := reason\<rparr>)))"

datatype ChannelState_t = ChannelActive | ChannelPending | ChannelInactive

definition ChannelState :: "HandlerCtx \<Rightarrow> string \<Rightarrow> string \<Rightarrow> (Server, ChannelState_t) fop" where
  "ChannelState hc subjectID consumer =
     (let pid = env_ClaudePID (hc_Env hc)
      in bind_f (gets_f (\<lambda>s. (Attached subjectID consumer pid (sv_activity s), Proven pid (sv_activity s)))) (\<lambda>(attached, proven).
         if attached \<and> proven then ret_f ChannelActive
         else if attached then bind_f (InjectEvent subjectID consumer pid probePayload) (\<lambda>_. ret_f ChannelPending)
         else
           bind_f time_now (\<lambda>now.
           bind_f (gets_f (\<lambda>s. PolledSince now (hc_Scope hc) consumer pid channelPollWindow (sv_activity s))) (\<lambda>polled.
           ret_f (if polled then ChannelPending else ChannelInactive)))))"

section \<open>Dispatch\<close>

definition core_handlers :: "Config \<Rightarrow> nat \<Rightarrow> (string \<times> handler) list" where
  "core_handlers cf n =
     [(''resolve'', \<lambda>hc. handler_of (handleResolve cf hc)),
      (''session-record'', \<lambda>hc. handler_of (handleSessionRecord cf hc)),
      (''guard-edit'', \<lambda>hc. handler_of (handleGuardEdit cf hc)),
      (''status'', \<lambda>hc. handler_of (handleStatus cf hc)),
      (''channel-ack'', \<lambda>hc. handler_of (handleChannelAck hc)),
      (''agent-start'', \<lambda>hc. handler_of (handleAgentStart cf n hc)),
      (''agent-stop'', \<lambda>hc. handler_of (handleAgentStop cf n hc)),
      (''agent-inject'', \<lambda>hc. handler_of (handleAgentInject cf n hc)),
      (''agent-report'', \<lambda>hc. handler_of (handleAgentReport cf n hc)),
      (''agent-direct'', \<lambda>hc. handler_of (handleAgentDirect cf n hc)),
      (''agent-reconcile'', \<lambda>hc. handler_of (handleAgentReconcile cf n hc))]"

definition new_table :: handlerTable where
  "new_table = \<lparr>ht_handlers = (\<lambda>_. None), ht_closed = False\<rparr>"

definition dispatchCaller :: "Config \<Rightarrow> handlerTable \<Rightarrow> Envelope \<Rightarrow> Server \<Rightarrow> (Reply \<times> Server) option" where
  "dispatchCaller cf t env s =
     (case ht_handlers t (env_Op env) of
        None \<Rightarrow> Some (errReply (ErrText (''unknown op: '' @ env_Op env)), s)
      | Some h \<Rightarrow> h \<lparr>hc_Env = env, hc_Window = \<lparr>w_Session = env_Session env, w_ClaudePID = env_ClaudePID env\<rparr>,
                     hc_Scope = cf_scopeResolve cf (env_Scope env)\<rparr> s)"

text \<open>The public dispatch: the serving fence, then a worker slot held until the handler returns.\<close>

definition Dispatch :: "Config \<Rightarrow> handlerTable \<Rightarrow> bool \<Rightarrow> Envelope \<Rightarrow> workerGroup \<Rightarrow> Server \<Rightarrow> (Reply \<times> workerGroup \<times> Server) option" where
  "Dispatch cf t serving env g s =
     (if \<not> serving then Some (errReply (ErrText ''daemon: not serving''), g, s)
      else case Admit g of
             (Inl er, g1) \<Rightarrow> Some (errReply (ErrText ''daemon: not serving''), g1, s)
           | (Inr tok, g1) \<Rightarrow>
               (case dispatchCaller cf t env s of
                  None \<Rightarrow> None
                | Some (reply, s') \<Rightarrow> map_option (\<lambda>g2. (reply, g2, s')) (release_worker tok g1)))"

fun dispatch_run :: "Config \<Rightarrow> handlerTable \<Rightarrow> Envelope list \<Rightarrow> Server \<Rightarrow> (Reply list \<times> Server) option" where
  "dispatch_run cf t [] s = Some ([], s)"
| "dispatch_run cf t (env # envs) s =
     (case dispatchCaller cf t env s of
        None \<Rightarrow> None
      | Some (reply, s') \<Rightarrow> map_option (\<lambda>(replies, s''). (reply # replies, s'')) (dispatch_run cf t envs s'))"

section \<open>The core table\<close>

lemma register_all_fresh:
  assumes "\<not> ht_closed t" and "distinct (map fst hs)" and "\<forall>p \<in> set hs. ht_handlers t (fst p) = None"
  shows "\<exists>t'. register_all hs t = Some t' \<and> \<not> ht_closed t' \<and>
    (\<forall>oper. ht_handlers t' oper = (case map_of hs oper of None \<Rightarrow> ht_handlers t oper | Some h \<Rightarrow> Some h))"
  using assms
proof (induction hs arbitrary: t)
  case (Cons p hs)
  obtain oper h where p: "p = (oper, h)" by fastforce
  let ?t = "t\<lparr>ht_handlers := (ht_handlers t)(oper \<mapsto> h)\<rparr>"
  have r: "Register oper h t = Some ?t" using Cons.prems by (simp add: Register_def p)
  have "ht_handlers ?t (fst q) = None" if "q \<in> set hs" for q using that Cons.prems by (auto simp: p)
  then obtain t' where t': "register_all hs ?t = Some t'" "\<not> ht_closed t'"
      "\<forall>o'. ht_handlers t' o' = (case map_of hs o' of None \<Rightarrow> ht_handlers ?t o' | Some h \<Rightarrow> Some h)"
    using Cons.IH [of ?t] Cons.prems by auto
  have "map_of hs oper = None" using Cons.prems(2) by (simp add: p map_of_eq_None_iff)
  then show ?case using t' r by (simp add: p split: option.split)
qed simp

lemma new_table_empty: "\<not> ht_closed new_table" "\<forall>p \<in> set hs. ht_handlers new_table (fst p) = None"
  by (simp_all add: new_table_def)

lemma core_ops_distinct: "distinct (map fst (core_handlers cf n))"
  by (simp add: core_handlers_def)

text \<open>The table a server starts with.\<close>

lemma core_table:
  "\<exists>t. register_all (core_handlers cf n) new_table = Some t \<and> ht_handlers t = map_of (core_handlers cf n)"
proof -
  obtain t where t: "register_all (core_handlers cf n) new_table = Some t"
      "\<forall>oper. ht_handlers t oper = (case map_of (core_handlers cf n) oper of None \<Rightarrow> ht_handlers new_table oper | Some h \<Rightarrow> Some h)"
    using register_all_fresh [of new_table "core_handlers cf n", OF _ core_ops_distinct] new_table_empty by blast
  then have "ht_handlers t = map_of (core_handlers cf n)" by (simp add: new_table_def fun_eq_iff split: option.split)
  with t(1) show ?thesis by blast
qed

section \<open>Every handler keeps the store's invariant\<close>

lemma subject_ids_kept:
  "map sb_id (subjects (snd (st_Rebind flt now sid p session pid d))) = map sb_id (subjects d)"
  "map sb_id (subjects (snd (Detach flt now sid d))) = map sb_id (subjects d)"
  by (cases flt; auto simp: st_Rebind_def Detach_def Let_def)+

lemma other_tables_kept:
  "events (snd (st_Rebind flt now sid p session pid d)) = events d" "events (snd (Detach flt now sid d)) = events d"
  "agents (snd (st_Rebind flt now sid p session pid d)) = agents d" "agents (snd (Detach flt now sid d)) = agents d"
  "directives (snd (st_Rebind flt now sid p session pid d)) = directives d" "directives (snd (Detach flt now sid d)) = directives d"
  by (cases flt; simp add: st_Rebind_def Detach_def Let_def)+

lemma store_inv_subjects:
  assumes "store_inv d"
  shows "store_inv (snd (st_Rebind flt now sid p session pid d))" "store_inv (snd (Detach flt now sid d))"
  using assms st_Rebind_inv [of d flt now sid p session pid] Detach_inv [of d flt now sid]
    log_inv_cong [OF subject_ids_kept(1) other_tables_kept(1)] log_inv_cong [OF subject_ids_kept(2) other_tables_kept(2)]
    agents_inv_cong [OF subject_ids_kept(1) other_tables_kept(3,5)] agents_inv_cong [OF subject_ids_kept(2) other_tables_kept(4,6)]
  by (simp_all add: store_inv_def)

lemma Settle_keeps_store: "keeps (\<lambda>en. store_inv (en_db en)) (Settle (subjects_of cf) w sc)"
proof -
  have ops: "keeps (\<lambda>en. store_inv (en_db en)) (op_FindBySessionScope NewSubjectStore se sc)"
    "keeps (\<lambda>en. store_inv (en_db en)) (op_FindLatestByWindowScope NewSubjectStore pid sc)"
    "keeps (\<lambda>en. store_inv (en_db en)) (op_Rebind NewSubjectStore sid p se pid)"
    "keeps (\<lambda>en. store_inv (en_db en)) (op_Detach NewSubjectStore sid)" for se pid sid p
    unfolding NewSubjectStore_def subject_ops.simps
    by (rule on_db_keeps on_db_now_keeps, simp add: store_inv_subjects)+
  show ?thesis unfolding Settle_def Rebind_def subjects_of_def sql_resolver_store
    by (auto intro!: keeps_bind keeps_return ops split: option.split)
qed

lemma server_inv_lift: "keeps (\<lambda>en. store_inv (en_db en)) m \<Longrightarrow> keeps_f server_inv (on_store m)"
  using keeps_on_store [of store_inv m] by (simp add: server_inv_def [abs_def])

lemma keeps_InjectEvent [server_keeps]: "keeps_f server_inv (InjectEvent sid consumer pid p)"
  by (auto simp: keeps_f_def InjectEvent_def split: prod.splits)

lemma keeps_core_handlers [server_keeps]:
  "keeps_f server_inv (handleResolve cf hc)" "keeps_f server_inv (handleSessionRecord cf hc)"
  "keeps_f server_inv (handleGuardEdit cf hc)" "keeps_f server_inv (handleStatus cf hc)"
  "keeps_f server_inv (handleChannelAck hc)"
proof -
  have find: "keeps_f server_inv (on_store (Find (subjects_of cf) w sc))" for w sc
    by (rule server_inv_lift) (simp add: keeps_def subjects_of_def find_pure)
  show "keeps_f server_inv (handleResolve cf hc)" "keeps_f server_inv (handleStatus cf hc)" "keeps_f server_inv (handleChannelAck hc)"
    unfolding handleResolve_def handleStatus_def handleChannelAck_def
    by (auto intro!: Find_keeps_server server_inv_time split: option.split)
  show "keeps_f server_inv (handleSessionRecord cf hc)"
    unfolding handleSessionRecord_def by (auto intro!: server_inv_lift [OF Settle_keeps_store] keeps_InjectEvent)
  show "keeps_f server_inv (handleGuardEdit cf hc)"
    unfolding handleGuardEdit_def Let_def by (auto intro!: find split: option.split prod.split)
qed

section \<open>Every handler answers\<close>

text \<open>The documented demand on \<open>Subscribe\<close>: no lifecycle type that a Direct appends.\<close>

definition disciplined :: "Config \<Rightarrow> bool" where
  "disciplined cf \<longleftrightarrow> (\<forall>f sub info. cf_subscribe cf = Some f \<longrightarrow>
     EventDirected \<notin> set (f sub info) \<and> EventRelay \<notin> set (f sub info))"

named_theorems answers \<open>actions of the daemon that always return\<close>

lemma quiet_remove: "quiet s \<Longrightarrow> quiet (s\<lparr>sv_subscriptions := registry_remove sid a (sv_subscriptions s)\<rparr>)"
  by (auto simp: quiet_def registry_remove_def delete_conv map_upd_Some_unfold split: if_splits) 

lemma quiet_set:
  "quiet s \<Longrightarrow> EventDirected \<notin> set types \<Longrightarrow> EventRelay \<notin> set types \<Longrightarrow>
     quiet (s\<lparr>sv_subscriptions := registry_set sid a types (sv_subscriptions s)\<rparr>)"
  using quiet_remove [of s sid a] by (auto simp: quiet_def registry_set_def update_conv)

lemma answers_store [answers]: "returns_f quiet (on_store m)"
  by (rule returns_on_store) simp

lemma answers_time [answers]: "returns_f quiet time_now"
  by (rule returns_time_now) simp

lemma answers_Direct [answers]: "returns_f quiet (Direct cf (Suc (Suc n)) sid aid org tx)"
  unfolding Direct_def by (rule returns_direct) (rule returns_Append)

lemmas [answers] = returns_Append

lemma returns_f_option [intro!]:
  "(x = None \<Longrightarrow> returns_f P m) \<Longrightarrow> (\<And>y. x = Some y \<Longrightarrow> returns_f P (k y)) \<Longrightarrow> returns_f P (case x of None \<Rightarrow> m | Some y \<Rightarrow> k y)"
  by (cases x) auto

lemma returns_f_sum [intro!]:
  "(\<And>e. r = Inl e \<Longrightarrow> returns_f P (m e)) \<Longrightarrow> (\<And>y. r = Inr y \<Longrightarrow> returns_f P (k y)) \<Longrightarrow> returns_f P (case r of Inl e \<Rightarrow> m e | Inr y \<Rightarrow> k y)"
  by (cases r) auto

lemma answers_recordAgentStopped [answers]: "returns_f quiet (recordAgentStopped cf (Suc (Suc n)) sid aid e)"
  unfolding recordAgentStopped_def by (auto intro!: answers simp del: Append.simps)

lemma answers_supersede [answers]: "returns_f quiet (supersede_each cf (Suc (Suc n)) sid keep os)"
  by (induction os) (auto intro!: answers quiet_remove simp del: Append.simps)

lemma answers_relay_each [answers]: "returns_f quiet (relay_each cf (Suc (Suc n)) infos)"
  by (induction infos) (auto intro!: answers simp del: Append.simps)

lemma answers_register [answers]: "disciplined cf \<Longrightarrow> returns_f quiet (registerAndSupersede cf (Suc (Suc n)) sub info)"
  unfolding registerAndSupersede_def supersedeSubscribers_def Let_def
  by (auto intro!: answers quiet_set simp: disciplined_def simp del: Append.simps)

lemma answers_stop_agent [answers]: "returns_f quiet (stop_agent cf (Suc (Suc n)) sub b)"
  unfolding stop_agent_def stop_verdict_def stop_allowed_def Let_def
  by (auto intro!: answers quiet_remove simp del: Append.simps)

lemma answers_drainMailbox [answers]: "returns_f quiet (drainMailbox sid aid t)"
  unfolding drainMailbox_def by (auto intro!: answers)

lemma answers_InjectEvent [answers]: "returns_f quiet (InjectEvent sid consumer pid p)"
  by (auto simp: returns_f_def InjectEvent_def split: prod.split)

lemma answers_agent_handlers [answers]:
  "disciplined cf \<Longrightarrow> returns_f quiet (handleAgentStart cf (Suc (Suc n)) hc)"
  "returns_f quiet (handleAgentStop cf (Suc (Suc n)) hc)"
  "returns_f quiet (handleAgentInject cf (Suc (Suc n)) hc)" "returns_f quiet (handleAgentReport cf (Suc (Suc n)) hc)"
  "returns_f quiet (handleAgentDirect cf (Suc (Suc n)) hc)" "returns_f quiet (handleAgentReconcile cf (Suc (Suc n)) hc)"
  unfolding handleAgentStart_def handleAgentStop_def handleAgentInject_def handleAgentReport_def
    handleAgentDirect_def handleAgentReconcile_def reconcileDirectives_def find_subject_def Let_def
  by (auto intro!: answers simp del: Append.simps)

lemma answers_core_handlers [answers]:
  "returns_f quiet (handleResolve cf hc)" "returns_f quiet (handleSessionRecord cf hc)"
  "returns_f quiet (handleGuardEdit cf hc)" "returns_f quiet (handleStatus cf hc)" "returns_f quiet (handleChannelAck hc)"
  unfolding handleResolve_def handleSessionRecord_def handleGuardEdit_def handleStatus_def handleChannelAck_def
    find_subject_def Let_def
  by (auto intro!: answers split: option.split prod.split)

text \<open>A handler that answers and keeps what it should.\<close>

definition sound_handler :: "handler \<Rightarrow> bool" where
  "sound_handler h \<longleftrightarrow> (\<forall>hc s. server_inv s \<longrightarrow> quiet s \<longrightarrow> (\<exists>r s'. h hc s = Some (r, s') \<and> server_inv s' \<and> quiet s'))"

lemma sound_handler_of:
  assumes "\<And>hc. keeps_f server_inv (m hc)" and "\<And>hc. returns_f quiet (m hc)"
  shows "sound_handler (\<lambda>hc. handler_of (m hc))"
  unfolding sound_handler_def
proof (intro allI impI)
  fix hc s assume s: "server_inv s" "quiet s"
  obtain r s' where r: "m hc s = Some (r, s')" "quiet s'" using returns_fD [OF assms(2) s(2)] by blast
  moreover have "server_inv s'" by (rule keeps_fD [OF assms(1) s(1) r(1)])
  ultimately show "\<exists>r s'. handler_of (m hc) s = Some (r, s') \<and> server_inv s' \<and> quiet s'"
    by (cases r) (simp_all add: handler_of_def)
qed

lemma core_handlers_sound:
  assumes "disciplined cf" and "(oper, h) \<in> set (core_handlers cf (Suc (Suc n)))"
  shows "sound_handler h"
  using assms(2) unfolding core_handlers_def
  by (auto intro!: sound_handler_of server_keeps answers simp: assms(1))


definition sound_table :: "handlerTable \<Rightarrow> bool" where
  "sound_table t \<longleftrightarrow> (\<forall>oper h. ht_handlers t oper = Some h \<longrightarrow> sound_handler h)"

lemma dispatch_sound:
  assumes "sound_table t" and "server_inv s" and "quiet s"
  shows "\<exists>r s'. dispatchCaller cf t env s = Some (r, s') \<and> server_inv s' \<and> quiet s'"
  using assms unfolding dispatchCaller_def sound_table_def sound_handler_def
  by (cases "ht_handlers t (env_Op env)") auto

lemma dispatch_run_sound:
  assumes "sound_table t"
  shows "server_inv s \<Longrightarrow> quiet s \<Longrightarrow>
    \<exists>rs s'. dispatch_run cf t envs s = Some (rs, s') \<and> length rs = length envs \<and> server_inv s' \<and> quiet s'"
proof (induction envs arbitrary: s)
  case (Cons env envs)
  obtain r s1 where r: "dispatchCaller cf t env s = Some (r, s1)" "server_inv s1" "quiet s1"
    using dispatch_sound [OF assms Cons.prems] by blast
  then show ?case using Cons.IH [OF r(2,3)] by auto
qed simp

lemma sound_tableI:
  assumes "disciplined cf" and "register_all (core_handlers cf (Suc (Suc n)) @ own) new_table = Some t"
    and "distinct (map fst (core_handlers cf (Suc (Suc n)) @ own))" and "\<forall>(oper, h) \<in> set own. sound_handler h"
  shows "sound_table t"
proof -
  let ?hs = "core_handlers cf (Suc (Suc n)) @ own"
  have "\<forall>oper. ht_handlers t oper = (case map_of ?hs oper of None \<Rightarrow> ht_handlers new_table oper | Some h \<Rightarrow> Some h)"
    using register_all_fresh [of new_table ?hs] assms(2,3) by (auto simp: new_table_def simp del: map_of_append)
  then have "(oper, h) \<in> set ?hs" if "ht_handlers t oper = Some h" for oper h
    using that map_of_SomeD [of ?hs oper h] by (auto simp: new_table_def simp del: map_of_append split: option.splits)
  then show ?thesis using core_handlers_sound [OF assms(1)] assms(4) unfolding sound_table_def by fastforce
qed

text \<open>
  C17: The daemon answers every request and keeps its store sound. Build the op table as
  \<open>New\<close> does, with any domain ops of the consumer's own whose handlers answer and keep the
  store's invariant. If \<open>Subscribe\<close> excludes the lifecycle types, as its documentation
  demands, then every sequence of envelopes, with any ops, bodies, windows and scopes and any
  failures of the SQL engine, is answered one reply each: no call runs forever, an unknown op
  is an error reply, and the tables keep all their invariants throughout. Registering an op
  twice, or after \<open>Serve\<close> froze the table, panics.
\<close>

theorem dispatch_total:
  assumes "disciplined cf" and "distinct (map fst (core_handlers cf (Suc (Suc n)) @ own))"
    and "\<forall>(oper, h) \<in> set own. sound_handler h" and "server_inv s" and "quiet s"
  shows "\<exists>t. register_all (core_handlers cf (Suc (Suc n)) @ own) new_table = Some t \<and>
     (\<exists>rs s'. dispatch_run cf t envs s = Some (rs, s') \<and> length rs = length envs \<and> server_inv s' \<and> quiet s') \<and>
     (\<forall>oper h. Register oper h (freezeHandlers t) = None \<and>
        (oper \<in> set (map fst (core_handlers cf (Suc (Suc n)) @ own)) \<longrightarrow> Register oper h t = None))"
proof -
  let ?hs = "core_handlers cf (Suc (Suc n)) @ own"
  obtain t where t: "register_all ?hs new_table = Some t"
      "\<forall>oper. ht_handlers t oper = (case map_of ?hs oper of None \<Rightarrow> ht_handlers new_table oper | Some h \<Rightarrow> Some h)"
    using register_all_fresh [of new_table ?hs, OF _ assms(2)] new_table_empty by blast
  have "ht_handlers t oper \<noteq> None" if "oper \<in> set (map fst ?hs)" for oper
  proof -
    have "map_of ?hs oper \<noteq> None" using that unfolding map_of_eq_None_iff by (simp add: image_Un)
    then obtain h where "map_of ?hs oper = Some h" by blast
    then show ?thesis using t(2) by (simp del: map_of_append)
  qed
  then have "\<forall>oper h. oper \<in> set (map fst ?hs) \<longrightarrow> Register oper h t = None"
    by (auto simp: Register_def)
  moreover have "\<forall>oper h. Register oper h (freezeHandlers t) = None" by (simp add: Register_def freezeHandlers_def)
  moreover note dispatch_run_sound [OF sound_tableI [OF assms(1) t(1) assms(2,3)] assms(4,5), of cf envs]
  ultimately show ?thesis using t(1) by blast
qed

definition sample_envelope :: "string \<Rightarrow> Envelope" where
  "sample_envelope oper = \<lparr>env_Op = oper, env_Session = ''sess'', env_ClaudePID = 7, env_Scope = ''repo'',
     env_Consumer = ''channel'', env_Body = ''a2''\<rparr>"

lemma sample_server_inv: "server_inv sample_server"
  by (simp add: server_inv_def store_inv_def sample_server_def subjects_inv_def log_inv_def dense_def log_of_def dedup_unique_def
      events_owned_def agents_inv_def agents_keyed_def agents_owned_def directives_numbered_def known_subject_def
      sample_subject_def subject_conflict_def nullString_def)

lemma sample_quiet: "quiet sample_server"
  by (simp add: quiet_def sample_server_def)

lemma sample_disciplined: "disciplined sample_config"
  by (simp add: disciplined_def sample_config_def EventDirected_def EventRelay_def)

definition sample_own :: "(string \<times> handler) list" where
  "sample_own = [(''ping'', \<lambda>hc s. Some (okReply, s))]"

definition sample_envelopes :: "Envelope list" where
  "sample_envelopes = map sample_envelope [''agent-start'', ''ping'', ''no-such-op'']"

theorem dispatch_total_witness:
  "\<exists>t rs s'. register_all (core_handlers sample_config (Suc (Suc 0)) @ sample_own) new_table = Some t \<and>
     dispatch_run sample_config t sample_envelopes sample_server = Some (rs, s') \<and> length rs = 3 \<and> server_inv s'"
proof -
  have "distinct (map fst (core_handlers sample_config (Suc (Suc 0)) @ sample_own))"
    by (simp add: core_handlers_def sample_own_def)
  moreover have "\<forall>(oper, h) \<in> set sample_own. sound_handler h" by (simp add: sample_own_def sound_handler_def)
  moreover have "length sample_envelopes = 3" by (simp add: sample_envelopes_def)
  ultimately show ?thesis
    using dispatch_total [OF sample_disciplined _ _ sample_server_inv sample_quiet, of 0 sample_own sample_envelopes] by metis
qed

section \<open>The edit guard\<close>

lemma find_outcome:
  assumes "subjects_inv (en_db en)" and "Find (subjects_of cf) w sc en = (Inr x, en')"
  shows "case x of
      Some q \<Rightarrow> session_bound w sc (subject_at (en_db en)) q \<or> window_bound w sc (subject_at (en_db en)) q
    | None \<Rightarrow> (\<forall>q. \<not> session_bound w sc (subject_at (en_db en)) q \<and> \<not> window_bound w sc (subject_at (en_db en)) q)"
proof -
  obtain f en1 where f: "op_FindBySessionScope NewSubjectStore (w_Session w) sc en = (Inr f, en1)"
      "(case f of Some s \<Rightarrow> return_op (Some s) | None \<Rightarrow> op_FindLatestByWindowScope NewSubjectStore (w_ClaudePID w) sc) en1 = (Inr x, en')"
    using bind_op_Inr [OF assms(2) [unfolded Find_def subjects_of_def sql_resolver_store]] by blast
  show ?thesis
  proof (cases f)
    case (Some s)
    then show ?thesis using f sql.session_found [OF assms(1), of "w_Session w" sc s en1]
      by (auto simp: session_bound_def return_op_def)
  next
    case None
    have en1: "subjects_inv (en_db en1)" "subject_at (en_db en1) = subject_at (en_db en)"
      using sql.ok_after(1) [OF assms(1) f(1)] sql.read_after(1) [OF f(1)] by simp_all
    have l: "op_FindLatestByWindowScope NewSubjectStore (w_ClaudePID w) sc en1 = (Inr x, en')" using f(2) None by simp
    show ?thesis
    proof (cases x)
      case (Some s)
      then show ?thesis using sql.latest_found [OF en1(1), of "w_ClaudePID w" sc s en'] l en1(2) by (auto simp: window_bound_def)
    next
      case x: None
      then show ?thesis
        using sql.session_none [OF assms(1), of "w_Session w" sc en1] f(1) None
          sql.latest_none [OF en1(1), of "w_ClaudePID w" sc en'] l en1(2)
        by (auto simp: session_bound_def window_bound_def)
    qed
  qed
qed

text \<open>The verdict the guard answers with, from the outcome of the lookup.\<close>

definition guard_verdict :: "Config \<Rightarrow> HandlerCtx \<Rightarrow> Subject option result \<Rightarrow> bool \<times> string" where
  "guard_verdict cf hc r =
     (case r of
        Inl _ \<Rightarrow> (False, cf_gateErrorReason cf)
      | Inr None \<Rightarrow> (True, [])
      | Inr (Some sub) \<Rightarrow> (case cf_gate cf of None \<Rightarrow> (True, []) | Some gate \<Rightarrow> gate sub (cf_guardBody cf (env_Body (hc_Env hc)))))"

lemma guard_edit_run:
  assumes "Find (subjects_of cf) (hc_Window hc) (guard_scope cf hc) (sv_eng s) = (r, en')"
  shows "\<exists>obs. handler_of (handleGuardEdit cf hc) s =
       Some (okReply\<lparr>rp_Allow := fst (guard_verdict cf hc r), rp_Reason := snd (guard_verdict cf hc r)\<rparr>, s\<lparr>sv_eng := en', sv_observed := obs\<rparr>) \<and>
     obs = (case r of
              Inr (Some sub) \<Rightarrow> if cf_gateObserve cf
                then sv_observed s @ [(s_ID sub, cf_guardBody cf (env_Body (hc_Env hc)), guard_verdict cf hc r)] else sv_observed s
            | _ \<Rightarrow> sv_observed s) \<and>
     en_db en' = en_db (sv_eng s)"
proof -
  have "en_db en' = en_db (sv_eng s)"
    using find_pure [of _ _ "hc_Window hc" "guard_scope cf hc" "sv_eng s"] assms by (metis snd_conv subjects_of_def)
  then show ?thesis using assms
    by (auto simp: handler_of_def handleGuardEdit_def guard_verdict_def fop_defs on_store_def Let_def okReply_def
      split: sum.split option.split prod.split)
qed

text \<open>
  C18: The edit guard fails closed and writes nothing. Whatever the body of the request and the
  answers of the SQL engine, a guard-edit returns without changing the database. When the
  lookup fails the edit is refused with the configured reason. The edit is allowed only if no
  subject is bound to the window, by session or by process, in the scope of the edited file,
  or if the gate allowed it for a subject that is; and every such verdict is observed once
  when an observer is configured.
\<close>

theorem guard_edit_fails_closed:
  assumes "subjects_inv (en_db (sv_eng s))"
  shows "\<exists>reply s'. handler_of (handleGuardEdit cf hc) s = Some (reply, s') \<and> en_db (sv_eng s') = en_db (sv_eng s) \<and> rp_OK reply \<and>
    (\<forall>er. fst (Find (subjects_of cf) (hc_Window hc) (guard_scope cf hc) (sv_eng s)) = Inl er \<longrightarrow>
       \<not> rp_Allow reply \<and> rp_Reason reply = cf_gateErrorReason cf \<and> sv_observed s' = sv_observed s) \<and>
    (rp_Allow reply \<longrightarrow>
       (\<forall>q. \<not> session_bound (hc_Window hc) (guard_scope cf hc) (subject_at (en_db (sv_eng s))) q \<and>
            \<not> window_bound (hc_Window hc) (guard_scope cf hc) (subject_at (en_db (sv_eng s))) q) \<or>
       (\<exists>q. (session_bound (hc_Window hc) (guard_scope cf hc) (subject_at (en_db (sv_eng s))) q \<or>
             window_bound (hc_Window hc) (guard_scope cf hc) (subject_at (en_db (sv_eng s))) q) \<and>
            (case cf_gate cf of None \<Rightarrow> True | Some gate \<Rightarrow> fst (gate q (cf_guardBody cf (env_Body (hc_Env hc))))) \<and>
            (cf_gateObserve cf \<longrightarrow> sv_observed s' = sv_observed s @
               [(s_ID q, cf_guardBody cf (env_Body (hc_Env hc)), True, rp_Reason reply)])))"
proof -
  obtain r en' where r: "Find (subjects_of cf) (hc_Window hc) (guard_scope cf hc) (sv_eng s) = (r, en')" by fastforce
  obtain obs where run: "handler_of (handleGuardEdit cf hc) s =
       Some (okReply\<lparr>rp_Allow := fst (guard_verdict cf hc r), rp_Reason := snd (guard_verdict cf hc r)\<rparr>, s\<lparr>sv_eng := en', sv_observed := obs\<rparr>)"
    and obs: "obs = (case r of
              Inr (Some sub) \<Rightarrow> if cf_gateObserve cf
                then sv_observed s @ [(s_ID sub, cf_guardBody cf (env_Body (hc_Env hc)), guard_verdict cf hc r)] else sv_observed s
            | _ \<Rightarrow> sv_observed s)"
    and db: "en_db en' = en_db (sv_eng s)"
    using guard_edit_run [OF r] by blast
  show ?thesis
  proof (cases r)
    case (Inl er)
    then show ?thesis using run r db obs by (simp add: okReply_def guard_verdict_def)
  next
    case (Inr x)
    note found = find_outcome [OF assms r [unfolded Inr]]
    show ?thesis
    proof (cases x)
      case None
      then show ?thesis using run r db found Inr by (simp add: okReply_def guard_verdict_def)
    next
      case (Some q)
      obtain allow reason where v: "(case cf_gate cf of None \<Rightarrow> (True, []) | Some gate \<Rightarrow> gate q (cf_guardBody cf (env_Body (hc_Env hc)))) = (allow, reason)"
        by fastforce
      then have "allow = (case cf_gate cf of None \<Rightarrow> True | Some gate \<Rightarrow> fst (gate q (cf_guardBody cf (env_Body (hc_Env hc)))))"
        by (auto split: option.splits)
      then show ?thesis using run r db found Inr Some v obs by (simp add: okReply_def guard_verdict_def) blast
    qed
  qed
qed

theorem guard_edit_fails_closed_witness:
  "\<exists>reply s'. handler_of (handleGuardEdit (sample_config\<lparr>cf_gate := Some (\<lambda>_ _. (False, ''review open''))\<rparr>)
      \<lparr>hc_Env = sample_envelope ''guard-edit'', hc_Window = \<lparr>w_Session = ''sess'', w_ClaudePID = 7\<rparr>, hc_Scope = ''repo''\<rparr>) sample_server
      = Some (reply, s') \<and> \<not> rp_Allow reply"
proof -
  let ?cf = "sample_config\<lparr>cf_gate := Some (\<lambda>_ _. (False, ''review open''))\<rparr>"
  let ?hc = "\<lparr>hc_Env = sample_envelope ''guard-edit'', hc_Window = \<lparr>w_Session = ''sess'', w_ClaudePID = 7\<rparr>, hc_Scope = ''repo''\<rparr>"
  have inv: "subjects_inv (en_db (sv_eng sample_server))" using sample_server_inv by (simp add: server_inv_def store_inv_def)
  have scope: "guard_scope ?cf ?hc = ''repo''" by (simp add: guard_scope_def EditDir_def ToolFilePath_def sample_config_def)
  have "session_bound (hc_Window ?hc) ''repo'' (subject_at (en_db (sv_eng sample_server))) (scanSubject (sample_subject ''s1'' ''sess'' 7 5))"
    by (simp add: session_bound_def subject_at_def row_at_def sample_server_def sample_subject_def scanSubject_def nullString_def ofNull_def)
  then show ?thesis using guard_edit_fails_closed [OF inv, of ?cf ?hc] unfolding scope by auto
qed

section \<open>The channel handshake\<close>

text \<open>
  Proving a channel. While a window's consumer is attached to a subject but unproven,
  asking for the channel state answers pending and offers the probe frame to the streams of
  exactly that window, consumer and subject: a queue that was empty holds the probe, a full
  one keeps its frame, no other stream is touched, and nothing is written to the log or to
  the presence registry. Once that window acknowledges, the state is active and no further
  probe is sent. An acknowledgement without a window is refused.
\<close>

theorem channel_handshake:
  assumes "Attached sid consumer pid (sv_activity s)" and "\<not> Proven pid (sv_activity s)" and "pid \<noteq> 0"
    and "env_ClaudePID (hc_Env hc) = pid"
  shows "\<exists>s1 s2. ChannelState hc sid consumer s = Some (Inr ChannelPending, s1) \<and>
     s1 = s\<lparr>sv_sse := sv_sse s1\<rparr> \<and>
     (\<forall>k ch q. (ch, q) \<in> set (ss_injects (sv_sse s) k) \<longrightarrow>
        (ch, if k = (sid, consumer, pid) \<and> q = None then Some probePayload else q) \<in> set (ss_injects (sv_sse s1) k)) \<and>
     (\<forall>k. k \<noteq> (sid, consumer, pid) \<longrightarrow> ss_injects (sv_sse s1) k = ss_injects (sv_sse s) k) \<and>
     ss_emitted (sv_sse s1) = ss_emitted (sv_sse s) \<and>
     handleChannelAck hc s1 = Some (Inr okReply, s2) \<and>
     ChannelState hc sid consumer s2 = Some (Inr ChannelActive, s2)"
proof -
  define s1 where "s1 = s\<lparr>sv_sse := snd (Inject sid consumer pid probePayload (sv_sse s))\<rparr>"
  define s2 where "s2 = s1\<lparr>sv_activity := MarkProven pid (sv_activity s1)\<rparr>"
  have "ChannelState hc sid consumer s = Some (Inr ChannelPending, s1)"
    using assms by (simp add: ChannelState_def InjectEvent_def fop_defs s1_def Let_def split: prod.split)
  moreover have "handleChannelAck hc s1 = Some (Inr okReply, s2)"
    using assms(3,4) by (simp add: handleChannelAck_def fop_defs s2_def)
  moreover have "ChannelState hc sid consumer s2 = Some (Inr ChannelActive, s2)"
    using assms(1,4) by (simp add: ChannelState_def fop_defs s1_def s2_def Attached_def MarkProven_def Proven_def)
  moreover have "(ch, if k = (sid, consumer, pid) \<and> q = None then Some probePayload else q) \<in> set (ss_injects (sv_sse s1) k)"
    if "(ch, q) \<in> set (ss_injects (sv_sse s) k)" for k ch q
    using that by (cases q) (force simp: s1_def Inject_def Let_def)+
  ultimately show ?thesis
    by (intro exI [of _ s1] exI [of _ s2]) (simp add: s1_def Inject_def Let_def)
qed

theorem channel_handshake_witness:
  "\<exists>s1 s2. ChannelState \<lparr>hc_Env = sample_envelope ''status'', hc_Window = \<lparr>w_Session = ''sess'', w_ClaudePID = 7\<rparr>, hc_Scope = ''repo''\<rparr>
     ''s1'' ''channel'' (sample_server\<lparr>sv_activity := Attach ''s1'' ''channel'' 7 NewActivity,
        sv_sse := snd (attachInject (''s1'', ''channel'', 7) new_sse)\<rparr>) = Some (Inr ChannelPending, s1) \<and>
     ss_injects (sv_sse s1) (''s1'', ''channel'', 7) = [(0, Some probePayload)] \<and>
     ChannelState \<lparr>hc_Env = sample_envelope ''status'', hc_Window = \<lparr>w_Session = ''sess'', w_ClaudePID = 7\<rparr>, hc_Scope = ''repo''\<rparr>
       ''s1'' ''channel'' s2 = Some (Inr ChannelActive, s2)"
proof -
  let ?s = "sample_server\<lparr>sv_activity := Attach ''s1'' ''channel'' 7 NewActivity,
        sv_sse := snd (attachInject (''s1'', ''channel'', 7) new_sse)\<rparr>"
  let ?hc = "\<lparr>hc_Env = sample_envelope ''status'', hc_Window = \<lparr>w_Session = ''sess'', w_ClaudePID = 7\<rparr>, hc_Scope = ''repo''\<rparr>"
  have "Attached ''s1'' ''channel'' 7 (sv_activity ?s)" "\<not> Proven 7 (sv_activity ?s)" "env_ClaudePID (hc_Env ?hc) = 7"
    by (simp_all add: Attached_def Attach_def lookup0_def NewActivity_def Proven_def Let_def sample_envelope_def)
  from channel_handshake [OF this(1,2) _ this(3)]
  obtain s1 s2 where h: "ChannelState ?hc ''s1'' ''channel'' ?s = Some (Inr ChannelPending, s1)"
      "ChannelState ?hc ''s1'' ''channel'' s2 = Some (Inr ChannelActive, s2)" by auto
  moreover have "ss_injects (sv_sse s1) (''s1'', ''channel'', 7) = [(0, Some probePayload)]"
    using h(1) by (auto simp: ChannelState_def InjectEvent_def fop_defs Let_def Attached_def Attach_def lookup0_def NewActivity_def
        Proven_def sample_envelope_def Inject_def attachInject_def new_sse_def)
  ultimately show ?thesis by blast
qed

end
