(* ===== verification/Connectivity.thy ===== *)
theory Connectivity
  imports Daemon_Handlers
begin

text \<open>
  The channel-presence lifecycle of \<open>channel/connectivity.go\<close>: the presence event appended when a
  consumer connects or disconnects, and the pass at boot that closes out the subjects whose
  log still says connected after a daemon died. SQLite's \<open>json_extract(payload,'$.connected')=1\<close>
  is the parameter \<open>says_connected\<close>; its error on a payload that is not JSON is one of the
  failures of the engine.
\<close>

section \<open>Presence events\<close>

record Connectivity =
  cn_EventType :: string

definition DefaultConnectivityEventType :: string where
  "DefaultConnectivityEventType = ''channel.changed''"

definition presence_Type :: "Connectivity \<Rightarrow> string" where
  "presence_Type c = (if cn_EventType c = [] then DefaultConnectivityEventType else cn_EventType c)"

definition presencePayload :: "string \<Rightarrow> bool \<Rightarrow> string" where
  "presencePayload typ connected =
     json_object [(''connected'', JRaw (if connected then ''true'' else ''false'')), (''type'', JString typ)]"

definition presence_event :: "string \<Rightarrow> string \<Rightarrow> bool \<Rightarrow> Event" where
  "presence_event typ subjectID connected = new_event subjectID OriginSystem typ (presencePayload typ connected) []"

definition OnPresenceChange :: "Connectivity \<Rightarrow> Config \<Rightarrow> nat \<Rightarrow> string \<Rightarrow> bool \<Rightarrow> (Server, unit) fop" where
  "OnPresenceChange c cf n subjectID connected =
     try_f (Append cf n (presence_event (presence_Type c) subjectID connected)) (\<lambda>_. ret_f ())"

section \<open>Reconciling at boot\<close>

definition stale_ids :: "(string \<Rightarrow> bool) \<Rightarrow> string \<Rightarrow> db \<Rightarrow> string list" where
  "stale_ids says_connected typ d =
     map ev_subject (filter (\<lambda>r. ev_type r = typ \<and> says_connected (ev_payload r) \<and>
       ev_seq r = max_of (map ev_seq (filter (\<lambda>q. ev_subject q = ev_subject r \<and> ev_type q = typ) (events d)))) (events d))"

definition staleConnectedSubjects :: "(string \<Rightarrow> bool) \<Rightarrow> string \<Rightarrow> outcome \<Rightarrow> db \<Rightarrow> string list result \<times> db" where
  "staleConnectedSubjects says_connected typ flt =
     db_call flt (\<lambda>d. (Inr (stale_ids says_connected typ d), d))"

primrec reconcile_appends :: "Config \<Rightarrow> nat \<Rightarrow> string \<Rightarrow> string list \<Rightarrow> (Server, unit) fop" where
  "reconcile_appends cf n typ [] = ret_f ()"
| "reconcile_appends cf n typ (i # ids) =
     bind_f (wrap_f (''reconcile '' @ typ @ '' events'') (Append cf n (presence_event typ i False)))
       (\<lambda>_. reconcile_appends cf n typ ids)"

definition BootReconcile :: "(string \<Rightarrow> bool) \<Rightarrow> Connectivity \<Rightarrow> Config \<Rightarrow> nat \<Rightarrow> (Server, unit) fop" where
  "BootReconcile says_connected c cf n =
     (let typ = presence_Type c
      in bind_f (wrap_f (''reconcile '' @ typ @ '' events'') (wrap_f ''stale connected subjects''
           (on_store (on_db (staleConnectedSubjects says_connected typ)))))
         (reconcile_appends cf n typ))"

section \<open>What an append adds to the log\<close>

text \<open>
  Past its own row an append adds only rows of the two types that a directive appends, whatever
  the tee does.
\<close>

definition grown :: "event_row list \<Rightarrow> string set \<Rightarrow> db \<Rightarrow> bool" where
  "grown base ts d \<longleftrightarrow> store_inv d \<and> (\<exists>more. events d = base @ more \<and> (\<forall>r \<in> set more. ev_type r \<in> ts))"

abbreviation grown_server :: "event_row list \<Rightarrow> string set \<Rightarrow> Server \<Rightarrow> bool" where
  "grown_server base ts s \<equiv> grown base ts (en_db (sv_eng s))"

lemma grown_AppendEvent:
  assumes "grown base ts d" and "e_Type e \<in> ts"
  shows "grown base ts (snd (AppendEvent flt now e d))"
proof (cases flt)
  case None
  have "log_inv d" using assms(1) by (simp add: grown_def store_inv_def)
  moreover have "store_inv (snd (AppendEvent flt now e d))" using assms(1) by (intro store_inv_append) (simp add: grown_def)
  ultimately show ?thesis using assms None by (auto simp: grown_def append_body split: option.splits)
qed (use assms(1) in simp)

lemma grown_EnqueueDirective: "grown base ts d \<Longrightarrow> grown base ts (snd (EnqueueDirective flt sid aid org tx now d))"
  by (simp add: grown_def store_inv_agents frame_simps)

lemma grown_store:
  "(\<And>flt now d. grown base ts d \<Longrightarrow> grown base ts (snd (f flt now d))) \<Longrightarrow> keeps_f (grown_server base ts) (on_store (on_db_now f))"
  by (rule keeps_on_store [OF on_db_now_keeps])

lemma grown_direct:
  assumes "\<And>e. e_Type e = EventDirected \<or> e_Type e = EventRelay \<Longrightarrow> keeps_f (grown_server base ts) (app e)"
  shows "keeps_f (grown_server base ts) (direct_with app sid aid org tx)"
proof -
  have "keeps_f (grown_server base ts) (app (directedEvent d))" "keeps_f (grown_server base ts) (app (relayEvent a b))" for d a b
    by (auto intro!: assms simp: event_builders)
  then show ?thesis unfolding direct_with_def
    by (auto intro!: keeps_f_bind keeps_f_wrap grown_store grown_EnqueueDirective keeps_f_modify split: prod.split)
qed

lemma grown_tee:
  assumes "\<And>e. e_Type e = EventDirected \<or> e_Type e = EventRelay \<Longrightarrow> keeps_f (grown_server base ts) (app e)"
  shows "keeps_f (grown_server base ts) (teeToSubscribers cf app e)"
proof -
  have "keeps_f (grown_server base ts) (tee_each app e as)" for "as"
    by (induction "as") (auto intro!: grown_direct assms)
  then show ?thesis unfolding teeToSubscribers_def by auto
qed

lemma grown_Append:
  assumes "{EventDirected, EventRelay} \<subseteq> ts"
  shows "e_Type e \<in> ts \<Longrightarrow> keeps_f (grown_server base ts) (Append cf n e)"
proof (induction n arbitrary: e)
  case (Suc n)
  have "keeps_f (grown_server base ts) (teeToSubscribers cf (Append cf n) e)" for e
    by (rule grown_tee) (use Suc assms in auto)
  then show ?case unfolding Append.simps using Suc(2)
    by (intro keeps_f_bind keeps_f_wrap grown_store grown_AppendEvent) (auto split: prod.split intro!: keeps_f_bind)
qed auto

lemma append_log:
  assumes "Append cf n e s = Some (Inr seq, s')" and "server_inv s" and "e_DedupKey e = []"
  shows "\<exists>now. grown (events (en_db (sv_eng s)) @ [append_row now e (en_db (sv_eng s))]) {EventDirected, EventRelay} (en_db (sv_eng s'))"
proof -
  obtain m where n: "n = Suc m" using assms(1) by (cases n) (simp_all add: stuck_f_def)
  let ?call = "\<lambda>flt now. AppendEvent flt now e" and ?d = "en_db (sv_eng s)"
  have run: "bind_f (wrap_f (''append '' @ e_Type e @ '' event'') (on_store (on_db_now ?call))) (\<lambda>(seq, e').
      bind_f (modify_f (\<lambda>s. s\<lparr>sv_bus := Publish (e_SubjectID e') (sv_bus s)\<rparr>)) (\<lambda>_.
      bind_f (teeToSubscribers cf (Append cf m) e') (\<lambda>_. ret_f seq))) s = Some (Inr seq, s')"
    using assms(1) by (simp add: n)
  obtain x s1 where "wrap_f (''append '' @ e_Type e @ '' event'') (on_store (on_db_now ?call)) s = Some (Inr x, s1)"
    and rest': "(\<lambda>(seq, e'). bind_f (modify_f (\<lambda>s. s\<lparr>sv_bus := Publish (e_SubjectID e') (sv_bus s)\<rparr>)) (\<lambda>_.
      bind_f (teeToSubscribers cf (Append cf m) e') (\<lambda>_. ret_f seq))) x s1 = Some (Inr seq, s')"
    by (rule bind_f_SomeE [OF run])
  then have c: "on_db_now ?call (sv_eng s) = (Inr x, sv_eng s1)" by (simp add: wrap_f_Inr on_store_result)
  have rest: "bind_f (modify_f (\<lambda>s. s\<lparr>sv_bus := Publish (e_SubjectID (snd x)) (sv_bus s)\<rparr>)) (\<lambda>_.
      bind_f (teeToSubscribers cf (Append cf m) (snd x)) (\<lambda>_. ret_f (fst x))) s1 = Some (Inr seq, s')"
    using rest' by (simp add: split_beta)
  obtain now where call: "AppendEvent (next_outcome (sv_eng s)) now e ?d = (Inr x, en_db (sv_eng s1))" using on_db_now_call [OF c] by blast
  have inv: "log_inv ?d" using assms(2) by (simp add: server_inv_def store_inv_def)
  have "next_outcome (sv_eng s) = None" using call by (cases "next_outcome (sv_eng s)") auto
  with call have db: "en_db (sv_eng s1) = ?d\<lparr>events := events ?d @ [append_row now e ?d]\<rparr>"
    using assms(3) by (auto simp: append_body [OF inv] seen_row_def split: if_splits)
  have "store_inv (en_db (sv_eng s1))"
    using store_inv_append [of ?d "next_outcome (sv_eng s)" now e] assms(2) call by (simp add: server_inv_def)
  then have start: "grown_server (events ?d @ [append_row now e ?d]) {EventDirected, EventRelay} s1"
    by (simp add: grown_def db)
  have "keeps_f (grown_server (events ?d @ [append_row now e ?d]) {EventDirected, EventRelay})
    (bind_f (modify_f (\<lambda>s. s\<lparr>sv_bus := Publish (e_SubjectID (snd x)) (sv_bus s)\<rparr>)) (\<lambda>_.
      bind_f (teeToSubscribers cf (Append cf m) (snd x)) (\<lambda>_. ret_f (fst x))))"
    by (intro keeps_f_bind keeps_f_modify grown_tee grown_Append) auto
  from keeps_fD [OF this start rest] show ?thesis by blast
qed

section \<open>After a boot nobody is connected\<close>

text \<open>What the log says of a subject: its last presence event.\<close>

definition latest_connected :: "(string \<Rightarrow> bool) \<Rightarrow> string \<Rightarrow> db \<Rightarrow> string \<Rightarrow> bool" where
  "latest_connected says_connected typ d sid =
     (let rs = filter (\<lambda>r. ev_subject r = sid \<and> ev_type r = typ) (events d)
      in rs \<noteq> [] \<and> says_connected (ev_payload (last rs)))"

lemma stale_iff:
  assumes "log_inv d"
  shows "sid \<in> set (stale_ids says typ d) \<longleftrightarrow> latest_connected says typ d sid"
proof -
  define rs where "rs = filter (\<lambda>r. ev_subject r = sid \<and> ev_type r = typ) (events d)"
  have rs: "rs = filter (\<lambda>r. ev_type r = typ) (log_of d sid)"
    unfolding rs_def log_of_def filter_filter by (rule filter_cong) auto
  have seqs: "map ev_seq (log_of d sid) = [1..int (length (log_of d sid))]" using assms by (intro denseD) (simp add: log_inv_def)
  have sorted: "sorted (map ev_seq rs)" unfolding rs by (rule sorted_filter) (simp add: seqs)
  have dist: "distinct (map ev_seq rs)" unfolding rs by (rule distinct_map_filter) (simp add: seqs)
  have top: "max_of (map ev_seq rs) = ev_seq (last rs)" if "rs \<noteq> []"
    using that sorted_last_ge [OF sorted] by (auto simp: max_of_def intro!: Max_eqI)
  have same: "filter (\<lambda>q. ev_subject q = ev_subject r \<and> ev_type q = typ) (events d) = rs" if "r \<in> set rs" for r
    using that by (auto simp: rs_def)
  have "sid \<in> set (stale_ids says typ d) \<longleftrightarrow> (\<exists>r \<in> set rs. says (ev_payload r) \<and> ev_seq r = max_of (map ev_seq rs))"
    unfolding stale_ids_def rs_def by auto
  also have "\<dots> \<longleftrightarrow> rs \<noteq> [] \<and> says (ev_payload (last rs))"
  proof (cases "rs = []")
    case False
    have "r = last rs" if "r \<in> set rs" "ev_seq r = ev_seq (last rs)" for r
      using that False dist by (meson distinct_map inj_onD last_in_set)
    then show ?thesis using False top by auto
  qed simp
  finally show ?thesis by (simp add: latest_connected_def rs_def Let_def)
qed

lemma append_latest:
  assumes "Append cf n (presence_event typ i False) s = Some (Inr seq, s')" and "server_inv s"
    and "typ \<noteq> EventDirected" and "typ \<noteq> EventRelay" and "\<not> says (presencePayload typ False)"
  shows "server_inv s' \<and> latest_connected says typ (en_db (sv_eng s')) sid =
    (sid \<noteq> i \<and> latest_connected says typ (en_db (sv_eng s)) sid)"
proof -
  let ?e = "presence_event typ i False"
  obtain now more where inv: "server_inv s'"
    and ev: "events (en_db (sv_eng s')) = events (en_db (sv_eng s)) @ append_row now ?e (en_db (sv_eng s)) # more"
    and more: "\<forall>r \<in> set more. ev_type r \<in> {EventDirected, EventRelay}"
    using append_log [OF assms(1,2)] by (auto simp: presence_event_def new_event_def grown_def server_inv_def)
  have none: "filter (\<lambda>r. ev_subject r = sid \<and> ev_type r = typ) more = []"
    using more assms(3,4) by (auto simp: filter_empty_conv)
  have "ev_payload (append_row now ?e (en_db (sv_eng s))) = presencePayload typ False"
    by (simp add: append_row_def presence_event_def new_event_def presencePayload_def json_object_def)
  then show ?thesis using inv assms(5) none
    by (auto simp: latest_connected_def ev presence_event_def new_event_def Let_def)
qed

lemma reconcile_latest:
  assumes "typ \<noteq> EventDirected" and "typ \<noteq> EventRelay" and "\<not> says (presencePayload typ False)"
  shows "reconcile_appends cf n typ ids s = Some (Inr u, s') \<Longrightarrow> server_inv s \<Longrightarrow>
    server_inv s' \<and> (\<forall>sid. latest_connected says typ (en_db (sv_eng s')) sid \<longleftrightarrow>
      sid \<notin> set ids \<and> latest_connected says typ (en_db (sv_eng s)) sid)"
proof (induction ids arbitrary: s)
  case Nil
  then show ?case by (simp add: ret_f_def)
next
  case (Cons i ids)
  obtain seq s1 where a: "Append cf n (presence_event typ i False) s = Some (Inr seq, s1)"
    and r: "reconcile_appends cf n typ ids s1 = Some (Inr u, s')"
    using Cons(2) by (auto simp: wrap_f_Inr elim!: bind_f_SomeE)
  from append_latest [where says = says, OF a Cons(3) assms] Cons(1) [OF r] show ?case by auto
qed

text \<open>
  A boot closes out presence. When the pass at boot succeeds, no subject's last presence event
  says connected, so that a second pass would find nothing, and the store's invariant holds;
  with subscriptions that keep off the daemon's own event types the pass always returns.
\<close>

theorem boot_closes_presence:
  assumes "typ = presence_Type c" and "typ \<noteq> EventDirected" and "typ \<noteq> EventRelay"
    and "\<not> says (presencePayload typ False)" and "server_inv s"
  shows "(\<forall>n s'. BootReconcile says c cf n s = Some (Inr (), s') \<longrightarrow> server_inv s' \<and>
      stale_ids says typ (en_db (sv_eng s')) = [] \<and> (\<forall>sid. \<not> latest_connected says typ (en_db (sv_eng s')) sid)) \<and>
    (quiet s \<longrightarrow> (\<forall>n. \<exists>r s'. BootReconcile says c cf (Suc (Suc n)) s = Some (r, s')))"
proof (intro conjI allI impI)
  fix n s' assume run: "BootReconcile says c cf n s = Some (Inr (), s')"
  obtain ids s1 where q: "on_store (on_db (staleConnectedSubjects says typ)) s = Some (Inr ids, s1)"
    and rest: "reconcile_appends cf n typ ids s1 = Some (Inr (), s')"
    using run unfolding BootReconcile_def Let_def assms(1) [symmetric] by (auto simp: wrap_f_Inr elim!: bind_f_SomeE)
  have same: "ids = stale_ids says typ (en_db (sv_eng s)) \<and> en_db (sv_eng s1) = en_db (sv_eng s)"
  proof (rule on_store_SomeE [OF q])
    fix flt assume "staleConnectedSubjects says typ flt (en_db (sv_eng s)) = (Inr ids, en_db (sv_eng s1))"
    then show ?thesis by (cases flt) (auto simp: staleConnectedSubjects_def)
  qed
  then have inv1: "server_inv s1" using assms(5) by (simp add: server_inv_def)
  have li: "log_inv (en_db (sv_eng s))" using assms(5) by (simp add: server_inv_def store_inv_def)
  have r: "server_inv s'" "\<And>sid. \<not> latest_connected says typ (en_db (sv_eng s')) sid"
    using reconcile_latest [where says = says, OF assms(2-4) rest inv1] same stale_iff [OF li] by auto
  then show "server_inv s'" "\<not> latest_connected says typ (en_db (sv_eng s')) sid" for sid by simp_all
  have "log_inv (en_db (sv_eng s'))" using r(1) by (simp add: server_inv_def store_inv_def)
  then show "stale_ids says typ (en_db (sv_eng s')) = []" using stale_iff [of "en_db (sv_eng s')"] r(2) by (metis list.set_intros(1) neq_Nil_conv)
next
  fix n assume q: "quiet s"
  have "returns_f quiet (reconcile_appends cf (Suc (Suc n)) typ ids)" for ids
  proof (induction ids)
    case (Cons i ids)
    then show ?case unfolding reconcile_appends.simps by (intro returns_f_bind returns_f_wrap returns_Append)
  qed (simp add: returns_f_basic)
  then have "returns_f quiet (BootReconcile says c cf (Suc (Suc n)))"
    unfolding BootReconcile_def Let_def assms(1) [symmetric]
    by (intro returns_f_bind returns_f_wrap returns_on_store) simp
  from returns_fD [OF this q] show "\<exists>r s'. BootReconcile says c cf (Suc (Suc n)) s = Some (r, s')"
    by (elim exE conjE) (rule exI)+
qed

text \<open>A daemon that died while its channel was connected.\<close>

definition sample_says :: "string \<Rightarrow> bool" where
  "sample_says p \<longleftrightarrow> p = presencePayload ''channel.changed'' True"

definition sample_stale :: Server where
  "sample_stale = (case OnPresenceChange \<lparr>cn_EventType = []\<rparr> sample_config 2 ''s1'' True sample_server of Some (_, s) \<Rightarrow> s | None \<Rightarrow> sample_server)"

lemma sample_stale_inv: "server_inv sample_stale"
proof -
  have "keeps_f server_inv (OnPresenceChange \<lparr>cn_EventType = []\<rparr> sample_config 2 ''s1'' True)"
    unfolding OnPresenceChange_def by (intro keeps_f_try keeps_Append) auto
  then show ?thesis using sample_server_inv
    by (auto simp: sample_stale_def dest: keeps_fD split: option.split prod.split)
qed

lemma sample_boot:
  "(case BootReconcile sample_says \<lparr>cn_EventType = []\<rparr> sample_config 2 sample_stale of Some (Inr _, _) \<Rightarrow> True | _ \<Rightarrow> False)"
  "latest_connected sample_says ''channel.changed'' (en_db (sv_eng sample_stale)) ''s1''"
  by code_simp+

theorem boot_closes_presence_witness:
  "latest_connected sample_says ''channel.changed'' (en_db (sv_eng sample_stale)) ''s1'' \<and>
   (\<exists>s'. BootReconcile sample_says \<lparr>cn_EventType = []\<rparr> sample_config 2 sample_stale = Some (Inr (), s') \<and>
      \<not> latest_connected sample_says ''channel.changed'' (en_db (sv_eng s')) ''s1'')"
proof -
  have ty: "''channel.changed'' = presence_Type \<lparr>cn_EventType = []\<rparr>"
    by (simp add: presence_Type_def DefaultConnectivityEventType_def)
  have other: "''channel.changed'' \<noteq> EventDirected" "''channel.changed'' \<noteq> EventRelay"
    "\<not> sample_says (presencePayload ''channel.changed'' False)" by code_simp+
  from sample_boot(1) obtain s' where run: "BootReconcile sample_says \<lparr>cn_EventType = []\<rparr> sample_config 2 sample_stale = Some (Inr (), s')"
    by (auto split: option.splits prod.splits sum.splits)
  show ?thesis using boot_closes_presence [where says = sample_says, OF ty other sample_stale_inv] run sample_boot(2) by blast
qed

end
