(* ===== verification/Cursor_Seed.thy ===== *)
theory Cursor_Seed
  imports Consume Paths
begin

text \<open>
  Seeding a consumer's cursor from its siblings (\<open>seedCursor\<close> of \<open>consume/consume.go\<close>): a
  watcher that restarts under another process id resumes at the furthest cursor that any
  process of the same base name left, and the files of dead processes are removed. The
  answers of the file system and of the process table are inputs.
\<close>

section \<open>The operation\<close>

record seed_env =
  se_mkdir :: outcome
  se_readSelf :: outcome
  se_entries :: "string list result"
  se_read :: "string \<Rightarrow> outcome"
  se_pidExists :: "int \<Rightarrow> bool result"
  se_remove :: "string \<Rightarrow> outcome"
  se_write :: outcome

text \<open>The process id in the name of a sibling's cursor file.\<close>

definition sibling_pid :: "string \<Rightarrow> string \<Rightarrow> int option" where
  "sibling_pid base name =
     (if \<not> has_prefix name (base @ ''-'') \<or> \<not> has_suffix name ''.cursor'' then None
      else case parseInt 32 (trim_suffix (drop (length (base @ ''-'')) name) ''.cursor'') of
             None \<Rightarrow> None
           | Some pid \<Rightarrow> if pid \<le> 0 then None else Some pid)"

text \<open>Whether an error of \<open>readCursor\<close> is the \<open>strconv.NumError\<close> of a corrupt file.\<close>

definition is_corrupt :: "go_error \<Rightarrow> bool" where
  "is_corrupt e = (case e of ErrWrap p (ErrText b) \<Rightarrow> True | _ \<Rightarrow> False)"

fun scan_siblings :: "seed_env \<Rightarrow> string \<Rightarrow> string \<Rightarrow> string \<Rightarrow> files \<Rightarrow> string list \<Rightarrow> (string \<times> int) list \<Rightarrow> int \<Rightarrow> nat
    \<Rightarrow> ((string \<times> int) list \<times> int \<times> nat) result" where
  "scan_siblings env dir base selfPath fs [] siblings seed warned = Inr (siblings, seed, warned)"
| "scan_siblings env dir base selfPath fs (name # names) siblings seed warned =
     (case sibling_pid base name of
        None \<Rightarrow> scan_siblings env dir base selfPath fs names siblings seed warned
      | Some pid \<Rightarrow>
          let path = Join [dir, name]; siblings' = siblings @ [(path, pid)]
          in if path = selfPath then scan_siblings env dir base selfPath fs names siblings' seed warned
             else
               (case readCursor (se_read env path) path fs of
                  Inl e \<Rightarrow> if is_corrupt e then scan_siblings env dir base selfPath fs names siblings' seed (warned + 1) else Inl e
                | Inr cursor \<Rightarrow>
                    scan_siblings env dir base selfPath fs names siblings' (if cursor > seed then cursor else seed) warned))"

fun remove_dead :: "seed_env \<Rightarrow> (string \<times> int) list \<Rightarrow> files \<Rightarrow> unit result \<times> files" where
  "remove_dead env [] fs = (Inr (), fs)"
| "remove_dead env ((path, pid) # rest) fs =
     (case se_pidExists env pid of
        Inl e \<Rightarrow> (Inl (ErrWrap (''check cursor process '' @ itoa pid) e), fs)
      | Inr True \<Rightarrow> remove_dead env rest fs
      | Inr False \<Rightarrow>
          (case se_remove env path of
             Some m \<Rightarrow> (Inl (ErrWrap (''remove dead cursor '' @ path) (ErrDriver m)), fs)
           | None \<Rightarrow> remove_dead env rest (fs(path := None))))"

definition seedCursor :: "seed_env \<Rightarrow> string \<Rightarrow> string \<Rightarrow> string \<Rightarrow> string \<Rightarrow> files \<Rightarrow> unit result \<times> files" where
  "seedCursor env stateDir subjectID base self fs =
     (case se_mkdir env of
        Some m \<Rightarrow> (Inl (ErrWrap (''ensure cursor directory for '' @ subjectID) (ErrDriver m)), fs)
      | None \<Rightarrow>
          let selfPath = Cursor stateDir subjectID self; dir = SubjectDir stateDir subjectID
          in (case readCursor (se_readSelf env) selfPath fs of
                Inl e \<Rightarrow> (Inl e, fs)
              | Inr seed0 \<Rightarrow>
                  (case se_entries env of
                     Inl e \<Rightarrow> (Inl (ErrWrap (''scan cursor directory '' @ dir) e), fs)
                   | Inr names \<Rightarrow>
                       (case scan_siblings env dir base selfPath fs names [] seed0 0 of
                          Inl e \<Rightarrow> (Inl e, fs)
                        | Inr (siblings, seed, warned) \<Rightarrow>
                            (case remove_dead env siblings fs of
                               (Inl e, fs1) \<Rightarrow> (Inl e, fs1)
                             | (Inr _, fs1) \<Rightarrow>
                                 if seed = 0 then (Inr (), fs1) else writeCursor (se_write env) selfPath seed fs1)))))"

section \<open>What it computes\<close>

text \<open>The cursors that the sibling files of a directory listing hold, other than one's own.\<close>

definition sibling_cursors :: "seed_env \<Rightarrow> string \<Rightarrow> string \<Rightarrow> string \<Rightarrow> files \<Rightarrow> string list \<Rightarrow> int list" where
  "sibling_cursors env dir base selfPath fs names =
     concat (map (\<lambda>name. if sibling_pid base name \<noteq> None \<and> Join [dir, name] \<noteq> selfPath
        then (case readCursor (se_read env (Join [dir, name])) (Join [dir, name]) fs of Inl e \<Rightarrow> [] | Inr c \<Rightarrow> [c]) else []) names)"

definition sibling_files :: "string \<Rightarrow> string \<Rightarrow> string list \<Rightarrow> (string \<times> int) list" where
  "sibling_files dir base names =
     concat (map (\<lambda>name. case sibling_pid base name of None \<Rightarrow> [] | Some pid \<Rightarrow> [(Join [dir, name], pid)]) names)"

lemma scan_siblings_eq:
  assumes "scan_siblings env dir base selfPath fs names siblings seed warned = Inr (siblings', seed', warned')"
  shows "siblings' = siblings @ sibling_files dir base names \<and> seed' = fold max (sibling_cursors env dir base selfPath fs names) seed"
  using assms
proof (induction names arbitrary: siblings seed warned)
  case (Cons name names)
  show ?case
  proof (cases "sibling_pid base name")
    case None
    then show ?thesis using Cons by (simp add: sibling_files_def sibling_cursors_def)
  next
    case (Some pid)
    let ?p = "Join [dir, name]"
    show ?thesis
    proof (cases "?p = selfPath")
      case True
      then have "scan_siblings env dir base selfPath fs names (siblings @ [(?p, pid)]) seed warned = Inr (siblings', seed', warned')"
        using Cons.prems Some by (simp add: Let_def)
      from Cons.IH [OF this] show ?thesis using True Some by (simp add: sibling_files_def sibling_cursors_def)
    next
      case False
      show ?thesis
      proof (cases "readCursor (se_read env ?p) ?p fs")
        case (Inl e)
        then have "scan_siblings env dir base selfPath fs names (siblings @ [(?p, pid)]) seed (warned + 1) = Inr (siblings', seed', warned')"
          using Cons.prems Some False by (auto simp: Let_def split: if_splits)
        from Cons.IH [OF this] show ?thesis using Inl False Some by (simp add: sibling_files_def sibling_cursors_def)
      next
        case (Inr c)
        then have "scan_siblings env dir base selfPath fs names (siblings @ [(?p, pid)]) (if c > seed then c else seed) warned = Inr (siblings', seed', warned')"
          using Cons.prems Some False by (simp add: Let_def)
        from Cons.IH [OF this] show ?thesis using Inr False Some
          by (simp add: sibling_files_def sibling_cursors_def max_def not_less)
      qed
    qed
  qed
qed (simp add: sibling_files_def sibling_cursors_def)

lemma fold_max_base: "k \<le> m \<Longrightarrow> k \<le> fold max xs (m :: int)"
  by (induction xs arbitrary: m) (auto simp: le_max_iff_disj)

lemma fold_max_ge: "x \<in> insert m (set xs) \<Longrightarrow> x \<le> fold max xs (m :: int)"
  by (induction xs arbitrary: m) (auto intro: fold_max_base)

lemma fold_max_in: "fold max xs (m :: int) \<in> insert m (set xs)"
proof (induction xs arbitrary: m)
  case (Cons x xs)
  then show ?case using Cons [of "max x m"] by (auto simp: max_def split: if_splits)
qed simp

lemma remove_dead_files:
  "remove_dead env sibs fs = (r, fs') \<Longrightarrow> fs' q \<noteq> fs q \<Longrightarrow>
     fs' q = None \<and> (\<exists>pid. (q, pid) \<in> set sibs \<and> se_pidExists env pid = Inr False)"
proof (induction env sibs fs rule: remove_dead.induct)
  case (2 env path pid rest fs)
  show ?case
  proof (cases "se_pidExists env pid")
    case (Inr b)
    show ?thesis
    proof (cases b)
      case True
      then show ?thesis using 2 Inr by auto
    next
      case False
      show ?thesis
      proof (cases "se_remove env path")
        case None
        then have "remove_dead env rest (fs(path := None)) = (r, fs')" using "2.prems" Inr False by simp
        note ih = "2.IH"(2) [OF Inr _ None this] False
        show ?thesis
        proof (cases "fs' q = (fs(path := None)) q")
          case True
          then have "q = path" using "2.prems"(2) by (auto split: if_splits)
          then show ?thesis using True Inr False by auto
        qed (use ih in auto)
      qed (use 2 Inr False in auto)
    qed
  qed (use 2 in auto)
qed auto


lemma readCursor_range:
  assumes "readCursor flt path fs = Inr c"
  shows "- (2 ^ 63) \<le> c \<and> c < 2 ^ 63"
proof (cases "fs path")
  case (Some b)
  then have "parseInt 64 (TrimSpace b) = Some c" using assms by (auto simp: readCursor_def split: option.splits)
  from parseInt_range [OF this] show ?thesis by simp
qed (use assms in \<open>auto simp: readCursor_def split: option.splits\<close>)

lemma readCursor_written: "- (2 ^ 63) \<le> c \<Longrightarrow> c < 2 ^ 63 \<Longrightarrow> readCursor None path (fs(path \<mapsto> itoa c)) = Inr c"
  using TrimSpace_solid(1) [OF itoa_solid [of c]] parseInt_itoa [of 64 c] by (simp add: readCursor_def)

lemma sibling_cursors_range: "c \<in> set (sibling_cursors env dir base selfPath fs names) \<Longrightarrow> - (2 ^ 63) \<le> c \<and> c < 2 ^ 63"
  using readCursor_range [of _ _ fs c] unfolding sibling_cursors_def by (fastforce split: if_splits sum.splits)

text \<open>
  A restarted consumer is seeded at the furthest cursor. When seeding succeeds, and the
  consumer's own cursor was an event number or zero, reading its own file then gives the greatest of its own cursor and those of all sibling
  processes whose files can be read (a corrupt one is skipped): at least each of them, and
  equal to one. The only other files that changed are cursor files of siblings whose process
  does not exist; they are removed.
\<close>

theorem seed_furthest:
  assumes "seedCursor env stateDir subjectID base self fs = (Inr (), fs')"
    and "readCursor (se_readSelf env) (Cursor stateDir subjectID self) fs = Inr own" and "se_entries env = Inr names" and "0 \<le> own"
  shows "\<exists>m. readCursor None (Cursor stateDir subjectID self) fs' = Inr m \<and> own \<le> m \<and>
     (\<forall>c \<in> set (sibling_cursors env (SubjectDir stateDir subjectID) base (Cursor stateDir subjectID self) fs names). c \<le> m) \<and>
     m \<in> insert own (set (sibling_cursors env (SubjectDir stateDir subjectID) base (Cursor stateDir subjectID self) fs names)) \<and>
     (\<forall>q. fs' q \<noteq> fs q \<longrightarrow> q = Cursor stateDir subjectID self \<or>
        fs' q = None \<and> (\<exists>pid. (q, pid) \<in> set (sibling_files (SubjectDir stateDir subjectID) base names) \<and> se_pidExists env pid = Inr False))"
proof -
  define self' where "self' = Cursor stateDir subjectID self"
  define dir where "dir = SubjectDir stateDir subjectID"
  define cs where "cs = sibling_cursors env dir base self' fs names"
  obtain sibs seed warned where sc: "scan_siblings env dir base self' fs names [] own 0 = Inr (sibs, seed, warned)"
    using assms by (auto simp: seedCursor_def Let_def self'_def dir_def split: option.splits sum.splits)
  have seed: "sibs = sibling_files dir base names" "seed = fold max cs own" using scan_siblings_eq [OF sc] by (simp_all add: cs_def)
  obtain r fs1 where rm: "remove_dead env sibs fs = (r, fs1)" by fastforce
  have run: "seedCursor env stateDir subjectID base self fs =
      (case r of Inl e \<Rightarrow> (Inl e, fs1) | Inr _ \<Rightarrow> if seed = 0 then (Inr (), fs1) else writeCursor (se_write env) self' seed fs1)"
    using assms sc rm by (auto simp: seedCursor_def Let_def self'_def dir_def split: option.splits sum.splits)
  then have fs': "fs' = fs1 \<and> seed = 0 \<or> fs' = fs1(self' \<mapsto> itoa seed)"
    using assms(1) by (auto simp: writeCursor_def split: sum.splits option.splits if_splits)
  have "own \<le> seed" "\<forall>c \<in> set cs. c \<le> seed" "seed \<in> insert own (set cs)"
    unfolding seed(2) using fold_max_ge fold_max_in by blast+
  moreover have range: "- (2 ^ 63) \<le> seed \<and> seed < 2 ^ 63"
    using \<open>seed \<in> insert own (set cs)\<close> readCursor_range [OF assms(2)] sibling_cursors_range unfolding cs_def by blast
  moreover have "readCursor None self' fs' = Inr seed"
    using fs'
  proof (elim disjE conjE)
    assume z: "fs' = fs1" "seed = 0"
    show ?thesis
    proof (cases "fs1 self' = fs self'")
      case True
      have "own = 0" using \<open>own \<le> seed\<close> z(2) assms(4) by simp
      moreover have "readCursor None self' fs = Inr own" using assms(2) by (auto simp: readCursor_def self'_def split: option.splits)
      ultimately show ?thesis using True z by (simp add: readCursor_def)
    next
      case False
      then show ?thesis using remove_dead_files [OF rm False] z by (simp add: readCursor_def)
    qed
  qed (use readCursor_written range in simp)
  moreover have "q = self' \<or> fs' q = None \<and> (\<exists>pid. (q, pid) \<in> set sibs \<and> se_pidExists env pid = Inr False)" if "fs' q \<noteq> fs q" for q
    using that fs' remove_dead_files [OF rm, of q] by auto
  ultimately show ?thesis unfolding self'_def dir_def cs_def seed(1) by blast
qed


definition sample_seed :: seed_env where
  "sample_seed = \<lparr>se_mkdir = None, se_readSelf = None, se_entries = Inr [''watch-41.cursor'', ''watch-50.cursor'', ''channel.cursor''],
     se_read = (\<lambda>_. None), se_pidExists = (\<lambda>pid. Inr (pid = 50)), se_remove = (\<lambda>_. None), se_write = None\<rparr>"

definition sample_cursors :: files where
  "sample_cursors = [''/st/cc-interact-v1/subjects/s1/watch-41.cursor'' \<mapsto> ''9'', ''/st/cc-interact-v1/subjects/s1/watch-50.cursor'' \<mapsto> ''4'']"

lemma sample_paths:
  "SubjectDir ''/st'' ''s1'' = ''/st/cc-interact-v1/subjects/s1''"
  "Cursor ''/st'' ''s1'' ''watch-60'' = ''/st/cc-interact-v1/subjects/s1/watch-60.cursor''"
  "Join [''/st/cc-interact-v1/subjects/s1'', ''watch-41.cursor''] = ''/st/cc-interact-v1/subjects/s1/watch-41.cursor''"
  "Join [''/st/cc-interact-v1/subjects/s1'', ''watch-50.cursor''] = ''/st/cc-interact-v1/subjects/s1/watch-50.cursor''"
  by code_simp+

lemma sample_pids: "sibling_pid ''watch'' ''watch-41.cursor'' = Some 41" "sibling_pid ''watch'' ''watch-50.cursor'' = Some 50"
  "sibling_pid ''watch'' ''channel.cursor'' = None"
  by code_simp+

lemma sample_reads: "parseInt 64 (TrimSpace ''9'') = Some 9" "parseInt 64 (TrimSpace ''4'') = Some 4"
  by code_simp+

lemma sample_seeded:
  "seedCursor (sample_seed\<lparr>se_write := w\<rparr>) ''/st'' ''s1'' ''watch'' ''watch-60'' sample_cursors =
     (case w of
        None \<Rightarrow> (Inr (), sample_cursors(''/st/cc-interact-v1/subjects/s1/watch-41.cursor'' := None, ''/st/cc-interact-v1/subjects/s1/watch-60.cursor'' \<mapsto> itoa 9))
      | Some m \<Rightarrow> (Inl (ErrWrap (''persist cursor '' @ ''/st/cc-interact-v1/subjects/s1/watch-60.cursor'') (ErrDriver m)),
          sample_cursors(''/st/cc-interact-v1/subjects/s1/watch-41.cursor'' := None)))"
  by (cases w) (simp_all add: seedCursor_def sample_seed_def sample_paths sample_pids Let_def readCursor_def sample_cursors_def sample_reads writeCursor_def)

theorem seed_furthest_witness:
  "\<exists>fs' m. seedCursor sample_seed ''/st'' ''s1'' ''watch'' ''watch-60'' sample_cursors = (Inr (), fs') \<and>
     readCursor None (Cursor ''/st'' ''s1'' ''watch-60'') fs' = Inr m \<and> 9 \<le> m \<and> fs' ''/st/cc-interact-v1/subjects/s1/watch-50.cursor'' = Some ''4''"
proof -
  obtain fs' where run: "seedCursor sample_seed ''/st'' ''s1'' ''watch'' ''watch-60'' sample_cursors = (Inr (), fs')"
      "fs' ''/st/cc-interact-v1/subjects/s1/watch-50.cursor'' = Some ''4''"
    using sample_seeded [of None] by (simp add: sample_seed_def sample_cursors_def)
  have own: "readCursor (se_readSelf sample_seed) (Cursor ''/st'' ''s1'' ''watch-60'') sample_cursors = Inr 0"
    by (simp add: readCursor_def sample_paths sample_cursors_def sample_seed_def)
  have names: "se_entries sample_seed = Inr [''watch-41.cursor'', ''watch-50.cursor'', ''channel.cursor'']" by (simp add: sample_seed_def)
  have "9 \<in> set (sibling_cursors sample_seed (SubjectDir ''/st'' ''s1'') ''watch'' (Cursor ''/st'' ''s1'' ''watch-60'') sample_cursors
      [''watch-41.cursor'', ''watch-50.cursor'', ''channel.cursor''])"
    by (simp add: sibling_cursors_def sample_pids sample_paths readCursor_def sample_seed_def sample_cursors_def sample_reads)
  with seed_furthest [OF run(1) own names] run show ?thesis by auto
qed

text \<open>
  The dead siblings' files are removed before the seed is written: when that write fails, the
  furthest cursor is gone from the disk, and the next start resumes at the beginning.
\<close>

theorem seed_failure_loses_cursor:
  "\<exists>e fs'. seedCursor (sample_seed\<lparr>se_write := Some ''disk full''\<rparr>) ''/st'' ''s1'' ''watch'' ''watch-60'' sample_cursors = (Inl e, fs') \<and>
     fs' ''/st/cc-interact-v1/subjects/s1/watch-41.cursor'' = None \<and> readCursor None (Cursor ''/st'' ''s1'' ''watch-60'') fs' = Inr 0"
  using sample_seeded [of "Some ''disk full''"] by (simp add: sample_paths readCursor_def sample_cursors_def)

end
