(* ===== verification/Subscription_Rebuild.thy ===== *)
theory Subscription_Rebuild
  imports Daemon_Agents
begin

text \<open>
  What the rebuild of the subscription registry at boot (\<open>reconcileSubscriptions\<close> of
  \<open>daemon/subscriptions.go\<close>) leaves: the registry is a function of the running agents of
  the table, with the last registered agent of a type winning on a singleton configuration.
\<close>

section \<open>The rebuilt registry\<close>

text \<open>What an agent subscribes to, and the agent that wins for a subject and type.\<close>

definition wanted :: "(Subject \<Rightarrow> Info \<Rightarrow> string list) \<Rightarrow> subject_row list \<Rightarrow> Info \<Rightarrow> string list" where
  "wanted subscribe subs info = (case find_first (\<lambda>r. sb_id r = ai_SubjectID info) subs of
     None \<Rightarrow> [] | Some r \<Rightarrow> subscribe (scanSubject r) info)"

definition sub_key :: "Info \<Rightarrow> string \<times> string" where
  "sub_key info = (ai_SubjectID info, ai_AgentType info)"

definition agent_key :: "Info \<Rightarrow> string \<times> string" where
  "agent_key info = (ai_SubjectID info, ai_AgentID info)"

definition last_handler :: "(Info \<Rightarrow> string list) \<Rightarrow> Info list \<Rightarrow> string \<times> string \<Rightarrow> Info option" where
  "last_handler want infos k = find_first (\<lambda>i. sub_key i = k \<and> want i \<noteq> []) (rev infos)"

definition rebuilt :: "bool \<Rightarrow> (Info \<Rightarrow> string list) \<Rightarrow> Info list \<Rightarrow> subscriptionRegistry \<Rightarrow> bool" where
  "rebuilt single want infos R \<longleftrightarrow> (\<forall>sid aid ts. map_of (R sid) aid = Some ts \<longleftrightarrow>
     (\<exists>i \<in> set infos. agent_key i = (sid, aid) \<and> want i = ts \<and> ts \<noteq> [] \<and>
        (single \<longrightarrow> last_handler want infos (sub_key i) = Some i)))"

lemma last_handler_snoc:
  "last_handler want (infos @ [i]) k = (if sub_key i = k \<and> want i \<noteq> [] then Some i else last_handler want infos k)"
  by (simp add: last_handler_def)

lemma last_handlerD: "last_handler want infos k = Some i \<Longrightarrow> i \<in> set infos \<and> sub_key i = k \<and> want i \<noteq> []"
  unfolding last_handler_def by (drule find_first_SomeD) simp

lemma map_of_registry_set:
  "map_of (registry_set sid aid ts R sid') aid' =
     (if (sid', aid') = (sid, aid) then if ts = [] then None else Some ts else map_of (R sid') aid')"
  by (auto simp: registry_set_def registry_remove_def update_conv' delete_conv')

lemma map_of_registry_remove:
  "map_of (registry_remove sid aid R sid') aid' = (if (sid', aid') = (sid, aid) then None else map_of (R sid') aid')"
  by (auto simp: registry_remove_def delete_conv')

text \<open>One step of the loop on the registry.\<close>

definition rebuild_step :: "bool \<Rightarrow> (Info \<Rightarrow> string list) \<Rightarrow> Info list \<Rightarrow> Info \<Rightarrow> subscriptionRegistry \<Rightarrow> subscriptionRegistry" where
  "rebuild_step single want seen i R =
     (let R' = registry_set (ai_SubjectID i) (ai_AgentID i) (want i) R
      in if \<not> single \<or> want i = [] then R'
         else case last_handler want seen (sub_key i) of
                None \<Rightarrow> R' | Some held \<Rightarrow> registry_remove (ai_SubjectID held) (ai_AgentID held) R')"

lemma rebuild_step_rebuilt:
  assumes "rebuilt single want seen R" and "agent_key i \<notin> agent_key ` set seen" and "inj_on agent_key (set seen)"
  shows "rebuilt single want (seen @ [i]) (rebuild_step single want seen i R)"
  unfolding rebuilt_def
proof (intro allI)
  fix sid aid ts
  let ?R = "rebuild_step single want seen i R"
  let ?rhs = "\<exists>j \<in> set (seen @ [i]). agent_key j = (sid, aid) \<and> want j = ts \<and> ts \<noteq> [] \<and>
        (single \<longrightarrow> last_handler want (seen @ [i]) (sub_key j) = Some j)"
  have old: "map_of (R sid) aid = Some ts \<longleftrightarrow> (\<exists>j \<in> set seen. agent_key j = (sid, aid) \<and> want j = ts \<and> ts \<noteq> [] \<and>
        (single \<longrightarrow> last_handler want seen (sub_key j) = Some j))" using assms(1) by (simp add: rebuilt_def)
  have held: "agent_key h \<noteq> agent_key i" "h \<in> set seen" "sub_key h = sub_key i" if "last_handler want seen (sub_key i) = Some h" for h
    using last_handlerD [OF that] assms(2) by (metis imageI)+
  show "map_of (?R sid) aid = Some ts \<longleftrightarrow> ?rhs"
  proof (cases "agent_key i = (sid, aid)")
    case True
    then have "j \<in> set seen \<Longrightarrow> agent_key j \<noteq> (sid, aid)" for j using assms(2) by (metis imageI)
    then show ?thesis using True held(1)
      by (auto simp: rebuild_step_def Let_def map_of_registry_set map_of_registry_remove last_handler_snoc agent_key_def split: option.split)
  next
    case False
    note ne = False
    show ?thesis
    proof (cases "single \<and> want i \<noteq> [] \<and> map_option agent_key (last_handler want seen (sub_key i)) = Some (sid, aid)")
      case True
      then obtain h where h: "last_handler want seen (sub_key i) = Some h" "agent_key h = (sid, aid)" by auto
      have "map_of (?R sid) aid = None"
        using True h by (simp add: rebuild_step_def Let_def map_of_registry_remove agent_key_def)
      moreover have "\<not> ?rhs"
      proof
        assume ?rhs
        then obtain j where j: "j \<in> set seen" "agent_key j = (sid, aid)" "last_handler want (seen @ [i]) (sub_key j) = Some j" "want j = ts"
          "ts \<noteq> []" using True ne by auto
        have "sub_key j \<noteq> sub_key i" using j(2,3) True ne by (auto simp: last_handler_snoc split: if_splits)
        moreover have "j = h" using inj_onD [OF assms(3), of j h] j(1,2) h(2) held(2) [OF h(1)] by simp
        ultimately show False using held(3) [OF h(1)] by simp
      qed
      ultimately show ?thesis by simp
    next
      case False
      have "map_of (?R sid) aid = map_of (R sid) aid"
        using False ne by (auto simp: rebuild_step_def Let_def map_of_registry_set map_of_registry_remove agent_key_def split: option.split)
      moreover have "last_handler want (seen @ [i]) (sub_key j) = Some j \<longleftrightarrow> last_handler want seen (sub_key j) = Some j"
        if "agent_key j = (sid, aid)" single for j
        using that False ne by (auto simp: last_handler_snoc split: if_splits)
      ultimately show ?thesis using old ne by auto
    qed
  qed
qed

section \<open>The loop computes it\<close>

lemma Get_step:
  assumes "on_store (on_db (\<lambda>flt. st_Get flt (ai_SubjectID i))) s = Some (Inr sub, s1)"
  shows "subscribe sub i = wanted subscribe (subjects (en_db (sv_eng s))) i"
    "subjects (en_db (sv_eng s1)) = subjects (en_db (sv_eng s))" "sv_subscriptions s1 = sv_subscriptions s"
proof -
  obtain flt where get: "st_Get flt (ai_SubjectID i) (en_db (sv_eng s)) = (Inr sub, en_db (sv_eng s1))"
    "s1 = s\<lparr>sv_eng := sv_eng s1\<rparr>" using on_store_SomeE [OF assms] by blast
  show "sv_subscriptions s1 = sv_subscriptions s" by (subst get(2)) simp
  show "subjects (en_db (sv_eng s1)) = subjects (en_db (sv_eng s))"
    "subscribe sub i = wanted subscribe (subjects (en_db (sv_eng s))) i"
    using get(1) by (cases flt; auto simp: st_Get_def wanted_def split: option.splits)+
qed

lemma reconcile_each_rebuilt:
  assumes "reconcile_each cf subscribe winners infos s = Some (Inr (), s')"
    and "rebuilt (cf_singletonSubscriber cf) want seen (sv_subscriptions s)"
    and "want = wanted subscribe (subjects (en_db (sv_eng s)))"
    and "cf_singletonSubscriber cf \<Longrightarrow> winners = last_handler want seen"
    and "distinct (map agent_key (seen @ infos))"
  shows "rebuilt (cf_singletonSubscriber cf) want (seen @ infos) (sv_subscriptions s')"
  using assms
proof (induction infos arbitrary: winners seen s)
  case Nil
  then show ?case by (simp add: ret_f_def)
next
  case (Cons i infos)
  let ?single = "cf_singletonSubscriber cf"
  obtain sub s1 where get: "on_store (on_db (\<lambda>flt. st_Get flt (ai_SubjectID i))) s = Some (Inr sub, s1)"
    and rest: "(let types = subscribe sub i
     in bind_f (modify_f (\<lambda>s. s\<lparr>sv_subscriptions := registry_set (ai_SubjectID i) (ai_AgentID i) types (sv_subscriptions s)\<rparr>)) (\<lambda>_.
        if \<not> ?single \<or> types = [] then reconcile_each cf subscribe winners infos
        else
          bind_f (case winners (ai_SubjectID i, ai_AgentType i) of
                    None \<Rightarrow> ret_f ()
                  | Some held \<Rightarrow> modify_f (\<lambda>s. s\<lparr>sv_subscriptions :=
                      registry_remove (ai_SubjectID held) (ai_AgentID held) (sv_subscriptions s)\<rparr>)) (\<lambda>_.
          reconcile_each cf subscribe (winners((ai_SubjectID i, ai_AgentType i) \<mapsto> i)) infos))) s1 = Some (Inr (), s')"
    using Cons.prems(1) by (auto simp: wrap_f_Inr elim: bind_f_SomeE)
  note g = Get_step [OF get]
  have types: "subscribe sub i = want i" using g(1) Cons.prems(3) by simp
  define s2 where "s2 = s1\<lparr>sv_subscriptions := rebuild_step ?single want seen i (sv_subscriptions s)\<rparr>"
  define w where "w = (if \<not> ?single \<or> want i = [] then winners else winners((ai_SubjectID i, ai_AgentType i) \<mapsto> i))"
  have "reconcile_each cf subscribe w infos s2 = Some (Inr (), s')"
    using rest Cons.prems(4) g(3) unfolding types
    by (auto simp: s2_def w_def rebuild_step_def Let_def bind_f_pure sub_key_def split: if_splits option.splits)
  moreover have "rebuilt ?single want (seen @ [i]) (sv_subscriptions s2)"
    unfolding s2_def using rebuild_step_rebuilt [OF Cons.prems(2), of i] Cons.prems(5) by (simp add: distinct_map)
  moreover have "w = last_handler want (seen @ [i])" if ?single
    using Cons.prems(4) that by (auto simp: w_def fun_eq_iff last_handler_snoc sub_key_def)
  ultimately have "rebuilt ?single want ((seen @ [i]) @ infos) (sv_subscriptions s')"
    using Cons.prems(3,5) g(2) by (intro Cons.IH [of w s2 "seen @ [i]"]) (simp_all add: s2_def)
  then show ?case by simp
qed

text \<open>
  C12: After a restart the registry is rebuilt from the table. If the rebuild succeeds on a
  daemon whose registry is empty and whose store is well formed, then an agent is subscribed
  to exactly the types that the configured function gives for its subject, provided it is a
  running row and that list is not empty, and, on a singleton configuration, it is the last
  registered such agent of its type on its subject. Nobody else is subscribed.
\<close>

theorem subscriptions_rebuilt:
  assumes "reconcileSubscriptions cf s = Some (Inr (), s')" and "server_inv s"
    and "cf_subscribe cf = Some subscribe" and "sv_subscriptions s = (\<lambda>_. [])"
    and "running = map scanAgent (filter (\<lambda>r. ag_status r = StatusRunning) (agents (en_db (sv_eng s))))"
    and "want = wanted subscribe (subjects (en_db (sv_eng s)))"
  shows "map_of (sv_subscriptions s' sid) aid = Some ts \<longleftrightarrow>
    (\<exists>i \<in> set running. ai_SubjectID i = sid \<and> ai_AgentID i = aid \<and> want i = ts \<and> ts \<noteq> [] \<and>
       (cf_singletonSubscriber cf \<longrightarrow> last_handler want running (sid, ai_AgentType i) = Some i))"
proof -
  obtain infos s1 where list: "on_store (on_db ListRunningAgents) s = Some (Inr infos, s1)"
    and each: "reconcile_each cf subscribe (\<lambda>_. None) infos s1 = Some (Inr (), s')"
    using assms(1,3) by (auto simp: reconcileSubscriptions_def wrap_f_Inr elim: bind_f_SomeE)
  obtain flt where "ListRunningAgents flt (en_db (sv_eng s)) = (Inr infos, en_db (sv_eng s1))" "s1 = s\<lparr>sv_eng := sv_eng s1\<rparr>"
    using on_store_SomeE [OF list] by blast
  then have s1: "infos = running" "subjects (en_db (sv_eng s1)) = subjects (en_db (sv_eng s))"
    and "sv_subscriptions s1 = (\<lambda>_. [])" using assms(4,5)
    by (cases flt; auto simp: ListRunningAgents_def; metis Server.select_convs(4) Server.surjective Server.update_convs(1))+
  moreover have "distinct (map agent_key running)"
  proof -
    have "map agent_key running = map (\<lambda>r. (ag_subject r, ag_agent r)) (filter (\<lambda>r. ag_status r = StatusRunning) (agents (en_db (sv_eng s))))"
      by (simp add: assms(5) agent_key_def scanAgent_def)
    then show ?thesis using assms(2)
      by (simp add: server_inv_def store_inv_def agents_inv_def agents_keyed_def distinct_map_filter)
  qed
  moreover have "rebuilt (cf_singletonSubscriber cf) want [] (\<lambda>_. [])" "last_handler want [] = (\<lambda>_. None)"
    by (simp_all add: rebuilt_def last_handler_def fun_eq_iff)
  ultimately have "rebuilt (cf_singletonSubscriber cf) want ([] @ running) (sv_subscriptions s')"
    using reconcile_each_rebuilt [OF each, of want "[]"] assms(6) by simp
  then show ?thesis by (auto simp: rebuilt_def agent_key_def sub_key_def)
qed

theorem subscriptions_rebuilt_witness:
  "\<exists>s'. reconcileSubscriptions sample_config sample_server = Some (Inr (), s') \<and>
     map_of (sv_subscriptions s' ''s1'') ''a1'' = Some [''note'']"
proof -
  have inv: "server_inv sample_server"
    by (simp add: server_inv_def store_inv_def sample_server_def subjects_inv_def log_inv_def dense_def log_of_def dedup_unique_def
        events_owned_def agents_inv_def agents_keyed_def agents_owned_def directives_numbered_def known_subject_def
        sample_subject_def subject_conflict_def nullString_def)
  have "map_option fst (reconcileSubscriptions sample_config sample_server) = Some (Inr ())" by code_simp
  then obtain s' where r: "reconcileSubscriptions sample_config sample_server = Some (Inr (), s')" by auto
  have "map_of (sv_subscriptions s' ''s1'') ''a1'' = Some [''note'']"
    using subscriptions_rebuilt [OF r inv, of "\<lambda>_ _. [''note'']" _ _ "''s1''" "''a1''" "[''note'']", OF _ _ refl refl]
    by (simp add: sample_config_def sample_server_def scanAgent_def wanted_def sample_subject_def)
  with r show ?thesis by blast
qed

end
