(* ===== verification/Daemon_Lifecycle.thy ===== *)
theory Daemon_Lifecycle
  imports Daemon_Handlers Subscription_Rebuild
begin

text \<open>
  Starting and stopping the daemon (\<open>daemon/server.go\<close>): the activation of the product
  (\<open>activateServing\<close>), the failed start (\<open>settleFailedStart\<close>), and the ladder of
  \<open>Drain\<close> and \<open>Close\<close> that daemonkit drives, interleaved with calls of \<open>Dispatch\<close>, streams,
  background workers and presence callbacks. Waiting for the worker group and for presence
  are the operations of the two components; a use of the store after it was closed is
  recorded in a flag.
\<close>

section \<open>Activation\<close>

text \<open>
  \<open>boot\<close> is the consumer's \<open>BootReconcile\<close> (\<open>None\<close> when it is nil), \<open>http\<close> the binding of
  the HTTP plane; \<open>ctxErr\<close> says whether the start was cancelled already.
\<close>

definition activateServing :: "Config \<Rightarrow> nat \<Rightarrow> bool \<Rightarrow> (Server, unit) fop option \<Rightarrow> (Server, unit) fop \<Rightarrow> (Server, unit) fop" where
  "activateServing cf n ctxErr boot http =
     (if ctxErr then fail_f ErrCanceled
      else
        bind_f (case boot of None \<Rightarrow> ret_f () | Some b \<Rightarrow> b) (\<lambda>_.
        bind_f (reconcileDirectives cf n) (\<lambda>_.
        bind_f (reconcileSubscriptions cf) (\<lambda>_.
        http))))"

lemma answers_reconcile_each [answers]:
  assumes "\<And>sub info. EventDirected \<notin> set (f sub info) \<and> EventRelay \<notin> set (f sub info)"
  shows "returns_f quiet (reconcile_each cf f winners infos)"
proof (induction infos arbitrary: winners)
  case (Cons info infos)
  then show ?case using assms by (auto intro!: answers quiet_set quiet_remove simp: Let_def)
qed auto

lemma answers_reconcileSubscriptions [answers]: "disciplined cf \<Longrightarrow> returns_f quiet (reconcileSubscriptions cf)"
  unfolding reconcileSubscriptions_def by (auto intro!: answers simp: disciplined_def)

lemma answers_reconcileDirectives [answers]: "returns_f quiet (reconcileDirectives cf (Suc (Suc n)))"
  unfolding reconcileDirectives_def by (auto intro!: answers)

lemma keeps_reconcile_each [server_keeps]: "keeps_f server_inv (reconcile_each cf f winners infos)"
proof (induction infos arbitrary: winners)
  case (Cons info infos)
  then show ?case by (auto intro!: server_keeps simp: Let_def)
qed auto

lemma keeps_reconciles [server_keeps]:
  "keeps_f server_inv (reconcileSubscriptions cf)" "keeps_f server_inv (reconcileDirectives cf n)"
  unfolding reconcileSubscriptions_def reconcileDirectives_def by (auto intro!: server_keeps)

definition sound_action :: "(Server, unit) fop \<Rightarrow> bool" where
  "sound_action m \<longleftrightarrow> keeps_f server_inv m \<and> returns_f quiet m"

lemma activate_sound:
  assumes "disciplined cf" and "\<And>b. boot = Some b \<Longrightarrow> sound_action b" and "sound_action http"
  shows "sound_action (activateServing cf (Suc (Suc n)) ctxErr boot http)"
proof -
  have "keeps_f server_inv (case boot of None \<Rightarrow> ret_f () | Some b \<Rightarrow> b)" "returns_f quiet (case boot of None \<Rightarrow> ret_f () | Some b \<Rightarrow> b)"
    using assms(2) by (auto simp: sound_action_def)
  then show ?thesis using assms(1,3) unfolding sound_action_def activateServing_def
    by (auto intro!: server_keeps answers)
qed

text \<open>
  Boot ends, and a booted daemon answers. From a sound store and an empty registry, with a
  consumer's \<open>BootReconcile\<close> and an HTTP start that themselves end and keep the store sound,
  the activation always returns (the relay of stranded directives and the rebuild of the
  subscriptions included), whatever the SQL engine answers; the store stays sound, and any
  sequence of requests after it is answered, one reply each.
\<close>

theorem boot_then_answers:
  assumes "disciplined cf" and "\<And>b. boot = Some b \<Longrightarrow> sound_action b" and "sound_action http"
    and "server_inv s" and "sv_subscriptions s = (\<lambda>_. [])"
  shows "\<exists>r s' t. activateServing cf (Suc (Suc n)) ctxErr boot http s = Some (r, s') \<and> server_inv s' \<and>
     register_all (core_handlers cf (Suc (Suc n))) new_table = Some t \<and>
     (\<forall>envs. \<exists>rs s''. dispatch_run cf t envs s' = Some (rs, s'') \<and> length rs = length envs \<and> server_inv s'')"
proof -
  have sound: "sound_action (activateServing cf (Suc (Suc n)) ctxErr boot http)" by (rule activate_sound [OF assms(1-3)])
  have "quiet s" using assms(5) by (simp add: quiet_def)
  then obtain r s' where a: "activateServing cf (Suc (Suc n)) ctxErr boot http s = Some (r, s')" "quiet s'"
    using returns_fD [OF sound [unfolded sound_action_def, THEN conjunct2]] by blast
  have inv: "server_inv s'" by (rule keeps_fD [OF sound [unfolded sound_action_def, THEN conjunct1] assms(4) a(1)])
  obtain t where t: "register_all (core_handlers cf (Suc (Suc n))) new_table = Some t" using core_table by blast
  have "sound_table t"
    using sound_tableI [OF assms(1), of n "[]" t] t core_ops_distinct [of cf "Suc (Suc n)"] by simp
  then show ?thesis using a(1) inv t dispatch_run_sound [of t s' cf] a(2) by blast
qed

theorem boot_then_answers_witness:
  "\<exists>r s' rs s'' t. activateServing sample_config (Suc (Suc 0)) False (Some (ret_f ())) (modify_f (\<lambda>s. s\<lparr>sv_httpPort := 8080\<rparr>)) sample_server = Some (r, s') \<and>
     register_all (core_handlers sample_config (Suc (Suc 0))) new_table = Some t \<and>
     dispatch_run sample_config t sample_envelopes s' = Some (rs, s'') \<and> length rs = 3"
proof -
  have "sound_action (ret_f ())" "sound_action (modify_f (\<lambda>s. s\<lparr>sv_httpPort := 8080\<rparr>))"
    by (auto simp: sound_action_def server_inv_def quiet_def)
  moreover have "sv_subscriptions sample_server = (\<lambda>_. [])" by (simp add: sample_server_def)
  moreover have "length sample_envelopes = 3" by (simp add: sample_envelopes_def)
  ultimately obtain r s' t where a:
      "activateServing sample_config (Suc (Suc 0)) False (Some (ret_f ())) (modify_f (\<lambda>s. s\<lparr>sv_httpPort := 8080\<rparr>)) sample_server = Some (r, s')"
      "register_all (core_handlers sample_config (Suc (Suc 0))) new_table = Some t"
      "\<And>envs. \<exists>rs s''. dispatch_run sample_config t envs s' = Some (rs, s'') \<and> length rs = length envs"
    using boot_then_answers [OF sample_disciplined _ _ sample_server_inv, of "Some (ret_f ())" "modify_f (\<lambda>s. s\<lparr>sv_httpPort := 8080\<rparr>)" 0 False]
    by blast
  from a(3) [of sample_envelopes] a(1,2) \<open>length sample_envelopes = 3\<close> show ?thesis by (elim exE conjE) (intro exI conjI, assumption+, simp)
qed

section \<open>The ladder\<close>

datatype stage = Starting | Ready | DrainWait | Drained | SettleWait | ClosingPresence | Stopped

record lifecycle =
  lf_stage :: stage
  lf_serving :: bool
  lf_store :: bool
  lf_workers :: workerGroup
  lf_fenced :: nat
  lf_presence :: presence
  lf_misused :: bool

text \<open>The state right after \<open>activateState\<close> opened the store.\<close>

definition activateState :: lifecycle where
  "activateState = \<lparr>lf_stage = Starting, lf_serving = False, lf_store = True, lf_workers = newWorkerGroup, lf_fenced = 0,
     lf_presence = \<lparr>pr_sse = new_sse, pr_flight = []\<rparr>, lf_misused = False\<rparr>"

definition use_store :: "lifecycle \<Rightarrow> lifecycle" where
  "use_store l = l\<lparr>lf_misused := lf_misused l \<or> \<not> lf_store l\<rparr>"

definition closeState :: "lifecycle \<Rightarrow> lifecycle" where
  "closeState l = l\<lparr>lf_store := False\<rparr>"

definition Drain :: "lifecycle \<Rightarrow> lifecycle option" where
  "Drain l = map_option (\<lambda>g. l\<lparr>lf_serving := False, lf_workers := g, lf_stage := DrainWait\<rparr>) (CloseGroup (lf_workers l))"

definition drain_wait :: "bool \<Rightarrow> bool \<Rightarrow> lifecycle \<Rightarrow> (unit result \<times> lifecycle) option" where
  "drain_wait ctxDone pick l =
     (case Wait ctxDone pick (lf_workers l) of
        None \<Rightarrow> None
      | Some (Inl e) \<Rightarrow> Some (Inl e, l\<lparr>lf_stage := Stopped\<rparr>)
      | Some (Inr _) \<Rightarrow> Some (Inr (), l\<lparr>lf_stage := Drained\<rparr>))"

text \<open>\<open>closeAfterPresence\<close> up to the wait of \<open>ClosePresence\<close>, and from it.\<close>

definition close_begin :: "lifecycle \<Rightarrow> lifecycle" where
  "close_begin l = l\<lparr>lf_presence := (lf_presence l)\<lparr>pr_sse := ClosePresence (pr_sse (lf_presence l))\<rparr>, lf_stage := ClosingPresence\<rparr>"

definition closeAfterPresence :: "bool \<Rightarrow> bool \<Rightarrow> lifecycle \<Rightarrow> (unit result \<times> lifecycle) option" where
  "closeAfterPresence ctxDone pick l =
     (case presence_wait ctxDone pick (pr_sse (lf_presence l)) of
        None \<Rightarrow> None
      | Some (Inl e) \<Rightarrow> Some (Inl (ErrWrap ''daemon: a presence disconnect still holds the store, left open'' e), l\<lparr>lf_stage := Stopped\<rparr>)
      | Some (Inr _) \<Rightarrow> Some (Inr (), (closeState l)\<lparr>lf_stage := Stopped\<rparr>))"

text \<open>
  The failed start: the same closing of the group, then the wait. The presence is closed, and
  the store after it, whatever the wait returned (\<open>errors.Join\<close> evaluates both calls).
\<close>

definition settleFailedStart :: "lifecycle \<Rightarrow> lifecycle option" where
  "settleFailedStart l = map_option (\<lambda>g. l\<lparr>lf_workers := g, lf_stage := SettleWait\<rparr>) (CloseGroup (lf_workers l))"

definition settle_wait :: "bool \<Rightarrow> bool \<Rightarrow> lifecycle \<Rightarrow> (unit result \<times> lifecycle) option" where
  "settle_wait ctxDone pick l =
     map_option (\<lambda>r. (r, close_begin l)) (Wait ctxDone pick (lf_workers l))"

definition dispatch_fence :: "lifecycle \<Rightarrow> lifecycle" where
  "dispatch_fence l = (if lf_serving l then l\<lparr>lf_fenced := Suc (lf_fenced l)\<rparr> else l)"

definition dispatch_admit :: "lifecycle \<Rightarrow> lifecycle" where
  "dispatch_admit l = l\<lparr>lf_fenced := lf_fenced l - 1, lf_workers := snd (Admit (lf_workers l))\<rparr>"

text \<open>
  The interleavings. With \<open>patient\<close>, the wait of a failed start is one that succeeds; Close
  follows a Drain that returned nil.
\<close>

inductive lifecycle_step :: "sse_config \<Rightarrow> bool \<Rightarrow> lifecycle \<Rightarrow> lifecycle \<Rightarrow> bool" for cfg patient where
  started: "lf_stage l = Starting \<Longrightarrow> lifecycle_step cfg patient l (l\<lparr>lf_serving := True, lf_stage := Ready\<rparr>)"
| fenced: "lifecycle_step cfg patient l (dispatch_fence l)"
| admitted: "0 < lf_fenced l \<Longrightarrow> lifecycle_step cfg patient l (dispatch_admit l)"
| worker: "lifecycle_step cfg patient l (l\<lparr>lf_workers := snd (Admit (lf_workers l))\<rparr>)"
| works: "tok \<in> set (wg_open (lf_workers l)) \<Longrightarrow> lifecycle_step cfg patient l (use_store l)"
| finished: "release_worker tok (lf_workers l) = Some g \<Longrightarrow> lifecycle_step cfg patient l (l\<lparr>lf_workers := g\<rparr>)"
| presence: "presence_step cfg (lf_presence l) p \<Longrightarrow> lifecycle_step cfg patient l (l\<lparr>lf_presence := p\<rparr>)"
| callback: "pr_flight (lf_presence l) \<noteq> [] \<Longrightarrow> lifecycle_step cfg patient l (use_store l)"
| draining: "lf_stage l = Ready \<Longrightarrow> Drain l = Some l' \<Longrightarrow> lifecycle_step cfg patient l l'"
| drained: "lf_stage l = DrainWait \<Longrightarrow> drain_wait ctxDone pick l = Some (r, l') \<Longrightarrow> lifecycle_step cfg patient l l'"
| closing: "lf_stage l = Drained \<Longrightarrow> lifecycle_step cfg patient l (close_begin l)"
| closed: "lf_stage l = ClosingPresence \<Longrightarrow> closeAfterPresence ctxDone pick l = Some (r, l') \<Longrightarrow> lifecycle_step cfg patient l l'"
| failed: "lf_stage l = Starting \<Longrightarrow> settleFailedStart l = Some l' \<Longrightarrow> lifecycle_step cfg patient l l'"
| settled: "lf_stage l = SettleWait \<Longrightarrow> settle_wait ctxDone pick l = Some (r, l') \<Longrightarrow> (patient \<longrightarrow> r = Inr ()) \<Longrightarrow>
    lifecycle_step cfg patient l l'"

inductive_cases lifecycle_stepE: "lifecycle_step cfg patient l l'"

definition lifecycle_start :: "lifecycle \<Rightarrow> bool" where
  "lifecycle_start l \<longleftrightarrow> l = activateState"

definition lifecycle_inv :: "lifecycle \<Rightarrow> bool" where
  "lifecycle_inv l \<longleftrightarrow> group_inv (lf_workers l) \<and> presence_inv (lf_presence l) \<and> \<not> lf_misused l \<and>
     (lf_stage l \<in> {Drained, ClosingPresence} \<or> \<not> lf_store l \<longrightarrow> wg_drained (lf_workers l)) \<and>
     (lf_stage l = ClosingPresence \<or> \<not> lf_store l \<longrightarrow> ss_presenceClosed (pr_sse (lf_presence l))) \<and>
     (\<not> lf_store l \<longrightarrow> pr_flight (lf_presence l) = [])"

lemma Wait_nil: "Wait ctxDone pick g = Some (Inr ()) \<Longrightarrow> wg_drained g"
  by (auto simp: Wait_def split: if_splits)

lemma Admit_group: "group_inv g \<Longrightarrow> group_inv (snd (Admit g)) \<and> (wg_drained g \<longrightarrow> wg_drained (snd (Admit g)))"
  by (auto simp: Admit_def group_inv_def)

lemma release_group: "group_inv g \<Longrightarrow> release_worker tok g = Some g' \<Longrightarrow> group_inv g' \<and> (wg_drained g \<longrightarrow> wg_drained g')"
  using worker_exec_inv [of g "OpRelease tok"] by (auto simp: release_worker_def group_inv_def)

lemma CloseGroup_inv: "group_inv g \<Longrightarrow> CloseGroup g = Some g' \<Longrightarrow> group_inv g' \<and> (wg_drained g \<longrightarrow> wg_drained g')"
  using worker_exec_inv [of g OpClose] by (auto simp: CloseGroup_def group_inv_def)

lemma presence_step_closed:
  "presence_step cfg p q \<Longrightarrow> ss_presenceClosed (pr_sse p) \<Longrightarrow> ss_presenceClosed (pr_sse q)"
  by (erule presence_stepE)
     (auto simp: enterPresence_def debounceDisconnect_def fire_begin_def fire_end_def ClosePresence_def split: if_splits option.splits)

lemma presence_step_idle:
  "presence_inv p \<Longrightarrow> presence_step cfg p q \<Longrightarrow> ss_presenceClosed (pr_sse p) \<Longrightarrow> pr_flight p = [] \<Longrightarrow> pr_flight q = []"
  using presence_quiet_step [of "ss_emitted (pr_sse p)" p cfg q] by (simp add: presence_quiet_def presence_inv_def)

lemma presence_inv_closed: "presence_inv p \<Longrightarrow> presence_inv (p\<lparr>pr_sse := ClosePresence (pr_sse p)\<rparr>)"
  by (simp add: presence_inv_def ClosePresence_def)

lemma presence_wait_nil: "presence_wait ctxDone pick s = Some (Inr u) \<Longrightarrow> ss_emitting s = 0"
  by (simp add: presence_wait_def split: if_splits)

lemma close_cases:
  assumes "closeAfterPresence ctxDone pick l = Some (r, l')"
  shows "l' = l\<lparr>lf_stage := Stopped\<rparr> \<or>
    l' = l\<lparr>lf_store := False, lf_stage := Stopped\<rparr> \<and> ss_emitting (pr_sse (lf_presence l)) = 0"
proof (cases "presence_wait ctxDone pick (pr_sse (lf_presence l))")
  case (Some w)
  show ?thesis
  proof (cases w)
    case (Inl e)
    then show ?thesis using assms Some by (simp add: closeAfterPresence_def)
  next
    case (Inr u)
    then show ?thesis using assms Some presence_wait_nil [of ctxDone pick "pr_sse (lf_presence l)" u]
      by (simp add: closeAfterPresence_def closeState_def)
  qed
qed (use assms in \<open>simp add: closeAfterPresence_def\<close>)

lemma presence_idle: "presence_inv p \<Longrightarrow> ss_emitting (pr_sse p) = 0 \<Longrightarrow> pr_flight p = []"
  by (simp add: presence_inv_def)

lemma drain_cases:
  assumes "drain_wait ctxDone pick l = Some (r, l')"
  shows "l' = l\<lparr>lf_stage := Stopped\<rparr> \<or> l' = l\<lparr>lf_stage := Drained\<rparr> \<and> wg_drained (lf_workers l)"
proof (cases "Wait ctxDone pick (lf_workers l)")
  case (Some w)
  then show ?thesis using assms Wait_nil [of ctxDone pick "lf_workers l"]
    by (cases w) (auto simp: drain_wait_def)
qed (use assms in \<open>simp add: drain_wait_def\<close>)

lemma lifecycle_step_inv:
  assumes inv: "lifecycle_inv l" and "lifecycle_step cfg True l l'"
  shows "lifecycle_inv l'"
  using assms(2)
proof cases
  case works
  then show ?thesis using inv by (auto simp: lifecycle_inv_def use_store_def group_inv_def)
next
  case (presence p)
  then show ?thesis using inv presence_step_inv [of "lf_presence l" cfg p] presence_step_closed [of cfg "lf_presence l" p]
      presence_step_idle [of "lf_presence l" cfg p] by (auto simp: lifecycle_inv_def)
next
  case callback
  then show ?thesis using inv by (auto simp: lifecycle_inv_def use_store_def)
next
  case draining
  then show ?thesis using inv CloseGroup_inv [of "lf_workers l"] by (auto simp: lifecycle_inv_def Drain_def)
next
  case drained
  from drain_cases [OF this(2)] inv this(1) show ?thesis by (elim disjE conjE) (auto simp: lifecycle_inv_def)
next
  case closing
  then show ?thesis using inv presence_inv_closed [of "lf_presence l"]
    by (auto simp: lifecycle_inv_def close_begin_def ClosePresence_def)
next
  case closed
  from close_cases [OF this(2)] this(1) inv presence_idle [of "lf_presence l"] show ?thesis
    by (elim disjE conjE) (auto simp: lifecycle_inv_def)
next
  case failed
  then show ?thesis using inv CloseGroup_inv [of "lf_workers l"] by (auto simp: lifecycle_inv_def settleFailedStart_def)
next
  case (settled ctxDone pick r)
  then have "wg_drained (lf_workers l)" using Wait_nil [of ctxDone pick "lf_workers l"] by (auto simp: settle_wait_def)
  then show ?thesis using settled inv presence_inv_closed [of "lf_presence l"]
    by (auto simp: lifecycle_inv_def settle_wait_def close_begin_def ClosePresence_def)
qed (use inv Admit_group [of "lf_workers l"] release_group [of "lf_workers l"] in
    \<open>auto simp: lifecycle_inv_def dispatch_fence_def dispatch_admit_def\<close>)

interpretation ladder: invariant_of lifecycle_start "lifecycle_step cfg True" lifecycle_inv for cfg
  by unfold_locales
     (simp add: lifecycle_start_def lifecycle_inv_def activateState_def newWorkerGroup_def group_inv_def presence_inv_def new_sse_def,
      rule lifecycle_step_inv)

text \<open>
  C19: No admitted work reaches a closed store. In every interleaving of a start (also one that
  fails), dispatches that pass the serving fence and are admitted or refused, streams,
  background workers, presence callbacks and their timers, the drain and the close: as long
  as a failed start's wait for its workers did not time out, nothing ever uses the store after
  it was closed, and once it is closed no admission is open, every later one is refused, and
  no presence callback is running or will run.
\<close>

theorem store_closed_last:
  assumes "reach lifecycle_start (lifecycle_step cfg True) l"
  shows "\<not> lf_misused l \<and>
    (\<not> lf_store l \<longrightarrow> wg_open (lf_workers l) = [] \<and> fst (Admit (lf_workers l)) = Inl ErrCanceled \<and>
       pr_flight (lf_presence l) = [] \<and> \<not> fst (enterPresence (pr_sse (lf_presence l))) \<and> ss_disconnects (pr_sse (lf_presence l)) = [])"
  using ladder.reachable_inv [OF assms]
  by (auto simp: lifecycle_inv_def group_inv_def Admit_def enterPresence_def presence_inv_def)

definition open_presence :: sse_config where
  "open_presence = \<lparr>sc_onPresence = True, sc_presenceType = [], sc_admit = True, sc_muteFrame = None\<rparr>"

definition ready_server :: lifecycle where
  "ready_server = activateState\<lparr>lf_serving := True, lf_stage := Ready\<rparr>"

theorem store_closed_last_witness:
  "\<exists>l. reach lifecycle_start (lifecycle_step open_presence True) l \<and> \<not> lf_store l \<and> \<not> lf_misused l"
proof -
  let ?step = "lifecycle_step open_presence True"
  define l2 where "l2 = ready_server\<lparr>lf_serving := False, lf_workers := newWorkerGroup\<lparr>wg_closed := True, wg_drained := True\<rparr>, lf_stage := DrainWait\<rparr>"
  define l3 where "l3 = l2\<lparr>lf_stage := Drained\<rparr>"
  define l5 where "l5 = (close_begin l3)\<lparr>lf_store := False, lf_stage := Stopped\<rparr>"
  have 0: "reach lifecycle_start ?step activateState" by (rule reach_start) (simp add: lifecycle_start_def)
  have 1: "?step activateState ready_server" unfolding ready_server_def by (rule lifecycle_step.started) (simp add: activateState_def)
  have 2: "?step ready_server l2"
    by (rule lifecycle_step.draining)
       (simp_all add: l2_def Drain_def CloseGroup_def close_drained_def ready_server_def activateState_def newWorkerGroup_def)
  have 3: "?step l2 l3"
    by (rule lifecycle_step.drained [of _ False False "Inr ()"]) (simp_all add: l3_def l2_def drain_wait_def Wait_def)
  have 4: "?step l3 (close_begin l3)" by (rule lifecycle_step.closing) (simp add: l3_def)
  have 5: "?step (close_begin l3) l5"
    by (rule lifecycle_step.closed [of _ False False "Inr ()"])
       (simp_all add: l5_def l3_def l2_def close_begin_def closeAfterPresence_def presence_wait_def closeState_def ClosePresence_def
         ready_server_def activateState_def new_sse_def)
  have r: "reach lifecycle_start ?step l5"
    using reach_step [where step = ?step, OF reach_step [where step = ?step, OF reach_step [where step = ?step,
        OF reach_step [where step = ?step, OF reach_step [where step = ?step, OF 0 1] 2] 3] 4] 5] .
  moreover have "\<not> lf_store l5" by (simp add: l5_def)
  ultimately show ?thesis using store_closed_last [OF r] by blast
qed

text \<open>
  A failed start may close the store under a running worker. When the wait of
  \<open>settleFailedStart\<close> times out, the store is closed all the same, so a background worker
  that is still running uses a closed store: the order that the comment on the function
  promises does not hold in that case.
\<close>

theorem failed_start_closes_early:
  "\<exists>l. reach lifecycle_start (lifecycle_step cfg False) l \<and> lf_misused l \<and> wg_open (lf_workers l) \<noteq> []"
proof -
  let ?step = "lifecycle_step cfg False"
  define l1 where "l1 = activateState\<lparr>lf_workers := snd (Admit newWorkerGroup)\<rparr>"
  define l2 where "l2 = l1\<lparr>lf_workers := (lf_workers l1)\<lparr>wg_closed := True\<rparr>, lf_stage := SettleWait\<rparr>"
  define l4 where "l4 = (close_begin l2)\<lparr>lf_store := False, lf_stage := Stopped\<rparr>"
  have 0: "reach lifecycle_start ?step activateState" by (rule reach_start) (simp add: lifecycle_start_def)
  have 1: "?step activateState l1" using lifecycle_step.worker [of cfg False activateState] by (simp add: l1_def activateState_def)
  have 2: "?step l1 l2"
    by (rule lifecycle_step.failed)
       (simp_all add: l2_def l1_def settleFailedStart_def CloseGroup_def activateState_def newWorkerGroup_def Admit_def)
  have 3: "?step l2 (close_begin l2)"
    by (rule lifecycle_step.settled [of _ True False "Inl ErrCanceled"])
       (simp_all add: l2_def l1_def settle_wait_def Wait_def Admit_def newWorkerGroup_def)
  have 4: "?step (close_begin l2) l4"
    by (rule lifecycle_step.closed [of _ False False "Inr ()"])
       (simp_all add: l4_def l2_def l1_def close_begin_def closeAfterPresence_def presence_wait_def closeState_def ClosePresence_def
         activateState_def new_sse_def)
  have 5: "?step l4 (use_store l4)"
    by (rule lifecycle_step.works [of 0]) (simp add: l4_def l2_def l1_def close_begin_def Admit_def newWorkerGroup_def)
  have "reach lifecycle_start ?step (use_store l4)"
    using reach_step [where step = ?step, OF reach_step [where step = ?step, OF reach_step [where step = ?step,
        OF reach_step [where step = ?step, OF reach_step [where step = ?step, OF 0 1] 2] 3] 4] 5] .
  moreover have "lf_misused (use_store l4)" "wg_open (lf_workers (use_store l4)) \<noteq> []"
    by (simp_all add: use_store_def l4_def l2_def l1_def close_begin_def Admit_def newWorkerGroup_def)
  ultimately show ?thesis by blast
qed

section \<open>The ladder only goes up\<close>

text \<open>The stages in the order of a shutdown; a failed start joins it at its own wait.\<close>

primrec stage_rank :: "stage \<Rightarrow> nat" where
  "stage_rank Starting = 0"
| "stage_rank Ready = 1"
| "stage_rank DrainWait = 2"
| "stage_rank Drained = 3"
| "stage_rank SettleWait = 4"
| "stage_rank ClosingPresence = 5"
| "stage_rank Stopped = 6"

lemma stage_rank_inj: "stage_rank a = stage_rank b \<Longrightarrow> a = b"
  by (cases a; cases b) simp_all

instantiation stage :: linorder
begin

definition less_eq_stage :: "stage \<Rightarrow> stage \<Rightarrow> bool" where
  "less_eq_stage a b \<longleftrightarrow> stage_rank a \<le> stage_rank b"

definition less_stage :: "stage \<Rightarrow> stage \<Rightarrow> bool" where
  "less_stage a b \<longleftrightarrow> stage_rank a < stage_rank b"

instance
  by standard (auto simp: less_eq_stage_def less_stage_def intro: stage_rank_inj)

end

lemmas stage_order = less_eq_stage_def less_stage_def

lemma stage_forward: "lifecycle_step cfg patient l l' \<Longrightarrow> lf_stage l \<le> lf_stage l'"
proof (erule lifecycle_step.cases)
  fix ctxDone pick r m m'
  assume "l = m" "l' = m'" "lf_stage m = DrainWait" "drain_wait ctxDone pick m = Some (r, m')"
  then show "lf_stage l \<le> lf_stage l'" using drain_cases [of ctxDone pick m r m'] by (auto simp: stage_order)
next
  fix ctxDone pick r m m'
  assume "l = m" "l' = m'" "lf_stage m = ClosingPresence" "closeAfterPresence ctxDone pick m = Some (r, m')"
  then show "lf_stage l \<le> lf_stage l'" using close_cases [of ctxDone pick m r m'] by (auto simp: stage_order)
qed (auto simp: stage_order dispatch_fence_def dispatch_admit_def use_store_def Drain_def close_begin_def settleFailedStart_def settle_wait_def)

text \<open>The serving fence is up in the stage \<open>Ready\<close> only, and past it the worker group stays closed.\<close>

definition fence_inv :: "lifecycle \<Rightarrow> bool" where
  "fence_inv l \<longleftrightarrow> (lf_serving l \<longrightarrow> lf_stage l = Ready) \<and> (Ready < lf_stage l \<longrightarrow> wg_closed (lf_workers l))"

lemma admit_closed: "wg_closed (snd (Admit g)) = wg_closed g"
  by (simp add: Admit_def)

lemma release_closed: "release_worker tok g = Some g' \<Longrightarrow> wg_closed g' = wg_closed g"
  by (auto simp: release_worker_def worker_done_def close_drained_def Let_def split: if_splits)

lemma CloseGroup_closed: "CloseGroup g = Some g' \<Longrightarrow> wg_closed g'"
  by (auto simp: CloseGroup_def close_drained_def Let_def split: if_splits)

lemma fence_step:
  assumes "fence_inv l" and "lifecycle_step cfg patient l l'"
  shows "fence_inv l'"
  using assms(2)
proof cases
  case drained
  from drain_cases [OF this(2)] this(1) assms(1) show ?thesis by (elim disjE conjE) (auto simp: fence_inv_def stage_order)
next
  case closed
  from close_cases [OF this(2)] this(1) assms(1) show ?thesis by (elim disjE conjE) (auto simp: fence_inv_def stage_order)
next
  case (finished tok g)
  then show ?thesis using assms(1) release_closed [of tok "lf_workers l" g] by (simp add: fence_inv_def)
next
  case draining
  then show ?thesis using assms(1) CloseGroup_closed [of "lf_workers l"] by (auto simp: fence_inv_def Drain_def)
next
  case failed
  then show ?thesis using assms(1) CloseGroup_closed [of "lf_workers l"] by (auto simp: fence_inv_def settleFailedStart_def stage_order)
qed (use assms(1) in \<open>auto simp: fence_inv_def dispatch_fence_def dispatch_admit_def admit_closed use_store_def close_begin_def
    settle_wait_def stage_order\<close>)

interpretation fence: invariant_of lifecycle_start "lifecycle_step cfg patient" fence_inv for cfg patient
  by unfold_locales (simp add: lifecycle_start_def fence_inv_def activateState_def stage_order, rule fence_step)

text \<open>
  Shutdown is one-way: once the drain (or the settling of a failed start) has begun, no dispatch
  passes the fence and no worker is admitted again, in any continuation, also when a wait of a
  failed start times out.
\<close>

lemma shutdown_final:
  assumes "reach lifecycle_start (lifecycle_step cfg patient) l" and "Ready < lf_stage l" and "(lifecycle_step cfg patient)\<^sup>*\<^sup>* l l'"
  shows "\<not> lf_serving l' \<and> dispatch_fence l' = l' \<and> isl (fst (Admit (lf_workers l')))"
proof -
  have inv: "fence_inv l'" using fence.steps_inv [OF fence.reachable_inv [OF assms(1)] assms(3)] .
  have "lf_stage l \<le> lf_stage l'" using assms(3) by induction (auto dest: stage_forward)
  then have "Ready < lf_stage l'" using assms(2) by (rule less_le_trans [rotated])
  then show ?thesis using inv by (auto simp: fence_inv_def dispatch_fence_def Admit_def)
qed

end
