(* ===== verification/Http_Auth.thy ===== *)
theory Http_Auth
  imports Prelude
begin

text \<open>
  Access control of the HTTP plane (\<open>daemon/httpauth.go\<close>): the three ways a request is
  admitted, the Host and Origin gates of the two that need no token, the watch over a trusted
  peer, and the refusal of a configuration that would serve everybody.

  A request is what the handler reads of it: the peer's address as \<open>netip.ParseAddr\<close> gives it
  (\<open>None\<close> when it does not parse), the Host, the Origin (absent, unparseable, or the host part
  of the URL), the Sec-Fetch-Site and Authorization headers, and the decoded query. IP
  addresses in host names are parsed as the standard library does; SHA-256 is a parameter.
\<close>

section \<open>IP addresses\<close>

text \<open>An address of four bytes, or of eight groups of sixteen bits with a zone.\<close>

datatype ip = V4 "int list" | V6 "int list" string

fun split_char :: "char \<Rightarrow> string \<Rightarrow> string list" where
  "split_char d [] = [[]]"
| "split_char d (c # cs) =
     (if c = d then [] # split_char d cs
      else case split_char d cs of [] \<Rightarrow> [[c]] | x # xs \<Rightarrow> (c # x) # xs)"

definition octet :: "string \<Rightarrow> int option" where
  "octet f = (if all_digits f \<and> length f \<le> 3 \<and> (take 1 f = ''0'' \<longrightarrow> f = ''0'') \<and> undigits f \<le> 255
     then Some (int (undigits f)) else None)"

fun all_some :: "'a option list \<Rightarrow> 'a list option" where
  "all_some [] = Some []"
| "all_some (None # xs) = None"
| "all_some (Some x # xs) = map_option ((#) x) (all_some xs)"

definition parseIPv4 :: "string \<Rightarrow> int list option" where
  "parseIPv4 s = (let fs = split_char (CHR ''.'') s in if length fs = 4 then all_some (map octet fs) else None)"

definition hex_value :: "char \<Rightarrow> int option" where
  "hex_value c =
     (if c \<in> set ''0123456789'' then Some (of_char c - 48)
      else if c \<in> set ''abcdef'' then Some (of_char c - 87)
      else if c \<in> set ''ABCDEF'' then Some (of_char c - 55) else None)"

definition hextet :: "string \<Rightarrow> int option" where
  "hextet f = (if f = [] \<or> 4 < length f then None
     else map_option (foldl (\<lambda>n d. 16 * n + d) 0) (all_some (map hex_value f)))"

text \<open>
  The groups of one side of \<open>::\<close>; a dotted quad may stand for the last two groups of the
  whole address.
\<close>

definition groups :: "bool \<Rightarrow> string \<Rightarrow> int list option" where
  "groups final s =
     (if s = [] then Some []
      else
        let fs = split_char (CHR '':'') s
        in if final \<and> CHR ''.'' \<in> set (last fs)
           then (case (all_some (map hextet (butlast fs)), parseIPv4 (last fs)) of
                   (Some gs, Some [a, b, c, d]) \<Rightarrow> Some (gs @ [256 * a + b, 256 * c + d])
                 | _ \<Rightarrow> None)
           else all_some (map hextet fs))"

text \<open>The two sides of the first \<open>::\<close>.\<close>

fun split_ellipsis :: "string \<Rightarrow> (string \<times> string) option" where
  "split_ellipsis (c # d # cs) =
     (if c = CHR '':'' \<and> d = CHR '':'' then Some ([], cs)
      else map_option (\<lambda>(l, r). (c # l, r)) (split_ellipsis (d # cs)))"
| "split_ellipsis s = None"

definition parseIPv6 :: "string \<Rightarrow> int list option" where
  "parseIPv6 s =
     (case split_ellipsis s of
        None \<Rightarrow> (case groups True s of Some gs \<Rightarrow> if length gs = 8 then Some gs else None | None \<Rightarrow> None)
      | Some (l, r) \<Rightarrow>
          (case (groups False l, groups True r) of
             (Some ls, Some rs) \<Rightarrow>
               if length ls + length rs < 8 then Some (ls @ replicate (8 - (length ls + length rs)) 0 @ rs) else None
           | _ \<Rightarrow> None))"

text \<open>\<open>net.ParseIP\<close>: an address without a zone.\<close>

definition ParseIP :: "string \<Rightarrow> ip option" where
  "ParseIP s =
     (case find_first (\<lambda>c. c = CHR ''.'' \<or> c = CHR '':'' \<or> c = CHR ''%'') s of
        Some c \<Rightarrow>
          if c = CHR ''.'' then map_option V4 (parseIPv4 s)
          else if c = CHR '':'' then (if CHR ''%'' \<in> set s then None else map_option (\<lambda>gs. V6 gs []) (parseIPv6 s))
          else None
      | None \<Rightarrow> None)"

definition Is4In6 :: "int list \<Rightarrow> bool" where
  "Is4In6 gs \<longleftrightarrow> take 6 gs = [0, 0, 0, 0, 0, 0xFFFF]"

definition Unmap :: "ip \<Rightarrow> ip" where
  "Unmap a = (case a of
      V4 bs \<Rightarrow> V4 bs
    | V6 gs z \<Rightarrow> if Is4In6 gs then V4 [gs ! 6 div 256, gs ! 6 mod 256, gs ! 7 div 256, gs ! 7 mod 256] else V6 gs z)"

text \<open>\<open>IsLoopback\<close> of both packages: a mapped address counts as its four bytes.\<close>

definition IsLoopback :: "ip \<Rightarrow> bool" where
  "IsLoopback a \<longleftrightarrow> (case Unmap a of V4 bs \<Rightarrow> take 1 bs = [127] | V6 gs z \<Rightarrow> gs = [0, 0, 0, 0, 0, 0, 0, 1])"

definition Zone :: "ip \<Rightarrow> string" where
  "Zone a = (case a of V4 _ \<Rightarrow> [] | V6 _ z \<Rightarrow> z)"

section \<open>Requests\<close>

datatype origin = NoOrigin | BadOrigin | OriginHost string

record request =
  rq_peer :: "ip option"
  rq_Host :: string
  rq_Origin :: origin
  rq_SecFetchSite :: string
  rq_Authorization :: string
  rq_query :: "(string \<times> string) list"

text \<open>\<open>url.URL.Hostname\<close>: the host without an optional numeric port and without brackets.\<close>

definition validOptionalPort :: "string \<Rightarrow> bool" where
  "validOptionalPort p \<longleftrightarrow> p = [] \<or> take 1 p = '':'' \<and> list_all (\<lambda>c. c \<in> set ''0123456789'') (drop 1 p)"

definition Hostname :: "string \<Rightarrow> string" where
  "Hostname host =
     (let tailp = rev (takeWhile (\<lambda>c. c \<noteq> CHR '':'') (rev host));
          i = length host - length tailp - 1;
          h = (if CHR '':'' \<in> set host \<and> validOptionalPort (drop i host) then take i host else host)
      in if take 1 h = ''['' \<and> h \<noteq> [] \<and> last h = CHR '']'' then butlast (drop 1 h) else h)"

definition lower :: "char \<Rightarrow> char" where
  "lower c = (if 65 \<le> (of_char c :: nat) \<and> (of_char c :: nat) \<le> 90 then char_of ((of_char c :: nat) + 32) else c)"

text \<open>\<open>strings.EqualFold\<close> with a lower-case ASCII word: case is ignored, and so is the long s.\<close>

fun fold_case :: "string \<Rightarrow> string" where
  "fold_case (c # d # cs) =
     (if c = CHR 0xC5 \<and> d = CHR 0xBF then CHR ''s'' # fold_case cs else lower c # fold_case (d # cs))"
| "fold_case [c] = [lower c]"
| "fold_case [] = []"

section \<open>Gates\<close>

definition allowedName :: "(string \<Rightarrow> bool) option \<Rightarrow> bool \<Rightarrow> string \<Rightarrow> bool" where
  "allowedName trusted loopbackPeer host \<longleftrightarrow>
     (if host = [] then False
      else if loopbackPeer \<and> host = ''localhost'' then True
      else if loopbackPeer \<and> (case ParseIP host of None \<Rightarrow> False | Some a \<Rightarrow> IsLoopback a) then True
      else case trusted of None \<Rightarrow> False | Some f \<Rightarrow> f host)"

definition allowedOrigin :: "(string \<Rightarrow> bool) option \<Rightarrow> bool \<Rightarrow> request \<Rightarrow> bool" where
  "allowedOrigin trusted loopbackPeer r =
     (case rq_Origin r of
        NoOrigin \<Rightarrow> fold_case (rq_SecFetchSite r) \<noteq> ''cross-site''
      | BadOrigin \<Rightarrow> False
      | OriginHost h \<Rightarrow> allowedName trusted loopbackPeer (Hostname h))"

definition allowedHost :: "(string \<Rightarrow> bool) option \<Rightarrow> bool \<Rightarrow> request \<Rightarrow> bool" where
  "allowedHost trusted loopbackPeer r = allowedName trusted loopbackPeer (Hostname (rq_Host r))"

definition tokensMatch :: "(string \<Rightarrow> string) \<Rightarrow> string \<Rightarrow> string \<Rightarrow> bool" where
  "tokensMatch sha256 candidate token \<longleftrightarrow> sha256 candidate = sha256 token"

definition query_get :: "string \<Rightarrow> (string \<times> string) list \<Rightarrow> string" where
  "query_get k q = (case map_of q k of None \<Rightarrow> [] | Some v \<Rightarrow> v)"

text \<open>Re-encoding a query sorts it by key, the values of a key staying in order.\<close>

definition stripTokenParam :: "request \<Rightarrow> request" where
  "stripTokenParam r =
     (if list_ex (\<lambda>(k, v). k = ''token'') (rq_query r)
      then r\<lparr>rq_query := sort_key fst (filter (\<lambda>(k, v). k \<noteq> ''token'') (rq_query r))\<rparr> else r)"

text \<open>The answer: the request as the next handler sees it, with or without a watch over the peer.\<close>

datatype verdict = Served request | ServedWatched ip request | Unauthorized

definition bearer :: "request \<Rightarrow> string option" where
  "bearer r = (if take 7 (rq_Authorization r) = ''Bearer '' then Some (drop 7 (rq_Authorization r)) else None)"

definition authHandler :: "(string \<Rightarrow> string) \<Rightarrow> string \<Rightarrow> (ip \<Rightarrow> bool) option \<Rightarrow> (string \<Rightarrow> bool) option \<Rightarrow> request \<Rightarrow> verdict" where
  "authHandler sha256 token trustPeer trustOrigin r0 =
     (let queryToken = query_get ''token'' (rq_query r0); r = stripTokenParam r0;
          candidate = (case bearer r of Some t \<Rightarrow> t | None \<Rightarrow> queryToken);
          withToken = (if token \<noteq> [] \<and> tokensMatch sha256 candidate token then Served r else Unauthorized)
      in case rq_peer r of
           None \<Rightarrow> withToken
         | Some a \<Rightarrow>
             let addr = Unmap a;
                 loopbackPeer = (IsLoopback addr \<and> Zone addr = []);
                 trusted = (loopbackPeer \<or> (case trustPeer of None \<Rightarrow> False | Some f \<Rightarrow> f addr))
             in if trusted \<and> allowedHost trustOrigin loopbackPeer r \<and> allowedOrigin trustOrigin loopbackPeer r
                then (if loopbackPeer then Served r else ServedWatched addr r)
                else withToken)"

text \<open>
  The watch: one entry per wakeup of its loop, \<open>None\<close> for the end of the request, otherwise
  the hooks' current answers. The result says whether the request was cancelled.
\<close>

definition still_trusted :: "ip \<Rightarrow> request \<Rightarrow> (ip \<Rightarrow> bool) \<times> (string \<Rightarrow> bool) option \<Rightarrow> bool" where
  "still_trusted addr r now \<longleftrightarrow> fst now addr \<and> allowedHost (snd now) False r \<and> allowedOrigin (snd now) False r"

fun watchPeerTrust :: "ip \<Rightarrow> request \<Rightarrow> ((ip \<Rightarrow> bool) \<times> (string \<Rightarrow> bool) option) option list \<Rightarrow> bool" where
  "watchPeerTrust addr r [] = False"
| "watchPeerTrust addr r (None # ticks) = False"
| "watchPeerTrust addr r (Some now # ticks) = (if \<not> still_trusted addr r now then True else watchPeerTrust addr r ticks)"

text \<open>\<open>matched\<close>: the mux has a pattern for the request.\<close>

definition publicFallback :: "bool \<Rightarrow> (request \<Rightarrow> verdict) \<Rightarrow> (request \<Rightarrow> verdict) \<Rightarrow> request \<Rightarrow> verdict" where
  "publicFallback matched authed public r = (if matched then authed r else public r)"

section \<open>Binding\<close>

definition loopbackBind :: "string \<Rightarrow> bool" where
  "loopbackBind host \<longleftrightarrow> (case ParseIP host of None \<Rightarrow> False | Some a \<Rightarrow> IsLoopback a)"

definition bindHostOrDefault :: "string \<Rightarrow> string" where
  "bindHostOrDefault addr = (if addr = [] then ''127.0.0.1'' else addr)"

definition validateBindAuth :: "string \<Rightarrow> string \<Rightarrow> bool \<Rightarrow> bool \<Rightarrow> unit result" where
  "validateBindAuth bindHost token extraListeners trustedPeer =
     (if token \<noteq> [] \<or> trustedPeer then Inr ()
      else if \<not> loopbackBind bindHost then Inl (ErrWrap (''bind '' @ bindHost) ErrUnauthenticatedBind)
      else if extraListeners then Inl (ErrWrap ''extra HTTP listeners'' ErrUnauthenticatedBind)
      else Inr ())"


section \<open>Who is admitted\<close>

definition admitted :: "verdict \<Rightarrow> request option" where
  "admitted v = (case v of Served r \<Rightarrow> Some r | ServedWatched a r \<Rightarrow> Some r | Unauthorized \<Rightarrow> None)"

text \<open>A name of this machine, an approved name, and the Origin gate for a set of names.\<close>

definition local_name :: "string \<Rightarrow> bool" where
  "local_name h \<longleftrightarrow> h = ''localhost'' \<or> (\<exists>a. ParseIP h = Some a \<and> IsLoopback a)"

definition approved :: "(string \<Rightarrow> bool) option \<Rightarrow> string \<Rightarrow> bool" where
  "approved trustOrigin h \<longleftrightarrow> (\<exists>f. trustOrigin = Some f \<and> f h)"

definition origin_within :: "(string \<Rightarrow> bool) \<Rightarrow> request \<Rightarrow> bool" where
  "origin_within ok r \<longleftrightarrow> rq_Origin r = NoOrigin \<and> fold_case (rq_SecFetchSite r) \<noteq> ''cross-site'' \<or>
     (\<exists>h. rq_Origin r = OriginHost h \<and> ok (Hostname h))"

lemma allowedName_cases:
  "allowedName trusted True h \<Longrightarrow> local_name h \<or> approved trusted h"
  "allowedName trusted False h \<Longrightarrow> approved trusted h \<and> h \<noteq> []"
  by (auto simp: allowedName_def local_name_def approved_def split: if_splits option.splits)

lemma allowedOrigin_cases:
  "allowedOrigin trusted True r \<Longrightarrow> origin_within (\<lambda>h. local_name h \<or> approved trusted h) r"
  "allowedOrigin trusted False r \<Longrightarrow> origin_within (approved trusted) r"
  using allowedName_cases by (auto simp: allowedOrigin_def origin_within_def split: origin.splits)

lemma strip_sel [simp]:
  "rq_peer (stripTokenParam r) = rq_peer r" "rq_Host (stripTokenParam r) = rq_Host r" "rq_Origin (stripTokenParam r) = rq_Origin r"
  "rq_SecFetchSite (stripTokenParam r) = rq_SecFetchSite r" "rq_Authorization (stripTokenParam r) = rq_Authorization r"
  by (simp_all add: stripTokenParam_def)

lemma strip_gates [simp]:
  "allowedHost t lp (stripTokenParam r) = allowedHost t lp r" "allowedOrigin t lp (stripTokenParam r) = allowedOrigin t lp r"
  "bearer (stripTokenParam r) = bearer r" "origin_within ok (stripTokenParam r) = origin_within ok r"
  by (simp_all add: allowedHost_def allowedOrigin_def bearer_def origin_within_def split: origin.split)

lemma strip_query: "(k, v) \<in> set (rq_query (stripTokenParam r)) \<longleftrightarrow> (k, v) \<in> set (rq_query r) \<and> k \<noteq> ''token''"
  by (auto simp: stripTokenParam_def list_ex_iff)

definition candidate_token :: "request \<Rightarrow> string" where
  "candidate_token r = (case bearer r of Some t \<Rightarrow> t | None \<Rightarrow> query_get ''token'' (rq_query r))"

lemma auth_cases:
  assumes "admitted (authHandler sha256 token trustPeer trustOrigin r0) = Some r"
  shows "r = stripTokenParam r0 \<and>
    ((\<exists>a. rq_peer r0 = Some a \<and> IsLoopback (Unmap a) \<and> Zone (Unmap a) = [] \<and> allowedHost trustOrigin True r0 \<and> allowedOrigin trustOrigin True r0) \<or>
     (\<exists>a f. rq_peer r0 = Some a \<and> trustPeer = Some f \<and> f (Unmap a) \<and> allowedHost trustOrigin False r0 \<and> allowedOrigin trustOrigin False r0 \<and>
        authHandler sha256 token trustPeer trustOrigin r0 = ServedWatched (Unmap a) r) \<or>
     token \<noteq> [] \<and> sha256 (candidate_token r0) = sha256 token)"
proof -
  let ?withToken = "if token \<noteq> [] \<and> tokensMatch sha256 (candidate_token r0) token then Served (stripTokenParam r0) else Unauthorized"
  have tok: "admitted ?withToken = Some r \<Longrightarrow> r = stripTokenParam r0 \<and> token \<noteq> [] \<and> sha256 (candidate_token r0) = sha256 token"
    by (auto simp: admitted_def tokensMatch_def split: if_splits)
  show ?thesis
  proof (cases "rq_peer r0")
    case None
    then have "authHandler sha256 token trustPeer trustOrigin r0 = ?withToken"
      by (simp add: authHandler_def Let_def candidate_token_def)
    then show ?thesis using assms tok by auto
  next
    case (Some a)
    define lp where "lp = (IsLoopback (Unmap a) \<and> Zone (Unmap a) = [])"
    define tr where "tr = (lp \<or> (case trustPeer of None \<Rightarrow> False | Some f \<Rightarrow> f (Unmap a)))"
    have run: "authHandler sha256 token trustPeer trustOrigin r0 =
        (if tr \<and> allowedHost trustOrigin lp r0 \<and> allowedOrigin trustOrigin lp r0
         then (if lp then Served (stripTokenParam r0) else ServedWatched (Unmap a) (stripTokenParam r0)) else ?withToken)"
      by (auto simp: authHandler_def Let_def candidate_token_def Some lp_def tr_def)
    show ?thesis
    proof (cases "tr \<and> allowedHost trustOrigin lp r0 \<and> allowedOrigin trustOrigin lp r0")
      case True
      then show ?thesis using assms run Some
        by (cases lp) (auto simp: admitted_def lp_def tr_def split: option.splits)
    next
      case False
      then show ?thesis using assms run tok by auto
    qed
  qed
qed

text \<open>
  C20: Every admission has one of three reasons, and the token goes no further. If the guard
  passes a request on, then either its peer is an unzoned loopback address and both its Host
  and its Origin name this machine or a host the consumer approved; or the consumer trusts
  its peer, both names are approved by the consumer (a name such as localhost is not enough),
  and the request is watched; or a token is configured and the one presented has the same
  digest. An absent Origin passes only without the cross-site mark. The request passed on
  carries no \<open>token\<close> parameter, and nothing else of it is lost.
\<close>

theorem auth_admission:
  assumes "admitted (authHandler sha256 token trustPeer trustOrigin r0) = Some r"
  shows "(\<forall>k v. (k, v) \<in> set (rq_query r) \<longleftrightarrow> (k, v) \<in> set (rq_query r0) \<and> k \<noteq> ''token'') \<and>
    ((\<exists>a. rq_peer r0 = Some a \<and> IsLoopback (Unmap a) \<and> Zone (Unmap a) = [] \<and>
        (local_name (Hostname (rq_Host r0)) \<or> approved trustOrigin (Hostname (rq_Host r0))) \<and>
        origin_within (\<lambda>h. local_name h \<or> approved trustOrigin h) r0) \<or>
     (\<exists>a f. rq_peer r0 = Some a \<and> trustPeer = Some f \<and> f (Unmap a) \<and> approved trustOrigin (Hostname (rq_Host r0)) \<and>
        origin_within (approved trustOrigin) r0 \<and> authHandler sha256 token trustPeer trustOrigin r0 = ServedWatched (Unmap a) r) \<or>
     token \<noteq> [] \<and> sha256 (candidate_token r0) = sha256 token)"
proof -
  note c = auth_cases [OF assms]
  have "\<forall>k v. (k, v) \<in> set (rq_query r) \<longleftrightarrow> (k, v) \<in> set (rq_query r0) \<and> k \<noteq> ''token''" using c strip_query by blast
  moreover have "allowedHost trustOrigin True r0 \<Longrightarrow> local_name (Hostname (rq_Host r0)) \<or> approved trustOrigin (Hostname (rq_Host r0))"
    "allowedHost trustOrigin False r0 \<Longrightarrow> approved trustOrigin (Hostname (rq_Host r0))"
    using allowedName_cases [of trustOrigin "Hostname (rq_Host r0)"] by (auto simp: allowedHost_def)
  ultimately show ?thesis using c allowedOrigin_cases [of trustOrigin r0] by blast
qed

definition sample_rq :: request where
  "sample_rq = \<lparr>rq_peer = Some (V6 [0, 0, 0, 0, 0, 0xFFFF, 256 * 127, 1] []), rq_Host = ''[::1]:8080'', rq_Origin = OriginHost ''localhost:5173'',
     rq_SecFetchSite = [], rq_Authorization = [], rq_query = [(''token'', ''t''), (''session'', ''s'')]\<rparr>"

theorem auth_admission_witness:
  "\<exists>r. admitted (authHandler id ''secret'' None None sample_rq) = Some r \<and> (\<forall>v. (''token'', v) \<notin> set (rq_query r))"
proof -
  have "allowedName None True (Hostname ''[::1]:8080'')" "allowedName None True (Hostname ''localhost:5173'')" by code_simp+
  then have "admitted (authHandler id ''secret'' None None sample_rq) = Some (stripTokenParam sample_rq)"
    by (simp add: authHandler_def sample_rq_def Let_def Unmap_def Is4In6_def IsLoopback_def Zone_def allowedHost_def allowedOrigin_def
        admitted_def stripTokenParam_def)
  from auth_admission [OF this] this show ?thesis by blast
qed


lemma default_bind: "loopbackBind (bindHostOrDefault [])"
  by code_simp

text \<open>
  Without a token and without a trust hook the plane is local. A configuration that
  \<open>validateBindAuth\<close> accepts with neither binds a loopback address and has no extra listener
  (the default does), and whatever reaches the guard, a request is admitted only from an
  unzoned loopback peer under a Host that names this machine or an approved host: a page that
  rebinds its own name to the loopback address is refused, with or without an Origin, and so
  is a page of another site.
\<close>

theorem tokenless_is_local:
  assumes "validateBindAuth (bindHostOrDefault bindAddr) [] extraListeners False = Inr ()"
  shows "loopbackBind (bindHostOrDefault bindAddr) \<and> \<not> extraListeners \<and>
    (\<forall>sha256 trustOrigin r r'. admitted (authHandler sha256 [] None trustOrigin r) = Some r' \<longrightarrow>
       (\<exists>a. rq_peer r = Some a \<and> IsLoopback a) \<and>
       (local_name (Hostname (rq_Host r)) \<or> approved trustOrigin (Hostname (rq_Host r))) \<and>
       origin_within (\<lambda>h. local_name h \<or> approved trustOrigin h) r)"
proof (intro conjI allI impI)
  show "loopbackBind (bindHostOrDefault bindAddr)" "\<not> extraListeners"
    using assms by (auto simp: validateBindAuth_def split: if_splits)
next
  fix sha256 :: "string \<Rightarrow> string" and trustOrigin r r'
  assume "admitted (authHandler sha256 [] None trustOrigin r) = Some r'"
  from auth_cases [OF this] obtain a where a: "rq_peer r = Some a" "IsLoopback (Unmap a)" "allowedHost trustOrigin True r" "allowedOrigin trustOrigin True r"
    by auto
  have "IsLoopback a" using a(2) by (auto simp: IsLoopback_def Unmap_def split: ip.splits if_splits)
  then show "\<exists>a. rq_peer r = Some a \<and> IsLoopback a" using a(1) by blast
  show "local_name (Hostname (rq_Host r)) \<or> approved trustOrigin (Hostname (rq_Host r))"
    using a(3) allowedName_cases(1) by (simp add: allowedHost_def)
  show "origin_within (\<lambda>h. local_name h \<or> approved trustOrigin h) r" by (rule allowedOrigin_cases(1) [OF a(4)])
qed

definition rebound_rq :: request where
  "rebound_rq = sample_rq\<lparr>rq_Host := ''evil.example:8080'', rq_Origin := NoOrigin\<rparr>"

theorem tokenless_is_local_witness:
  "validateBindAuth (bindHostOrDefault []) [] False False = Inr () \<and> authHandler id [] None None rebound_rq = Unauthorized"
proof -
  have v: "validateBindAuth (bindHostOrDefault []) [] False False = Inr ()" using default_bind by (simp add: validateBindAuth_def)
  have "\<not> local_name (Hostname (rq_Host rebound_rq))"
  proof -
    have h: "Hostname (rq_Host rebound_rq) = ''evil.example''" by code_simp
    have "ParseIP ''evil.example'' = None" by code_simp
    then show ?thesis unfolding h by (simp add: local_name_def)
  qed
  moreover have "\<not> approved None h" for h by (simp add: approved_def)
  ultimately have "admitted (authHandler id [] None None rebound_rq) \<noteq> Some r'" for r'
    using tokenless_is_local [OF v] by blast
  then have "admitted (authHandler id [] None None rebound_rq) = None" by blast
  then show ?thesis using v by (simp add: admitted_def split: verdict.splits)
qed

lemma watch_iff:
  "watchPeerTrust addr r ticks \<longleftrightarrow>
     (\<exists>pre now post. ticks = map Some pre @ Some now # post \<and> \<not> still_trusted addr r now \<and> (\<forall>x \<in> set pre. still_trusted addr r x))"
    (is "_ \<longleftrightarrow> (\<exists>pre now post. ?P ticks pre now post)")
proof (induction addr r ticks rule: watchPeerTrust.induct)
  case (3 addr r now ticks)
  let ?P = "\<lambda>ticks pre now post. ticks = map Some pre @ Some now # post \<and> \<not> still_trusted addr r now \<and> (\<forall>x \<in> set pre. still_trusted addr r x)"
  show ?case
  proof (cases "still_trusted addr r now")
    case True
    have "(\<exists>pre now' post. ?P (Some now # ticks) pre now' post) \<longleftrightarrow> (\<exists>pre now' post. ?P ticks pre now' post)"
    proof
      assume "\<exists>pre now' post. ?P (Some now # ticks) pre now' post"
      then obtain pre now' post where p: "?P (Some now # ticks) pre now' post" by blast
      then obtain pre' where "pre = now # pre'" using True by (cases pre) auto
      then have "?P ticks pre' now' post" using p by simp
      then show "\<exists>pre now' post. ?P ticks pre now' post" by blast
    next
      assume "\<exists>pre now' post. ?P ticks pre now' post"
      then obtain pre now' post where "?P ticks pre now' post" by blast
      then have "?P (Some now # ticks) (now # pre) now' post" using True by simp
      then show "\<exists>pre now' post. ?P (Some now # ticks) pre now' post" by blast
    qed
    then show ?thesis using 3 True by simp
  next
    case False
    have "?P (Some now # ticks) [] now ticks" using False by simp
    then have "\<exists>pre now' post. ?P (Some now # ticks) pre now' post" by blast
    then show ?thesis using False by simp
  qed
qed (auto simp: Cons_eq_append_conv Cons_eq_map_conv)

text \<open>
  Losing trust closes the stream. A request admitted because its peer is trusted is
  watched, and was trusted at admission; while it is open, it is cancelled exactly at the
  first check at which the consumer no longer trusts the peer or no longer approves the Host
  or Origin, and never by a check at which it still does. A loopback or token admission is
  not watched.
\<close>

theorem revoked_peer_closed:
  assumes "authHandler sha256 token (Some trustPeer) trustOrigin r0 = ServedWatched addr r"
  shows "still_trusted addr r (trustPeer, trustOrigin) \<and> \<not> (IsLoopback addr \<and> Zone addr = []) \<and>
    (watchPeerTrust addr r ticks \<longleftrightarrow>
      (\<exists>pre now post. ticks = map Some pre @ Some now # post \<and> \<not> still_trusted addr r now \<and> (\<forall>x \<in> set pre. still_trusted addr r x)))"
  using assms watch_iff [of addr r ticks]
  by (auto simp: authHandler_def Let_def still_trusted_def split: if_splits option.splits)

definition tailnet_rq :: request where
  "tailnet_rq = sample_rq\<lparr>rq_peer := Some (V4 [100, 64, 0, 9]), rq_Host := ''box.tail.net'', rq_Origin := NoOrigin\<rparr>"

theorem revoked_peer_closed_witness:
  "authHandler id [] (Some (\<lambda>a. a = V4 [100, 64, 0, 9])) (Some (\<lambda>h. h = ''box.tail.net'')) tailnet_rq = ServedWatched (V4 [100, 64, 0, 9]) (stripTokenParam tailnet_rq) \<and>
   watchPeerTrust (V4 [100, 64, 0, 9]) (stripTokenParam tailnet_rq) [Some (\<lambda>a. True, Some (\<lambda>h. True)), Some (\<lambda>a. False, Some (\<lambda>h. True))]"
proof -
  let ?r = "stripTokenParam tailnet_rq"
  have h: "Hostname ''box.tail.net'' = ''box.tail.net''" by code_simp
  have v: "authHandler id [] (Some (\<lambda>a. a = V4 [100, 64, 0, 9])) (Some (\<lambda>h. h = ''box.tail.net'')) tailnet_rq = ServedWatched (V4 [100, 64, 0, 9]) ?r"
    using h by (simp add: authHandler_def Let_def tailnet_rq_def sample_rq_def Unmap_def IsLoopback_def allowedHost_def allowedOrigin_def allowedName_def stripTokenParam_def)
  have "\<exists>pre now post. [Some (\<lambda>a. True, Some (\<lambda>h. True)), Some (\<lambda>a. False, Some (\<lambda>h. True))] = map Some pre @ Some now # post \<and>
      \<not> still_trusted (V4 [100, 64, 0, 9]) ?r now \<and> (\<forall>x \<in> set pre. still_trusted (V4 [100, 64, 0, 9]) ?r x)"
    using h by (intro exI [of _ "[(\<lambda>a. True, Some (\<lambda>h. True))]"] exI [of _ "(\<lambda>a. False, Some (\<lambda>h. True))"] exI [of _ "[]"])
      (simp add: still_trusted_def allowedHost_def allowedOrigin_def allowedName_def tailnet_rq_def sample_rq_def)
  then show ?thesis using v revoked_peer_closed [OF v] by blast
qed

end
