(* ===== verification/Http_Serve.thy ===== *)
theory Http_Serve
  imports Http_Auth Workers
begin

text \<open>
  Binding and serving the HTTP plane (\<open>startHTTP\<close>, \<open>listenHTTP\<close>, \<open>AddHTTPListener\<close> of
  \<open>daemon/server.go\<close>) and the handshake file (\<open>daemon/httpinfo.go\<close>). The answers of the
  operating system are inputs; a listener is a number, and the plane records which listeners
  are open and which have a worker serving them.
\<close>

section \<open>State\<close>

record HTTPInfo =
  hi_Port :: int
  hi_Bind :: string
  hi_ExtraAddrs :: "string list"

record http_config =
  hc_fixedPort :: int
  hc_bindAddr :: string
  hc_httpToken :: string
  hc_trustedPeer :: "(ip \<Rightarrow> bool) option"
  hc_onHTTPStart :: bool

text \<open>\<open>hp_published\<close> is the handshake file, \<open>None\<close> when it is absent or does not decode.\<close>

record httpPlane =
  hp_httpPort :: int
  hp_httpSrv :: bool
  hp_extraAddrs :: "string list"
  hp_published :: "HTTPInfo option"
  hp_workers :: workerGroup
  hp_open :: "nat list"
  hp_served :: "nat list"
  hp_next :: nat

definition bindHost :: "http_config \<Rightarrow> string" where
  "bindHost c = bindHostOrDefault (hc_bindAddr c)"

definition httpInfoLocked :: "http_config \<Rightarrow> httpPlane \<Rightarrow> HTTPInfo" where
  "httpInfoLocked c p = \<lparr>hi_Port = hp_httpPort p, hi_Bind = bindHost c, hi_ExtraAddrs = hp_extraAddrs p\<rparr>"

section \<open>The handshake file\<close>

definition readHTTPInfo :: "httpPlane \<Rightarrow> HTTPInfo" where
  "readHTTPInfo p = (case hp_published p of None \<Rightarrow> \<lparr>hi_Port = 0, hi_Bind = [], hi_ExtraAddrs = []\<rparr> | Some i \<Rightarrow> i)"

text \<open>The four calls that may fail: creating, writing, closing and renaming the temporary file.\<close>

datatype write_fault = CreateTempFails | WriteFails | CloseFails | RenameFails

definition writeHTTPInfo :: "write_fault option \<Rightarrow> HTTPInfo \<Rightarrow> httpPlane \<Rightarrow> unit result \<times> httpPlane" where
  "writeHTTPInfo flt info p =
     (case flt of
        Some f \<Rightarrow> (Inl (ErrWrap ''write http info'' (ErrDriver (case f of
            CreateTempFails \<Rightarrow> ''create'' | WriteFails \<Rightarrow> ''write'' | CloseFails \<Rightarrow> ''close'' | RenameFails \<Rightarrow> ''rename''))), p)
      | None \<Rightarrow> (Inr (), p\<lparr>hp_published := Some info\<rparr>))"

section \<open>Listeners\<close>

definition open_listener :: "httpPlane \<Rightarrow> nat \<times> httpPlane" where
  "open_listener p = (hp_next p, p\<lparr>hp_open := hp_next p # hp_open p, hp_next := Suc (hp_next p)\<rparr>)"

definition close_listeners :: "nat list \<Rightarrow> httpPlane \<Rightarrow> httpPlane" where
  "close_listeners ls p = p\<lparr>hp_open := filter (\<lambda>l. l \<notin> set ls) (hp_open p)\<rparr>"

text \<open>\<open>listen host port\<close> is \<open>net.Listen\<close>: the port bound, or an error; port 0 asks for any.\<close>

definition listenHTTP :: "http_config \<Rightarrow> (string \<Rightarrow> int \<Rightarrow> int result) \<Rightarrow> httpPlane \<Rightarrow> (nat \<times> int) result \<times> httpPlane" where
  "listenHTTP c listen p =
     (let attempt = (\<lambda>port. case listen (bindHost c) port of
                       Inl e \<Rightarrow> (Inl e, p)
                     | Inr bound \<Rightarrow> (case open_listener p of (l, p') \<Rightarrow> (Inr (l, bound), p')));
          prev = hi_Port (readHTTPInfo p)
      in if hc_fixedPort c \<noteq> 0 then attempt (hc_fixedPort c)
         else if prev \<noteq> 0
              then (case attempt prev of (Inr x, p') \<Rightarrow> (Inr x, p') | (Inl e, p') \<Rightarrow> attempt 0)
              else attempt 0)"

text \<open>The extra listeners, each factory answering with an address or an error.\<close>

fun open_extras :: "string result list \<Rightarrow> nat list \<Rightarrow> string list \<Rightarrow> httpPlane \<Rightarrow> (nat list \<times> string list) result \<times> httpPlane" where
  "open_extras [] ls addrs p = (Inr (ls, addrs), p)"
| "open_extras (Inl e # rest) ls addrs p = (Inl (ErrWrap ''extra HTTP listener'' e), close_listeners ls p)"
| "open_extras (Inr a # rest) ls addrs p = (case open_listener p of (l, p') \<Rightarrow> open_extras rest (ls @ [l]) (addrs @ [a]) p')"

fun serve_all :: "nat list \<Rightarrow> nat list \<Rightarrow> httpPlane \<Rightarrow> unit result \<times> httpPlane" where
  "serve_all ls [] p = (Inr (), p)"
| "serve_all ls (l # rest) p =
     (case StartWorker (hp_workers p) of
        (False, g) \<Rightarrow> (Inl (ErrText ''daemon: HTTP listener startup while draining''), close_listeners ls (p\<lparr>hp_workers := g\<rparr>))
      | (True, g) \<Rightarrow> serve_all ls rest (p\<lparr>hp_workers := g, hp_served := l # hp_served p\<rparr>))"

definition start_workers :: "http_config \<Rightarrow> nat list \<Rightarrow> httpPlane \<Rightarrow> unit result \<times> httpPlane" where
  "start_workers c ls p =
     (let hook = (if hc_onHTTPStart c then StartWorker (hp_workers p) else (True, hp_workers p));
          p1 = p\<lparr>hp_workers := snd hook\<rparr>
      in if \<not> fst hook then (Inl (ErrText ''daemon: HTTP startup while draining''), close_listeners ls p1)
         else
           (case serve_all ls ls p1 of
              (Inl e, p2) \<Rightarrow> (Inl e, p2)
            | (Inr _, p2) \<Rightarrow>
                (case StartWorker (hp_workers p2) of
                   (False, g) \<Rightarrow> (Inl (ErrText ''daemon: HTTP shutdown worker startup while draining''), close_listeners ls (p2\<lparr>hp_workers := g\<rparr>))
                 | (True, g) \<Rightarrow> (Inr (), p2\<lparr>hp_workers := g\<rparr>))))"

definition startHTTP :: "http_config \<Rightarrow> (string \<Rightarrow> int \<Rightarrow> int result) \<Rightarrow> string result list \<Rightarrow> write_fault option \<Rightarrow> httpPlane
    \<Rightarrow> unit result \<times> httpPlane" where
  "startHTTP c listen extras flt p =
     (case listenHTTP c listen p of
        (Inl e, p1) \<Rightarrow> (Inl e, p1)
      | (Inr (ln, port), p1) \<Rightarrow>
          (case open_extras extras [ln] [] p1 of
             (Inl e, p2) \<Rightarrow> (Inl e, p2)
           | (Inr (ls, addrs), p2) \<Rightarrow>
               let p3 = p2\<lparr>hp_httpPort := port, hp_httpSrv := True, hp_extraAddrs := addrs\<rparr>
               in (case writeHTTPInfo flt (httpInfoLocked c p3) p3 of
                     (Inl e, p4) \<Rightarrow> (Inl e, close_listeners ls p4)
                   | (Inr _, p4) \<Rightarrow> start_workers c ls p4)))"

text \<open>
  A listener added at runtime: \<open>ln\<close> is open already, at \<open>addr\<close>; \<open>flt'\<close> is the outcome of the
  second write, which the code ignores.
\<close>

definition AddHTTPListener :: "http_config \<Rightarrow> nat \<Rightarrow> string \<Rightarrow> write_fault option \<Rightarrow> write_fault option \<Rightarrow> httpPlane
    \<Rightarrow> unit result \<times> httpPlane" where
  "AddHTTPListener c ln addr flt flt' p =
     (case validateBindAuth (bindHost c) (hc_httpToken c) True (hc_trustedPeer c \<noteq> None) of
        Inl e \<Rightarrow> (Inl e, close_listeners [ln] p)
      | Inr _ \<Rightarrow>
          if \<not> hp_httpSrv p then (Inl (ErrText ''daemon: AddHTTPListener before HTTP start''), close_listeners [ln] p)
          else
            let p1 = p\<lparr>hp_extraAddrs := hp_extraAddrs p @ [addr]\<rparr>
            in (case writeHTTPInfo flt (httpInfoLocked c p1) p1 of
                  (Inl e, p2) \<Rightarrow> (Inl e, close_listeners [ln] (p2\<lparr>hp_extraAddrs := butlast (hp_extraAddrs p2)\<rparr>))
                | (Inr _, p2) \<Rightarrow>
                    (case StartWorker (hp_workers p2) of
                       (True, g) \<Rightarrow> (Inr (), p2\<lparr>hp_workers := g, hp_served := ln # hp_served p2\<rparr>)
                     | (False, g) \<Rightarrow>
                         let p3 = p2\<lparr>hp_workers := g, hp_extraAddrs := butlast (hp_extraAddrs p2)\<rparr>
                         in (Inl (ErrText ''daemon: AddHTTPListener while draining''),
                             close_listeners [ln] (snd (writeHTTPInfo flt' (httpInfoLocked c p3) p3))))))"

definition HTTPExtraAddrs :: "httpPlane \<Rightarrow> string list" where
  "HTTPExtraAddrs p = hp_extraAddrs p"

section \<open>Listeners are not leaked\<close>

definition plane_ok :: "httpPlane \<Rightarrow> bool" where
  "plane_ok p \<longleftrightarrow> (\<forall>l \<in> set (hp_open p). l < hp_next p)"

text \<open>What opening did since \<open>p\<close>: the listeners \<open>ls\<close> are open besides those of \<open>p\<close>.\<close>

definition opened_since :: "httpPlane \<Rightarrow> nat list \<Rightarrow> httpPlane \<Rightarrow> bool" where
  "opened_since p ls p' \<longleftrightarrow> set (hp_open p') = set (hp_open p) \<union> set ls \<and> (\<forall>l \<in> set ls. hp_next p \<le> l \<and> l < hp_next p') \<and>
     hp_next p \<le> hp_next p' \<and> hp_served p' = hp_served p \<and> hp_workers p' = hp_workers p \<and> hp_published p' = hp_published p"

lemma close_opened:
  assumes "plane_ok p" and "set (hp_open p') = set (hp_open p) \<union> set ls" and "\<forall>l \<in> set ls. hp_next p \<le> l"
  shows "set (hp_open (close_listeners ls p')) = set (hp_open p)"
  using assms by (fastforce simp: close_listeners_def plane_ok_def)

lemma open_extras_ok:
  assumes "plane_ok p"
  shows "opened_since p ls p1 \<Longrightarrow> open_extras extras ls addrs p1 = (r, p2) \<Longrightarrow>
    (case r of
       Inl e \<Rightarrow> set (hp_open p2) = set (hp_open p) \<and> hp_published p2 = hp_published p
     | Inr (ls', addrs') \<Rightarrow> opened_since p ls' p2 \<and> (\<exists>more. ls' = ls @ more) \<and> (\<exists>new. addrs' = addrs @ new \<and> extras = map Inr new))"
proof (induction extras ls addrs p1 rule: open_extras.induct)
  case (2 e rest ls addrs p1)
  then show ?case using close_opened [OF assms, of p1 ls] by (auto simp: opened_since_def close_listeners_def)
next
  case (3 a rest ls addrs p1)
  obtain l p' where l: "open_listener p1 = (l, p')" by fastforce
  then have o: "opened_since p (ls @ [l]) p'" using "3.prems"(1) by (auto simp: open_listener_def opened_since_def)
  have "open_extras rest (ls @ [l]) (addrs @ [a]) p' = (r, p2)" using "3.prems"(2) l by simp
  from "3.IH" [OF l [symmetric] o this] show ?case by (auto split: sum.splits)
qed auto

lemma listenHTTP_ok:
  assumes "listenHTTP c listen p = (r, p1)"
  shows "case r of
      Inl e \<Rightarrow> p1 = p
    | Inr (ln, port) \<Rightarrow> opened_since p [ln] p1 \<and> hp_httpSrv p1 = hp_httpSrv p \<and>
        (\<exists>want. listen (bindHost c) want = Inr port \<and> (hc_fixedPort c \<noteq> 0 \<longrightarrow> want = hc_fixedPort c) \<and>
           (hc_fixedPort c = 0 \<longrightarrow> want = 0 \<or> want = hi_Port (readHTTPInfo p)))"
  using assms by (auto simp: listenHTTP_def Let_def open_listener_def opened_since_def split: sum.splits if_splits prod.splits)

lemma StartWorker_cases: "StartWorker g = (b, g') \<Longrightarrow> b \<longleftrightarrow> \<not> wg_closed g"
  by (auto simp: StartWorker_def Admit_def split: if_splits)

lemma serve_all_ok:
  "serve_all ls rest p = (r, p') \<Longrightarrow>
    (case r of
       Inl e \<Rightarrow> hp_open p' = hp_open (close_listeners ls p)
     | Inr _ \<Rightarrow> hp_open p' = hp_open p \<and> set (hp_served p') = set (hp_served p) \<union> set rest \<and> hp_published p' = hp_published p \<and>
         hp_extraAddrs p' = hp_extraAddrs p \<and> hp_httpPort p' = hp_httpPort p)"
proof (induction rest arbitrary: p)
  case (Cons l rest)
  obtain b g where w: "StartWorker (hp_workers p) = (b, g)" by fastforce
  show ?case
  proof (cases b)
    case True
    then have "serve_all ls rest (p\<lparr>hp_workers := g, hp_served := l # hp_served p\<rparr>) = (r, p')" using Cons.prems w by simp
    from Cons.IH [OF this] show ?thesis by (auto simp: close_listeners_def split: sum.splits)
  next
    case False
    then show ?thesis using Cons.prems w by (auto simp: close_listeners_def)
  qed
qed auto

lemma start_workers_ok:
  assumes "start_workers c ls p = (r, p')"
  shows "case r of
      Inl e \<Rightarrow> hp_open p' = hp_open (close_listeners ls p)
    | Inr _ \<Rightarrow> hp_open p' = hp_open p \<and> set (hp_served p') = set (hp_served p) \<union> set ls \<and> hp_published p' = hp_published p \<and>
        hp_extraAddrs p' = hp_extraAddrs p \<and> hp_httpPort p' = hp_httpPort p"
proof -
  define hook where "hook = (if hc_onHTTPStart c then StartWorker (hp_workers p) else (True, hp_workers p))"
  define p1 where "p1 = p\<lparr>hp_workers := snd hook\<rparr>"
  obtain r2 p2 where s: "serve_all ls ls p1 = (r2, p2)" by fastforce
  have p1: "hp_open p1 = hp_open p" "hp_served p1 = hp_served p" "hp_published p1 = hp_published p" "hp_extraAddrs p1 = hp_extraAddrs p"
    "hp_httpPort p1 = hp_httpPort p" by (simp_all add: p1_def)
  have run: "(r, p') = (if \<not> fst hook then (Inl (ErrText ''daemon: HTTP startup while draining''), close_listeners ls p1)
      else case r2 of Inl e \<Rightarrow> (Inl e, p2)
      | Inr _ \<Rightarrow> (case StartWorker (hp_workers p2) of
           (False, g) \<Rightarrow> (Inl (ErrText ''daemon: HTTP shutdown worker startup while draining''), close_listeners ls (p2\<lparr>hp_workers := g\<rparr>))
         | (True, g) \<Rightarrow> (Inr (), p2\<lparr>hp_workers := g\<rparr>)))"
    using assms unfolding start_workers_def Let_def hook_def [symmetric] p1_def [symmetric] s by (auto split: sum.splits)
  show ?thesis
    using run serve_all_ok [OF s] p1 by (auto simp: close_listeners_def split: if_splits sum.splits prod.splits bool.splits)
qed

text \<open>
  C21: Binding the HTTP plane is all or nothing. Whatever the operating system answers to each
  listen, to each extra listener, to the write of the handshake, and whether or not the
  daemon is draining: when \<open>startHTTP\<close> fails, every listener it opened is closed again and
  no other is touched; when it succeeds, the listeners it opened are open and each has a
  worker serving it, and the handshake file names the port that was bound, the bind host and
  the extra addresses in order. A fixed port is bound exactly or not at all.
\<close>

theorem start_http_all_or_nothing:
  assumes "plane_ok p" and "startHTTP c listen extras flt p = (r, p')"
  shows "(\<forall>e. r = Inl e \<longrightarrow> set (hp_open p') = set (hp_open p)) \<and>
    (r = Inr () \<longrightarrow> (\<exists>ls port addrs want. listen (bindHost c) want = Inr port \<and> (hc_fixedPort c \<noteq> 0 \<longrightarrow> want = hc_fixedPort c) \<and>
       extras = map Inr addrs \<and> set (hp_open p') = set (hp_open p) \<union> set ls \<and> set ls \<inter> set (hp_open p) = {} \<and> ls \<noteq> [] \<and>
       set ls \<subseteq> set (hp_served p') \<and>
       hp_published p' = Some \<lparr>hi_Port = port, hi_Bind = bindHost c, hi_ExtraAddrs = addrs\<rparr> \<and> hp_extraAddrs p' = addrs))"
proof -
  obtain r1 p1 where l: "listenHTTP c listen p = (r1, p1)" by fastforce
  show ?thesis
  proof (cases r1)
    case (Inl e)
    then show ?thesis using assms(2) l listenHTTP_ok [OF l] by (auto simp: startHTTP_def)
  next
    case (Inr x)
    obtain ln port where x: "x = (ln, port)" by fastforce
    obtain want where o1: "opened_since p [ln] p1" and w: "listen (bindHost c) want = Inr port" "hc_fixedPort c \<noteq> 0 \<longrightarrow> want = hc_fixedPort c"
      using listenHTTP_ok [OF l] Inr x by auto
    obtain r2 p2 where e: "open_extras extras [ln] [] p1 = (r2, p2)" by fastforce
    note ex = open_extras_ok [OF assms(1) o1 e]
    show ?thesis
    proof (cases r2)
      case (Inl er)
      then show ?thesis using assms(2) l Inr x e ex by (auto simp: startHTTP_def \<open>r1 = Inr x\<close>)
    next
      case r2: (Inr y)
      obtain ls addrs where y: "y = (ls, addrs)" by fastforce
      have o2: "opened_since p ls p2" and ad: "extras = map Inr addrs" and ne: "ls \<noteq> []" using ex r2 y by auto
      define p3 where "p3 = p2\<lparr>hp_httpPort := port, hp_httpSrv := True, hp_extraAddrs := addrs\<rparr>"
      have o3: "set (hp_open p3) = set (hp_open p) \<union> set ls" "\<forall>l \<in> set ls. hp_next p \<le> l" using o2 by (simp_all add: p3_def opened_since_def)
      show ?thesis
      proof (cases flt)
        case (Some f)
        then have "r \<noteq> Inr () \<and> p' = close_listeners ls p3"
          using assms(2) l Inr x e r2 y by (auto simp: startHTTP_def Let_def writeHTTPInfo_def p3_def)
        then show ?thesis using close_opened [OF assms(1) o3] by simp
      next
        case None
        define p4 where "p4 = p3\<lparr>hp_published := Some (httpInfoLocked c p3)\<rparr>"
        have run: "start_workers c ls p4 = (r, p')"
          using assms(2) l Inr x e r2 y None by (simp add: startHTTP_def Let_def writeHTTPInfo_def p3_def p4_def)
        have "set (hp_open (close_listeners ls p4)) = set (hp_open p)"
          using close_opened [OF assms(1), of p4 ls] o3 by (simp add: p4_def)
        moreover have "set ls \<inter> set (hp_open p) = {}" using o3(2) assms(1) by (fastforce simp: plane_ok_def)
        moreover have pub: "hp_published p4 = Some \<lparr>hi_Port = port, hi_Bind = bindHost c, hi_ExtraAddrs = addrs\<rparr>"
          "hp_extraAddrs p4 = addrs" "hp_open p4 = hp_open p3" by (simp_all add: p4_def p3_def httpInfoLocked_def)
        ultimately show ?thesis
        proof (cases r)
          case (Inr u)
          then have "hp_open p' = hp_open p3" "set ls \<subseteq> set (hp_served p')" "hp_published p' = hp_published p4" "hp_extraAddrs p' = addrs"
            using start_workers_ok [OF run] pub by auto
          then show ?thesis using o3(1) w ad ne pub(1) \<open>set ls \<inter> set (hp_open p) = {}\<close> Inr
            by (intro conjI impI exI [of _ ls] exI [of _ port] exI [of _ addrs] exI [of _ want]) simp_all
        qed (use start_workers_ok [OF run] in auto)
      qed
    qed
  qed
qed


definition sample_plane :: httpPlane where
  "sample_plane = \<lparr>hp_httpPort = 0, hp_httpSrv = False, hp_extraAddrs = [], hp_published = Some \<lparr>hi_Port = 4000, hi_Bind = [], hi_ExtraAddrs = []\<rparr>,
     hp_workers = newWorkerGroup, hp_open = [], hp_served = [], hp_next = 0\<rparr>"

definition sample_http :: http_config where
  "sample_http = \<lparr>hc_fixedPort = 0, hc_bindAddr = [], hc_httpToken = ''t'', hc_trustedPeer = None, hc_onHTTPStart = True\<rparr>"

text \<open>The published port is taken: an ephemeral one is bound.\<close>

definition sample_listen :: "string \<Rightarrow> int \<Rightarrow> int result" where
  "sample_listen host port = (if port = 0 then Inr 50123 else Inl (ErrDriver ''address in use''))"

theorem start_http_all_or_nothing_witness:
  "\<exists>p'. startHTTP sample_http sample_listen [Inr ''100.64.0.9:443''] None sample_plane = (Inr (), p') \<and>
     hp_published p' = Some \<lparr>hi_Port = 50123, hi_Bind = ''127.0.0.1'', hi_ExtraAddrs = [''100.64.0.9:443'']\<rparr> \<and> length (hp_open p') = 2"
proof -
  have ok: "plane_ok sample_plane" by (simp add: plane_ok_def sample_plane_def)
  define p' where "p' = snd (startHTTP sample_http sample_listen [Inr ''100.64.0.9:443''] None sample_plane)"
  have run: "startHTTP sample_http sample_listen [Inr ''100.64.0.9:443''] None sample_plane = (Inr (), p')"
    and len: "length (hp_open p') = 2"
    by (simp_all add: p'_def startHTTP_def listenHTTP_def readHTTPInfo_def sample_http_def sample_listen_def sample_plane_def Let_def
        open_listener_def writeHTTPInfo_def start_workers_def StartWorker_def Admit_def newWorkerGroup_def)
  note all = start_http_all_or_nothing [OF ok run, THEN conjunct2, THEN mp, OF refl]
  then obtain port addrs want where
    w: "sample_listen (bindHost sample_http) want = Inr port" "[Inr ''100.64.0.9:443'' :: string result] = map Inr addrs"
      "hp_published p' = Some \<lparr>hi_Port = port, hi_Bind = bindHost sample_http, hi_ExtraAddrs = addrs\<rparr>" by (elim exE conjE) (rule that)
  have "port = 50123" using w(1) by (simp add: sample_listen_def split: if_splits)
  moreover have "addrs = [''100.64.0.9:443'']" using w(2) by auto
  moreover have "bindHost sample_http = ''127.0.0.1''" by (simp add: bindHost_def sample_http_def bindHostOrDefault_def)
  ultimately show ?thesis using run len w(3) by auto
qed

text \<open>
  A listener added at runtime is served and published, or closed. When the call succeeds
  the daemon has a token or a trust hook, HTTP was started, the listener has a worker, and the
  handshake lists its address last. When it fails, whatever the reason, that listener is
  closed, no other is touched, and the daemon's list of addresses is what it was; the handshake
  is what it was too, except when the daemon was draining and the second write failed.
\<close>

theorem add_listener_published:
  assumes "hp_httpSrv p \<longrightarrow> hp_published p = Some (httpInfoLocked c p)"
    and "AddHTTPListener c ln addr flt flt' p = (r, p')"
  shows "(r = Inr () \<longrightarrow> (hc_httpToken c \<noteq> [] \<or> hc_trustedPeer c \<noteq> None) \<and> hp_httpSrv p \<and> hp_open p' = hp_open p \<and>
            ln \<in> set (hp_served p') \<and> HTTPExtraAddrs p' = HTTPExtraAddrs p @ [addr] \<and> hp_published p' = Some (httpInfoLocked c p')) \<and>
    (\<forall>e. r = Inl e \<longrightarrow> set (hp_open p') = set (hp_open p) - {ln} \<and> HTTPExtraAddrs p' = HTTPExtraAddrs p \<and> hp_served p' = hp_served p \<and>
       (hp_published p' = hp_published p \<or> wg_closed (hp_workers p) \<and> flt' \<noteq> None))"
proof (cases "validateBindAuth (bindHost c) (hc_httpToken c) True (hc_trustedPeer c \<noteq> None)")
  case (Inl e)
  then show ?thesis using assms(2) by (auto simp: AddHTTPListener_def close_listeners_def HTTPExtraAddrs_def)
next
  case (Inr u)
  then have auth: "hc_httpToken c \<noteq> [] \<or> hc_trustedPeer c \<noteq> None" by (auto simp: validateBindAuth_def split: if_splits)
  obtain b g where w: "StartWorker (hp_workers p) = (b, g)" by fastforce
  show ?thesis
  proof (cases "hp_httpSrv p \<and> flt = None \<and> b")
    case True
    then show ?thesis using assms(2) Inr auth w
      by (auto simp: AddHTTPListener_def Let_def writeHTTPInfo_def HTTPExtraAddrs_def httpInfoLocked_def)
  next
    case False
    show ?thesis
    proof (cases "hp_httpSrv p \<and> flt = None")
      case drain: True
      then have "\<not> b" using False by blast
      then have "wg_closed (hp_workers p)" using StartWorker_cases [OF w] by simp
      moreover have "r = Inl (ErrText ''daemon: AddHTTPListener while draining'')"
        "set (hp_open p') = set (hp_open p) - {ln}" "hp_extraAddrs p' = hp_extraAddrs p" "hp_served p' = hp_served p"
        "flt' = None \<Longrightarrow> hp_published p' = Some (httpInfoLocked c p)"
        using assms(2) Inr w drain \<open>\<not> b\<close>
        by (auto simp: AddHTTPListener_def Let_def writeHTTPInfo_def httpInfoLocked_def close_listeners_def split: option.splits)
      ultimately show ?thesis using assms(1) drain by (auto simp: HTTPExtraAddrs_def)
    next
      case early: False
      then show ?thesis using assms(2) Inr
        by (cases "hp_httpSrv p"; cases flt) (auto simp: AddHTTPListener_def Let_def writeHTTPInfo_def HTTPExtraAddrs_def close_listeners_def)
    qed
  qed
qed

theorem add_listener_published_witness:
  "\<exists>r p'. AddHTTPListener sample_http 3 ''10.0.0.2:80'' None None
       (sample_plane\<lparr>hp_httpSrv := True, hp_open := [3], hp_published := Some \<lparr>hi_Port = 0, hi_Bind = ''127.0.0.1'', hi_ExtraAddrs = []\<rparr>\<rparr>) = (r, p') \<and>
     HTTPExtraAddrs p' = [''10.0.0.2:80'']"
proof -
  let ?p = "sample_plane\<lparr>hp_httpSrv := True, hp_open := [3], hp_published := Some \<lparr>hi_Port = 0, hi_Bind = ''127.0.0.1'', hi_ExtraAddrs = []\<rparr>\<rparr>"
  have pub: "hp_httpSrv ?p \<longrightarrow> hp_published ?p = Some (httpInfoLocked sample_http ?p)"
    by (simp add: httpInfoLocked_def bindHost_def bindHostOrDefault_def sample_plane_def sample_http_def)
  obtain r p' where run: "AddHTTPListener sample_http 3 ''10.0.0.2:80'' None None ?p = (r, p')" by fastforce
  have "r = Inr ()"
    using arg_cong [OF run, of fst] by (simp add: AddHTTPListener_def validateBindAuth_def sample_http_def sample_plane_def writeHTTPInfo_def
        StartWorker_def Admit_def newWorkerGroup_def Let_def)
  then show ?thesis using add_listener_published [OF pub run] run by (simp add: HTTPExtraAddrs_def sample_plane_def)
qed

end
