(* ===== verification/Launcher.thy ===== *)
theory Launcher
  imports Paths
begin

text \<open>
  Identity, client and launcher of the daemon (\<open>Spec\<close> and \<open>validateSchemas\<close> of
  \<open>daemon/config.go\<close>, \<open>daemon/client.go\<close>, \<open>daemon/launcher.go\<close>). Several launchers, of different
  releases, work on one daemon: each waits for its turn on the ensure lock, probes the
  incumbent, refuses to replace a newer one, and lets daemonkit converge. daemonkit is not
  part of the repository: its version order, the decoding of its health detail and the
  validation of an identity are parameters, and the rules of the step relation grant it what
  its documentation promises (absence is reported only when nothing runs, an identity with
  another wire protocol is reported as a mismatch).
\<close>

section \<open>Identity\<close>

datatype restart_policy = RestartNever | RestartOnFailure | RestartAlways

record daemon_identity =
  dm_Schemas :: "string list"
  dm_MaxFrame :: int
  dm_Concurrency :: int
  dm_Restart :: restart_policy
  dm_Program :: "string option"

definition WireBuild :: string where
  "WireBuild = ''com.yasyf.cc-interact.interaction/2f18d8a1998d253f57d67e6ec6c549b32aa230676f9dd9b439a2ae63b3ea07d8/v1''"

definition maxPayloadBytes :: int where
  "maxPayloadBytes = 64 * 2 ^ 20"

definition maxFrameBytes :: int where
  "maxFrameBytes = (maxPayloadBytes * 4 + 2) div 3 + 4 * 2 ^ 10"

definition maxSessions :: int where
  "maxSessions = 64"

definition Spec :: "daemon_identity \<Rightarrow> daemon_identity" where
  "Spec d = d\<lparr>dm_Schemas := [WireBuild],
     dm_MaxFrame := (if dm_MaxFrame d = 0 then maxFrameBytes else dm_MaxFrame d),
     dm_Concurrency := (if dm_Concurrency d = 0 then maxSessions else dm_Concurrency d),
     dm_Restart := (if dm_Restart d = RestartNever then RestartAlways else dm_Restart d)\<rparr>"

definition validateSchemas :: "daemon_identity \<Rightarrow> unit result" where
  "validateSchemas d =
     (if length (dm_Schemas d) \<noteq> 1 \<or> dm_Schemas d ! 0 \<noteq> WireBuild
      then Inl (ErrFormat ''daemon: schemas %v, want exactly [%q] (build the identity through Spec)'' (dm_Schemas d @ [WireBuild]))
      else Inr ())"

lemma spec_validates: "validateSchemas (Spec d) = Inr () \<and> Spec (Spec d) = Spec d"
  by (simp add: validateSchemas_def Spec_def maxFrameBytes_def maxPayloadBytes_def maxSessions_def)

text \<open>The frame is the smallest whose body budget, three bytes of payload per four of frame beside the envelope, carries the payload.\<close>

definition body_budget :: "int \<Rightarrow> int" where
  "body_budget frame = (frame - 4 * 2 ^ 10) * 3 div 4"

lemma frame_smallest: "maxPayloadBytes \<le> body_budget f \<longleftrightarrow> maxFrameBytes \<le> f"
  by (simp add: body_budget_def maxFrameBytes_def maxPayloadBytes_def) presburger

section \<open>The client\<close>

text \<open>
  A decoded value with the bytes after it, and what the decoder finds there: the end, another
  value, or an error.
\<close>

datatype trailing = AtEOF | AnotherValue | BadTail go_error

definition decodeStrict :: "(string \<Rightarrow> ('a \<times> string) result) \<Rightarrow> (string \<Rightarrow> trailing) \<Rightarrow> string \<Rightarrow> 'a result" where
  "decodeStrict decode tail payload =
     (case decode payload of
        Inl e \<Rightarrow> Inl e
      | Inr (x, rest) \<Rightarrow>
          (case tail rest of
             AtEOF \<Rightarrow> Inr x
           | AnotherValue \<Rightarrow> Inl (ErrText ''trailing JSON value'')
           | BadTail e \<Rightarrow> Inl e))"

record Client =
  ct_closed :: bool
  ct_closeErr :: "go_error option"

text \<open>\<open>release\<close> is the outcome of closing the lane, used by the first close only.\<close>

definition client_Close :: "go_error option \<Rightarrow> Client \<Rightarrow> go_error option \<times> Client" where
  "client_Close release c =
     (if ct_closed c then (ct_closeErr c, c) else (release, c\<lparr>ct_closed := True, ct_closeErr := release\<rparr>))"

definition Reopen :: "Client \<Rightarrow> Client" where
  "Reopen c = \<lparr>ct_closed = False, ct_closeErr = None\<rparr>"

definition client_Do :: "('e \<Rightarrow> string result) \<Rightarrow> (string \<Rightarrow> string result) \<Rightarrow> (string \<Rightarrow> ('r \<times> string) result) \<Rightarrow> (string \<Rightarrow> trailing) \<Rightarrow>
    string \<Rightarrow> 'e \<Rightarrow> 'r result" where
  "client_Do encode call decode tail op env =
     (case encode env of
        Inl e \<Rightarrow> Inl (ErrWrap (''daemon: encode '' @ op) e)
      | Inr payload \<Rightarrow>
          (case call payload of
             Inl e \<Rightarrow> Inl e
           | Inr body \<Rightarrow>
               (case decodeStrict decode tail body of
                  Inl e \<Rightarrow> Inl (ErrJoin ErrMalformedReply (ErrWrap (''decode '' @ op @ '' response'') e))
                | Inr reply \<Rightarrow> Inr reply)))"

definition second_ns :: int where
  "second_ns = 1000000000"

definition handleTimeout :: int where
  "handleTimeout = 35 * second_ns"

definition operationContext :: "int option \<Rightarrow> int \<Rightarrow> int" where
  "operationContext deadline now = (case deadline of Some d \<Rightarrow> d | None \<Rightarrow> now + handleTimeout + second_ns)"

lemma close_replays:
  assumes "client_Close release c = (e, c')"
  shows "client_Close other c' = (e, c')"
  using assms by (auto simp: client_Close_def split: if_splits)

section \<open>The launcher\<close>

record Launcher =
  la_Daemon :: daemon_identity
  la_App :: string
  la_RuntimeBuild :: string

record daemonkit =
  dk_newer :: "string \<Rightarrow> string \<Rightarrow> bool"
  dk_detail :: "string \<Rightarrow> (string \<times> string) result"
  dk_tail :: "string \<Rightarrow> trailing"
  dk_validate :: "daemon_identity \<Rightarrow> unit result"
  dk_open :: "daemon_identity \<Rightarrow> unit result"

definition UpgradeTimeout :: int where
  "UpgradeTimeout = 30 * second_ns"

definition boundedContext :: "int \<Rightarrow> int" where
  "boundedContext timeout = (if timeout \<le> 0 then UpgradeTimeout else timeout)"

definition ensureLockPath :: "string \<Rightarrow> string" where
  "ensureLockPath lockDir = Join [lockDir, ''ensure.lock'']"

definition validate :: "daemonkit \<Rightarrow> Launcher \<Rightarrow> unit result" where
  "validate dk l =
     (case validateSchemas (la_Daemon l) of
        Inl e \<Rightarrow> Inl e
      | Inr _ \<Rightarrow>
          if la_App l = [] then Inl (ErrText ''daemon: launcher paths are required'')
          else if la_RuntimeBuild l = [] then Inl (ErrText ''daemon: runtime build is required'')
          else dk_validate dk (la_Daemon l))"

definition launcher_open :: "daemonkit \<Rightarrow> Launcher \<Rightarrow> unit result" where
  "launcher_open dk l = (case validate dk l of Inl e \<Rightarrow> Inl e | Inr _ \<Rightarrow> dk_open dk (la_Daemon l))"

text \<open>\<open>stop\<close> is the outcome of daemonkit's Stop.\<close>

definition Stop :: "daemonkit \<Rightarrow> (daemon_identity \<Rightarrow> unit result) \<Rightarrow> Launcher \<Rightarrow> unit result" where
  "Stop dk stop l =
     (case validate dk l of
        Inl e \<Rightarrow> Inl e
      | Inr _ \<Rightarrow>
          (let stopping = (la_Daemon l)\<lparr>dm_Program := None\<rparr>
           in case dk_open dk stopping of
                Inl e \<Rightarrow> Inl e
              | Inr _ \<Rightarrow> (case stop stopping of Inl e \<Rightarrow> Inl (ErrWrap ''daemon: stop'' e) | Inr _ \<Rightarrow> Inr ())))"

definition reportedBuild :: "daemonkit \<Rightarrow> string \<Rightarrow> string option" where
  "reportedBuild dk detail =
     (if detail = [] then None
      else case decodeStrict (dk_detail dk) (dk_tail dk) detail of
             Inl _ \<Rightarrow> None
           | Inr build \<Rightarrow> if build = [] then None else Some build)"

definition refuseRollback :: "daemonkit \<Rightarrow> Launcher \<Rightarrow> string \<Rightarrow> unit result" where
  "refuseRollback dk l detail =
     (case reportedBuild dk detail of
        None \<Rightarrow> Inr ()
      | Some incumbent \<Rightarrow>
          if dk_newer dk incumbent (la_RuntimeBuild l)
          then Inl (ErrWrap (incumbent @ '' supersedes this build '' @ la_RuntimeBuild l) ErrIncumbentNewer)
          else Inr ())"

definition probeIncumbent :: "daemonkit \<Rightarrow> Launcher \<Rightarrow> string result \<Rightarrow> unit result" where
  "probeIncumbent dk l health =
     (case health of
        Inl e \<Rightarrow>
          if err_is e ErrAbsent \<or> err_is e ErrDraining \<or> err_is e ErrProtocolMismatch then Inl e
          else Inl (ErrWrap ''daemon: probe incumbent'' e)
      | Inr detail \<Rightarrow> refuseRollback dk l detail)"

text \<open>What the two ensure paths make of the probe: \<open>Inr ()\<close> goes on to daemonkit's Ensure.\<close>

definition EnsureCurrent :: "unit result \<Rightarrow> unit result" where
  "EnsureCurrent probe =
     (case probe of
        Inr _ \<Rightarrow> Inr ()
      | Inl e \<Rightarrow> if err_is e ErrAbsent \<or> err_is e ErrDraining \<or> err_is e ErrProtocolMismatch then Inr () else Inl e)"

definition EnsureCurrentIfRunning :: "unit result \<Rightarrow> unit result" where
  "EnsureCurrentIfRunning probe =
     (case probe of
        Inr _ \<Rightarrow> Inr ()
      | Inl e \<Rightarrow>
          if err_is e ErrDraining \<or> err_is e ErrProtocolMismatch then Inr ()
          else if err_is e ErrAbsent then Inl ErrAbsent
          else Inl e)"

section \<open>Launchers at work\<close>

datatype launch_phase = Opened | HasTurn | Cleared | Finished "unit result"

text \<open>
  What serves: nothing, a daemon on its way out, or a daemon with its health detail, which a
  launcher can read when it speaks its wire protocol. As history, the daemons are counted as
  they start, a launcher notes the count at its probe, and a daemon that Ensure takes down is
  recorded with its detail, the launcher's release, the count the launcher noted and its own.
\<close>

datatype incumbent = NotRunning | Leaving | Serving bool string

record launch =
  lx_launcher :: Launcher
  lx_ifRunning :: bool
  lx_phase :: launch_phase
  lx_seen :: nat

record launch_world =
  lw_launches :: "launch list"
  lw_lock :: "nat option"
  lw_daemon :: incumbent
  lw_started :: nat
  lw_replaced :: "(string \<times> string \<times> nat \<times> nat) list"

definition health_answer :: "incumbent \<Rightarrow> string result \<Rightarrow> bool" where
  "health_answer d h =
     (case d of
        NotRunning \<Rightarrow> (\<exists>e. h = Inl e \<and> \<not> err_is e ErrProtocolMismatch \<and> \<not> err_is e ErrDraining)
      | Leaving \<Rightarrow> (\<exists>e. h = Inl e \<and> \<not> err_is e ErrProtocolMismatch \<and> \<not> err_is e ErrAbsent)
      | Serving speaks detail \<Rightarrow>
          (speaks \<and> h = Inr detail) \<or>
          (\<exists>e. h = Inl e \<and> \<not> err_is e ErrAbsent \<and> \<not> err_is e ErrDraining \<and> (speaks \<longrightarrow> \<not> err_is e ErrProtocolMismatch)))"

definition set_phase :: "nat \<Rightarrow> launch_phase \<Rightarrow> launch_world \<Rightarrow> launch_world" where
  "set_phase i p w = w\<lparr>lw_launches := (lw_launches w)[i := (lw_launches w ! i)\<lparr>lx_phase := p\<rparr>]\<rparr>"

definition cleared :: "nat \<Rightarrow> launch_world \<Rightarrow> launch_world" where
  "cleared i w = w\<lparr>lw_launches := (lw_launches w)[i := (lw_launches w ! i)\<lparr>lx_phase := Cleared, lx_seen := lw_started w\<rparr>]\<rparr>"

definition unlock :: "nat \<Rightarrow> launch_world \<Rightarrow> launch_world" where
  "unlock i w = (if lw_lock w = Some i then w\<lparr>lw_lock := None\<rparr> else w)"

text \<open>
  One attempt of \<open>awaitEnsureTurn\<close>: the directory or the file of the lock fails, \<open>flock\<close> fails, or
  it is tried, with the error of the context if the lock is held and the context has ended.
\<close>

datatype turn_attempt = NoLockDir go_error | NoLockFile go_error | FlockFails go_error | Tries "go_error option"

definition awaitEnsureTurn :: "nat \<Rightarrow> turn_attempt \<Rightarrow> launch_world \<Rightarrow> launch_world" where
  "awaitEnsureTurn i a w =
     (case a of
        NoLockDir e \<Rightarrow> set_phase i (Finished (Inl (ErrWrap ''daemon: create lock dir'' e))) w
      | NoLockFile e \<Rightarrow> set_phase i (Finished (Inl (ErrWrap ''daemon: open ensure lock'' e))) w
      | FlockFails e \<Rightarrow> set_phase i (Finished (Inl (ErrWrap ''daemon: ensure lock'' e))) w
      | Tries ctxErr \<Rightarrow>
          if lw_lock w = None then (set_phase i HasTurn w)\<lparr>lw_lock := Some i\<rparr>
          else case ctxErr of
                 None \<Rightarrow> w
               | Some e \<Rightarrow> set_phase i (Finished (Inl (ErrWrap ''daemon: wait for another ensure'' e))) w)"

definition ensure_probe :: "daemonkit \<Rightarrow> nat \<Rightarrow> string result \<Rightarrow> launch_world \<Rightarrow> launch_world" where
  "ensure_probe dk i health w =
     (let x = lw_launches w ! i; probe = probeIncumbent dk (lx_launcher x) health
      in case (if lx_ifRunning x then EnsureCurrentIfRunning probe else EnsureCurrent probe) of
           Inl e \<Rightarrow> unlock i (set_phase i (Finished (Inl e)) w)
         | Inr _ \<Rightarrow> cleared i w)"

definition ensure_end :: "nat \<Rightarrow> unit result \<Rightarrow> launch_world \<Rightarrow> launch_world" where
  "ensure_end i r w =
     unlock i (set_phase i (Finished (case r of Inl e \<Rightarrow> Inl (ErrWrap ''daemon: ensure'' e) | Inr _ \<Rightarrow> Inr ())) w)"

text \<open>
  daemonkit's Ensure takes down what serves, starts its own build, or fails at any point. A
  daemon may die or be drained at any time, and so may a launcher, whose lock the kernel then
  releases. With the restart policy \<open>Spec\<close> sets, launchd starts a daemon again whenever none
  serves, whether or not a launcher holds the lock, and of whatever release is installed by then.
\<close>

definition serve_new :: "bool \<Rightarrow> string \<Rightarrow> launch_world \<Rightarrow> launch_world" where
  "serve_new speaks detail w = w\<lparr>lw_daemon := Serving speaks detail, lw_started := Suc (lw_started w)\<rparr>"

definition take_down :: "nat \<Rightarrow> bool \<Rightarrow> string \<Rightarrow> launch_world \<Rightarrow> launch_world" where
  "take_down i speaks detail w =
     (let x = lw_launches w ! i
      in w\<lparr>lw_daemon := Leaving, lw_replaced := lw_replaced w @
            (if speaks then [(detail, la_RuntimeBuild (lx_launcher x), lx_seen x, lw_started w)] else [])\<rparr>)"

inductive launch_step :: "daemonkit \<Rightarrow> launch_world \<Rightarrow> launch_world \<Rightarrow> bool" for dk where
  attempts: "i < length (lw_launches w) \<Longrightarrow> lx_phase (lw_launches w ! i) = Opened \<Longrightarrow>
    launch_step dk w (awaitEnsureTurn i a w)"
| probes: "i < length (lw_launches w) \<Longrightarrow> lx_phase (lw_launches w ! i) = HasTurn \<Longrightarrow> health_answer (lw_daemon w) h \<Longrightarrow>
    launch_step dk w (ensure_probe dk i h w)"
| takes_down: "i < length (lw_launches w) \<Longrightarrow> lx_phase (lw_launches w ! i) = Cleared \<Longrightarrow> lw_daemon w = Serving speaks detail \<Longrightarrow>
    launch_step dk w (take_down i speaks detail w)"
| starts: "i < length (lw_launches w) \<Longrightarrow> lx_phase (lw_launches w ! i) = Cleared \<Longrightarrow> \<not> (\<exists>sp d. lw_daemon w = Serving sp d) \<Longrightarrow>
    launch_step dk w (ensure_end i (Inr ()) (serve_new speaks detail w))"
| relaunches: "\<not> (\<exists>sp d. lw_daemon w = Serving sp d) \<Longrightarrow> launch_step dk w (serve_new speaks detail w)"
| ensured: "i < length (lw_launches w) \<Longrightarrow> lx_phase (lw_launches w ! i) = Cleared \<Longrightarrow> launch_step dk w (ensure_end i r w)"
| dies: "launch_step dk w (w\<lparr>lw_daemon := NotRunning\<rparr>)"
| drains: "lw_daemon w = Serving speaks detail \<Longrightarrow> launch_step dk w (w\<lparr>lw_daemon := Leaving\<rparr>)"
| killed: "i < length (lw_launches w) \<Longrightarrow> launch_step dk w (unlock i (set_phase i (Finished (Inl ErrCanceled)) w))"

definition launch_start :: "daemonkit \<Rightarrow> launch_world \<Rightarrow> bool" where
  "launch_start dk w \<longleftrightarrow> lw_lock w = None \<and> lw_replaced w = [] \<and>
     (\<forall>x \<in> set (lw_launches w). launcher_open dk (lx_launcher x) = Inr () \<and> lx_phase x = Opened \<and> lx_seen x = 0)"

section \<open>No rollback\<close>

definition turn_ok :: "launch_world \<Rightarrow> bool" where
  "turn_ok w \<longleftrightarrow> (\<forall>i < length (lw_launches w). lx_phase (lw_launches w ! i) \<in> {HasTurn, Cleared} \<longrightarrow> lw_lock w = Some i)"

text \<open>
  A launcher that passed its probe may replace the daemon it probed, if that still serves; what
  was replaced was not newer, or had started after the probe.
\<close>

definition cleared_ok :: "daemonkit \<Rightarrow> launch_world \<Rightarrow> bool" where
  "cleared_ok dk w \<longleftrightarrow> (\<forall>i < length (lw_launches w). \<forall>detail. lx_phase (lw_launches w ! i) = Cleared \<longrightarrow> lw_daemon w = Serving True detail \<longrightarrow>
     lx_seen (lw_launches w ! i) = lw_started w \<longrightarrow> refuseRollback dk (lx_launcher (lw_launches w ! i)) detail = Inr ())"

definition seen_ok :: "launch_world \<Rightarrow> bool" where
  "seen_ok w \<longleftrightarrow> (\<forall>i < length (lw_launches w). lx_seen (lw_launches w ! i) \<le> lw_started w)"

definition order_ok :: "daemonkit \<Rightarrow> launch_world \<Rightarrow> bool" where
  "order_ok dk w \<longleftrightarrow> (\<forall>detail build seen n r. (detail, build, seen, n) \<in> set (lw_replaced w) \<longrightarrow> reportedBuild dk detail = Some r \<longrightarrow>
     \<not> dk_newer dk r build \<or> seen < n)"

definition launch_inv :: "daemonkit \<Rightarrow> launch_world \<Rightarrow> bool" where
  "launch_inv dk w \<longleftrightarrow> turn_ok w \<and> cleared_ok dk w \<and> seen_ok w \<and> order_ok dk w"

lemma set_phase_sel [simp]:
  "length (lw_launches (set_phase i p w)) = length (lw_launches w)" "lw_lock (set_phase i p w) = lw_lock w"
  "lw_daemon (set_phase i p w) = lw_daemon w" "lw_replaced (set_phase i p w) = lw_replaced w"
  "lw_started (set_phase i p w) = lw_started w"
  "i < length (lw_launches w) \<Longrightarrow> lw_launches (set_phase i p w) ! j =
     (if j = i then (lw_launches w ! i)\<lparr>lx_phase := p\<rparr> else lw_launches w ! j)"
  by (simp_all add: set_phase_def nth_list_update)

lemma unlock_sel [simp]:
  "lw_launches (unlock i w) = lw_launches w" "lw_daemon (unlock i w) = lw_daemon w" "lw_replaced (unlock i w) = lw_replaced w"
  "lw_started (unlock i w) = lw_started w"
  "lw_lock (unlock i w) = (if lw_lock w = Some i then None else lw_lock w)"
  by (simp_all add: unlock_def)

lemma serve_new_sel [simp]:
  "lw_launches (serve_new speaks detail w) = lw_launches w" "lw_lock (serve_new speaks detail w) = lw_lock w"
  "lw_daemon (serve_new speaks detail w) = Serving speaks detail" "lw_replaced (serve_new speaks detail w) = lw_replaced w"
  "lw_started (serve_new speaks detail w) = Suc (lw_started w)"
  by (simp_all add: serve_new_def)

lemma take_down_sel [simp]:
  "lw_launches (take_down i speaks detail w) = lw_launches w" "lw_lock (take_down i speaks detail w) = lw_lock w"
  "lw_daemon (take_down i speaks detail w) = Leaving" "lw_started (take_down i speaks detail w) = lw_started w"
  by (simp_all add: take_down_def Let_def)

lemma cleared_sel [simp]:
  "length (lw_launches (cleared i w)) = length (lw_launches w)" "lw_lock (cleared i w) = lw_lock w"
  "lw_daemon (cleared i w) = lw_daemon w" "lw_replaced (cleared i w) = lw_replaced w" "lw_started (cleared i w) = lw_started w"
  "i < length (lw_launches w) \<Longrightarrow> lw_launches (cleared i w) ! j =
     (if j = i then (lw_launches w ! i)\<lparr>lx_phase := Cleared, lx_seen := lw_started w\<rparr> else lw_launches w ! j)"
  by (simp_all add: cleared_def nth_list_update)

lemma inv_frames [simp]:
  "turn_ok (w\<lparr>lw_daemon := d\<rparr>) = turn_ok w" "turn_ok (w\<lparr>lw_replaced := rs\<rparr>) = turn_ok w"
  "order_ok dk (w\<lparr>lw_daemon := d\<rparr>) = order_ok dk w" "cleared_ok dk (w\<lparr>lw_replaced := rs\<rparr>) = cleared_ok dk w"
  "order_ok dk (set_phase i p w) = order_ok dk w" "order_ok dk (unlock i w) = order_ok dk w"
  "seen_ok (w\<lparr>lw_daemon := d\<rparr>) = seen_ok w"
  by (simp_all add: turn_ok_def order_ok_def cleared_ok_def seen_ok_def)

lemma cleared_gone: "\<not> (\<exists>detail. d = Serving True detail) \<Longrightarrow> cleared_ok dk (w\<lparr>lw_daemon := d\<rparr>)"
  by (simp add: cleared_ok_def)

lemma turn_unique:
  "turn_ok w \<Longrightarrow> i < length (lw_launches w) \<Longrightarrow> lx_phase (lw_launches w ! i) \<in> {HasTurn, Cleared} \<Longrightarrow> lw_lock w = Some i"
  unfolding turn_ok_def by blast

lemma rollback_accepted: "refuseRollback dk l detail = Inr () \<longleftrightarrow>
    (\<forall>r. reportedBuild dk detail = Some r \<longrightarrow> \<not> dk_newer dk r (la_RuntimeBuild l))"
  by (simp add: refuseRollback_def split: option.split)

lemma probe_clears:
  assumes "health_answer (Serving True detail) h"
    and "(if ifRunning then EnsureCurrentIfRunning (probeIncumbent dk l h) else EnsureCurrent (probeIncumbent dk l h)) = Inr u"
  shows "refuseRollback dk l detail = Inr ()"
  using assms
  by (auto simp: health_answer_def probeIncumbent_def EnsureCurrent_def EnsureCurrentIfRunning_def refuseRollback_def
      split: if_splits sum.splits option.splits)

lemma turn_cleared:
  assumes "turn_ok w" and "i < length (lw_launches w)" and "lw_lock w = Some i"
  shows "turn_ok (cleared i w)"
  unfolding turn_ok_def
proof (intro allI impI)
  fix j assume "j < length (lw_launches (cleared i w))" "lx_phase (lw_launches (cleared i w) ! j) \<in> {HasTurn, Cleared}"
  then show "lw_lock (cleared i w) = Some j"
    using turn_unique [OF assms(1), of j] assms(2,3) by (cases "j = i") simp_all
qed

lemma turn_finish: "turn_ok w \<Longrightarrow> i < length (lw_launches w) \<Longrightarrow> turn_ok (unlock i (set_phase i (Finished r) w))"
  by (auto simp: turn_ok_def)

lemma finish_inv:
  assumes "launch_inv dk w" and "i < length (lw_launches w)"
  shows "launch_inv dk (unlock i (set_phase i (Finished r) w))"
proof -
  have "turn_ok (unlock i (set_phase i (Finished r) w))" using assms by (simp add: launch_inv_def turn_finish)
  moreover have "cleared_ok dk (unlock i (set_phase i (Finished r) w))" using assms by (simp add: launch_inv_def cleared_ok_def)
  moreover have "seen_ok (unlock i (set_phase i (Finished r) w))" using assms by (auto simp: launch_inv_def seen_ok_def)
  ultimately show ?thesis using assms(1) by (simp add: launch_inv_def order_ok_def)
qed

lemma attempt_inv:
  assumes "launch_inv dk w" and "i < length (lw_launches w)" and "lx_phase (lw_launches w ! i) = Opened"
  shows "launch_inv dk (awaitEnsureTurn i a w)"
proof -
  have ended: "launch_inv dk (set_phase i (Finished r) w)" for r
    using assms by (simp add: launch_inv_def turn_ok_def cleared_ok_def seen_ok_def order_ok_def)
  have "launch_inv dk ((set_phase i HasTurn w)\<lparr>lw_lock := Some i\<rparr>)" if "lw_lock w = None"
    using assms that by (auto simp: launch_inv_def turn_ok_def cleared_ok_def seen_ok_def order_ok_def)
  then show ?thesis using ended assms(1) by (auto simp: awaitEnsureTurn_def split: turn_attempt.split option.split)
qed

lemma probe_inv:
  assumes "launch_inv dk w" and "i < length (lw_launches w)" and "lx_phase (lw_launches w ! i) = HasTurn"
    and "health_answer (lw_daemon w) h"
  shows "launch_inv dk (ensure_probe dk i h w)"
proof -
  let ?x = "lw_launches w ! i"
  let ?d = "if lx_ifRunning ?x then EnsureCurrentIfRunning (probeIncumbent dk (lx_launcher ?x) h)
    else EnsureCurrent (probeIncumbent dk (lx_launcher ?x) h)"
  show ?thesis
  proof (cases ?d)
    case (Inl e)
    then show ?thesis using finish_inv [OF assms(1,2)] by (simp add: ensure_probe_def Let_def)
  next
    case (Inr u)
    have turn: "turn_ok w" using assms(1) by (simp add: launch_inv_def)
    have "turn_ok (cleared i w)"
      using turn_cleared [OF turn assms(2)] turn_unique [OF turn assms(2)] assms(3) by simp
    have "refuseRollback dk (lx_launcher ?x) detail = Inr ()" if "lw_daemon w = Serving True detail" for detail
      using probe_clears [OF _ Inr] assms(4) that by simp
    then have "cleared_ok dk (cleared i w)" using assms(1,2) by (simp add: launch_inv_def cleared_ok_def)
    moreover have "seen_ok (cleared i w)" using assms(1,2) by (simp add: launch_inv_def seen_ok_def)
    ultimately show ?thesis using \<open>turn_ok (cleared i w)\<close> assms(1) Inr by (simp add: ensure_probe_def Let_def launch_inv_def order_ok_def)
  qed
qed

lemma launch_step_inv: "launch_step dk w w' \<Longrightarrow> launch_inv dk w \<Longrightarrow> launch_inv dk w'"
proof (induction rule: launch_step.induct)
  case (attempts i w a)
  then show ?case by (intro attempt_inv)
next
  case (probes i w h)
  then show ?case by (intro probe_inv)
next
  case (takes_down i w speaks detail)
  let ?x = "lw_launches w ! i"
  have "lx_seen ?x \<le> lw_started w" using takes_down(1,4) by (simp add: launch_inv_def seen_ok_def)
  moreover have "\<not> dk_newer dk r (la_RuntimeBuild (lx_launcher ?x))"
    if "speaks" "reportedBuild dk detail = Some r" "lx_seen ?x = lw_started w" for r
    using that takes_down by (auto simp: launch_inv_def cleared_ok_def rollback_accepted)
  ultimately have "order_ok dk (take_down i speaks detail w)"
    using takes_down(4) by (fastforce simp: launch_inv_def order_ok_def take_down_def Let_def)
  then show ?case using takes_down(4) by (simp add: launch_inv_def cleared_ok_def turn_ok_def seen_ok_def)
next
  case (starts i w speaks detail)
  have "launch_inv dk (serve_new speaks detail w)"
    using starts(4) by (auto simp: launch_inv_def turn_ok_def cleared_ok_def seen_ok_def order_ok_def)
  then show ?case unfolding ensure_end_def using starts(1) by (intro finish_inv) simp_all
next
  case (relaunches w speaks detail)
  then show ?case by (auto simp: launch_inv_def turn_ok_def cleared_ok_def seen_ok_def order_ok_def)
next
  case (ensured i w r)
  then show ?case unfolding ensure_end_def by (intro finish_inv)
next
  case (killed i w)
  then show ?case by (intro finish_inv)
qed (simp_all add: launch_inv_def cleared_gone)

interpretation launching: invariant_of "launch_start dk" "launch_step dk" "launch_inv dk" for dk
proof unfold_locales
  fix w assume "launch_start dk w"
  then have "lx_phase (lw_launches w ! i) = Opened" if "i < length (lw_launches w)" for i
    using that nth_mem by (fastforce simp: launch_start_def)
  with \<open>launch_start dk w\<close> show "launch_inv dk w"
    by (auto simp: launch_inv_def turn_ok_def cleared_ok_def seen_ok_def order_ok_def launch_start_def)
qed (rule launch_step_inv)


definition sample_kit :: daemonkit where
  "sample_kit = \<lparr>dk_newer = (\<lambda>a b. length b < length a), dk_detail = (\<lambda>d. Inr (d, [])), dk_tail = (\<lambda>_. AtEOF),
     dk_validate = (\<lambda>_. Inr ()), dk_open = (\<lambda>_. Inr ())\<rparr>"

definition sample_launcher :: Launcher where
  "sample_launcher = \<lparr>la_Daemon = Spec \<lparr>dm_Schemas = [], dm_MaxFrame = 0, dm_Concurrency = 0, dm_Restart = RestartNever, dm_Program = None\<rparr>,
     la_App = ''app'', la_RuntimeBuild = ''vv''\<rparr>"

definition sample_launches :: "launch_phase \<Rightarrow> nat option \<Rightarrow> nat \<Rightarrow> incumbent \<Rightarrow> (string \<times> string \<times> nat \<times> nat) list \<Rightarrow> launch_world" where
  "sample_launches p lock n d rs = \<lparr>lw_launches = [\<lparr>lx_launcher = sample_launcher, lx_ifRunning = False, lx_phase = p, lx_seen = 0\<rparr>],
     lw_lock = lock, lw_daemon = d, lw_started = n, lw_replaced = rs\<rparr>"

lemmas sample_launch_simps = sample_kit_def sample_launcher_def sample_launches_def

lemma sample_turn:
  "reach (launch_start sample_kit) (launch_step sample_kit) (sample_launches HasTurn (Some 0) 0 d [])"
proof -
  have spec: "validateSchemas (Spec d) = Inr ()" for d by (simp add: spec_validates)
  have "reach (launch_start sample_kit) (launch_step sample_kit) (sample_launches Opened None 0 d [])"
    by (rule reach_start) (simp add: launch_start_def launcher_open_def validate_def spec sample_launch_simps)
  from reach_step [OF this launch_step.attempts [of 0 _ sample_kit "Tries None"]] show ?thesis
    by (simp add: awaitEnsureTurn_def set_phase_def sample_launches_def)
qed

lemma sample_upgrade:
  "reach (launch_start sample_kit) (launch_step sample_kit) (sample_launches Cleared (Some 0) 0 Leaving [(''v'', ''vv'', 0, 0)])"
proof -
  have "probeIncumbent sample_kit sample_launcher (Inr ''v'') = Inr ()"
    by (simp add: probeIncumbent_def refuseRollback_def reportedBuild_def decodeStrict_def sample_launch_simps)
  then have 2: "reach (launch_start sample_kit) (launch_step sample_kit) (sample_launches Cleared (Some 0) 0 (Serving True ''v'') [])"
    using reach_step [OF sample_turn [of "Serving True ''v''"] launch_step.probes [of 0 _ "Inr ''v''" sample_kit]]
    by (simp add: ensure_probe_def EnsureCurrent_def health_answer_def cleared_def sample_launches_def)
  show ?thesis using reach_step [OF 2 launch_step.takes_down [of 0 _ True "''v''" sample_kit]]
    by (simp add: sample_launches_def sample_launcher_def take_down_def)
qed

text \<open>
  The window the statement leaves is real: launchd starts a newer release after the launcher
  found nothing running, and Ensure takes that down.
\<close>

lemma relaunch_rolled_back:
  "reach (launch_start sample_kit) (launch_step sample_kit) (sample_launches Cleared (Some 0) 1 Leaving [(''vvv'', ''vv'', 0, 1)]) \<and>
   reportedBuild sample_kit ''vvv'' = Some ''vvv'' \<and> dk_newer sample_kit ''vvv'' ''vv''"
proof (intro conjI)
  let ?idle = "sample_launches Cleared (Some 0) 0 NotRunning []" and ?up = "sample_launches Cleared (Some 0) 1 (Serving True ''vvv'') []"
  have 2: "reach (launch_start sample_kit) (launch_step sample_kit) ?idle"
    using reach_step [OF sample_turn [of NotRunning] launch_step.probes [of 0 _ "Inl ErrAbsent" sample_kit]]
    by (simp add: ensure_probe_def probeIncumbent_def EnsureCurrent_def health_answer_def cleared_def sample_launches_def)
  have starts: "launch_step sample_kit ?idle (serve_new True ''vvv'' ?idle)"
    by (rule launch_step.relaunches) (simp add: sample_launches_def)
  have up: "serve_new True ''vvv'' ?idle = ?up" by (simp add: serve_new_def sample_launches_def)
  have stops: "launch_step sample_kit ?up (take_down 0 True ''vvv'' ?up)"
    by (rule launch_step.takes_down) (simp_all add: sample_launches_def)
  have down: "take_down 0 True ''vvv'' ?up = sample_launches Cleared (Some 0) 1 Leaving [(''vvv'', ''vv'', 0, 1)]"
    by (simp add: take_down_def sample_launches_def sample_launcher_def)
  have 3: "reach (launch_start sample_kit) (launch_step sample_kit) ?up"
    unfolding up [symmetric] by (rule reach_step [OF 2]) (rule starts)
  show "reach (launch_start sample_kit) (launch_step sample_kit) (sample_launches Cleared (Some 0) 1 Leaving [(''vvv'', ''vv'', 0, 1)])"
    unfolding down [symmetric] by (rule reach_step [OF 3]) (rule stops)
qed (simp_all add: reportedBuild_def decodeStrict_def sample_kit_def)


end
