(* ===== verification/Store_Open.thy ===== *)
theory Store_Open
  imports Model_Types Go_Strings
begin

text \<open>
  Opening the store (\<open>store/store.go\<close>, \<open>store/schema_archive.go\<close>): the exact-schema check, the
  creation of a fresh database in one transaction, and the archive of a database whose schema
  is not the expected one. SQLite's execution of DDL and SHA-256 are parameters; the answers
  of the file system are inputs, one field per call that can fail.
\<close>

section \<open>Schemas\<close>

definition coreSchema :: string where
  "coreSchema = concat (map (\<lambda>l. l @ [CHR 0x0A]) [
     [],
     ''CREATE TABLE cc_interact_schema_v1 ('',
     ''  id          INTEGER PRIMARY KEY CHECK (id = 1),'',
     ''  fingerprint TEXT NOT NULL'',
     '');'',
     ''CREATE TABLE subjects ('',
     ''  id         TEXT PRIMARY KEY,'',
     (''  slug       TEXT NOT NULL DEFAULT '' @ [CHR 0x27] @ [CHR 0x27] @ '',''),
     ''  session_id TEXT,'',
     ''  scope      TEXT NOT NULL,'',
     ''  claude_pid INTEGER NOT NULL DEFAULT 0,'',
     (''  status     TEXT NOT NULL DEFAULT '' @ [CHR 0x27] @ ''open'' @ [CHR 0x27] @ '',''),
     ''  created_at INTEGER NOT NULL,'',
     ''  updated_at INTEGER NOT NULL'',
     '');'',
     ''CREATE UNIQUE INDEX idx_subjects_session_scope'',
     ''  ON subjects(session_id, scope) WHERE session_id IS NOT NULL;'',
     ''CREATE INDEX idx_subjects_scope ON subjects(scope);'',
     ''CREATE INDEX idx_subjects_pid_scope ON subjects(claude_pid, scope);'',
     (''CREATE UNIQUE INDEX idx_subjects_slug ON subjects(slug) WHERE slug <> '' @ [CHR 0x27] @ [CHR 0x27] @ '';''),
     ''CREATE TABLE events ('',
     ''  subject_id TEXT NOT NULL REFERENCES subjects(id),'',
     ''  seq        INTEGER NOT NULL,'',
     ''  origin     TEXT NOT NULL,'',
     ''  type       TEXT NOT NULL,'',
     (''  payload    TEXT NOT NULL DEFAULT '' @ [CHR 0x27] @ ''{}'' @ [CHR 0x27] @ '',''),
     ''  created_at INTEGER NOT NULL,'',
     ''  dedup_key  TEXT,'',
     ''  PRIMARY KEY (subject_id, seq)'',
     '');'',
     ''CREATE UNIQUE INDEX idx_events_dedup ON events(subject_id, dedup_key) WHERE dedup_key IS NOT NULL;'',
     ''CREATE TABLE agents ('',
     ''  subject_id      TEXT NOT NULL REFERENCES subjects(id),'',
     ''  agent_id        TEXT NOT NULL,'',
     ''  parent_agent_id TEXT NOT NULL,'',
     ''  agent_type      TEXT NOT NULL,'',
     ''  session_id      TEXT NOT NULL,'',
     ''  transcript_path TEXT NOT NULL,'',
     ''  status          TEXT NOT NULL,'',
     ''  started_at      INTEGER NOT NULL,'',
     ''  ended_at        INTEGER,'',
     ''  PRIMARY KEY (subject_id, agent_id)'',
     '');'',
     ''CREATE TABLE directives ('',
     ''  id           INTEGER PRIMARY KEY AUTOINCREMENT,'',
     ''  subject_id   TEXT NOT NULL REFERENCES subjects(id),'',
     ''  agent_id     TEXT NOT NULL,'',
     ''  origin       TEXT NOT NULL,'',
     ''  text         TEXT NOT NULL,'',
     ''  created_at   INTEGER NOT NULL,'',
     ''  delivered_at INTEGER'',
     '');'',
     ''CREATE INDEX idx_directives_pending'',
     ''  ON directives(subject_id, agent_id) WHERE delivered_at IS NULL;''])"

definition schemaVersion :: int where
  "schemaVersion = 1"

text \<open>
  \<open>strings.ToUpper\<close> as far as ASCII text can tell: besides the letters, the dotless i and the
  long s have ASCII capitals.
\<close>

fun ToUpper :: "string \<Rightarrow> string" where
  "ToUpper (c # d # cs) =
     (if c = CHR 0xC4 \<and> d = CHR 0xB1 then CHR ''I'' # ToUpper cs
      else if c = CHR 0xC5 \<and> d = CHR 0xBF then CHR ''S'' # ToUpper cs
      else (if 97 \<le> (of_char c :: nat) \<and> (of_char c :: nat) \<le> 122 then char_of ((of_char c :: nat) - 32) else c) # ToUpper (d # cs))"
| "ToUpper [c] = [if 97 \<le> (of_char c :: nat) \<and> (of_char c :: nat) \<le> 122 then char_of ((of_char c :: nat) - 32) else c]"
| "ToUpper [] = []"

fun join_with :: "string \<Rightarrow> string list \<Rightarrow> string" where
  "join_with sep [] = []"
| "join_with sep [x] = x"
| "join_with sep (x # y # xs) = x @ sep @ join_with sep (y # xs)"

definition forbidden_ddl :: "string list" where
  "forbidden_ddl = [''IF NOT EXISTS'', ''ALTER TABLE'', ''PRAGMA USER_VERSION'', ''CC_INTERACT_SCHEMA_V1'']"

definition Validate :: "string \<Rightarrow> unit result" where
  "Validate ddl =
     (let normalized = join_with '' '' (Fields (ToUpper ddl))
      in case find_first (\<lambda>f. contains f normalized) forbidden_ddl of
           Some f \<Rightarrow> Inl (ErrText (''store: exact schema contains forbidden '' @ f))
         | None \<Rightarrow> Inr ())"

fun compose_from :: "string \<Rightarrow> string list \<Rightarrow> string" where
  "compose_from ddl [] = ddl"
| "compose_from ddl (s # ss) =
     (if TrimSpace s = [] then compose_from ddl ss
      else compose_from (ddl @ (if ddl \<noteq> [] then [CHR 0x0A] else []) @ s) ss)"

definition Compose :: "string list \<Rightarrow> string" where
  "Compose schemas = compose_from [] schemas"

definition Fingerprint :: "(string \<Rightarrow> string) \<Rightarrow> string \<Rightarrow> string result" where
  "Fingerprint sha256 ddl =
     (case Validate ddl of
        Inl e \<Rightarrow> Inl e
      | Inr _ \<Rightarrow> Inr (sha256 (''cc-interact-store-v1'' @ [CHR 0x00] @ coreSchema @ [CHR 0x00] @ ddl)))"

section \<open>Databases\<close>

text \<open>A row of \<open>sqlite_schema\<close>, and what the checks see of a database file, with the rest opaque.\<close>

record schema_row =
  sr_type :: string
  sr_name :: string
  sr_tbl :: string
  sr_sql :: string

record dbfile =
  df_version :: int
  df_fingerprint :: "string option"
  df_schema :: "schema_row list"
  df_data :: string

definition empty_dbfile :: dbfile where
  "empty_dbfile = \<lparr>df_version = 0, df_fingerprint = None, df_schema = [], df_data = []\<rparr>"

datatype store_file = Absent | NotRegular | DbFile dbfile

text \<open>
  The disk around the store's path: the file, the backups made of earlier ones, and whether
  WAL sidecars of an earlier database lie beside the path.
\<close>

record store_disk =
  sd_file :: store_file
  sd_backups :: "dbfile list"
  sd_sidecars :: bool

text \<open>SQLite: a batch of statements applied to a schema, \<open>None\<close> for a refused one.\<close>

record sqlite =
  sq_exec :: "string \<Rightarrow> schema_row list \<Rightarrow> schema_row list option"
  sq_sha256 :: "string \<Rightarrow> string"

definition big_endian8 :: "nat \<Rightarrow> string" where
  "big_endian8 n = map (\<lambda>k. char_of (n div 256 ^ k mod 256)) [7, 6, 5, 4, 3, 2, 1, 0]"

definition encode_field :: "string \<Rightarrow> string" where
  "encode_field f = big_endian8 (length f) @ f"

definition encode_row :: "schema_row \<Rightarrow> string" where
  "encode_row r = encode_field (sr_type r) @ encode_field (sr_name r) @ encode_field (sr_tbl r) @ encode_field (sr_sql r)"

definition liveSQLiteSchemaFingerprint :: "sqlite \<Rightarrow> outcome \<Rightarrow> dbfile \<Rightarrow> string result" where
  "liveSQLiteSchemaFingerprint sq flt d =
     (case flt of
        Some m \<Rightarrow> Inl (ErrWrap ''query sqlite_schema'' (ErrDriver m))
      | None \<Rightarrow> Inr (sq_sha256 sq (concat (map encode_row
          (sort_key (\<lambda>r. (sr_type r, sr_name r, sr_tbl r, sr_sql r))
             (filter (\<lambda>r. take 7 (sr_name r) \<noteq> ''sqlite_'') (df_schema d)))))))"

record verify_faults =
  vf_version :: outcome
  vf_fingerprint :: outcome
  vf_schema :: outcome

definition verifySchema :: "sqlite \<Rightarrow> verify_faults \<Rightarrow> string \<Rightarrow> string \<Rightarrow> dbfile \<Rightarrow> unit result" where
  "verifySchema sq vf wantFingerprint wantSchema d =
     (case vf_version vf of
        Some m \<Rightarrow> Inl (ErrWrap ''read schema version'' (ErrDriver m))
      | None \<Rightarrow>
          if df_version d \<noteq> schemaVersion then Inl (ErrWrap ''schema version'' ErrUnsupportedSchema)
          else
            (case vf_fingerprint vf of
               Some m \<Rightarrow> Inl (ErrWrap ''read schema fingerprint'' (ErrDriver m))
             | None \<Rightarrow>
                 (case df_fingerprint d of
                    None \<Rightarrow> Inl (ErrWrap ''read schema fingerprint'' (ErrText ''no such table or row''))
                  | Some fingerprint \<Rightarrow>
                      if fingerprint \<noteq> wantFingerprint then Inl (ErrWrap ''schema fingerprint'' ErrUnsupportedSchema)
                      else
                        (case liveSQLiteSchemaFingerprint sq (vf_schema vf) d of
                           Inl e \<Rightarrow> Inl e
                         | Inr live \<Rightarrow> if live \<noteq> wantSchema then Inl (ErrWrap ''sqlite_schema fingerprint'' ErrUnsupportedSchema) else Inr ()))))"

text \<open>\<open>createSchema\<close>: one transaction; \<open>flt\<close> is a failure at any of its calls, which rolls it back.\<close>

definition createSchema :: "sqlite \<Rightarrow> outcome \<Rightarrow> string \<Rightarrow> string \<Rightarrow> dbfile \<Rightarrow> unit result \<times> dbfile" where
  "createSchema sq flt ddl fingerprint d =
     (case flt of
        Some m \<Rightarrow> (Inl (ErrWrap ''create schema'' (ErrDriver m)), d)
      | None \<Rightarrow>
          (case sq_exec sq coreSchema (df_schema d) of
             None \<Rightarrow> (Inl (ErrWrap ''create core schema'' (ErrText coreSchema)), d)
           | Some s1 \<Rightarrow>
               (case (if TrimSpace ddl \<noteq> [] then sq_exec sq ddl s1 else Some s1) of
                  None \<Rightarrow> (Inl (ErrWrap ''create consumer schema'' (ErrText ddl)), d)
                | Some s2 \<Rightarrow> (Inr (), d\<lparr>df_schema := s2, df_fingerprint := Some fingerprint, df_version := 1\<rparr>))))"

definition expectedSQLiteSchemaFingerprint :: "sqlite \<Rightarrow> outcome \<Rightarrow> string \<Rightarrow> string \<Rightarrow> string result" where
  "expectedSQLiteSchemaFingerprint sq flt ddl fingerprint =
     (case createSchema sq flt ddl fingerprint empty_dbfile of
        (Inl e, _) \<Rightarrow> Inl (ErrWrap ''create expected sqlite_schema'' e)
      | (Inr _, d) \<Rightarrow> liveSQLiteSchemaFingerprint sq None d)"

section \<open>Opening\<close>

datatype UnsupportedSchemaPolicy = FailUnsupportedSchema | ArchiveUnsupportedSchema

record open_faults =
  of_expected :: outcome
  of_stat :: outcome
  of_mkdir :: outcome
  of_verify :: verify_faults
  of_lock :: outcome
  of_stat2 :: outcome
  of_verify2 :: verify_faults
  of_digest :: outcome
  of_rename :: outcome
  of_sidecar :: outcome
  of_create :: outcome
  of_verify3 :: verify_faults
  of_chmod :: outcome

definition archiveUnsupportedStore :: "open_faults \<Rightarrow> dbfile \<Rightarrow> store_disk \<Rightarrow> unit result \<times> store_disk" where
  "archiveUnsupportedStore f d k =
     (case of_digest f of
        Some m \<Rightarrow> (Inl (ErrWrap ''store: fingerprint unsupported store'' (ErrDriver m)), k)
      | None \<Rightarrow>
          (case of_rename f of
             Some m \<Rightarrow> (Inl (ErrWrap ''store: archive unsupported store'' (ErrDriver m)), k)
           | None \<Rightarrow>
               let k1 = k\<lparr>sd_file := Absent, sd_backups := sd_backups k @ [d]\<rparr>
               in if sd_sidecars k1
                  then (case of_sidecar f of
                          Some m \<Rightarrow> (Inl (ErrWrap ''store: archive unsupported store sidecar'' (ErrDriver m)), k1)
                        | None \<Rightarrow> (Inr (), k1\<lparr>sd_sidecars := False\<rparr>))
                  else (Inr (), k1)))"

text \<open>A path that is absent is created empty by the first statement.\<close>

definition createStore :: "sqlite \<Rightarrow> open_faults \<Rightarrow> string \<Rightarrow> string \<Rightarrow> string \<Rightarrow> store_disk \<Rightarrow> unit result \<times> store_disk" where
  "createStore sq f ddl fingerprint wantSchema k =
     (let d0 = (case sd_file k of DbFile d \<Rightarrow> d | _ \<Rightarrow> empty_dbfile)
      in case createSchema sq (of_create f) ddl fingerprint d0 of
           (Inl e, d1) \<Rightarrow> (Inl e, k\<lparr>sd_file := DbFile d1\<rparr>)
         | (Inr _, d1) \<Rightarrow>
             (case verifySchema sq (of_verify3 f) fingerprint wantSchema d1 of
                Inl e \<Rightarrow> (Inl e, k\<lparr>sd_file := DbFile d1\<rparr>)
              | Inr _ \<Rightarrow>
                  (case of_chmod f of
                     Some m \<Rightarrow> (Inl (ErrWrap ''secure sqlite'' (ErrDriver m)), k\<lparr>sd_file := DbFile d1\<rparr>)
                   | None \<Rightarrow> (Inr (), k\<lparr>sd_file := DbFile d1\<rparr>))))"

definition resetUnderLock :: "sqlite \<Rightarrow> open_faults \<Rightarrow> string \<Rightarrow> string \<Rightarrow> string \<Rightarrow> store_disk \<Rightarrow> unit result \<times> store_disk" where
  "resetUnderLock sq f ddl fingerprint wantSchema k =
     (case of_lock f of
        Some m \<Rightarrow> (Inl (ErrWrap ''store: acquire archive lock'' (ErrDriver m)), k)
      | None \<Rightarrow>
          (case of_stat2 f of
             Some m \<Rightarrow> (Inl (ErrWrap ''inspect sqlite'' (ErrDriver m)), k)
           | None \<Rightarrow>
               (case sd_file k of
                  NotRegular \<Rightarrow> (Inl (ErrText ''store: database path is not a regular file''), k)
                | Absent \<Rightarrow> createStore sq f ddl fingerprint wantSchema k
                | DbFile d \<Rightarrow>
                    (case verifySchema sq (of_verify2 f) fingerprint wantSchema d of
                       Inr _ \<Rightarrow> (Inr (), k)
                     | Inl verr \<Rightarrow>
                         if \<not> err_is verr ErrUnsupportedSchema then (Inl verr, k)
                         else
                           (case archiveUnsupportedStore f d k of
                              (Inl e, k1) \<Rightarrow> (Inl e, k1)
                            | (Inr _, k1) \<Rightarrow> createStore sq f ddl fingerprint wantSchema k1)))))"

text \<open>
  \<open>Open\<close> up to the decision it makes without the lock (\<open>Some\<close> is its answer, \<open>None\<close> means it
  goes on to create or reset), and the whole.
\<close>

definition open_lockless :: "sqlite \<Rightarrow> open_faults \<Rightarrow> UnsupportedSchemaPolicy \<Rightarrow> string \<Rightarrow> string \<Rightarrow> store_disk \<Rightarrow> unit result option" where
  "open_lockless sq f policy fingerprint wantSchema k =
     (case of_stat f of
        Some m \<Rightarrow> Some (Inl (ErrWrap ''inspect sqlite'' (ErrDriver m)))
      | None \<Rightarrow>
          if sd_file k = NotRegular then Some (Inl (ErrText ''store: database path is not a regular file''))
          else
            (case of_mkdir f of
               Some m \<Rightarrow> Some (Inl (ErrWrap ''create sqlite directory'' (ErrDriver m)))
             | None \<Rightarrow>
                 (case sd_file k of
                    DbFile d \<Rightarrow>
                      (case verifySchema sq (of_verify f) fingerprint wantSchema d of
                         Inr _ \<Rightarrow> Some (Inr ())
                       | Inl verr \<Rightarrow> if policy \<noteq> ArchiveUnsupportedSchema then Some (Inl verr) else None)
                  | _ \<Rightarrow> None)))"

definition Open :: "sqlite \<Rightarrow> open_faults \<Rightarrow> UnsupportedSchemaPolicy \<Rightarrow> string \<Rightarrow> store_disk \<Rightarrow> unit result \<times> store_disk" where
  "Open sq f policy ddl k =
     (case Fingerprint (sq_sha256 sq) ddl of
        Inl e \<Rightarrow> (Inl e, k)
      | Inr fingerprint \<Rightarrow>
          (case expectedSQLiteSchemaFingerprint sq (of_expected f) ddl fingerprint of
             Inl e \<Rightarrow> (Inl e, k)
           | Inr wantSchema \<Rightarrow>
               (case open_lockless sq f policy fingerprint wantSchema k of
                  Some r \<Rightarrow> (r, k)
                | None \<Rightarrow>
                    if policy \<noteq> ArchiveUnsupportedSchema then createStore sq f ddl fingerprint wantSchema k
                    else resetUnderLock sq f ddl fingerprint wantSchema k)))"


section \<open>The fingerprint reads the whole schema\<close>

lemma big_endian8_digits:
  assumes "big_endian8 n = big_endian8 m" and "k < 8"
  shows "n div 256 ^ k mod 256 = m div 256 ^ k mod (256 :: nat)"
proof -
  have "k \<in> set [7, 6, 5, 4, 3, 2, 1, 0]" using assms(2) by auto
  then have "(char_of (n div 256 ^ k mod 256) :: char) = char_of (m div 256 ^ k mod 256)"
    using assms(1) unfolding big_endian8_def map_eq_conv by blast
  then have "of_char (char_of (n div 256 ^ k mod 256) :: char) = (of_char (char_of (m div 256 ^ k mod 256) :: char) :: nat)" by simp
  then show ?thesis by simp
qed

lemma big_endian8_inj:
  assumes "big_endian8 n = big_endian8 m" and "n < 256 ^ 8" and "m < 256 ^ 8"
  shows "n = m"
proof -
  have "k \<le> 8 \<Longrightarrow> n mod 256 ^ k = m mod 256 ^ k" for k
  proof (induction k)
    case (Suc k)
    then show ?case using big_endian8_digits [OF assms(1), of k] mod_mult2_eq [of n "256 ^ k" 256] mod_mult2_eq [of m "256 ^ k" 256]
      by (simp add: mult.commute)
  qed simp
  from this [of 8] show ?thesis using assms(2,3) by simp
qed

lemma length_big_endian8 [simp]: "length (big_endian8 n) = 8"
  by (simp add: big_endian8_def)

lemma encode_field_inj:
  assumes "encode_field f @ x = encode_field g @ y" and "length f < 256 ^ 8" and "length g < 256 ^ 8"
  shows "f = g \<and> x = y"
proof -
  have e: "big_endian8 (length f) @ (f @ x) = big_endian8 (length g) @ (g @ y)" using assms(1) by (simp add: encode_field_def)
  have "big_endian8 (length f) = big_endian8 (length g)" and r: "f @ x = g @ y"
    using e append_eq_append_conv [of "big_endian8 (length f)" "big_endian8 (length g)" "f @ x" "g @ y"] by simp_all
  from big_endian8_inj [OF this(1) assms(2,3)] r show ?thesis by simp
qed

definition row_fits :: "schema_row \<Rightarrow> bool" where
  "row_fits r \<longleftrightarrow> length (sr_type r) < 256 ^ 8 \<and> length (sr_name r) < 256 ^ 8 \<and> length (sr_tbl r) < 256 ^ 8 \<and> length (sr_sql r) < 256 ^ 8"

lemma encode_row_inj: "encode_row r @ x = encode_row q @ y \<Longrightarrow> row_fits r \<Longrightarrow> row_fits q \<Longrightarrow> r = q \<and> x = y"
  unfolding encode_row_def append_assoc row_fits_def by (auto dest!: encode_field_inj intro!: schema_row.equality)

lemma encode_rows_inj:
  "concat (map encode_row rs) = concat (map encode_row qs) \<Longrightarrow> list_all row_fits rs \<Longrightarrow> list_all row_fits qs \<Longrightarrow> rs = qs"
proof (induction rs arbitrary: qs)
  case Nil
  then show ?case by (cases qs) (auto simp: encode_row_def encode_field_def big_endian8_def)
next
  case (Cons r rs)
  then obtain q qs' where qs: "qs = q # qs'" by (cases qs) (auto simp: encode_row_def encode_field_def big_endian8_def)
  then have "r = q" "concat (map encode_row rs) = concat (map encode_row qs')"
    using Cons.prems encode_row_inj [of r "concat (map encode_row rs)" q "concat (map encode_row qs')"] by auto
  then show ?case using Cons qs by auto
qed

text \<open>The rows the fingerprint covers, in its order.\<close>

definition visible_schema :: "dbfile \<Rightarrow> schema_row list" where
  "visible_schema d = sort_key (\<lambda>r. (sr_type r, sr_name r, sr_tbl r, sr_sql r)) (filter (\<lambda>r. take 7 (sr_name r) \<noteq> ''sqlite_'') (df_schema d))"

lemma live_fingerprint: "liveSQLiteSchemaFingerprint sq None d = Inr (sq_sha256 sq (concat (map encode_row (visible_schema d))))"
  by (simp add: liveSQLiteSchemaFingerprint_def visible_schema_def)

section \<open>An open store is the expected one\<close>

definition verified :: "sqlite \<Rightarrow> string \<Rightarrow> string \<Rightarrow> dbfile \<Rightarrow> bool" where
  "verified sq fp want d \<longleftrightarrow> df_version d = schemaVersion \<and> df_fingerprint d = Some fp \<and>
     sq_sha256 sq (concat (map encode_row (visible_schema d))) = want"

text \<open>What counts as a definitive mismatch.\<close>

definition mismatched :: "sqlite \<Rightarrow> string \<Rightarrow> string \<Rightarrow> dbfile \<Rightarrow> bool" where
  "mismatched sq fp want d \<longleftrightarrow> df_version d \<noteq> schemaVersion \<or> (\<exists>g. df_fingerprint d = Some g \<and> g \<noteq> fp) \<or>
     sq_sha256 sq (concat (map encode_row (visible_schema d))) \<noteq> want"

definition no_verify_faults :: verify_faults where
  "no_verify_faults = \<lparr>vf_version = None, vf_fingerprint = None, vf_schema = None\<rparr>"

lemma verify_nil: "verifySchema sq vf fp want d = Inr () \<Longrightarrow> verified sq fp want d"
  by (auto simp: verifySchema_def verified_def liveSQLiteSchemaFingerprint_def visible_schema_def split: option.splits if_splits)

lemma verify_ok: "verified sq fp want d \<Longrightarrow> verifySchema sq no_verify_faults fp want d = Inr ()"
  by (simp add: verifySchema_def verified_def no_verify_faults_def live_fingerprint)

lemma verify_unsupported: "verifySchema sq vf fp want d = Inl e \<Longrightarrow> err_is e ErrUnsupportedSchema \<Longrightarrow> mismatched sq fp want d"
  by (auto simp: verifySchema_def mismatched_def liveSQLiteSchemaFingerprint_def visible_schema_def split: option.splits if_splits)

lemma verified_not_mismatched: "verified sq fp want d \<Longrightarrow> \<not> mismatched sq fp want d"
  by (auto simp: verified_def mismatched_def)

lemma createStore_result:
  assumes "createStore sq f ddl fp want k = (r, k')"
  shows "sd_backups k' = sd_backups k \<and> sd_sidecars k' = sd_sidecars k \<and> (r = Inr () \<longrightarrow> (\<exists>d. sd_file k' = DbFile d \<and> verified sq fp want d))"
  using assms verify_nil unfolding createStore_def Let_def
  by (auto split: prod.splits sum.splits option.splits)

lemma archive_result:
  assumes "archiveUnsupportedStore f d k = (r, k')"
  shows "k' = k \<and> r \<noteq> Inr () \<or> sd_backups k' = sd_backups k @ [d] \<and> sd_file k' = Absent"
  using assms by (auto simp: archiveUnsupportedStore_def Let_def split: option.splits if_splits)

lemma reset_result:
  assumes "resetUnderLock sq f ddl fp want k = (r, k')"
  shows "(r = Inr () \<longrightarrow> (\<exists>d. sd_file k' = DbFile d \<and> verified sq fp want d)) \<and>
    (\<forall>d. sd_file k = DbFile d \<longrightarrow> k' = k \<or> sd_backups k' = sd_backups k @ [d] \<and> mismatched sq fp want d)"
proof (cases "of_lock f = None \<and> of_stat2 f = None")
  case True
  show ?thesis
  proof (cases "sd_file k")
    case Absent
    then show ?thesis using assms True createStore_result [of sq f ddl fp want k r k'] by (simp add: resetUnderLock_def)
  next
    case NotRegular
    then show ?thesis using assms True by (auto simp: resetUnderLock_def)
  next
    case (DbFile d)
    show ?thesis
    proof (cases "verifySchema sq (of_verify2 f) fp want d")
      case (Inr u)
      then show ?thesis using assms True DbFile verify_nil [of sq "of_verify2 f" fp want d] by (auto simp: resetUnderLock_def)
    next
      case (Inl verr)
      show ?thesis
      proof (cases "err_is verr ErrUnsupportedSchema")
        case un: True
        obtain ra ka where a: "archiveUnsupportedStore f d k = (ra, ka)" by fastforce
        show ?thesis
        proof (cases ra)
          case Inl': (Inl e)
          then show ?thesis using assms True DbFile Inl un a archive_result [OF a] verify_unsupported [OF Inl un]
            by (auto simp: resetUnderLock_def)
        next
          case (Inr u)
          then have "createStore sq f ddl fp want ka = (r, k')" using assms True DbFile Inl un a by (simp add: resetUnderLock_def)
          from createStore_result [OF this] show ?thesis
            using archive_result [OF a] Inr DbFile verify_unsupported [OF Inl un] by auto
        qed
      qed (use assms True DbFile Inl in \<open>auto simp: resetUnderLock_def\<close>)
    qed
  qed
qed (use assms in \<open>auto simp: resetUnderLock_def split: option.splits\<close>)

lemma lockless_nil: "open_lockless sq f policy fp want k = Some (Inr ()) \<Longrightarrow> \<exists>d. sd_file k = DbFile d \<and> verified sq fp want d"
  by (auto simp: open_lockless_def dest: verify_nil split: option.splits if_splits store_file.splits sum.splits)

lemma lockless_none: "open_lockless sq f policy fp want k = None \<Longrightarrow> policy = ArchiveUnsupportedSchema \<or> sd_file k = Absent"
  by (auto simp: open_lockless_def split: option.splits if_splits store_file.splits sum.splits)


text \<open>The database that \<open>expectedSQLiteSchemaFingerprint\<close> builds in memory.\<close>

lemma expected_db:
  assumes "expectedSQLiteSchemaFingerprint sq flt ddl fp = Inr want"
  shows "\<exists>e. createSchema sq None ddl fp empty_dbfile = (Inr (), e) \<and> verified sq fp want e"
proof -
  obtain e where e: "createSchema sq flt ddl fp empty_dbfile = (Inr (), e)" "want = sq_sha256 sq (concat (map encode_row (visible_schema e)))"
    using assms by (auto simp: expectedSQLiteSchemaFingerprint_def live_fingerprint split: prod.splits sum.splits)
  then have "flt = None" by (auto simp: createSchema_def split: option.splits)
  moreover have "df_version e = schemaVersion" "df_fingerprint e = Some fp"
    using e(1) by (auto simp: createSchema_def schemaVersion_def split: option.splits if_splits)
  ultimately show ?thesis using e by (auto simp: verified_def)
qed



definition no_open_faults :: open_faults where
  "no_open_faults = \<lparr>of_expected = None, of_stat = None, of_mkdir = None, of_verify = no_verify_faults, of_lock = None, of_stat2 = None,
     of_verify2 = no_verify_faults, of_digest = None, of_rename = None, of_sidecar = None, of_create = None,
     of_verify3 = no_verify_faults, of_chmod = None\<rparr>"

text \<open>An engine that records each batch as one row and refuses to create the core tables twice.\<close>

definition sample_sqlite :: sqlite where
  "sample_sqlite = \<lparr>sq_exec = (\<lambda>ddl s. if ddl = coreSchema \<and> s \<noteq> [] then None
       else Some (s @ [\<lparr>sr_type = ''table'', sr_name = ''t'', sr_tbl = ''t'', sr_sql = ddl\<rparr>])), sq_sha256 = id\<rparr>"

definition drifted_db :: dbfile where
  "drifted_db = \<lparr>df_version = 2, df_fingerprint = None, df_schema = [], df_data = ''rows''\<rparr>"

definition drifted_disk :: store_disk where
  "drifted_disk = \<lparr>sd_file = DbFile drifted_db, sd_backups = [], sd_sidecars = True\<rparr>"

lemma sample_fingerprint: "Fingerprint (sq_sha256 sample_sqlite) [] = Inr (''cc-interact-store-v1'' @ [CHR 0x00] @ coreSchema @ [CHR 0x00])"
  by (simp add: Fingerprint_def Validate_def Fields_def forbidden_ddl_def sample_sqlite_def)

lemma sample_expected: "\<exists>want. expectedSQLiteSchemaFingerprint sample_sqlite None [] fp = Inr want"
proof -
  have "TrimSpace [] = []" by code_simp
  then show ?thesis by (simp add: expectedSQLiteSchemaFingerprint_def createSchema_def empty_dbfile_def sample_sqlite_def live_fingerprint)
qed

section \<open>Concurrent openers\<close>

datatype opener = Fresh | Waiting | Opened "unit result"

record openers =
  op_disk :: store_disk
  op_state :: "nat \<Rightarrow> opener"

text \<open>
  Any number of processes opening one drifted store under the archive policy: the check
  without the lock, and the reset, which holds it from start to end.
\<close>

inductive open_step :: "sqlite \<Rightarrow> string \<Rightarrow> string \<Rightarrow> string \<Rightarrow> openers \<Rightarrow> openers \<Rightarrow> bool" for sq ddl fp want where
  check: "op_state s i = Fresh \<Longrightarrow> open_step sq ddl fp want s (s\<lparr>op_state := (op_state s)(i :=
    (case open_lockless sq no_open_faults ArchiveUnsupportedSchema fp want (op_disk s) of Some r \<Rightarrow> Opened r | None \<Rightarrow> Waiting))\<rparr>)"
| reset: "op_state s i = Waiting \<Longrightarrow> resetUnderLock sq no_open_faults ddl fp want (op_disk s) = (r, k) \<Longrightarrow>
    open_step sq ddl fp want s (s\<lparr>op_disk := k, op_state := (op_state s)(i := Opened r)\<rparr>)"

inductive_cases open_stepE: "open_step sq ddl fp want s s'"

definition drifted :: "sqlite \<Rightarrow> string \<Rightarrow> string \<Rightarrow> store_disk \<Rightarrow> dbfile \<Rightarrow> bool" where
  "drifted sq fp want k d \<longleftrightarrow> sd_file k = DbFile d \<and>
     (\<exists>e. verifySchema sq no_verify_faults fp want d = Inl e \<and> err_is e ErrUnsupportedSchema)"

definition openers_start :: "store_disk \<Rightarrow> openers \<Rightarrow> bool" where
  "openers_start k s \<longleftrightarrow> op_disk s = k \<and> (\<forall>i. op_state s i = Fresh)"

definition openers_inv :: "sqlite \<Rightarrow> string \<Rightarrow> string \<Rightarrow> store_disk \<Rightarrow> dbfile \<Rightarrow> openers \<Rightarrow> bool" where
  "openers_inv sq fp want k0 d0 s \<longleftrightarrow>
     op_disk s = k0 \<and> (\<forall>i r. op_state s i \<noteq> Opened r) \<or>
     (\<exists>d. sd_file (op_disk s) = DbFile d \<and> verified sq fp want d) \<and> sd_backups (op_disk s) = sd_backups k0 @ [d0] \<and>
       (\<forall>i r. op_state s i = Opened r \<longrightarrow> r = Inr ())"

lemma create_fresh:
  assumes "expectedSQLiteSchemaFingerprint sq None ddl fp = Inr want" and "sd_file k = Absent"
  shows "\<exists>d. createStore sq no_open_faults ddl fp want k = (Inr (), k\<lparr>sd_file := DbFile d\<rparr>) \<and> verified sq fp want d"
proof -
  obtain e where e: "createSchema sq None ddl fp empty_dbfile = (Inr (), e)" "verified sq fp want e" using expected_db [OF assms(1)] by blast
  then show ?thesis using assms(2) verify_ok [OF e(2)] by (intro exI [of _ e]) (simp add: createStore_def no_open_faults_def)
qed

lemma open_step_inv:
  assumes "expectedSQLiteSchemaFingerprint sq None ddl fp = Inr want" and "drifted sq fp want k0 d0"
    and inv: "openers_inv sq fp want k0 d0 s" and "open_step sq ddl fp want s s'"
  shows "openers_inv sq fp want k0 d0 s'"
proof -
  obtain e0 where d0: "sd_file k0 = DbFile d0" "verifySchema sq no_verify_faults fp want d0 = Inl e0" "err_is e0 ErrUnsupportedSchema"
    using assms(2) by (auto simp: drifted_def)
  from inv consider (before) "op_disk s = k0" "\<forall>i r. op_state s i \<noteq> Opened r" |
      (after) d where "sd_file (op_disk s) = DbFile d" "verified sq fp want d" "sd_backups (op_disk s) = sd_backups k0 @ [d0]"
        "\<forall>i r. op_state s i = Opened r \<longrightarrow> r = Inr ()"
    unfolding openers_inv_def by blast
  then show ?thesis
  proof cases
    case before
    have look: "open_lockless sq no_open_faults ArchiveUnsupportedSchema fp want k0 = None"
      using d0 by (simp add: open_lockless_def no_open_faults_def)
    from assms(4) show ?thesis
    proof cases
      case (check i)
      then show ?thesis using before look by (auto simp: openers_inv_def)
    next
      case (reset i r k)
      obtain k1 where k1: "archiveUnsupportedStore no_open_faults d0 k0 = (Inr (), k1)" "sd_file k1 = Absent" "sd_backups k1 = sd_backups k0 @ [d0]"
        by (cases "sd_sidecars k0") (simp_all add: archiveUnsupportedStore_def no_open_faults_def Let_def)
      from k1(1) have "resetUnderLock sq no_open_faults ddl fp want k0 = createStore sq no_open_faults ddl fp want k1"
        using d0 by (simp add: resetUnderLock_def) (simp add: no_open_faults_def)
      moreover obtain d where "createStore sq no_open_faults ddl fp want k1 = (Inr (), k1\<lparr>sd_file := DbFile d\<rparr>)" "verified sq fp want d"
        using create_fresh [OF assms(1) k1(2)] by blast
      ultimately have "r = Inr ()" "k = k1\<lparr>sd_file := DbFile d\<rparr>" using reset before by simp_all
      then show ?thesis using reset(1) before \<open>verified sq fp want d\<close> unfolding openers_inv_def
        by (intro disjI2) (auto simp: k1(3) split: if_splits)
    qed
  next
    case (after d)
    note ok = verify_ok [OF after(2)]
    have look: "open_lockless sq no_open_faults ArchiveUnsupportedSchema fp want (op_disk s) = Some (Inr ())"
      "resetUnderLock sq no_open_faults ddl fp want (op_disk s) = (Inr (), op_disk s)"
      using after(1) ok by (simp_all add: open_lockless_def resetUnderLock_def no_open_faults_def)
    from assms(4) show ?thesis
      by cases (use after look in \<open>auto simp: openers_inv_def\<close>)
  qed
qed


lemma open_race:
  assumes "expectedSQLiteSchemaFingerprint sq None ddl fp = Inr want" and "drifted sq fp want k0 d0"
  shows "invariant_of (openers_start k0) (open_step sq ddl fp want) (openers_inv sq fp want k0 d0)"
  by unfold_locales (simp add: openers_start_def openers_inv_def, rule open_step_inv [OF assms])


lemma sample_drifted: "drifted sample_sqlite fp want drifted_disk drifted_db"
  by (simp add: drifted_def drifted_disk_def drifted_db_def verifySchema_def no_verify_faults_def schemaVersion_def)



text \<open>
  When the database was renamed but a sidecar was not, the next open puts a fresh database
  beside the old sidecar.
\<close>

theorem stale_sidecar_inherited:
  "\<exists>e k1 k2. Open sample_sqlite (no_open_faults\<lparr>of_sidecar := Some ''io''\<rparr>) ArchiveUnsupportedSchema [] drifted_disk = (Inl e, k1) \<and>
     Open sample_sqlite no_open_faults ArchiveUnsupportedSchema [] k1 = (Inr (), k2) \<and> sd_sidecars k2"
proof -
  let ?fp = "''cc-interact-store-v1'' @ [CHR 0x00] @ coreSchema @ [CHR 0x00]"
  obtain want where want: "expectedSQLiteSchemaFingerprint sample_sqlite None [] ?fp = Inr want" using sample_expected by blast
  define k1 where "k1 = drifted_disk\<lparr>sd_file := Absent, sd_backups := [drifted_db]\<rparr>"
  have 1: "Open sample_sqlite (no_open_faults\<lparr>of_sidecar := Some ''io''\<rparr>) ArchiveUnsupportedSchema [] drifted_disk
      = (Inl (ErrWrap ''store: archive unsupported store sidecar'' (ErrDriver ''io'')), k1)"
    unfolding Open_def sample_fingerprint using want
    by (simp add: open_lockless_def no_open_faults_def drifted_disk_def drifted_db_def verifySchema_def no_verify_faults_def schemaVersion_def
        resetUnderLock_def archiveUnsupportedStore_def k1_def)
  obtain d where d: "createStore sample_sqlite no_open_faults [] ?fp want k1 = (Inr (), k1\<lparr>sd_file := DbFile d\<rparr>)"
    using create_fresh [OF want, of k1] by (auto simp: k1_def)
  have "Open sample_sqlite no_open_faults ArchiveUnsupportedSchema [] k1 = createStore sample_sqlite no_open_faults [] ?fp want k1"
  proof -
    have "of_expected no_open_faults = None" "open_lockless sample_sqlite no_open_faults ArchiveUnsupportedSchema fp want k1 = None"
      "resetUnderLock sample_sqlite no_open_faults [] fp want k1 = createStore sample_sqlite no_open_faults [] fp want k1" for fp
      by (simp_all add: open_lockless_def resetUnderLock_def k1_def no_open_faults_def)
    then show ?thesis unfolding Open_def sample_fingerprint using want by simp
  qed
  then show ?thesis using 1 d by (simp add: k1_def drifted_disk_def)
qed

end
