(* ===== verification/Daemon_New.thy ===== *)
theory Daemon_New
  imports Daemon_Lifecycle Http_Serve Launcher Store_Open
begin

text \<open>
  Building a daemon and answering the socket (\<open>New\<close>, \<open>product.Handle\<close>, \<open>decodeEnvelope\<close>,
  \<open>Serve\<close>, \<open>Background\<close> and the repository locks of \<open>daemon/server.go\<close>). The theorem says what a
  server that \<open>New\<close> returned is: its configuration passed every check, its table holds the core
  ops, and once the consumer has added its own, every request the socket delivers is answered.
\<close>

section \<open>The checks\<close>

text \<open>
  The rest of \<open>Config\<close>: the identity and daemonkit's check of it, the consumer's tables, and the
  binding of the HTTP plane.
\<close>

record new_config =
  nc_Daemon :: daemon_identity
  nc_ValidateForServe :: "daemon_identity \<Rightarrow> unit result"
  nc_StoreSchema :: string
  nc_BindAddr :: string
  nc_HTTPToken :: string
  nc_ExtraHTTPListeners :: nat
  nc_TrustedPeer :: "(ip \<Rightarrow> bool) option"
  nc_core :: Config

text \<open>What is built before the store is: the op table. \<open>None\<close> is the panic of a double registration.\<close>

definition daemon_New :: "new_config \<Rightarrow> nat \<Rightarrow> handlerTable option result" where
  "daemon_New cfg n =
     (case nc_ValidateForServe cfg (nc_Daemon cfg) of
        Inl e \<Rightarrow> Inl (ErrWrap ''daemon: validate daemon identity'' e)
      | Inr _ \<Rightarrow>
          (case validateSchemas (nc_Daemon cfg) of
             Inl e \<Rightarrow> Inl e
           | Inr _ \<Rightarrow>
               if cf_runtimeBuild (nc_core cfg) = [] then Inl (ErrText ''daemon: runtime build is required'')
               else
                 (case Validate (nc_StoreSchema cfg) of
                    Inl e \<Rightarrow> Inl e
                  | Inr _ \<Rightarrow>
                      (case validateBindAuth (bindHostOrDefault (nc_BindAddr cfg)) (nc_HTTPToken cfg) (nc_ExtraHTTPListeners cfg > 0)
                              (nc_TrustedPeer cfg \<noteq> None) of
                         Inl e \<Rightarrow> Inl e
                       | Inr _ \<Rightarrow> Inr (register_all (core_handlers (nc_core cfg) n) new_table)))))"

text \<open>The state in memory that \<open>New\<close> makes, over the store that \<open>activateState\<close> opened.\<close>

definition new_server :: "engine \<Rightarrow> Server" where
  "new_server en = \<lparr>sv_eng = en, sv_bus = NewBus, sv_activity = NewActivity, sv_subscriptions = (\<lambda>_. []), sv_parks = newParkRegistry,
     sv_gateBlocks = (\<lambda>_. 0), sv_httpPort = 0, sv_sse = new_sse, sv_observed = []\<rparr>"

section \<open>The socket\<close>

text \<open>\<open>decode\<close> is the JSON decoder with unknown fields disallowed, \<open>tail\<close> what it finds after the value.\<close>

definition decodeEnvelope :: "(string \<Rightarrow> (Envelope \<times> string) result) \<Rightarrow> (string \<Rightarrow> trailing) \<Rightarrow> string \<Rightarrow> Envelope result" where
  "decodeEnvelope decode tail payload =
     (case decode payload of
        Inl e \<Rightarrow> Inl (ErrWrap ''daemon: decode envelope'' e)
      | Inr (env, rest) \<Rightarrow>
          (case tail rest of
             AtEOF \<Rightarrow> Inr env
           | AnotherValue \<Rightarrow> Inl (ErrText ''daemon: trailing envelope value'')
           | BadTail e \<Rightarrow> Inl (ErrWrap ''daemon: decode trailing envelope'' e)))"

record socket_codec =
  sc_decode :: "string \<Rightarrow> (Envelope \<times> string) result"
  sc_tail :: "string \<Rightarrow> trailing"
  sc_encode :: "Reply \<Rightarrow> string result"

definition product_Handle :: "socket_codec \<Rightarrow> Config \<Rightarrow> handlerTable \<Rightarrow> string \<times> string \<Rightarrow> Server \<Rightarrow> (string result \<times> Server) option" where
  "product_Handle cd cf t req s =
     (case decodeEnvelope (sc_decode cd) (sc_tail cd) (snd req) of
        Inl e \<Rightarrow> Some (Inl e, s)
      | Inr env \<Rightarrow>
          (case dispatchCaller cf t (env\<lparr>env_Op := fst req\<rparr>) s of
             None \<Rightarrow> None
           | Some (reply, s') \<Rightarrow>
               Some (case sc_encode cd reply of
                       Inl e \<Rightarrow> Inl (ErrWrap (''daemon: encode '' @ fst req @ '' reply'') e)
                     | Inr body \<Rightarrow> Inr body, s')))"

fun handle_run :: "socket_codec \<Rightarrow> Config \<Rightarrow> handlerTable \<Rightarrow> (string \<times> string) list \<Rightarrow> Server \<Rightarrow> (string result list \<times> Server) option" where
  "handle_run cd cf t [] s = Some ([], s)"
| "handle_run cd cf t (req # reqs) s =
     (case product_Handle cd cf t req s of
        None \<Rightarrow> None
      | Some (r, s') \<Rightarrow> map_option (\<lambda>(rs, s''). (r # rs, s'')) (handle_run cd cf t reqs s'))"

section \<open>Serving\<close>

text \<open>
  The start function that \<open>Serve\<close> hands to daemonkit: the table is frozen, then the store is
  opened and the product activated; \<open>settle\<close> is the outcome of \<open>settleFailedStart\<close>. The result
  is what daemonkit gets, with the serving fence.
\<close>

definition serve_start :: "engine result \<Rightarrow> (Server, unit) fop \<Rightarrow> go_error option \<Rightarrow> handlerTable \<Rightarrow>
    ((Server result \<times> bool) option \<times> handlerTable)" where
  "serve_start opened activate settle t =
     ((case opened of
         Inl e \<Rightarrow> Some (Inl e, False)
       | Inr en \<Rightarrow>
           (case activate (new_server en) of
              None \<Rightarrow> None
            | Some (Inl e, _) \<Rightarrow> Some (Inl (case settle of None \<Rightarrow> e | Some e' \<Rightarrow> ErrJoin e e'), False)
            | Some (Inr _, s) \<Rightarrow> Some (Inr s, True))), freezeHandlers t)"

definition healthDetail :: "string \<Rightarrow> string" where
  "healthDetail runtimeBuild = json_object [(''runtime_build'', JString runtimeBuild)]"

text \<open>Lifecycle work of the consumer; \<open>None\<close> is a panic.\<close>

definition Background :: "bool \<Rightarrow> workerGroup \<Rightarrow> workerGroup option" where
  "Background served g = (if \<not> served then None else case StartWorker g of (started, g') \<Rightarrow> if started then Some g' else None)"

text \<open>The locks of the repositories: one per scope, made when it is first asked for.\<close>

record repo_locks =
  rl_locks :: "string \<Rightarrow> nat option"
  rl_next :: nat

definition repoLock :: "string \<Rightarrow> repo_locks \<Rightarrow> nat \<times> repo_locks" where
  "repoLock scope r =
     (case rl_locks r scope of
        Some m \<Rightarrow> (m, r)
      | None \<Rightarrow> (rl_next r, r\<lparr>rl_locks := (rl_locks r)(scope \<mapsto> rl_next r), rl_next := rl_next r + 1\<rparr>))"

section \<open>What New has built\<close>

lemma register_all_append:
  "register_all (xs @ ys) t = (case register_all xs t of None \<Rightarrow> None | Some t' \<Rightarrow> register_all ys t')"
proof (induction xs arbitrary: t)
  case (Cons x xs)
  then show ?case by (cases x) (simp split: option.split)
qed simp

text \<open>A configuration that passed the checks.\<close>

definition checked :: "new_config \<Rightarrow> bool" where
  "checked cfg \<longleftrightarrow> nc_ValidateForServe cfg (nc_Daemon cfg) = Inr () \<and> dm_Schemas (nc_Daemon cfg) = [WireBuild] \<and>
     cf_runtimeBuild (nc_core cfg) \<noteq> [] \<and> Validate (nc_StoreSchema cfg) = Inr () \<and>
     (nc_HTTPToken cfg = [] \<and> nc_TrustedPeer cfg = None \<longrightarrow>
        loopbackBind (bindHostOrDefault (nc_BindAddr cfg)) \<and> nc_ExtraHTTPListeners cfg = 0)"

lemma validateSchemas_eq:
  "validateSchemas d = (if dm_Schemas d = [WireBuild] then Inr ()
     else Inl (ErrFormat ''daemon: schemas %v, want exactly [%q] (build the identity through Spec)'' (dm_Schemas d @ [WireBuild])))"
  by (cases "dm_Schemas d") (auto simp: validateSchemas_def)

lemma daemon_New_iff: "(\<exists>t. daemon_New cfg n = Inr t) \<longleftrightarrow> checked cfg"
  unfolding daemon_New_def checked_def validateSchemas_eq validateBindAuth_def by (auto split: sum.split)

lemma daemon_New_table: "daemon_New cfg n = Inr t \<Longrightarrow> t = register_all (core_handlers (nc_core cfg) n) new_table"
  by (auto simp: daemon_New_def split: sum.splits if_splits)

text \<open>A request is answered with a body, or refused because it or its reply has no encoding.\<close>

lemma product_Handle_sound:
  assumes "sound_table t" and "server_inv s" and "quiet s"
  shows "\<exists>r s'. product_Handle cd cf t req s = Some (r, s') \<and> server_inv s' \<and> quiet s' \<and>
    ((\<exists>e. decodeEnvelope (sc_decode cd) (sc_tail cd) (snd req) = Inl e) \<longrightarrow> isl r \<and> s' = s)"
proof (cases "decodeEnvelope (sc_decode cd) (sc_tail cd) (snd req)")
  case (Inr env)
  obtain r s' where "dispatchCaller cf t (env\<lparr>env_Op := fst req\<rparr>) s = Some (r, s')" "server_inv s'" "quiet s'"
    using dispatch_sound [OF assms] by blast
  then show ?thesis using Inr by (simp add: product_Handle_def)
qed (use assms in \<open>simp add: product_Handle_def\<close>)

lemma handle_run_sound:
  assumes "sound_table t"
  shows "server_inv s \<Longrightarrow> quiet s \<Longrightarrow>
    \<exists>rs s'. handle_run cd cf t reqs s = Some (rs, s') \<and> length rs = length reqs \<and> server_inv s'"
proof (induction reqs arbitrary: s)
  case (Cons req reqs)
  obtain r s1 where r: "product_Handle cd cf t req s = Some (r, s1)" "server_inv s1" "quiet s1"
    using product_Handle_sound [OF assms Cons.prems, of cd cf req] by blast
  then show ?case using Cons.IH [OF r(2,3)] by auto
qed simp

text \<open>
  C39: What \<open>New\<close> returns is well formed, and stays so. \<open>New\<close> succeeds exactly for a checked
  configuration: an identity daemonkit accepts that speaks this wire schema and no other, a
  build, tables within the rules, and, without a token and a trust hook, a loopback bind with no
  extra listener. It never panics: its table holds exactly the core ops. Ops of the consumer
  with names of their own can be added, none can be added twice or after \<open>Serve\<close>; then, over any
  sound store, every sequence of requests from the socket is answered, one answer each, whatever
  the bytes are, and the store stays sound.
\<close>

theorem new_daemon_well_formed:
  assumes "disciplined (nc_core cfg)" and "distinct (map fst (core_handlers (nc_core cfg) (Suc (Suc n)) @ own))"
    and "\<forall>(oper, h) \<in> set own. sound_handler h" and "store_inv (en_db en)"
  shows "((\<exists>t. daemon_New cfg (Suc (Suc n)) = Inr t) \<longleftrightarrow> checked cfg) \<and>
    (checked cfg \<longrightarrow> (\<exists>t t'. daemon_New cfg (Suc (Suc n)) = Inr (Some t) \<and> ht_handlers t = map_of (core_handlers (nc_core cfg) (Suc (Suc n))) \<and>
       register_all own t = Some t' \<and> (\<forall>oper h. Register oper h (freezeHandlers t') = None) \<and>
       (\<forall>cd reqs. \<exists>rs s'. handle_run cd (nc_core cfg) (freezeHandlers t') reqs (new_server en) = Some (rs, s') \<and>
          length rs = length reqs \<and> store_inv (en_db (sv_eng s')))))"
proof (intro conjI impI)
  show "(\<exists>t. daemon_New cfg (Suc (Suc n)) = Inr t) \<longleftrightarrow> checked cfg" by (rule daemon_New_iff)
  let ?core = "core_handlers (nc_core cfg) (Suc (Suc n))"
  assume "checked cfg"
  then obtain ot where ot: "daemon_New cfg (Suc (Suc n)) = Inr ot" using daemon_New_iff by blast
  obtain t where t: "register_all ?core new_table = Some t" "ht_handlers t = map_of ?core" using core_table by blast
  obtain t' where t': "register_all (?core @ own) new_table = Some t'"
    using register_all_fresh [of new_table "?core @ own", OF _ assms(2)] new_table_empty by blast
  have "register_all own t = Some t'" using t' t(1) by (simp add: register_all_append)
  moreover have sound: "sound_table (freezeHandlers t')"
    using sound_tableI [OF assms(1) t' assms(2,3)] by (simp add: sound_table_def freezeHandlers_def)
  have "\<exists>rs s'. handle_run cd (nc_core cfg) (freezeHandlers t') reqs (new_server en) = Some (rs, s') \<and>
      length rs = length reqs \<and> store_inv (en_db (sv_eng s'))" for cd reqs
    using handle_run_sound [OF sound, of "new_server en" cd "nc_core cfg" reqs] assms(4)
    by (simp add: server_inv_def quiet_def new_server_def)
  moreover have "Register oper h (freezeHandlers t') = None" for oper h by (simp add: Register_def freezeHandlers_def)
  ultimately show "\<exists>t t'. daemon_New cfg (Suc (Suc n)) = Inr (Some t) \<and> ht_handlers t = map_of ?core \<and>
       register_all own t = Some t' \<and> (\<forall>oper h. Register oper h (freezeHandlers t') = None) \<and>
       (\<forall>cd reqs. \<exists>rs s'. handle_run cd (nc_core cfg) (freezeHandlers t') reqs (new_server en) = Some (rs, s') \<and>
          length rs = length reqs \<and> store_inv (en_db (sv_eng s')))"
    using ot daemon_New_table [OF ot] t by auto
qed

definition sample_new_config :: new_config where
  "sample_new_config = \<lparr>nc_Daemon = Spec \<lparr>dm_Schemas = [], dm_MaxFrame = 0, dm_Concurrency = 0, dm_Restart = RestartNever, dm_Program = None\<rparr>,
     nc_ValidateForServe = \<lambda>_. Inr (), nc_StoreSchema = [], nc_BindAddr = [], nc_HTTPToken = [], nc_ExtraHTTPListeners = 0,
     nc_TrustedPeer = None, nc_core = sample_config\<rparr>"

theorem new_daemon_well_formed_witness:
  "checked sample_new_config \<and> (\<exists>t t' rs s'. daemon_New sample_new_config (Suc (Suc 0)) = Inr (Some t) \<and> register_all sample_own t = Some t' \<and>
     handle_run \<lparr>sc_decode = \<lambda>b. Inr (sample_envelope [], []), sc_tail = \<lambda>_. AtEOF, sc_encode = \<lambda>r. Inr []\<rparr> sample_config (freezeHandlers t')
       [(''ping'', ''{}''), (''agent-start'', ''{}'')] (new_server (sv_eng sample_server)) = Some (rs, s') \<and> length rs = 2)"
proof -
  have "Validate [] = Inr ()" by code_simp
  moreover have "loopbackBind ''127.0.0.1''" by code_simp
  ultimately have ok: "checked sample_new_config"
    by (simp add: checked_def sample_new_config_def Spec_def bindHostOrDefault_def sample_config_def)
  have core: "nc_core sample_new_config = sample_config" by (simp add: sample_new_config_def)
  have "distinct (map fst (core_handlers sample_config (Suc (Suc 0)) @ sample_own))" by (simp add: core_handlers_def sample_own_def)
  moreover have "\<forall>(oper, h) \<in> set sample_own. sound_handler h" by (simp add: sample_own_def sound_handler_def)
  moreover have "store_inv (en_db (sv_eng sample_server))" using sample_server_inv by (simp add: server_inv_def)
  ultimately have "\<exists>t t'. daemon_New sample_new_config (Suc (Suc 0)) = Inr (Some t) \<and> register_all sample_own t = Some t' \<and>
      (\<forall>cd reqs. \<exists>rs s'. handle_run cd sample_config (freezeHandlers t') reqs (new_server (sv_eng sample_server)) = Some (rs, s') \<and>
         length rs = length reqs)"
    using new_daemon_well_formed [of sample_new_config 0 sample_own, unfolded core, OF sample_disciplined] ok by fastforce
  then show ?thesis using ok by (metis length_Cons list.size(3) numeral_2_eq_2)
qed

end
