(* ===== verification/Hooks.thy ===== *)
theory Hooks
  imports Daemon_Handlers Paths Go_Strings
begin

text \<open>
  The commands Claude Code's hooks and the user run (\<open>cmd/cmd.go\<close>, \<open>cmd/hidden.go\<close>, \<open>cmd/agent.go\<close>,
  \<open>cmd/status.go\<close>, \<open>transcript/transcript.go\<close>). A command is a function of the launcher and the
  client it is given (\<open>Deps\<close>, actions over an arbitrary world) and of its decoded input; its
  outcome is what it writes to the two streams and how it exits. The last section runs them
  against the daemon of this development.
\<close>

section \<open>Input and output\<close>

record hookInput =
  hk_SessionID :: string
  hk_Cwd :: string
  hk_AgentID :: string
  hk_AgentType :: string
  hk_TranscriptPath :: string
  hk_AgentTranscriptPath :: string
  hk_LastAssistantMessage :: string
  hk_ToolName :: string
  hk_ToolInput :: string
  hk_ToolResponse :: string
  hk_ToolUseID :: string

definition no_input :: hookInput where
  "no_input = \<lparr>hk_SessionID = [], hk_Cwd = [], hk_AgentID = [], hk_AgentType = [], hk_TranscriptPath = [], hk_AgentTranscriptPath = [],
     hk_LastAssistantMessage = [], hk_ToolName = [], hk_ToolInput = [], hk_ToolResponse = [], hk_ToolUseID = []\<rparr>"

text \<open>\<open>decode\<close> is \<open>json.Unmarshal\<close>, whose error the code ignores: what it left in the struct.\<close>

definition readHookInput :: "(string \<Rightarrow> hookInput) \<Rightarrow> string result \<Rightarrow> hookInput" where
  "readHookInput decode r = (case r of Inl _ \<Rightarrow> no_input | Inr b \<Rightarrow> if b = [] then no_input else decode b)"

datatype cmd_exit = ExitOk | ExitError go_error | ExitCode int

record cmd_out =
  co_stdout :: string
  co_stderr :: string
  co_exit :: cmd_exit

definition silent :: cmd_out where
  "silent = \<lparr>co_stdout = [], co_stderr = [], co_exit = ExitOk\<rparr>"

definition nl_end :: "string \<Rightarrow> string" where
  "nl_end s = s @ [CHR 0x0A]"

record 'w Deps =
  dp_EnsureCurrent :: "('w, unit) op"
  dp_EnsureCurrentIfRunning :: "('w, unit) op"
  dp_NewClient :: "('w, unit) op"
  dp_Do :: "Envelope \<Rightarrow> ('w, Reply) op"
  dp_Close :: "'w \<Rightarrow> 'w"
  dp_Stop :: "('w, unit) op"
  dp_ClaudePID :: int
  dp_Getwd :: string
  dp_errText :: "go_error \<Rightarrow> string"

definition mustCwd :: "'w Deps \<Rightarrow> string \<Rightarrow> string" where
  "mustCwd d cwd = (if cwd \<noteq> [] then cwd else dp_Getwd d)"

text \<open>A nil \<open>json.RawMessage\<close> is encoded as \<open>null\<close>.\<close>

definition raw_json :: "string \<Rightarrow> json" where
  "raw_json r = JRaw (if r = [] then ''null'' else r)"

text \<open>The encoding of an envelope, with its \<open>omitempty\<close> fields.\<close>

definition Envelope_json :: "Envelope \<Rightarrow> string" where
  "Envelope_json env = json_object
     ((if env_Session env = [] then [] else [(''session'', JString (env_Session env))]) @
      (if env_ClaudePID env = 0 then [] else [(''claude_pid'', JInt (env_ClaudePID env))]) @
      (if env_Scope env = [] then [] else [(''scope'', JString (env_Scope env))]) @
      (if env_Consumer env = [] then [] else [(''consumer'', JString (env_Consumer env))]) @
      (if env_Body env = [] then [] else [(''body'', JRaw (env_Body env))]))"

definition hook_env :: "'w Deps \<Rightarrow> string \<Rightarrow> hookInput \<Rightarrow> string \<Rightarrow> Envelope" where
  "hook_env d oper inp body = \<lparr>env_Op = oper, env_Session = hk_SessionID inp, env_ClaudePID = dp_ClaudePID d,
     env_Scope = hk_Cwd inp, env_Consumer = [], env_Body = body\<rparr>"

definition frame_too_large :: "string \<Rightarrow> Envelope \<Rightarrow> string \<Rightarrow> string" where
  "frame_too_large cmd env what = nl_end (cmd @ '': frame-too-large: request frame is '' @ itoa (int (length (Envelope_json env))) @
     '' bytes; allowing '' @ what)"

section \<open>Session and channel\<close>

definition SessionRecordCmd :: "'w Deps \<Rightarrow> hookInput \<Rightarrow> 'w \<Rightarrow> cmd_out \<times> 'w" where
  "SessionRecordCmd d inp w =
     (case dp_EnsureCurrentIfRunning d w of
        (Inl _, w1) \<Rightarrow> (silent, w1)
      | (Inr _, w1) \<Rightarrow>
          (case dp_NewClient d w1 of
             (Inl _, w2) \<Rightarrow> (silent, w2)
           | (Inr _, w2) \<Rightarrow> (case dp_Do d (hook_env d ''session-record'' inp []) w2 of (_, w3) \<Rightarrow> (silent, dp_Close d w3))))"

definition ChannelAckCmd :: "'w Deps \<Rightarrow> string \<Rightarrow> string \<Rightarrow> 'w \<Rightarrow> cmd_out \<times> 'w" where
  "ChannelAckCmd d session cwd w =
     (case dp_EnsureCurrent d w of
        (Inl e, w1) \<Rightarrow> (silent\<lparr>co_exit := ExitError e\<rparr>, w1)
      | (Inr _, w1) \<Rightarrow>
          (case dp_NewClient d w1 of
             (Inl e, w2) \<Rightarrow> (silent\<lparr>co_exit := ExitError e\<rparr>, w2)
           | (Inr _, w2) \<Rightarrow>
               (case dp_Do d \<lparr>env_Op = ''channel-ack'', env_Session = session, env_ClaudePID = dp_ClaudePID d, env_Scope = mustCwd d cwd,
                    env_Consumer = [], env_Body = []\<rparr> w2 of
                  (Inl e, w3) \<Rightarrow> (silent\<lparr>co_exit := ExitError e\<rparr>, dp_Close d w3)
                | (Inr reply, w3) \<Rightarrow>
                    (if \<not> rp_OK reply
                     then silent\<lparr>co_exit := ExitError (case rp_Error reply of None \<Rightarrow> ErrText [] | Some e \<Rightarrow> e)\<rparr>
                     else silent, dp_Close d w3))))"

section \<open>The edit guard\<close>

definition guardEditBody :: "hookInput \<Rightarrow> string" where
  "guardEditBody inp = json_object [(''tool_name'', JString (hk_ToolName inp)), (''tool_input'', raw_json (hk_ToolInput inp))]"

text \<open>\<open>os.Exit\<close> runs no deferred call: the client is not closed on a refusal.\<close>

definition GuardEditCmd :: "'w Deps \<Rightarrow> hookInput \<Rightarrow> 'w \<Rightarrow> cmd_out \<times> 'w" where
  "GuardEditCmd d inp w =
     (let env = hook_env d ''guard-edit'' inp (guardEditBody inp)
      in case dp_NewClient d w of
           (Inl _, w1) \<Rightarrow> (silent, w1)
         | (Inr _, w1) \<Rightarrow>
             (case dp_Do d env w1 of
                (Inl e, w2) \<Rightarrow>
                  (if err_is e ErrOversize then silent\<lparr>co_stderr := frame_too_large ''guard-edit'' env ''edit''\<rparr> else silent, dp_Close d w2)
              | (Inr reply, w2) \<Rightarrow>
                  if rp_OK reply \<and> \<not> rp_Allow reply
                  then (silent\<lparr>co_stderr := nl_end (rp_Reason reply), co_exit := ExitCode 2\<rparr>, w2)
                  else (silent, dp_Close d w2)))"

section \<open>Agents\<close>

definition SubagentsDir :: "string \<Rightarrow> string" where
  "SubagentsDir sessionTranscript = Join [trim_suffix sessionTranscript ''.jsonl'', ''subagents'']"

definition agentStartBody_json :: "hookInput \<Rightarrow> string" where
  "agentStartBody_json inp = json_object [(''agent_id'', JString (hk_AgentID inp)), (''agent_type'', JString (hk_AgentType inp)),
     (''session_id'', JString (hk_SessionID inp)),
     (''transcript_path'', JString (if hk_TranscriptPath inp \<noteq> [] \<and> hk_AgentID inp \<noteq> []
        then Join [SubagentsDir (hk_TranscriptPath inp), ''agent-'' @ hk_AgentID inp @ ''.jsonl''] else []))]"

definition AgentStartCmd :: "'w Deps \<Rightarrow> hookInput \<Rightarrow> 'w \<Rightarrow> cmd_out \<times> 'w" where
  "AgentStartCmd d inp w =
     (if hk_SessionID inp = [] \<or> hk_AgentID inp = [] then (silent, w)
      else case dp_EnsureCurrentIfRunning d w of
             (Inl _, w1) \<Rightarrow> (silent, w1)
           | (Inr _, w1) \<Rightarrow>
               (case dp_NewClient d w1 of
                  (Inl _, w2) \<Rightarrow> (silent, w2)
                | (Inr _, w2) \<Rightarrow>
                    (case dp_Do d (hook_env d ''agent-start'' inp (agentStartBody_json inp)) w2 of (_, w3) \<Rightarrow> (silent, dp_Close d w3))))"

text \<open>The text an agent reads: a heading, one line per directive, a closing line.\<close>

definition directive_line :: "Directive \<Rightarrow> string" where
  "directive_line dv = [CHR 0x0A] @ ''- ['' @ d_Origin dv @ '' #'' @ itoa (d_ID dv) @ ''] '' @ d_Text dv"

definition inject_text :: "string \<Rightarrow> Directive list \<Rightarrow> string" where
  "inject_text root ds = ''Directives from the '' @ root @ '' steering channel (operator-authorized):'' @ concat (map directive_line ds) @
     [CHR 0x0A] @ ''Act on each directive once, then continue your task.''"

definition hookSpecificOutput :: "string \<Rightarrow> string" where
  "hookSpecificOutput context = nl_end (''{'' @ json_string ''hookSpecificOutput'' @ '':'' @
     json_object [(''hookEventName'', JString ''PreToolUse''), (''additionalContext'', JString context)] @ ''}'')"

definition AgentInjectCmd :: "'w Deps \<Rightarrow> string \<Rightarrow> hookInput \<Rightarrow> 'w \<Rightarrow> cmd_out \<times> 'w" where
  "AgentInjectCmd d root inp w =
     (case dp_NewClient d w of
        (Inl _, w1) \<Rightarrow> (silent, w1)
      | (Inr _, w1) \<Rightarrow>
          (case dp_Do d (hook_env d ''agent-inject'' inp (json_object [(''agent_id'', JString (hk_AgentID inp))])) w1 of
             (Inl _, w2) \<Rightarrow> (silent, dp_Close d w2)
           | (Inr reply, w2) \<Rightarrow>
               ((case rp_Body reply of
                   DirectivesReply ds \<Rightarrow>
                     if rp_OK reply \<and> ds \<noteq> [] then silent\<lparr>co_stdout := hookSpecificOutput (inject_text root ds)\<rparr> else silent
                 | _ \<Rightarrow> silent), dp_Close d w2)))"

definition agentStopBody_json :: "hookInput \<Rightarrow> string" where
  "agentStopBody_json inp = json_object [(''agent_id'', JString (hk_AgentID inp)),
     (''last_assistant_message'', JString (hk_LastAssistantMessage inp)), (''agent_transcript_path'', JString (hk_AgentTranscriptPath inp))]"

definition stopDecision :: "string \<Rightarrow> string" where
  "stopDecision reason = nl_end (json_object [(''decision'', JString ''block''), (''reason'', JString reason)])"

definition AgentStopCmd :: "'w Deps \<Rightarrow> hookInput \<Rightarrow> 'w \<Rightarrow> cmd_out \<times> 'w" where
  "AgentStopCmd d inp w =
     (if hk_AgentID inp = [] then (silent, w)
      else
        let env = hook_env d ''agent-stop'' inp (agentStopBody_json inp)
        in case dp_NewClient d w of
             (Inl _, w1) \<Rightarrow> (silent, w1)
           | (Inr _, w1) \<Rightarrow>
               (case dp_Do d env w1 of
                  (Inl e, w2) \<Rightarrow>
                    (if err_is e ErrOversize then silent\<lparr>co_stderr := frame_too_large ''agent-stop'' env ''stop''\<rparr>
                     else if err_is e ErrMalformedReply
                     then silent\<lparr>co_stderr := nl_end (''agent-stop: malformed daemon reply: '' @ dp_errText d e @ ''; allowing stop'')\<rparr>
                     else silent, dp_Close d w2)
                | (Inr reply, w2) \<Rightarrow>
                    (if rp_OK reply \<and> \<not> rp_Allow reply then silent\<lparr>co_stdout := stopDecision (rp_Reason reply)\<rparr> else silent, dp_Close d w2)))"

definition agentReportBody_json :: "hookInput \<Rightarrow> string" where
  "agentReportBody_json inp = json_object [(''session'', JString (hk_SessionID inp)), (''scope'', JString (hk_Cwd inp)),
     (''tool_name'', JString (hk_ToolName inp)), (''tool_use_id'', JString (hk_ToolUseID inp)),
     (''tool_input'', raw_json (hk_ToolInput inp)), (''tool_response'', raw_json (hk_ToolResponse inp))]"

definition AgentReportCmd :: "'w Deps \<Rightarrow> hookInput \<Rightarrow> 'w \<Rightarrow> cmd_out \<times> 'w" where
  "AgentReportCmd d inp w =
     (case dp_NewClient d w of
        (Inl _, w1) \<Rightarrow> (silent, w1)
      | (Inr _, w1) \<Rightarrow>
          (case dp_Do d (hook_env d ''agent-report'' inp (agentReportBody_json inp)) w1 of (_, w2) \<Rightarrow> (silent, dp_Close d w2)))"

section \<open>Status and stop\<close>

text \<open>A body without consumers decodes to an empty map.\<close>

definition watchers :: "(string \<times> int) list \<Rightarrow> int" where
  "watchers consumers = sum_list (map snd (filter (\<lambda>(c, n). c = ''watch'' \<or> has_prefix c ''watch-'') consumers))"

definition status_text :: "Reply \<Rightarrow> string" where
  "status_text reply =
     nl_end (''daemon: running ('' @ rp_DaemonVersion reply @ '')'') @
     nl_end (''http:   127.0.0.1:'' @ itoa (rp_HTTPPort reply)) @
     (if rp_SubjectID reply \<noteq> [] then nl_end (''subject: '' @ rp_SubjectID reply @ '' ('' @ rp_Status reply @ '')'')
      else nl_end ''subject: none for this session/scope'') @
     (case rp_Body reply of
        NoBody \<Rightarrow> []
      | StatusReply b \<Rightarrow> nl_end (''watchers: '' @ itoa (watchers (sb_Consumers b)))
      | _ \<Rightarrow> nl_end (''watchers: '' @ itoa 0))"

definition StatusCmd :: "'w Deps \<Rightarrow> string \<Rightarrow> string \<Rightarrow> 'w \<Rightarrow> cmd_out \<times> 'w" where
  "StatusCmd d session cwd w =
     (case dp_EnsureCurrentIfRunning d w of
        (Inl e, w1) \<Rightarrow>
          (if err_is e ErrAbsent then silent\<lparr>co_stdout := nl_end ''daemon: not running''\<rparr> else silent\<lparr>co_exit := ExitError e\<rparr>, w1)
      | (Inr _, w1) \<Rightarrow>
          (case dp_NewClient d w1 of
             (Inl e, w2) \<Rightarrow> (silent\<lparr>co_exit := ExitError e\<rparr>, w2)
           | (Inr _, w2) \<Rightarrow>
               (case dp_Do d \<lparr>env_Op = ''status'', env_Session = session, env_ClaudePID = dp_ClaudePID d, env_Scope = mustCwd d cwd,
                    env_Consumer = [], env_Body = []\<rparr> w2 of
                  (Inl e, w3) \<Rightarrow> (silent\<lparr>co_exit := ExitError e\<rparr>, dp_Close d w3)
                | (Inr reply, w3) \<Rightarrow> (silent\<lparr>co_stdout := status_text reply\<rparr>, dp_Close d w3))))"

definition StopCmd :: "'w Deps \<Rightarrow> 'w \<Rightarrow> cmd_out \<times> 'w" where
  "StopCmd d w =
     (case dp_Stop d w of
        (Inl e, w1) \<Rightarrow> (silent\<lparr>co_exit := ExitError e\<rparr>, w1)
      | (Inr _, w1) \<Rightarrow> (silent\<lparr>co_stdout := nl_end ''daemon: stopped''\<rparr>, w1))"

section \<open>Hooks against the daemon\<close>

text \<open>
  The commands wired to the daemon of this development: the world is the server, or nothing
  while no daemon runs; a call carries an envelope whose encoding fits the frame limit. A
  handler that never returns shows at the client as its deadline.
\<close>

definition daemon_Do :: "nat \<Rightarrow> Config \<Rightarrow> handlerTable \<Rightarrow> Envelope \<Rightarrow> (Server option, Reply) op" where
  "daemon_Do limit cf t env w =
     (case w of
        None \<Rightarrow> (Inl ErrAbsent, None)
      | Some s \<Rightarrow>
          if limit < length (Envelope_json env) then (Inl (ErrWrap ''call'' ErrOversize), Some s)
          else case dispatchCaller cf t env s of
                 None \<Rightarrow> (Inl ErrCanceled, Some s)
               | Some (reply, s') \<Rightarrow> (Inr reply, Some s'))"

definition wired :: "nat \<Rightarrow> Config \<Rightarrow> handlerTable \<Rightarrow> (Server option) Deps \<Rightarrow> bool" where
  "wired limit cf t d \<longleftrightarrow> dp_Do d = daemon_Do limit cf t \<and> dp_NewClient d = (\<lambda>w. (if w = None then Inl ErrAbsent else Inr (), w)) \<and>
     dp_Close d = id"

section \<open>Hooks never get in the way\<close>

text \<open>The hooks that Claude Code runs on its own.\<close>

definition hooks :: "'w Deps \<Rightarrow> string \<Rightarrow> hookInput \<Rightarrow> ('w \<Rightarrow> cmd_out \<times> 'w) list" where
  "hooks d root inp = [SessionRecordCmd d inp, GuardEditCmd d inp, AgentStartCmd d inp, AgentInjectCmd d root inp, AgentStopCmd d inp,
     AgentReportCmd d inp]"

lemmas hook_cmds = SessionRecordCmd_def GuardEditCmd_def AgentStartCmd_def AgentInjectCmd_def AgentStopCmd_def AgentReportCmd_def

lemma silent_sel [simp]: "co_exit silent = ExitOk" "co_stdout silent = []" "co_stderr silent = []"
  by (simp_all add: silent_def)

lemma hook_exit:
  assumes "cmd \<in> set (hooks d root inp)"
  shows "co_exit (fst (cmd w)) = ExitOk \<or>
    (\<exists>w1 reply w2. cmd = GuardEditCmd d inp \<and> dp_Do d (hook_env d ''guard-edit'' inp (guardEditBody inp)) w1 = (Inr reply, w2) \<and>
      rp_OK reply \<and> \<not> rp_Allow reply \<and> co_exit (fst (cmd w)) = ExitCode 2)"
proof -
  consider "cmd = GuardEditCmd d inp" | "cmd \<in> {SessionRecordCmd d inp, AgentStartCmd d inp, AgentInjectCmd d root inp, AgentStopCmd d inp,
     AgentReportCmd d inp}" using assms by (auto simp: hooks_def)
  then show ?thesis
  proof cases
    case 1
    show ?thesis unfolding 1 GuardEditCmd_def Let_def by (auto split: prod.split sum.split)
  next
    case 2
    have "co_exit (fst (cmd w)) = ExitOk"
      using 2 by (auto simp: hook_cmds Let_def split: prod.split sum.split reply_body.split)
    then show ?thesis by simp
  qed
qed

lemma hook_frame: "map (\<lambda>cmd. cmd w) (hooks (d\<lparr>dp_EnsureCurrent := f\<rparr>) root inp) = map (\<lambda>cmd. cmd w) (hooks d root inp)"
  by (simp add: hooks_def hook_cmds hook_env_def Let_def cong: prod.case_cong sum.case_cong if_cong)

text \<open>The context the daemon builds for the call of a hook.\<close>

definition guard_ctx :: "Config \<Rightarrow> 'w Deps \<Rightarrow> hookInput \<Rightarrow> HandlerCtx" where
  "guard_ctx cf d inp = \<lparr>hc_Env = hook_env d ''guard-edit'' inp (guardEditBody inp),
     hc_Window = \<lparr>w_Session = hk_SessionID inp, w_ClaudePID = dp_ClaudePID d\<rparr>, hc_Scope = cf_scopeResolve cf (hk_Cwd inp)\<rparr>"

text \<open>The verdict on an edit, by the store the server has.\<close>

definition edit_verdict :: "Config \<Rightarrow> 'w Deps \<Rightarrow> hookInput \<Rightarrow> Server \<Rightarrow> bool \<times> string" where
  "edit_verdict cf d inp s = (let hc = guard_ctx cf d inp
     in guard_verdict cf hc (fst (Find (subjects_of cf) (hc_Window hc) (guard_scope cf hc) (sv_eng s))))"

text \<open>
  C33: The edit guard from the hook to the store. Wired to a daemon whose table holds the core
  handlers, the guard-edit command blocks an edit (it exits 2 and prints the reason) exactly
  when the daemon runs, the request fits a frame and the lookup of the edited scope's subject
  fails or the gate refuses; otherwise it exits 0 with nothing on standard output. Without a
  daemon it prints nothing at all, an oversized request is reported on standard error and lets
  the edit through, and the database is never changed.
\<close>

theorem guard_edit_end_to_end:
  assumes "wired limit cf t d" and "ht_handlers t ''guard-edit'' = Some (\<lambda>hc. handler_of (handleGuardEdit cf hc))"
  shows "GuardEditCmd d inp None = (silent, None) \<and>
    (\<exists>out s'. GuardEditCmd d inp (Some s) = (out, Some s') \<and> en_db (sv_eng s') = en_db (sv_eng s) \<and> co_stdout out = [] \<and>
       (let env = hook_env d ''guard-edit'' inp (guardEditBody inp)
        in if limit < length (Envelope_json env)
           then co_exit out = ExitOk \<and> co_stderr out = frame_too_large ''guard-edit'' env ''edit'' \<and> s' = s
           else if fst (edit_verdict cf d inp s) then co_exit out = ExitOk \<and> co_stderr out = []
           else co_exit out = ExitCode 2 \<and> co_stderr out = nl_end (snd (edit_verdict cf d inp s))))"
proof -
  let ?hc = "guard_ctx cf d inp" and ?env = "hook_env d ''guard-edit'' inp (guardEditBody inp)"
  obtain r en' where r: "Find (subjects_of cf) (hc_Window ?hc) (guard_scope cf ?hc) (sv_eng s) = (r, en')" by fastforce
  have "ht_handlers t (env_Op ?env) = Some (\<lambda>hc. handler_of (handleGuardEdit cf hc))" using assms(2) by (simp add: hook_env_def)
  then have "dispatchCaller cf t ?env s = handler_of (handleGuardEdit cf ?hc) s"
    by (simp add: dispatchCaller_def guard_ctx_def) (simp add: hook_env_def)
  moreover have "edit_verdict cf d inp s = guard_verdict cf ?hc r" by (simp add: edit_verdict_def r Let_def)
  ultimately obtain obs where "dispatchCaller cf t ?env s =
      Some (okReply\<lparr>rp_Allow := fst (edit_verdict cf d inp s), rp_Reason := snd (edit_verdict cf d inp s)\<rparr>, s\<lparr>sv_eng := en', sv_observed := obs\<rparr>)"
    and "en_db en' = en_db (sv_eng s)"
    using guard_edit_run [OF r] by auto
  then show ?thesis
    using assms(1) by (auto simp: GuardEditCmd_def Let_def wired_def daemon_Do_def okReply_def silent_def)
qed

definition sample_hook_deps :: "Config \<Rightarrow> handlerTable \<Rightarrow> (Server option) Deps" where
  "sample_hook_deps cf t = \<lparr>dp_EnsureCurrent = \<lambda>w. (Inl ErrAbsent, w), dp_EnsureCurrentIfRunning = \<lambda>w. (Inl ErrAbsent, w),
     dp_NewClient = \<lambda>w. (if w = None then Inl ErrAbsent else Inr (), w), dp_Do = daemon_Do 4096 cf t, dp_Close = id,
     dp_Stop = \<lambda>w. (Inl ErrAbsent, w), dp_ClaudePID = 7, dp_Getwd = [], dp_errText = \<lambda>_. []\<rparr>"

definition sample_hook_input :: hookInput where
  "sample_hook_input = no_input\<lparr>hk_SessionID := ''sess'', hk_Cwd := ''repo'', hk_ToolName := ''Edit''\<rparr>"

theorem guard_edit_end_to_end_witness:
  "\<exists>out s'. GuardEditCmd (sample_hook_deps (sample_config\<lparr>cf_gate := Some (\<lambda>_ _. (False, ''review open''))\<rparr>)
       (new_table\<lparr>ht_handlers := \<lambda>_. Some (\<lambda>hc. handler_of (handleGuardEdit (sample_config\<lparr>cf_gate := Some (\<lambda>_ _. (False, ''review open''))\<rparr>) hc))\<rparr>))
     sample_hook_input (Some sample_server) = (out, Some s') \<and> co_exit out = ExitCode 2 \<and> co_stderr out = nl_end ''review open''"
proof -
  let ?cf = "sample_config\<lparr>cf_gate := Some (\<lambda>_ _. (False, ''review open''))\<rparr>"
  let ?t = "new_table\<lparr>ht_handlers := \<lambda>_. Some (\<lambda>hc. handler_of (handleGuardEdit ?cf hc))\<rparr>"
  let ?d = "sample_hook_deps ?cf ?t"
  have w: "wired 4096 ?cf ?t ?d" by (simp add: wired_def sample_hook_deps_def)
  have fits: "\<not> 4096 < length (Envelope_json (hook_env ?d ''guard-edit'' sample_hook_input (guardEditBody sample_hook_input)))"
    by (simp add: sample_hook_deps_def hook_env_def) code_simp
  have scope: "guard_scope ?cf (guard_ctx ?cf ?d sample_hook_input) = ''repo''"
    by (simp add: guard_scope_def guard_ctx_def EditDir_def ToolFilePath_def sample_config_def sample_hook_input_def no_input_def)
  have "fst (Find (subjects_of ?cf) \<lparr>w_Session = ''sess'', w_ClaudePID = 7\<rparr> ''repo'' (sv_eng sample_server)) =
      Inr (Some (scanSubject (sample_subject ''s1'' ''sess'' 7 5)))" by code_simp
  then have "edit_verdict ?cf ?d sample_hook_input sample_server = (False, ''review open'')"
    by (simp add: edit_verdict_def scope) (simp add: guard_ctx_def guard_verdict_def sample_hook_input_def no_input_def sample_hook_deps_def)
  then show ?thesis using guard_edit_end_to_end [OF w, of sample_hook_input sample_server] fits by (auto simp: Let_def)
qed

end
