(* ===== verification/Streams.thy ===== *)
theory Streams
  imports Hooks Cursor_Seed Channel_Server
begin

text \<open>
  The two long-lived consumers of the event stream: \<open>watch\<close>, which prints events as lines
  (\<open>cmd/watch.go\<close>), and the channel, which pushes them as notifications (\<open>channel/stream.go\<close>,
  \<open>cmd/channel.go\<close>), with the polls by which they find their subject (\<open>cmd/stream.go\<close>). Both are
  handlers of the stream consumer of \<open>Consume\<close>; the theorems say what reaches the terminal and
  the pipe, however often the stream breaks and a write fails.
\<close>

section \<open>Finding the subject\<close>

definition resolve_env :: "string \<Rightarrow> string \<Rightarrow> int \<Rightarrow> string \<Rightarrow> Envelope" where
  "resolve_env session scope pid consumer = \<lparr>env_Op = ''resolve'', env_Session = session, env_ClaudePID = pid, env_Scope = scope,
     env_Consumer = consumer, env_Body = []\<rparr>"

text \<open>
  The waits are inputs: whether the context is cancelled during each. \<open>None\<close>: the waits given
  have not ended the poll.
\<close>

fun resolveSubject :: "(Envelope \<Rightarrow> ('w, Reply) op) \<Rightarrow> Envelope \<Rightarrow> bool list \<Rightarrow> 'w \<Rightarrow> (string \<times> int) result option \<times> 'w" where
  "resolveSubject call env waits w =
     (case call env w of
        (Inl e, w1) \<Rightarrow> (Some (Inl e), w1)
      | (Inr rep, w1) \<Rightarrow>
          if rp_SubjectID rep \<noteq> [] then (Some (Inr (rp_SubjectID rep, rp_HTTPPort rep)), w1)
          else (case waits of
                  [] \<Rightarrow> (None, w1)
                | cancelled # rest \<Rightarrow> if cancelled then (Some (Inl ErrCanceled), w1) else resolveSubject call env rest w1))"

declare resolveSubject.simps [simp del]

definition nextResolveDelay :: "int \<Rightarrow> int" where
  "nextResolveDelay delay = min (2 * delay) ResolvePollCeiling"

record poll_wait =
  pw_ctxBefore :: bool
  pw_ctxWaiting :: bool

text \<open>One attempt, on a session of its own: the subject, if there is one to be had.\<close>

definition poll_subject :: "('w, unit) op \<Rightarrow> (Envelope \<Rightarrow> ('w, Reply) op) \<Rightarrow> ('w \<Rightarrow> 'w) \<Rightarrow> Envelope \<Rightarrow> 'w \<Rightarrow> (string \<times> int) option \<times> 'w" where
  "poll_subject connect call close env w =
     (case connect w of
        (Inl _, w1) \<Rightarrow> (None, w1)
      | (Inr _, w1) \<Rightarrow>
          (case call env w1 of
             (Inl _, w2) \<Rightarrow> (None, close w2)
           | (Inr rep, w2) \<Rightarrow>
               (if rp_SubjectID rep \<noteq> [] then Some (rp_SubjectID rep, rp_HTTPPort rep) else None, close w2)))"

text \<open>The result (the empty subject once the context is cancelled), the delays slept and the world.\<close>

fun wait_loop :: "('w \<Rightarrow> (string \<times> int) option \<times> 'w) \<Rightarrow> poll_wait list \<Rightarrow> int \<Rightarrow> 'w \<Rightarrow> (string \<times> int) option \<times> int list \<times> 'w" where
  "wait_loop poll [] delay w = (None, [], w)"
| "wait_loop poll (p # ps) delay w =
     (if pw_ctxBefore p then (Some ([], 0), [], w)
      else case poll w of
             (Some found, w1) \<Rightarrow> (Some found, [], w1)
           | (None, w1) \<Rightarrow>
               if pw_ctxWaiting p then (Some ([], 0), [], w1)
               else case wait_loop poll ps (nextResolveDelay delay) w1 of (res, ds, w2) \<Rightarrow> (res, delay # ds, w2))"

definition waitForSubject :: "('w, unit) op \<Rightarrow> (Envelope \<Rightarrow> ('w, Reply) op) \<Rightarrow> ('w \<Rightarrow> 'w) \<Rightarrow> Envelope \<Rightarrow> poll_wait list \<Rightarrow> 'w
    \<Rightarrow> (string \<times> int) option \<times> int list \<times> 'w" where
  "waitForSubject connect call close env ps w = wait_loop (poll_subject connect call close env) ps second w"

text \<open>
  The identity of the first client is kept and reopened, which cannot fail: the flag is whether
  there is one.
\<close>

definition reuseIdentity :: "('w, unit) op \<Rightarrow> ('w \<times> bool, unit) op" where
  "reuseIdentity connect = (\<lambda>(w, known).
     if known then (Inr (), (w, True))
     else case connect w of (Inl e, w1) \<Rightarrow> (Inl e, (w1, False)) | (Inr _, w1) \<Rightarrow> (Inr (), (w1, True)))"

text \<open>A client operation does not touch the identity.\<close>

definition beside :: "('w, 'a) op \<Rightarrow> ('w \<times> bool, 'a) op" where
  "beside f = (\<lambda>(w, known). case f w of (r, w1) \<Rightarrow> (r, (w1, known)))"

definition refreshHandshake :: "('w, unit) op \<Rightarrow> (Envelope \<Rightarrow> ('w, Reply) op) \<Rightarrow> ('w \<Rightarrow> 'w) \<Rightarrow> Envelope \<Rightarrow> ('w, int) op" where
  "refreshHandshake connect call close env w =
     (case connect w of
        (Inl e, w1) \<Rightarrow> (Inl e, w1)
      | (Inr _, w1) \<Rightarrow>
          (case call env w1 of
             (Inl e, w2) \<Rightarrow> (Inl e, close w2)
           | (Inr rep, w2) \<Rightarrow> (Inr (rp_HTTPPort rep), close w2)))"

section \<open>The handlers\<close>

text \<open>
  A write of a line either succeeds or fails after some bytes; \<open>typ\<close> is the \<open>type\<close> field of a
  payload, as \<open>json.Unmarshal\<close> reads it.
\<close>

definition watch_handler :: "bool \<Rightarrow> (string \<Rightarrow> bool) \<Rightarrow> (string \<Rightarrow> string) \<Rightarrow> (nat \<Rightarrow> nat option) \<Rightarrow> nat \<Rightarrow> string \<Rightarrow> handled" where
  "watch_handler once terminal typ faults i data =
     (case faults i of
        Some n \<Rightarrow> Failed
      | None \<Rightarrow> if once then StopNow else if terminal (typ data) then StopNow else Acked)"

text \<open>What the calls of the handler wrote.\<close>

definition watch_stdout :: "(nat \<Rightarrow> nat option) \<Rightarrow> ((int \<times> string) \<times> handled) list \<Rightarrow> string" where
  "watch_stdout faults calls =
     concat (map (\<lambda>i. let line = nl_end (snd (fst (calls ! i))) in case faults i of None \<Rightarrow> line | Some n \<Rightarrow> take n line) [0..<length calls])"

definition stream_handler :: "(string \<Rightarrow> string) \<Rightarrow> (nat \<Rightarrow> string \<Rightarrow> string \<Rightarrow> bool) \<Rightarrow> nat \<Rightarrow> string \<Rightarrow> handled" where
  "stream_handler typ notify i data =
     (if typ data = TypeWindowMoved then StopNow else if notify i (typ data) data then Acked else Failed)"

text \<open>The channel's notification of an event: whether it is pushed at all, and whether the push succeeds.\<close>

definition channel_notify :: "(string \<Rightarrow> bool) option \<Rightarrow> (nat \<Rightarrow> bool) \<Rightarrow> nat \<Rightarrow> string \<Rightarrow> string \<Rightarrow> bool" where
  "channel_notify channelEvent pushes i typ data =
     (case channelEvent of Some admits \<Rightarrow> if \<not> admits typ then True else pushes i | None \<Rightarrow> pushes i)"

definition channel_params :: "string \<Rightarrow> string \<Rightarrow> string \<Rightarrow> string" where
  "channel_params subjectID typ data = json_map [(''content'', json_string data),
     (''meta'', json_map [(''subject_id'', json_string subjectID), (''type'', json_string typ)])]"

definition channel_push :: "out_faults \<Rightarrow> string \<Rightarrow> string \<Rightarrow> string \<Rightarrow> string \<Rightarrow> rpc_out \<Rightarrow> unit result \<times> rpc_out" where
  "channel_push flt notifyMethod subjectID typ data = Notify flt notifyMethod (Inr (channel_params subjectID typ data))"

text \<open>Whether the stream ended because the window moved.\<close>

definition moved :: "(string \<Rightarrow> string) \<Rightarrow> ((int \<times> string) \<times> handled) list \<Rightarrow> bool" where
  "moved typ calls = list_ex (\<lambda>((i, data), h). typ data = TypeWindowMoved) calls"

definition StreamEvents :: "(string \<Rightarrow> string) \<Rightarrow> outcome \<Rightarrow> outcome \<Rightarrow> bool \<Rightarrow> string \<Rightarrow> attempt list \<Rightarrow> int \<Rightarrow> reader
    \<Rightarrow> unit result option \<times> reader" where
  "StreamEvents typ mkdir flt watched path as port r =
     (case ConsumeEvents mkdir flt watched path as port r of
        (res, r') \<Rightarrow> (if moved typ (drop (length (rd_calls r)) (rd_calls r')) then map_option (\<lambda>_. Inl ErrWindowMoved) res else res, r'))"

section \<open>The commands\<close>

text \<open>
  The inputs of a watch: the directory of its cursors, its process id, whether the window can be
  watched, the waits for the subject, the file system while the cursor is seeded and read, the
  connections with the answers of \<open>refreshHandshake\<close>, and the faults of the terminal and of the
  cursor file.
\<close>

record watch_env =
  we_stateDir :: string
  we_pid :: int
  we_alive :: bool
  we_waits :: "bool list"
  we_seed :: seed_env
  we_mkdir :: outcome
  we_readCursor :: outcome
  we_attempts :: "attempt list"
  we_typ :: "string \<Rightarrow> string"
  we_terminal :: "string \<Rightarrow> bool"
  we_faults :: "nat \<Rightarrow> nat option"
  we_writes :: "outcome list"

definition new_reader :: "files \<Rightarrow> (nat \<Rightarrow> string \<Rightarrow> handled) \<Rightarrow> outcome list \<Rightarrow> reader" where
  "new_reader fs h writes = \<lparr>rd_cursor = 0, rd_id = 0, rd_data = [], rd_event = [], rd_acked = [], rd_files = fs, rd_warned = 0,
     rd_handler = h, rd_calls = [], rd_writes = writes\<rparr>"

definition watchConsumer :: string where
  "watchConsumer = ''watch''"

definition WatchCmd :: "'w Deps \<Rightarrow> watch_env \<Rightarrow> string \<Rightarrow> string \<Rightarrow> bool \<Rightarrow> files \<Rightarrow> 'w
    \<Rightarrow> (unit result option \<times> reader option) \<times> 'w" where
  "WatchCmd d we session cwd once fs w =
     (case dp_EnsureCurrent d w of
        (Inl e, w1) \<Rightarrow> ((Some (Inl e), None), w1)
      | (Inr _, w1) \<Rightarrow>
          (case dp_NewClient d w1 of
             (Inl e, w2) \<Rightarrow> ((Some (Inl e), None), w2)
           | (Inr _, w2) \<Rightarrow>
               let consumer = watchConsumer @ ''-'' @ itoa (we_pid we);
                   env = resolve_env session (mustCwd d cwd) (dp_ClaudePID d) consumer
               in case resolveSubject (dp_Do d) env (we_waits we) w2 of
                    (None, w3) \<Rightarrow> ((None, None), w3)
                  | (Some (Inl e), w3) \<Rightarrow> ((Some (Inl e), None), dp_Close d w3)
                  | (Some (Inr (subjectID, port)), w3) \<Rightarrow>
                      (case seedCursor (we_seed we) (we_stateDir we) subjectID watchConsumer consumer fs of
                         (Inl e, _) \<Rightarrow> ((Some (Inl e), None), dp_Close d w3)
                       | (Inr _, fs1) \<Rightarrow>
                           (case ConsumeEvents (we_mkdir we) (we_readCursor we) (dp_ClaudePID d \<noteq> 0 \<and> we_alive we)
                                   (Cursor (we_stateDir we) subjectID consumer) (we_attempts we) port
                                   (new_reader fs1 (watch_handler once (we_terminal we) (we_typ we) (we_faults we)) (we_writes we)) of
                              (None, r) \<Rightarrow> ((None, Some r), w3)
                            | (Some res, r) \<Rightarrow> ((Some res, Some r), dp_Close d w3)))))"

text \<open>One round of the channel: the polls for the subject and the stream of its events.\<close>

record channel_round =
  cr_waits :: "poll_wait list"
  cr_mkdir :: outcome
  cr_readCursor :: outcome
  cr_attempts :: "attempt list"
  cr_pushes :: "nat \<Rightarrow> bool"
  cr_writes :: "outcome list"

record channel_env =
  ce_stateDir :: string
  ce_alive :: bool
  ce_typ :: "string \<Rightarrow> string"
  ce_channelEvent :: "(string \<Rightarrow> bool) option"

definition channel_stream :: "channel_env \<Rightarrow> bool \<Rightarrow> channel_round \<Rightarrow> string \<Rightarrow> int \<Rightarrow> files \<Rightarrow> unit result option \<times> reader" where
  "channel_stream ce watched c subjectID port fs =
     StreamEvents (ce_typ ce) (cr_mkdir c) (cr_readCursor c) watched (Cursor (ce_stateDir ce) subjectID ChannelConsumer) (cr_attempts c) port
       (new_reader fs (stream_handler (ce_typ ce) (channel_notify (ce_channelEvent ce) (cr_pushes c))) (cr_writes c))"

text \<open>The streams in the order they ran, with their subjects, and whether the function has returned.\<close>

fun channel_rounds :: "'w Deps \<Rightarrow> channel_env \<Rightarrow> Envelope \<Rightarrow> channel_round list \<Rightarrow> files \<Rightarrow> 'w \<times> bool
    \<Rightarrow> (string \<times> reader) list \<times> bool \<times> 'w \<times> bool" where
  "channel_rounds d ce env [] fs w = ([], False, w)"
| "channel_rounds d ce env (c # cs) fs w =
     (case waitForSubject (reuseIdentity (dp_NewClient d)) (\<lambda>env. beside (dp_Do d env)) (\<lambda>(w, known). (dp_Close d w, known)) env (cr_waits c) w of
        (None, _, w1) \<Rightarrow> ([], False, w1)
      | (Some (subjectID, port), _, w1) \<Rightarrow>
          if subjectID = [] then ([], True, w1)
          else
            (case channel_stream ce (env_ClaudePID env \<noteq> 0 \<and> ce_alive ce) c subjectID port fs of
               (None, r) \<Rightarrow> ([(subjectID, r)], False, w1)
             | (Some res, r) \<Rightarrow>
                 (case res of
                    Inl e \<Rightarrow>
                      if err_is e ErrWindowMoved
                      then (case channel_rounds d ce env cs (rd_files r) w1 of (rs, fin, w2) \<Rightarrow> ((subjectID, r) # rs, fin, w2))
                      else ([(subjectID, r)], True, w1)
                  | Inr _ \<Rightarrow> ([(subjectID, r)], True, w1))))"

definition streamToChannel :: "'w Deps \<Rightarrow> channel_env \<Rightarrow> string \<Rightarrow> string \<Rightarrow> channel_round list \<Rightarrow> files \<Rightarrow> 'w
    \<Rightarrow> (string \<times> reader) list \<times> bool \<times> 'w \<times> bool" where
  "streamToChannel d ce session scope cs fs w =
     channel_rounds d ce (resolve_env session scope (dp_ClaudePID d) ChannelConsumer) cs fs (w, False)"

text \<open>
  The channel command up to its two halves: the MCP server over the standard streams, and
  \<open>streamToChannel\<close> in the background with the session, scope and method found here.
\<close>

record channel_start =
  ch_session :: string
  ch_scope :: string
  ch_notifyMethod :: string
  ch_server :: serve_config
  ch_serving :: serving

definition ChannelCmd :: "'w Deps \<Rightarrow> string \<Rightarrow> string \<Rightarrow> string \<Rightarrow> (string \<Rightarrow> string \<Rightarrow> (Channel_Server.Tool list \<times> string \<times> string) result) \<Rightarrow>
    rpc_codec \<Rightarrow> out_faults \<Rightarrow> string \<Rightarrow> go_error option \<Rightarrow> string \<Rightarrow> string \<Rightarrow> channel_start result" where
  "ChannelCmd d name version sessionEnv channelTools rc flt input readErr session cwd =
     (let session' = (if session = [] then sessionEnv else session); scope = mustCwd d cwd
      in case channelTools session' scope of
           Inl e \<Rightarrow> Inl e
         | Inr (tools, notifyMethod, instructions) \<Rightarrow>
             Inr \<lparr>ch_session = session', ch_scope = scope, ch_notifyMethod = notifyMethod,
               ch_server = Serve_config \<lparr>si_Name = name, si_Version = version, si_Instructions = instructions, si_Resumed = False\<rparr> tools rc flt input readErr,
               ch_serving = Serve input\<rparr>)"

text \<open>It returns what \<open>Serve\<close> returned, once the stream it then cancels is done too.\<close>

definition channel_result :: "serve_phase \<Rightarrow> bool \<Rightarrow> unit result option" where
  "channel_result phase streamDone = (case phase of Returned r \<Rightarrow> if streamDone then Some r else None | _ \<Rightarrow> None)"

text \<open>What the channel's calls pushed.\<close>

definition pushed :: "(string \<Rightarrow> string) \<Rightarrow> (string \<Rightarrow> bool) option \<Rightarrow> ((int \<times> string) \<times> handled) list \<Rightarrow> string list" where
  "pushed typ channelEvent calls = map (snd \<circ> fst) (filter (\<lambda>c. snd c = Acked \<and>
     (case channelEvent of Some admits \<Rightarrow> admits (typ (snd (fst c))) | None \<Rightarrow> True)) calls)"

section \<open>Waiting is bounded\<close>

lemma wait_loop_delays:
  assumes "wait_loop poll ps delay w = (res, ds, w')" and "0 < delay" and "delay \<le> ResolvePollCeiling"
  shows "length ds \<le> length ps \<and> (\<forall>i < length ds. ds ! i = min (delay * 2 ^ i) ResolvePollCeiling)"
  using assms
proof (induction ps arbitrary: delay w res ds)
  case (Cons p ps)
  consider "ds = []" | w1 ds' where "ds = delay # ds'" "wait_loop poll ps (nextResolveDelay delay) w1 = (res, ds', w')"
    using Cons.prems(1) by (auto split: if_splits prod.splits option.splits)
  then show ?case
  proof cases
    case 2
    have ds': "length ds' \<le> length ps" "\<forall>i < length ds'. ds' ! i = min (nextResolveDelay delay * 2 ^ i) ResolvePollCeiling"
      using Cons.IH [OF 2(2)] Cons.prems(2,3) by (auto simp: nextResolveDelay_def)
    have step: "min (nextResolveDelay delay * 2 ^ i) ResolvePollCeiling = min (delay * 2 ^ Suc i) ResolvePollCeiling" for i :: nat
    proof (cases "2 * delay \<le> ResolvePollCeiling")
      case False
      have one: "ResolvePollCeiling \<le> ResolvePollCeiling * 2 ^ i" using Cons.prems(2,3) by simp
      have "ResolvePollCeiling * 2 ^ i \<le> (2 * delay) * 2 ^ i" using False by (intro mult_right_mono) simp_all
      then have "ResolvePollCeiling \<le> delay * 2 ^ Suc i" using one by (simp only: power_Suc mult.assoc mult.left_commute)
      then show ?thesis using one False by (simp add: nextResolveDelay_def min_def)
    qed (simp add: nextResolveDelay_def algebra_simps)
    have "(delay # ds') ! i = min (delay * 2 ^ i) ResolvePollCeiling" if "i < Suc (length ds')" for i
      using that ds'(2) step Cons.prems(3) by (cases i) simp_all
    then show ?thesis using 2(1) ds'(1) by simp
  qed simp
qed simp

text \<open>
  C36: A channel that waits for its subject is never taken for gone. The pauses between the polls
  of \<open>waitForSubject\<close> are one second, doubled up to the ceiling; so if a poll is answered within
  one ceiling of the daemon noting it, then at any moment until the next poll the daemon still
  counts the window as polling, by its own window of two ceilings.
\<close>

theorem waiting_channel_seen:
  assumes "waitForSubject connect call close env ps w = (res, ds, w')" and "i < length ds"
    and "took \<le> ResolvePollCeiling" and "now \<le> noted + took + ds ! i"
  shows "ds ! i = min (second * 2 ^ i) ResolvePollCeiling \<and>
    PolledSince now scope ChannelConsumer pid channelPollWindow (NotePoll noted scope ChannelConsumer pid a)"
proof -
  have "0 < second" "second \<le> ResolvePollCeiling" by (simp_all add: second_def ResolvePollCeiling_def)
  then have "ds ! i = min (second * 2 ^ i) ResolvePollCeiling"
    using wait_loop_delays [OF assms(1) [unfolded waitForSubject_def]] assms(2) by blast
  then show ?thesis using assms(3,4) by (simp add: PolledSince_def NotePoll_def channelPollWindow_def)
qed

theorem waiting_channel_seen_witness:
  "\<exists>res ds w'. waitForSubject (\<lambda>w. (Inr (), w)) (\<lambda>env w. (Inl ErrAbsent, w)) id (resolve_env [] [] 7 ChannelConsumer)
       (replicate 5 \<lparr>pw_ctxBefore = False, pw_ctxWaiting = False\<rparr>) () = (res, ds, w') \<and> length ds = 5 \<and>
     PolledSince (ds ! 4) [] ChannelConsumer 7 channelPollWindow (NotePoll 0 [] ChannelConsumer 7 NewActivity)"
proof -
  let ?run = "waitForSubject (\<lambda>w. (Inr (), w)) (\<lambda>env w. (Inl ErrAbsent, w)) id (resolve_env [] [] 7 ChannelConsumer)
       (replicate 5 \<lparr>pw_ctxBefore = False, pw_ctxWaiting = False\<rparr>) ()"
  obtain res ds w' where run: "?run = (res, ds, w')" by (metis prod_cases3)
  have five: "length ds = 5"
    using run by (auto simp: waitForSubject_def poll_subject_def eval_nat_numeral)
  have "PolledSince (ds ! 4) [] ChannelConsumer 7 channelPollWindow (NotePoll 0 [] ChannelConsumer 7 NewActivity)"
    by (rule conjunct2 [OF waiting_channel_seen [OF run, where i = 4 and took = 0]])
       (simp_all add: five ResolvePollCeiling_def second_def)
  then show ?thesis using run five by blast
qed

section \<open>What a consumer's calls amount to\<close>

lemma tried_done: "tried M ts k \<Longrightarrow> map fst (filter (\<lambda>(x, h). h \<noteq> Failed) ts) = take k M"
  by (induction rule: tried.induct) (auto simp: take_Suc_conv_app_nth)

lemma tried_acked: "tried M ts k \<Longrightarrow> \<forall>x \<in> set (butlast (filter (\<lambda>(x, h). h \<noteq> Failed) ts)). snd x = Acked"
proof (induction rule: tried.induct)
  case (tried_next ts k h)
  have "snd x = Acked" if "x \<in> set (filter (\<lambda>(x, h). h \<noteq> Failed) ts)" for x
    using that tried_next.hyps(3) by (cases "snd x") force+
  then show ?case using tried_next.IH by auto
qed simp

lemma past_distinct: "ascending L \<Longrightarrow> distinct (map delivery (past c L))"
proof -
  assume "ascending L"
  then have "sorted_wrt (<) (map e_Seq (past c L))" by (auto simp: ascending_def past_def sorted_wrt_map intro: sorted_wrt_filter)
  then have "distinct (map fst (map delivery (past c L)))" by (simp add: delivery_def comp_def strict_sorted_iff)
  then show ?thesis by (simp only: distinct_map)
qed

text \<open>The calls are answered by the handler.\<close>

definition conforms :: "(nat \<Rightarrow> string \<Rightarrow> handled) \<Rightarrow> ((int \<times> string) \<times> handled) list \<Rightarrow> bool" where
  "conforms h ts \<longleftrightarrow> (\<forall>i < length ts. snd (ts ! i) = h i (snd (fst (ts ! i))))"

lemma conforms_snoc: "conforms h (ts @ [((i, d), a)]) \<longleftrightarrow> conforms h ts \<and> a = h (length ts) d"
  by (auto simp: conforms_def nth_append less_Suc_eq)

lemma consume_loop_conforms:
  assumes "consume_loop watched path as port r = (res, r')" and "conforms (rd_handler r) (rd_calls r)"
  shows "rd_handler r' = rd_handler r \<and> conforms (rd_handler r) (rd_calls r')"
proof (rule consume_loop_keeps [where P = "\<lambda>q. rd_handler q = rd_handler r \<and> conforms (rd_handler r) (rd_calls q)", OF _ _ _ assms(1)])
  fix q :: reader
  assume "rd_handler q = rd_handler r \<and> conforms (rd_handler r) (rd_calls q)"
  then show "rd_handler (fst (deliver path q)) = rd_handler r \<and> conforms (rd_handler r) (rd_calls (fst (deliver path q)))"
    by (auto simp: deliver_def Let_def next_handled_def conforms_snoc split: prod.split)
qed (use assms(2) in simp_all)

lemma consumer_run:
  assumes "ConsumeEvents mkdir flt watched path as port r = (res, r')"
    and "\<forall>a \<in> set as. \<forall>port c. served L c (at_conn a port c)" and "ascending L" and "rd_calls r = []"
  obtains (failed) "rd_calls r' = []"
  | (ran) c k where "readCursor flt path (rd_files r) = Inr c" "tried (map delivery (past c L)) (rd_calls r') k"
      "conforms (rd_handler r) (rd_calls r')"
proof (cases "mkdir = None \<and> (\<exists>c. readCursor flt path (rd_files r) = Inr c)")
  case True
  then obtain c where c: "readCursor flt path (rd_files r) = Inr c" by blast
  let ?r = "r\<lparr>rd_cursor := c\<rparr>"
  have loop: "consume_loop watched path as port ?r = (res, r')" using assms(1) True c by (simp add: ConsumeEvents_def)
  from consume_loop_resumed [OF assms(2,3) loop] obtain ts where "resumed L ?r r' ts" by blast
  then obtain k where "tried (map delivery (past c L)) (rd_calls r') k" using assms(4) by (auto simp: resumed_def did_def)
  moreover have "conforms (rd_handler r) (rd_calls r')"
    using consume_loop_conforms [OF loop] assms(4) by (simp add: conforms_def)
  ultimately show thesis by (rule ran [OF c])
next
  case False
  then have "r' = r" using assms(1) by (cases mkdir; cases "readCursor flt path (rd_files r)") (simp_all add: ConsumeEvents_def)
  then show thesis using failed assms(4) by simp
qed

section \<open>What a watch prints\<close>

lemma WatchCmd_ran:
  assumes "WatchCmd d we session cwd once fs w = ((res, Some r'), w')"
  obtains subjectID port fs1 consumer where
    "seedCursor (we_seed we) (we_stateDir we) subjectID watchConsumer consumer fs = (Inr (), fs1)"
    "ConsumeEvents (we_mkdir we) (we_readCursor we) (dp_ClaudePID d \<noteq> 0 \<and> we_alive we) (Cursor (we_stateDir we) subjectID consumer)
       (we_attempts we) port (new_reader fs1 (watch_handler once (we_terminal we) (we_typ we) (we_faults we)) (we_writes we)) = (res, r')"
  using assms that unfolding WatchCmd_def Let_def by (auto split: sum.splits prod.splits option.splits)

text \<open>The lines that were written whole are those of the calls that did not fail.\<close>

lemma watch_stdout_faultless:
  assumes "\<forall>i. faults i = None"
  shows "watch_stdout faults calls = concat (map (nl_end \<circ> snd \<circ> fst) calls)"
proof -
  have "map (\<lambda>i. nl_end (snd (fst (calls ! i)))) [0..<length calls] = map (nl_end \<circ> snd \<circ> fst) calls"
    by (intro nth_equalityI) simp_all
  then show ?thesis using assms by (simp add: watch_stdout_def)
qed

lemma watch_handler_answers:
  assumes "conforms (watch_handler once terminal typ faults) ts" and "(x, h) \<in> set ts"
  shows "h = Acked \<Longrightarrow> \<not> once \<and> \<not> terminal (typ (snd x))" and "\<forall>i. faults i = None \<Longrightarrow> h \<noteq> Failed"
proof -
  obtain i where "i < length ts" "ts ! i = (x, h)" using assms(2) by (auto simp: in_set_conv_nth)
  then have "h = watch_handler once terminal typ faults i (snd x)" using assms(1) by (auto simp: conforms_def)
  then show "h = Acked \<Longrightarrow> \<not> once \<and> \<not> terminal (typ (snd x))" "\<forall>i. faults i = None \<Longrightarrow> h \<noteq> Failed"
    by (auto simp: watch_handler_def split: option.splits if_splits)
qed

lemma watch_calls:
  assumes tr: "tried (map delivery M) ts k" and co: "conforms (watch_handler once terminal typ faults) ts" and "distinct (map delivery M)"
  shows "map (snd \<circ> fst) (filter (\<lambda>(x, h). h \<noteq> Failed) ts) = map e_Payload (take k M)"
    and "remdups_adj (map fst ts) = map delivery (take k M) \<or> remdups_adj (map fst ts) = map delivery (take (Suc k) M)"
    and "\<forall>e \<in> set (butlast (take k M)). \<not> terminal (typ (e_Payload e))"
    and "once \<longrightarrow> k \<le> 1"
    and "(\<forall>i. faults i = None) \<longrightarrow> watch_stdout faults ts = concat (map (nl_end \<circ> e_Payload) (take k M))"
proof -
  let ?D = "filter (\<lambda>(x, h). h \<noteq> Failed) ts"
  have D: "map fst ?D = map delivery (take k M)" using tried_done [OF tr] by (simp add: take_map)
  show "map (snd \<circ> fst) ?D = map e_Payload (take k M)" using arg_cong [OF D, of "map snd"] by (simp add: delivery_def comp_def)
  show "remdups_adj (map fst ts) = map delivery (take k M) \<or> remdups_adj (map fst ts) = map delivery (take (Suc k) M)"
    using tried_remdups [OF tr assms(3)] by (auto simp: take_map)
  have quiet: "\<not> once \<and> \<not> terminal (typ (snd (fst x)))" if "x \<in> set (butlast ?D)" for x
  proof -
    have "snd x = Acked" "x \<in> set ts" using that tried_acked [OF tr] in_set_butlastD [of x ?D] by auto
    then show ?thesis using watch_handler_answers(1) [OF co, of "fst x" "snd x"] by (metis prod.collapse)
  qed
  have but: "map fst (butlast ?D) = map delivery (butlast (take k M))" using D by (metis map_butlast)
  show "\<forall>e \<in> set (butlast (take k M)). \<not> terminal (typ (e_Payload e))"
  proof
    fix e
    assume "e \<in> set (butlast (take k M))"
    then have "delivery e \<in> fst ` set (butlast ?D)" using arg_cong [OF but, of set] by simp
    then obtain x where "x \<in> set (butlast ?D)" "fst x = delivery e" by fastforce
    then show "\<not> terminal (typ (e_Payload e))" using quiet [of x] by (simp add: delivery_def)
  qed
  show "once \<longrightarrow> k \<le> 1"
  proof
    assume once
    then have "butlast ?D = []" using quiet by (metis list.set_intros(1) neq_Nil_conv)
    then have "length ?D \<le> 1" by (cases ?D rule: rev_cases) simp_all
    then show "k \<le> 1" using arg_cong [OF D, of length] tried_bound [OF tr] by simp
  qed
  show "(\<forall>i. faults i = None) \<longrightarrow> watch_stdout faults ts = concat (map (nl_end \<circ> e_Payload) (take k M))"
  proof
    assume ok: "\<forall>i. faults i = None"
    have "?D = ts" using watch_handler_answers(2) [OF co] ok by (intro filter_True) auto
    then show "watch_stdout faults ts = concat (map (nl_end \<circ> e_Payload) (take k M))"
      using watch_stdout_faultless [OF ok, of ts] arg_cong [OF D, of "map (nl_end \<circ> snd)"] by (simp add: delivery_def comp_def)
  qed
qed

text \<open>
  C34: A watch prints the log. Run \<open>watch\<close> against any connections that serve the log of its
  subject, breaking as often as they like, with a terminal that may fail at any line and a
  cursor file that may fail at any write. Then for some \<open>k\<close> the lines it wrote whole are the
  payloads of the first \<open>k\<close> events past the cursor it was seeded with, in order; a line that
  failed is tried again before any other; no event but the last of them is a terminal one, and
  with \<open>--once\<close> there is at most one. If no write fails, the output is exactly these lines.
\<close>

theorem watch_prints_log:
  assumes "WatchCmd d we session cwd once fs w = ((res, Some r), w')"
    and "\<forall>a \<in> set (we_attempts we). \<forall>port c. served L c (at_conn a port c)" and "ascending L"
  shows "rd_calls r = [] \<or> (\<exists>subjectID consumer fs1 c k.
    seedCursor (we_seed we) (we_stateDir we) subjectID watchConsumer consumer fs = (Inr (), fs1) \<and>
    readCursor (we_readCursor we) (Cursor (we_stateDir we) subjectID consumer) fs1 = Inr c \<and>
    map (snd \<circ> fst) (filter (\<lambda>(x, h). h \<noteq> Failed) (rd_calls r)) = map e_Payload (take k (past c L)) \<and>
    (remdups_adj (map fst (rd_calls r)) = map delivery (take k (past c L)) \<or>
     remdups_adj (map fst (rd_calls r)) = map delivery (take (Suc k) (past c L))) \<and>
    (\<forall>e \<in> set (butlast (take k (past c L))). \<not> we_terminal we (we_typ we (e_Payload e))) \<and> (once \<longrightarrow> k \<le> 1) \<and>
    ((\<forall>i. we_faults we i = None) \<longrightarrow> watch_stdout (we_faults we) (rd_calls r) = concat (map (nl_end \<circ> e_Payload) (take k (past c L)))))"
proof -
  let ?h = "watch_handler once (we_terminal we) (we_typ we) (we_faults we)"
  obtain subjectID port fs1 consumer where
    seed: "seedCursor (we_seed we) (we_stateDir we) subjectID watchConsumer consumer fs = (Inr (), fs1)" and
    run: "ConsumeEvents (we_mkdir we) (we_readCursor we) (dp_ClaudePID d \<noteq> 0 \<and> we_alive we) (Cursor (we_stateDir we) subjectID consumer)
       (we_attempts we) port (new_reader fs1 ?h (we_writes we)) = (res, r)"
    by (rule WatchCmd_ran [OF assms(1)])
  have fresh: "rd_calls (new_reader fs1 ?h (we_writes we)) = []" by (simp add: new_reader_def)
  show ?thesis
  proof (rule consumer_run [OF run assms(2,3) fresh])
    fix c k
    assume c: "readCursor (we_readCursor we) (Cursor (we_stateDir we) subjectID consumer) (rd_files (new_reader fs1 ?h (we_writes we))) = Inr c"
      and tr: "tried (map delivery (past c L)) (rd_calls r) k" and co: "conforms (rd_handler (new_reader fs1 ?h (we_writes we))) (rd_calls r)"
    have "readCursor (we_readCursor we) (Cursor (we_stateDir we) subjectID consumer) fs1 = Inr c"
      using c by (simp add: new_reader_def)
    moreover have "conforms ?h (rd_calls r)" using co by (simp add: new_reader_def)
    ultimately show ?thesis using seed watch_calls [OF tr _ past_distinct [OF assms(3)], of once "we_terminal we" "we_typ we" "we_faults we"]
      by blast
  qed simp
qed

definition sample_watch_deps :: "unit Deps" where
  "sample_watch_deps = \<lparr>dp_EnsureCurrent = \<lambda>w. (Inr (), w), dp_EnsureCurrentIfRunning = \<lambda>w. (Inr (), w), dp_NewClient = \<lambda>w. (Inr (), w),
     dp_Do = \<lambda>env w. (Inr (okReply\<lparr>rp_SubjectID := ''s1'', rp_HTTPPort := 80\<rparr>), w), dp_Close = id, dp_Stop = \<lambda>w. (Inr (), w),
     dp_ClaudePID = 0, dp_Getwd = ''repo'', dp_errText = \<lambda>_. []\<rparr>"

definition sample_watch_env :: watch_env where
  "sample_watch_env = \<lparr>we_stateDir = ''st'', we_pid = 9, we_alive = False, we_waits = [],
     we_seed = \<lparr>se_mkdir = None, se_readSelf = None, se_entries = Inr [], se_read = \<lambda>_. None, se_pidExists = \<lambda>_. Inr True,
       se_remove = \<lambda>_. None, se_write = None\<rparr>,
     we_mkdir = None, we_readCursor = None, we_attempts = [sample_attempt, sample_attempt], we_typ = id, we_terminal = (\<lambda>_. False),
     we_faults = (\<lambda>i. if i = 0 then Some 2 else None), we_writes = []\<rparr>"

text \<open>The first write fails after two bytes; the second connection delivers the event again.\<close>

theorem watch_prints_log_witness:
  "\<exists>res r w' k. WatchCmd sample_watch_deps sample_watch_env ''sess'' [] False (\<lambda>_. None) () = ((res, Some r), w') \<and>
     length (rd_calls r) = 2 \<and> map (snd \<circ> fst) (filter (\<lambda>(x, h). h \<noteq> Failed) (rd_calls r)) = map e_Payload (take k sample_log)"
proof -
  let ?run = "WatchCmd sample_watch_deps sample_watch_env ''sess'' [] False (\<lambda>_. None) ()"
  have "map_option (length \<circ> rd_calls) (snd (fst ?run)) = Some 2" by code_simp
  then obtain res r w' where run: "?run = ((res, Some r), w')" "length (rd_calls r) = 2"
    by (cases ?run) (auto simp: map_option_case split: option.splits)
  have asc: "ascending sample_log" by (simp add: ascending_def sample_log_def)
  have sv: "\<forall>a \<in> set (we_attempts sample_watch_env). \<forall>port c. served sample_log c (at_conn a port c)"
    by (simp add: sample_watch_env_def sample_served)
  have ne: "rd_calls r \<noteq> []" using run(2) by auto
  from watch_prints_log [OF run(1) sv asc] ne obtain subjectID consumer fs1 c k where
    found: "seedCursor (we_seed sample_watch_env) (we_stateDir sample_watch_env) subjectID watchConsumer consumer (\<lambda>_. None) = (Inr (), fs1)"
    "readCursor (we_readCursor sample_watch_env) (Cursor (we_stateDir sample_watch_env) subjectID consumer) fs1 = Inr c"
    "map (snd \<circ> fst) (filter (\<lambda>(x, h). h \<noteq> Failed) (rd_calls r)) = map e_Payload (take k (past c sample_log))"
    by blast
  from found(1,2) have "c = 0" by (auto simp: seedCursor_def sample_watch_env_def readCursor_def)
  moreover have "past 0 sample_log = sample_log" by (simp add: past_def sample_log_def)
  ultimately have "map (snd \<circ> fst) (filter (\<lambda>(x, h). h \<noteq> Failed) (rd_calls r)) = map e_Payload (take k sample_log)" using found(3) by simp
  then show ?thesis using run by blast
qed

section \<open>Where a stream stops\<close>

text \<open>
  Whatever the connections carry, a call that stops is the last one, and the loop returns
  without an error.
\<close>

definition went :: "reader \<Rightarrow> reader \<Rightarrow> bool \<Rightarrow> bool" where
  "went r r' stop \<longleftrightarrow> (\<exists>ts. rd_calls r' = rd_calls r @ ts \<and> StopNow \<notin> snd ` set (butlast ts) \<and>
     (stop \<longleftrightarrow> ts \<noteq> [] \<and> snd (last ts) = StopNow))"

lemma went_nowhere: "rd_calls r' = rd_calls r \<Longrightarrow> went r r' False"
  by (simp add: went_def)

lemma went_trans:
  assumes "went r r1 False" and "went r1 r2 stop"
  shows "went r r2 stop"
proof -
  obtain ts where t: "rd_calls r1 = rd_calls r @ ts" "StopNow \<notin> snd ` set (butlast ts)" "\<not> (ts \<noteq> [] \<and> snd (last ts) = StopNow)"
    using assms(1) unfolding went_def by blast
  obtain us where u: "rd_calls r2 = rd_calls r1 @ us" "StopNow \<notin> snd ` set (butlast us)" "stop \<longleftrightarrow> us \<noteq> [] \<and> snd (last us) = StopNow"
    using assms(2) unfolding went_def by blast
  have "StopNow \<notin> snd ` set ts" using t(2,3) by (cases ts rule: rev_cases) auto
  then show ?thesis using t u unfolding went_def by (intro exI [of _ "ts @ us"]) (auto simp: butlast_append)
qed

lemma deliver_went: "deliver path r = (r', x) \<Longrightarrow> went r r' (x = Some ExitStop)"
  by (auto simp: went_def deliver_def Let_def split: if_splits prod.splits)

lemma read_line_went: "read_line path l r = (r', x) \<Longrightarrow> went r r' (x = Some ExitStop)"
  using deliver_went [of path r r' x] by (auto simp: read_line_def intro: went_nowhere split: if_splits option.splits)

lemma read_lines_went: "read_lines path ls r = (r', x) \<Longrightarrow> went r r' (x = Some ExitStop)"
proof (induction ls arbitrary: r)
  case (Cons l ls)
  obtain r1 y where l: "read_line path l r = (r1, y)" by fastforce
  show ?case
  proof (cases y)
    case None
    then show ?thesis using Cons read_line_went [OF l] went_trans l by auto
  next
    case (Some e)
    then show ?thesis using Cons.prems read_line_went [OF l] l by auto
  qed
qed (simp add: went_nowhere)

lemma readStream_went:
  assumes "readStream path conn r = ((stop, fatal), r')"
  shows "went r r' stop \<and> (stop \<longrightarrow> fatal = None)"
proof -
  have "went r q (x = Some ExitStop)"
    if "read_lines path ls (r\<lparr>rd_id := rd_cursor r, rd_data := [], rd_event := []\<rparr>) = (q, x)" for ls q x
    using read_lines_went [OF that] by (simp add: went_def)
  then show ?thesis using assms
    by (fastforce simp: readStream_def intro: went_nowhere split: connection.splits if_splits prod.splits option.splits exit.splits)
qed

text \<open>The errors of a stream come from building the request, the daemon's refusal or an oversized frame.\<close>

definition plain :: "go_error \<Rightarrow> bool" where
  "plain e \<longleftrightarrow> \<not> err_is e ErrWindowMoved"

definition plain_requests :: "attempt list \<Rightarrow> bool" where
  "plain_requests as \<longleftrightarrow> (\<forall>a \<in> set as. \<forall>port c e. at_conn a port c = BadRequest e \<longrightarrow> plain e)"

lemma readStream_plain:
  assumes "readStream path conn r = ((stop, Some e), r')" and "\<And>e. conn = BadRequest e \<Longrightarrow> plain e"
  shows "plain e"
  using assms by (auto simp: readStream_def plain_def split: connection.splits if_splits prod.splits option.splits exit.splits)

lemma consume_once_went:
  assumes "consume_once watched path a port r = (x, r')" and "\<And>c e. at_conn a port c = BadRequest e \<Longrightarrow> plain e"
  shows "\<exists>stop. went r r' stop \<and> (stop \<longrightarrow> x = Inl (Inr ())) \<and> (\<forall>e. x = Inl (Inl e) \<longrightarrow> plain e)"
proof -
  obtain stop fatal r1 where s: "readStream path (at_conn a port (rd_cursor r)) r = ((stop, fatal), r1)" by (metis prod.exhaust)
  have "went r r1 stop" "stop \<longrightarrow> fatal = None" using readStream_went [OF s] by simp_all
  moreover have "plain e" if "fatal = Some e" for e using readStream_plain [OF s [unfolded that]] assms(2) by blast
  ultimately show ?thesis using assms(1) s
    by (cases fatal) (auto simp: consume_once_def Let_def intro: went_nowhere split: if_splits)
qed

lemma consume_loop_went:
  assumes "consume_loop watched path as port r = (res, r')" and "plain_requests as"
  shows "\<exists>stop. went r r' stop \<and> (stop \<longrightarrow> res = Some (Inr ())) \<and> (\<forall>e. res = Some (Inl e) \<longrightarrow> plain e)"
  using assms
proof (induction "as" arbitrary: port r)
  case Nil
  then show ?case using went_nowhere by auto
next
  case (Cons a "as")
  obtain x r1 where x: "consume_once watched path a port r = (x, r1)" by fastforce
  obtain stop where one: "went r r1 stop" "stop \<longrightarrow> x = Inl (Inr ())" "\<forall>e. x = Inl (Inl e) \<longrightarrow> plain e"
    using consume_once_went [OF x] Cons.prems(2) by (auto simp: plain_requests_def)
  show ?case
  proof (cases x)
    case (Inl y)
    then show ?thesis using Cons.prems(1) x one by auto
  next
    case (Inr port')
    then have "went r r1 False" using one by (cases stop) auto
    moreover obtain stop' where "went r1 r' stop'" "stop' \<longrightarrow> res = Some (Inr ())" "\<forall>e. res = Some (Inl e) \<longrightarrow> plain e"
      using Cons.IH [of port' r1] Cons.prems x Inr by (auto simp: plain_requests_def)
    ultimately show ?thesis using went_trans by blast
  qed
qed

section \<open>What the channel pushes\<close>

abbreviation call_data :: "(int \<times> string) \<times> handled \<Rightarrow> string" where
  "call_data c \<equiv> snd (fst c)"

lemma stream_answers:
  assumes "conforms (stream_handler typ notify) ts" and "c \<in> set ts"
  shows "snd c = StopNow \<longleftrightarrow> typ (call_data c) = TypeWindowMoved"
proof -
  obtain i where "i < length ts" "ts ! i = c" using assms(2) by (auto simp: in_set_conv_nth)
  then show ?thesis using assms(1) by (auto simp: conforms_def stream_handler_def split: if_splits)
qed

lemma ConsumeEvents_loop:
  assumes "ConsumeEvents mkdir flt watched path as port r = (res, r')"
  obtains (failed) e where "res = Some (Inl e)" "plain e" "r' = r"
  | (loop) c where "consume_loop watched path as port (r\<lparr>rd_cursor := c\<rparr>) = (res, r')"
proof (cases mkdir)
  case None
  show thesis
  proof (cases "readCursor flt path (rd_files r)")
    case (Inl e)
    then have "plain e" by (auto simp: readCursor_def plain_def split: option.splits)
    then show thesis using failed assms None Inl by (auto simp: ConsumeEvents_def)
  next
    case (Inr c)
    then show thesis using loop assms None by (simp add: ConsumeEvents_def)
  qed
next
  case (Some m)
  then show thesis using failed assms by (fastforce simp: ConsumeEvents_def plain_def)
qed

lemma stream_run:
  assumes "StreamEvents typ mkdir flt watched path as port (new_reader fs (stream_handler typ notify) writes) = (res, r')"
    and "plain_requests as"
  shows "conforms (stream_handler typ notify) (rd_calls r')"
    and "\<forall>c \<in> set (butlast (rd_calls r')). typ (call_data c) \<noteq> TypeWindowMoved"
    and "res = Some (Inl e) \<Longrightarrow> err_is e ErrWindowMoved \<Longrightarrow> rd_calls r' \<noteq> [] \<and> typ (call_data (last (rd_calls r'))) = TypeWindowMoved"
    and "rd_calls r' \<noteq> [] \<Longrightarrow> typ (call_data (last (rd_calls r'))) = TypeWindowMoved \<Longrightarrow> res = Some (Inl ErrWindowMoved)"
proof -
  let ?h = "stream_handler typ notify"
  let ?r = "new_reader fs ?h writes"
  obtain res0 where run: "ConsumeEvents mkdir flt watched path as port ?r = (res0, r')"
    and res: "res = (if moved typ (rd_calls r') then map_option (\<lambda>_. Inl ErrWindowMoved) res0 else res0)"
    using assms(1) by (auto simp: StreamEvents_def new_reader_def split: prod.splits)
  have all: "conforms ?h (rd_calls r') \<and> (\<forall>e. res0 = Some (Inl e) \<longrightarrow> plain e) \<and>
      (\<exists>stop. went ?r r' stop \<and> (stop \<longrightarrow> res0 = Some (Inr ())))"
    using run
  proof (cases rule: ConsumeEvents_loop)
    case (failed e)
    then show ?thesis using went_nowhere [of r' ?r] by (auto simp: conforms_def new_reader_def)
  next
    case (loop c)
    have "conforms ?h (rd_calls r')" using consume_loop_conforms [OF loop] by (simp add: new_reader_def conforms_def)
    then show ?thesis using consume_loop_went [OF loop assms(2)] by (auto simp: went_def)
  qed
  then obtain stop where co: "conforms ?h (rd_calls r')" and "\<forall>e. res0 = Some (Inl e) \<longrightarrow> plain e" and "went ?r r' stop"
    and st: "stop \<longrightarrow> res0 = Some (Inr ())" by blast
  then have w: "StopNow \<notin> snd ` set (butlast (rd_calls r'))" "stop \<longleftrightarrow> rd_calls r' \<noteq> [] \<and> snd (last (rd_calls r')) = StopNow"
    by (auto simp: went_def new_reader_def)
  show "conforms ?h (rd_calls r')" by (rule co)
  show early: "\<forall>c \<in> set (butlast (rd_calls r')). typ (call_data c) \<noteq> TypeWindowMoved"
    using w(1) stream_answers [OF co] in_set_butlastD by (metis image_eqI)
  have mv: "moved typ (rd_calls r') \<longleftrightarrow> rd_calls r' \<noteq> [] \<and> typ (call_data (last (rd_calls r'))) = TypeWindowMoved"
    using early by (cases "rd_calls r'" rule: rev_cases) (fastforce simp: moved_def list_ex_iff)+
  have stop: "moved typ (rd_calls r') \<Longrightarrow> stop" using mv w(2) stream_answers [OF co] by simp
  show "res = Some (Inl e) \<Longrightarrow> err_is e ErrWindowMoved \<Longrightarrow> rd_calls r' \<noteq> [] \<and> typ (call_data (last (rd_calls r'))) = TypeWindowMoved"
    using all res mv by (auto simp: plain_def split: if_splits)
  show "rd_calls r' \<noteq> [] \<Longrightarrow> typ (call_data (last (rd_calls r'))) = TypeWindowMoved \<Longrightarrow> res = Some (Inl ErrWindowMoved)"
    using res mv st stop by simp
qed

text \<open>The events a channel is to push, of the payloads it is given.\<close>

definition admitted :: "(string \<Rightarrow> string) \<Rightarrow> (string \<Rightarrow> bool) option \<Rightarrow> string \<Rightarrow> bool" where
  "admitted typ channelEvent data \<longleftrightarrow> typ data \<noteq> TypeWindowMoved \<and> (case channelEvent of Some admits \<Rightarrow> admits (typ data) | None \<Rightarrow> True)"

lemma pushed_filter:
  assumes "conforms (stream_handler typ notify) ts"
  shows "pushed typ ce ts = filter (admitted typ ce) (map call_data (filter (\<lambda>(x, h). h \<noteq> Failed) ts))"
proof -
  have "(snd c = Acked \<and> (case ce of Some admits \<Rightarrow> admits (typ (call_data c)) | None \<Rightarrow> True)) \<longleftrightarrow>
      snd c \<noteq> Failed \<and> admitted typ ce (call_data c)" if "c \<in> set ts" for c
    using stream_answers [OF assms that] by (cases "snd c") (auto simp: admitted_def)
  then have "filter (\<lambda>c. snd c = Acked \<and> (case ce of Some admits \<Rightarrow> admits (typ (call_data c)) | None \<Rightarrow> True)) ts =
      filter (\<lambda>c. admitted typ ce (call_data c) \<and> snd c \<noteq> Failed) ts"
    by (intro filter_cong) auto
  then show ?thesis unfolding pushed_def by (simp add: filter_map filter_filter comp_def case_prod_beta conj_commute)
qed

text \<open>What holds of one stream of the channel: its round, the subject, and the files before.\<close>

definition stream_ok :: "channel_env \<Rightarrow> channel_round \<Rightarrow> string \<Rightarrow> files \<Rightarrow> reader \<Rightarrow> bool" where
  "stream_ok ce c subjectID fs r \<longleftrightarrow>
     (\<forall>x \<in> set (butlast (rd_calls r)). ce_typ ce (call_data x) \<noteq> TypeWindowMoved) \<and>
     (\<forall>p \<in> set (pushed (ce_typ ce) (ce_channelEvent ce) (rd_calls r)). admitted (ce_typ ce) (ce_channelEvent ce) p) \<and>
     (\<forall>L. (\<forall>a \<in> set (cr_attempts c). \<forall>port cur. served L cur (at_conn a port cur)) \<and> ascending L \<longrightarrow> rd_calls r = [] \<or>
        (\<exists>cur k. readCursor (cr_readCursor c) (Cursor (ce_stateDir ce) subjectID ChannelConsumer) fs = Inr cur \<and>
           pushed (ce_typ ce) (ce_channelEvent ce) (rd_calls r) =
             filter (admitted (ce_typ ce) (ce_channelEvent ce)) (map e_Payload (take k (past cur L)))))"

definition told_to_move :: "channel_env \<Rightarrow> reader \<Rightarrow> bool" where
  "told_to_move ce r \<longleftrightarrow> rd_calls r \<noteq> [] \<and> ce_typ ce (call_data (last (rd_calls r))) = TypeWindowMoved"

lemma channel_stream_ok:
  assumes "channel_stream ce watched c subjectID port fs = (res, r)" and "plain_requests (cr_attempts c)"
  shows "stream_ok ce c subjectID fs r"
    and "res = Some (Inl e) \<Longrightarrow> err_is e ErrWindowMoved \<longleftrightarrow> told_to_move ce r"
    and "told_to_move ce r \<Longrightarrow> res = Some (Inl ErrWindowMoved)"
proof -
  let ?ty = "ce_typ ce" and ?ev = "ce_channelEvent ce"
  let ?h = "stream_handler ?ty (channel_notify ?ev (cr_pushes c))"
  note run = stream_run [OF assms(1) [unfolded channel_stream_def] assms(2)]
  note push = pushed_filter [OF run(1)]
  have "rd_calls r = [] \<or> (\<exists>cur k. readCursor (cr_readCursor c) (Cursor (ce_stateDir ce) subjectID ChannelConsumer) fs = Inr cur \<and>
      pushed ?ty ?ev (rd_calls r) = filter (admitted ?ty ?ev) (map e_Payload (take k (past cur L))))"
    if L: "\<forall>a \<in> set (cr_attempts c). \<forall>port cur. served L cur (at_conn a port cur)" "ascending L" for L
  proof -
    obtain res0 where run0: "ConsumeEvents (cr_mkdir c) (cr_readCursor c) watched (Cursor (ce_stateDir ce) subjectID ChannelConsumer)
        (cr_attempts c) port (new_reader fs ?h (cr_writes c)) = (res0, r)"
      using assms(1) by (auto simp: channel_stream_def StreamEvents_def split: prod.splits)
    have "rd_calls (new_reader fs ?h (cr_writes c)) = []" by (simp add: new_reader_def)
    from run0 L this show ?thesis
    proof (cases rule: consumer_run)
      case (ran cur k)
      have "map fst (filter (\<lambda>(x, h). h \<noteq> Failed) (rd_calls r)) = map delivery (take k (past cur L))"
        using tried_done [OF ran(2)] by (simp add: take_map)
      from arg_cong [OF this, of "map snd"] have "map call_data (filter (\<lambda>(x, h). h \<noteq> Failed) (rd_calls r)) = map e_Payload (take k (past cur L))"
        by (simp add: delivery_def comp_def)
      then show ?thesis using ran(1) push by (auto simp: new_reader_def)
    qed simp
  qed
  then show "stream_ok ce c subjectID fs r" unfolding stream_ok_def using run(2) push by auto
  show "res = Some (Inl e) \<Longrightarrow> err_is e ErrWindowMoved \<longleftrightarrow> told_to_move ce r"
    using run(3,4) unfolding told_to_move_def by fastforce
  show "told_to_move ce r \<Longrightarrow> res = Some (Inl ErrWindowMoved)"
    using run(4) unfolding told_to_move_def by blast
qed

text \<open>The files before the \<open>i\<close>th stream.\<close>

definition files_before :: "files \<Rightarrow> (string \<times> reader) list \<Rightarrow> nat \<Rightarrow> files" where
  "files_before fs streams i = (if i = 0 then fs else rd_files (snd (streams ! (i - 1))))"

definition followed :: "channel_env \<Rightarrow> channel_round list \<Rightarrow> files \<Rightarrow> (string \<times> reader) list \<Rightarrow> bool" where
  "followed ce cs fs streams \<longleftrightarrow> length streams \<le> length cs \<and>
     (\<forall>i < length streams. stream_ok ce (cs ! i) (fst (streams ! i)) (files_before fs streams i) (snd (streams ! i)) \<and>
        fst (streams ! i) \<noteq> [] \<and> (Suc i < length streams \<longrightarrow> told_to_move ce (snd (streams ! i))))"

lemma followed_Cons:
  assumes "stream_ok ce c subjectID fs r" and "subjectID \<noteq> []" and "streams \<noteq> [] \<longrightarrow> told_to_move ce r"
    and "followed ce cs (rd_files r) streams"
  shows "followed ce (c # cs) fs ((subjectID, r) # streams)"
proof -
  have "files_before fs ((subjectID, r) # streams) (Suc i) = files_before (rd_files r) streams i" for i
    by (cases i) (simp_all add: files_before_def)
  then show ?thesis using assms unfolding followed_def
    by (auto simp: nth_Cons files_before_def less_Suc_eq_0_disj split: nat.splits)
qed

text \<open>
  How the channel comes by its subjects: a poll of the daemon, and whether the context is cancelled
  during the waits of a round.
\<close>

abbreviation channel_poll :: "'w Deps \<Rightarrow> Envelope \<Rightarrow> channel_round \<Rightarrow> 'w \<times> bool \<Rightarrow> (string \<times> int) option \<times> int list \<times> ('w \<times> bool)" where
  "channel_poll d env c w \<equiv> waitForSubject (reuseIdentity (dp_NewClient d)) (\<lambda>env. beside (dp_Do d env))
     (\<lambda>(w, known). (dp_Close d w, known)) env (cr_waits c) w"

definition polled :: "'w Deps \<Rightarrow> Envelope \<Rightarrow> channel_round \<Rightarrow> 'w \<times> bool \<Rightarrow> (string \<times> int) option \<Rightarrow> 'w \<times> bool \<Rightarrow> bool" where
  "polled d env c w found w1 \<longleftrightarrow> (case channel_poll d env c w of (f, ds, w') \<Rightarrow> f = found \<and> w' = w1)"

definition cancelled :: "channel_round \<Rightarrow> bool" where
  "cancelled c \<longleftrightarrow> list_ex (\<lambda>p. pw_ctxBefore p \<or> pw_ctxWaiting p) (cr_waits c)"

lemma polledI: "channel_poll d env c w = (found, ds, w1) \<Longrightarrow> polled d env c w found w1"
  by (simp add: polled_def)

lemma wait_loop_cancelled:
  assumes "\<And>w sid port w1. poll w = (Some (sid, port), w1) \<Longrightarrow> sid \<noteq> []"
  shows "wait_loop poll ps delay w = (Some ([], port), ds, w1) \<Longrightarrow> port = 0 \<and> list_ex (\<lambda>p. pw_ctxBefore p \<or> pw_ctxWaiting p) ps"
  using assms by (induction ps arbitrary: delay w ds) (auto split: if_splits prod.splits option.splits)

lemma poll_cancelled:
  assumes "channel_poll d env c w = (Some ([], port), ds, w1)"
  shows "port = 0 \<and> cancelled c"
  using assms unfolding waitForSubject_def cancelled_def
  by (rule wait_loop_cancelled [rotated]) (auto simp: poll_subject_def split: prod.splits sum.splits if_splits)

text \<open>
  The channel stays with its window: in \<open>ws\<close>, the worlds before its polls, every stream runs on the
  subject a poll found. It asks again whenever it may go on, and then ends only because the
  context was cancelled while it waited for the subject, or is still at work when the inputs end.
\<close>

definition stayed :: "'w Deps \<Rightarrow> channel_env \<Rightarrow> Envelope \<Rightarrow> channel_round list \<Rightarrow> ('w \<times> bool) list \<Rightarrow> (string \<times> reader) list \<Rightarrow> bool
    \<Rightarrow> 'w \<times> bool \<Rightarrow> bool" where
  "stayed d ce env cs ws streams returned w' \<longleftrightarrow> length ws = Suc (length streams) \<and>
     (\<forall>i < length streams. \<exists>port. polled d env (cs ! i) (ws ! i) (Some (fst (streams ! i), port)) (ws ! Suc i)) \<and>
     (streams = [] \<or> told_to_move ce (snd (last streams)) \<longrightarrow>
        (if returned then length streams < length cs \<and> polled d env (cs ! length streams) (last ws) (Some ([], 0)) w' \<and>
           cancelled (cs ! length streams)
         else length streams = length cs \<or> polled d env (cs ! length streams) (last ws) None w'))"

lemma stayed_here:
  assumes "returned \<Longrightarrow> polled d env c w (Some ([], 0)) w' \<and> cancelled c" and "\<not> returned \<Longrightarrow> polled d env c w None w'"
  shows "stayed d ce env (c # cs) [w] [] returned w'"
  using assms by (simp add: stayed_def)

lemma stayed_last:
  assumes "polled d env c w (Some (sid, port)) w1" and "\<not> told_to_move ce r"
  shows "stayed d ce env (c # cs) [w, w1] [(sid, r)] returned w'"
  using assms by (auto simp: stayed_def)

lemma stayed_Cons:
  assumes "polled d env c w (Some (sid, port)) (hd ws)" and "told_to_move ce r" and "stayed d ce env cs ws streams returned w'"
  shows "stayed d ce env (c # cs) (w # ws) ((sid, r) # streams) returned w'"
proof -
  have "ws \<noteq> []" using assms(3) by (auto simp: stayed_def)
  then have "ws ! 0 = hd ws" by (simp add: hd_conv_nth)
  then have "\<exists>port. polled d env ((c # cs) ! i) ((w # ws) ! i) (Some (fst (((sid, r) # streams) ! i), port)) ((w # ws) ! Suc i)"
    if "i < Suc (length streams)" for i
    using that assms(1,3) by (cases i) (auto simp: stayed_def)
  then show ?thesis using assms(2,3) \<open>ws \<noteq> []\<close> by (auto simp: stayed_def)
qed

lemma channel_rounds_stayed:
  assumes "channel_rounds d ce env cs fs w = (streams, returned, w')" and "\<forall>c \<in> set cs. plain_requests (cr_attempts c)"
  shows "\<exists>ws. hd ws = w \<and> stayed d ce env cs ws streams returned w'"
  using assms
proof (induction cs arbitrary: fs w streams returned w')
  case Nil
  then show ?case by (intro exI [of _ "[w]"]) (auto simp: stayed_def)
next
  case (Cons c cs)
  let ?watched = "env_ClaudePID env \<noteq> 0 \<and> ce_alive ce"
  obtain sub ds w1 where wait: "channel_poll d env c w = (sub, ds, w1)" by (metis prod_cases3)
  show ?case
  proof (cases "sub = None \<or> fst (the sub) = []")
    case True
    then have "streams = [] \<and> w' = w1 \<and> (returned \<longleftrightarrow> sub \<noteq> None)"
      using Cons.prems(1) wait by (cases sub) auto
    moreover have "sub = Some ([], 0) \<and> cancelled c" if "sub \<noteq> None"
      using True that wait poll_cancelled [of d env c w] by (cases sub) auto
    ultimately show ?thesis using stayed_here [of returned d env c w w' ce cs] polledI [OF wait]
      by (intro exI [of _ "[w]"]) (cases sub; auto)
  next
    case False
    then obtain sid port where sub: "sub = Some (sid, port)" "sid \<noteq> []" by (cases sub) auto
    note here = polledI [OF wait [unfolded sub(1)]]
    obtain res r where st: "channel_stream ce ?watched c sid port fs = (res, r)" by fastforce
    have "plain_requests (cr_attempts c)" using Cons.prems(2) by simp
    note ok = channel_stream_ok [OF st this]
    show ?thesis
    proof (cases "told_to_move ce r")
      case True
      then have res: "res = Some (Inl ErrWindowMoved)" by (rule ok(3))
      obtain rs fin w2 where rest: "channel_rounds d ce env cs (rd_files r) w1 = (rs, fin, w2)" by (metis prod_cases3)
      obtain ws where ws: "hd ws = w1" "stayed d ce env cs ws rs fin w2" using Cons.IH [OF rest] Cons.prems(2) by auto
      have "streams = (sid, r) # rs \<and> returned = fin \<and> w' = w2"
        using Cons.prems(1) wait sub st res rest by simp
      then show ?thesis using stayed_Cons [OF _ True ws(2)] here ws(1) by (intro exI [of _ "w # ws"]) auto
    next
      case False
      then have "\<not> (\<exists>e. res = Some (Inl e) \<and> err_is e ErrWindowMoved)" using ok(2) by blast
      then have "streams = [(sid, r)]" using Cons.prems(1) wait sub st by (auto split: option.splits sum.splits)
      then show ?thesis using stayed_last [OF here False] by (intro exI [of _ "[w, w1]"]) simp
    qed
  qed
qed

lemma channel_rounds_followed:
  assumes "channel_rounds d ce env cs fs w = (streams, returned, w')" and "\<forall>c \<in> set cs. plain_requests (cr_attempts c)"
  shows "followed ce cs fs streams"
  using assms
proof (induction cs arbitrary: fs w streams returned w')
  case (Cons c cs)
  let ?wait = "waitForSubject (reuseIdentity (dp_NewClient d)) (\<lambda>env. beside (dp_Do d env)) (\<lambda>(w, known). (dp_Close d w, known)) env (cr_waits c) w"
  let ?watched = "env_ClaudePID env \<noteq> 0 \<and> ce_alive ce"
  have none: "followed ce (c # cs) fs []" by (simp add: followed_def)
  obtain sub ds w1 where wait: "?wait = (sub, ds, w1)" by (metis prod_cases3)
  show ?case
  proof (cases "sub = None \<or> fst (the sub) = []")
    case True
    then show ?thesis using Cons.prems(1) wait none by (cases sub) auto
  next
    case False
    then obtain sid port where sub: "sub = Some (sid, port)" "sid \<noteq> []" by (cases sub) auto
    obtain res r where st: "channel_stream ce ?watched c sid port fs = (res, r)" by fastforce
    have "plain_requests (cr_attempts c)" using Cons.prems(2) by simp
    note ok = channel_stream_ok [OF st this]
    have one: "followed ce (c # cs) fs [(sid, r)]"
      by (rule followed_Cons [OF ok(1) sub(2)]) (simp_all add: followed_def)
    show ?thesis
    proof (cases "\<exists>e. res = Some (Inl e) \<and> err_is e ErrWindowMoved")
      case True
      then obtain e where e: "res = Some (Inl e)" "err_is e ErrWindowMoved" by blast
      obtain rs fin w2 where rest: "channel_rounds d ce env cs (rd_files r) w1 = (rs, fin, w2)" by (metis prod_cases3)
      have "followed ce cs (rd_files r) rs" using Cons.IH [OF rest] Cons.prems(2) by simp
      then show ?thesis using followed_Cons [OF ok(1) sub(2)] ok(2) [OF e(1)] e rest Cons.prems(1) wait sub st by auto
    next
      case False
      then have "streams = [(sid, r)]" using Cons.prems(1) wait sub st by (auto split: option.splits sum.splits)
      then show ?thesis using one by simp
    qed
  qed
qed (simp add: followed_def)

text \<open>
  C35: The channel follows its window and pushes what it should. Whatever the connections carry
  and whichever pushes fail, every stream but the last ended with the frame that says the
  window moved, that frame is the last call of its stream and is never pushed, and nothing is
  pushed that the consumer does not admit. Every stream runs on the subject the poll before it
  found. After a stream that was told to move, and at the start, the channel always polls for its
  subject again: it returns then only when the context is cancelled during that poll, and
  otherwise is still running when the inputs end. A stream whose connections serve the log of its
  subject pushed, in order and each once, exactly the admitted ones of the first \<open>k\<close> events
  past its cursor, which it read from the file the streams before left.
\<close>

theorem channel_follows_window:
  assumes "streamToChannel d ce session scope cs fs w = (streams, returned, w')"
    and "\<forall>c \<in> set cs. plain_requests (cr_attempts c)"
  shows "length streams \<le> length cs \<and>
    (\<forall>i < length streams. stream_ok ce (cs ! i) (fst (streams ! i)) (files_before fs streams i) (snd (streams ! i)) \<and>
       fst (streams ! i) \<noteq> [] \<and> (Suc i < length streams \<longrightarrow> told_to_move ce (snd (streams ! i)))) \<and>
    (\<exists>ws. hd ws = (w, False) \<and> stayed d ce (resolve_env session scope (dp_ClaudePID d) ChannelConsumer) cs ws streams returned w')"
  using channel_rounds_followed [OF assms(1) [unfolded streamToChannel_def] assms(2)]
    channel_rounds_stayed [OF assms(1) [unfolded streamToChannel_def] assms(2)] by (simp add: followed_def)

text \<open>A first stream that is told to move, and a second that is broken off after one event.\<close>

definition sample_typ :: "string \<Rightarrow> string" where
  "sample_typ data = (if data = windowMovedPayload then TypeWindowMoved else ''note'')"

definition sample_channel_round :: "string \<Rightarrow> bool \<Rightarrow> channel_round" where
  "sample_channel_round body ctx = \<lparr>cr_waits = [\<lparr>pw_ctxBefore = False, pw_ctxWaiting = False\<rparr>], cr_mkdir = None, cr_readCursor = None,
     cr_attempts = [\<lparr>at_ctxBefore = False, at_aliveBefore = True, at_conn = \<lambda>_ _. Response 200 body, at_ctxAfter = ctx, at_aliveAfter = True,
       at_refresh = None, at_ctxWaiting = False\<rparr>], cr_pushes = (\<lambda>_. True), cr_writes = []\<rparr>"

definition sample_channel_rounds :: "channel_round list" where
  "sample_channel_rounds = [sample_channel_round (''data: '' @ windowMovedPayload @ [CHR 0x0A, CHR 0x0A]) False,
     sample_channel_round (''id: 1'' @ [CHR 0x0A] @ ''data: {1}'' @ [CHR 0x0A, CHR 0x0A]) True]"

definition sample_channel_env :: channel_env where
  "sample_channel_env = \<lparr>ce_stateDir = ''st'', ce_alive = False, ce_typ = sample_typ, ce_channelEvent = None\<rparr>"

theorem channel_follows_window_witness:
  "\<exists>streams w'. streamToChannel sample_watch_deps sample_channel_env ''sess'' ''repo'' sample_channel_rounds (\<lambda>_. None) () = (streams, True, w') \<and>
     length streams = 2 \<and> told_to_move sample_channel_env (snd (streams ! 0)) \<and>
     (\<forall>p \<in> set (pushed sample_typ None (rd_calls (snd (streams ! 1)))). p \<noteq> windowMovedPayload)"
proof -
  let ?run = "streamToChannel sample_watch_deps sample_channel_env ''sess'' ''repo'' sample_channel_rounds (\<lambda>_. None) ()"
  obtain streams returned w' where run: "?run = (streams, returned, w')" by (metis prod_cases3)
  have "(length (fst ?run), fst (snd ?run)) = (2, True)" by code_simp
  then have two: "length streams = 2" "returned" using run by simp_all
  have "\<forall>c \<in> set sample_channel_rounds. plain_requests (cr_attempts c)"
    by (simp add: sample_channel_rounds_def sample_channel_round_def plain_requests_def)
  note all = conjunct1 [OF conjunct2 [OF channel_follows_window [OF run this]], rule_format]
  have tell: "told_to_move sample_channel_env (snd (streams ! 0))" using all [of 0] two(1) by simp
  have "\<forall>p \<in> set (pushed sample_typ None (rd_calls (snd (streams ! 1)))). admitted sample_typ None p"
    using conjunct1 [OF all [of 1]] two(1) by (simp add: stream_ok_def sample_channel_env_def)
  moreover have "sample_typ windowMovedPayload = TypeWindowMoved" by (simp add: sample_typ_def)
  ultimately have push: "\<forall>p \<in> set (pushed sample_typ None (rd_calls (snd (streams ! 1)))). p \<noteq> windowMovedPayload"
    unfolding admitted_def by metis
  have "?run = (streams, True, w')" using run two(2) by simp
  then show ?thesis by (intro exI [of _ streams] exI [of _ w'] conjI two(1) tell push)
qed

end
