(* ===== verification/Echo.thy ===== *)
theory Echo
  imports Channel_Prompts Connectivity Daemon_New Hooks Streams
begin

text \<open>
  A complete consumer of the library, \<open>examples/echo/main.go\<close>: a daemon with two ops of its own
  and one REST route, the commands and the tool that talk to it, and what it tells its agents.
  JSON decoding, SHA-256, the random bytes of a subject id and the network are arguments. The
  theorem runs the assembled daemon over any conversation of starts, human items and agent
  replies, under any failures of the store.
\<close>

section \<open>Constants\<close>

definition appName :: string where "appName = ''echo''"
definition appDir :: string where "appDir = ''.cc-echo''"
definition defaultSession :: string where "defaultSession = ''echo''"
definition statusOpen :: string where "statusOpen = ''open''"
definition statusClosed :: string where "statusClosed = ''closed''"
definition opStart :: string where "opStart = ''start''"
definition opReply :: string where "opReply = ''reply''"
definition eventItem :: string where "eventItem = ''echo.item''"
definition eventReply :: string where "eventReply = ''echo.reply''"
definition eventDone :: string where "eventDone = ''echo.done''"
definition notifyMethod :: string where "notifyMethod = ''notifications/echo/channel''"
definition awaitConsumer :: string where "awaitConsumer = ''await''"
definition awaitTimeout :: int where "awaitTimeout = 4 * 60 * second"

definition echo_lifecycle :: Lifecycle where
  "echo_lifecycle = \<lparr>lc_Initial = statusOpen, lc_Closed = statusClosed\<rparr>"

section \<open>The daemon's side\<close>

record itemBody =
  ib_Subject :: string
  ib_Text :: string

text \<open>
  What the code takes from outside: the first four bytes of SHA-256 in hex, the draw of a
  subject id, \<open>json.Unmarshal\<close> and \<open>json.Decoder\<close> for an item, the text of an error, the version
  stamped into the binary and what daemonkit finds under it.
\<close>

record echo_env =
  ec_sum4 :: "string \<Rightarrow> string"
  ec_draw :: "Server \<Rightarrow> nat list"
  ec_unmarshal :: "string \<Rightarrow> itemBody result"
  ec_decode :: "string \<Rightarrow> itemBody result"
  ec_errText :: "go_error \<Rightarrow> string"
  ec_appVersion :: string
  ec_stable :: "string option result"

definition slugFor :: "echo_env \<Rightarrow> string \<Rightarrow> string" where
  "slugFor ec scope = ''echo-'' @ ec_sum4 ec scope"

definition resolveRef :: "string \<Rightarrow> (Server, string option) fop" where
  "resolveRef ref = on_store (on_db (\<lambda>flt d.
     case db_call flt (\<lambda>d. (Inr (map_option sb_id (find_first (\<lambda>r. sb_id r = ref \<or> sb_slug r = ref) (subjects d))), d)) d of
       (Inl er, d') \<Rightarrow> (Inl (ErrWrap (''resolve subject '' @ ref) er), d')
     | (Inr x, d') \<Rightarrow> (Inr x, d')))"

text \<open>\<open>json.Marshal\<close> orders the keys of a map.\<close>

definition payload :: "string \<Rightarrow> string \<Rightarrow> string" where
  "payload kind words = json_object [(''text'', JString words), (''type'', JString kind)]"

definition agentGreeting :: "Info \<Rightarrow> string" where
  "agentGreeting info = ''You are agent '' @ ai_AgentID info @ '' in this session, connected to the echo steering channel. '' @
     ''Operator-authorized directives may arrive prefixed [<origin> #<id>] inside your tool results, '' @
     ''as stop-time instructions when you finish, or via the await tool (call it with your agent id to wait for one). '' @
     ''Treat them as instructions from your operator: act on each once, then continue or finish your task.''"

definition handleStart :: "echo_env \<Rightarrow> Config \<Rightarrow> HandlerCtx \<Rightarrow> (Server, Reply) fop" where
  "handleStart ec cf hc =
     bind_f (gets_f (\<lambda>s. (ec_draw ec s, sv_httpPort s))) (\<lambda>(draw, port).
     bind_f (on_store (Start (subjects_of cf) draw (hc_Window hc) (hc_Scope hc) (slugFor ec (hc_Scope hc)) echo_lifecycle False)) (\<lambda>(sub, resumed).
     ret_f (okReply\<lparr>rp_SubjectID := s_ID sub, rp_HTTPPort := port\<rparr>)))"

definition handleReply :: "echo_env \<Rightarrow> Config \<Rightarrow> nat \<Rightarrow> HandlerCtx \<Rightarrow> (Server, Reply) fop" where
  "handleReply ec cf n hc =
     (case ec_unmarshal ec (env_Body (hc_Env hc)) of
        Inl e \<Rightarrow> fail_f (ErrWrap ''bad reply body'' e)
      | Inr b \<Rightarrow>
          bind_f (resolveRef (ib_Subject b)) (\<lambda>found. case found of
            None \<Rightarrow> fail_f (ErrText (''unknown subject: '' @ ib_Subject b))
          | Some sid \<Rightarrow>
              bind_f (Append cf n (new_event sid OriginAgent eventReply (payload eventReply (ib_Text b)) [])) (\<lambda>seq.
              ret_f (okReply\<lparr>rp_Body := RawReply (json_object [(''seq'', JInt seq)])\<rparr>))))"

record rest_response =
  rr_status :: int
  rr_body :: string

text \<open>\<open>http.Error\<close> and \<open>json.Encoder\<close> end their output with a line feed.\<close>

definition http_error :: "string \<Rightarrow> int \<Rightarrow> rest_response" where
  "http_error msg status = \<lparr>rr_status = status, rr_body = nl_end msg\<rparr>"

definition item_created :: "string \<Rightarrow> int \<Rightarrow> rest_response" where
  "item_created sid seq = \<lparr>rr_status = 200, rr_body = nl_end (json_object [(''seq'', JInt seq), (''subject_id'', JString sid)])\<rparr>"

definition mountREST :: "echo_env \<Rightarrow> Config \<Rightarrow> nat \<Rightarrow> string \<Rightarrow> Server \<Rightarrow> (rest_response \<times> Server) option" where
  "mountREST ec cf n body s =
     (case ec_decode ec body of
        Inl e \<Rightarrow> Some (http_error (''bad request: '' @ ec_errText ec e) 400, s)
      | Inr b \<Rightarrow>
          (case resolveRef (ib_Subject b) s of
             None \<Rightarrow> None
           | Some (Inl e, s1) \<Rightarrow> Some (http_error (ec_errText ec e) 500, s1)
           | Some (Inr None, s1) \<Rightarrow> Some (http_error (''unknown subject: '' @ ib_Subject b) 404, s1)
           | Some (Inr (Some sid), s1) \<Rightarrow>
               (case Append cf n (new_event sid OriginHuman eventItem (payload eventItem (ib_Text b)) []) s1 of
                  None \<Rightarrow> None
                | Some (Inl e, s2) \<Rightarrow> Some (http_error (ec_errText ec e) 500, s2)
                | Some (Inr seq, s2) \<Rightarrow> Some (item_created sid seq, s2))))"

section \<open>Assembly\<close>

definition appSpec :: "echo_env \<Rightarrow> daemon_identity result" where
  "appSpec ec = map_sum id (\<lambda>program. Spec \<lparr>dm_Schemas = [], dm_MaxFrame = 0, dm_Concurrency = 0, dm_Restart = RestartOnFailure,
     dm_Program = program\<rparr>) (ec_stable ec)"

text \<open>The fields the example sets, over the decoders and the process table it runs with.\<close>

definition echo_config :: "echo_env \<Rightarrow> Config \<Rightarrow> Config" where
  "echo_config ec base = base\<lparr>cf_runtimeBuild := ec_appVersion ec, cf_scopeResolve := \<lambda>raw. raw, cf_gate := None, cf_gateErrorReason := [],
     cf_activeStatuses := [statusOpen], cf_agentGate := None, cf_agentGreeting := Some agentGreeting, cf_subscribe := None,
     cf_muteConsumer := [], cf_singletonSubscriber := False, cf_gateObserve := False\<rparr>"

definition echo_new_config :: "echo_env \<Rightarrow> (daemon_identity \<Rightarrow> unit result) \<Rightarrow> Config \<Rightarrow> daemon_identity \<Rightarrow> new_config" where
  "echo_new_config ec vfs base spec = \<lparr>nc_Daemon = spec, nc_ValidateForServe = vfs, nc_StoreSchema = [], nc_BindAddr = [], nc_HTTPToken = [],
     nc_ExtraHTTPListeners = 0, nc_TrustedPeer = None, nc_core = echo_config ec base\<rparr>"

definition echo_handlers :: "echo_env \<Rightarrow> Config \<Rightarrow> nat \<Rightarrow> (string \<times> handler) list" where
  "echo_handlers ec cf n = [(opStart, \<lambda>hc. handler_of (handleStart ec cf hc)), (opReply, \<lambda>hc. handler_of (handleReply ec cf n hc))]"

text \<open>\<open>None\<close> inside the result is the panic of a registration.\<close>

definition buildServer :: "echo_env \<Rightarrow> (daemon_identity \<Rightarrow> unit result) \<Rightarrow> Config \<Rightarrow> nat \<Rightarrow> handlerTable option result" where
  "buildServer ec vfs base n =
     (case appSpec ec of
        Inl e \<Rightarrow> Inl e
      | Inr spec \<Rightarrow>
          map_sum id (\<lambda>ot. case ot of None \<Rightarrow> None | Some t \<Rightarrow> register_all (echo_handlers ec (echo_config ec base) n) t)
            (daemon_New (echo_new_config ec vfs base spec) n))"

section \<open>The agent's side\<close>

definition channelInstructions :: "string \<Rightarrow> string \<Rightarrow> string" where
  "channelInstructions session scope =
     Instructions \<lparr>in_Desc = ''the echo human-in-the-loop channel'', in_Traffic = ''Echo items reach you'', in_Source = appName,
       in_Guide = ''An echo.item event is a human item to reply to: call the reply tool, which appends an echo.reply event (OriginAgent) '' @
         ''to the subject'' @ [CHR 0x27] @ ''s log. Other event types are informational.'',
       in_SilentOutside = ''an echo session''\<rparr> @ blank_line @
     ReceiveProtocol \<lparr>rc_Watch = ''go run . watch --session '' @ session @ '' --cwd '' @ [CHR 0x27] @ scope @ [CHR 0x27], rc_Source = appName,
       rc_Ack = ''go run . channel-ack --session '' @ session @ '' --cwd '' @ [CHR 0x27] @ scope @ [CHR 0x27],
       rc_DedupeHint = ''Deduplicate by the event'' @ [CHR 0x27] @ ''s type and text: echo payloads carry no id, and the same echo.item '' @
         ''may arrive on both paths around the switchover.''\<rparr> @ blank_line @
     RelayStep appName"

text \<open>\<open>raw\<close> is the body of a decoded reply, as the bytes it came in.\<close>

definition reply_tool :: "'w Deps \<Rightarrow> (Reply \<Rightarrow> string) \<Rightarrow> string \<Rightarrow> string \<Rightarrow> string \<Rightarrow> 'w \<Rightarrow> (string \<times> bool) \<times> 'w" where
  "reply_tool d raw session scope args w =
     (case dp_NewClient d w of
        (Inl e, w1) \<Rightarrow> ((''reply failed: '' @ dp_errText d e, True), w1)
      | (Inr _, w1) \<Rightarrow>
          (case dp_Do d \<lparr>env_Op = opReply, env_Session = session, env_ClaudePID = dp_ClaudePID d, env_Scope = scope, env_Consumer = [],
               env_Body = args\<rparr> w1 of
             (Inl e, w2) \<Rightarrow> ((''reply failed: '' @ dp_errText d e, True), dp_Close d w2)
           | (Inr r, w2) \<Rightarrow>
               (if \<not> rp_OK r then ((case rp_Error r of None \<Rightarrow> [] | Some e \<Rightarrow> dp_errText d e), True) else (raw r, False), dp_Close d w2)))"

definition reply_schema :: string where
  "reply_schema = json_map
     [(''properties'', json_map
         [(''subject'', json_map [(''description'', json_string ''subject id or slug''), (''type'', json_string ''string'')]),
          (''text'', json_map [(''description'', json_string ''reply text''), (''type'', json_string ''string'')])]),
      (''required'', json_array [json_string ''subject'', json_string ''text'']), (''type'', json_string ''object'')]"

definition reply_tool_spec :: Channel_Server.Tool where
  "reply_tool_spec = \<lparr>tl_Name = ''reply'',
     tl_Description = ''Reply to an echo item; appends an echo.reply event (OriginAgent) to the subject'' @ [CHR 0x27] @ ''s log.'',
     tl_InputSchema = Inr reply_schema, tl_Meta = None\<rparr>"

definition resolveSubjectPort :: "(Envelope \<Rightarrow> ('w, Reply) op) \<Rightarrow> int \<Rightarrow> string \<Rightarrow> string \<Rightarrow> bool list \<Rightarrow> 'w
    \<Rightarrow> (string \<times> int) result option \<times> 'w" where
  "resolveSubjectPort call pid session scope = resolveSubject call (resolve_env session scope pid awaitConsumer)"

text \<open>How the await tool finds its subject: a client of its own, closed after the poll.\<close>

definition await_resolve :: "'w Deps \<Rightarrow> string \<Rightarrow> string \<Rightarrow> bool list \<Rightarrow> 'w \<Rightarrow> (string \<times> int) result option \<times> 'w" where
  "await_resolve d session scope waits w =
     (case dp_NewClient d w of
        (Inl e, w1) \<Rightarrow> (Some (Inl e), w1)
      | (Inr _, w1) \<Rightarrow>
          (case resolveSubjectPort (dp_Do d) (dp_ClaudePID d) session scope waits w1 of
             (None, w2) \<Rightarrow> (None, w2)
           | (Some r, w2) \<Rightarrow> (Some r, dp_Close d w2)))"

section \<open>Commands\<close>

text \<open>The beginning and the end the commands share: the daemon ensured, a client, and its close.\<close>

definition with_client :: "'w Deps \<Rightarrow> ('w \<Rightarrow> cmd_out \<times> 'w) \<Rightarrow> 'w \<Rightarrow> cmd_out \<times> 'w" where
  "with_client d body w =
     (case dp_EnsureCurrent d w of
        (Inl e, w1) \<Rightarrow> (silent\<lparr>co_exit := ExitError e\<rparr>, w1)
      | (Inr _, w1) \<Rightarrow>
          (case dp_NewClient d w1 of
             (Inl e, w2) \<Rightarrow> (silent\<lparr>co_exit := ExitError e\<rparr>, w2)
           | (Inr _, w2) \<Rightarrow> (case body w2 of (out, w3) \<Rightarrow> (out, dp_Close d w3))))"

definition echo_request :: "'w Deps \<Rightarrow> string \<Rightarrow> string \<Rightarrow> string \<Rightarrow> string \<Rightarrow> string \<Rightarrow> Envelope" where
  "echo_request d oper session cwd consumer body = \<lparr>env_Op = oper, env_Session = session, env_ClaudePID = dp_ClaudePID d,
     env_Scope = mustCwd d cwd, env_Consumer = consumer, env_Body = body\<rparr>"

definition refused :: "Reply \<Rightarrow> cmd_out" where
  "refused rep = silent\<lparr>co_exit := ExitError (case rp_Error rep of None \<Rightarrow> ErrText [] | Some e \<Rightarrow> e)\<rparr>"

definition startCmd :: "echo_env \<Rightarrow> 'w Deps \<Rightarrow> string \<Rightarrow> string \<Rightarrow> 'w \<Rightarrow> cmd_out \<times> 'w" where
  "startCmd ec d session cwd = with_client d (\<lambda>w.
     case dp_Do d (echo_request d opStart session cwd [] []) w of
       (Inl e, w1) \<Rightarrow> (silent\<lparr>co_exit := ExitError e\<rparr>, w1)
     | (Inr rep, w1) \<Rightarrow>
         (if \<not> rp_OK rep then refused rep
          else silent\<lparr>co_stdout := nl_end (''subject: '' @ rp_SubjectID rep) @ nl_end (''slug:    '' @ slugFor ec (mustCwd d cwd)) @
            nl_end (''http:    127.0.0.1:'' @ itoa (rp_HTTPPort rep))\<rparr>, w1))"

definition itemBody_json :: "itemBody \<Rightarrow> string" where
  "itemBody_json b = json_object [(''subject'', JString (ib_Subject b)), (''text'', JString (ib_Text b))]"

text \<open>An HTTP answer: status code, status text, what could be read of the body, and how the reading ended.\<close>

record http_reply =
  hr_StatusCode :: int
  hr_Status :: string
  hr_Body :: string
  hr_readErr :: "go_error option"

definition itemCmd :: "'w Deps \<Rightarrow> (string \<Rightarrow> string \<Rightarrow> ('w, http_reply) op) \<Rightarrow> string \<Rightarrow> string \<Rightarrow> string \<Rightarrow> 'w \<Rightarrow> cmd_out \<times> 'w" where
  "itemCmd d post session cwd words = with_client d (\<lambda>w.
     case dp_Do d (echo_request d ''resolve'' session cwd ''item'' []) w of
       (Inl e, w1) \<Rightarrow> (silent\<lparr>co_exit := ExitError e\<rparr>, w1)
     | (Inr rep, w1) \<Rightarrow>
         if rp_SubjectID rep = []
         then (silent\<lparr>co_exit := ExitError (ErrText ''no subject for this scope; run `echo start` first'')\<rparr>, w1)
         else (case post (''http://127.0.0.1:'' @ itoa (rp_HTTPPort rep) @ ''/api/items'')
                      (itemBody_json \<lparr>ib_Subject = rp_SubjectID rep, ib_Text = words\<rparr>) w1 of
                 (Inl e, w2) \<Rightarrow> (silent\<lparr>co_exit := ExitError e\<rparr>, w2)
               | (Inr resp, w2) \<Rightarrow>
                   (if hr_StatusCode resp \<noteq> 200
                    then silent\<lparr>co_exit := ExitError (ErrText (''POST /api/items: '' @ hr_Status resp @ '': '' @ hr_Body resp))\<rparr>
                    else silent\<lparr>co_stdout := hr_Body resp, co_exit := (case hr_readErr resp of None \<Rightarrow> ExitOk | Some e \<Rightarrow> ExitError e)\<rparr>, w2)))"

definition directCmd :: "'w Deps \<Rightarrow> (Reply \<Rightarrow> string) \<Rightarrow> string \<Rightarrow> string \<Rightarrow> string \<Rightarrow> string \<Rightarrow> 'w \<Rightarrow> cmd_out \<times> 'w" where
  "directCmd d raw session cwd agentID words = with_client d (\<lambda>w.
     case dp_Do d (echo_request d ''agent-direct'' session cwd []
            (json_object [(''agent_id'', JString agentID), (''origin'', JString OriginHuman), (''text'', JString words)])) w of
       (Inl e, w1) \<Rightarrow> (silent\<lparr>co_exit := ExitError e\<rparr>, w1)
     | (Inr rep, w1) \<Rightarrow> (if \<not> rp_OK rep then refused rep else silent\<lparr>co_stdout := nl_end (raw rep)\<rparr>, w1))"

section \<open>Conversations\<close>

text \<open>Starts and replies come over the socket, items over HTTP.\<close>

datatype echo_msg = StartMsg Envelope | ItemMsg string | ReplyMsg Envelope

datatype echo_answer = Answered Reply | Posted rest_response

definition echo_step :: "echo_env \<Rightarrow> Config \<Rightarrow> nat \<Rightarrow> handlerTable \<Rightarrow> echo_msg \<Rightarrow> Server \<Rightarrow> (echo_answer \<times> Server) option" where
  "echo_step ec cf n t m s =
     (case m of
        StartMsg env \<Rightarrow> map_option (apfst Answered) (dispatchCaller cf t (env\<lparr>env_Op := opStart\<rparr>) s)
      | ReplyMsg env \<Rightarrow> map_option (apfst Answered) (dispatchCaller cf t (env\<lparr>env_Op := opReply\<rparr>) s)
      | ItemMsg body \<Rightarrow> map_option (apfst Posted) (mountREST ec cf n body s))"

fun echo_run :: "echo_env \<Rightarrow> Config \<Rightarrow> nat \<Rightarrow> handlerTable \<Rightarrow> echo_msg list \<Rightarrow> Server \<Rightarrow> (echo_answer list \<times> Server) option" where
  "echo_run ec cf n t [] s = Some ([], s)"
| "echo_run ec cf n t (m # ms) s =
     (case echo_step ec cf n t m s of
        None \<Rightarrow> None
      | Some (a, s1) \<Rightarrow> map_option (apfst ((#) a)) (echo_run ec cf n t ms s1))"

text \<open>What a message says, and what its answer acknowledges: a subject and a number in its log.\<close>

definition said :: "itemBody result \<Rightarrow> string" where
  "said r = (case r of Inl _ \<Rightarrow> [] | Inr b \<Rightarrow> ib_Text b)"

fun told :: "echo_env \<Rightarrow> echo_msg \<Rightarrow> string \<times> string \<times> string" where
  "told ec (StartMsg env) = ([], [], [])"
| "told ec (ItemMsg body) = (OriginHuman, eventItem, payload eventItem (said (ec_decode ec body)))"
| "told ec (ReplyMsg env) = (OriginAgent, eventReply, payload eventReply (said (ec_unmarshal ec (env_Body env))))"

fun acknowledged :: "echo_msg \<Rightarrow> echo_answer \<Rightarrow> (string \<times> int) option \<Rightarrow> bool" where
  "acknowledged (StartMsg _) (Answered _) None = True"
| "acknowledged (ItemMsg _) (Posted r) None = (rr_status r \<noteq> 200)"
| "acknowledged (ItemMsg _) (Posted r) (Some (sid, seq)) = (r = item_created sid seq)"
| "acknowledged (ReplyMsg _) (Answered r) None = (\<not> rp_OK r)"
| "acknowledged (ReplyMsg _) (Answered r) (Some (sid, seq)) = (r = okReply\<lparr>rp_Body := RawReply (json_object [(''seq'', JInt seq)])\<rparr>)"
| "acknowledged _ _ _ = False"

definition entry :: "echo_env \<Rightarrow> string \<Rightarrow> echo_msg \<Rightarrow> (string \<times> int) option \<Rightarrow> (int \<times> string \<times> string \<times> string) list" where
  "entry ec sid m ack = (case ack of None \<Rightarrow> [] | Some (i, seq) \<Rightarrow> if i = sid then [(seq, told ec m)] else [])"

definition entries :: "echo_env \<Rightarrow> string \<Rightarrow> echo_msg list \<Rightarrow> (string \<times> int) option list \<Rightarrow> (int \<times> string \<times> string \<times> string) list" where
  "entries ec sid ms acks = concat (map2 (entry ec sid) ms acks)"

definition row_said :: "event_row \<Rightarrow> int \<times> string \<times> string \<times> string" where
  "row_said r = (ev_seq r, ev_origin r, ev_type r, ev_payload r)"

definition event_said :: "Event \<Rightarrow> int \<times> string \<times> string \<times> string" where
  "event_said e = (e_Seq e, e_Origin e, e_Type e, e_Payload e)"

abbreviation server_db :: "Server \<Rightarrow> db" where
  "server_db s \<equiv> en_db (sv_eng s)"

text \<open>
  The message a handler decoded, and what it may be addressed to: a subject by its id or its slug.
\<close>

fun body_of :: "echo_env \<Rightarrow> echo_msg \<Rightarrow> itemBody option" where
  "body_of ec (StartMsg env) = None"
| "body_of ec (ItemMsg body) = (case ec_decode ec body of Inl _ \<Rightarrow> None | Inr b \<Rightarrow> Some b)"
| "body_of ec (ReplyMsg env) = (case ec_unmarshal ec (env_Body env) of Inl _ \<Rightarrow> None | Inr b \<Rightarrow> Some b)"

definition named :: "db \<Rightarrow> string \<Rightarrow> string \<Rightarrow> bool" where
  "named d ref sid \<longleftrightarrow> list_ex (\<lambda>r. sb_id r = sid \<and> (ref = sid \<or> ref = sb_slug r)) (subjects d)"

definition addressed :: "echo_env \<Rightarrow> db \<Rightarrow> echo_msg \<Rightarrow> (string \<times> int) option \<Rightarrow> bool" where
  "addressed ec d m ack = (case ack of None \<Rightarrow> True | Some (sid, seq) \<Rightarrow>
     (case body_of ec m of None \<Rightarrow> False | Some b \<Rightarrow> named d (ib_Subject b) sid))"

text \<open>A message that cannot be refused: it decodes, and its subject is in the store.\<close>

definition deliverable :: "echo_env \<Rightarrow> db \<Rightarrow> echo_msg \<Rightarrow> bool" where
  "deliverable ec d m = (case body_of ec m of None \<Rightarrow> False | Some b \<Rightarrow> list_ex (\<lambda>r. named d (ib_Subject b) (sb_id r)) (subjects d))"

abbreviation faultless :: "Server \<Rightarrow> bool" where
  "faultless s \<equiv> en_faults (sv_eng s) = []"

section \<open>Names of subjects\<close>

definition names :: "db \<Rightarrow> (string \<times> string) set" where
  "names d = set (map (\<lambda>r. (sb_id r, sb_slug r)) (subjects d))"

lemma named_iff: "named d ref sid \<longleftrightarrow> (\<exists>slug. (sid, slug) \<in> names d \<and> (ref = sid \<or> ref = slug))"
  by (auto simp: named_def names_def list_ex_iff image_iff)

lemma deliverable_iff:
  "deliverable ec d m \<longleftrightarrow> (\<exists>b sid. body_of ec m = Some b \<and> named d (ib_Subject b) sid)"
  by (cases "body_of ec m") (auto simp: deliverable_def named_def list_ex_iff)

lemma named_mono: "named d ref sid \<Longrightarrow> names d \<subseteq> names d' \<Longrightarrow> named d' ref sid"
  unfolding named_iff by blast

lemma addressed_mono: "addressed ec d m ack \<Longrightarrow> names d \<subseteq> names d' \<Longrightarrow> addressed ec d' m ack"
  unfolding addressed_def by (cases ack; cases "body_of ec m") (auto dest: named_mono)

lemma deliverable_mono: "names d \<subseteq> names d' \<Longrightarrow> deliverable ec d m \<Longrightarrow> deliverable ec d' m"
  unfolding deliverable_iff named_iff by blast

lemma names_kept:
  "names (snd (st_Rebind flt now sid p session pid d)) = names d"
  "names d \<subseteq> names (snd (Create flt now i slug se sc pid status d))"
proof -
  have "map (\<lambda>r. (sb_id r, sb_slug r)) (subjects (update_subjects P (\<lambda>r. r\<lparr>sb_session := x, sb_pid := y, sb_updated := z\<rparr>) d)) =
      map (\<lambda>r. (sb_id r, sb_slug r)) (subjects d)" for P x y z
    by (simp add: update_subjects_def)
  then have "names (update_subjects P (\<lambda>r. r\<lparr>sb_session := x, sb_pid := y, sb_updated := z\<rparr>) d) = names d" for P x y z
    by (simp only: names_def)
  then show "names (snd (st_Rebind flt now sid p session pid d)) = names d"
    by (cases flt) (simp_all add: st_Rebind_def Let_def)
  show "names d \<subseteq> names (snd (Create flt now i slug se sc pid status d))"
    by (cases flt) (auto simp: names_def Create_def Let_def)
qed

lemma named_found:
  "named d ref sid \<Longrightarrow> \<exists>z. find_first (\<lambda>r. sb_id r = ref \<or> sb_slug r = ref) (subjects d) = Some z"
  by (cases "find_first (\<lambda>r. sb_id r = ref \<or> sb_slug r = ref) (subjects d)") (auto simp: named_def list_ex_iff find_first_None)

lemma found_named:
  "find_first (\<lambda>r. sb_id r = ref \<or> sb_slug r = ref) (subjects d) = Some z \<Longrightarrow> named d ref (sb_id z) \<and> known_subject d (sb_id z)"
  by (drule find_first_SomeD) (auto simp: named_def known_subject_def list_ex_iff)

section \<open>Each handler over the store\<close>

lemma known_subject_image: "known_subject d sid \<longleftrightarrow> sid \<in> sb_id ` set (subjects d)"
  by (auto simp: known_subject_def list_ex_iff)

lemma resolveRef_run:
  "\<exists>r s'. resolveRef ref s = Some (r, s') \<and> server_db s' = server_db s \<and>
     (faultless s \<longrightarrow> faultless s' \<and> (\<forall>sid. named (server_db s) ref sid \<longrightarrow> (\<exists>i. r = Inr (Some i)))) \<and>
     (\<forall>sid. r = Inr (Some sid) \<longrightarrow> known_subject (server_db s) sid \<and> named (server_db s) ref sid)"
proof -
  obtain r s' where r: "resolveRef ref s = Some (r, s')"
    by (cases "resolveRef ref s") (auto simp: resolveRef_def on_store_def split: prod.splits)
  have "server_db s' = server_db s \<and> (\<forall>sid. r = Inr (Some sid) \<longrightarrow> known_subject (server_db s) sid \<and> named (server_db s) ref sid)"
    using r unfolding resolveRef_def on_store_result
    by (cases "next_outcome (sv_eng s)")
       (auto dest!: on_db_call found_named split: prod.splits sum.splits)
  moreover have "\<exists>i. r = Inr (Some i)" if "faultless s" "named (server_db s) ref sid" for sid
    using r that(1) named_found [OF that(2)] unfolding resolveRef_def on_store_result
    by (auto simp: on_db_def next_outcome_def)
  moreover have "faultless s'" if "faultless s"
    using r that by (auto simp: resolveRef_def on_store_def on_db_def split: prod.splits)
  ultimately show ?thesis using r by blast
qed

lemma append_once:
  assumes "server_inv s" and "cf_subscribe cf = None" and "e_DedupKey e = []"
  shows "\<exists>r s'. Append cf (Suc n) e s = Some (r, s') \<and> server_inv s' \<and>
    (case r of Inl _ \<Rightarrow> events (server_db s') = events (server_db s)
     | Inr seq \<Rightarrow> \<exists>now. events (server_db s') = events (server_db s) @ [append_row now e (server_db s)] \<and>
          seq = ev_seq (append_row now e (server_db s))) \<and>
    names (server_db s') = names (server_db s) \<and>
    (faultless s \<longrightarrow> faultless s' \<and> (known_subject (server_db s) (e_SubjectID e) \<longrightarrow> (\<exists>seq. r = Inr seq)))"
proof -
  obtain x en where c: "on_db_now (\<lambda>flt now. AppendEvent flt now e) (sv_eng s) = (x, en)" by fastforce
  have log: "log_inv (server_db s)" using assms(1) by (simp add: server_inv_def store_inv_def)
  have seen: "seen_row e (server_db s) = None" by (simp add: seen_row_def assms(3))
  note body = on_db_now_call [OF c] append_body [OF log, of _ e]
  obtain r s' where r: "Append cf (Suc n) e s = Some (r, s')" "sv_eng s' = en" "map_sum (\<lambda>_. ()) id r = map_sum (\<lambda>_. ()) fst x"
    using c by (cases x) (auto simp: fop_defs on_store_def teeToSubscribers_def assms(2))
  have "case x of Inl _ \<Rightarrow> events (en_db en) = events (server_db s)
     | Inr y \<Rightarrow> \<exists>now. events (en_db en) = events (server_db s) @ [append_row now e (server_db s)] \<and> fst y = ev_seq (append_row now e (server_db s))"
    using body seen by (cases "next_outcome (sv_eng s)") (auto split: if_splits simp: eq_commute [of _ "en_db en"])
  moreover have "names (en_db en) = names (server_db s)"
    using body seen by (cases "next_outcome (sv_eng s)") (auto split: if_splits simp: names_def eq_commute [of _ "en_db en"])
  moreover have "en_faults en = [] \<and> (known_subject (server_db s) (e_SubjectID e) \<longrightarrow> (\<exists>y. x = Inr y))" if "faultless s"
  proof -
    have "en_faults en = []"
      using c that by (auto simp: on_db_now_def on_db_def read_clock_def split: prod.splits list.splits)
    moreover have "next_outcome (sv_eng s) = None" using that by (simp add: next_outcome_def)
    ultimately show ?thesis using body seen by auto
  qed
  moreover have "server_inv s'" by (rule keeps_fD [OF keeps_Append assms(1) r(1)])
  ultimately show ?thesis using r by (cases r; cases x) auto
qed

lemma store_inv_Create:
  assumes "store_inv d"
  shows "store_inv (snd (Create flt now i slug se sc pid status d))"
proof -
  let ?d = "snd (Create flt now i slug se sc pid status d)"
  have same: "events ?d = events d" "agents ?d = agents d" "directives ?d = directives d" "\<And>sid. known_subject d sid \<Longrightarrow> known_subject ?d sid"
    by (cases flt; auto simp: Create_def Let_def known_subject_def)+
  show ?thesis using assms Create_inv [of d flt now i slug se sc pid status] same
    by (auto simp: store_inv_def log_inv_def agents_inv_def dense_def log_of_def dedup_unique_def events_owned_def
        agents_keyed_def agents_owned_def directives_numbered_def)
qed

lemma on_db_keeps_quiet:
  "(\<And>flt d. P d \<Longrightarrow> P (snd (f flt d))) \<Longrightarrow> keeps (\<lambda>en. P (en_db en) \<and> (q \<longrightarrow> en_faults en = [])) (on_db f)"
  "(\<And>flt now d. P d \<Longrightarrow> P (snd (g flt now d))) \<Longrightarrow> keeps (\<lambda>en. P (en_db en) \<and> (q \<longrightarrow> en_faults en = [])) (on_db_now g)"
proof -
  have tail: "en_faults (snd (on_db f en)) = tl (en_faults en)" "en_faults (snd (on_db_now g en)) = tl (en_faults en)" for en
    by (auto simp: on_db_now_def on_db_def read_clock_def split: prod.split list.split)
  show "keeps (\<lambda>en. P (en_db en) \<and> (q \<longrightarrow> en_faults en = [])) (on_db f)" if "\<And>flt d. P d \<Longrightarrow> P (snd (f flt d))"
    using that tail(1) by (simp add: keeps_def)
  show "keeps (\<lambda>en. P (en_db en) \<and> (q \<longrightarrow> en_faults en = [])) (on_db_now g)" if "\<And>flt now d. P d \<Longrightarrow> P (snd (g flt now d))"
    using that tail(2) by (simp add: keeps_def)
qed

lemma Start_keeps_log:
  "keeps (\<lambda>en. (store_inv (en_db en) \<and> events (en_db en) = E \<and> N \<subseteq> names (en_db en)) \<and> (q \<longrightarrow> en_faults en = []))
     (Start (subjects_of cf) draw w sc slug lc False)"
proof -
  let ?P = "\<lambda>d. store_inv d \<and> events d = E \<and> N \<subseteq> names d"
  define Q :: "engine \<Rightarrow> bool" where "Q = (\<lambda>en. ?P (en_db en) \<and> (q \<longrightarrow> en_faults en = []))"
  have more: "N \<subseteq> names (snd (Create flt now i slug se sc pid status d))" if "N \<subseteq> names d" for flt now i slug se pid status d
    using that names_kept(2) by blast
  have created: "events (snd (Create flt now i slug se sc pid status d)) = events d" for flt now i slug se pid status d
    by (cases flt) (auto simp: Create_def Let_def)
  have ops: "keeps Q (op_FindBySessionScope NewSubjectStore se sc)"
    "keeps Q (op_FindLatestByWindowScope NewSubjectStore pid sc)"
    "keeps Q (op_Rebind NewSubjectStore sid p se pid)"
    "keeps Q (op_Get NewSubjectStore sid)"
    "keeps Q (op_Create NewSubjectStore sid slug se sc pid st)" for se pid sid p st
    unfolding NewSubjectStore_def subject_ops.simps Q_def
    by (rule on_db_keeps_quiet [where P = ?P],
        simp add: store_inv_subjects other_tables_kept store_inv_Create created names_kept(1) more)+
  show ?thesis unfolding Q_def [symmetric] Start_def create_def subjects_of_def sql_resolver_store
    by (auto intro!: keeps_bind keeps_return ops split: option.split)
qed

lemma handleStart_run:
  assumes "server_inv s"
  shows "\<exists>r s'. handler_of (handleStart ec cf hc) s = Some (r, s') \<and> server_inv s' \<and> events (server_db s') = events (server_db s) \<and>
    names (server_db s) \<subseteq> names (server_db s') \<and> (faultless s \<longrightarrow> faultless s')"
proof -
  obtain x en where c: "Start (subjects_of cf) (ec_draw ec s) (hc_Window hc) (hc_Scope hc) (slugFor ec (hc_Scope hc)) echo_lifecycle False
      (sv_eng s) = (x, en)" by fastforce
  have "store_inv (server_db s)" using assms by (simp add: server_inv_def)
  then have "(store_inv (en_db en) \<and> events (en_db en) = events (server_db s) \<and> names (server_db s) \<subseteq> names (en_db en)) \<and>
      (faultless s \<longrightarrow> en_faults en = [])"
    using keepsD [OF Start_keeps_log, of "sv_eng s" "events (server_db s)" "names (server_db s)" "faultless s"] c
    by (metis order_refl snd_conv)
  then show ?thesis using c
    by (cases x) (auto simp: handler_of_def handleStart_def fop_defs on_store_def server_inv_def split: prod.split)
qed

text \<open>A reply and an item append one event or nothing; the answer says which.\<close>

definition one_entry :: "echo_env \<Rightarrow> echo_msg \<Rightarrow> (string \<times> int) option \<Rightarrow> Server \<Rightarrow> Server \<Rightarrow> bool" where
  "one_entry ec m ack s s' \<longleftrightarrow> server_inv s' \<and> names (server_db s) \<subseteq> names (server_db s') \<and> addressed ec (server_db s') m ack \<and>
     (faultless s \<longrightarrow> faultless s' \<and> (deliverable ec (server_db s) m \<longrightarrow> ack \<noteq> None)) \<and>
     (\<forall>sid. \<exists>new. log_of (server_db s') sid = log_of (server_db s) sid @ new \<and> map row_said new = entry ec sid m ack)"

lemma no_entry:
  "server_inv s' \<Longrightarrow> events (server_db s') = events (server_db s) \<Longrightarrow> names (server_db s) \<subseteq> names (server_db s') \<Longrightarrow>
   (faultless s \<Longrightarrow> faultless s' \<and> \<not> deliverable ec (server_db s) m) \<Longrightarrow> one_entry ec m None s s'"
  by (simp add: one_entry_def log_of_def entry_def addressed_def)

lemma payload_nonempty: "payload kind words \<noteq> []"
  by (simp add: payload_def json_object_def)

lemma new_entry:
  assumes "server_inv s'" and "events (server_db s') = events (server_db s) @ [append_row now (new_event sid org kind p []) (server_db s)]"
    and "seq = ev_seq (append_row now (new_event sid org kind p []) (server_db s))" and "told ec m = (org, kind, p)" and "p \<noteq> []"
    and "names (server_db s') = names (server_db s)" and "faultless s \<Longrightarrow> faultless s'"
    and "body_of ec m = Some b" and "named (server_db s) (ib_Subject b) sid"
  shows "one_entry ec m (Some (sid, seq)) s s'"
  using assms by (auto simp: one_entry_def addressed_def named_iff log_of_def entry_def row_said_def append_row_def new_event_def)

text \<open>The part the two handlers share: resolve the subject, append the message.\<close>

lemma resolve_then_append:
  assumes "server_inv s" and "cf_subscribe cf = None" and "told ec m = (org, kind, p)" and "p \<noteq> []" and "body_of ec m = Some b"
    and "ref = ib_Subject b"
  obtains e s1 where "resolveRef ref s = Some (Inl e, s1)" "one_entry ec m None s s1"
  | s1 where "resolveRef ref s = Some (Inr None, s1)" "one_entry ec m None s s1"
  | sid s1 e s2 where "resolveRef ref s = Some (Inr (Some sid), s1)" "Append cf (Suc n) (new_event sid org kind p []) s1 = Some (Inl e, s2)"
      "one_entry ec m None s s2"
  | sid s1 seq s2 where "resolveRef ref s = Some (Inr (Some sid), s1)" "Append cf (Suc n) (new_event sid org kind p []) s1 = Some (Inr seq, s2)"
      "one_entry ec m (Some (sid, seq)) s s2"
proof -
  obtain r s1 where run: "resolveRef ref s = Some (r, s1) \<and> server_db s1 = server_db s \<and>
      (faultless s \<longrightarrow> faultless s1 \<and> (\<forall>sid. named (server_db s) ref sid \<longrightarrow> (\<exists>i. r = Inr (Some i)))) \<and>
      (\<forall>sid. r = Inr (Some sid) \<longrightarrow> known_subject (server_db s) sid \<and> named (server_db s) ref sid)"
    using resolveRef_run [of ref s] by (elim exE) rule
  then have r: "resolveRef ref s = Some (r, s1)" "server_db s1 = server_db s"
      "faultless s \<Longrightarrow> faultless s1" "\<And>sid. faultless s \<Longrightarrow> named (server_db s) ref sid \<Longrightarrow> \<exists>i. r = Inr (Some i)"
      "\<And>sid. r = Inr (Some sid) \<Longrightarrow> known_subject (server_db s) sid \<and> named (server_db s) ref sid" by auto
  have inv: "server_inv s1" using assms(1) r(2) by (simp add: server_inv_def)
  have reach: "deliverable ec (server_db s) m \<longleftrightarrow> (\<exists>sid. named (server_db s) ref sid)"
    using assms(5,6) by (auto simp: deliverable_iff)
  show thesis
  proof (cases "\<exists>sid. r = Inr (Some sid)")
    case False
    then have "one_entry ec m None s s1" using no_entry [OF inv, of s ec m] r(2-4) reach by auto
    then show thesis using that(1,2) r(1) False by (cases r) auto
  next
    case True
    then obtain sid where sid: "r = Inr (Some sid)" by blast
    have "e_DedupKey (new_event sid org kind p []) = []" by (simp add: new_event_def)
    from append_once [OF inv assms(2) this, of n] obtain x s2 where x:
      "Append cf (Suc n) (new_event sid org kind p []) s1 = Some (x, s2)" "server_inv s2"
      "case x of Inl _ \<Rightarrow> events (server_db s2) = events (server_db s1)
       | Inr seq \<Rightarrow> \<exists>now. events (server_db s2) = events (server_db s1) @ [append_row now (new_event sid org kind p []) (server_db s1)] \<and>
          seq = ev_seq (append_row now (new_event sid org kind p []) (server_db s1))"
      "names (server_db s2) = names (server_db s1)"
      "faultless s1 \<longrightarrow> faultless s2 \<and> (known_subject (server_db s1) (e_SubjectID (new_event sid org kind p [])) \<longrightarrow> (\<exists>seq. x = Inr seq))"
      by blast
    have quiet: "faultless s2 \<and> (\<exists>seq. x = Inr seq)" if "faultless s"
      using x(5) r(2,3) r(5) [OF sid] that by (simp add: new_event_def)
    show thesis
    proof (cases x)
      case (Inl e)
      then show thesis using that(3) r(1,2) sid x no_entry [OF x(2), of s ec m] quiet by auto
    next
      case (Inr seq)
      have "one_entry ec m (Some (sid, seq)) s s2"
        using x(3) Inr new_entry [OF x(2) _ _ assms(3,4) _ _ assms(5), of s _ sid seq] r(2) r(5) [OF sid] x(4) quiet assms(6) by auto
      then show thesis using that(4) r(1) sid x(1) Inr by simp
    qed
  qed
qed

lemma handleReply_run:
  assumes "server_inv s" and "cf_subscribe cf = None" and "env_Body (hc_Env hc) = env_Body env"
  shows "\<exists>r s' ack. handler_of (handleReply ec cf (Suc n) hc) s = Some (r, s') \<and> acknowledged (ReplyMsg env) (Answered r) ack \<and>
     one_entry ec (ReplyMsg env) ack s s'"
proof (cases "ec_unmarshal ec (env_Body env)")
  case (Inl e)
  have "one_entry ec (ReplyMsg env) None s s" using no_entry assms(1) Inl by (simp add: deliverable_def)
  then show ?thesis using Inl assms(3)
    by (intro exI [of _ "errReply (ErrWrap ''bad reply body'' e)"] exI [of _ s] exI [of _ None])
       (simp add: handler_of_def handleReply_def fail_f_def errReply_def)
next
  case (Inr b)
  have "told ec (ReplyMsg env) = (OriginAgent, eventReply, payload eventReply (ib_Text b))" by (simp add: Inr said_def)
  from resolve_then_append [OF assms(1,2) this payload_nonempty, where b = b and ref = "ib_Subject b" and n = n] Inr show ?thesis
    by cases (force simp: Inr assms(3) handler_of_def handleReply_def bind_f_def ret_f_def fail_f_def errReply_def okReply_def
        simp del: Append.simps)+
qed

lemma mountREST_run:
  assumes "server_inv s" and "cf_subscribe cf = None"
  shows "\<exists>r s' ack. mountREST ec cf (Suc n) body s = Some (r, s') \<and> acknowledged (ItemMsg body) (Posted r) ack \<and>
     one_entry ec (ItemMsg body) ack s s'"
proof (cases "ec_decode ec body")
  case (Inl e)
  have "one_entry ec (ItemMsg body) None s s" using no_entry assms(1) Inl by (simp add: deliverable_def)
  then show ?thesis using Inl
    by (intro exI [of _ "http_error (''bad request: '' @ ec_errText ec e) 400"] exI [of _ s] exI [of _ None])
       (simp add: mountREST_def http_error_def)
next
  case (Inr b)
  have "told ec (ItemMsg body) = (OriginHuman, eventItem, payload eventItem (ib_Text b))" by (simp add: Inr said_def)
  from resolve_then_append [OF assms this payload_nonempty, where b = b and ref = "ib_Subject b" and n = n] Inr show ?thesis
    by cases (force simp: Inr mountREST_def http_error_def simp del: Append.simps)+
qed

section \<open>The assembled daemon\<close>

lemma echo_table:
  assumes "buildServer ec vfs base n = Inr (Some t)"
  shows "ht_handlers t opStart = Some (\<lambda>hc. handler_of (handleStart ec (echo_config ec base) hc))"
    and "ht_handlers t opReply = Some (\<lambda>hc. handler_of (handleReply ec (echo_config ec base) n hc))"
proof -
  obtain t0 where "register_all (echo_handlers ec (echo_config ec base) n) t0 = Some t"
    using assms by (auto simp: buildServer_def map_sum_def split: sum.splits option.splits)
  then show "ht_handlers t opStart = Some (\<lambda>hc. handler_of (handleStart ec (echo_config ec base) hc))"
    "ht_handlers t opReply = Some (\<lambda>hc. handler_of (handleReply ec (echo_config ec base) n hc))"
    by (auto simp: echo_handlers_def Register_def opStart_def opReply_def split: if_splits option.splits)
qed

lemma echo_step_run:
  assumes "buildServer ec vfs base (Suc n) = Inr (Some t)" and "server_inv s"
  shows "\<exists>a s' ack. echo_step ec (echo_config ec base) (Suc n) t m s = Some (a, s') \<and> acknowledged m a ack \<and> one_entry ec m ack s s'"
proof -
  note table = echo_table [OF assms(1)]
  have off: "cf_subscribe (echo_config ec base) = None" by (simp add: echo_config_def)
  show ?thesis
  proof (cases m)
    case (StartMsg env)
    let ?hc = "\<lparr>hc_Env = env\<lparr>env_Op := opStart\<rparr>, hc_Window = \<lparr>w_Session = env_Session env, w_ClaudePID = env_ClaudePID env\<rparr>,
      hc_Scope = cf_scopeResolve (echo_config ec base) (env_Scope env)\<rparr>"
    obtain r s' where "handler_of (handleStart ec (echo_config ec base) ?hc) s = Some (r, s')" "server_inv s'"
        "events (server_db s') = events (server_db s)" "names (server_db s) \<subseteq> names (server_db s')" "faultless s \<longrightarrow> faultless s'"
      using handleStart_run [OF assms(2)] by blast
    moreover have "\<not> deliverable ec (server_db s) m" using StartMsg by (simp add: deliverable_def)
    ultimately show ?thesis using table(1) no_entry [of s' s ec m] StartMsg
      by (intro exI [of _ "Answered r"] exI [of _ s'] exI [of _ None]) (simp add: echo_step_def dispatchCaller_def)
  next
    case (ReplyMsg env)
    let ?hc = "\<lparr>hc_Env = env\<lparr>env_Op := opReply\<rparr>, hc_Window = \<lparr>w_Session = env_Session env, w_ClaudePID = env_ClaudePID env\<rparr>,
      hc_Scope = cf_scopeResolve (echo_config ec base) (env_Scope env)\<rparr>"
    have body: "env_Body (hc_Env ?hc) = env_Body env" by simp
    obtain r s' ack where "handler_of (handleReply ec (echo_config ec base) (Suc n) ?hc) s = Some (r, s')"
        "acknowledged (ReplyMsg env) (Answered r) ack" "one_entry ec (ReplyMsg env) ack s s'"
      using handleReply_run [OF assms(2) off body] by blast
    then show ?thesis using table(2) ReplyMsg
      by (intro exI [of _ "Answered r"] exI [of _ s'] exI [of _ ack]) (simp add: echo_step_def dispatchCaller_def)
  next
    case (ItemMsg body)
    obtain r s' ack where "mountREST ec (echo_config ec base) (Suc n) body s = Some (r, s')"
        "acknowledged (ItemMsg body) (Posted r) ack" "one_entry ec (ItemMsg body) ack s s'"
      using mountREST_run [OF assms(2) off] by blast
    then show ?thesis using ItemMsg by (intro exI [of _ "Posted r"] exI [of _ s'] exI [of _ ack]) (simp add: echo_step_def)
  qed
qed

lemma entries_Cons: "entries ec sid (m # ms) (a # acks) = entry ec sid m a @ entries ec sid ms acks"
  by (simp add: entries_def)

lemma echo_run_log:
  assumes "buildServer ec vfs base (Suc n) = Inr (Some t)"
  shows "server_inv s \<Longrightarrow> \<exists>answers acks s'. echo_run ec (echo_config ec base) (Suc n) t ms s = Some (answers, s') \<and> server_inv s' \<and>
    length acks = length ms \<and> list_all2 (\<lambda>(m, a) ack. acknowledged m a ack) (zip ms answers) acks \<and> length answers = length ms \<and>
    names (server_db s) \<subseteq> names (server_db s') \<and> list_all2 (addressed ec (server_db s')) ms acks \<and>
    (faultless s \<longrightarrow> list_all2 (\<lambda>m ack. deliverable ec (server_db s) m \<longrightarrow> ack \<noteq> None) ms acks) \<and>
    (\<forall>sid. \<exists>new. log_of (server_db s') sid = log_of (server_db s) sid @ new \<and> map row_said new = entries ec sid ms acks)"
proof (induction ms arbitrary: s)
  case Nil
  then show ?case by (auto simp: entries_def)
next
  case (Cons m ms)
  obtain a s1 ack where a: "echo_step ec (echo_config ec base) (Suc n) t m s = Some (a, s1)" "acknowledged m a ack" "one_entry ec m ack s s1"
    using echo_step_run [OF assms Cons.prems] by blast
  have inv: "server_inv s1" and grows: "names (server_db s) \<subseteq> names (server_db s1)" and here: "addressed ec (server_db s1) m ack"
    and quiet: "faultless s \<Longrightarrow> faultless s1 \<and> (deliverable ec (server_db s) m \<longrightarrow> ack \<noteq> None)"
    using a(3) by (auto simp: one_entry_def)
  obtain answers acks s' where r: "echo_run ec (echo_config ec base) (Suc n) t ms s1 = Some (answers, s')" "server_inv s'"
      "length acks = length ms" "list_all2 (\<lambda>(m, a) ack. acknowledged m a ack) (zip ms answers) acks" "length answers = length ms"
      "\<forall>sid. \<exists>new. log_of (server_db s') sid = log_of (server_db s1) sid @ new \<and> map row_said new = entries ec sid ms acks"
      "names (server_db s1) \<subseteq> names (server_db s')" "list_all2 (addressed ec (server_db s')) ms acks"
      "faultless s1 \<longrightarrow> list_all2 (\<lambda>m ack. deliverable ec (server_db s1) m \<longrightarrow> ack \<noteq> None) ms acks"
    using Cons.IH [OF inv] by blast
  have "names (server_db s) \<subseteq> names (server_db s')" using grows r(7) by blast
  moreover have "addressed ec (server_db s') m ack" by (rule addressed_mono [OF here r(7)])
  moreover have "list_all2 (\<lambda>m ack. deliverable ec (server_db s) m \<longrightarrow> ack \<noteq> None) (m # ms) (ack # acks)" if "faultless s"
    using quiet [OF that] r(9) deliverable_mono [OF grows] by (auto elim: list_all2_mono)
  moreover
  have "\<exists>new. log_of (server_db s') sid = log_of (server_db s) sid @ new \<and> map row_said new = entries ec sid (m # ms) (ack # acks)" for sid
  proof -
    obtain new1 where "log_of (server_db s1) sid = log_of (server_db s) sid @ new1" "map row_said new1 = entry ec sid m ack"
      using a(3) by (auto simp: one_entry_def)
    moreover obtain new2 where "log_of (server_db s') sid = log_of (server_db s1) sid @ new2" "map row_said new2 = entries ec sid ms acks"
      using r(6) by blast
    ultimately show ?thesis by (simp add: entries_Cons)
  qed
  ultimately show ?case using a(1,2) r(1-5,8) by (intro exI [of _ "a # answers"] exI [of _ "ack # acks"] exI [of _ s']) simp
qed

text \<open>A reader that leaves its own origin out, past what it has seen.\<close>

lemma read_past:
  assumes "dense d" and "log_of d sid = old @ new"
  shows "\<exists>evs. EventsSince None sid (int (length old)) ex d = (Inr evs, d) \<and>
    map event_said evs = filter (\<lambda>(seq, org, kind, p). ex \<noteq> [] \<longrightarrow> org \<noteq> ex) (map row_said new)"
proof -
  let ?P = "\<lambda>r. int (length old) < ev_seq r \<and> (ex \<noteq> [] \<longrightarrow> ev_origin r \<noteq> ex)"
  have seqs: "map ev_seq (old @ new) = [1..int (length old + length new)]" using denseD [OF assms(1), of sid] assms(2) by simp
  have "ev_seq r = int (Suc i)" if "i < length (old @ new)" "r = (old @ new) ! i" for i r
  proof -
    have "ev_seq r = map ev_seq (old @ new) ! i" using that by (simp del: map_append)
    then show ?thesis using that(1) unfolding seqs by simp
  qed
  note nth = this
  have "\<not> int (length old) < ev_seq r" if r: "r \<in> set old" for r
  proof -
    obtain i where "i < length old" "r = old ! i" using r by (metis in_set_conv_nth)
    then show ?thesis using nth [of i r] by (simp add: nth_append)
  qed
  moreover have "int (length old) < ev_seq r" if r: "r \<in> set new" for r
  proof -
    obtain i where "i < length new" "r = new ! i" using r by (metis in_set_conv_nth)
    then show ?thesis using nth [of "length old + i" r] by simp
  qed
  ultimately have "filter ?P (old @ new) = filter (\<lambda>r. ex \<noteq> [] \<longrightarrow> ev_origin r \<noteq> ex) new"
    by (simp add: filter_empty_conv cong: filter_cong)
  then have "EventsSince None sid (int (length old)) ex d =
      (Inr (map scanEvent (filter (\<lambda>r. ex \<noteq> [] \<longrightarrow> ev_origin r \<noteq> ex) new)), d)"
    using EventsSince_body [OF assms(1)] assms(2) by simp
  moreover have "event_said (scanEvent r) = row_said r" for r by (simp add: event_said_def scanEvent_def row_said_def)
  ultimately show ?thesis by (simp add: filter_map o_def row_said_def)
qed

text \<open>
  C40: A conversation is its log. Let the example's daemon be assembled and hold any sound store.
  Over any sequence of starts, items posted by the human and replies of the agent, whatever their
  bytes and whichever statements of the store fail, every message is answered, and each subject's
  log afterwards is the log before followed by exactly the messages that were acknowledged for it,
  in order, under the numbers their answers gave, the items as the human's and the replies as the
  agent's; a refused message leaves no trace. An acknowledged message went to the subject it was
  addressed to: its decoded ref is that subject's id or slug. As long as the store does not fail, a
  message that decodes and whose ref names a subject of the store is acknowledged. A watcher that leaves the agent's events out and
  reads on from where the log stood sees exactly the human's acknowledged items.
\<close>

theorem echo_conversation:
  assumes "buildServer ec vfs base (Suc n) = Inr (Some t)" and "server_inv s"
  shows "\<exists>answers acks s'. echo_run ec (echo_config ec base) (Suc n) t ms s = Some (answers, s') \<and> server_inv s' \<and>
    length answers = length ms \<and> length acks = length ms \<and> list_all2 (\<lambda>(m, a) ack. acknowledged m a ack) (zip ms answers) acks \<and>
    list_all2 (addressed ec (server_db s')) ms acks \<and>
    (faultless s \<longrightarrow> list_all2 (\<lambda>m ack. deliverable ec (server_db s) m \<longrightarrow> ack \<noteq> None) ms acks) \<and>
    (\<forall>sid. map row_said (log_of (server_db s') sid) = map row_said (log_of (server_db s) sid) @ entries ec sid ms acks \<and>
       (\<exists>evs. EventsSince None sid (int (length (log_of (server_db s) sid))) OriginAgent (server_db s') = (Inr evs, server_db s') \<and>
          map event_said evs = filter (\<lambda>(seq, org, kind, p). org \<noteq> OriginAgent) (entries ec sid ms acks)))"
proof -
  obtain answers acks s' where r: "echo_run ec (echo_config ec base) (Suc n) t ms s = Some (answers, s')" "server_inv s'"
      "length acks = length ms" "list_all2 (\<lambda>(m, a) ack. acknowledged m a ack) (zip ms answers) acks" "length answers = length ms"
      "\<forall>sid. \<exists>new. log_of (server_db s') sid = log_of (server_db s) sid @ new \<and> map row_said new = entries ec sid ms acks"
      "list_all2 (addressed ec (server_db s')) ms acks"
      "faultless s \<longrightarrow> list_all2 (\<lambda>m ack. deliverable ec (server_db s) m \<longrightarrow> ack \<noteq> None) ms acks"
    using echo_run_log [OF assms] by blast
  have dense: "dense (server_db s')" using r(2) by (simp add: server_inv_def store_inv_def log_inv_def)
  have "OriginAgent \<noteq> []" by (simp add: OriginAgent_def)
  then have "map row_said (log_of (server_db s') sid) = map row_said (log_of (server_db s) sid) @ entries ec sid ms acks \<and>
      (\<exists>evs. EventsSince None sid (int (length (log_of (server_db s) sid))) OriginAgent (server_db s') = (Inr evs, server_db s') \<and>
         map event_said evs = filter (\<lambda>(seq, org, kind, p). org \<noteq> OriginAgent) (entries ec sid ms acks))" for sid
    using r(6) [rule_format, of sid] read_past [OF dense, of sid "log_of (server_db s) sid" _ OriginAgent] by auto
  then show ?thesis using r(1-5,7,8) by blast
qed

definition sample_echo :: echo_env where
  "sample_echo = \<lparr>ec_sum4 = \<lambda>s. ''0a1b2c3d'', ec_draw = \<lambda>s. [1, 2], ec_unmarshal = \<lambda>b. Inr \<lparr>ib_Subject = ''s1'', ib_Text = b\<rparr>,
     ec_decode = \<lambda>b. Inr \<lparr>ib_Subject = take 2 b, ib_Text = drop 2 b\<rparr>, ec_errText = \<lambda>e. ''error'', ec_appVersion = ''0.0.0'', ec_stable = Inr None\<rparr>"

lemma sample_echo_built: "\<exists>t. buildServer sample_echo (\<lambda>_. Inr ()) sample_config (Suc (Suc 0)) = Inr (Some t)"
proof -
  let ?cf = "echo_config sample_echo sample_config"
  obtain spec where spec: "appSpec sample_echo = Inr spec" "dm_Schemas spec = [WireBuild]"
    by (simp add: appSpec_def sample_echo_def Spec_def)
  have ok: "Validate [] = Inr ()" "loopbackBind ''127.0.0.1''" by code_simp+
  have "checked (echo_new_config sample_echo (\<lambda>_. Inr ()) sample_config spec)"
    using ok spec(2) by (simp add: checked_def echo_new_config_def bindHostOrDefault_def echo_config_def sample_echo_def)
  then obtain ot where ot: "daemon_New (echo_new_config sample_echo (\<lambda>_. Inr ()) sample_config spec) (Suc (Suc 0)) = Inr ot"
    using daemon_New_iff by blast
  obtain t0 where t0: "register_all (core_handlers ?cf (Suc (Suc 0))) new_table = Some t0" "ht_handlers t0 = map_of (core_handlers ?cf (Suc (Suc 0)))"
      "\<not> ht_closed t0" 
    using register_all_fresh [of new_table "core_handlers ?cf (Suc (Suc 0))", OF _ core_ops_distinct] new_table_empty core_table
    by (metis option.inject)
  have "ot = Some t0" using daemon_New_table [OF ot] t0(1) by (simp add: echo_new_config_def)
  moreover have "register_all (echo_handlers sample_echo ?cf (Suc (Suc 0))) t0 \<noteq> None"
    using t0(2,3) by (simp add: echo_handlers_def Register_def opStart_def opReply_def core_handlers_def)
  ultimately show ?thesis using ot spec(1) by (auto simp: buildServer_def)
qed

lemma sample_item:
  "map_option fst (mountREST sample_echo (echo_config sample_echo sample_config) 2 ''s1hi'' sample_server) = Some (item_created ''s1'' 1)"
  by code_simp

theorem echo_conversation_witness:
  "\<exists>t answers acks s'. buildServer sample_echo (\<lambda>_. Inr ()) sample_config (Suc (Suc 0)) = Inr (Some t) \<and>
     echo_run sample_echo (echo_config sample_echo sample_config) (Suc (Suc 0)) t
       [StartMsg (sample_envelope []), ItemMsg ''s1hi'', ReplyMsg (sample_envelope [])] sample_server = Some (answers, s') \<and>
     length answers = 3 \<and> server_inv s' \<and> (\<exists>sid seq. acks ! 1 = Some (sid, seq) \<and> named (server_db s') ''s1'' sid) \<and>
     map row_said (log_of (server_db s') ''s1'') = entries sample_echo ''s1''
       [StartMsg (sample_envelope []), ItemMsg ''s1hi'', ReplyMsg (sample_envelope [])] acks"
proof -
  let ?ms = "[StartMsg (sample_envelope []), ItemMsg ''s1hi'', ReplyMsg (sample_envelope [])]"
  obtain t where t: "buildServer sample_echo (\<lambda>_. Inr ()) sample_config (Suc (Suc 0)) = Inr (Some t)" using sample_echo_built by blast
  have "log_of (server_db sample_server) ''s1'' = []" by (simp add: log_of_def sample_server_def)
  moreover have "length ?ms = 3" by simp
  moreover have ok: "faultless sample_server" "deliverable sample_echo (server_db sample_server) (ItemMsg ''s1hi'')"
    "body_of sample_echo (ItemMsg ''s1hi'') = Some \<lparr>ib_Subject = ''s1'', ib_Text = ''hi''\<rparr>" by code_simp+
  ultimately obtain answers acks s' where run:
      "echo_run sample_echo (echo_config sample_echo sample_config) (Suc (Suc 0)) t ?ms sample_server = Some (answers, s')"
      "server_inv s'" "length answers = 3" "list_all2 (addressed sample_echo (server_db s')) ?ms acks"
      "list_all2 (\<lambda>m ack. deliverable sample_echo (server_db sample_server) m \<longrightarrow> ack \<noteq> None) ?ms acks"
      "map row_said (log_of (server_db s') ''s1'') = entries sample_echo ''s1'' ?ms acks"
    using echo_conversation [OF t sample_server_inv, of ?ms] by (elim exE conjE) simp
  have "1 < length ?ms" by simp
  then have "addressed sample_echo (server_db s') (ItemMsg ''s1hi'') (acks ! 1)" "acks ! 1 \<noteq> None"
    using list_all2_nthD [OF run(4), of 1] list_all2_nthD [OF run(5), of 1] ok(2) by simp_all
  then obtain sid seq where "acks ! 1 = Some (sid, seq)" "named (server_db s') ''s1'' sid"
    using ok(3) by (cases "acks ! 1") (auto simp: addressed_def simp del: body_of.simps)
  then show ?thesis using t run(1-3,6) by blast
qed

end
