(* ===== verification/Procs.thy ===== *)
theory Procs
  imports Prelude
begin

text \<open>
  The window of a process (\<open>procs/procs.go\<close>): the nearest ancestor that is a claude process. The
  process table (gopsutil) is a parameter: the parent and the arguments of a process id, or an
  error.
\<close>

section \<open>Recognising claude\<close>

text \<open>\<open>filepath.Base\<close>.\<close>

definition Base :: "string \<Rightarrow> string" where
  "Base path =
     (if path = [] then ''.''
      else let p = rev (dropWhile (\<lambda>c. c = CHR ''/'') (rev path))
           in if p = [] then ''/'' else rev (takeWhile (\<lambda>c. c \<noteq> CHR ''/'') (rev p)))"

definition isClaude :: "string list \<Rightarrow> bool" where
  "isClaude argv =
     (case argv of
        [] \<Rightarrow> False
      | prog # args \<Rightarrow>
          if Base prog = ''claude'' then True
          else if Base prog = ''node'' \<or> Base prog = ''bun'' then
            (case args of [] \<Rightarrow> False | script # _ \<Rightarrow> Base script = ''claude'' \<or> Base script = ''claude.js'')
          else False)"

section \<open>Walking up\<close>

type_synonym lookup = "int \<Rightarrow> (int \<times> string list) result"

definition maxHops :: nat where
  "maxHops = 32"

text \<open>The conversion of an \<open>int\<close> to \<open>int32\<close>.\<close>

definition int32 :: "int \<Rightarrow> int" where
  "int32 n = (n + 2 ^ 31) mod 2 ^ 32 - 2 ^ 31"

primrec walk_loop :: "lookup \<Rightarrow> (string list \<Rightarrow> bool) \<Rightarrow> nat \<Rightarrow> int \<Rightarrow> int set \<Rightarrow> int" where
  "walk_loop lk match 0 pid seen = 0"
| "walk_loop lk match (Suc hops) pid seen =
     (if 1 < pid \<and> pid \<notin> seen then
        (case lk pid of
           Inl _ \<Rightarrow> 0
         | Inr (ppid, argv) \<Rightarrow> if match argv then pid else walk_loop lk match hops ppid (insert pid seen))
      else 0)"

definition walk :: "int \<Rightarrow> lookup \<Rightarrow> (string list \<Rightarrow> bool) \<Rightarrow> int" where
  "walk pid lk match = walk_loop lk match maxHops pid {}"

definition FindAncestor :: "lookup \<Rightarrow> int \<Rightarrow> (string list \<Rightarrow> bool) \<Rightarrow> int" where
  "FindAncestor lk pid match = walk (int32 pid) lk match"

definition ClaudePID :: "lookup \<Rightarrow> int \<Rightarrow> int" where
  "ClaudePID lk ppid = FindAncestor lk ppid isClaude"

text \<open>\<open>cmdline\<close> is \<open>NewProcess\<close> followed by \<open>CmdlineSlice\<close>.\<close>

definition LiveClaude :: "(int \<Rightarrow> string list result) \<Rightarrow> int \<Rightarrow> bool" where
  "LiveClaude cmdline pid =
     (if pid \<le> 0 then False else case cmdline (int32 pid) of Inl _ \<Rightarrow> False | Inr argv \<Rightarrow> isClaude argv)"

section \<open>The nearest ancestor\<close>

text \<open>
  The ancestors of a process, itself first, with their arguments: up to the first that has no
  readable entry, up to process 1, or for \<open>n\<close> of them. No cycle check here.
\<close>

primrec ancestors :: "lookup \<Rightarrow> nat \<Rightarrow> int \<Rightarrow> (int \<times> string list) list" where
  "ancestors lk 0 pid = []"
| "ancestors lk (Suc n) pid =
     (if 1 < pid then (case lk pid of Inl _ \<Rightarrow> [] | Inr (ppid, argv) \<Rightarrow> (pid, argv) # ancestors lk n ppid) else [])"

definition nearest :: "(string list \<Rightarrow> bool) \<Rightarrow> (int \<times> string list) list \<Rightarrow> int" where
  "nearest match as = (case find (\<lambda>(p, argv). match argv) as of None \<Rightarrow> 0 | Some (p, argv) \<Rightarrow> p)"

text \<open>A set of processes closed under parents, up to the current one, without a match.\<close>

definition passed :: "lookup \<Rightarrow> (string list \<Rightarrow> bool) \<Rightarrow> int set \<Rightarrow> int \<Rightarrow> bool" where
  "passed lk match seen pid \<longleftrightarrow>
     (\<forall>q \<in> seen. 1 < q \<and> (\<exists>pp argv. lk q = Inr (pp, argv) \<and> \<not> match argv \<and> (pp \<in> seen \<or> pp = pid)))"

lemma cycle_no_match: "passed lk match seen pid \<Longrightarrow> pid \<in> seen \<Longrightarrow> q \<in> seen \<Longrightarrow> nearest match (ancestors lk n q) = 0"
proof (induction n arbitrary: q)
  case (Suc n)
  from Suc(2,4) obtain pp argv where q: "1 < q" "lk q = Inr (pp, argv)" "\<not> match argv" "pp \<in> seen \<or> pp = pid"
    by (auto simp: passed_def)
  then have "nearest match (ancestors lk n pp) = 0" using Suc by auto
  then show ?case using q by (simp add: nearest_def)
qed (simp add: nearest_def)

lemma walk_loop_nearest: "passed lk match seen pid \<Longrightarrow> walk_loop lk match n pid seen = nearest match (ancestors lk n pid)"
proof (induction n arbitrary: pid seen)
  case (Suc n)
  show ?case
  proof (cases "1 < pid \<and> pid \<notin> seen")
    case False
    then show ?thesis using cycle_no_match [OF Suc(2), of pid "Suc n"] by (auto simp: nearest_def)
  next
    case True
    show ?thesis
    proof (cases "lk pid")
      case (Inr b)
      obtain pp argv where b: "b = (pp, argv)" by fastforce
      have "passed lk match (insert pid seen) pp" if "\<not> match argv"
        using Suc(2) True Inr b that by (auto simp: passed_def)
      then show ?thesis using True Inr b Suc(1) by (auto simp: nearest_def)
    qed (use True in \<open>simp add: nearest_def\<close>)
  qed
qed (simp add: nearest_def)

text \<open>
  C31: The walk finds the nearest claude. For every process table, with cycles or without, the
  loop with its set of processes seen gives the first match among the at most 32 nearest
  ancestors, or 0 when none of them matches: the cycle check only saves work.
\<close>

theorem walk_nearest: "walk pid lk match = nearest match (ancestors lk 32 pid)"
  using walk_loop_nearest [of lk match "{}" pid 32] by (simp add: walk_def maxHops_def passed_def)

text \<open>The window id is 0 or a process above 1 whose arguments are claude's.\<close>

lemma ancestors_entries: "(q, argv) \<in> set (ancestors lk n pid) \<Longrightarrow> 1 < q \<and> (\<exists>pp. lk q = Inr (pp, argv))"
proof (induction n arbitrary: pid)
  case (Suc n)
  then show ?case by (cases "1 < pid"; cases "lk pid") auto
qed simp

lemma claude_pid_live:
  assumes "ClaudePID lk ppid = q" and "q \<noteq> 0"
  shows "1 < q \<and> (\<exists>pp argv. lk q = Inr (pp, argv) \<and> isClaude argv)"
proof -
  obtain argv where "(q, argv) \<in> set (ancestors lk maxHops (int32 ppid))" "isClaude argv"
    using assms walk_loop_nearest [of lk isClaude "{}" "int32 ppid" maxHops]
    by (auto simp: ClaudePID_def FindAncestor_def walk_def passed_def nearest_def find_Some_iff split: option.splits) (metis nth_mem)
  then show ?thesis using ancestors_entries by blast
qed

end
