(* ===== verification/Sniff.thy ===== *)
theory Sniff
  imports Json "HOL-Library.Multiset"
begin

text \<open>
  One port for TLS and plaintext (\<open>tailnet/sniff.go\<close>): the peek at the first byte, the connection
  that gives the byte back, and the listener, whose accept loop, classifying goroutines,
  \<open>Accept\<close> and \<open>Close\<close> run concurrently. A connection is the bytes its peer sends before it
  ends; how many of them a read returns is up to the network.
\<close>

section \<open>The peek\<close>

definition tlsRecordHandshake :: nat where
  "tlsRecordHandshake = 0x16"

record bufferedConn =
  bc_buf :: string
  bc_conn :: string

text \<open>A read into a buffer of \<open>n\<close> bytes, of which the network has \<open>k\<close> at hand.\<close>

definition raw_Read :: "nat \<Rightarrow> nat \<Rightarrow> string \<Rightarrow> string \<times> string" where
  "raw_Read n k conn = (let m = min n k in (take m conn, drop m conn))"

definition buffered_Read :: "nat \<Rightarrow> nat \<Rightarrow> bufferedConn \<Rightarrow> string \<times> bufferedConn" where
  "buffered_Read n k c =
     (if bc_buf c \<noteq> [] then (take n (bc_buf c), c\<lparr>bc_buf := drop n (bc_buf c)\<rparr>)
      else case raw_Read n k (bc_conn c) of (b, rest) \<Rightarrow> (b, c\<lparr>bc_conn := rest\<rparr>))"

datatype served_as = Tls bufferedConn | Plain bufferedConn

text \<open>\<open>None\<close>: the connection ended, or stayed silent past the deadline, before its first byte.\<close>

definition sniff :: "string \<Rightarrow> served_as option" where
  "sniff conn =
     (case conn of
        [] \<Rightarrow> None
      | c # rest \<Rightarrow>
          (let buffered = \<lparr>bc_buf = [c], bc_conn = rest\<rparr>
           in if byte c = tlsRecordHandshake then Some (Tls buffered) else Some (Plain buffered)))"

fun served_conn :: "served_as \<Rightarrow> bufferedConn" where
  "served_conn (Tls b) = b"
| "served_conn (Plain b) = b"

fun reads :: "(nat \<times> nat) list \<Rightarrow> bufferedConn \<Rightarrow> string \<times> bufferedConn" where
  "reads [] c = ([], c)"
| "reads ((n, k) # rest) c = (let (b, c') = buffered_Read n k c; (bs, c'') = reads rest c' in (b @ bs, c''))"

definition unread :: "bufferedConn \<Rightarrow> string" where
  "unread c = bc_buf c @ bc_conn c"

lemma buffered_Read_split: "buffered_Read n k c = (b, c') \<Longrightarrow> b @ unread c' = unread c"
  by (auto simp: buffered_Read_def raw_Read_def unread_def Let_def split: if_splits)

lemma reads_split: "reads rs c = (b, c') \<Longrightarrow> b @ unread c' = unread c"
proof (induction rs c arbitrary: b c' rule: reads.induct)
  case (2 n k rest c)
  obtain b1 c1 where r: "buffered_Read n k c = (b1, c1)" by fastforce
  obtain b2 c2 where rs: "reads rest c1 = (b2, c2)" by fastforce
  from 2(1) [OF r [symmetric] refl rs] buffered_Read_split [OF r] 2(2) r rs show ?case by auto
qed simp

lemma buffered_Read_progress: "0 < n \<Longrightarrow> 0 < k \<Longrightarrow> unread c \<noteq> [] \<Longrightarrow> fst (buffered_Read n k c) \<noteq> []"
  by (auto simp: buffered_Read_def raw_Read_def unread_def Let_def)

text \<open>
  The peek is invisible. A connection is served as TLS exactly when its first byte opens a TLS
  handshake, and whatever sizes the server reads in, what it has read together with what is
  still to come is the peer's bytes: the peeked byte is neither lost nor repeated; and a read
  with room makes progress.
\<close>

theorem sniff_transparent:
  assumes "sniff conn = Some s"
  shows "((\<exists>b. s = Tls b) \<longleftrightarrow> (\<exists>c rest. conn = c # rest \<and> byte c = 0x16)) \<and>
    (\<forall>rs b c'. reads rs (served_conn s) = (b, c') \<longrightarrow> b @ unread c' = conn) \<and>
    (\<forall>n k. 0 < n \<and> 0 < k \<longrightarrow> fst (buffered_Read n k (served_conn s)) \<noteq> [])"
proof -
  obtain c rest where conn: "conn = c # rest" using assms by (auto simp: sniff_def split: list.splits)
  have u: "unread (served_conn s) = conn"
    using assms by (auto simp: sniff_def conn unread_def Let_def split: if_splits)
  have "(\<exists>b. s = Tls b) \<longleftrightarrow> byte c = 0x16"
    using assms by (auto simp: sniff_def conn tlsRecordHandshake_def Let_def split: if_splits)
  then show ?thesis using reads_split u buffered_Read_progress conn by auto
qed

theorem sniff_transparent_witness:
  "sniff ''GET /'' = Some (Plain \<lparr>bc_buf = ''G'', bc_conn = ''ET /''\<rparr>) \<and>
   reads [(3, 5), (9, 2), (9, 9)] \<lparr>bc_buf = ''G'', bc_conn = ''ET /''\<rparr> = (''GET /'', \<lparr>bc_buf = [], bc_conn = []\<rparr>) \<and>
   fst (buffered_Read 3 5 \<lparr>bc_buf = ''G'', bc_conn = ''ET /''\<rparr>) \<noteq> []"
proof -
  have s: "sniff ''GET /'' = Some (Plain \<lparr>bc_buf = ''G'', bc_conn = ''ET /''\<rparr>)" by code_simp
  have r: "reads [(3, 5), (9, 2), (9, 9)] \<lparr>bc_buf = ''G'', bc_conn = ''ET /''\<rparr> = (''GET /'', \<lparr>bc_buf = [], bc_conn = []\<rparr>)" by code_simp
  from sniff_transparent [OF s] s r show ?thesis by simp
qed

section \<open>The listener\<close>

definition millisecond :: int where
  "millisecond = 1000000"

definition next_delay :: "int \<Rightarrow> int" where
  "next_delay d = (if d = 0 then 5 * millisecond else min (d * 2) (1000 * millisecond))"

text \<open>
  Connections are numbered as the inner listener accepts them; each is being classified,
  waiting to be handed to \<open>Accept\<close>, handed over, or closed.
\<close>

record sniffListener =
  sl_next :: nat
  sl_loop :: bool
  sl_delay :: int
  sl_classifying :: "nat list"
  sl_ready :: "nat list"
  sl_errs :: "go_error option"
  sl_done :: bool
  sl_accepted :: "nat list"
  sl_closed :: "nat list"

definition newSniffListener :: sniffListener where
  "newSniffListener = \<lparr>sl_next = 0, sl_loop = True, sl_delay = 0, sl_classifying = [], sl_ready = [], sl_errs = None,
     sl_done = False, sl_accepted = [], sl_closed = []\<rparr>"

datatype inner_accept = Conn | TemporaryError | PermanentError go_error

text \<open>One turn of the accept loop; \<open>stop\<close> is the choice of the select when the listener is done.\<close>

definition acceptLoop :: "inner_accept \<Rightarrow> bool \<Rightarrow> sniffListener \<Rightarrow> sniffListener" where
  "acceptLoop a stop l =
     (case a of
        Conn \<Rightarrow> l\<lparr>sl_next := sl_next l + 1, sl_delay := 0, sl_classifying := sl_classifying l @ [sl_next l]\<rparr>
      | TemporaryError \<Rightarrow> l\<lparr>sl_delay := next_delay (sl_delay l), sl_loop := \<not> (sl_done l \<and> stop)\<rparr>
      | PermanentError e \<Rightarrow> l\<lparr>sl_loop := False, sl_errs := (if sl_done l \<and> stop then sl_errs l else Some e)\<rparr>)"

definition classify :: "nat \<Rightarrow> bool \<Rightarrow> sniffListener \<Rightarrow> sniffListener" where
  "classify i sniffed l =
     (let l1 = l\<lparr>sl_classifying := remove1 i (sl_classifying l)\<rparr>
      in if sniffed then l1\<lparr>sl_ready := sl_ready l1 @ [i]\<rparr> else l1\<lparr>sl_closed := i # sl_closed l1\<rparr>)"

definition classify_done :: "nat \<Rightarrow> sniffListener \<Rightarrow> sniffListener" where
  "classify_done i l = l\<lparr>sl_ready := remove1 i (sl_ready l), sl_closed := i # sl_closed l\<rparr>"

datatype accept_choice = TakeConn nat | TakeErr | TakeDone

definition Accept :: "accept_choice \<Rightarrow> sniffListener \<Rightarrow> nat result \<times> sniffListener" where
  "Accept choice l =
     (case choice of
        TakeConn i \<Rightarrow> (Inr i, l\<lparr>sl_ready := remove1 i (sl_ready l), sl_accepted := i # sl_accepted l\<rparr>)
      | TakeErr \<Rightarrow> (case sl_errs l of Some e \<Rightarrow> (Inl e, l\<lparr>sl_errs := None\<rparr>) | None \<Rightarrow> (Inl (ErrText ''blocked''), l))
      | TakeDone \<Rightarrow> (Inl (ErrText ''use of closed network connection''), l))"

definition accept_ready :: "accept_choice \<Rightarrow> sniffListener \<Rightarrow> bool" where
  "accept_ready choice l =
     (case choice of TakeConn i \<Rightarrow> i \<in> set (sl_ready l) | TakeErr \<Rightarrow> sl_errs l \<noteq> None | TakeDone \<Rightarrow> sl_done l)"

definition sniff_Close :: "sniffListener \<Rightarrow> sniffListener" where
  "sniff_Close l = l\<lparr>sl_done := True\<rparr>"

inductive sniff_step :: "sniffListener \<Rightarrow> sniffListener \<Rightarrow> bool" where
  loops: "sl_loop l \<Longrightarrow> sniff_step l (acceptLoop a stop l)"
| sniffs: "i \<in> set (sl_classifying l) \<Longrightarrow> sniff_step l (classify i sniffed l)"
| drops: "sl_done l \<Longrightarrow> i \<in> set (sl_ready l) \<Longrightarrow> sniff_step l (classify_done i l)"
| accepts: "accept_ready choice l \<Longrightarrow> sniff_step l (snd (Accept choice l))"
| closes: "sniff_step l (sniff_Close l)"

definition sniff_inv :: "sniffListener \<Rightarrow> bool" where
  "sniff_inv l \<longleftrightarrow>
     mset (sl_classifying l) + mset (sl_ready l) + mset (sl_accepted l) + mset (sl_closed l) = mset [0..<sl_next l] \<and>
     0 \<le> sl_delay l \<and> sl_delay l \<le> 1000 * millisecond \<and> (sl_loop l \<longrightarrow> sl_errs l = None)"

lemma next_delay_bound: "0 \<le> d \<Longrightarrow> 0 < next_delay d \<and> next_delay d \<le> 1000 * millisecond"
  by (auto simp: next_delay_def millisecond_def)

lemma place_member:
  assumes "sniff_inv l" and "i \<in> set (sl_classifying l) \<or> i \<in> set (sl_ready l)"
  shows "i \<in># mset_set {0..<sl_next l}"
proof -
  have "i \<in># mset (sl_classifying l) + mset (sl_ready l) + mset (sl_accepted l) + mset (sl_closed l)" using assms(2) by auto
  moreover have "mset (sl_classifying l) + mset (sl_ready l) + mset (sl_accepted l) + mset (sl_closed l) = mset_set {0..<sl_next l}"
    using assms(1) by (simp add: sniff_inv_def)
  ultimately show ?thesis by (simp only:)
qed

lemma sniff_step_inv: "sniff_step l l' \<Longrightarrow> sniff_inv l \<Longrightarrow> sniff_inv l'"
proof (induction rule: sniff_step.induct)
  case (loops l a stop)
  then show ?case using next_delay_bound [of "sl_delay l"]
    by (cases a) (auto simp: sniff_inv_def acceptLoop_def millisecond_def)
next
  case (sniffs i l sniffed)
  then show ?case using place_member [of l i] by (auto simp: sniff_inv_def classify_def Let_def insert_DiffM)
next
  case (drops l i)
  then show ?case using place_member [of l i] by (auto simp: sniff_inv_def classify_done_def insert_DiffM)
next
  case (accepts choice l)
  then show ?case using place_member [of l]
    by (cases choice) (auto simp: sniff_inv_def Accept_def accept_ready_def insert_DiffM)
qed (simp add: sniff_inv_def sniff_Close_def)

interpretation sniffing: invariant_of "\<lambda>l. l = newSniffListener" sniff_step sniff_inv
proof unfold_locales
  fix l assume "l = newSniffListener"
  then show "sniff_inv l" by (simp add: sniff_inv_def newSniffListener_def millisecond_def)
qed (rule sniff_step_inv)

text \<open>Once the listener is done, every connection it holds can be closed.\<close>

lemma done_settles: "sl_done l \<Longrightarrow> \<exists>l'. sniff_step\<^sup>*\<^sup>* l l' \<and> sl_classifying l' = [] \<and> sl_ready l' = [] \<and> sl_accepted l' = sl_accepted l"
proof (induction "2 * length (sl_classifying l) + length (sl_ready l)" arbitrary: l rule: less_induct)
  case less
  consider i where "i \<in> set (sl_classifying l)" | i where "i \<in> set (sl_ready l)" | "sl_classifying l = []" "sl_ready l = []"
    by (cases "sl_classifying l"; cases "sl_ready l") auto
  then show ?case
  proof cases
    case 1
    let ?l = "classify i False l"
    have "2 * length (sl_classifying ?l) + length (sl_ready ?l) < 2 * length (sl_classifying l) + length (sl_ready l)"
      using 1 length_pos_if_in_set [OF 1] by (simp add: classify_def Let_def length_remove1)
    moreover have "sl_done ?l" "sl_accepted ?l = sl_accepted l" using less(2) by (simp_all add: classify_def Let_def)
    ultimately show ?thesis using less(1) sniff_step.sniffs [OF 1] by (metis converse_rtranclp_into_rtranclp)
  next
    case 2
    let ?l = "classify_done i l"
    have "2 * length (sl_classifying ?l) + length (sl_ready ?l) < 2 * length (sl_classifying l) + length (sl_ready l)"
      using 2 length_pos_if_in_set [OF 2] by (simp add: classify_done_def length_remove1)
    moreover have "sl_done ?l" "sl_accepted ?l = sl_accepted l" using less(2) by (simp_all add: classify_done_def)
    ultimately show ?thesis using less(1) sniff_step.drops [OF less(2) 2] by (metis converse_rtranclp_into_rtranclp)
  qed blast
qed

text \<open>
  C32: The listener leaks no connection. In every interleaving each connection the inner listener
  accepted is in exactly one place: being classified, waiting for \<open>Accept\<close>, handed over once, or
  closed; while the accept loop runs, no error is pending and its pause is at most a second;
  and once the listener is closed every connection not handed over can be closed without
  another call of \<open>Accept\<close>.
\<close>

theorem sniff_no_leak:
  assumes "reach (\<lambda>l. l = newSniffListener) sniff_step l"
  shows "mset (sl_classifying l) + mset (sl_ready l) + mset (sl_accepted l) + mset (sl_closed l) = mset [0..<sl_next l] \<and>
    (sl_loop l \<longrightarrow> sl_errs l = None) \<and> sl_delay l \<le> 1000 * millisecond \<and>
    (sl_done l \<longrightarrow> (\<exists>l'. sniff_step\<^sup>*\<^sup>* l l' \<and> sl_classifying l' = [] \<and> sl_ready l' = [] \<and> sl_accepted l' = sl_accepted l))"
  using sniffing.reachable_inv [OF assms] done_settles [of l] unfolding sniff_inv_def by blast

theorem sniff_no_leak_witness:
  "reach (\<lambda>l. l = newSniffListener) sniff_step (acceptLoop Conn False newSniffListener) \<and>
   sl_classifying (acceptLoop Conn False newSniffListener) = [0] \<and> sl_delay (acceptLoop Conn False newSniffListener) \<le> 1000 * millisecond"
proof -
  have "reach (\<lambda>l. l = newSniffListener) sniff_step newSniffListener" by (rule reach_start) simp
  moreover have "sniff_step newSniffListener (acceptLoop Conn False newSniffListener)"
    by (rule sniff_step.loops) (simp add: newSniffListener_def)
  ultimately have r: "reach (\<lambda>l. l = newSniffListener) sniff_step (acceptLoop Conn False newSniffListener)" by (rule reach_step)
  from sniff_no_leak [OF r] r show ?thesis by (simp add: acceptLoop_def newSniffListener_def)
qed

end
