(* ===== verification/Static_Files.thy ===== *)
theory Static_Files
  imports Go_Strings
begin

text \<open>
  The single-page app handler (\<open>sse/static.go\<close>): a file of the distribution is served by the
  file server, a client route by the shell, and a missing file by 404. Opening a file, reading
  the shell and the file server itself (\<open>io/fs\<close>, \<open>net/http\<close>) are parameters.
\<close>

section \<open>The handler\<close>

text \<open>\<open>path.Ext\<close>: from the last dot of the last element on.\<close>

definition path_Ext :: "string \<Rightarrow> string" where
  "path_Ext p =
     (let seg = takeWhile (\<lambda>c. c \<noteq> CHR ''/'') (rev p); ext = takeWhile (\<lambda>c. c \<noteq> CHR ''.'') seg
      in if CHR ''.'' \<in> set seg then CHR ''.'' # rev ext else [])"

definition first_segment :: "string \<Rightarrow> string" where
  "first_segment p = takeWhile (\<lambda>c. c \<noteq> CHR ''/'') p"

definition clientRoute :: "string \<Rightarrow> string list \<Rightarrow> bool" where
  "clientRoute p prefixes =
     (if first_segment p \<in> set prefixes then True
      else if take 7 p = ''assets/'' then False
      else path_Ext p = [])"

record static_response =
  sr_status :: int
  sr_contentType :: string
  sr_content :: string

definition serveIndex :: "string result \<Rightarrow> static_response" where
  "serveIndex shell =
     (case shell of
        Inl _ \<Rightarrow> \<lparr>sr_status = 500, sr_contentType = ''text/plain; charset=utf-8'', sr_content = ''spa shell missing'' @ [CHR 0x0A]\<rparr>
      | Inr b \<Rightarrow> \<lparr>sr_status = 200, sr_contentType = ''text/html; charset=utf-8'', sr_content = b\<rparr>)"

definition static_NotFound :: static_response where
  "static_NotFound = \<lparr>sr_status = 404, sr_contentType = ''text/plain; charset=utf-8'', sr_content = ''404 page not found'' @ [CHR 0x0A]\<rparr>"

definition StaticHandler :: "(string \<Rightarrow> bool) \<Rightarrow> string result \<Rightarrow> (string \<Rightarrow> static_response) \<Rightarrow> string list \<Rightarrow> string \<Rightarrow> static_response" where
  "StaticHandler opens shell fileServer routePrefixes path =
     (let p = (if take 1 path = ''/'' then drop 1 path else path)
      in if p \<noteq> [] \<and> opens p then fileServer path
         else if p \<noteq> [] \<and> \<not> clientRoute p routePrefixes then static_NotFound
         else serveIndex shell)"

section \<open>What reaches the shell\<close>

text \<open>The last element of a path.\<close>

definition last_segment :: "string \<Rightarrow> string" where
  "last_segment p = rev (takeWhile (\<lambda>c. c \<noteq> CHR ''/'') (rev p))"

lemma last_segment_name: "CHR ''/'' \<notin> set name \<Longrightarrow> last_segment (dir @ CHR ''/'' # name) = name"
  by (auto simp: last_segment_def takeWhile_append takeWhile_eq_all_conv)

lemma path_Ext_empty: "path_Ext p = [] \<longleftrightarrow> CHR ''.'' \<notin> set (last_segment p)"
  by (auto simp: path_Ext_def last_segment_def Let_def)

lemma path_Ext_dot: "CHR ''.'' \<in> set (last_segment p) \<Longrightarrow> \<exists>stem. last_segment p = stem @ path_Ext p \<and> CHR ''.'' \<notin> set (drop 1 (path_Ext p))"
proof -
  let ?seg = "takeWhile (\<lambda>c. c \<noteq> CHR ''/'') (rev p)"
  assume "CHR ''.'' \<in> set (last_segment p)"
  then have dot: "CHR ''.'' \<in> set ?seg" by (simp add: last_segment_def)
  then have "dropWhile (\<lambda>c. c \<noteq> CHR ''.'') ?seg \<noteq> []" by (auto simp: dropWhile_eq_Nil_conv)
  then obtain rest where "dropWhile (\<lambda>c. c \<noteq> CHR ''.'') ?seg = CHR ''.'' # rest"
    using hd_dropWhile [of "\<lambda>c. c \<noteq> CHR ''.''" ?seg] by (cases "dropWhile (\<lambda>c. c \<noteq> CHR ''.'') ?seg") auto
  then have "?seg = takeWhile (\<lambda>c. c \<noteq> CHR ''.'') ?seg @ CHR ''.'' # rest" by (metis takeWhile_dropWhile_id)
  then have "last_segment p = rev rest @ path_Ext p"
    using dot by (simp add: last_segment_def path_Ext_def Let_def) (metis append.assoc append_Cons append_Nil rev.simps(2) rev_append)
  moreover have "CHR ''.'' \<notin> set (drop 1 (path_Ext p))" by (auto simp: path_Ext_def Let_def dest: set_takeWhileD)
  ultimately show ?thesis by blast
qed

text \<open>
  Exactly the deep links get the shell. A path that names no file is answered with the shell
  when its first element is registered, or when it is not under \<open>assets/\<close> and its last element
  has no dot; every other one is an honest 404; and the root always gets the shell.
\<close>

lemma static_routes:
  assumes "\<not> opens p" and "p \<noteq> []"
  shows "StaticHandler opens shell fs prefixes (CHR ''/'' # p) =
    (if first_segment p \<in> set prefixes \<or> (take 7 p \<noteq> ''assets/'' \<and> CHR ''.'' \<notin> set (last_segment p)) then serveIndex shell
     else static_NotFound)"
  using assms by (simp add: StaticHandler_def clientRoute_def path_Ext_empty)

lemma static_root: "StaticHandler opens shell fs prefixes ''/'' = serveIndex shell"
  by (simp add: StaticHandler_def)

lemma static_file: "opens p \<Longrightarrow> p \<noteq> [] \<Longrightarrow> StaticHandler opens shell fs prefixes (CHR ''/'' # p) = fs (CHR ''/'' # p)"
  by (simp add: StaticHandler_def)

end
