(* ===== verification/Stream_Url.thy ===== *)
theory Stream_Url
  imports Consume Http_Auth Json
begin

text \<open>
  The request of a stream consumer on the wire: \<open>streamURL\<close> of \<open>consume/consume.go\<close> over
  \<open>url.QueryEscape\<close>, and the query as the daemon's \<open>r.URL.Query()\<close> reads it. The theorem is the
  round trip: whatever bytes the names hold, the handler of \<open>GET /events\<close> sees the subject, the
  consumer, the origin and the process id the consumer was made with.
\<close>

section \<open>Query strings\<close>

definition upper_hex :: "nat \<Rightarrow> char" where
  "upper_hex n = ''0123456789ABCDEF'' ! n"

text \<open>The characters that \<open>url.QueryEscape\<close> leaves alone.\<close>

definition query_safe :: "char \<Rightarrow> bool" where
  "query_safe c \<longleftrightarrow> (let n = byte c in 0x30 \<le> n \<and> n \<le> 0x39 \<or> 0x41 \<le> n \<and> n \<le> 0x5A \<or> 0x61 \<le> n \<and> n \<le> 0x7A) \<or> c \<in> set ''-_.~''"

definition escape_byte :: "char \<Rightarrow> string" where
  "escape_byte c =
     (if c = CHR 0x20 then ''+''
      else if query_safe c then [c]
      else [CHR 0x25, upper_hex (byte c div 16), upper_hex (byte c mod 16)])"

definition QueryEscape :: "string \<Rightarrow> string" where
  "QueryEscape s = concat (map escape_byte s)"

definition unhex :: "char \<Rightarrow> nat option" where
  "unhex c = (let n = byte c in
     if 0x30 \<le> n \<and> n \<le> 0x39 then Some (n - 0x30)
     else if 0x61 \<le> n \<and> n \<le> 0x66 then Some (n - 0x61 + 10)
     else if 0x41 \<le> n \<and> n \<le> 0x46 then Some (n - 0x41 + 10) else None)"

fun QueryUnescape :: "string \<Rightarrow> string option" where
  "QueryUnescape [] = Some []"
| "QueryUnescape (c # cs) =
     (if c = CHR 0x25 then
        (case cs of
           a # b # rest \<Rightarrow>
             (case (unhex a, unhex b) of
                (Some x, Some y) \<Rightarrow> map_option ((#) (char_of (16 * x + y))) (QueryUnescape rest)
              | _ \<Rightarrow> None)
         | _ \<Rightarrow> None)
      else map_option ((#) (if c = CHR ''+'' then CHR 0x20 else c)) (QueryUnescape cs))"

text \<open>One setting of a query; what does not parse is left out.\<close>

definition parse_setting :: "string \<Rightarrow> (string \<times> string) list" where
  "parse_setting q =
     (if CHR 0x3B \<in> set q \<or> q = [] then []
      else case (QueryUnescape (takeWhile (\<lambda>c. c \<noteq> CHR 0x3D) q), QueryUnescape (drop 1 (dropWhile (\<lambda>c. c \<noteq> CHR 0x3D) q))) of
             (Some k, Some v) \<Rightarrow> [(k, v)]
           | _ \<Rightarrow> [])"

definition parse_query :: "string \<Rightarrow> (string \<times> string) list" where
  "parse_query q = concat (map parse_setting (split_char (CHR 0x26) q))"

definition url_query :: "string \<Rightarrow> string" where
  "url_query u = drop 1 (dropWhile (\<lambda>c. c \<noteq> CHR 0x3F) u)"

section \<open>The request\<close>

record StreamSource =
  ss_Port :: int
  ss_SubjectID :: string
  ss_Consumer :: string
  ss_ClaudePID :: int
  ss_ExcludeOrigin :: string

definition streamURL :: "StreamSource \<Rightarrow> string" where
  "streamURL src = ''http://127.0.0.1:'' @ itoa (ss_Port src) @ ''/events?session='' @ QueryEscape (ss_SubjectID src) @
     ''&consumer='' @ QueryEscape (ss_Consumer src) @
     (if ss_ExcludeOrigin src \<noteq> [] then ''&exclude_origin='' @ QueryEscape (ss_ExcludeOrigin src) else []) @
     (if ss_ClaudePID src \<noteq> 0 then ''&claude_pid='' @ itoa (ss_ClaudePID src) else [])"

text \<open>What the handler of the event plane reads of a request.\<close>

definition stream_request_of :: "string \<Rightarrow> string \<Rightarrow> stream_request" where
  "stream_request_of url lastEventID =
     (let q = parse_query (url_query url)
      in \<lparr>rq_session = query_get ''session'' q, rq_excludeOrigin = query_get ''exclude_origin'' q, rq_consumer = query_get ''consumer'' q,
          rq_claudePID = query_get ''claude_pid'' q, rq_lastEventHeader = lastEventID, rq_lastEventQuery = query_get ''last_event_id'' q\<rparr>)"

section \<open>The round trip\<close>

lemma byte_less: "byte c < 256"
  using of_char_mod_256 [of c] unfolding byte_def by (metis mod_less_divisor zero_less_numeral)

lemma hex_digits: "n < 16 \<Longrightarrow> unhex (upper_hex n) = Some n"
proof -
  have "list_all (\<lambda>n. unhex (upper_hex n) = Some n) [0..<16]" by code_simp
  then show "n < 16 \<Longrightarrow> unhex (upper_hex n) = Some n" by (simp add: list_all_iff)
qed

lemma unescape_byte: "QueryUnescape (escape_byte c @ cs) = map_option ((#) c) (QueryUnescape cs)"
proof -
  have split: "16 * (byte c div 16) + byte c mod 16 = byte c" by simp
  have bounds: "byte c div 16 < 16" "byte c mod 16 < 16" using byte_less [of c] by auto
  have safe: "c \<noteq> CHR 0x25 \<and> c \<noteq> CHR ''+''" if "query_safe c" using that by (auto simp: query_safe_def byte_def)
  show ?thesis
    using safe hex_digits [OF bounds(1)] hex_digits [OF bounds(2)] split
    by (auto simp: escape_byte_def) (simp add: byte_def)
qed

lemma unescape_escape: "QueryUnescape (QueryEscape s) = Some s"
  by (induction s) (simp_all add: QueryEscape_def unescape_byte)

text \<open>The characters that structure a query occur in no escaped value and in no number.\<close>

definition unstructured :: "string \<Rightarrow> bool" where
  "unstructured s \<longleftrightarrow> set s \<inter> set ''&=;?'' = {}"

lemma upper_hex_unstructured: "n < 16 \<Longrightarrow> upper_hex n \<notin> set ''&=;?''"
proof -
  have "list_all (\<lambda>n. upper_hex n \<notin> set ''&=;?'') [0..<16]" by code_simp
  then show "n < 16 \<Longrightarrow> upper_hex n \<notin> set ''&=;?''" by (simp add: list_all_iff)
qed

lemma escape_unstructured: "unstructured (QueryEscape s)"
proof -
  have "set (escape_byte c) \<inter> set ''&=;?'' = {}" for c
  proof -
    have "byte c div 16 < 16" "byte c mod 16 < 16" using byte_less [of c] by auto
    then have hex: "upper_hex (byte c div 16) \<notin> set ''&=;?''" "upper_hex (byte c mod 16) \<notin> set ''&=;?''"
      by (simp_all only: upper_hex_unstructured not_False_eq_True)
    have "c \<notin> set ''&=;?''" if "query_safe c" using that by (auto simp: query_safe_def byte_def Let_def)
    then have "query_safe c \<Longrightarrow> set [c] \<inter> set ''&=;?'' = {}" by auto
    moreover have "set [CHR 0x25, upper_hex (byte c div 16), upper_hex (byte c mod 16)] \<inter> set ''&=;?'' = {}"
      using hex by auto
    ultimately show ?thesis unfolding escape_byte_def by simp
  qed
  then show ?thesis by (auto simp: unstructured_def QueryEscape_def)
qed

lemma itoa_plain: "unstructured (itoa n)" "CHR 0x25 \<notin> set (itoa n)" "CHR ''+'' \<notin> set (itoa n)"
  using digits_chars [of "nat n"] digits_chars [of "nat (- n)"] by (auto simp: unstructured_def itoa_def)

lemma unescape_plain: "CHR 0x25 \<notin> set s \<Longrightarrow> CHR ''+'' \<notin> set s \<Longrightarrow> QueryUnescape s = Some s"
  by (induction s) auto

lemma split_char_free: "d \<notin> set a \<Longrightarrow> split_char d a = [a]"
  by (induction a) auto

lemma split_char_sep: "d \<notin> set a \<Longrightarrow> split_char d (a @ d # b) = a # split_char d b"
  by (induction a) auto

lemma parse_query_last: "CHR 0x26 \<notin> set a \<Longrightarrow> parse_query a = parse_setting a"
  by (simp add: parse_query_def split_char_free)

lemma parse_query_more: "CHR 0x26 \<notin> set a \<Longrightarrow> parse_query (a @ CHR 0x26 # b) = parse_setting a @ parse_query b"
  by (simp add: parse_query_def split_char_sep)

text \<open>A setting of the URL: a key, and an escaped value or a number.\<close>

lemma setting_free: "unstructured k \<Longrightarrow> unstructured v \<Longrightarrow> CHR 0x26 \<notin> set (k @ CHR 0x3D # v)"
  by (auto simp: unstructured_def)

lemma parse_setting_eq:
  assumes "unstructured k" and "unstructured v" and "QueryUnescape k = Some k" and "QueryUnescape v = Some w"
  shows "parse_setting (k @ CHR 0x3D # v) = [(k, w)]"
proof -
  have "CHR 0x3D \<notin> set k" using assms(1) by (auto simp: unstructured_def)
  then have "takeWhile (\<lambda>c. c \<noteq> CHR 0x3D) (k @ CHR 0x3D # v) = k" "dropWhile (\<lambda>c. c \<noteq> CHR 0x3D) (k @ CHR 0x3D # v) = CHR 0x3D # v"
    by (auto simp: takeWhile_append dropWhile_append)
  moreover have "CHR 0x3B \<notin> set (k @ CHR 0x3D # v)" using assms(1,2) by (auto simp: unstructured_def)
  ultimately show ?thesis using assms(3,4) by (simp add: parse_setting_def)
qed

text \<open>
  C38: The daemon reads what the consumer wrote. For every source, whatever bytes its names hold
  (separators, percent signs, spaces, anything), the request that the handler of \<open>GET /events\<close>
  takes from the URL of the stream has the consumer's subject, name and excluded origin, its
  process id unless that is zero, and no cursor but the one in the header.
\<close>

theorem stream_url_roundtrip:
  "stream_request_of (streamURL src) lastEventID =
     \<lparr>rq_session = ss_SubjectID src, rq_excludeOrigin = ss_ExcludeOrigin src, rq_consumer = ss_Consumer src,
       rq_claudePID = (if ss_ClaudePID src \<noteq> 0 then itoa (ss_ClaudePID src) else []),
       rq_lastEventHeader = lastEventID, rq_lastEventQuery = []\<rparr>"
proof -
  let ?sub = "''session'' @ CHR 0x3D # QueryEscape (ss_SubjectID src)" and ?con = "''consumer'' @ CHR 0x3D # QueryEscape (ss_Consumer src)"
  let ?ori = "''exclude_origin'' @ CHR 0x3D # QueryEscape (ss_ExcludeOrigin src)" and ?pid = "''claude_pid'' @ CHR 0x3D # itoa (ss_ClaudePID src)"
  let ?host = "''http://127.0.0.1:'' @ itoa (ss_Port src) @ ''/events''"
  have keys: "unstructured ''session''" "unstructured ''consumer''" "unstructured ''exclude_origin''" "unstructured ''claude_pid''"
    "QueryUnescape ''session'' = Some ''session''" "QueryUnescape ''consumer'' = Some ''consumer''"
    "QueryUnescape ''exclude_origin'' = Some ''exclude_origin''" "QueryUnescape ''claude_pid'' = Some ''claude_pid''"
    by (simp_all add: unstructured_def)
  note set = parse_setting_eq [OF keys(1) escape_unstructured keys(5) unescape_escape] parse_setting_eq [OF keys(2) escape_unstructured keys(6) unescape_escape]
    parse_setting_eq [OF keys(3) escape_unstructured keys(7) unescape_escape]
    parse_setting_eq [OF keys(4) itoa_plain(1) keys(8) unescape_plain [OF itoa_plain(2,3)]]
  note free = setting_free [OF keys(1) escape_unstructured, of "ss_SubjectID src"] setting_free [OF keys(2) escape_unstructured, of "ss_Consumer src"]
    setting_free [OF keys(3) escape_unstructured, of "ss_ExcludeOrigin src"] setting_free [OF keys(4) itoa_plain(1), of "ss_ClaudePID src"]
  define q where "q = ?sub @ CHR 0x26 # ?con @ (if ss_ExcludeOrigin src \<noteq> [] then CHR 0x26 # ?ori else []) @
    (if ss_ClaudePID src \<noteq> 0 then CHR 0x26 # ?pid else [])"
  have url: "streamURL src = ?host @ CHR 0x3F # q" by (simp add: streamURL_def q_def)
  have "CHR 0x3F \<notin> set ?host" using itoa_plain(1) [of "ss_Port src"] by (auto simp: unstructured_def)
  then have "url_query (streamURL src) = q" unfolding url url_query_def by (subst dropWhile_append2) auto
  moreover have "parse_query q = [(''session'', ss_SubjectID src), (''consumer'', ss_Consumer src)] @
      (if ss_ExcludeOrigin src \<noteq> [] then [(''exclude_origin'', ss_ExcludeOrigin src)] else []) @
      (if ss_ClaudePID src \<noteq> 0 then [(''claude_pid'', itoa (ss_ClaudePID src))] else [])"
    unfolding q_def parse_query_more [OF free(1)] set(1)
    using parse_query_more [OF free(2)] parse_query_more [OF free(3)] parse_query_last [OF free(2)] parse_query_last [OF free(3)]
      parse_query_last [OF free(4)] set(2-4) by auto
  ultimately show ?thesis by (simp add: stream_request_of_def query_get_def)
qed

end
