(* ===== verification/Tailnet.thy ===== *)
theory Tailnet
  imports Http_Serve Go_Strings
begin

text \<open>
  Serving the daemon on its tailnet addresses (\<open>tailnet/tailnet.go\<close>, \<open>tailnet/cert.go\<close>): the legs
  that are bound at start and by the reconcile pass, the certificate, and the URLs shown to a
  browser. The mesh provider (addresses, names, trust, binding of listeners) and the minting
  of a certificate are not part of the repository: their answers are inputs. Printing an
  address and port is a parameter with the law that it is read back.
\<close>

section \<open>Addresses and ports\<close>

text \<open>\<open>netip.ParseAddr\<close>, with zones, and \<open>netip.ParseAddrPort\<close>.\<close>

definition ParseAddr :: "string \<Rightarrow> ip option" where
  "ParseAddr s =
     (case find_first (\<lambda>c. c = CHR ''.'' \<or> c = CHR '':'' \<or> c = CHR ''%'') s of
        Some c \<Rightarrow>
          if c = CHR ''.'' then map_option V4 (parseIPv4 s)
          else if c = CHR '':'' then
            (let a = takeWhile (\<lambda>c. c \<noteq> CHR ''%'') s; z = drop (length a + 1) s
             in if CHR ''%'' \<in> set s \<and> z = [] then None else map_option (\<lambda>gs. V6 gs z) (parseIPv6 a))
          else None
      | None \<Rightarrow> None)"

definition is_V4 :: "ip \<Rightarrow> bool" where
  "is_V4 a = (case a of V4 _ \<Rightarrow> True | V6 _ _ \<Rightarrow> False)"

definition ParseAddrPort :: "string \<Rightarrow> (ip \<times> int) option" where
  "ParseAddrPort s =
     (let portp = rev (takeWhile (\<lambda>c. c \<noteq> CHR '':'') (rev s));
          host = take (length s - length portp - 1) s;
          bracketed = (take 1 host = ''['');
          addr = (if bracketed then butlast (drop 1 host) else host)
      in if CHR '':'' \<notin> set s \<or> host = [] \<or> portp = [] \<or> (bracketed \<and> (length host < 2 \<or> last host \<noteq> CHR '']'')) then None
         else if \<not> all_digits portp \<or> 65535 < int (undigits portp) then None
         else case ParseAddr addr of
                None \<Rightarrow> None
              | Some a \<Rightarrow> if is_V4 a = bracketed then None else Some (a, int (undigits portp)))"

definition IsUnspecified :: "ip \<Rightarrow> bool" where
  "IsUnspecified a \<longleftrightarrow> a = V4 [0, 0, 0, 0] \<or> a = V6 [0, 0, 0, 0, 0, 0, 0, 0] []"

definition isUnspecifiedBind :: "string \<Rightarrow> bool" where
  "isUnspecifiedBind bind = (case ParseAddr bind of None \<Rightarrow> False | Some a \<Rightarrow> IsUnspecified a)"

definition parsed_legs :: "string list \<Rightarrow> (ip \<times> int) list" where
  "parsed_legs extra = List.map_filter ParseAddrPort extra"

section \<open>URLs\<close>

text \<open>The loop of \<open>canonicalPort\<close> over the parsed legs: the lowest port so far.\<close>

fun lowest_port :: "(ip \<Rightarrow> bool) \<Rightarrow> int \<Rightarrow> int option \<Rightarrow> (ip \<times> int) list \<Rightarrow> int option" where
  "lowest_port live primary lowest [] = lowest"
| "lowest_port live primary lowest ((a, p) # rest) =
     (if \<not> live a then lowest_port live primary lowest rest
      else if p = primary then Some p
      else lowest_port live primary (case lowest of None \<Rightarrow> Some p | Some q \<Rightarrow> Some (if p < q then p else q)) rest)"

definition canonicalPort :: "string list \<Rightarrow> ip list \<Rightarrow> int \<Rightarrow> int option" where
  "canonicalPort extraAddrs selfAddrs primaryPort =
     (let self = Unmap ` set selfAddrs; parsed = parsed_legs extraAddrs;
          hasSelf = list_ex (\<lambda>(a, p). Unmap a \<in> self) parsed
      in if \<not> hasSelf \<and> selfAddrs \<noteq> [] then None
         else lowest_port (\<lambda>a. hasSelf \<longrightarrow> Unmap a \<in> self) primaryPort None parsed)"

definition port_url :: "string \<Rightarrow> string \<Rightarrow> int \<Rightarrow> string \<Rightarrow> string" where
  "port_url scheme host port path = scheme @ ''://'' @ host @ '':'' @ itoa port @ path"

definition tailnetURLs :: "(ip \<times> int \<Rightarrow> string) \<Rightarrow> string \<Rightarrow> bool \<Rightarrow> string \<Rightarrow> string list \<Rightarrow> ip list \<Rightarrow> int \<Rightarrow> string \<Rightarrow> string list" where
  "tailnetURLs pr certDomain minted hostLabel extraAddrs selfAddrs primaryPort path =
     (if minted \<and> certDomain \<noteq> [] then
        (case canonicalPort extraAddrs selfAddrs primaryPort of None \<Rightarrow> [] | Some port \<Rightarrow> [port_url ''https'' certDomain port path])
      else if hostLabel \<noteq> [] then
        (case canonicalPort extraAddrs selfAddrs primaryPort of None \<Rightarrow> [] | Some port \<Rightarrow> [port_url ''http'' hostLabel port path])
      else map (\<lambda>ap. ''http://'' @ pr ap @ path) (parsed_legs extraAddrs))"

definition displayURLs :: "(ip \<times> int \<Rightarrow> string) \<Rightarrow> string \<Rightarrow> bool \<Rightarrow> string \<Rightarrow> string list \<Rightarrow> ip list \<Rightarrow> string \<Rightarrow> int \<Rightarrow> string \<Rightarrow> string list" where
  "displayURLs pr certDomain minted hostLabel extra selfAddrs bind port path =
     (if extra \<noteq> [] then tailnetURLs pr certDomain minted hostLabel extra selfAddrs port path
      else if \<not> isUnspecifiedBind bind \<or> port < 1 \<or> 65535 < port then []
      else tailnetURLs pr certDomain False hostLabel (map (\<lambda>a. pr (Unmap a, port)) selfAddrs) selfAddrs port path)"

section \<open>The certificate\<close>

record mintedCert =
  mc_domain :: string
  mc_NotAfter :: instant

record certManager =
  cm_cert :: "mintedCert option"
  cm_ready :: bool
  cm_minting :: bool

definition certRefreshWindow :: int where
  "certRefreshWindow = 30 * 24 * 3600 * second"

definition newCertManager :: certManager where
  "newCertManager = \<lparr>cm_cert = None, cm_ready = False, cm_minting = False\<rparr>"

text \<open>
  \<open>ensure\<close> in two halves, so that another call can come between them: the mint lock is taken
  (or not, or the certificate is still good), and the mint ends with a certificate or fails.
\<close>

definition ensure_begin :: "string \<Rightarrow> instant \<Rightarrow> certManager \<Rightarrow> bool \<times> certManager" where
  "ensure_begin domain now m =
     (if domain = [] \<or> cm_minting m then (False, m)
      else if (case cm_cert m of None \<Rightarrow> False | Some c \<Rightarrow> mc_domain c = domain \<and> now + certRefreshWindow < mc_NotAfter c) then (False, m)
      else (True, m\<lparr>cm_minting := True\<rparr>))"

definition mint_end :: "string \<Rightarrow> instant result \<Rightarrow> certManager \<Rightarrow> certManager" where
  "mint_end domain minted m =
     (case minted of
        Inl _ \<Rightarrow> m\<lparr>cm_minting := False\<rparr>
      | Inr notAfter \<Rightarrow> m\<lparr>cm_cert := Some \<lparr>mc_domain = domain, mc_NotAfter = notAfter\<rparr>, cm_ready := True, cm_minting := False\<rparr>)"

definition valid_cert :: "instant \<Rightarrow> certManager \<Rightarrow> mintedCert option" where
  "valid_cert now m = (case cm_cert m of None \<Rightarrow> None | Some c \<Rightarrow> if now < mc_NotAfter c then Some c else None)"

definition mintedDomain :: "instant \<Rightarrow> certManager \<Rightarrow> string" where
  "mintedDomain now m = (case valid_cert now m of None \<Rightarrow> [] | Some c \<Rightarrow> mc_domain c)"

definition getCertificate :: "instant \<Rightarrow> certManager \<Rightarrow> mintedCert result" where
  "getCertificate now m = (case valid_cert now m of Some c \<Rightarrow> Inr c | None \<Rightarrow> Inl (ErrText ''tailnet: no valid TLS certificate''))"

section \<open>Legs\<close>

text \<open>What the mesh provider knows, at one moment.\<close>

record mesh =
  me_addrs :: "ip list"
  me_certDomain :: string
  me_hostLabel :: string

definition lastHTTPPort :: "httpPlane \<Rightarrow> int" where
  "lastHTTPPort p = (let port = hi_Port (readHTTPInfo p) in if port < 1 \<or> 65535 < port then 0 else port)"

definition URLs :: "(ip \<times> int \<Rightarrow> string) \<Rightarrow> mesh option \<Rightarrow> certManager \<Rightarrow> instant \<Rightarrow> string \<Rightarrow> httpPlane \<Rightarrow> int \<Rightarrow> string \<Rightarrow> string list" where
  "URLs pr tp m now bind p port path =
     (case tp of
        None \<Rightarrow> []
      | Some me \<Rightarrow>
          (let domain = mintedDomain now m
           in displayURLs pr domain (domain \<noteq> [] \<and> domain = me_certDomain me) (me_hostLabel me) (HTTPExtraAddrs p) (me_addrs me) bind port path))"

text \<open>\<open>mesh_Listeners bind addrs hint\<close>: per address the text of the address bound, or the error.\<close>

type_synonym mesh_Listeners = "string \<Rightarrow> ip list \<Rightarrow> int \<Rightarrow> string result list"

fun missing_addrs :: "ip set \<Rightarrow> ip list \<Rightarrow> ip list" where
  "missing_addrs bound [] = []"
| "missing_addrs bound (a # as) =
     (if Unmap a \<in> bound then missing_addrs bound as else a # missing_addrs (insert (Unmap a) bound) as)"

fun add_legs :: "http_config \<Rightarrow> string result list \<Rightarrow> (write_fault option \<times> write_fault option) list \<Rightarrow> httpPlane \<Rightarrow> httpPlane" where
  "add_legs c [] faults p = p"
| "add_legs c (Inl e # rest) faults p = add_legs c rest faults p"
| "add_legs c (Inr addr # rest) faults p =
     (let (flt, flt') = (case faults of [] \<Rightarrow> (None, None) | f # _ \<Rightarrow> f); (ln, p1) = open_listener p
      in add_legs c rest (tl faults) (snd (AddHTTPListener c ln addr flt flt' p1)))"

definition reconcilePass :: "http_config \<Rightarrow> mesh_Listeners \<Rightarrow> ip list \<Rightarrow> (write_fault option \<times> write_fault option) list \<Rightarrow> httpPlane \<Rightarrow> httpPlane" where
  "reconcilePass c listeners selfAddrs faults p =
     (let legs = parsed_legs (HTTPExtraAddrs p);
          hint = (case legs of [] \<Rightarrow> lastHTTPPort p | (a, port) # _ \<Rightarrow> port);
          missing = missing_addrs ((\<lambda>(a, port). Unmap a) ` set legs) selfAddrs
      in if missing = [] then p else add_legs c (listeners (hc_bindAddr c) missing hint) faults p)"

text \<open>The listeners of \<open>NewServer\<close>, and its configuration: mesh peers are trusted.\<close>

definition start_listeners :: "http_config \<Rightarrow> mesh_Listeners \<Rightarrow> ip list \<Rightarrow> httpPlane \<Rightarrow> string result list" where
  "start_listeners c listeners selfAddrs p = listeners (hc_bindAddr c) selfAddrs (lastHTTPPort p)"

definition NewServer_config :: "(ip \<Rightarrow> bool) option \<Rightarrow> http_config \<Rightarrow> http_config" where
  "NewServer_config trusted c = (case trusted of None \<Rightarrow> c | Some f \<Rightarrow> c\<lparr>hc_trustedPeer := Some f, hc_onHTTPStart := True\<rparr>)"

definition combineHooks :: "'h option list \<Rightarrow> 'h list" where
  "combineHooks hooks = List.map_filter (\<lambda>h. h) hooks"

section \<open>The port that is shown\<close>

definition ports_of :: "(ip \<Rightarrow> bool) \<Rightarrow> (ip \<times> int) list \<Rightarrow> int set" where
  "ports_of live legs = {p. \<exists>a. (a, p) \<in> set legs \<and> live a}"

lemma ports_of_simps [simp]:
  "ports_of live [] = {}" "ports_of live ((a, p) # legs) = (if live a then insert p (ports_of live legs) else ports_of live legs)"
  by (auto simp: ports_of_def)

lemma finite_ports_of [simp]: "finite (ports_of live legs)"
  by (rule finite_subset [of _ "snd ` set legs"]) (force simp: ports_of_def)+

text \<open>The legs a browser can reach: those on the machine's own addresses, or all when these are unknown.\<close>

definition live_ports :: "string list \<Rightarrow> ip list \<Rightarrow> int set" where
  "live_ports extra selfAddrs = ports_of (\<lambda>a. selfAddrs = [] \<or> Unmap a \<in> Unmap ` set selfAddrs) (parsed_legs extra)"

lemma lowest_port_Some:
  "lowest_port live primary (Some q) legs =
     Some (if primary \<in> ports_of live legs then primary else Min (insert q (ports_of live legs)))"
proof (induction legs arbitrary: q)
  case (Cons x legs)
  obtain a p where x: "x = (a, p)" by fastforce
  show ?case using Cons by (cases "ports_of live legs = {}") (auto simp: x min_def)
qed simp

lemma lowest_port_None:
  "lowest_port live primary None legs =
     (if ports_of live legs = {} then None else Some (if primary \<in> ports_of live legs then primary else Min (ports_of live legs)))"
proof (induction legs)
  case (Cons x legs)
  obtain a p where x: "x = (a, p)" by fastforce
  show ?case using Cons by (cases "live a") (simp_all add: x lowest_port_Some)
qed simp

text \<open>
  The advertised port is the right one. \<open>canonicalPort\<close>, a loop with early exits, computes
  exactly this: nothing when no leg is on a live address, the daemon's primary port when a
  live leg has it, and the lowest port of the live legs otherwise.
\<close>

theorem canonical_port_exact:
  "canonicalPort extra selfAddrs primary =
     (if live_ports extra selfAddrs = {} then None
      else if primary \<in> live_ports extra selfAddrs then Some primary
      else Some (Min (live_ports extra selfAddrs)))"
proof (cases "selfAddrs = [] \<or> (\<exists>(a, p) \<in> set (parsed_legs extra). Unmap a \<in> Unmap ` set selfAddrs)")
  case True
  let ?self = "Unmap ` set selfAddrs"
  have "ports_of (\<lambda>a. list_ex (\<lambda>(a, p). Unmap a \<in> ?self) (parsed_legs extra) \<longrightarrow> Unmap a \<in> ?self) (parsed_legs extra) =
      live_ports extra selfAddrs"
    using True by (auto simp: live_ports_def ports_of_def list_ex_iff)
  then show ?thesis using True by (auto simp: canonicalPort_def Let_def lowest_port_None list_ex_iff)
next
  case False
  then have "live_ports extra selfAddrs = {}" by (auto simp: live_ports_def ports_of_def)
  then show ?thesis using False by (auto simp: canonicalPort_def list_ex_iff)
qed

section \<open>The reconcile pass\<close>

definition leg_ips :: "string list \<Rightarrow> ip list" where
  "leg_ips extra = map (\<lambda>(a, port). Unmap a) (parsed_legs extra)"

lemma leg_ips_append [simp]: "leg_ips (xs @ ys) = leg_ips xs @ leg_ips ys"
  by (simp add: leg_ips_def parsed_legs_def List.map_filter_def)

lemma leg_ips_Nil [simp]: "leg_ips [] = []"
  by (simp add: leg_ips_def parsed_legs_def List.map_filter_def)

lemma leg_ips_one: "ParseAddrPort s = Some (a, port) \<Longrightarrow> leg_ips [s] = [Unmap a]"
  by (simp add: leg_ips_def parsed_legs_def List.map_filter_def)

text \<open>What the provider promises: per address one listener, bound to that address, or an error.\<close>

definition listeners_law :: "mesh_Listeners \<Rightarrow> bool" where
  "listeners_law f \<longleftrightarrow> (\<forall>bind addrs hint. list_all2
     (\<lambda>a r. \<forall>s. r = Inr s \<longrightarrow> (\<exists>a' port. ParseAddrPort s = Some (a', port) \<and> Unmap a' = Unmap a)) addrs (f bind addrs hint))"

text \<open>A plane that takes listeners: started, authenticated, not draining.\<close>

definition accepting :: "http_config \<Rightarrow> httpPlane \<Rightarrow> bool" where
  "accepting c p \<longleftrightarrow> hp_httpSrv p \<and> validateBindAuth (bindHost c) (hc_httpToken c) True (hc_trustedPeer c \<noteq> None) = Inr () \<and>
     \<not> wg_closed (hp_workers p)"

lemma writeHTTPInfo_sel [simp]:
  "hp_extraAddrs (snd (writeHTTPInfo flt i p)) = hp_extraAddrs p" "hp_workers (snd (writeHTTPInfo flt i p)) = hp_workers p"
  "hp_httpSrv (snd (writeHTTPInfo flt i p)) = hp_httpSrv p"
  by (simp_all add: writeHTTPInfo_def split: option.split)

lemma writeHTTPInfo_pair: "writeHTTPInfo flt i p = (r, p') \<Longrightarrow> hp_extraAddrs p' = hp_extraAddrs p"
  using writeHTTPInfo_sel(1) [of flt i p] by simp

lemma add_listener_extra:
  "AddHTTPListener c ln addr flt flt' p = (r, p') \<Longrightarrow> hp_extraAddrs p' = hp_extraAddrs p @ (if r = Inr () then [addr] else [])"
  by (auto simp: AddHTTPListener_def close_listeners_def Let_def dest: writeHTTPInfo_pair split: sum.splits if_splits prod.splits bool.splits)

lemma add_listener_ok:
  assumes "accepting c p"
  shows "fst (AddHTTPListener c ln addr None flt' p) = Inr () \<and> accepting c (snd (AddHTTPListener c ln addr None flt' p))"
proof -
  have "\<exists>g. StartWorker (hp_workers p) = (True, g) \<and> \<not> wg_closed g"
    using assms by (simp add: accepting_def StartWorker_def Admit_def)
  then show ?thesis using assms
    by (auto simp: AddHTTPListener_def accepting_def writeHTTPInfo_def Let_def)
qed

lemma missing_addrs_facts:
  "distinct (map Unmap (missing_addrs b as)) \<and> Unmap ` set (missing_addrs b as) = Unmap ` set as - b"
  by (induction b "as" rule: missing_addrs.induct) auto

lemma add_legs_effect:
  assumes "list_all2 (\<lambda>a r. \<forall>s. r = Inr s \<longrightarrow> (\<exists>a' port. ParseAddrPort s = Some (a', port) \<and> Unmap a' = Unmap a)) ms rs"
    and "distinct (map Unmap ms)"
  shows "\<exists>new. hp_extraAddrs (add_legs c rs faults p) = hp_extraAddrs p @ new \<and> set (leg_ips new) \<subseteq> Unmap ` set ms \<and> distinct (leg_ips new) \<and>
    (accepting c p \<longrightarrow> faults = [] \<longrightarrow> (\<forall>r \<in> set rs. \<exists>s. r = Inr s) \<longrightarrow> leg_ips new = map Unmap ms)"
  using assms
proof (induction ms rs arbitrary: faults p rule: list_all2_induct)
  case Nil
  show ?case by (intro exI [of _ "[]"]) (simp add: leg_ips_def parsed_legs_def List.map_filter_def)
next
  case (Cons a ms r rs)
  show ?case
  proof (cases r)
    case (Inl e)
    then show ?thesis using Cons(3) [of faults p] Cons(4) by fastforce
  next
    case (Inr s)
    obtain flt flt' where f: "(case faults of [] \<Rightarrow> (None, None) | f # _ \<Rightarrow> f) = (flt, flt')" by fastforce
    obtain ln p1 where o: "open_listener p = (ln, p1)" by fastforce
    obtain r1 p2 where add: "AddHTTPListener c ln s flt flt' p1 = (r1, p2)" by fastforce
    have p1: "hp_extraAddrs p1 = hp_extraAddrs p" "accepting c p1 = accepting c p"
      using o by (auto simp: open_listener_def accepting_def)
    have ext: "hp_extraAddrs p2 = hp_extraAddrs p @ (if r1 = Inr () then [s] else [])"
      using add_listener_extra [OF add] p1 by simp
    have ok: "r1 = Inr () \<and> accepting c p2" if "accepting c p" "faults = []"
      using add_listener_ok [of c p1 ln s flt'] that f p1 add by auto
    obtain a' port where ips: "leg_ips [s] = [Unmap a]" using Cons(1) Inr leg_ips_one by metis
    have run: "add_legs c (r # rs) faults p = add_legs c rs (tl faults) p2" using Inr f o add by simp
    have dist: "distinct (map Unmap ms)" "Unmap a \<notin> Unmap ` set ms" using Cons(4) by simp_all
    obtain new where new: "hp_extraAddrs (add_legs c rs (tl faults) p2) = hp_extraAddrs p2 @ new" "set (leg_ips new) \<subseteq> Unmap ` set ms"
      "distinct (leg_ips new)" "accepting c p2 \<longrightarrow> tl faults = [] \<longrightarrow> (\<forall>r \<in> set rs. \<exists>s. r = Inr s) \<longrightarrow> leg_ips new = map Unmap ms"
      using Cons(3) [OF dist(1), of "tl faults" p2] by blast
    show ?thesis unfolding run new(1) ext
    proof (intro exI conjI)
      show "(hp_extraAddrs p @ (if r1 = Inr () then [s] else [])) @ new = hp_extraAddrs p @ (if r1 = Inr () then [s] else []) @ new" by simp
    qed (use new ips dist ok in \<open>auto simp: leg_ips_append [of "[s]" new, simplified]\<close>)
  qed
qed

text \<open>
  A reconcile pass serves every address once. The legs that are served stay; no address gets a
  second leg, whatever fails and however often the provider lists an address; and when the
  plane takes listeners and nothing fails, every address of the machine is served
  afterwards, so that a further pass changes nothing.
\<close>

theorem reconcile_serves_once:
  assumes "listeners_law listeners" and "p' = reconcilePass c listeners selfAddrs faults p"
  shows "(\<exists>new. HTTPExtraAddrs p' = HTTPExtraAddrs p @ new) \<and>
    (distinct (leg_ips (HTTPExtraAddrs p)) \<longrightarrow> distinct (leg_ips (HTTPExtraAddrs p'))) \<and>
    (accepting c p \<and> faults = [] \<and> (\<forall>addrs hint. \<forall>r \<in> set (listeners (hc_bindAddr c) addrs hint). \<exists>s. r = Inr s) \<longrightarrow>
      Unmap ` set selfAddrs \<subseteq> set (leg_ips (HTTPExtraAddrs p')) \<and> reconcilePass c listeners selfAddrs faults' p' = p')"
proof -
  let ?bound = "\<lambda>p. (\<lambda>(a, port). Unmap a) ` set (parsed_legs (HTTPExtraAddrs p))"
  let ?ms = "missing_addrs (?bound p) selfAddrs"
  have bound: "?bound q = set (leg_ips (HTTPExtraAddrs q))" for q by (simp add: leg_ips_def)
  have idle: "reconcilePass c listeners selfAddrs fs q = q" if "Unmap ` set selfAddrs \<subseteq> set (leg_ips (HTTPExtraAddrs q))" for fs q
  proof -
    have "Unmap ` set (missing_addrs (?bound q) selfAddrs) = {}" using missing_addrs_facts that by (auto simp: bound)
    then show ?thesis by (simp add: reconcilePass_def)
  qed
  have ms: "distinct (map Unmap ?ms)" "Unmap ` set ?ms = Unmap ` set selfAddrs - set (leg_ips (HTTPExtraAddrs p))"
    using missing_addrs_facts [of "?bound p" selfAddrs] by (simp_all add: bound)
  obtain hint where run: "p' = (if ?ms = [] then p else add_legs c (listeners (hc_bindAddr c) ?ms hint) faults p)"
    unfolding assms(2) reconcilePass_def Let_def by blast
  have law: "list_all2 (\<lambda>a r. \<forall>s. r = Inr s \<longrightarrow> (\<exists>a' port. ParseAddrPort s = Some (a', port) \<and> Unmap a' = Unmap a)) ?ms
      (listeners (hc_bindAddr c) ?ms hint)" using assms(1) by (simp add: listeners_law_def)
  show ?thesis
  proof (cases "?ms = []")
    case True
    then have "p' = p" "Unmap ` set selfAddrs \<subseteq> set (leg_ips (HTTPExtraAddrs p))" using run ms(2) by auto
    then show ?thesis using idle by auto
  next
    case False
    from add_legs_effect [OF law ms(1), of c faults p] obtain new where
      new: "HTTPExtraAddrs p' = HTTPExtraAddrs p @ new" "set (leg_ips new) \<subseteq> Unmap ` set ?ms" "distinct (leg_ips new)"
      and all: "accepting c p \<Longrightarrow> faults = [] \<Longrightarrow> \<forall>r \<in> set (listeners (hc_bindAddr c) ?ms hint). \<exists>s. r = Inr s \<Longrightarrow> leg_ips new = map Unmap ?ms"
      using run False by (auto simp: HTTPExtraAddrs_def)
    have "Unmap ` set selfAddrs \<subseteq> set (leg_ips (HTTPExtraAddrs p'))"
      if "accepting c p \<and> faults = [] \<and> (\<forall>addrs hint. \<forall>r \<in> set (listeners (hc_bindAddr c) addrs hint). \<exists>s. r = Inr s)"
      using all that ms(2) by (auto simp: new(1))
    moreover have "distinct (leg_ips (HTTPExtraAddrs p'))" if "distinct (leg_ips (HTTPExtraAddrs p))"
      using that new(2,3) ms(2) by (auto simp: new(1))
    ultimately show ?thesis using idle new(1) by blast
  qed
qed

text \<open>A provider that can bind one address, and a plane that serves nothing yet.\<close>

definition sample_listeners :: mesh_Listeners where
  "sample_listeners bind addrs hint = map (\<lambda>a. if a = V4 [1, 0, 0, 1] then Inr ''1.0.0.1:5'' else Inl (ErrText ''no address'')) addrs"

definition sample_mesh_plane :: httpPlane where
  "sample_mesh_plane = \<lparr>hp_httpPort = 8080, hp_httpSrv = True, hp_extraAddrs = [], hp_published = None, hp_workers = newWorkerGroup,
     hp_open = [], hp_served = [], hp_next = 1\<rparr>"

definition sample_mesh_config :: http_config where
  "sample_mesh_config = \<lparr>hc_fixedPort = 0, hc_bindAddr = [], hc_httpToken = ''t'', hc_trustedPeer = None, hc_onHTTPStart = False\<rparr>"

theorem reconcile_serves_once_witness:
  "listeners_law sample_listeners \<and>
   (let p' = reconcilePass sample_mesh_config sample_listeners [V4 [1, 0, 0, 1], V4 [1, 0, 0, 1], V4 [9, 9, 9, 9]] [] sample_mesh_plane
    in distinct (leg_ips (HTTPExtraAddrs p')) \<and> HTTPExtraAddrs p' = [''1.0.0.1:5''])"
proof -
  have "ParseAddrPort ''1.0.0.1:5'' = Some (V4 [1, 0, 0, 1], 5)" by code_simp
  then have law: "listeners_law sample_listeners"
    by (auto simp: listeners_law_def sample_listeners_def list_all2_conv_all_nth)
  have "HTTPExtraAddrs (reconcilePass sample_mesh_config sample_listeners [V4 [1, 0, 0, 1], V4 [1, 0, 0, 1], V4 [9, 9, 9, 9]] [] sample_mesh_plane) =
      [''1.0.0.1:5'']" by code_simp
  moreover have dist: "distinct (leg_ips (HTTPExtraAddrs sample_mesh_plane))" by (simp add: sample_mesh_plane_def HTTPExtraAddrs_def)
  ultimately show ?thesis unfolding Let_def
    using law reconcile_serves_once [OF law refl, THEN conjunct2, THEN conjunct1, THEN mp, OF dist] by (intro conjI)
qed

section \<open>The certificate that is served\<close>

lemma cert_never_expired: "getCertificate now m = Inr c \<Longrightarrow> now < mc_NotAfter c"
  by (auto simp: getCertificate_def valid_cert_def split: option.splits if_splits)

lemma cert_kept: "valid_cert now (mint_end domain (Inl e) (snd (ensure_begin domain now' m))) = valid_cert now m"
  by (simp add: mint_end_def ensure_begin_def valid_cert_def)

section \<open>Waiting for it, and the loop\<close>

definition bootCertWait :: int where
  "bootCertWait = 5 * second"

text \<open>
  How long \<open>awaitReady\<close> blocks, from when (if ever) the certificate is ready and the context is
  done, both counted from the call.
\<close>

definition awaitReady :: "int option \<Rightarrow> int option \<Rightarrow> int \<Rightarrow> int" where
  "awaitReady ready ctxDone wait = max 0 (min (case ready of None \<Rightarrow> wait | Some t \<Rightarrow> t) (min (case ctxDone of None \<Rightarrow> wait | Some t \<Rightarrow> t) wait))"

text \<open>Whether a mint is started in the background, and how long the start waits for it.\<close>

definition armBeforeLegs :: "string \<Rightarrow> int option \<Rightarrow> int option \<Rightarrow> bool \<times> int" where
  "armBeforeLegs domain ready ctxDone = (if domain = [] then (False, 0) else (True, awaitReady ready ctxDone bootCertWait))"

text \<open>
  One round of \<open>Tailnet.reconcile\<close>: what the provider knows, the failures of the pass, the time
  and the outcome of a mint, and whether the context is done before the next tick.
\<close>

record mesh_tick =
  mt_mesh :: mesh
  mt_faults :: "(write_fault option \<times> write_fault option) list"
  mt_now :: instant
  mt_minted :: "instant result"
  mt_done :: bool

definition ensure_cert :: "string \<Rightarrow> instant \<Rightarrow> instant result \<Rightarrow> certManager \<Rightarrow> certManager" where
  "ensure_cert domain now minted m =
     (case ensure_begin domain now m of (started, m1) \<Rightarrow> if started then mint_end domain minted m1 else m1)"

fun tailnet_reconcile :: "http_config \<Rightarrow> mesh_Listeners \<Rightarrow> mesh_tick list \<Rightarrow> httpPlane \<times> certManager \<Rightarrow> httpPlane \<times> certManager" where
  "tailnet_reconcile c listeners [] st = st"
| "tailnet_reconcile c listeners (t # ts) (p, m) =
     (let p1 = reconcilePass c listeners (me_addrs (mt_mesh t)) (mt_faults t) p;
          m1 = ensure_cert (me_certDomain (mt_mesh t)) (mt_now t) (mt_minted t) m
      in if mt_done t then (p1, m1) else tailnet_reconcile c listeners ts (p1, m1))"

lemma awaitReady_bounded: "0 \<le> wait \<Longrightarrow> awaitReady ready ctxDone wait \<le> wait"
  by (auto simp: awaitReady_def split: option.split)

text \<open>However long the loop runs and whatever fails, legs stay and no address gets a second one.\<close>

lemma reconcile_loop_legs:
  assumes "listeners_law listeners"
  shows "tailnet_reconcile c listeners ts (p, m) = (p', m') \<Longrightarrow> distinct (leg_ips (HTTPExtraAddrs p)) \<Longrightarrow>
    distinct (leg_ips (HTTPExtraAddrs p')) \<and> (\<exists>new. HTTPExtraAddrs p' = HTTPExtraAddrs p @ new)"
proof (induction ts arbitrary: p m)
  case (Cons t ts)
  let ?p1 = "reconcilePass c listeners (me_addrs (mt_mesh t)) (mt_faults t) p"
  obtain new where one: "HTTPExtraAddrs ?p1 = HTTPExtraAddrs p @ new" "distinct (leg_ips (HTTPExtraAddrs ?p1))"
    using reconcile_serves_once [OF assms refl, of c "me_addrs (mt_mesh t)" "mt_faults t" p] Cons.prems(2) by blast
  show ?case
  proof (cases "mt_done t")
    case True
    then show ?thesis using Cons.prems(1) one by (auto simp: Let_def)
  next
    case False
    then have "tailnet_reconcile c listeners ts (?p1, ensure_cert (me_certDomain (mt_mesh t)) (mt_now t) (mt_minted t) m) = (p', m')"
      using Cons.prems(1) by (simp add: Let_def)
    from Cons.IH [OF this one(2)] show ?thesis using one(1) by auto
  qed
qed simp

text \<open>A certificate that is still served is never lost to a failed mint, over any number of rounds.\<close>

lemma reconcile_loop_cert:
  assumes "\<forall>t \<in> set ts. isl (mt_minted t)"
  shows "cm_cert (snd (tailnet_reconcile c listeners ts (p, m))) = cm_cert m"
  using assms
proof (induction ts arbitrary: p m)
  case (Cons t ts)
  have "cm_cert (ensure_cert dom now (mt_minted t) m) = cm_cert m" for dom now
    using Cons.prems by (cases "mt_minted t") (auto simp: ensure_cert_def ensure_begin_def mint_end_def)
  then show ?case using Cons by (simp add: Let_def)
qed simp

end
