(* ===== verification/Vcs_Host.thy ===== *)
theory Vcs_Host
  imports Actions Go_Strings Paths
begin

text \<open>
  The machine as the package \<open>vcs\<close> sees it, and the repository lookups of \<open>vcs/vcs.go\<close> and
  \<open>vcs/git.go\<close>. The state of an action is the list of the calls made so far; the machine's
  answer to a call is a function of the history that ends with that call, so that every
  behaviour of git, jj and the file system, however it depends on what was run before, is
  one \<open>host\<close>. Relative paths are resolved against the working directory the machine reports.
\<close>

section \<open>Calls and answers\<close>

datatype call =
    Exec string string "string list" "string list"
  | Stat string
  | ReadFile string
  | Getwd
  | EvalSymlinks string
  | Getenv string
  | CreateTemp string
  | Remove string
  | MkdirAll string
  | WriteFile string string
  | QueryMetadata string

text \<open>
  \<open>Exec\<close> carries the program, its directory, the variables added to the environment and the
  arguments, and answers with the standard output and an error. \<open>Stat\<close> answers whether the
  path is a directory.
\<close>

record host =
  ho_exec :: "call list \<Rightarrow> string \<times> go_error option"
  ho_stat :: "call list \<Rightarrow> bool result"
  ho_text :: "call list \<Rightarrow> string result"
  ho_done :: "call list \<Rightarrow> unit result"
  ho_env :: "call list \<Rightarrow> string"
  ho_rows :: "call list \<Rightarrow> (string \<times> string option) list result"

type_synonym 'a vcs_op = "(call list, 'a) op"

definition ask :: "(call list \<Rightarrow> 'a result) \<Rightarrow> call \<Rightarrow> 'a vcs_op" where
  "ask answer c w = (answer (w @ [c]), w @ [c])"

definition tell :: "call \<Rightarrow> call list \<Rightarrow> call list" where
  "tell c w = w @ [c]"

text \<open>An external program: its output, and its error if it has one.\<close>

definition run_program :: "host \<Rightarrow> call \<Rightarrow> call list \<Rightarrow> (string \<times> go_error option) \<times> call list" where
  "run_program h c w = (ho_exec h (w @ [c]), w @ [c])"

definition git_call :: "string \<Rightarrow> string list \<Rightarrow> string list \<Rightarrow> call" where
  "git_call cwd env args = Exec ''git'' [] env ([''-C'', cwd] @ args)"

fun join_space :: "string list \<Rightarrow> string" where
  "join_space [] = []"
| "join_space [x] = x"
| "join_space (x # y # xs) = x @ '' '' @ join_space (y # xs)"

definition git :: "host \<Rightarrow> string \<Rightarrow> string list \<Rightarrow> string list \<Rightarrow> string vcs_op" where
  "git h cwd env args w =
     (case run_program h (git_call cwd env args) w of
        ((out, None), w') \<Rightarrow> (Inr out, w')
      | ((out, Some e), w') \<Rightarrow> (Inl (ErrWrap (''git '' @ join_space args) e), w'))"

definition jj_call :: "string \<Rightarrow> string list \<Rightarrow> call" where
  "jj_call cwd args = Exec ''jj'' cwd [] ([''--color=never'', ''--no-pager''] @ args)"

definition jj :: "host \<Rightarrow> string \<Rightarrow> string list \<Rightarrow> string vcs_op" where
  "jj h cwd args w =
     (case run_program h (jj_call cwd args) w of
        ((out, None), w') \<Rightarrow> (Inr out, w')
      | ((out, Some e), w') \<Rightarrow> (Inl (ErrWrap (''jj '' @ join_space args) e), w'))"

section \<open>Finding the repository\<close>

datatype backend = backendGit | backendJJ

definition IsAbs :: "string \<Rightarrow> bool" where
  "IsAbs path \<longleftrightarrow> take 1 path = ''/''"

definition Abs :: "host \<Rightarrow> string \<Rightarrow> string vcs_op" where
  "Abs h path = (if IsAbs path then return_op (Clean path)
     else bind_op (ask (ho_text h) Getwd) (\<lambda>wd. return_op (Join [wd, path])))"

function detect_from :: "host \<Rightarrow> string \<Rightarrow> (backend \<times> string) vcs_op" where
  "detect_from h dir w =
     (let w1 = tell (Stat (Join [dir, ''.jj''])) w; w2 = tell (Stat (Join [dir, ''.git''])) w1
      in if ho_stat h w1 = Inr True then (Inr (backendJJ, dir), w1)
         else case ho_stat h w2 of
                Inr _ \<Rightarrow> (Inr (backendGit, dir), w2)
              | Inl _ \<Rightarrow> if Dir dir = dir then (Inl (ErrText ''not inside a git or jj repository''), w2)
                         else detect_from h (Dir dir) w2)"
  by pat_completeness auto
termination by (relation "measure (\<lambda>(h, dir, w). path_measure dir)") (simp_all add: Dir_decreases)

declare detect_from.simps [simp del]

definition detect :: "host \<Rightarrow> string \<Rightarrow> (backend \<times> string) vcs_op" where
  "detect h cwd = bind_op (wrap_op (''resolve '' @ cwd) (Abs h cwd)) (detect_from h)"

definition gitWorkTree :: "host \<Rightarrow> string \<Rightarrow> string vcs_op" where
  "gitWorkTree h cwd = bind_op (wrap_op (''resolve '' @ cwd) (ask (ho_text h) (EvalSymlinks cwd)))
     (\<lambda>resolved. bind_op (detect h resolved) (\<lambda>(kind, dir). return_op dir))"

definition resolveAgainst :: "string \<Rightarrow> string \<Rightarrow> string" where
  "resolveAgainst base path = (if IsAbs path then Clean path else Join [base, path])"

definition gitDir :: "host \<Rightarrow> string \<Rightarrow> string vcs_op" where
  "gitDir h repoRoot =
     (let marker = Join [repoRoot, ''.git'']
      in bind_op (wrap_op (''stat '' @ marker) (ask (ho_stat h) (Stat marker))) (\<lambda>isDir.
         if isDir then return_op marker
         else bind_op (wrap_op (''read '' @ marker) (ask (ho_text h) (ReadFile marker))) (\<lambda>data.
           case cut_prefix (TrimSpace data) ''gitdir:'' of
             None \<Rightarrow> fail_op (ErrFormat ''%s names no gitdir'' [marker])
           | Some target \<Rightarrow>
               let dir = resolveAgainst repoRoot (TrimSpace target)
               in try_op (ask (ho_stat h) (Stat dir)) (\<lambda>fi.
                    if fi = Inr True then return_op dir
                    else fail_op (ErrFormat ''gitdir %s named by %s is not a directory'' [dir, marker])))))"

definition Root :: "host \<Rightarrow> string \<Rightarrow> string vcs_op" where
  "Root h cwd = bind_op (detect h cwd) (\<lambda>(kind, dir).
     if kind = backendJJ then return_op dir
     else bind_op (gitWorkTree h cwd) (\<lambda>root. bind_op (gitDir h root) (\<lambda>_. return_op root)))"

definition Backend :: "host \<Rightarrow> string \<Rightarrow> string vcs_op" where
  "Backend h cwd = bind_op (detect h cwd) (\<lambda>(kind, dir).
     if kind = backendJJ then return_op ''jj''
     else bind_op (gitWorkTree h cwd) (\<lambda>_. return_op ''git''))"

section \<open>What a run may do to the machine\<close>

text \<open>
  The calls that only look are listed: the lookups and the diffs of git with exactly the options
  the package gives them, and \<open>jj log\<close> and \<open>jj diff\<close>. Every other command line is not one of them.
  Two things the list takes as they are: jj takes a snapshot of the working copy into its own
  operation log at the start of every invocation, and the operands are meant as revisions (an
  operand with a leading dash would be read as an option).
\<close>

fun diff_reads :: "string list \<Rightarrow> bool" where
  "diff_reads (sub # args) \<longleftrightarrow>
     take 6 args = [''--no-color'', ''--no-ext-diff'', ''--no-textconv'', ''--no-relative'', ''--src-prefix=a/'', ''--dst-prefix=b/''] \<and>
     (sub = ''diff'' \<and> length args = 8 \<or> sub = ''diff-tree'' \<and> length args = 11 \<and> take 3 (drop 6 args) = [''-r'', ''-M'', ''--patch''])"
| "diff_reads [] \<longleftrightarrow> False"

fun git_reads :: "string list \<Rightarrow> bool" where
  "git_reads (s # args) \<longleftrightarrow>
     s = ''rev-parse'' \<or> s = ''merge-base'' \<and> length args = 2 \<or> s = ''symbolic-ref'' \<and> args = [''--short'', ''-q'', ''HEAD''] \<or>
     s = ''-c'' \<and> take 1 args = [''diff.suppressBlankEmpty=false''] \<and> diff_reads (drop 1 args)"
| "git_reads [] \<longleftrightarrow> False"

definition jj_reads :: "string list \<Rightarrow> bool" where
  "jj_reads args \<longleftrightarrow> length args = 6 \<and>
     (take 3 args = [''log'', ''--no-graph'', ''-r''] \<and> args ! 4 = ''-T'' \<or>
      take 2 args = [''diff'', ''--from''] \<and> args ! 3 = ''--to'' \<and> args ! 5 = ''--git'')"

text \<open>The subcommand of a command line of git.\<close>

definition subcommand :: "string list \<Rightarrow> string" where
  "subcommand args =
     (case drop 2 args of
        [] \<Rightarrow> []
      | a # rest \<Rightarrow> if a = ''-c'' then (case drop 1 rest of [] \<Rightarrow> [] | s # _ \<Rightarrow> s) else a)"

text \<open>The two commands that write an index and objects.\<close>

definition staging :: "string \<Rightarrow> string list \<Rightarrow> bool" where
  "staging prog args \<longleftrightarrow> prog = ''git'' \<and> take 1 args = [''-C''] \<and> drop 2 args \<in> {[''add'', ''-A''], [''write-tree'']}"

fun harmless :: "call \<Rightarrow> bool" where
  "harmless (Exec prog dir env args) \<longleftrightarrow>
     prog = ''git'' \<and> take 1 args = [''-C''] \<and> git_reads (drop 2 args) \<or>
     prog = ''jj'' \<and> take 2 args = [''--color=never'', ''--no-pager''] \<and> jj_reads (drop 2 args)"
| "harmless (Remove p) \<longleftrightarrow> False"
| "harmless (MkdirAll p) \<longleftrightarrow> False"
| "harmless (WriteFile p b) \<longleftrightarrow> False"
| "harmless (CreateTemp p) \<longleftrightarrow> True"
| "harmless (Stat p) \<longleftrightarrow> True"
| "harmless (ReadFile p) \<longleftrightarrow> True"
| "harmless Getwd \<longleftrightarrow> True"
| "harmless (EvalSymlinks p) \<longleftrightarrow> True"
| "harmless (Getenv p) \<longleftrightarrow> True"
| "harmless (QueryMetadata p) \<longleftrightarrow> True"

lemma harmless_git_call: "harmless (git_call cwd env args) \<longleftrightarrow> git_reads args"
  by (simp add: git_call_def)

lemma harmless_jj_call: "harmless (jj_call cwd args) \<longleftrightarrow> jj_reads args"
  by (simp add: jj_call_def)

lemma staging_not_harmless: "staging prog args \<Longrightarrow> \<not> harmless (Exec prog dir env args)"
  by (auto simp: staging_def)

lemma keeps_git_step: "(\<And>w. I w \<Longrightarrow> I (w @ [git_call cwd env args])) \<Longrightarrow> keeps I (git h cwd env args)"
  by (auto simp: keeps_def git_def run_program_def split: prod.split option.split)

text \<open>The interface of the lookups: an invariant of the history that harmless calls keep.\<close>

locale history_inv =
  fixes I :: "call list \<Rightarrow> bool"
  assumes harmless_keeps: "I w \<Longrightarrow> harmless c \<Longrightarrow> I (w @ [c])"
begin

lemma keeps_ask: "harmless c \<Longrightarrow> keeps I (ask f c)"
  by (simp add: keeps_def ask_def harmless_keeps)

lemma keeps_git: "harmless (git_call cwd env args) \<Longrightarrow> keeps I (git h cwd env args)"
  by (rule keeps_git_step) (rule harmless_keeps)

lemma keeps_jj: "jj_reads args \<Longrightarrow> keeps I (jj h cwd args)"
  by (auto simp: keeps_def jj_def run_program_def harmless_keeps harmless_jj_call split: prod.split option.split)

lemma keeps_Abs: "keeps I (Abs h path)"
  unfolding Abs_def by (intro keeps_rules keeps_ask) simp

lemma keeps_detect_from: "keeps I (detect_from h dir)"
proof (rule keepsI)
  fix w show "I w \<Longrightarrow> I (snd (detect_from h dir w))"
  proof (induction h dir w rule: detect_from.induct)
    case (1 h dir w)
    have w: "I (w @ [Stat (Join [dir, ''.jj''])])" "I (w @ [Stat (Join [dir, ''.jj'']), Stat (Join [dir, ''.git''])])"
      using harmless_keeps [of w "Stat (Join [dir, ''.jj''])"] 1(2)
        harmless_keeps [of "w @ [Stat (Join [dir, ''.jj''])]" "Stat (Join [dir, ''.git''])"] by simp_all
    show ?case
      by (subst detect_from.simps) (use 1(1) w in \<open>auto simp: Let_def tell_def split: sum.split\<close>)
  qed
qed

lemma keeps_detect: "keeps I (detect h cwd)"
  unfolding detect_def by (intro keeps_bind keeps_wrap keeps_Abs keeps_detect_from)

lemma keeps_gitWorkTree: "keeps I (gitWorkTree h cwd)"
  unfolding gitWorkTree_def by (intro keeps_rules keeps_ask keeps_detect) simp

lemma keeps_gitDir: "keeps I (gitDir h root)"
  unfolding gitDir_def Let_def by (intro keeps_rules keeps_ask) simp_all

end

end
