(* ===== verification/Vcs_Files.thy ===== *)
theory Vcs_Files
  imports Prelude
begin

text \<open>
  The files of a patch (\<open>vcs/files.go\<close>): the status of each parsed file and the fingerprint of
  its diff. The patch parser \<open>go-gitdiff\<close> and SHA-256 are parameters; the text that is hashed
  is modelled byte for byte, and two diffs with the same text are the same diff.
\<close>

section \<open>The files of a patch\<close>

record diff_line =
  dl_Op :: char
  dl_Line :: string

record text_fragment =
  tf_OldPosition :: int
  tf_OldLines :: int
  tf_NewPosition :: int
  tf_NewLines :: int
  tf_Lines :: "diff_line list"

record diff_file =
  df_OldName :: string
  df_NewName :: string
  df_IsNew :: bool
  df_IsDelete :: bool
  df_IsCopy :: bool
  df_IsRename :: bool
  df_OldMode :: nat
  df_NewMode :: nat
  df_OldOIDPrefix :: string
  df_NewOIDPrefix :: string
  df_TextFragments :: "text_fragment list"
  df_IsBinary :: bool

record FileChange =
  fc_Path :: string
  fc_OldPath :: string
  fc_Status :: string
  fc_Fingerprint :: string

text \<open>Octal numerals, as the verb \<open>%o\<close> prints a file mode.\<close>

fun octal :: "nat \<Rightarrow> string" where
  "octal n = (if n < 8 then [digit_char n] else octal (n div 8) @ [digit_char (n mod 8)])"

declare octal.simps [simp del]

text \<open>A field of the serialization ends with a NUL byte.\<close>

definition nul_field :: "string \<Rightarrow> string" where
  "nul_field s = s @ [CHR 0x00]"

definition fragment_header :: "text_fragment \<Rightarrow> string" where
  "fragment_header f = ''@'' @ itoa (tf_OldPosition f) @ '','' @ itoa (tf_OldLines f) @ '','' @
     itoa (tf_NewPosition f) @ '','' @ itoa (tf_NewLines f)"

definition fragment_text :: "text_fragment \<Rightarrow> string" where
  "fragment_text f = nul_field (fragment_header f) @ concat (map (\<lambda>l. dl_Op l # nul_field (dl_Line l)) (tf_Lines f))"

definition fingerprint_text :: "diff_file \<Rightarrow> string \<Rightarrow> string" where
  "fingerprint_text f status =
     nul_field status @ nul_field (df_OldName f) @ nul_field (df_NewName f) @
     nul_field (octal (df_OldMode f)) @ nul_field (octal (df_NewMode f)) @
     concat (map fragment_text (df_TextFragments f)) @
     (if df_IsBinary f then nul_field (df_OldOIDPrefix f) @ nul_field (df_NewOIDPrefix f) else [])"

definition fingerprint :: "(string \<Rightarrow> string) \<Rightarrow> diff_file \<Rightarrow> string \<Rightarrow> string" where
  "fingerprint sha f status = sha (fingerprint_text f status)"

definition file_change :: "(string \<Rightarrow> string) \<Rightarrow> diff_file \<Rightarrow> FileChange" where
  "file_change sha f =
     (let fc = (if df_IsNew f then \<lparr>fc_Path = df_NewName f, fc_OldPath = [], fc_Status = ''A'', fc_Fingerprint = []\<rparr>
                else if df_IsDelete f then \<lparr>fc_Path = df_OldName f, fc_OldPath = [], fc_Status = ''D'', fc_Fingerprint = []\<rparr>
                else if df_IsRename f then \<lparr>fc_Path = df_NewName f, fc_OldPath = df_OldName f, fc_Status = ''R'', fc_Fingerprint = []\<rparr>
                else if df_IsCopy f then \<lparr>fc_Path = df_NewName f, fc_OldPath = df_OldName f, fc_Status = ''C'', fc_Fingerprint = []\<rparr>
                else \<lparr>fc_Path = df_NewName f, fc_OldPath = [], fc_Status = ''M'', fc_Fingerprint = []\<rparr>)
      in fc\<lparr>fc_Fingerprint := fingerprint sha f (fc_Status fc)\<rparr>)"

text \<open>The third-party code: the patch parser and the hash.\<close>

record patch_tools =
  pt_parse :: "string \<Rightarrow> diff_file list result"
  pt_sha :: "string \<Rightarrow> string"

definition parseFiles :: "patch_tools \<Rightarrow> string \<Rightarrow> FileChange list result" where
  "parseFiles pt patch =
     (case pt_parse pt patch of
        Inl e \<Rightarrow> Inl (ErrWrap ''parse patch'' e)
      | Inr parsed \<Rightarrow> Inr (map (file_change (pt_sha pt)) parsed))"

section \<open>The hashed text determines the diff\<close>

definition nul_free :: "string \<Rightarrow> bool" where
  "nul_free s \<longleftrightarrow> CHR 0x00 \<notin> set s"

text \<open>
  What the parser guarantees of a file: no NUL byte in names and lines, the three kinds of
  lines, and no text in a binary diff, whose object ids are hexadecimal.
\<close>

definition wf_line :: "diff_line \<Rightarrow> bool" where
  "wf_line l \<longleftrightarrow> dl_Op l \<in> set '' +-'' \<and> nul_free (dl_Line l)"

definition wf_diff :: "diff_file \<Rightarrow> bool" where
  "wf_diff f \<longleftrightarrow> nul_free (df_OldName f) \<and> nul_free (df_NewName f) \<and>
     (\<forall>fr \<in> set (df_TextFragments f). \<forall>l \<in> set (tf_Lines fr). wf_line l) \<and>
     (df_IsBinary f \<longrightarrow> df_TextFragments f = [] \<and>
        set (df_OldOIDPrefix f @ df_NewOIDPrefix f) \<subseteq> set ''0123456789abcdef'')"

definition fragment_fields :: "text_fragment \<Rightarrow> string list" where
  "fragment_fields f = fragment_header f # map (\<lambda>l. dl_Op l # dl_Line l) (tf_Lines f)"

definition binary_fields :: "diff_file \<Rightarrow> string list" where
  "binary_fields f = (if df_IsBinary f then [df_OldOIDPrefix f, df_NewOIDPrefix f] else [])"

definition diff_fields :: "diff_file \<Rightarrow> string \<Rightarrow> string list" where
  "diff_fields f status = [status, df_OldName f, df_NewName f, octal (df_OldMode f), octal (df_NewMode f)] @
     concat (map fragment_fields (df_TextFragments f)) @ binary_fields f"

lemma fingerprint_text_fields: "fingerprint_text f status = concat (map nul_field (diff_fields f status))"
proof -
  have "fragment_text fr = concat (map nul_field (fragment_fields fr))" for fr
    by (simp add: fragment_text_def fragment_fields_def nul_field_def comp_def)
  then have "concat (map fragment_text frs) = concat (map nul_field (concat (map fragment_fields frs)))" for frs
    by (induction frs) simp_all
  then show ?thesis by (simp add: fingerprint_text_def diff_fields_def binary_fields_def)
qed

lemma split_at_separator:
  "xs @ d # r = ys @ d # r' \<Longrightarrow> d \<notin> set xs \<Longrightarrow> d \<notin> set ys \<Longrightarrow> xs = ys \<and> r = r'"
proof (induction xs arbitrary: ys)
  case Nil
  then show ?case by (cases ys) auto
next
  case (Cons x xs)
  then show ?case by (cases ys) auto
qed

lemma nul_fields_inject:
  "concat (map nul_field xs) = concat (map nul_field ys) \<Longrightarrow> list_all nul_free xs \<Longrightarrow> list_all nul_free ys \<Longrightarrow> xs = ys"
proof (induction xs arbitrary: ys)
  case Nil
  then show ?case by (cases ys) (simp_all add: nul_field_def)
next
  case (Cons x xs)
  then obtain y zs where ys: "ys = y # zs" by (cases ys) (simp_all add: nul_field_def)
  with Cons.prems have "x = y \<and> concat (map nul_field xs) = concat (map nul_field zs)"
    by (intro split_at_separator [where d = "CHR 0x00"]) (simp_all add: nul_field_def [of x] nul_field_def [of y] nul_free_def)
  with Cons ys show ?case by simp
qed

subsection \<open>Numerals and headers\<close>

definition unoctal :: "string \<Rightarrow> nat" where
  "unoctal cs = foldl (\<lambda>n c. 8 * n + digit_value c) 0 cs"

lemma unoctal_octal: "unoctal (octal n) = n"
proof (induction n rule: octal.induct)
  case (1 n)
  show ?case
  proof (cases "n < 8")
    case False
    then have "unoctal (octal n) = 8 * unoctal (octal (n div 8)) + n mod 8"
      by (subst octal.simps) (simp add: unoctal_def digit_char_cases)
    then show ?thesis using 1 False by simp
  qed (subst octal.simps, simp add: unoctal_def digit_char_cases)
qed

lemma octal_inj: "octal m = octal n \<Longrightarrow> m = n"
  by (metis unoctal_octal)

lemma octal_chars: "set (octal n) \<subseteq> set ''0123456789''"
proof (induction n rule: octal.induct)
  case (1 n)
  then show ?case using digit_char_cases(1) by (subst octal.simps) auto
qed

lemma itoa_chars: "set (itoa i) \<subseteq> set ''-0123456789''"
proof -
  have "set (digits n) \<subseteq> set ''-0123456789''" for n by (rule subset_trans [OF digits_chars]) auto
  then show ?thesis by (simp add: itoa_def)
qed

lemma fragment_header_inject:
  "fragment_header f = fragment_header g \<Longrightarrow> tf_OldPosition f = tf_OldPosition g \<and> tf_OldLines f = tf_OldLines g \<and>
     tf_NewPosition f = tf_NewPosition g \<and> tf_NewLines f = tf_NewLines g"
proof -
  have comma: "CHR '','' \<notin> set (itoa i)" for i using itoa_chars [of i] by auto
  assume "fragment_header f = fragment_header g"
  then show ?thesis
    by (auto simp: fragment_header_def dest!: split_at_separator [OF _ comma comma] dest: itoa_inj)
qed

lemma fragments_inject:
  assumes "concat (map fragment_fields fs) = concat (map fragment_fields gs)"
    and "\<forall>f \<in> set fs. \<forall>l \<in> set (tf_Lines f). wf_line l" and "\<forall>g \<in> set gs. \<forall>l \<in> set (tf_Lines g). wf_line l"
  shows "fs = gs"
  using assms
proof (induction fs arbitrary: gs)
  case Nil
  then show ?case by (cases gs) (auto simp: fragment_fields_def)
next
  case (Cons f fs)
  obtain g gs' where gs: "gs = g # gs'" using Cons.prems by (cases gs) (auto simp: fragment_fields_def)
  let ?line = "\<lambda>l. dl_Op l # dl_Line l"
  let ?head = "\<lambda>xs :: string list. xs = [] \<or> hd (hd xs) = CHR ''@''"
  have rest: "?head (concat (map fragment_fields fs))" for fs
    by (cases fs) (auto simp: fragment_fields_def fragment_header_def)
  have lines: "map ?line ls @ xs = map ?line ms @ ys \<Longrightarrow> ?head xs \<Longrightarrow> ?head ys \<Longrightarrow>
      \<forall>l \<in> set ls. wf_line l \<Longrightarrow> \<forall>l \<in> set ms. wf_line l \<Longrightarrow> ls = ms \<and> xs = ys" for ls ms xs ys
  proof (induction ls arbitrary: ms)
    case Nil
    then show ?case by (cases ms) (auto simp: wf_line_def)
  next
    case (Cons l ls)
    then show ?case by (cases ms) (auto simp: wf_line_def)
  qed
  have header: "fragment_header f = fragment_header g"
    and "map ?line (tf_Lines f) @ concat (map fragment_fields fs) = map ?line (tf_Lines g) @ concat (map fragment_fields gs')"
    using Cons.prems(1) by (simp_all add: gs fragment_fields_def [of f] fragment_fields_def [of g])
  with Cons.prems(2,3) have "tf_Lines f = tf_Lines g \<and> concat (map fragment_fields fs) = concat (map fragment_fields gs')"
    by (intro lines rest) (auto simp: gs)
  with header fragment_header_inject [of f g] Cons.IH [of gs'] Cons.prems show ?case by (simp add: gs)
qed

lemma nul_free_simps [simp]: "nul_free []" "nul_free (c # s) \<longleftrightarrow> c \<noteq> CHR 0x00 \<and> nul_free s"
    "nul_free (s @ t) \<longleftrightarrow> nul_free s \<and> nul_free t" "nul_free (octal n)" "nul_free (itoa i)"
  using octal_chars [of n] itoa_chars [of i] by (auto simp: nul_free_def)

lemma wf_line_nul_free: "wf_line l \<Longrightarrow> nul_free (dl_Op l # dl_Line l)"
  by (auto simp: wf_line_def)

lemma hex_nul_free: "set s \<subseteq> set ''0123456789abcdef'' \<Longrightarrow> nul_free s"
  by (auto simp: nul_free_def)

lemma diff_fields_nul_free:
  assumes "wf_diff f" and "nul_free st"
  shows "list_all nul_free (diff_fields f st)"
proof -
  have "nul_free (fragment_header fr)" for fr by (simp add: fragment_header_def)
  moreover have "list_all nul_free (binary_fields f)"
    using assms(1) hex_nul_free by (simp add: wf_diff_def binary_fields_def)
  ultimately show ?thesis
    using assms wf_line_nul_free by (auto simp: wf_diff_def diff_fields_def fragment_fields_def list_all_iff
        simp del: nul_free_simps(2))
qed

text \<open>
  A fingerprint identifies a diff. The text that is hashed determines the status, the names,
  the modes, every fragment with every line, and for a binary diff the object ids: two files
  with the same text have the same diff, so that fingerprints differ whenever SHA-256 does.
\<close>

theorem fingerprint_identifies:
  assumes "fingerprint_text f st = fingerprint_text g st'"
    and "wf_diff f" "wf_diff g" "nul_free st" "nul_free st'"
  shows "st = st' \<and> df_OldName f = df_OldName g \<and> df_NewName f = df_NewName g \<and>
    df_OldMode f = df_OldMode g \<and> df_NewMode f = df_NewMode g \<and>
    df_TextFragments f = df_TextFragments g \<and> binary_fields f = binary_fields g"
proof -
  have wf: "list_all nul_free (diff_fields h s)" if "wf_diff h" "nul_free s" for h s
    using that by (rule diff_fields_nul_free)
  then have "diff_fields f st = diff_fields g st'"
    using assms by (intro nul_fields_inject) (simp_all add: fingerprint_text_fields)
  then have same: "st = st'" "df_OldName f = df_OldName g" "df_NewName f = df_NewName g"
      "df_OldMode f = df_OldMode g" "df_NewMode f = df_NewMode g"
    and tail: "concat (map fragment_fields (df_TextFragments f)) @ binary_fields f =
      concat (map fragment_fields (df_TextFragments g)) @ binary_fields g"
    by (auto simp: diff_fields_def dest: octal_inj)
  have only_text: "binary_fields h = [] \<or> df_TextFragments h = [] \<and> hd (binary_fields h) \<noteq> fragment_header fr \<and>
      length (binary_fields h) = 2" if "wf_diff h" for h fr
    using that by (auto simp: wf_diff_def binary_fields_def fragment_header_def)
  have no_text: "df_TextFragments k = []"
    if "df_TextFragments h = []" "wf_diff h" "binary_fields h = concat (map fragment_fields (df_TextFragments k)) @ binary_fields k"
    for h k
  proof (cases "df_TextFragments k")
    case (Cons fr frs)
    with that(3) have "binary_fields h \<noteq> []" "hd (binary_fields h) = fragment_header fr"
      by (simp_all add: fragment_fields_def)
    with only_text [OF that(2), of fr] show ?thesis by simp
  qed simp
  have "df_TextFragments f = df_TextFragments g \<and> binary_fields f = binary_fields g"
  proof (cases "df_TextFragments f = [] \<or> df_TextFragments g = []")
    case True
    then have "df_TextFragments f = []" "df_TextFragments g = []"
      using no_text [of f g] no_text [of g f] tail assms(2,3) by auto
    with tail show ?thesis by simp
  next
    case False
    with only_text [OF assms(2)] only_text [OF assms(3)] have "binary_fields f = []" "binary_fields g = []" by auto
    with tail assms(2,3) show ?thesis by (auto simp: wf_diff_def intro: fragments_inject)
  qed
  with same show ?thesis by simp
qed

definition sample_diff :: "char \<Rightarrow> diff_file" where
  "sample_diff c = \<lparr>df_OldName = ''a'', df_NewName = ''a'', df_IsNew = False, df_IsDelete = False, df_IsCopy = False,
     df_IsRename = False, df_OldMode = 33188, df_NewMode = 33188, df_OldOIDPrefix = ''e69de29'', df_NewOIDPrefix = ''4b825dc'',
     df_TextFragments = [\<lparr>tf_OldPosition = 1, tf_OldLines = 0, tf_NewPosition = 1, tf_NewLines = 1,
       tf_Lines = [\<lparr>dl_Op = CHR ''+'', dl_Line = [c, CHR 0x0A]\<rparr>]\<rparr>], df_IsBinary = False\<rparr>"

theorem fingerprint_identifies_witness:
  "fingerprint_text (sample_diff (CHR ''x'')) ''M'' \<noteq> fingerprint_text (sample_diff (CHR ''y'')) ''M'' \<and>
   fingerprint_text (sample_diff (CHR ''x'')) ''M'' = fingerprint_text ((sample_diff (CHR ''x''))\<lparr>df_IsCopy := True\<rparr>) ''M'' \<and>
   df_TextFragments (sample_diff (CHR ''x'')) = df_TextFragments ((sample_diff (CHR ''x''))\<lparr>df_IsCopy := True\<rparr>)"
proof -
  have wf: "wf_diff (sample_diff c)" "wf_diff ((sample_diff c)\<lparr>df_IsCopy := True\<rparr>)" "nul_free ''M''"
    if "c \<noteq> CHR 0x00" for c
    using that by (auto simp: wf_diff_def wf_line_def nul_free_def sample_diff_def)
  have eq: "fingerprint_text (sample_diff (CHR ''x'')) ''M'' = fingerprint_text ((sample_diff (CHR ''x''))\<lparr>df_IsCopy := True\<rparr>) ''M''"
    by (simp add: fingerprint_text_def sample_diff_def)
  have "fingerprint_text (sample_diff (CHR ''x'')) ''M'' \<noteq> fingerprint_text (sample_diff (CHR ''y'')) ''M''"
  proof
    assume same: "fingerprint_text (sample_diff (CHR ''x'')) ''M'' = fingerprint_text (sample_diff (CHR ''y'')) ''M''"
    have "df_TextFragments (sample_diff (CHR ''x'')) = df_TextFragments (sample_diff (CHR ''y''))"
      using fingerprint_identifies [OF same] wf [of "CHR ''x''"] wf [of "CHR ''y''"] by simp
    then show False by (simp add: sample_diff_def)
  qed
  then show ?thesis using eq by (simp add: sample_diff_def)
qed

end
