(* ===== verification/Vcs_Capture.thy ===== *)
theory Vcs_Capture
  imports Vcs_Host Vcs_Files
begin

text \<open>
  Capturing pending changes (\<open>vcs/vcs.go\<close>, \<open>vcs/git.go\<close>, \<open>vcs/jj.go\<close>): the diff of the working
  tree against a base commit, by git through a throwaway index or by jj. A capture stages
  only into an index of its own and removes only that, and the base it records is the
  base the patch was taken against, whatever moves in the repository meanwhile.
\<close>

section \<open>Snapshots\<close>

record Snapshot =
  sn_RepoRoot :: string
  sn_Branch :: string
  sn_BaseRef :: string
  sn_PatchText :: string
  sn_Files :: "FileChange list"

section \<open>git\<close>

definition emptyTree :: string where
  "emptyTree = ''4b825dc642cb6eb9a060e54bf8d69288fbee4904''"

definition gitRoot :: "host \<Rightarrow> string \<Rightarrow> string vcs_op" where
  "gitRoot h cwd = bind_op (wrap_op ''resolve repo root'' (git h cwd [] [''rev-parse'', ''--show-toplevel'']))
     (\<lambda>out. return_op (TrimSpace out))"

text \<open>The output of \<open>symbolic-ref\<close> counts even when it fails.\<close>

definition gitIdentity :: "host \<Rightarrow> string \<Rightarrow> (string \<times> string) vcs_op" where
  "gitIdentity h cwd = bind_op (gitRoot h cwd) (\<lambda>repoRoot w.
     case run_program h (git_call cwd [] [''symbolic-ref'', ''--short'', ''-q'', ''HEAD'']) w of
       ((branch, _), w') \<Rightarrow> (Inr (repoRoot, TrimSpace branch), w'))"

definition gitPatch :: "host \<Rightarrow> string \<Rightarrow> string list \<Rightarrow> string \<Rightarrow> string list \<Rightarrow> string vcs_op" where
  "gitPatch h cwd env sub args =
     git h cwd env ([''-c'', ''diff.suppressBlankEmpty=false'', sub, ''--no-color'', ''--no-ext-diff'',
       ''--no-textconv'', ''--no-relative'', ''--src-prefix=a/'', ''--dst-prefix=b/''] @ args)"

definition stage_cleanup :: "string \<Rightarrow> call list \<Rightarrow> call list" where
  "stage_cleanup tmpPath w = tell (Remove (tmpPath @ ''.lock'')) (tell (Remove tmpPath) w)"

definition index_env :: "string \<Rightarrow> string list" where
  "index_env absIndex = [''GIT_INDEX_FILE='' @ absIndex]"

text \<open>The environment for the staged index, and the path its cleanup removes.\<close>

definition gitStage :: "host \<Rightarrow> string \<Rightarrow> (string list \<times> string) vcs_op" where
  "gitStage h cwd =
     bind_op (wrap_op ''create temp index'' (ask (ho_text h) (CreateTemp ''cc-interact-index-*''))) (\<lambda>tmpPath.
     bind_op (effect_op (tell (Remove tmpPath))) (\<lambda>_.
     onfail_op
       (bind_op (Abs h tmpPath) (\<lambda>absIndex.
          let env = index_env absIndex
          in bind_op (wrap_op ''stage working tree'' (git h cwd env [''add'', ''-A''])) (\<lambda>_. return_op (env, tmpPath))))
       (stage_cleanup tmpPath)))"

definition gitMergeBase :: "host \<Rightarrow> string \<Rightarrow> string \<Rightarrow> string vcs_op" where
  "gitMergeBase h cwd ref =
     bind_op (wrap_op (''resolve merge-base of '' @ ref @ '' and HEAD'') (git h cwd [] [''merge-base'', ref, ''HEAD'']))
       (\<lambda>out. return_op (TrimSpace out))"

definition trunk_candidates :: "(string \<times> string) list" where
  "trunk_candidates = [(''main'', ''refs/heads/main''), (''master'', ''refs/heads/master''),
     (''origin/main'', ''refs/remotes/origin/main''), (''origin/master'', ''refs/remotes/origin/master'')]"

fun first_trunk :: "host \<Rightarrow> string \<Rightarrow> (string \<times> string) list \<Rightarrow> (string \<times> string) vcs_op" where
  "first_trunk h cwd [] = fail_op (ErrText ''no uncommitted changes and no trunk branch found'')"
| "first_trunk h cwd ((name, ref) # rest) = try_op (git h cwd [] [''rev-parse'', ''--verify'', ''-q'', ref])
     (\<lambda>r. case r of Inr _ \<Rightarrow> return_op (name, ref) | Inl _ \<Rightarrow> first_trunk h cwd rest)"

definition gitTrunk :: "host \<Rightarrow> string \<Rightarrow> (string \<times> string) vcs_op" where
  "gitTrunk h cwd = first_trunk h cwd trunk_candidates"

definition lift_result :: "'a result \<Rightarrow> 'a vcs_op" where
  "lift_result r w = (r, w)"

definition snapshot_of :: "patch_tools \<Rightarrow> string \<Rightarrow> string \<Rightarrow> string \<Rightarrow> string \<Rightarrow> Snapshot vcs_op" where
  "snapshot_of pt repoRoot branch base patch = bind_op (lift_result (parseFiles pt patch)) (\<lambda>files.
     return_op \<lparr>sn_RepoRoot = repoRoot, sn_Branch = branch, sn_BaseRef = base, sn_PatchText = patch, sn_Files = files\<rparr>)"

text \<open>The fallback to the trunk's fork point; the staged index is used again.\<close>

definition trunk_fallback :: "host \<Rightarrow> patch_tools \<Rightarrow> string \<Rightarrow> string \<Rightarrow> string \<Rightarrow> string list \<Rightarrow> Snapshot vcs_op" where
  "trunk_fallback h pt cwd repoRoot branch env =
     bind_op (gitTrunk h cwd) (\<lambda>(trunk, ref).
     bind_op (gitMergeBase h cwd ref) (\<lambda>base.
     bind_op (wrap_op (''diff against trunk '' @ trunk) (gitPatch h cwd env ''diff'' [''--cached'', base])) (\<lambda>patch.
       if TrimSpace patch = [] then fail_op (ErrWrap (''working tree matches HEAD and trunk '' @ trunk) ErrNoChanges)
       else snapshot_of pt repoRoot branch base patch)))"

definition has_head :: "host \<Rightarrow> string \<Rightarrow> bool vcs_op" where
  "has_head h cwd = try_op (git h cwd [] [''rev-parse'', ''--verify'', ''-q'', ''HEAD''])
     (\<lambda>r. return_op (case r of Inr _ \<Rightarrow> True | Inl _ \<Rightarrow> False))"

definition session_base :: "host \<Rightarrow> string \<Rightarrow> string \<Rightarrow> bool \<Rightarrow> string vcs_op" where
  "session_base h cwd baseRef hasHEAD =
     (if baseRef \<noteq> [] then gitMergeBase h cwd baseRef
      else if hasHEAD then bind_op (wrap_op ''resolve HEAD'' (git h cwd [] [''rev-parse'', ''HEAD''])) (\<lambda>out. return_op (TrimSpace out))
      else return_op emptyTree)"

definition gitCapture :: "host \<Rightarrow> patch_tools \<Rightarrow> string \<Rightarrow> string \<Rightarrow> Snapshot vcs_op" where
  "gitCapture h pt cwd baseRef =
     bind_op (gitIdentity h cwd) (\<lambda>(repoRoot, branch).
     bind_op (has_head h cwd) (\<lambda>hasHEAD.
     bind_op (session_base h cwd baseRef hasHEAD) (\<lambda>base.
     bind_op (gitStage h cwd) (\<lambda>(env, tmpPath).
     finally_op
       (bind_op (wrap_op ''diff working tree'' (gitPatch h cwd env ''diff'' [''--cached'', base])) (\<lambda>patch.
          if TrimSpace patch = [] then
            (if baseRef \<noteq> [] then fail_op (ErrWrap (''working tree matches the fork point of '' @ baseRef) ErrNoChanges)
             else if \<not> hasHEAD then fail_op (ErrWrap ''empty repository'' ErrNoChanges)
             else trunk_fallback h pt cwd repoRoot branch env)
          else snapshot_of pt repoRoot branch base patch))
       (stage_cleanup tmpPath)))))"

definition gitCaptureAt :: "host \<Rightarrow> patch_tools \<Rightarrow> string \<Rightarrow> string \<Rightarrow> Snapshot vcs_op" where
  "gitCaptureAt h pt cwd base =
     bind_op (gitIdentity h cwd) (\<lambda>(repoRoot, branch).
     bind_op (gitStage h cwd) (\<lambda>(env, tmpPath).
     finally_op
       (bind_op (wrap_op (''diff against base '' @ base) (gitPatch h cwd env ''diff'' [''--cached'', base])) (\<lambda>patch.
          if TrimSpace patch = [] then fail_op (ErrWrap (''working tree matches base '' @ base) ErrNoChanges)
          else snapshot_of pt repoRoot branch base patch))
       (stage_cleanup tmpPath)))"

section \<open>jj\<close>

definition commit_template :: string where
  "commit_template = ''commit_id.shortest(12) ++ '' @ [CHR 0x22, CHR 0x5C, CHR ''n'', CHR 0x22]"

definition jj_log :: "host \<Rightarrow> string \<Rightarrow> string \<Rightarrow> string \<Rightarrow> string vcs_op" where
  "jj_log h cwd revset template = jj h cwd [''log'', ''--no-graph'', ''-r'', revset, ''-T'', template]"

definition jj_diff :: "host \<Rightarrow> string \<Rightarrow> string \<Rightarrow> string vcs_op" where
  "jj_diff h cwd base = jj h cwd [''diff'', ''--from'', base, ''--to'', ''@'', ''--git'']"

definition jjBranch :: "host \<Rightarrow> string \<Rightarrow> string vcs_op" where
  "jjBranch h cwd =
     bind_op (wrap_op ''resolve bookmark'' (jj_log h cwd ''latest(::@ & bookmarks())''
       (''local_bookmarks.map(|b| b.name()).join('' @ [CHR 0x22, CHR '' '', CHR 0x22] @ '')''))) (\<lambda>out.
     case Fields out of
       name # _ \<Rightarrow> return_op name
     | [] \<Rightarrow> bind_op (wrap_op ''resolve change id'' (jj_log h cwd ''@'' ''change_id.shortest(8)'')) (\<lambda>out'.
               return_op (TrimSpace out')))"

definition jjForkPoint :: "string \<Rightarrow> string" where
  "jjForkPoint revset = ''latest(heads(::('' @ revset @ '') & ::@))''"

definition jjCaptureFrom :: "host \<Rightarrow> patch_tools \<Rightarrow> string \<Rightarrow> string \<Rightarrow> string \<Rightarrow> string \<Rightarrow> string \<Rightarrow> Snapshot vcs_op" where
  "jjCaptureFrom h pt cwd repoRoot branch from desc =
     bind_op (wrap_op (''resolve '' @ desc) (jj_log h cwd from commit_template)) (\<lambda>baseOut.
     let base = cut_before (CHR 0x0A) baseOut
     in bind_op (wrap_op (''diff from '' @ desc) (jj_diff h cwd base)) (\<lambda>patch.
          if TrimSpace patch = [] then fail_op (ErrWrap (''working copy matches '' @ desc) ErrNoChanges)
          else snapshot_of pt repoRoot branch base patch))"

fun first_bookmark :: "host \<Rightarrow> string \<Rightarrow> string list \<Rightarrow> string vcs_op" where
  "first_bookmark h cwd [] = fail_op (ErrText ''no uncommitted changes and no trunk bookmark found'')"
| "first_bookmark h cwd (name # rest) =
     (let revset = ''bookmarks(exact:'' @ [CHR 0x22] @ name @ [CHR 0x22] @ '')''
      in bind_op (wrap_op (''resolve bookmark '' @ name) (jj_log h cwd revset [CHR 0x22, CHR ''x'', CHR 0x22])) (\<lambda>out.
           if TrimSpace out \<noteq> [] then return_op revset else first_bookmark h cwd rest))"

definition jjTrunk :: "host \<Rightarrow> string \<Rightarrow> string vcs_op" where
  "jjTrunk h cwd =
     bind_op (wrap_op ''resolve trunk'' (jj_log h cwd ''trunk() & root()'' [CHR 0x22, CHR ''x'', CHR 0x22])) (\<lambda>atRoot.
       if TrimSpace atRoot = [] then return_op ''trunk()'' else first_bookmark h cwd [''main'', ''master''])"

definition jjCapture :: "host \<Rightarrow> patch_tools \<Rightarrow> string \<Rightarrow> string \<Rightarrow> string \<Rightarrow> Snapshot vcs_op" where
  "jjCapture h pt cwd repoRoot baseRef =
     bind_op (jjBranch h cwd) (\<lambda>branch.
       if baseRef \<noteq> [] then jjCaptureFrom h pt cwd repoRoot branch (jjForkPoint baseRef) (''the fork point of '' @ baseRef)
       else bind_op (wrap_op ''resolve base commit'' (jj_log h cwd ''@-'' commit_template)) (\<lambda>baseOut.
         let base = cut_before (CHR 0x0A) baseOut
         in bind_op (wrap_op ''diff working copy'' (jj_diff h cwd base)) (\<lambda>patch.
              if TrimSpace patch = [] then
                bind_op (jjTrunk h cwd) (\<lambda>trunk. jjCaptureFrom h pt cwd repoRoot branch (jjForkPoint trunk) (''trunk '' @ trunk))
              else snapshot_of pt repoRoot branch base patch)))"

definition jjCaptureAt :: "host \<Rightarrow> patch_tools \<Rightarrow> string \<Rightarrow> string \<Rightarrow> string \<Rightarrow> Snapshot vcs_op" where
  "jjCaptureAt h pt cwd repoRoot base =
     bind_op (jjBranch h cwd) (\<lambda>branch. jjCaptureFrom h pt cwd repoRoot branch base (''base '' @ base))"

section \<open>Capture\<close>

definition Capture :: "host \<Rightarrow> patch_tools \<Rightarrow> string \<Rightarrow> string \<Rightarrow> Snapshot vcs_op" where
  "Capture h pt cwd base = bind_op (detect h cwd) (\<lambda>(kind, dir).
     if kind = backendJJ then jjCapture h pt cwd dir base else gitCapture h pt cwd base)"

definition CaptureAt :: "host \<Rightarrow> patch_tools \<Rightarrow> string \<Rightarrow> string \<Rightarrow> Snapshot vcs_op" where
  "CaptureAt h pt cwd base = bind_op (detect h cwd) (\<lambda>(kind, dir).
     if kind = backendJJ then jjCaptureAt h pt cwd dir base else gitCaptureAt h pt cwd base)"

section \<open>The lookups are harmless\<close>

context history_inv
begin

lemma keeps_gitRoot: "keeps I (gitRoot h cwd)"
  unfolding gitRoot_def by (intro keeps_rules keeps_git) (simp add: harmless_git_call)

lemma keeps_gitIdentity: "keeps I (gitIdentity h cwd)"
proof -
  have "harmless (git_call cwd [] [''symbolic-ref'', ''--short'', ''-q'', ''HEAD''])"
    by (simp add: harmless_git_call)
  then show ?thesis unfolding gitIdentity_def
    by (intro keeps_bind keeps_gitRoot keepsI) (auto simp: run_program_def harmless_keeps split: prod.split)
qed

lemma keeps_gitPatch:
  "sub = ''diff'' \<and> length args = 2 \<or> sub = ''diff-tree'' \<and> length args = 5 \<and> take 3 args = [''-r'', ''-M'', ''--patch''] \<Longrightarrow>
   keeps I (gitPatch h cwd env sub args)"
  unfolding gitPatch_def by (rule keeps_git) (auto simp: harmless_git_call)

lemma keeps_gitMergeBase: "keeps I (gitMergeBase h cwd ref)"
  unfolding gitMergeBase_def by (intro keeps_rules keeps_git) (simp add: harmless_git_call)

lemma keeps_first_trunk: "keeps I (first_trunk h cwd cs)"
proof (induction cs)
  case (Cons c cs)
  then show ?case by (cases c) (auto intro!: keeps_rules keeps_git simp: harmless_git_call)
qed (simp add: keeps_fail)

lemma keeps_has_head: "keeps I (has_head h cwd)"
  unfolding has_head_def by (intro keeps_rules keeps_git) (simp add: harmless_git_call)

lemma keeps_session_base: "keeps I (session_base h cwd baseRef hasHEAD)"
  unfolding session_base_def by (intro keeps_rules keeps_gitMergeBase keeps_git) (simp add: harmless_git_call)

lemma keeps_snapshot_of: "keeps I (snapshot_of pt repoRoot branch base patch)"
  unfolding snapshot_of_def by (intro keeps_rules) (simp add: keeps_def lift_result_def)

lemma keeps_trunk_fallback: "keeps I (trunk_fallback h pt cwd repoRoot branch env)"
  unfolding trunk_fallback_def gitTrunk_def
  by (intro keeps_rules keeps_first_trunk keeps_gitMergeBase keeps_gitPatch keeps_snapshot_of) simp

lemma keeps_jj_log: "keeps I (jj_log h cwd r t)"
  unfolding jj_log_def by (rule keeps_jj) (simp add: jj_reads_def)

lemma keeps_jj_diff: "keeps I (jj_diff h cwd base)"
  unfolding jj_diff_def by (rule keeps_jj) (simp add: jj_reads_def)

lemma keeps_jjBranch: "keeps I (jjBranch h cwd)"
  unfolding jjBranch_def by (intro keeps_rules keeps_jj_log)

lemma keeps_first_bookmark: "keeps I (first_bookmark h cwd names)"
  by (induction names) (auto intro!: keeps_rules keeps_jj_log simp: Let_def)

lemma keeps_jjTrunk: "keeps I (jjTrunk h cwd)"
  unfolding jjTrunk_def by (intro keeps_rules keeps_jj_log keeps_first_bookmark)

lemma keeps_jjCaptureFrom: "keeps I (jjCaptureFrom h pt cwd repoRoot branch from desc)"
  unfolding jjCaptureFrom_def Let_def by (intro keeps_rules keeps_jj_log keeps_jj_diff keeps_snapshot_of)

lemma keeps_jjCapture: "keeps I (jjCapture h pt cwd repoRoot baseRef)"
  unfolding jjCapture_def Let_def
  by (intro keeps_rules keeps_jjBranch keeps_jj_log keeps_jj_diff keeps_jjTrunk keeps_jjCaptureFrom keeps_snapshot_of)

lemma keeps_jjCaptureAt: "keeps I (jjCaptureAt h pt cwd repoRoot base)"
  unfolding jjCaptureAt_def by (intro keeps_rules keeps_jjBranch keeps_jjCaptureFrom)

end

section \<open>The caller's index is never touched\<close>

text \<open>
  \<open>created h w t\<close>: the machine gave out the temporary file \<open>t\<close> during \<open>w\<close>; \<open>own_index h w p\<close>: \<open>p\<close> is
  the absolute path of such a file. A run is \<open>tidy\<close> with a set of scratch paths of its own when
  every call only looks, or stages into an index of its own (a temporary file it was given, or
  a scratch path), or removes a temporary file it was given (or that index's lock), or writes or
  removes one of the scratch paths.
\<close>

definition created :: "host \<Rightarrow> call list \<Rightarrow> string \<Rightarrow> bool" where
  "created h w t \<longleftrightarrow> (\<exists>i p. i < length w \<and> w ! i = CreateTemp p \<and> ho_text h (take (Suc i) w) = Inr t)"

definition absolute :: "host \<Rightarrow> call list \<Rightarrow> string \<Rightarrow> string \<Rightarrow> bool" where
  "absolute h w t p \<longleftrightarrow> (if IsAbs t then p = Clean t
     else (\<exists>i wd. i < length w \<and> w ! i = Getwd \<and> ho_text h (take (Suc i) w) = Inr wd \<and> p = Join [wd, t]))"

definition own_index :: "host \<Rightarrow> call list \<Rightarrow> string \<Rightarrow> bool" where
  "own_index h w p \<longleftrightarrow> (\<exists>t. created h w t \<and> absolute h w t p)"

fun tidy_call :: "host \<Rightarrow> string set \<Rightarrow> call list \<Rightarrow> call \<Rightarrow> bool" where
  "tidy_call h A w (Remove p) \<longleftrightarrow> p \<in> A \<or> (\<exists>t. created h w t \<and> (p = t \<or> p = t @ ''.lock''))"
| "tidy_call h A w (MkdirAll p) \<longleftrightarrow> p \<in> A"
| "tidy_call h A w (WriteFile p b) \<longleftrightarrow> p \<in> A"
| "tidy_call h A w (Exec prog dir env args) \<longleftrightarrow> harmless (Exec prog dir env args) \<or>
     staging prog args \<and> (\<exists>p. ''GIT_INDEX_FILE='' @ p \<in> set env \<and> (p \<in> A \<or> own_index h w p))"
| "tidy_call h A w c \<longleftrightarrow> True"

definition tidy :: "host \<Rightarrow> string set \<Rightarrow> call list \<Rightarrow> bool" where
  "tidy h A w \<longleftrightarrow> (\<forall>i < length w. tidy_call h A (take i w) (w ! i))"

lemma tidy_snoc [simp]: "tidy h A (w @ [c]) \<longleftrightarrow> tidy h A w \<and> tidy_call h A w c"
  by (auto simp: tidy_def nth_append less_Suc_eq)

lemma created_snoc: "created h w t \<Longrightarrow> created h (w @ [c]) t"
  unfolding created_def by (auto simp: nth_append)

lemma absolute_snoc: "absolute h w t p \<Longrightarrow> absolute h (w @ [c]) t p"
  unfolding absolute_def by (auto simp: nth_append split: if_splits)

lemma absolute_wd: "\<not> IsAbs t \<Longrightarrow> ho_text h (w @ [Getwd]) = Inr wd \<Longrightarrow> absolute h (w @ [Getwd]) t (Join [wd, t])"
  unfolding absolute_def by (auto intro!: exI [of _ "length w"])

lemma created_temp: "ho_text h (w @ [CreateTemp p]) = Inr t \<Longrightarrow> created h (w @ [CreateTemp p]) t"
  unfolding created_def by (intro exI [of _ "length w"]) simp

lemma harmless_tidy: "harmless c \<Longrightarrow> tidy_call h A w c"
  by (cases c) auto

interpretation tidy_run: history_inv "tidy h A" for h A
  by unfold_locales (simp add: harmless_tidy)

interpretation tidy_temp: history_inv "\<lambda>w. tidy h A w \<and> created h w t" for h A t
  by unfold_locales (simp add: harmless_tidy created_snoc)

lemma stage_cleanup_tidy: "tidy h A w \<and> created h w t \<Longrightarrow> tidy h A (stage_cleanup t w)"
proof -
  assume t: "tidy h A w \<and> created h w t"
  then have "tidy h A (w @ [Remove t])" "created h (w @ [Remove t]) t" by (auto simp: created_snoc)
  then have "tidy h A ((w @ [Remove t]) @ [Remove (t @ ''.lock'')])" by (subst tidy_snoc) auto
  then show ?thesis by (simp add: stage_cleanup_def tell_def)
qed

lemma gitStage_tidy: "triple (tidy h A) (gitStage h cwd) (\<lambda>(env, t) w. tidy h A w \<and> created h w t) (tidy h A)"
  unfolding gitStage_def Let_def
proof (rule triple_bind [where R = "\<lambda>t w. tidy h A w \<and> created h w t"])
  show "triple (tidy h A) (wrap_op ''create temp index'' (ask (ho_text h) (CreateTemp ''cc-interact-index-*'')))
      (\<lambda>t w. tidy h A w \<and> created h w t) (tidy h A)"
    by (rule triple_wrap, rule tripleI) (auto simp: ask_def created_temp)
next
  fix t
  let ?I = "\<lambda>w. tidy h A w \<and> created h w t"
  have add: "triple (\<lambda>w. ?I w \<and> absolute h w t p) (git h cwd (index_env p) [''add'', ''-A'']) (\<lambda>_. ?I) ?I" for p
  proof -
    have "''GIT_INDEX_FILE='' @ p \<in> set (index_env p)" by (simp add: index_env_def)
    then have "?I (w @ [git_call cwd (index_env p) [''add'', ''-A'']])" if "?I w \<and> absolute h w t p" for w
      using that unfolding tidy_snoc by (auto simp: git_call_def created_snoc staging_def own_index_def)
    then show ?thesis by (intro tripleI) (auto simp: git_def run_program_def split: prod.splits option.splits)
  qed
  have abs: "triple ?I (Abs h t) (\<lambda>p w. ?I w \<and> absolute h w t p) ?I"
    by (rule tripleI) (auto simp: Abs_def bind_op_def return_op_def ask_def created_snoc absolute_wd absolute_def
        split: if_splits sum.splits)
  have staged: "triple ?I (bind_op (Abs h t) (\<lambda>p. bind_op (wrap_op ''stage working tree'' (git h cwd (index_env p) [''add'', ''-A'']))
        (\<lambda>_. return_op (index_env p, t)))) (\<lambda>(env, t) w. tidy h A w \<and> created h w t) ?I"
    by (intro triple_bind [OF abs] triple_bind [OF triple_wrap [OF add]] triple_return) simp
  show "triple ?I (bind_op (effect_op (tell (Remove t))) (\<lambda>_. onfail_op (bind_op (Abs h t) (\<lambda>p.
      bind_op (wrap_op ''stage working tree'' (git h cwd (index_env p) [''add'', ''-A'']))
        (\<lambda>_. return_op (index_env p, t)))) (stage_cleanup t)))
      (\<lambda>(env, t) w. tidy h A w \<and> created h w t) (tidy h A)"
    by (rule triple_bind [where R = "\<lambda>_. ?I"], rule triple_effect)
       (auto simp: tell_def created_snoc intro!: triple_onfail [OF staged] stage_cleanup_tidy)
qed

lemma staged_tidy:
  assumes "\<And>env t. keeps (\<lambda>w. tidy h A w \<and> created h w t) (m env t)"
  shows "keeps (tidy h A) (bind_op (gitStage h cwd) (\<lambda>(env, t). finally_op (m env t) (stage_cleanup t)))"
proof (intro triple_keeps triple_bind [OF gitStage_tidy])
  fix p :: "string list \<times> string"
  have "triple (\<lambda>w. tidy h A w \<and> created h w t) (finally_op (m env t) (stage_cleanup t)) (\<lambda>_. tidy h A) (tidy h A)" for env t
    by (rule triple_finally [OF keeps_triple [OF assms]]) (auto intro: stage_cleanup_tidy)
  then show "triple ((\<lambda>(env, t) w. tidy h A w \<and> created h w t) p)
      (case p of (env, t) \<Rightarrow> finally_op (m env t) (stage_cleanup t)) (\<lambda>_. tidy h A) (tidy h A)"
    by (cases p) simp
qed

lemma gitCapture_tidy: "keeps (tidy h A) (gitCapture h pt cwd baseRef)"
  unfolding gitCapture_def
  by (intro keeps_rules staged_tidy tidy_run.keeps_gitIdentity tidy_run.keeps_has_head tidy_run.keeps_session_base
      tidy_temp.keeps_gitPatch tidy_temp.keeps_trunk_fallback tidy_temp.keeps_snapshot_of) simp

lemma gitCaptureAt_tidy: "keeps (tidy h A) (gitCaptureAt h pt cwd base)"
  unfolding gitCaptureAt_def
  by (intro keeps_rules staged_tidy tidy_run.keeps_gitIdentity tidy_temp.keeps_gitPatch tidy_temp.keeps_snapshot_of) simp

lemma Capture_tidy: "keeps (tidy h A) (Capture h pt cwd base)" "keeps (tidy h A) (CaptureAt h pt cwd base)"
  unfolding Capture_def CaptureAt_def
  by (intro keeps_rules gitCapture_tidy gitCaptureAt_tidy tidy_run.keeps_detect tidy_run.keeps_jjCapture
      tidy_run.keeps_jjCaptureAt)+

section \<open>The recorded base is the base of the patch\<close>

text \<open>
  \<open>answered h w0 c out w\<close>: in the part of the history after \<open>w0\<close> the program of \<open>c\<close> ran without
  error and printed \<open>out\<close>.
\<close>

definition answered :: "host \<Rightarrow> call list \<Rightarrow> call \<Rightarrow> string \<Rightarrow> call list \<Rightarrow> bool" where
  "answered h w0 c out w \<longleftrightarrow> (\<exists>u v. w = w0 @ u @ c # v \<and> ho_exec h (w0 @ u @ [c]) = (out, None))"

definition after :: "call list \<Rightarrow> call list \<Rightarrow> bool" where
  "after w0 w \<longleftrightarrow> (\<exists>v. w = w0 @ v)"

lemma answered_snoc: "answered h w0 c out w \<Longrightarrow> answered h w0 c out (w @ [c'])"
  unfolding answered_def by fastforce

lemma after_snoc: "after w0 w \<Longrightarrow> after w0 (w @ [c])"
  unfolding after_def by fastforce

lemma after_refl [simp]: "after w w"
  by (simp add: after_def)

lemma after_append: "after w0 w \<Longrightarrow> after w0 (w @ v)"
  by (auto simp: after_def)

lemma after_trans: "after u v \<Longrightarrow> after v w \<Longrightarrow> after u w"
  by (auto simp: after_def)

lemma answered_after: "answered h w0 c out w \<Longrightarrow> after w w' \<Longrightarrow> answered h w0 c out w'"
  unfolding answered_def after_def by fastforce

interpretation later: history_inv "after w0" for w0
  by unfold_locales (rule after_snoc)

lemma answered_now: "after w0 w \<Longrightarrow> ho_exec h (w @ [c]) = (out, None) \<Longrightarrow> answered h w0 c out (w @ [c])"
  unfolding after_def answered_def by fastforce

lemma git_answered: "triple (after w0) (git h cwd env args) (\<lambda>out w. after w0 w \<and> answered h w0 (git_call cwd env args) out w) (\<lambda>_. True)"
  by (rule tripleI) (auto simp: git_def run_program_def after_snoc answered_now split: prod.splits option.splits)

lemma jj_answered: "triple (after w0) (jj h cwd args) (\<lambda>out w. after w0 w \<and> answered h w0 (jj_call cwd args) out w) (\<lambda>_. True)"
  by (rule tripleI) (auto simp: jj_def run_program_def after_snoc answered_now split: prod.splits option.splits)

text \<open>The commands that diff the working copy against a commit.\<close>

definition diff_call :: "string \<Rightarrow> string \<Rightarrow> call \<Rightarrow> bool" where
  "diff_call cwd base c \<longleftrightarrow>
     c = jj_call cwd [''diff'', ''--from'', base, ''--to'', ''@'', ''--git''] \<or>
     (\<exists>p. c = git_call cwd (index_env p) ([''-c'', ''diff.suppressBlankEmpty=false'', ''diff'', ''--no-color'', ''--no-ext-diff'',
       ''--no-textconv'', ''--no-relative'', ''--src-prefix=a/'', ''--dst-prefix=b/''] @ [''--cached'', base]))"

definition pinned :: "host \<Rightarrow> patch_tools \<Rightarrow> string \<Rightarrow> call list \<Rightarrow> Snapshot \<Rightarrow> call list \<Rightarrow> bool" where
  "pinned h pt cwd w0 S w \<longleftrightarrow>
     (\<exists>c. diff_call cwd (sn_BaseRef S) c \<and> answered h w0 c (sn_PatchText S) w) \<and>
     TrimSpace (sn_PatchText S) \<noteq> [] \<and> parseFiles pt (sn_PatchText S) = Inr (sn_Files S)"

lemma pinned_cleanup: "pinned h pt cwd w0 S w \<Longrightarrow> pinned h pt cwd w0 S (stage_cleanup t w)"
  unfolding pinned_def stage_cleanup_def tell_def by (meson answered_snoc)

lemma snapshot_of_pinned:
  assumes "diff_call cwd base c" and "TrimSpace patch \<noteq> []"
  shows "triple (\<lambda>w. after w0 w \<and> answered h w0 c patch w) (snapshot_of pt repoRoot branch base patch)
    (pinned h pt cwd w0) (\<lambda>_. True)"
  by (rule tripleI)
     (use assms in \<open>auto simp: snapshot_of_def bind_op_def lift_result_def return_op_def pinned_def split: sum.splits\<close>)

text \<open>A diff, and the snapshot unless it is blank.\<close>

lemma diff_pinned:
  assumes "triple (after w0) m (\<lambda>out w. after w0 w \<and> answered h w0 c out w) (\<lambda>_. True)" and "diff_call cwd base c"
    and "triple (after w0) other (pinned h pt cwd w0) (\<lambda>_. True)"
  shows "triple (after w0) (bind_op (wrap_op msg m) (\<lambda>patch.
      if TrimSpace patch = [] then other else snapshot_of pt repoRoot branch base patch)) (pinned h pt cwd w0) (\<lambda>_. True)"
  by (rule triple_bind [OF triple_wrap [OF assms(1)]], rule triple_if)
     (auto intro: triple_weaken [OF assms(3)] snapshot_of_pinned [OF assms(2)])

lemma fail_pinned: "triple P (fail_op e) Q (\<lambda>_. True)"
  by (rule triple_fail) simp

lemma looks_first: "keeps (after w0) m \<Longrightarrow> (\<And>x. triple (after w0) (k x) Q (\<lambda>_. True)) \<Longrightarrow>
    triple (after w0) (bind_op m k) Q (\<lambda>_. True)"
  by (rule triple_bind [where R = "\<lambda>_. after w0"]) (auto dest: keeps_triple intro: triple_weaken)

lemma gitPatch_pinned:
  assumes "triple (after w0) other (pinned h pt cwd w0) (\<lambda>_. True)"
  shows "triple (after w0) (bind_op (wrap_op msg (gitPatch h cwd (index_env p) ''diff'' [''--cached'', base])) (\<lambda>patch.
      if TrimSpace patch = [] then other else snapshot_of pt repoRoot branch base patch)) (pinned h pt cwd w0) (\<lambda>_. True)"
  unfolding gitPatch_def by (rule diff_pinned [OF git_answered _ assms]) (auto simp: diff_call_def)

lemma jj_diff_pinned:
  assumes "triple (after w0) other (pinned h pt cwd w0) (\<lambda>_. True)"
  shows "triple (after w0) (bind_op (wrap_op msg (jj_diff h cwd base)) (\<lambda>patch.
      if TrimSpace patch = [] then other else snapshot_of pt repoRoot branch base patch)) (pinned h pt cwd w0) (\<lambda>_. True)"
  unfolding jj_diff_def by (rule diff_pinned [OF jj_answered _ assms]) (auto simp: diff_call_def)

lemma gitStage_later: "triple (after w0) (gitStage h cwd) (\<lambda>(env, t) w. after w0 w \<and> (\<exists>p. env = index_env p)) (\<lambda>_. True)"
proof -
  have "keeps (after w0) (git h cwd (index_env p) [''add'', ''-A''])" for p
    by (rule keeps_git_step) (rule after_snoc)
  then show ?thesis
    unfolding gitStage_def Let_def
    by (intro looks_first keeps_wrap later.keeps_ask later.keeps_Abs triple_onfail [where E = "\<lambda>_. True"] triple_return)
       (auto simp: effect_op_def keeps_def tell_def after_snoc)
qed

lemma stage_then:
  assumes "\<And>p t. triple (after w0) (m (index_env p) t) (pinned h pt cwd w0) (\<lambda>_. True)"
  shows "triple (after w0) (bind_op (gitStage h cwd) (\<lambda>(env, t). finally_op (m env t) (stage_cleanup t)))
    (pinned h pt cwd w0) (\<lambda>_. True)"
proof (rule triple_bind [OF gitStage_later])
  fix x :: "string list \<times> string"
  show "triple ((\<lambda>(env, t) w. after w0 w \<and> (\<exists>p. env = index_env p)) x)
      (case x of (env, t) \<Rightarrow> finally_op (m env t) (stage_cleanup t)) (pinned h pt cwd w0) (\<lambda>_. True)"
    by (cases x) (auto intro!: triple_pure triple_finally [OF assms] pinned_cleanup)
qed

lemma gitCapture_pinned: "triple (after w0) (gitCapture h pt cwd baseRef) (pinned h pt cwd w0) (\<lambda>_. True)"
  unfolding gitCapture_def trunk_fallback_def gitTrunk_def
  by (intro looks_first triple_case_prod stage_then gitPatch_pinned triple_if fail_pinned later.keeps_gitIdentity
      later.keeps_has_head later.keeps_session_base later.keeps_first_trunk later.keeps_gitMergeBase)

lemma gitCaptureAt_pinned: "triple (after w0) (gitCaptureAt h pt cwd base) (pinned h pt cwd w0) (\<lambda>_. True)"
  unfolding gitCaptureAt_def
  by (intro looks_first triple_case_prod stage_then gitPatch_pinned fail_pinned later.keeps_gitIdentity)

lemma jjCaptureFrom_pinned:
  "triple (after w0) (jjCaptureFrom h pt cwd repoRoot branch from desc) (pinned h pt cwd w0) (\<lambda>_. True)"
  unfolding jjCaptureFrom_def Let_def
  by (intro looks_first jj_diff_pinned fail_pinned keeps_wrap later.keeps_jj_log)

lemma jjCapture_pinned: "triple (after w0) (jjCapture h pt cwd repoRoot baseRef) (pinned h pt cwd w0) (\<lambda>_. True)"
  unfolding jjCapture_def Let_def
  by (intro looks_first triple_if jjCaptureFrom_pinned jj_diff_pinned keeps_wrap later.keeps_jjBranch
      later.keeps_jj_log later.keeps_jjTrunk)

lemma gitCaptureAt_verbatim: "triple (\<lambda>_. True) (gitCaptureAt h pt cwd base) (\<lambda>S _. sn_BaseRef S = base) (\<lambda>_. True)"
proof -
  have snap: "triple (\<lambda>_. True) (finally_op (bind_op m (\<lambda>patch.
      if TrimSpace patch = [] then fail_op e else snapshot_of pt r b base patch)) c) (\<lambda>S _. sn_BaseRef S = base) (\<lambda>_. True)" for m e r b c
    by (rule tripleI)
       (auto simp: finally_op_def bind_op_def snapshot_of_def lift_result_def return_op_def fail_op_def
         split: prod.splits sum.splits if_splits)
  show ?thesis unfolding gitCaptureAt_def
    by (intro triple_bind [where R = "\<lambda>_ _. True"] triple_case_prod snap) (simp_all add: triple_def split: prod.split sum.split)
qed

text \<open>
  C26: The recorded base is the base of the patch. Whatever git and jj answer, and however the
  repository moves between two commands, a successful capture carries a patch that one diff
  command of this run printed, that is not blank, that was taken against exactly the commit
  recorded as the base, and whose files are the parse of that patch; with git a pinned
  base is recorded verbatim.
\<close>

theorem capture_pinned:
  assumes "Capture h pt cwd base w = (Inr S, w') \<or> CaptureAt h pt cwd base w = (Inr S, w')"
  shows "pinned h pt cwd w S w' \<and> (gitCaptureAt h pt cwd base w = (Inr S, w') \<longrightarrow> sn_BaseRef S = base)"
proof
  have "triple (after w) (Capture h pt cwd base) (pinned h pt cwd w) (\<lambda>_. True)"
    "triple (after w) (CaptureAt h pt cwd base) (pinned h pt cwd w) (\<lambda>_. True)"
    unfolding Capture_def CaptureAt_def jjCaptureAt_def
    by (intro looks_first triple_case_prod triple_if gitCapture_pinned gitCaptureAt_pinned jjCapture_pinned
        jjCaptureFrom_pinned later.keeps_detect later.keeps_jjBranch)+
  then show "pinned h pt cwd w S w'" using assms after_refl triple_success by metis
  show "gitCaptureAt h pt cwd base w = (Inr S, w') \<longrightarrow> sn_BaseRef S = base"
    using triple_success [OF gitCaptureAt_verbatim] by fastforce
qed

text \<open>A machine with one commit on main, one changed file, and a directory \<open>/repo\<close>.\<close>

definition sample_host :: host where
  "sample_host = \<lparr>
     ho_exec = (\<lambda>w. case last w of
         Exec prog dir env args \<Rightarrow>
           (if subcommand args = ''diff'' then (''diff --git'', None)
            else if subcommand args = ''rev-parse'' then (''c0ffee'' @ [CHR 0x0A], None)
            else (''main'', None))
       | _ \<Rightarrow> ([], None)),
     ho_stat = (\<lambda>w. if last w = Stat ''/repo/.git'' then Inr True else Inl ErrNotExist),
     ho_text = (\<lambda>w. Inr ''/tmp/index''), ho_done = (\<lambda>w. Inr ()), ho_env = (\<lambda>w. []), ho_rows = (\<lambda>w. Inr [])\<rparr>"

definition sample_tools :: patch_tools where
  "sample_tools = \<lparr>pt_parse = (\<lambda>_. Inr []), pt_sha = (\<lambda>s. take 4 s)\<rparr>"

lemma sample_capture:
  "\<exists>S w'. Capture sample_host sample_tools ''/repo/sub'' [] [] = (Inr S, w') \<and> sn_BaseRef S = ''c0ffee''"
proof -
  have "case Capture sample_host sample_tools ''/repo/sub'' [] [] of (Inr S, w') \<Rightarrow> sn_BaseRef S = ''c0ffee'' | _ \<Rightarrow> False"
    by code_simp
  then show ?thesis by (auto split: prod.splits sum.splits)
qed

theorem capture_pinned_witness:
  "\<exists>S w'. Capture sample_host sample_tools ''/repo/sub'' [] [] = (Inr S, w') \<and> sn_BaseRef S = ''c0ffee'' \<and>
     pinned sample_host sample_tools ''/repo/sub'' [] S w'"
  using sample_capture capture_pinned by blast

end
