(* ===== verification/Vcs_Stack.thy ===== *)
theory Vcs_Stack
  imports Prelude
begin

text \<open>
  The order of the branches of a Graphite stack (\<open>stackBranches\<close> and \<open>upstackBranches\<close> of
  \<open>vcs/graphite.go\<close>): the chain from the checked-out branch down to the trunk, trunk-most first,
  then the descendants of the branch in preorder. The metadata is a Go map from a branch to its
  parent, here an association list with distinct keys; the walk sorts the children of a
  branch, so the order of the list does not matter. \<open>visited\<close> is a list used as a set.
\<close>

section \<open>The walks\<close>

record branchMeta =
  bm_ParentBranch :: string

type_synonym branch_map = "(string \<times> branchMeta) list"

definition children_of :: "branch_map \<Rightarrow> string \<Rightarrow> string list" where
  "children_of meta node = sort (map fst (filter (\<lambda>(b, m). bm_ParentBranch m = node) meta))"

text \<open>The loop from the current branch to the trunk.\<close>

function downstack :: "branch_map \<Rightarrow> string \<Rightarrow> string \<Rightarrow> string list \<Rightarrow> string list \<Rightarrow> (string list \<times> string list) result" where
  "downstack meta trunk b visited chain =
     (if b = trunk then Inr (chain, visited)
      else if b \<in> set visited then Inl (ErrFormat ''branch metadata cycle at %q'' [b])
      else case map_of meta b of
             None \<Rightarrow> Inl (ErrFormat ''branch %q is not tracked by graphite'' [b])
           | Some m \<Rightarrow>
               if bm_ParentBranch m = [] then Inl (ErrFormat ''branch %q has no parent in its metadata'' [b])
               else downstack meta trunk (bm_ParentBranch m) (b # visited) (chain @ [b]))"
  by pat_completeness auto
termination
proof (relation "measure (\<lambda>(meta, trunk, b, visited, chain). card (fst ` set meta - set visited))", goal_cases)
  case (2 meta trunk b visited chain m)
  then have "b \<in> fst ` set meta" by (auto simp: dest: map_of_SomeD intro: rev_image_eqI)
  with 2 have "fst ` set meta - set (b # visited) \<subset> fst ` set meta - set visited" by auto
  then show ?case by (simp add: psubset_card_mono)
qed simp

declare downstack.simps [simp del]

text \<open>
  The recursion of \<open>upstackBranches\<close> over the remaining children of a branch; the second
  component of the result is the shared set of visited branches.
\<close>

function upstack_children :: "branch_map \<Rightarrow> string list \<Rightarrow> string list \<Rightarrow> (string list \<times> string list) result" where
  "upstack_children meta [] visited = Inr ([], visited)"
| "upstack_children meta (c # cs) visited =
     (if c \<in> set visited then Inl (ErrFormat ''branch metadata cycle at %q'' [c])
      else case upstack_children meta (children_of meta c) (c # visited) of
             Inl e \<Rightarrow> Inl e
           | Inr (rest, visited') \<Rightarrow>
               (case upstack_children meta cs visited' of
                  Inl e \<Rightarrow> Inl e
                | Inr (rest', visited'') \<Rightarrow> Inr (c # rest @ rest', visited'')))"
  by pat_completeness auto

lemma upstack_children_grows:
  "upstack_children_dom (meta, cs, V) \<Longrightarrow> upstack_children meta cs V = Inr (out, V') \<Longrightarrow> set V \<subseteq> set V'"
proof (induction meta cs V arbitrary: out V' rule: upstack_children.pinduct)
  case (2 meta c cs V)
  then show ?case by (auto simp: upstack_children.psimps split: if_splits sum.splits prod.splits) blast
qed (auto simp: upstack_children.psimps)

definition branch_nodes :: "branch_map \<Rightarrow> string set" where
  "branch_nodes meta = fst ` set meta \<union> (bm_ParentBranch \<circ> snd) ` set meta"

lemma finite_branch_nodes [simp]: "finite (branch_nodes meta - A)"
  by (simp add: branch_nodes_def)

lemma children_of_foreign: "c \<notin> branch_nodes meta \<Longrightarrow> children_of meta c = []"
proof -
  assume "c \<notin> branch_nodes meta"
  then have "filter (\<lambda>(b, m). bm_ParentBranch m = c) meta = []"
    by (force simp: branch_nodes_def filter_empty_conv)
  then show ?thesis by (simp add: children_of_def)
qed

termination upstack_children
proof (relation "inv_image (finite_psubset <*lex*> less_than) (\<lambda>(meta, cs, V). (branch_nodes meta - set V, length cs))",
    goal_cases)
  case 1
  show ?case by (intro wf_inv_image wf_lex_prod wf_finite_psubset wf_less_than)
next
  case (2 meta c cs V)
  then show ?case using children_of_foreign [of c meta] by (cases "c \<in> branch_nodes meta") (auto simp: finite_psubset_def)
next
  case (3 meta c cs V x y z)
  then have "set (c # V) \<subseteq> set z" by (metis upstack_children_grows)
  then show ?case by (auto simp: finite_psubset_def)
qed

definition upstackBranches :: "branch_map \<Rightarrow> string \<Rightarrow> string list \<Rightarrow> (string list \<times> string list) result" where
  "upstackBranches meta node visited = upstack_children meta (children_of meta node) visited"

definition stackBranches :: "branch_map \<Rightarrow> string \<Rightarrow> string \<Rightarrow> string list result" where
  "stackBranches meta trunk current =
     (case downstack meta trunk current [] [] of
        Inl e \<Rightarrow> Inl e
      | Inr (chain, visited) \<Rightarrow>
          (case upstackBranches meta current visited of
             Inl e \<Rightarrow> Inl e
           | Inr (desc, _) \<Rightarrow> Inr (rev chain @ desc)))"

section \<open>What the walks mean\<close>

text \<open>
  The edges from a branch to its parent; each branch has at most one. A \<open>down_path\<close> is the
  chain of tracked branches to the trunk, and \<open>preorder\<close> the preorder of a forest of
  descendants, both without any bookkeeping of visited branches.
\<close>

definition parent_rel :: "branch_map \<Rightarrow> (string \<times> string) set" where
  "parent_rel meta = {(b, p). \<exists>m. map_of meta b = Some m \<and> bm_ParentBranch m = p}"

inductive down_path :: "branch_map \<Rightarrow> string \<Rightarrow> string \<Rightarrow> string list \<Rightarrow> bool" for meta trunk where
  at_trunk: "down_path meta trunk trunk []"
| on_branch: "b \<noteq> trunk \<Longrightarrow> map_of meta b = Some m \<Longrightarrow> bm_ParentBranch m \<noteq> [] \<Longrightarrow>
    down_path meta trunk (bm_ParentBranch m) bs \<Longrightarrow> down_path meta trunk b (b # bs)"

inductive preorder :: "branch_map \<Rightarrow> string list \<Rightarrow> string list \<Rightarrow> bool" for meta where
  no_branch: "preorder meta [] []"
| branch_then: "preorder meta (children_of meta c) out \<Longrightarrow> preorder meta cs out' \<Longrightarrow>
    preorder meta (c # cs) (c # out @ out')"

inductive_cases down_pathE: "down_path meta trunk b bs"

lemma parent_rel_fun: "(b, p) \<in> parent_rel meta \<Longrightarrow> (b, q) \<in> parent_rel meta \<Longrightarrow> p = q"
  by (auto simp: parent_rel_def)

lemma set_children_of: "distinct (map fst meta) \<Longrightarrow> set (children_of meta node) = {b. (b, node) \<in> parent_rel meta}"
  by (force simp: children_of_def parent_rel_def)

lemma distinct_children_of: "distinct (map fst meta) \<Longrightarrow> distinct (children_of meta node)"
  by (simp add: children_of_def distinct_map_filter)

subsection \<open>The chain to the trunk\<close>

lemma down_path_unique: "down_path meta trunk b bs \<Longrightarrow> down_path meta trunk b bs' \<Longrightarrow> bs = bs'"
proof (induction arbitrary: bs' rule: down_path.induct)
  case at_trunk
  then show ?case by (auto elim: down_pathE)
next
  case (on_branch b m bs)
  from on_branch.prems on_branch.hyps(1,2) obtain cs where "bs' = b # cs" "down_path meta trunk (bm_ParentBranch m) cs"
    by (auto elim: down_pathE)
  with on_branch.IH show ?case by simp
qed

lemma down_path_suffix: "down_path meta trunk b bs \<Longrightarrow> c \<in> set bs \<Longrightarrow>
    \<exists>cs. down_path meta trunk c cs \<and> length cs \<le> length bs \<and> c \<noteq> trunk \<and> cs \<noteq> []"
proof (induction rule: down_path.induct)
  case (on_branch b m bs)
  then show ?case using down_path.on_branch [OF on_branch.hyps] by fastforce
qed simp

lemma downstack_path:
  "downstack meta trunk b V chain = Inr (chain', V') \<Longrightarrow>
    \<exists>bs. down_path meta trunk b bs \<and> chain' = chain @ bs \<and> set V' = set V \<union> set bs"
proof (induction meta trunk b V chain rule: downstack.induct)
  case (1 meta trunk b V chain)
  show ?case
  proof (cases "b = trunk")
    case True
    with 1(2) show ?thesis by (auto simp: downstack.simps [of meta trunk trunk] intro: at_trunk)
  next
    case False
    then obtain m where m: "b \<notin> set V" "map_of meta b = Some m" "bm_ParentBranch m \<noteq> []"
      "downstack meta trunk (bm_ParentBranch m) (b # V) (chain @ [b]) = Inr (chain', V')"
      using 1(2) by (auto simp: downstack.simps [of meta trunk b] split: if_splits option.splits)
    from 1(1) [OF False m] obtain bs where "down_path meta trunk (bm_ParentBranch m) bs"
      "chain' = (chain @ [b]) @ bs" "set V' = set (b # V) \<union> set bs" by blast
    then show ?thesis using down_path.on_branch [OF False m(2,3)] by fastforce
  qed
qed

lemma downstack_reaches:
  assumes "down_path meta trunk b bs"
    and "\<And>v. v \<in> set V \<Longrightarrow> \<exists>vs. down_path meta trunk v vs \<and> length bs < length vs"
  shows "\<exists>V'. downstack meta trunk b V chain = Inr (chain @ bs, V')"
  using assms
proof (induction arbitrary: V chain rule: down_path.induct)
  case at_trunk
  then show ?case by (simp add: downstack.simps)
next
  case (on_branch b m bs)
  let ?bs = "b # bs"
  have path: "down_path meta trunk b ?bs" by (rule down_path.on_branch) (use on_branch.hyps in auto)
  have "b \<notin> set V" using on_branch.prems [of b] down_path_unique [OF path] by force
  moreover have "\<exists>V'. downstack meta trunk (bm_ParentBranch m) (b # V) (chain @ [b]) = Inr ((chain @ [b]) @ bs, V')"
    by (rule on_branch.IH) (use path on_branch.prems in fastforce)
  ultimately show ?case using on_branch.hyps(1-3) by (simp add: downstack.simps [of meta trunk b])
qed

subsection \<open>The descendants\<close>

lemma upstack_children_preorder:
  "upstack_children meta cs V = Inr (out, V') \<Longrightarrow>
    preorder meta cs out \<and> set V' = set V \<union> set out \<and> distinct out \<and> set out \<inter> set V = {}"
proof (induction meta cs V arbitrary: out V' rule: upstack_children.induct)
  case (2 meta c cs V)
  from 2(3) obtain rest V1 rest' where c: "c \<notin> set V"
    and r: "upstack_children meta (children_of meta c) (c # V) = Inr (rest, V1)"
    and r': "upstack_children meta cs V1 = Inr (rest', V')" and out: "out = c # rest @ rest'"
    by (auto split: if_splits sum.splits prod.splits)
  from 2(1) [OF c r] 2(2) [OF c r refl r'] show ?case
    by (auto simp: out c intro: preorder.branch_then)
qed (auto intro: no_branch)

lemma preorder_members:
  assumes "distinct (map fst meta)" and "preorder meta cs out"
  shows "set out = {b. \<exists>c \<in> set cs. (b, c) \<in> (parent_rel meta)\<^sup>*}"
  using assms(2)
proof (induction rule: preorder.induct)
  case (branch_then c out cs out')
  have "(b, c) \<in> (parent_rel meta)\<^sup>* \<longleftrightarrow> b = c \<or> (\<exists>d \<in> set (children_of meta c). (b, d) \<in> (parent_rel meta)\<^sup>*)" for b
    unfolding set_children_of [OF assms(1)] by (auto elim: rtranclE intro: rtrancl_into_rtrancl)
  with branch_then.IH show ?case by auto
qed simp

lemma preorder_descendants:
  assumes "distinct (map fst meta)" and "preorder meta (children_of meta c) out"
  shows "set out = {b. (b, c) \<in> (parent_rel meta)\<^sup>+}"
  unfolding preorder_members [OF assms] set_children_of [OF assms(1)] by (auto dest: tranclD2)

text \<open>Each branch has one parent, so two descendants chains of one branch are parts of one chain.\<close>

lemma parent_rel_chain:
  assumes "(b, x) \<in> (parent_rel meta)\<^sup>*" and "(b, y) \<in> (parent_rel meta)\<^sup>*"
  shows "(x, y) \<in> (parent_rel meta)\<^sup>* \<or> (y, x) \<in> (parent_rel meta)\<^sup>*"
  using assms(1)
proof (induction rule: rtrancl_induct)
  case base
  then show ?case using assms(2) by simp
next
  case (step x x')
  then show ?case by (auto elim: converse_rtranclE dest: parent_rel_fun intro: rtrancl_into_rtrancl)
qed

text \<open>A forest: roots none of which descends from another or from itself, no root visited.\<close>

definition forest_roots :: "branch_map \<Rightarrow> string list \<Rightarrow> string list \<Rightarrow> bool" where
  "forest_roots meta cs V \<longleftrightarrow> distinct cs \<and> (\<forall>c \<in> set cs. \<forall>d \<in> set cs. (c, d) \<notin> (parent_rel meta)\<^sup>+) \<and>
     (\<forall>c \<in> set cs. \<forall>b. (b, c) \<in> (parent_rel meta)\<^sup>* \<longrightarrow> b \<notin> set V)"

lemma forest_roots_children:
  assumes "distinct (map fst meta)" and "(c, c) \<notin> (parent_rel meta)\<^sup>+"
    and "\<And>b. (b, c) \<in> (parent_rel meta)\<^sup>+ \<Longrightarrow> b \<notin> set V"
  shows "forest_roots meta (children_of meta c) V"
proof -
  have "(x, c) \<in> parent_rel meta \<Longrightarrow> (y, c) \<in> parent_rel meta \<Longrightarrow> (x, y) \<notin> (parent_rel meta)\<^sup>+" for x y
  proof
    assume x: "(x, c) \<in> parent_rel meta" and y: "(y, c) \<in> parent_rel meta" and "(x, y) \<in> (parent_rel meta)\<^sup>+"
    then have "(c, y) \<in> (parent_rel meta)\<^sup>*" by (metis parent_rel_fun tranclD)
    with y assms(2) show False by (meson rtrancl_into_trancl1)
  qed
  moreover have "(x, c) \<in> parent_rel meta \<Longrightarrow> (b, x) \<in> (parent_rel meta)\<^sup>* \<Longrightarrow> b \<notin> set V" for x b
    using assms(3) by (meson rtrancl_into_trancl1)
  ultimately show ?thesis
    by (simp add: forest_roots_def set_children_of distinct_children_of assms(1))
qed

lemma upstack_children_total:
  assumes "distinct (map fst meta)"
  shows "forest_roots meta cs V \<Longrightarrow> \<exists>out V'. upstack_children meta cs V = Inr (out, V')"
  using assms
proof (induction meta cs V rule: upstack_children.induct)
  case (2 meta c cs V)
  note fr = 2(3) [unfolded forest_roots_def]
  have c: "c \<notin> set V" using fr by auto
  have "forest_roots meta (children_of meta c) (c # V)"
    by (rule forest_roots_children [OF 2(4)]) (use fr in \<open>auto dest: trancl_into_rtrancl\<close>)
  from 2(1) [OF c this 2(4)] obtain rest V1
    where r: "upstack_children meta (children_of meta c) (c # V) = Inr (rest, V1)" by blast
  have V1: "b \<in> set V1 \<longleftrightarrow> b \<in> set V \<or> (b, c) \<in> (parent_rel meta)\<^sup>*" for b
    using upstack_children_preorder [OF r] preorder_members [OF 2(4), of "children_of meta c" rest]
    unfolding set_children_of [OF 2(4)] by (auto elim: rtranclE intro: rtrancl_into_rtrancl)
  have "(b, d) \<in> (parent_rel meta)\<^sup>* \<Longrightarrow> d \<in> set cs \<Longrightarrow> (b, c) \<notin> (parent_rel meta)\<^sup>*" for b d
    using parent_rel_chain [of b c meta d] fr by (auto dest: rtranclD)
  then have "forest_roots meta cs V1" using fr by (auto simp: forest_roots_def V1)
  from 2(2) [OF c r refl this 2(4)] obtain rest' V2 where "upstack_children meta cs V1 = Inr (rest', V2)" by blast
  then show ?case using c r by simp
qed simp

section \<open>The order of a stack\<close>

text \<open>Every branch comes after its parent, the parents of the first ones being \<open>known\<close>.\<close>

primrec parents_first :: "branch_map \<Rightarrow> string set \<Rightarrow> string list \<Rightarrow> bool" where
  "parents_first meta known [] \<longleftrightarrow> True"
| "parents_first meta known (b # bs) \<longleftrightarrow>
     (\<exists>m. map_of meta b = Some m \<and> bm_ParentBranch m \<in> known) \<and> parents_first meta (insert b known) bs"

lemma parents_first_append:
  "parents_first meta known (xs @ ys) \<longleftrightarrow> parents_first meta known xs \<and> parents_first meta (known \<union> set xs) ys"
  by (induction xs arbitrary: known) auto

lemma parents_first_mono: "parents_first meta known bs \<Longrightarrow> known \<subseteq> known' \<Longrightarrow> parents_first meta known' bs"
  by (induction bs arbitrary: known known') (auto, meson insert_mono)

lemma down_path_parents: "down_path meta trunk b bs \<Longrightarrow>
    parents_first meta {trunk} (rev bs) \<and> (b = trunk \<or> b \<in> set bs) \<and> trunk \<notin> set bs"
  by (induction rule: down_path.induct) (auto simp: parents_first_append)

lemma down_path_distinct: "down_path meta trunk b bs \<Longrightarrow> distinct bs"
proof (induction rule: down_path.induct)
  case (on_branch b m bs)
  have "b \<notin> set bs"
  proof
    assume "b \<in> set bs"
    then obtain cs where "down_path meta trunk b cs" "length cs \<le> length bs"
      using down_path_suffix [OF on_branch.hyps(4)] by blast
    then show False using down_path_unique [OF down_path.on_branch [OF on_branch.hyps]] by force
  qed
  then show ?case using on_branch.IH by simp
qed simp

lemma down_path_rtrancl: "down_path meta trunk b bs \<Longrightarrow> c \<in> insert trunk (set bs) \<Longrightarrow> (b, c) \<in> (parent_rel meta)\<^sup>*"
proof (induction rule: down_path.induct)
  case (on_branch b m bs)
  then have "(b, bm_ParentBranch m) \<in> parent_rel meta" by (simp add: parent_rel_def)
  with on_branch show ?case by (auto intro: converse_rtrancl_into_rtrancl)
qed simp

lemma preorder_parents: "preorder meta cs out \<Longrightarrow> distinct (map fst meta) \<Longrightarrow>
    (\<And>c. c \<in> set cs \<Longrightarrow> \<exists>m. map_of meta c = Some m \<and> bm_ParentBranch m \<in> known) \<Longrightarrow> parents_first meta known out"
proof (induction arbitrary: known rule: preorder.induct)
  case (branch_then c out cs out')
  have "parents_first meta (insert c known) out"
    by (rule branch_then.IH(1)) (use branch_then.prems in \<open>auto simp: set_children_of parent_rel_def\<close>)
  moreover have "parents_first meta known out'" by (rule branch_then.IH(2)) (use branch_then.prems in auto)
  ultimately show ?case
    using branch_then.prems(2) [of c] by (auto simp: parents_first_append elim: parents_first_mono)
qed simp

lemma stackBranches_Inr:
  assumes "stackBranches meta trunk current = Inr bs"
  obtains ds V out V' where "down_path meta trunk current ds" "set V = set ds"
    "upstack_children meta (children_of meta current) V = Inr (out, V')" "bs = rev ds @ out"
proof -
  from assms obtain chain V out V' where d: "downstack meta trunk current [] [] = Inr (chain, V)"
    and u: "upstack_children meta (children_of meta current) V = Inr (out, V')" and "bs = rev chain @ out"
    by (auto simp: stackBranches_def upstackBranches_def split: sum.splits prod.splits)
  with downstack_path [OF d] that show ?thesis by auto
qed

lemma stack_cycle_through_trunk:
  assumes "down_path meta trunk current ds" and "(current, current) \<in> (parent_rel meta)\<^sup>+"
  shows "(trunk, current) \<in> (parent_rel meta)\<^sup>+"
proof -
  have "(current, trunk) \<in> (parent_rel meta)\<^sup>*" using down_path_rtrancl [OF assms(1)] by simp
  moreover obtain x where "(current, x) \<in> parent_rel meta" "(x, current) \<in> (parent_rel meta)\<^sup>*"
    using assms(2) by (meson tranclD)
  ultimately show ?thesis
    by (induction rule: rtrancl_induct) (use assms(2) in \<open>auto elim: converse_tranclE dest: parent_rel_fun\<close>)
qed

lemma stack_succeeds_iff:
  assumes "distinct (map fst meta)" and "current \<noteq> trunk"
  shows "(\<exists>bs. stackBranches meta trunk current = Inr bs) \<longleftrightarrow>
    (\<exists>ds. down_path meta trunk current ds) \<and> (trunk, current) \<notin> (parent_rel meta)\<^sup>+"
proof
  assume "\<exists>bs. stackBranches meta trunk current = Inr bs"
  then obtain ds V out V' where ds: "down_path meta trunk current ds" "set V = set ds"
    and u: "upstack_children meta (children_of meta current) V = Inr (out, V')" by (auto elim: stackBranches_Inr)
  have out: "set out = {b. (b, current) \<in> (parent_rel meta)\<^sup>+}"
    using upstack_children_preorder [OF u] preorder_descendants [OF assms(1)] by blast
  obtain d where d: "d \<in> set ds" "(d, trunk) \<in> parent_rel meta"
    using down_path_parents [OF ds(1)] assms(2)
    by (cases "rev ds") (auto simp: parent_rel_def)
  have "(trunk, current) \<notin> (parent_rel meta)\<^sup>+"
  proof
    assume "(trunk, current) \<in> (parent_rel meta)\<^sup>+"
    then have "d \<in> set out" using d(2) out by (auto intro: trancl_into_trancl2)
    then show False using upstack_children_preorder [OF u] d(1) ds(2) by auto
  qed
  with ds(1) show "(\<exists>ds. down_path meta trunk current ds) \<and> (trunk, current) \<notin> (parent_rel meta)\<^sup>+" by blast
next
  assume "(\<exists>ds. down_path meta trunk current ds) \<and> (trunk, current) \<notin> (parent_rel meta)\<^sup>+"
  then obtain ds where ds: "down_path meta trunk current ds" and no: "(trunk, current) \<notin> (parent_rel meta)\<^sup>+" by blast
  obtain V where V: "downstack meta trunk current [] [] = Inr (ds, V)"
    using downstack_reaches [OF ds, of "[]" "[]"] by auto
  then have V_ds: "set V = set ds" using downstack_path [OF V] by auto
  have acyclic: "(current, current) \<notin> (parent_rel meta)\<^sup>+" using stack_cycle_through_trunk [OF ds] no by blast
  have "(b, current) \<in> (parent_rel meta)\<^sup>+ \<Longrightarrow> b \<notin> set V" for b
    using down_path_rtrancl [OF ds, of b] acyclic V_ds by (auto dest: rtrancl_trancl_trancl)
  then obtain out V' where "upstack_children meta (children_of meta current) V = Inr (out, V')"
    using upstack_children_total [OF assms(1)] forest_roots_children [OF assms(1) acyclic] by blast
  then show "\<exists>bs. stackBranches meta trunk current = Inr bs"
    using V by (simp add: stackBranches_def upstackBranches_def)
qed

lemma stack_result:
  assumes "distinct (map fst meta)" and "current \<noteq> trunk" and bs: "stackBranches meta trunk current = Inr bs"
  shows "(\<exists>ds out. down_path meta trunk current ds \<and> preorder meta (children_of meta current) out \<and> bs = rev ds @ out \<and>
         set out = {b. (b, current) \<in> (parent_rel meta)\<^sup>+}) \<and>
      distinct bs \<and> trunk \<notin> set bs \<and> parents_first meta {trunk} bs"
proof -
  from bs obtain ds V out V' where ds: "down_path meta trunk current ds" "set V = set ds" "bs = rev ds @ out"
    and u: "upstack_children meta (children_of meta current) V = Inr (out, V')" by (auto elim: stackBranches_Inr)
  note pre = upstack_children_preorder [OF u]
  have out: "set out = {b. (b, current) \<in> (parent_rel meta)\<^sup>+}"
    using pre preorder_descendants [OF assms(1)] by blast
  have "trunk \<notin> set out" using stack_succeeds_iff [OF assms(1,2)] bs out by auto
  moreover have "parents_first meta (insert trunk (set ds)) out"
    using down_path_parents [OF ds(1)] assms(1,2)
    by (intro preorder_parents [OF conjunct1 [OF pre] assms(1)]) (auto simp: set_children_of parent_rel_def)
  ultimately show "(\<exists>ds out. down_path meta trunk current ds \<and> preorder meta (children_of meta current) out \<and>
         bs = rev ds @ out \<and> set out = {b. (b, current) \<in> (parent_rel meta)\<^sup>+}) \<and>
      distinct bs \<and> trunk \<notin> set bs \<and> parents_first meta {trunk} bs"
    using ds pre out down_path_parents [OF ds(1)] down_path_distinct [OF ds(1)]
    by (auto simp: parents_first_append)
qed

text \<open>
  C24: The order of a Graphite stack. The walk succeeds exactly when the checked-out branch has
  a chain of tracked branches to the trunk and the trunk does not itself descend from it; no
  other cycle or stale row matters. The result is that chain, trunk-most first, followed by
  the preorder of all descendants of the branch: every branch once, the trunk never, each
  after its parent.
\<close>

theorem stack_order:
  assumes "distinct (map fst meta)" and "current \<noteq> trunk"
  shows "((\<exists>bs. stackBranches meta trunk current = Inr bs) \<longleftrightarrow>
      (\<exists>ds. down_path meta trunk current ds) \<and> (trunk, current) \<notin> (parent_rel meta)\<^sup>+) \<and>
    (\<forall>bs. stackBranches meta trunk current = Inr bs \<longrightarrow>
      (\<exists>ds out. down_path meta trunk current ds \<and> preorder meta (children_of meta current) out \<and> bs = rev ds @ out \<and>
         set out = {b. (b, current) \<in> (parent_rel meta)\<^sup>+}) \<and>
      distinct bs \<and> trunk \<notin> set bs \<and> parents_first meta {trunk} bs)"
  using stack_succeeds_iff [OF assms] stack_result [OF assms] by blast

definition sample_stack :: branch_map where
  "sample_stack = [(''ui'', \<lparr>bm_ParentBranch = ''api''\<rparr>), (''api'', \<lparr>bm_ParentBranch = ''db''\<rparr>),
     (''db'', \<lparr>bm_ParentBranch = ''main''\<rparr>), (''docs'', \<lparr>bm_ParentBranch = ''api''\<rparr>),
     (''loop'', \<lparr>bm_ParentBranch = ''loop''\<rparr>)]"

theorem stack_order_witness:
  "stackBranches sample_stack ''main'' ''api'' = Inr [''db'', ''api'', ''docs'', ''ui''] \<and>
   (''main'', ''api'') \<notin> (parent_rel sample_stack)\<^sup>+ \<and>
   parents_first sample_stack {''main''} [''db'', ''api'', ''docs'', ''ui'']"
proof -
  have d: "distinct (map fst sample_stack)" "''api'' \<noteq> ''main''" by (simp_all add: sample_stack_def)
  have ok: "stackBranches sample_stack ''main'' ''api'' = Inr [''db'', ''api'', ''docs'', ''ui'']" by code_simp
  show ?thesis using stack_order [OF d] ok by blast
qed

end
