(* ===== verification/Vcs_Graphite.thy ===== *)
theory Vcs_Graphite
  imports Vcs_Capture Vcs_Stack "HOL-Library.AList"
begin

text \<open>
  Capturing a whole Graphite stack (\<open>vcs/graphite.go\<close>): whether the checkout is stacked, and the
  sections of the stack, one diff per branch against the fork point from its parent and one
  for the uncommitted work. The JSON decoder of Graphite's configuration is an argument.
\<close>

section \<open>Graphite's files\<close>

record StackInfo =
  si_Trunk :: string
  si_Branch :: string

record StackSection =
  ss_Branch :: string
  ss_ParentBranch :: string
  ss_BaseRef :: string
  ss_HeadRef :: string
  ss_PatchText :: string
  ss_Files :: "FileChange list"
  ss_Pending :: bool

record StackSnapshot =
  st_RepoRoot :: string
  st_Trunk :: string
  st_Branch :: string
  st_Sections :: "StackSection list"

definition graphiteCommonDir :: "host \<Rightarrow> string \<Rightarrow> string vcs_op" where
  "graphiteCommonDir h cwd =
     bind_op (wrap_op ''locate git common dir'' (git h cwd [] [''rev-parse'', ''--path-format=absolute'', ''--git-common-dir'']))
       (\<lambda>out. return_op (TrimSpace out))"

text \<open>\<open>None\<close> is a repository without a configuration or without a trunk in it.\<close>

definition graphiteTrunk :: "host \<Rightarrow> (string \<Rightarrow> string result) \<Rightarrow> string \<Rightarrow> string option vcs_op" where
  "graphiteTrunk h decode cwd =
     bind_op (graphiteCommonDir h cwd) (\<lambda>common.
     let path = Join [common, ''.graphite_repo_config'']
     in try_op (ask (ho_text h) (ReadFile path)) (\<lambda>r.
          case r of
            Inl e \<Rightarrow> if err_is e ErrNotExist then return_op None else fail_op (ErrWrap (''read '' @ path) e)
          | Inr data \<Rightarrow>
              (case decode data of
                 Inl e \<Rightarrow> fail_op (ErrWrap (''parse '' @ path) e)
               | Inr trunk \<Rightarrow> return_op (if trunk = [] then None else Some trunk))))"

text \<open>The rows of the metadata table become a Go map; a row with a NULL parent is skipped.\<close>

fun read_rows :: "(string \<times> string option) list \<Rightarrow> branch_map \<Rightarrow> branch_map" where
  "read_rows [] meta = meta"
| "read_rows ((b, None) # rows) meta = read_rows rows meta"
| "read_rows ((b, Some p) # rows) meta = read_rows rows (AList.update b \<lparr>bm_ParentBranch = p\<rparr> meta)"

text \<open>Opening, querying, scanning and closing the database are one answer.\<close>

definition readBranchMetadata :: "host \<Rightarrow> string \<Rightarrow> branch_map vcs_op" where
  "readBranchMetadata h dbPath =
     bind_op (wrap_op dbPath (ask (ho_rows h) (QueryMetadata dbPath))) (\<lambda>rows. return_op (read_rows rows []))"

definition graphiteMeta :: "host \<Rightarrow> string \<Rightarrow> branch_map option vcs_op" where
  "graphiteMeta h cwd =
     bind_op (graphiteCommonDir h cwd) (\<lambda>common.
     let dbPath = Join [common, ''.graphite_metadata.db'']
     in try_op (ask (ho_stat h) (Stat dbPath)) (\<lambda>r.
          case r of
            Inl e \<Rightarrow> if err_is e ErrNotExist then return_op None else fail_op (ErrWrap (''stat '' @ dbPath) e)
          | Inr _ \<Rightarrow> bind_op (readBranchMetadata h dbPath) (\<lambda>m. return_op (Some m))))"

definition DetectStack :: "host \<Rightarrow> (string \<Rightarrow> string result) \<Rightarrow> string \<Rightarrow> StackInfo option vcs_op" where
  "DetectStack h decode cwd =
     bind_op (detect h cwd) (\<lambda>(kind, dir).
     if kind \<noteq> backendGit then return_op None
     else bind_op (graphiteTrunk h decode cwd) (\<lambda>found.
       case found of
         None \<Rightarrow> return_op None
       | Some trunk \<Rightarrow>
           bind_op (gitIdentity h cwd) (\<lambda>(repoRoot, branch).
           if branch = [] \<or> branch = trunk then return_op None
           else bind_op (graphiteMeta h cwd) (\<lambda>present.
             case present of
               None \<Rightarrow> return_op None
             | Some meta \<Rightarrow>
                 return_op (if map_of meta branch = None then None else Some \<lparr>si_Trunk = trunk, si_Branch = branch\<rparr>)))))"

section \<open>The sections\<close>

definition DiffRange :: "host \<Rightarrow> patch_tools \<Rightarrow> string \<Rightarrow> string \<Rightarrow> string \<Rightarrow> StackSection vcs_op" where
  "DiffRange h pt dir base head =
     bind_op (gitPatch h dir [] ''diff'' [base, head]) (\<lambda>patch.
     bind_op (lift_result (parseFiles pt patch)) (\<lambda>files.
     return_op \<lparr>ss_Branch = [], ss_ParentBranch = [], ss_BaseRef = base, ss_HeadRef = head, ss_PatchText = patch,
       ss_Files = files, ss_Pending = False\<rparr>))"

definition branch_tip :: "host \<Rightarrow> string \<Rightarrow> string \<Rightarrow> (string \<times> string) vcs_op" where
  "branch_tip h cwd b =
     bind_op (wrap_op (''resolve tip of '' @ b) (git h cwd [] [''rev-parse'', ''--verify'', ''refs/heads/'' @ b]))
       (\<lambda>out. return_op (b, TrimSpace out))"

text \<open>A missing key of a Go map reads as the empty string.\<close>

definition tip_of :: "(string \<times> string) list \<Rightarrow> string \<Rightarrow> string" where
  "tip_of tips b = (case map_of tips b of None \<Rightarrow> [] | Some t \<Rightarrow> t)"

definition parent_of :: "branch_map \<Rightarrow> string \<Rightarrow> string" where
  "parent_of meta b = (case map_of meta b of None \<Rightarrow> [] | Some m \<Rightarrow> bm_ParentBranch m)"

definition branch_section :: "host \<Rightarrow> patch_tools \<Rightarrow> string \<Rightarrow> branch_map \<Rightarrow> (string \<times> string) list \<Rightarrow> string \<Rightarrow> StackSection vcs_op" where
  "branch_section h pt cwd meta tips b =
     (let parent = parent_of meta b
      in bind_op (wrap_op (''merge-base of '' @ parent @ '' and '' @ b) (git h cwd [] [''merge-base'', tip_of tips parent, tip_of tips b])) (\<lambda>base.
         bind_op (wrap_op (''diff '' @ b @ '' against '' @ parent) (DiffRange h pt cwd (TrimSpace base) (tip_of tips b))) (\<lambda>section.
         return_op (section\<lparr>ss_Branch := b, ss_ParentBranch := parent\<rparr>))))"

definition pending_section :: "host \<Rightarrow> patch_tools \<Rightarrow> string \<Rightarrow> (string \<times> string) list \<Rightarrow> string \<Rightarrow> string list \<Rightarrow> StackSection list vcs_op" where
  "pending_section h pt cwd tips current env =
     bind_op (wrap_op ''diff working tree'' (gitPatch h cwd env ''diff'' [''--cached'', tip_of tips current])) (\<lambda>pending.
     if TrimSpace pending = [] then return_op []
     else bind_op (lift_result (parseFiles pt pending)) (\<lambda>files.
       return_op [\<lparr>ss_Branch = current, ss_ParentBranch = [], ss_BaseRef = tip_of tips current, ss_HeadRef = [],
         ss_PatchText = pending, ss_Files = files, ss_Pending = True\<rparr>]))"

definition CaptureStack :: "host \<Rightarrow> patch_tools \<Rightarrow> (string \<Rightarrow> string result) \<Rightarrow> string \<Rightarrow> StackSnapshot vcs_op" where
  "CaptureStack h pt decode cwd =
     bind_op (DetectStack h decode cwd) (\<lambda>found.
     case found of
       None \<Rightarrow> fail_op (ErrFormat ''capture stack in %s: not a graphite-stacked checkout'' [cwd])
     | Some info \<Rightarrow>
         bind_op (gitRoot h cwd) (\<lambda>repoRoot.
         bind_op (graphiteMeta h cwd) (\<lambda>present.
         let trunk = si_Trunk info; current = si_Branch info; meta = (case present of None \<Rightarrow> [] | Some m \<Rightarrow> m)
         in bind_op (lift_result (stackBranches meta trunk current)) (\<lambda>branches.
            bind_op (each_op (branch_tip h cwd) (trunk # branches)) (\<lambda>tips.
            bind_op (each_op (branch_section h pt cwd meta tips) branches) (\<lambda>sections.
            bind_op (gitStage h cwd) (\<lambda>(env, tmpPath).
            finally_op
              (bind_op (pending_section h pt cwd tips current env) (\<lambda>pending.
                 if (\<forall>s \<in> set sections. TrimSpace (ss_PatchText s) = []) \<and> pending = []
                 then fail_op (ErrWrap ''stack sections and working tree are all empty'' ErrNoChanges)
                 else return_op \<lparr>st_RepoRoot = repoRoot, st_Trunk = trunk, st_Branch = current, st_Sections = sections @ pending\<rparr>))
              (stage_cleanup tmpPath))))))))"

section \<open>Stack captures are tidy\<close>

context history_inv
begin

lemma keeps_graphiteCommonDir: "keeps I (graphiteCommonDir h cwd)"
  unfolding graphiteCommonDir_def by (intro keeps_rules keeps_git) (simp add: harmless_git_call)

lemma keeps_graphiteTrunk: "keeps I (graphiteTrunk h decode cwd)"
  unfolding graphiteTrunk_def Let_def by (intro keeps_rules keeps_graphiteCommonDir keeps_ask) simp

lemma keeps_graphiteMeta: "keeps I (graphiteMeta h cwd)"
  unfolding graphiteMeta_def readBranchMetadata_def Let_def
  by (intro keeps_rules keeps_graphiteCommonDir keeps_ask) simp_all

lemma keeps_DetectStack: "keeps I (DetectStack h decode cwd)"
  unfolding DetectStack_def
  by (intro keeps_rules keeps_detect keeps_graphiteTrunk keeps_gitIdentity keeps_graphiteMeta)

lemma keeps_lift: "keeps I (lift_result r)"
  by (simp add: keeps_def lift_result_def)

lemma keeps_branch_tip: "keeps I (branch_tip h cwd b)"
  unfolding branch_tip_def by (intro keeps_rules keeps_git) (simp add: harmless_git_call)

lemma keeps_branch_section: "keeps I (branch_section h pt cwd meta tips b)"
  unfolding branch_section_def DiffRange_def Let_def
  by (intro keeps_rules keeps_git keeps_gitPatch keeps_lift) (simp_all add: harmless_git_call)

lemma keeps_pending_section: "keeps I (pending_section h pt cwd tips current env)"
  unfolding pending_section_def by (intro keeps_rules keeps_gitPatch keeps_lift) simp

end

lemma CaptureStack_tidy: "keeps (tidy h A) (CaptureStack h pt decode cwd)"
  unfolding CaptureStack_def Let_def
  by (intro keeps_rules keeps_each staged_tidy tidy_run.keeps_DetectStack tidy_run.keeps_gitRoot tidy_run.keeps_graphiteMeta
      tidy_run.keeps_lift tidy_run.keeps_branch_tip tidy_run.keeps_branch_section tidy_temp.keeps_pending_section)

section \<open>What a stack snapshot says\<close>

lemma each_run:
  assumes "each_op f xs w = (Inr ys, w')" and "\<And>x u. keeps (after u) (f x)"
  shows "list_all2 (\<lambda>x y. \<exists>u u'. after w u \<and> f x u = (Inr y, u') \<and> after u' w') xs ys \<and> after w w'"
  using assms(1)
proof (induction xs arbitrary: w ys)
  case (Cons x xs)
  from Cons.prems obtain y w1 ys1 where y: "f x w = (Inr y, w1)" and ys1: "each_op f xs w1 = (Inr ys1, w')" and ys: "ys = y # ys1"
    by (auto dest!: bind_op_Inr simp: return_op_def)
  have w1: "after w w1" using keepsD [OF assms(2) after_refl, of w x] y by simp
  from Cons.IH [OF ys1] have rest: "list_all2 (\<lambda>x y. \<exists>u u'. after w u \<and> f x u = (Inr y, u') \<and> after u' w') xs ys1"
    and w': "after w1 w'" using after_trans [OF w1] by (auto elim!: list_all2_mono)
  have "\<exists>u u'. after w u \<and> f x u = (Inr y, u') \<and> after u' w'" using y w' after_refl by blast
  with rest show ?case by (simp add: ys after_trans [OF w1 w'])
qed (simp add: return_op_def)

lemma git_success: "git h cwd env args u = (Inr out, u') \<Longrightarrow> after w u \<Longrightarrow>
    answered h w (git_call cwd env args) out u' \<and> after u u'"
  using git_answered [of w h cwd env args, THEN triple_success]
  by (auto simp: git_def run_program_def after_def split: prod.splits option.splits)

definition range_call :: "string \<Rightarrow> string \<Rightarrow> string \<Rightarrow> call" where
  "range_call cwd base head = git_call cwd [] ([''-c'', ''diff.suppressBlankEmpty=false'', ''diff'', ''--no-color'', ''--no-ext-diff'',
       ''--no-textconv'', ''--no-relative'', ''--src-prefix=a/'', ''--dst-prefix=b/''] @ [base, head])"

text \<open>The tip of a branch as this run resolved it, and a section as this run computed it.\<close>

definition tip_resolved :: "host \<Rightarrow> string \<Rightarrow> call list \<Rightarrow> call list \<Rightarrow> string \<Rightarrow> string \<times> string \<Rightarrow> bool" where
  "tip_resolved h cwd w0 w b bt \<longleftrightarrow> fst bt = b \<and>
     (\<exists>out. answered h w0 (git_call cwd [] [''rev-parse'', ''--verify'', ''refs/heads/'' @ b]) out w \<and> snd bt = TrimSpace out)"

definition section_of :: "host \<Rightarrow> patch_tools \<Rightarrow> string \<Rightarrow> call list \<Rightarrow> call list \<Rightarrow> branch_map \<Rightarrow> (string \<times> string) list \<Rightarrow> string \<Rightarrow> StackSection \<Rightarrow> bool" where
  "section_of h pt cwd w0 w meta tips b s \<longleftrightarrow>
     ss_Branch s = b \<and> ss_ParentBranch s = parent_of meta b \<and> ss_HeadRef s = tip_of tips b \<and> \<not> ss_Pending s \<and>
     (\<exists>out. answered h w0 (git_call cwd [] [''merge-base'', tip_of tips (parent_of meta b), tip_of tips b]) out w \<and>
        ss_BaseRef s = TrimSpace out) \<and>
     answered h w0 (range_call cwd (ss_BaseRef s) (ss_HeadRef s)) (ss_PatchText s) w \<and>
     parseFiles pt (ss_PatchText s) = Inr (ss_Files s)"

lemma branch_tip_run:
  assumes "branch_tip h cwd b u = (Inr bt, u')" and "after w u" and "after u' w'"
  shows "tip_resolved h cwd w w' b bt"
proof -
  from assms(1) obtain out where out: "git h cwd [] [''rev-parse'', ''--verify'', ''refs/heads/'' @ b] u = (Inr out, u')"
    and bt: "bt = (b, TrimSpace out)"
    by (auto dest!: bind_op_Inr simp: branch_tip_def return_op_def simp del: append.simps)
  show ?thesis using answered_after [OF conjunct1 [OF git_success [OF out assms(2)]] assms(3)]
    unfolding tip_resolved_def bt fst_conv snd_conv by blast
qed

lemma branch_section_run:
  assumes "branch_section h pt cwd meta tips b u = (Inr s, u')" and "after w u" and "after u' w'"
  shows "section_of h pt cwd w w' meta tips b s"
proof -
  let ?mb = "git_call cwd [] [''merge-base'', tip_of tips (parent_of meta b), tip_of tips b]"
  from assms(1) obtain base u1 patch files
    where mb: "git h cwd [] [''merge-base'', tip_of tips (parent_of meta b), tip_of tips b] u = (Inr base, u1)"
      and diff: "gitPatch h cwd [] ''diff'' [TrimSpace base, tip_of tips b] u1 = (Inr patch, u')"
      and files: "parseFiles pt patch = Inr files"
      and s: "s = \<lparr>ss_Branch = b, ss_ParentBranch = parent_of meta b, ss_BaseRef = TrimSpace base, ss_HeadRef = tip_of tips b,
        ss_PatchText = patch, ss_Files = files, ss_Pending = False\<rparr>"
    by (auto dest!: bind_op_Inr simp: branch_section_def DiffRange_def Let_def return_op_def lift_result_def)
  have m: "answered h w ?mb base u1" "after u u1" using git_success [OF mb assms(2)] by auto
  have "answered h w (range_call cwd (TrimSpace base) (tip_of tips b)) patch u'" "after u1 u'"
    using git_success [OF diff [unfolded gitPatch_def] after_trans [OF assms(2) m(2)]] by (auto simp: range_call_def)
  then show ?thesis
    using m assms(3) files by (auto simp: section_of_def s intro: answered_after after_trans)
qed

lemma distinct_read_rows: "distinct (map fst meta) \<Longrightarrow> distinct (map fst (read_rows rows meta))"
  by (induction rows meta rule: read_rows.induct) (auto simp: distinct_update)

lemma DetectStack_branch: "DetectStack h decode cwd w = (Inr (Some info), w') \<Longrightarrow> si_Branch info \<noteq> si_Trunk info"
  by (auto simp: DetectStack_def return_op_def dest!: bind_op_Inr split: prod.splits option.splits if_splits)

lemma graphiteMeta_distinct: "graphiteMeta h cwd w = (Inr (Some meta), w') \<Longrightarrow> distinct (map fst meta)"
  by (auto simp: graphiteMeta_def readBranchMetadata_def Let_def return_op_def fail_op_def try_op_def distinct_read_rows
      dest!: bind_op_Inr split: prod.splits sum.splits if_splits)

text \<open>
  The branch map of a run: the rows its query of the metadata database, in the git directory that
  git named to it, was answered with.
\<close>

definition metadata_read :: "host \<Rightarrow> string \<Rightarrow> call list \<Rightarrow> call list \<Rightarrow> branch_map \<Rightarrow> bool" where
  "metadata_read h cwd w0 w meta \<longleftrightarrow> (\<exists>common u v rows.
     answered h w0 (git_call cwd [] [''rev-parse'', ''--path-format=absolute'', ''--git-common-dir'']) common w \<and>
     (let query = QueryMetadata (Join [TrimSpace common, ''.graphite_metadata.db''])
      in w = w0 @ u @ query # v \<and> ho_rows h (w0 @ u @ [query]) = Inr rows) \<and>
     meta = read_rows rows [])"

lemma graphiteMeta_read:
  assumes "graphiteMeta h cwd u = (Inr (Some meta), u')" and "after w u" and "after u' w'"
  shows "metadata_read h cwd w w' meta"
proof -
  let ?db = "\<lambda>common. Join [TrimSpace common, ''.graphite_metadata.db'']"
  from assms(1) obtain common u1 rows
    where common: "git h cwd [] [''rev-parse'', ''--path-format=absolute'', ''--git-common-dir''] u = (Inr common, u1)"
      and rows: "ho_rows h ((u1 @ [Stat (?db common)]) @ [QueryMetadata (?db common)]) = Inr rows"
      and u': "u' = (u1 @ [Stat (?db common)]) @ [QueryMetadata (?db common)]" and meta: "meta = read_rows rows []"
    by (auto simp: graphiteMeta_def graphiteCommonDir_def readBranchMetadata_def Let_def return_op_def fail_op_def try_op_def ask_def
        dest!: bind_op_Inr split: prod.splits sum.splits if_splits)
  have a: "answered h w (git_call cwd [] [''rev-parse'', ''--path-format=absolute'', ''--git-common-dir'']) common u1" "after u u1"
    using git_success [OF common assms(2)] by auto
  have "after u1 u'" by (simp add: u' after_def)
  then have "after u1 w'" using assms(3) by (rule after_trans)
  then have ans: "answered h w (git_call cwd [] [''rev-parse'', ''--path-format=absolute'', ''--git-common-dir'']) common w'"
    by (rule answered_after [OF a(1)])
  obtain x where x: "u1 = w @ x" using after_trans [OF assms(2) a(2)] by (auto simp: after_def)
  obtain v where "w' = u' @ v" using assms(3) by (auto simp: after_def)
  then have "w' = w @ (x @ [Stat (?db common)]) @ QueryMetadata (?db common) # v"
    "ho_rows h (w @ (x @ [Stat (?db common)]) @ [QueryMetadata (?db common)]) = Inr rows"
    using rows by (simp_all add: u' x)
  then show ?thesis using ans meta unfolding metadata_read_def Let_def by blast
qed

lemma no_stack_unread: "stackBranches [] trunk current = Inr bs \<Longrightarrow> current = trunk"
  by (auto simp: stackBranches_def downstack.simps [of "[]"] split: if_splits)

lemma parents_first_known: "parents_first meta known bs \<Longrightarrow> b \<in> set bs \<Longrightarrow> parent_of meta b \<in> known \<union> set bs"
  by (induction bs arbitrary: known) (auto simp: parent_of_def)

text \<open>The pending section is a diff of the staged tree against the tip of the checked-out branch.\<close>

definition pending_of :: "host \<Rightarrow> patch_tools \<Rightarrow> string \<Rightarrow> call list \<Rightarrow> call list \<Rightarrow> string \<Rightarrow> string \<Rightarrow> StackSection \<Rightarrow> bool" where
  "pending_of h pt cwd w0 w current tip s \<longleftrightarrow>
     ss_Branch s = current \<and> ss_Pending s \<and> ss_BaseRef s = tip \<and> ss_HeadRef s = [] \<and> TrimSpace (ss_PatchText s) \<noteq> [] \<and>
     (\<exists>c. diff_call cwd tip c \<and> answered h w0 c (ss_PatchText s) w) \<and> parseFiles pt (ss_PatchText s) = Inr (ss_Files s)"

lemma pending_section_run:
  assumes "pending_section h pt cwd tips current (index_env p) u = (Inr ps, u')" and "after w u" and "after u' w'"
  shows "ps = [] \<or> (\<exists>s. ps = [s] \<and> pending_of h pt cwd w w' current (tip_of tips current) s)"
proof -
  from assms(1) obtain patch u1
    where diff: "gitPatch h cwd (index_env p) ''diff'' [''--cached'', tip_of tips current] u = (Inr patch, u1)"
      and rest: "(if TrimSpace patch = [] then return_op [] else bind_op (lift_result (parseFiles pt patch)) (\<lambda>files.
        return_op [\<lparr>ss_Branch = current, ss_ParentBranch = [], ss_BaseRef = tip_of tips current, ss_HeadRef = [],
         ss_PatchText = patch, ss_Files = files, ss_Pending = True\<rparr>])) u1 = (Inr ps, u')"
    by (auto dest!: bind_op_Inr simp: pending_section_def)
  have "\<exists>c. diff_call cwd (tip_of tips current) c \<and> answered h w c patch u1"
    using git_success [OF diff [unfolded gitPatch_def] assms(2)] by (auto simp: diff_call_def)
  moreover have "u' = u1" using rest
    by (auto simp: return_op_def lift_result_def dest!: bind_op_Inr split: if_splits)
  ultimately have "\<exists>c. diff_call cwd (tip_of tips current) c \<and> answered h w c patch w'"
    using answered_after [OF _ assms(3)] by blast
  then show ?thesis
    using rest by (auto simp: return_op_def lift_result_def pending_of_def dest!: bind_op_Inr split: if_splits)
qed

lemma CaptureStack_run:
  assumes "CaptureStack h pt decode cwd w = (Inr S, w')"
  obtains meta tips sections pending where
    "metadata_read h cwd w w' meta" "distinct (map fst meta)" "st_Branch S \<noteq> st_Trunk S"
    "stackBranches meta (st_Trunk S) (st_Branch S) = Inr (map ss_Branch sections)"
    "list_all2 (tip_resolved h cwd w w') (st_Trunk S # map ss_Branch sections) tips"
    "list_all (\<lambda>s. section_of h pt cwd w w' meta tips (ss_Branch s) s) sections"
    "st_Sections S = sections @ pending"
    "pending = [] \<or> (\<exists>s. pending = [s] \<and> pending_of h pt cwd w w' (st_Branch S) (tip_of tips (st_Branch S)) s)"
    "\<exists>s \<in> set (st_Sections S). TrimSpace (ss_PatchText s) \<noteq> []"
proof -
  from assms obtain info w1 repoRoot w2 present w3 branches tips w4 sections w5 env t w6 pending w7 where
    d: "DetectStack h decode cwd w = (Inr (Some info), w1)" and r: "gitRoot h cwd w1 = (Inr repoRoot, w2)"
    and m: "graphiteMeta h cwd w2 = (Inr present, w3)"
    and b: "stackBranches (case present of None \<Rightarrow> [] | Some m \<Rightarrow> m) (si_Trunk info) (si_Branch info) = Inr branches"
    and tp: "each_op (branch_tip h cwd) (si_Trunk info # branches) w3 = (Inr tips, w4)"
    and se: "each_op (branch_section h pt cwd (case present of None \<Rightarrow> [] | Some m \<Rightarrow> m) tips) branches w4 = (Inr sections, w5)"
    and st: "gitStage h cwd w5 = (Inr (env, t), w6)"
    and pe: "pending_section h pt cwd tips (si_Branch info) env w6 = (Inr pending, w7)" and w': "w' = stage_cleanup t w7"
    and some: "\<not> ((\<forall>s \<in> set sections. TrimSpace (ss_PatchText s) = []) \<and> pending = [])"
    and S: "S = \<lparr>st_RepoRoot = repoRoot, st_Trunk = si_Trunk info, st_Branch = si_Branch info, st_Sections = sections @ pending\<rparr>"
    unfolding CaptureStack_def Let_def
    by (auto simp: lift_result_def return_op_def fail_op_def dest!: bind_op_Inr finally_opD split: option.splits prod.splits if_splits
        simp del: each_op.simps)
  let ?meta = "case present of None \<Rightarrow> [] | Some m \<Rightarrow> m"
  have 1: "after w w3" using keepsD [OF later.keeps_DetectStack after_refl, of w h decode cwd] keepsD [OF later.keeps_gitRoot after_refl, of w1 h cwd]
      keepsD [OF later.keeps_graphiteMeta after_refl, of w2 h cwd] d r m by (auto intro: after_trans)
  have 2: "list_all2 (\<lambda>x y. \<exists>u u'. after w3 u \<and> branch_tip h cwd x u = (Inr y, u') \<and> after u' w4) (si_Trunk info # branches) tips"
    "after w3 w4" using each_run [OF tp later.keeps_branch_tip] by blast+
  have 3: "list_all2 (\<lambda>x y. \<exists>u u'. after w4 u \<and> branch_section h pt cwd ?meta tips x u = (Inr y, u') \<and> after u' w5) branches sections"
    "after w4 w5" using each_run [OF se later.keeps_branch_section] by blast+
  obtain p where 4: "env = index_env p" "after w5 w6" using triple_success [OF gitStage_later after_refl st] by auto
  have 5: "after w6 w'" using keepsD [OF later.keeps_pending_section after_refl, of w6 h pt cwd tips "si_Branch info" env] pe
    by (simp add: w' stage_cleanup_def tell_def after_append)
  have 6: "after w7 w'" by (simp add: w' stage_cleanup_def tell_def after_append)
  have ends: "after w w4" "after w w6" "after w5 w'" "after w4 w'" using 1 2(2) 3(2) 4(2) 5 by (meson after_trans)+
  have tips: "list_all2 (tip_resolved h cwd w w') (si_Trunk info # branches) tips"
    using 2(1) by (rule list_all2_mono) (meson 1 ends(4) branch_tip_run after_trans)
  have secs: "list_all2 (section_of h pt cwd w w' ?meta tips) branches sections"
    using 3(1) by (rule list_all2_mono) (meson ends(1,3) branch_section_run after_trans)
  then have names: "branches = map ss_Branch sections"
    by (induction rule: list_all2_induct) (auto simp: section_of_def)
  have "list_all (\<lambda>s. section_of h pt cwd w w' ?meta tips (ss_Branch s) s) sections"
    using secs by (simp add: names list_all2_map1 list_all_length list_all2_conv_all_nth)
  moreover have "pending = [] \<or> (\<exists>s. pending = [s] \<and> pending_of h pt cwd w w' (si_Branch info) (tip_of tips (si_Branch info)) s)"
    using pending_section_run [OF pe [unfolded 4(1)] ends(2) 6] .
  moreover have "metadata_read h cwd w w' ?meta"
  proof (cases present)
    case None
    then show ?thesis using no_stack_unread [of "si_Trunk info" "si_Branch info"] b DetectStack_branch [OF d] by simp
  next
    case (Some meta)
    have "after w w2" using keepsD [OF later.keeps_DetectStack after_refl, of w h decode cwd]
        keepsD [OF later.keeps_gitRoot after_refl, of w1 h cwd] d r by (auto intro: after_trans)
    moreover have "after w3 w'" using 2(2) ends(4) by (rule after_trans)
    ultimately show ?thesis using graphiteMeta_read [OF m [unfolded Some]] Some by simp
  qed
  moreover have "distinct (map fst ?meta)" using graphiteMeta_distinct [of h cwd w2] m by (cases present) auto
  ultimately show thesis
    using that [of ?meta sections tips pending] tips names b some DetectStack_branch [OF d]
    by (auto simp: S pending_of_def)
qed

text \<open>
  C25: A stack snapshot is consistent. A successful capture has one section per branch of the
  stack, the whole stack that the metadata this run read describes (down to the trunk and up to every
  descendant of the checked-out branch), in the order of the stack, then at most one for uncommitted work, and not all of them
  are blank. Every tip was resolved by this run; the base of a section is the fork point of
  its branch's tip and its parent's tip, and its patch is the diff between that base and the
  tip. The parent's tip is always among the resolved ones, so no fork point is computed from
  a missing entry.
\<close>

theorem stack_sections_exact:
  assumes "CaptureStack h pt decode cwd w = (Inr S, w')"
  shows "\<exists>meta tips sections pending.
    metadata_read h cwd w w' meta \<and> st_Sections S = sections @ pending \<and>
    stackBranches meta (st_Trunk S) (st_Branch S) = Inr (map ss_Branch sections) \<and>
    map fst tips = st_Trunk S # map ss_Branch sections \<and>
    list_all2 (tip_resolved h cwd w w') (st_Trunk S # map ss_Branch sections) tips \<and>
    (\<forall>s \<in> set sections. section_of h pt cwd w w' meta tips (ss_Branch s) s \<and> ss_ParentBranch s \<in> fst ` set tips) \<and>
    (pending = [] \<or> (\<exists>s. pending = [s] \<and> pending_of h pt cwd w w' (st_Branch S) (tip_of tips (st_Branch S)) s)) \<and>
    (\<exists>s \<in> set (st_Sections S). TrimSpace (ss_PatchText s) \<noteq> [])"
proof -
  from assms obtain meta tips sections pending where
    read: "metadata_read h cwd w w' meta" and dm: "distinct (map fst meta)" "st_Branch S \<noteq> st_Trunk S" and
    b: "stackBranches meta (st_Trunk S) (st_Branch S) = Inr (map ss_Branch sections)" and
    t: "list_all2 (tip_resolved h cwd w w') (st_Trunk S # map ss_Branch sections) tips" and
    s: "list_all (\<lambda>s. section_of h pt cwd w w' meta tips (ss_Branch s) s) sections" and
    rest: "st_Sections S = sections @ pending"
    "pending = [] \<or> (\<exists>s. pending = [s] \<and> pending_of h pt cwd w w' (st_Branch S) (tip_of tips (st_Branch S)) s)"
    "\<exists>s \<in> set (st_Sections S). TrimSpace (ss_PatchText s) \<noteq> []"
    by (rule CaptureStack_run)
  have names: "map fst tips = st_Trunk S # map ss_Branch sections"
    using t by (induction rule: list_all2_induct) (auto simp: tip_resolved_def)
  have "parents_first meta {st_Trunk S} (map ss_Branch sections)" using stack_result [OF dm b] by blast
  then have "\<forall>s \<in> set sections. parent_of meta (ss_Branch s) \<in> set (map fst tips)"
    using parents_first_known unfolding names by fastforce
  then have "\<forall>s \<in> set sections. section_of h pt cwd w w' meta tips (ss_Branch s) s \<and> ss_ParentBranch s \<in> fst ` set tips"
    using s by (auto simp: list_all_iff section_of_def)
  then show ?thesis
    by (intro exI [of _ meta] exI [of _ tips] exI [of _ sections] exI [of _ pending] conjI read b t names rest)
qed

text \<open>A stack of one branch on main, with a commit and a dirty working tree.\<close>

definition stacked_host :: host where
  "stacked_host = \<lparr>
     ho_exec = (\<lambda>w. case last w of
         Exec prog dir env args \<Rightarrow>
           (if subcommand args = ''diff'' then (''d'', None)
            else if subcommand args = ''symbolic-ref'' then (''api'', None)
            else (''c0'', None))
       | _ \<Rightarrow> ([], None)),
     ho_stat = (\<lambda>w. if last w = Stat ''/.jj'' then Inl ErrNotExist else Inr True),
     ho_text = (\<lambda>w. Inr ''main''), ho_done = (\<lambda>w. Inr ()), ho_env = (\<lambda>w. []),
     ho_rows = (\<lambda>w. Inr [(''api'', Some ''main''), (''main'', None)])\<rparr>"

lemma sample_stack_capture:
  "\<exists>S w'. CaptureStack stacked_host sample_tools Inr ''/'' [] = (Inr S, w') \<and> map ss_Branch (st_Sections S) = [''api'', ''api'']"
proof -
  have "case CaptureStack stacked_host sample_tools Inr ''/'' [] of
      (Inr S, w') \<Rightarrow> map ss_Branch (st_Sections S) = [''api'', ''api''] | _ \<Rightarrow> False"
    by code_simp
  then show ?thesis by (auto split: prod.splits sum.splits)
qed

theorem stack_sections_exact_witness:
  "\<exists>S w'. CaptureStack stacked_host sample_tools Inr ''/'' [] = (Inr S, w') \<and>
     map ss_Branch (st_Sections S) = [''api'', ''api''] \<and>
     (\<exists>meta sections pending. metadata_read stacked_host ''/'' [] w' meta \<and> st_Sections S = sections @ pending \<and>
        stackBranches meta (st_Trunk S) (st_Branch S) = Inr (map ss_Branch sections))"
proof -
  obtain S w' where S: "CaptureStack stacked_host sample_tools Inr ''/'' [] = (Inr S, w')"
    "map ss_Branch (st_Sections S) = [''api'', ''api'']" using sample_stack_capture by (elim exE conjE) (rule that)
  obtain meta sections pending where "metadata_read stacked_host ''/'' [] w' meta" "st_Sections S = sections @ pending"
    "stackBranches meta (st_Trunk S) (st_Branch S) = Inr (map ss_Branch sections)"
    using stack_sections_exact [OF S(1)] by (elim exE conjE) (rule that)
  with S show ?thesis by (intro exI [of _ S] exI [of _ w']) auto
qed

end
