(* ===== verification/Vcs_Tree.thy ===== *)
theory Vcs_Tree
  imports Vcs_Graphite
begin

text \<open>
  Snapshots of the working tree at the boundaries of a turn (\<open>vcs/tree.go\<close>): git stages into a
  scratch index and a scratch object directory, seeded from the repository's own index and
  rebuilt once when the staging fails; jj snapshots by itself.
\<close>

section \<open>The scratch area\<close>

record TreeRef =
  tr_Backend :: string
  tr_OID :: string

record gitScratch =
  gs_repoRoot :: string
  gs_index :: string
  gs_env :: "string list"

definition gitLayoutEnv :: "string list" where
  "gitLayoutEnv = [''GIT_DIR'', ''GIT_COMMON_DIR'', ''GIT_OBJECT_DIRECTORY'', ''GIT_WORK_TREE'']"

text \<open>Whether one of the variables is set, reading them until one is.\<close>

fun layout_set :: "host \<Rightarrow> string list \<Rightarrow> bool vcs_op" where
  "layout_set h [] w = (Inr False, w)"
| "layout_set h (key # keys) w =
     (let w' = tell (Getenv key) w in if ho_env h w' \<noteq> [] then (Inr True, w') else layout_set h keys w')"

text \<open>\<open>None\<close> when the layout gives no directory and only git can answer.\<close>

definition repoObjectsDir :: "host \<Rightarrow> string \<Rightarrow> string option vcs_op" where
  "repoObjectsDir h repoRoot =
     bind_op (layout_set h gitLayoutEnv) (\<lambda>relocated.
     if relocated then return_op None
     else try_op (gitDir h repoRoot) (\<lambda>found.
       case found of
         Inl _ \<Rightarrow> return_op None
       | Inr gd \<Rightarrow>
           try_op (ask (ho_text h) (ReadFile (Join [gd, ''commondir'']))) (\<lambda>common.
           let dir = (case common of Inl _ \<Rightarrow> gd | Inr data \<Rightarrow> resolveAgainst gd (TrimSpace data))
           in try_op (Abs h (Join [dir, ''objects''])) (\<lambda>abs.
                case abs of
                  Inl _ \<Rightarrow> return_op None
                | Inr objects \<Rightarrow> try_op (ask (ho_stat h) (Stat objects)) (\<lambda>fi.
                    return_op (if fi = Inr True then Some objects else None))))))"

definition scratch_objects :: "string \<Rightarrow> string" where
  "scratch_objects scratchDir = Join [scratchDir, ''objects'']"

definition scratch_index :: "string \<Rightarrow> string" where
  "scratch_index scratchDir = Join [scratchDir, ''index'']"

definition scratch_env :: "string \<Rightarrow> string \<Rightarrow> string list" where
  "scratch_env scratchDir repoObjects = [''GIT_INDEX_FILE='' @ scratch_index scratchDir,
     ''GIT_OBJECT_DIRECTORY='' @ scratch_objects scratchDir, ''GIT_ALTERNATE_OBJECT_DIRECTORIES='' @ repoObjects]"

definition newGitScratch :: "host \<Rightarrow> string \<Rightarrow> string \<Rightarrow> gitScratch vcs_op" where
  "newGitScratch h repoRoot scratchDir =
     bind_op (wrap_op ''create scratch objects dir'' (ask (ho_done h) (MkdirAll (scratch_objects scratchDir)))) (\<lambda>_.
     bind_op (repoObjectsDir h repoRoot) (\<lambda>found.
     bind_op
       (case found of
          Some objects \<Rightarrow> return_op objects
        | None \<Rightarrow> bind_op (wrap_op ''locate repo objects''
              (git h repoRoot [] [''rev-parse'', ''--path-format=absolute'', ''--git-path'', ''objects''])) (\<lambda>out. return_op (TrimSpace out)))
       (\<lambda>repoObjects. return_op \<lparr>gs_repoRoot = repoRoot, gs_index = scratch_index scratchDir,
          gs_env = scratch_env scratchDir repoObjects\<rparr>)))"

definition seedIndex :: "host \<Rightarrow> gitScratch \<Rightarrow> unit vcs_op" where
  "seedIndex h s =
     try_op (ask (ho_stat h) (Stat (gs_index s))) (\<lambda>fi.
     case fi of
       Inr _ \<Rightarrow> return_op ()
     | Inl e \<Rightarrow>
         if \<not> err_is e ErrNotExist then fail_op (ErrWrap ''stat scratch index'' e)
         else bind_op (wrap_op ''locate repo index''
             (git h (gs_repoRoot s) [] [''rev-parse'', ''--path-format=absolute'', ''--git-path'', ''index''])) (\<lambda>out.
           try_op (ask (ho_text h) (ReadFile (TrimSpace out))) (\<lambda>data.
             case data of
               Inl e' \<Rightarrow> if err_is e' ErrNotExist then return_op () else fail_op (ErrWrap ''read repo index'' e')
             | Inr bytes \<Rightarrow> wrap_op ''seed scratch index'' (ask (ho_done h) (WriteFile (gs_index s) bytes)))))"

definition writeTree :: "host \<Rightarrow> gitScratch \<Rightarrow> string vcs_op" where
  "writeTree h s =
     bind_op (wrap_op ''stage working tree'' (git h (gs_repoRoot s) (gs_env s) [''add'', ''-A''])) (\<lambda>_.
     bind_op (wrap_op ''write tree'' (git h (gs_repoRoot s) (gs_env s) [''write-tree''])) (\<lambda>out. return_op (TrimSpace out)))"

text \<open>A failed attempt removes the scratch index and its lock, seeds again and tries once more.\<close>

definition reseed :: "host \<Rightarrow> gitScratch \<Rightarrow> string vcs_op" where
  "reseed h s =
     bind_op (effect_op (tell (Remove (gs_index s)))) (\<lambda>_.
     bind_op (effect_op (tell (Remove (gs_index s @ ''.lock'')))) (\<lambda>_.
     bind_op (seedIndex h s) (\<lambda>_. wrap_op ''snapshot tree after index reseed'' (writeTree h s))))"

definition gitSnapshotTree :: "host \<Rightarrow> string \<Rightarrow> string \<Rightarrow> TreeRef vcs_op" where
  "gitSnapshotTree h repoRoot scratchDir =
     bind_op (newGitScratch h repoRoot scratchDir) (\<lambda>scratch.
     bind_op (seedIndex h scratch) (\<lambda>_.
     bind_op (try_op (writeTree h scratch) (\<lambda>r. case r of Inr oid \<Rightarrow> return_op oid | Inl _ \<Rightarrow> reseed h scratch))
       (\<lambda>oid. return_op \<lparr>tr_Backend = ''git'', tr_OID = oid\<rparr>)))"

definition jjSnapshotTree :: "host \<Rightarrow> string \<Rightarrow> TreeRef vcs_op" where
  "jjSnapshotTree h repoRoot =
     bind_op (wrap_op ''snapshot working copy'' (jj_log h repoRoot ''@'' ''commit_id''))
       (\<lambda>out. return_op \<lparr>tr_Backend = ''jj'', tr_OID = TrimSpace out\<rparr>)"

definition SnapshotTree :: "host \<Rightarrow> string \<Rightarrow> string \<Rightarrow> TreeRef vcs_op" where
  "SnapshotTree h repoRoot scratchDir =
     bind_op (detect h repoRoot) (\<lambda>(kind, dir).
       if kind = backendJJ then jjSnapshotTree h repoRoot else gitSnapshotTree h repoRoot scratchDir)"

section \<open>Diffs between snapshots\<close>

datatype TreeDiffer = jjTreeDiffer string | gitTreeDiffer string string

text \<open>An unknown backend panics: \<open>None\<close>.\<close>

definition NewTreeDiffer :: "string \<Rightarrow> string \<Rightarrow> string \<Rightarrow> TreeDiffer option" where
  "NewTreeDiffer repoRoot scratchDir kind =
     (if kind = ''jj'' then Some (jjTreeDiffer repoRoot)
      else if kind = ''git'' then Some (gitTreeDiffer repoRoot scratchDir)
      else None)"

fun tree_Diff :: "host \<Rightarrow> TreeDiffer \<Rightarrow> string \<Rightarrow> string \<Rightarrow> string vcs_op" where
  "tree_Diff h (gitTreeDiffer repoRoot scratchDir) fromOID toOID =
     bind_op (newGitScratch h repoRoot scratchDir) (\<lambda>scratch.
       wrap_op (''diff trees '' @ fromOID @ ''..'' @ toOID)
         (gitPatch h repoRoot (gs_env scratch) ''diff-tree'' [''-r'', ''-M'', ''--patch'', fromOID, toOID]))"
| "tree_Diff h (jjTreeDiffer repoRoot) fromOID toOID =
     wrap_op (''diff '' @ fromOID @ ''..'' @ toOID) (jj h repoRoot [''diff'', ''--from'', fromOID, ''--to'', toOID, ''--git''])"

section \<open>Nothing outside the scratch area is written\<close>

definition scratch_paths :: "string \<Rightarrow> string set" where
  "scratch_paths sd = {scratch_objects sd, scratch_index sd, scratch_index sd @ ''.lock''}"

text \<open>A staging command of a snapshot has both its index and its new objects in the scratch area.\<close>

fun detached :: "string \<Rightarrow> call \<Rightarrow> bool" where
  "detached sd (Exec prog dir env args) \<longleftrightarrow> (staging prog args \<longrightarrow>
     ''GIT_INDEX_FILE='' @ scratch_index sd \<in> set env \<and> ''GIT_OBJECT_DIRECTORY='' @ scratch_objects sd \<in> set env)"
| "detached sd c \<longleftrightarrow> True"

definition in_scratch :: "host \<Rightarrow> string \<Rightarrow> call list \<Rightarrow> bool" where
  "in_scratch h sd w \<longleftrightarrow> tidy h (scratch_paths sd) w \<and> list_all (detached sd) w"

lemma harmless_detached: "harmless c \<Longrightarrow> detached sd c"
  by (cases c) (auto dest: staging_not_harmless)

interpretation scratch_run: history_inv "in_scratch h sd" for h sd
  by unfold_locales (simp add: in_scratch_def harmless_tidy harmless_detached)

definition scratch_for :: "string \<Rightarrow> gitScratch \<Rightarrow> bool" where
  "scratch_for sd s \<longleftrightarrow> gs_index s = scratch_index sd \<and> (\<exists>objects. gs_env s = scratch_env sd objects)"

lemma layout_set_keeps: "keeps (in_scratch h sd) (layout_set h' keys)"
proof (rule keepsI)
  fix w show "in_scratch h sd w \<Longrightarrow> in_scratch h sd (snd (layout_set h' keys w))"
  proof (induction h' keys w rule: layout_set.induct)
    case (2 h' key keys w)
    then show ?case using scratch_run.harmless_keeps [of h sd w "Getenv key"] by (auto simp: Let_def tell_def)
  qed simp
qed

lemma repoObjectsDir_keeps: "keeps (in_scratch h sd) (repoObjectsDir h' root)"
  unfolding repoObjectsDir_def Let_def
  by (intro keeps_rules layout_set_keeps scratch_run.keeps_gitDir scratch_run.keeps_ask scratch_run.keeps_Abs) simp_all

lemma keeps_ask_step: "(\<And>w. P w \<Longrightarrow> P (w @ [c])) \<Longrightarrow> keeps P (ask f c)"
  by (simp add: keeps_def ask_def)

lemma newGitScratch_triple:
  "triple (in_scratch h sd) (newGitScratch h' root sd) (\<lambda>s w. in_scratch h sd w \<and> scratch_for sd s) (in_scratch h sd)"
proof -
  have mk: "keeps (in_scratch h sd) (ask (ho_done h') (MkdirAll (scratch_objects sd)))"
    by (rule keeps_ask_step) (simp add: in_scratch_def scratch_paths_def)
  have locate: "keeps (in_scratch h sd) (case found of Some objects \<Rightarrow> return_op objects
        | None \<Rightarrow> bind_op (wrap_op ''locate repo objects''
              (git h' root [] [''rev-parse'', ''--path-format=absolute'', ''--git-path'', ''objects''])) (\<lambda>out. return_op (TrimSpace out)))"
    for found by (intro keeps_rules scratch_run.keeps_git) (simp add: harmless_git_call)
  show ?thesis unfolding newGitScratch_def
    by (intro triple_bind [where R = "\<lambda>_. in_scratch h sd"] keeps_triple keeps_wrap mk repoObjectsDir_keeps locate triple_return)
       (auto simp: scratch_for_def)
qed

lemma seedIndex_keeps: "scratch_for sd s \<Longrightarrow> keeps (in_scratch h sd) (seedIndex h' s)"
  unfolding seedIndex_def
  by (intro keeps_rules scratch_run.keeps_ask scratch_run.keeps_git keeps_ask_step)
     (auto simp: harmless_git_call in_scratch_def scratch_paths_def scratch_for_def)

lemma writeTree_keeps: "scratch_for sd s \<Longrightarrow> keeps (in_scratch h sd) (writeTree h' s)"
  unfolding writeTree_def
  by (intro keeps_rules keeps_git_step)
     (auto simp: in_scratch_def git_call_def scratch_for_def scratch_env_def staging_def scratch_paths_def)

lemma reseed_keeps: "scratch_for sd s \<Longrightarrow> keeps (in_scratch h sd) (reseed h' s)"
  unfolding reseed_def
  by (intro keeps_rules seedIndex_keeps writeTree_keeps)
     (auto simp: keeps_def effect_op_def tell_def in_scratch_def scratch_paths_def scratch_for_def)

lemma with_scratch:
  "(\<And>s. scratch_for sd s \<Longrightarrow> keeps (in_scratch h sd) (k s)) \<Longrightarrow> keeps (in_scratch h sd) (bind_op (newGitScratch h' root sd) k)"
  by (rule triple_keeps, rule triple_bind [OF newGitScratch_triple], rule triple_pure, rule keeps_triple)

lemma SnapshotTree_keeps: "keeps (in_scratch h sd) (SnapshotTree h' root sd)"
  unfolding SnapshotTree_def gitSnapshotTree_def jjSnapshotTree_def
  by (intro keeps_rules with_scratch scratch_run.keeps_detect scratch_run.keeps_jj_log seedIndex_keeps writeTree_keeps reseed_keeps)

lemma tree_Diff_keeps: "keeps (in_scratch h sd) (tree_Diff h' (gitTreeDiffer root sd) a b)"
    "keeps (in_scratch h sd) (tree_Diff h' (jjTreeDiffer root) a b)"
proof -
  show "keeps (in_scratch h sd) (tree_Diff h' (gitTreeDiffer root sd) a b)"
    unfolding tree_Diff.simps by (intro with_scratch keeps_wrap scratch_run.keeps_gitPatch) simp
  show "keeps (in_scratch h sd) (tree_Diff h' (jjTreeDiffer root) a b)"
    unfolding tree_Diff.simps by (intro keeps_wrap scratch_run.keeps_jj) (simp add: jj_reads_def)
qed

text \<open>
  C27: The repository is left alone. In every run of a capture, a stack capture, a turn snapshot or
  a diff of two snapshots, successful or failed at any command, each call is one of: a lookup of the
  file system or a read; a lookup or a diff of git or jj with exactly the listed options (no
  other command line occurs at all, so nothing is reset, checked out or committed); \<open>git add -A\<close> or
  \<open>git write-tree\<close> with \<open>GIT_INDEX_FILE\<close> naming a temporary file the machine gave to this run, or the
  scratch index; the removal of such a temporary file, of its lock, or of the scratch index; or a write
  of a scratch path. The staging of a turn snapshot moreover puts every new object into the scratch
  object directory; that of a capture adds blobs to the repository's own object store, which
  the statement allows. jj records the working copy in its own store whenever it runs.
\<close>

theorem repository_untouched:
  "tidy h {} (snd (Capture h pt cwd base [])) \<and> tidy h {} (snd (CaptureAt h pt cwd base [])) \<and>
   tidy h {} (snd (CaptureStack h pt decode cwd [])) \<and>
   in_scratch h sd (snd (SnapshotTree h root sd [])) \<and>
   in_scratch h sd (snd (tree_Diff h (gitTreeDiffer root sd) a b [])) \<and>
   in_scratch h sd (snd (tree_Diff h (jjTreeDiffer root) a b []))"
proof -
  have "tidy h A []" "in_scratch h sd []" for A by (simp_all add: tidy_def in_scratch_def)
  then show ?thesis
    by (intro conjI keepsD [OF Capture_tidy(1)] keepsD [OF Capture_tidy(2)] keepsD [OF CaptureStack_tidy]
        keepsD [OF SnapshotTree_keeps] keepsD [OF tree_Diff_keeps(1)] keepsD [OF tree_Diff_keeps(2)])
qed

end
