(* ===== verification/Vcs_Turns.thy ===== *)
theory Vcs_Turns
  imports Model_Types
begin

text \<open>
  The turn ledger (\<open>vcs/turns.go\<close>): one row per prompt of a window in a repository, bracketed by
  two tree snapshots. Row ids come from the table's AUTOINCREMENT counter, so they ascend and
  are never used twice. Instants are Unix milliseconds. A call that the engine refuses leaves
  the table as it was; a driver that cannot report the id or the number of rows fails after
  the statement has taken effect, which is the second outcome of two operations.
\<close>

section \<open>The ledger\<close>

record Turn =
  tn_ID :: int
  tn_RepoRoot :: string
  tn_Backend :: string
  tn_SessionID :: string
  tn_ClaudePID :: int
  tn_PromptExcerpt :: string
  tn_TreeStart :: string
  tn_TreeEnd :: string
  tn_Status :: string
  tn_StartedAt :: int
  tn_EndedAt :: int

record TurnStore =
  ts_rows :: "Turn list"
  ts_sequence :: int

definition in_window :: "string \<Rightarrow> int \<Rightarrow> Turn \<Rightarrow> bool" where
  "in_window repoRoot pid t \<longleftrightarrow> tn_RepoRoot t = repoRoot \<and> tn_ClaudePID t = pid \<and> tn_Status t = ''open''"

text \<open>\<open>ORDER BY id\<close>, and the newest row of a selection.\<close>

definition by_id :: "Turn list \<Rightarrow> Turn list" where
  "by_id rows = sort_key tn_ID rows"

definition newest :: "(Turn \<Rightarrow> bool) \<Rightarrow> TurnStore \<Rightarrow> Turn option" where
  "newest P d = find_first P (rev (by_id (ts_rows d)))"

definition refused :: "string \<Rightarrow> string \<Rightarrow> 'a result" where
  "refused op m = Inl (ErrWrap op (ErrDriver m))"

definition CreateTurn :: "outcome \<Rightarrow> outcome \<Rightarrow> int \<Rightarrow> Turn \<Rightarrow> TurnStore \<Rightarrow> Turn result \<times> TurnStore" where
  "CreateTurn flt flt' nowMs t d =
     (let rowID = ts_sequence d + 1; row = t\<lparr>tn_ID := rowID, tn_Status := ''open'', tn_StartedAt := nowMs\<rparr>
      in case flt of
           Some m \<Rightarrow> (refused ''create turn'' m, d)
         | None \<Rightarrow>
             (case flt' of None \<Rightarrow> Inr row | Some m \<Rightarrow> refused ''create turn'' m,
              d\<lparr>ts_rows := ts_rows d @ [row], ts_sequence := rowID\<rparr>))"

definition CloseTurn :: "outcome \<Rightarrow> int \<Rightarrow> int \<Rightarrow> string \<Rightarrow> string \<Rightarrow> TurnStore \<Rightarrow> unit result \<times> TurnStore" where
  "CloseTurn flt nowMs turnID treeEnd status d =
     (case flt of
        Some m \<Rightarrow> (refused ''close turn'' m, d)
      | None \<Rightarrow> (Inr (), d\<lparr>ts_rows := map (\<lambda>t. if tn_ID t = turnID
          then t\<lparr>tn_TreeEnd := treeEnd, tn_Status := status, tn_EndedAt := nowMs\<rparr> else t) (ts_rows d)\<rparr>))"

definition CloseOpenTurnsForWindow :: "outcome \<Rightarrow> outcome \<Rightarrow> int \<Rightarrow> string \<Rightarrow> int \<Rightarrow> TurnStore \<Rightarrow> int result \<times> TurnStore" where
  "CloseOpenTurnsForWindow flt flt' nowMs repoRoot pid d =
     (case flt of
        Some m \<Rightarrow> (refused ''close open turns'' m, d)
      | None \<Rightarrow>
          (case flt' of
             None \<Rightarrow> Inr (int (length (filter (in_window repoRoot pid) (ts_rows d))))
           | Some m \<Rightarrow> refused ''close open turns'' m,
           d\<lparr>ts_rows := map (\<lambda>t. if in_window repoRoot pid t
             then t\<lparr>tn_Status := ''interrupted'', tn_EndedAt := nowMs\<rparr> else t) (ts_rows d)\<rparr>))"

definition LatestOpenTurn :: "outcome \<Rightarrow> string \<Rightarrow> int \<Rightarrow> TurnStore \<Rightarrow> Turn option result" where
  "LatestOpenTurn flt repoRoot pid d =
     (case flt of Some m \<Rightarrow> Inl (ErrDriver m) | None \<Rightarrow> Inr (newest (in_window repoRoot pid) d))"

definition OpenTurnCount :: "outcome \<Rightarrow> string \<Rightarrow> TurnStore \<Rightarrow> int result" where
  "OpenTurnCount flt repoRoot d =
     (case flt of
        Some m \<Rightarrow> refused ''count open turns'' m
      | None \<Rightarrow> Inr (int (length (filter (\<lambda>t. tn_RepoRoot t = repoRoot \<and> tn_Status t = ''open'') (ts_rows d)))))"

definition LatestClosedTurn :: "outcome \<Rightarrow> string \<Rightarrow> int \<Rightarrow> TurnStore \<Rightarrow> Turn option result" where
  "LatestClosedTurn flt repoRoot sinceMs d =
     (case flt of
        Some m \<Rightarrow> Inl (ErrDriver m)
      | None \<Rightarrow> Inr (newest (\<lambda>t. tn_RepoRoot t = repoRoot \<and> sinceMs \<le> tn_StartedAt t \<and> tn_TreeEnd t \<noteq> []) d))"

definition GetTurn :: "outcome \<Rightarrow> int \<Rightarrow> TurnStore \<Rightarrow> Turn result" where
  "GetTurn flt turnID d =
     (case flt of
        Some m \<Rightarrow> Inl (ErrDriver m)
      | None \<Rightarrow> (case find_first (\<lambda>t. tn_ID t = turnID) (ts_rows d) of None \<Rightarrow> Inl ErrTurnNotFound | Some t \<Rightarrow> Inr t))"

definition ListTurnsBySession :: "outcome \<Rightarrow> string \<Rightarrow> TurnStore \<Rightarrow> Turn list result" where
  "ListTurnsBySession flt sessionID d =
     (case flt of
        Some m \<Rightarrow> refused ''list turns by session'' m
      | None \<Rightarrow> Inr (by_id (filter (\<lambda>t. tn_SessionID t = sessionID) (ts_rows d))))"

definition ListAttributableTurns :: "outcome \<Rightarrow> string \<Rightarrow> int \<Rightarrow> TurnStore \<Rightarrow> Turn list result" where
  "ListAttributableTurns flt repoRoot sinceMs d =
     (case flt of
        Some m \<Rightarrow> refused ''list attributable turns'' m
      | None \<Rightarrow> Inr (take 1000 (by_id (filter (\<lambda>t. tn_RepoRoot t = repoRoot \<and> sinceMs \<le> tn_StartedAt t) (ts_rows d)))))"

definition ListTurnsByIDs :: "outcome \<Rightarrow> int list \<Rightarrow> TurnStore \<Rightarrow> Turn list result" where
  "ListTurnsByIDs flt ids d =
     (if ids = [] then Inr []
      else case flt of
             Some m \<Rightarrow> refused ''list turns by ids'' m
           | None \<Rightarrow> Inr (by_id (filter (\<lambda>t. tn_ID t \<in> set ids) (ts_rows d))))"

section \<open>The invariant\<close>

definition turns_inv :: "TurnStore \<Rightarrow> bool" where
  "turns_inv d \<longleftrightarrow> sorted_wrt (<) (map tn_ID (ts_rows d)) \<and> (\<forall>t \<in> set (ts_rows d). tn_ID t \<le> ts_sequence d)"

lemma turns_inv_distinct: "turns_inv d \<Longrightarrow> distinct (map tn_ID (ts_rows d))"
  by (simp add: turns_inv_def strict_sorted_iff)

lemma by_id_rows: "turns_inv d \<Longrightarrow> by_id (filter P (ts_rows d)) = filter P (ts_rows d)"
  unfolding by_id_def turns_inv_def by (intro sort_key_id sorted_distinct_map_filter) (simp add: strict_sorted_imp_sorted)

lemma newest_rows: "turns_inv d \<Longrightarrow> newest P d = find_first P (rev (ts_rows d))"
  using by_id_rows [of d "\<lambda>_. True"] by (simp add: newest_def)

lemma turns_inv_map:
  "turns_inv d \<Longrightarrow> (\<And>t. tn_ID (f t) = tn_ID t) \<Longrightarrow> turns_inv (d\<lparr>ts_rows := map f (ts_rows d)\<rparr>)"
  by (simp add: turns_inv_def comp_def)

lemma CreateTurn_inv: "turns_inv d \<Longrightarrow> turns_inv (snd (CreateTurn flt flt' nowMs t d))"
  by (auto simp: CreateTurn_def Let_def turns_inv_def sorted_wrt_append split: option.split)

lemma CloseTurn_inv: "turns_inv d \<Longrightarrow> turns_inv (snd (CloseTurn flt nowMs turnID treeEnd status d))"
  by (auto simp: CloseTurn_def intro!: turns_inv_map split: option.split)

lemma CloseOpenTurns_inv: "turns_inv d \<Longrightarrow> turns_inv (snd (CloseOpenTurnsForWindow flt flt' nowMs repoRoot pid d))"
  by (auto simp: CloseOpenTurnsForWindow_def intro!: turns_inv_map split: option.split)

section \<open>A turn from start to end\<close>

lemma fresh_id: "turns_inv d \<Longrightarrow> t \<in> set (ts_rows d) \<Longrightarrow> tn_ID t \<noteq> ts_sequence d + 1"
  by (auto simp: turns_inv_def)

lemma find_first_map:
  "(\<And>x. x \<in> set xs \<Longrightarrow> P (f x) \<longleftrightarrow> P x) \<Longrightarrow> find_first P (map f xs) = map_option f (find_first P xs)"
  by (induction xs) auto

lemma map_other_ids: "(\<And>t. t \<in> set rows \<Longrightarrow> tn_ID t \<noteq> n) \<Longrightarrow> map (\<lambda>t. if tn_ID t = n then g t else t) rows = rows"
  by (induction rows) auto

lemma interrupt_exact:
  assumes "turns_inv d"
  shows "\<exists>n e. CloseOpenTurnsForWindow None None endMs repo pid d = (Inr n, e) \<and>
      LatestOpenTurn None repo pid e = Inr None \<and>
      OpenTurnCount None repo e = map_sum id (\<lambda>m. m - n) (OpenTurnCount None repo d)"
proof -
  define f where "f = (\<lambda>t. if in_window repo pid t then t\<lparr>tn_Status := ''interrupted'', tn_EndedAt := endMs\<rparr> else t)"
  let ?e = "d\<lparr>ts_rows := map f (ts_rows d)\<rparr>"
  have inv: "turns_inv ?e" by (rule turns_inv_map [OF assms]) (simp add: f_def)
  have "\<not> in_window repo pid (f t)" for t by (simp add: f_def in_window_def)
  then have "newest (in_window repo pid) ?e = None"
    unfolding newest_rows [OF inv] find_first_None by auto
  moreover have "int (length (filter (\<lambda>t. tn_RepoRoot t = repo \<and> tn_Status t = ''open'') (map f rows))) =
      int (length (filter (\<lambda>t. tn_RepoRoot t = repo \<and> tn_Status t = ''open'') rows)) - int (length (filter (in_window repo pid) rows))"
    for rows by (induction rows) (auto simp: in_window_def f_def)
  ultimately show ?thesis
    by (simp add: CloseOpenTurnsForWindow_def LatestOpenTurn_def OpenTurnCount_def flip: f_def)
qed

text \<open>
  The turn ledger brackets a turn. A turn that is created is the newest open turn of its
  window, is found under its id, raises the open count of its repository by one and changes
  no other row. Closing it with a tree makes it the tip of its repository, found with that
  tree, and gives back the window's earlier newest open turn and open count. Interrupting a
  window reports exactly how many turns were open there, leaves none open and lowers the
  repository's count by that number.
\<close>

theorem turn_ledger_brackets:
  assumes "turns_inv d"
    and "CreateTurn None None nowMs t d = (Inr t', d')"
    and "CloseTurn None endMs (tn_ID t') treeEnd status d' = (Inr (), d'')" and "treeEnd \<noteq> []" and "status \<noteq> ''open''"
  shows "turns_inv d' \<and> turns_inv d'' \<and>
    LatestOpenTurn None (tn_RepoRoot t) (tn_ClaudePID t) d' = Inr (Some t') \<and> GetTurn None (tn_ID t') d' = Inr t' \<and>
    (\<forall>n. n \<noteq> tn_ID t' \<longrightarrow> GetTurn None n d'' = GetTurn None n d) \<and>
    OpenTurnCount None (tn_RepoRoot t) d' = map_sum id (\<lambda>n. n + 1) (OpenTurnCount None (tn_RepoRoot t) d) \<and>
    (\<forall>since \<le> nowMs. LatestClosedTurn None (tn_RepoRoot t) since d'' =
      Inr (Some (t'\<lparr>tn_TreeEnd := treeEnd, tn_Status := status, tn_EndedAt := endMs\<rparr>))) \<and>
    (\<forall>repo pid. LatestOpenTurn None repo pid d'' = LatestOpenTurn None repo pid d) \<and>
    (\<forall>repo. OpenTurnCount None repo d'' = OpenTurnCount None repo d) \<and>
    (\<forall>repo pid. \<exists>n e. CloseOpenTurnsForWindow None None endMs repo pid d = (Inr n, e) \<and>
      LatestOpenTurn None repo pid e = Inr None \<and>
      OpenTurnCount None repo e = map_sum id (\<lambda>m. m - n) (OpenTurnCount None repo d))"
proof -
  define t'' where "t'' = t'\<lparr>tn_TreeEnd := treeEnd, tn_Status := status, tn_EndedAt := endMs\<rparr>"
  have t': "t' = t\<lparr>tn_ID := ts_sequence d + 1, tn_Status := ''open'', tn_StartedAt := nowMs\<rparr>"
    and d': "d' = d\<lparr>ts_rows := ts_rows d @ [t'], ts_sequence := ts_sequence d + 1\<rparr>"
    using assms(2) by (auto simp: CreateTurn_def Let_def)
  have d'': "d'' = d\<lparr>ts_rows := ts_rows d @ [t''], ts_sequence := ts_sequence d + 1\<rparr>"
    using assms(3) map_other_ids [of "ts_rows d" "ts_sequence d + 1"] fresh_id [OF assms(1)]
    by (auto simp: CloseTurn_def d' t' t''_def)
  have inv: "turns_inv d'" "turns_inv d''"
    using CreateTurn_inv [OF assms(1), of None None nowMs t] CloseTurn_inv [of d' None endMs "tn_ID t'" treeEnd status] assms(2,3)
    by simp_all
  note rows = newest_rows [OF inv(1)] newest_rows [OF inv(2)] newest_rows [OF assms(1)]
  have new: "tn_ID t' = ts_sequence d + 1" "tn_ID t'' = tn_ID t'" by (simp_all add: t' t''_def)
  have fresh: "find_first (\<lambda>t. tn_ID t = ts_sequence d + 1) (ts_rows d) = None"
    using fresh_id [OF assms(1)] by (auto simp: find_first_None)
  have "LatestOpenTurn None (tn_RepoRoot t) (tn_ClaudePID t) d' = Inr (Some t')"
    by (simp add: LatestOpenTurn_def rows) (simp add: d' t' in_window_def)
  moreover have "GetTurn None (tn_ID t') d' = Inr t'"
    by (simp add: GetTurn_def find_first_append new fresh d')
  moreover have "\<forall>n. n \<noteq> tn_ID t' \<longrightarrow> GetTurn None n d'' = GetTurn None n d"
    by (simp add: GetTurn_def find_first_append d'' new split: option.split)
  moreover have "OpenTurnCount None (tn_RepoRoot t) d' = map_sum id (\<lambda>n. n + 1) (OpenTurnCount None (tn_RepoRoot t) d)"
    by (simp add: OpenTurnCount_def d' t')
  moreover have "\<forall>since \<le> nowMs. LatestClosedTurn None (tn_RepoRoot t) since d'' = Inr (Some t'')"
    using assms(4) by (simp add: LatestClosedTurn_def rows) (simp add: d'' t''_def t')
  moreover have "\<forall>repo pid. LatestOpenTurn None repo pid d'' = LatestOpenTurn None repo pid d"
    using assms(5) by (simp add: LatestOpenTurn_def rows) (simp add: d'' t''_def in_window_def)
  moreover have "\<forall>repo. OpenTurnCount None repo d'' = OpenTurnCount None repo d"
    using assms(5) by (simp add: OpenTurnCount_def d'' t''_def)
  ultimately show ?thesis using inv interrupt_exact [OF assms(1)] unfolding t''_def by blast
qed

definition sample_turn :: Turn where
  "sample_turn = \<lparr>tn_ID = 0, tn_RepoRoot = ''/r'', tn_Backend = ''git'', tn_SessionID = ''s'', tn_ClaudePID = 7,
     tn_PromptExcerpt = ''p'', tn_TreeStart = ''a'', tn_TreeEnd = [], tn_Status = [], tn_StartedAt = 0, tn_EndedAt = 0\<rparr>"

theorem turn_ledger_brackets_witness:
  "\<exists>t' d' d''. CreateTurn None None 5 sample_turn \<lparr>ts_rows = [], ts_sequence = 3\<rparr> = (Inr t', d') \<and>
     CloseTurn None 9 (tn_ID t') ''b'' ''closed'' d' = (Inr (), d'') \<and>
     LatestOpenTurn None ''/r'' 7 d' = Inr (Some t') \<and> LatestOpenTurn None ''/r'' 7 d'' = Inr None"
proof -
  let ?d = "\<lparr>ts_rows = [], ts_sequence = 3\<rparr>"
  have inv: "turns_inv ?d" by (simp add: turns_inv_def)
  obtain t' d' d'' where r: "CreateTurn None None 5 sample_turn ?d = (Inr t', d')"
    "CloseTurn None 9 (tn_ID t') ''b'' ''closed'' d' = (Inr (), d'')"
    by (simp add: CreateTurn_def CloseTurn_def Let_def)
  have "LatestOpenTurn None (tn_RepoRoot sample_turn) (tn_ClaudePID sample_turn) d' = Inr (Some t')"
    "LatestOpenTurn None ''/r'' 7 d'' = LatestOpenTurn None ''/r'' 7 ?d"
    using turn_ledger_brackets [OF inv r] by simp_all
  moreover have "LatestOpenTurn None ''/r'' 7 ?d = Inr None"
    by (simp add: LatestOpenTurn_def newest_def by_id_def)
  ultimately show ?thesis using r by (auto simp: sample_turn_def)
qed

end
