(* ===== verification/Spec2Isabelle.thy ===== *)
theory Spec2Isabelle
  imports Await_Tool Channel_Prompts Channel_Server Channel_Setup Connectivity Cursor_Seed Daemon_New Echo Hooks Launcher Procs Sniff Static_Files Stream_Url Streams Tailnet Daemon_Lifecycle Http_Serve Store_Open Vcs_Tree Vcs_Turns
begin

text \<open>
  A verification development for \<open>cc-interact\<close>, the substrate with which several Claude Code
  windows, a browser and a set of sub-agents share one background daemon. All paths below are
  relative to the root of the repository; the modelled code is the Go code.

  \<^bold>\<open>The program.\<close> One daemon per machine owns a SQLite store with a table of subjects (the
  thing a window works on), an append-only event log per subject, the registry of running
  agents and a mailbox of directives per agent. Hooks and commands reach it over a socket:
  one envelope, one reply (\<open>daemon/handlers.go\<close>, \<open>daemon/agents.go\<close>). Every event enters
  the log through \<open>Server.Append\<close>, which wakes the subject's streams through a bus and tees
  the event into the mailboxes of subscribed agents. Streams are server-sent events over HTTP
  (\<open>sse/sse.go\<close>), read by a client that keeps a cursor file (\<open>consume/consume.go\<close>) and
  reconnects. Agents receive directives through a long poll, a tool hook or the stop gate.

  \<^bold>\<open>Layers and theories.\<close> Each theory opens with the correspondence to its sources.

  \<^item> \<open>Prelude\<close>, \<open>Model_Types\<close>, \<open>Go_Strings\<close>, \<open>Json\<close>, \<open>Paths\<close>: errors, time, the
    structs of \<open>agent\<close>, \<open>event\<close> and \<open>subject\<close>, the four tables; the parts of \<open>strings\<close>,
    \<open>strconv\<close>, \<open>encoding/json\<close> and \<open>path/filepath\<close> that the code uses; the transition
    systems and their invariants (locale \<open>invariant_of\<close>).
  \<^item> \<open>Store_Events\<close> (\<open>store/events.go\<close>): dense numbering of each log, suppression by dedup
    key, resumption after a cursor; the reading side is the locale \<open>event_log\<close>, which the
    SQL tables interpret and on which the stream theorems rest.
  \<^item> \<open>Store_Agents\<close> (\<open>store/agents.go\<close>, \<open>store/directives.go\<close>): every statement of the two
    tables; a mailbox loses nothing and hands nothing out twice (locale
    \<open>conserving_queue\<close>).
  \<^item> \<open>Store_Engine\<close>: the running store with the outcome the engine reports to each call and
    the clock, the actions over it and the triples the handlers are proved with.
  \<^item> \<open>Subject_Store\<close>, \<open>Subject_Resolver\<close> (\<open>store/subjectstore.go\<close>, \<open>subject/\<close>): the
    locale \<open>subject_contract\<close> states the interface \<open>subject.Store\<close>; the resolver's ownership
    theorems are proved from the contract and the SQL implementation interprets it.
  \<^item> \<open>Store_Open\<close> (\<open>store/store.go\<close>, \<open>store/schema_archive.go\<close>): the exact-schema rule, and
    archival of a drifted store by concurrent openers.
  \<^item> \<open>Event_Bus\<close>, \<open>Park_Registry\<close>, \<open>Workers\<close>, \<open>Activity\<close>: the concurrent registries of the
    daemon, each with its step relation or its bookkeeping invariant: no lost wakeup, no await
    asleep on a directive, a drain that ends with the last worker, presence that is the set
    of open streams.
  \<^item> \<open>Daemon_Core\<close>, \<open>Daemon_Agents\<close>, \<open>Subscription_Rebuild\<close>, \<open>Edit_Scope\<close>,
    \<open>Daemon_Handlers\<close>: the state of the server, the append with its tee, the agent plane,
    the op table and the core handlers, each handler whole, from decoding to reply.
  \<^item> \<open>Sse\<close>, \<open>Consume\<close>, \<open>Cursor_Seed\<close>, \<open>Stream_Url\<close>: the server and the client end of a stream;
    composed, the bytes the server writes are the bytes the client needs to resume, and the
    request the client sends is the request the handler reads. \<open>Connectivity\<close>: the presence
    events a channel keeps in the log.
  \<^item> \<open>Daemon_Lifecycle\<close>, \<open>Daemon_New\<close>, \<open>Http_Auth\<close>, \<open>Http_Serve\<close>, \<open>Static_Files\<close>: building a
    daemon, activation, drain and close as a transition system; admission of HTTP requests;
    binding and publishing listeners; the files of a web app.
  \<^item> \<open>Launcher\<close>, \<open>Procs\<close> (\<open>daemon/launcher.go\<close>, \<open>daemon/client.go\<close>, \<open>procs/\<close>): concurrent
    launchers around one daemon, the client, the identity of a window.
  \<^item> \<open>Tailnet\<close>, \<open>Sniff\<close> (\<open>tailnet/\<close>): the legs on mesh addresses, the certificate, and the
    listener that tells TLS from plain HTTP by its first byte.
  \<^item> \<open>Channel_Server\<close>, \<open>Await_Tool\<close>, \<open>Channel_Prompts\<close>, \<open>Channel_Setup\<close> (\<open>channel/\<close>,
    \<open>channelsetup/\<close>): the MCP server with its goroutines, its await tool, its texts, and the
    approval of the plugin in the managed settings.
  \<^item> \<open>Hooks\<close>, \<open>Streams\<close> (\<open>cmd/\<close>, \<open>channel/stream.go\<close>, \<open>transcript/\<close>): the commands over the
    launcher and the client, byte for byte what they write; the watch and the channel over the
    stream consumer.
  \<^item> \<open>Vcs_Host\<close>, \<open>Vcs_Capture\<close>, \<open>Vcs_Files\<close>, \<open>Vcs_Stack\<close>, \<open>Vcs_Graphite\<close>, \<open>Vcs_Tree\<close>,
    \<open>Vcs_Turns\<close> (\<open>vcs/\<close>): captures of a repository with git and jj as programs over a machine
    that answers each command and may move between commands, stacks of branches, snapshots of
    turns and their ledger.
  \<^item> \<open>Echo\<close> (\<open>examples/echo\<close>): a whole consumer assembled from the above and run.

  \<^bold>\<open>Locales.\<close> The interfaces are locales, each interpreted on the model in the theory of its
  provider: \<open>conserving_queue\<close> (mailboxes), \<open>event_log\<close> (the events table, and the reading side
  of streams), \<open>subject_contract\<close> (the SQL subject store), \<open>invariant_of\<close> (the step relations
  of the concurrent components), \<open>history_inv\<close> (what harmless commands keep of a machine's history).

  \<^bold>\<open>What the properties say.\<close> Safety and conservation: numbering and resumption of logs,
  directives delivered at most once, ownership of subjects, streams and consumers exact over any
  failures, the store closed last, edits refused, requests admitted, one archive, one answer per
  call, no connection leaked, no daemon rolled back, repositories left alone. Refinement and
  equivalence: subscriptions after a restart, the server and the client of a stream, sections of
  a stack, the walk over processes. Liveness and termination: no lost wakeup, no await asleep on
  a directive, appends and dispatches that return, awaits within their window. Bounds: the stop
  gate's budget, the pauses of a waiting channel. Type: what \<open>New\<close> returns. Errors: a failed
  start of the HTTP plane. Functional: the resolver, a whole conversation of the example.

  \<^bold>\<open>Conventions.\<close> A Go function that fails returns \<open>go_error + 'a\<close>; one that changes the
  state of the daemon is an \<open>op\<close>, a function from the state to a result and the new state.
  Calls to SQLite consume one outcome of a fault stream each, so every theorem about a handler
  covers a failure at each of its calls. The clock is a stream of increments. JSON decoding of
  request bodies, the consumer's callbacks (\<open>Config\<close>), SHA-256, SQLite's own schema
  comparison, the process table and the network are arguments of the definitions.
  Numbers are \<open>int\<close> where the code cannot reach the bounds of its type, and wrap at 64 bits
  where it can (the await timeout).

  \<^bold>\<open>Termination.\<close> \<open>Server.Append\<close> calls itself through the tee. Its model takes fuel and
  returns \<open>None\<close> when the fuel runs out; two levels are enough as soon as no agent subscribes
  to the event types a directive appends, because a tee appends only those; without that hypothesis
  no amount of fuel suffices. Both are proved, and the handlers carry the hypothesis as the
  predicate \<open>quiet\<close> on the state. All other loops are structural or have a measure.

  Loops that wait for something outside the program (a poll for a subject, the reconnects of a
  stream, the rounds of the reconcile loop, the passes of an await) run over a list of what each
  wait met; a result of \<open>None\<close> means that the waits given have not ended the loop, and the
  theorems that a loop ends say which waits suffice.

  \<^bold>\<open>Not modelled.\<close> The rendering of wrapped errors to text, except where a command or a reply
  writes it; HTTP headers, flushing and TLS; the wire protocol, launchd and process management of
  \<open>daemonkit\<close> and the mesh provider, which are not part of the repository; the flags and command
  tables of \<open>cobra\<close> (\<open>DaemonCmd\<close> only calls \<open>Serve\<close>); the generator
  \<open>daemon/protocolgen\<close>, whose output \<open>WireBuild\<close> is; \<open>internal/testhome\<close> and \<open>version\<close>.
\<close>

end
